(* ===== verification/Prelude.thy ===== *)
theory Prelude
  imports Main "HOL-Library.Sublist" "HOL-Library.Code_Target_Numeral"
begin

text \<open>
  Shared vocabulary of the development: the result type of fallible Go functions, the
  collections of facts the component theories add to, and the list, map and decimal lemmas
  that more than one component uses.

  Go conventions, used by every theory:
  \<^item> a Go \<open>string\<close> or \<open>[]byte\<close> is a \<open>string\<close>, a list of bytes; \<open>len(s)\<close> is its length;
  \<^item> \<open>(T, error)\<close> is \<open>'e + 'a\<close>: \<open>Inl e\<close> for a non-nil error, \<open>Inr v\<close> for a nil one;
    a Go function that returns only an \<open>error\<close> has result \<open>'e + unit\<close>;
  \<^item> a pointer that the code compares with \<open>nil\<close> is an \<open>'a option\<close>;
  \<^item> an \<open>int\<close> that counts bytes, runes, messages or tokens is an \<open>int\<close> or \<open>nat\<close> without
    bound: no such count reaches \<open>2 ^ 63\<close>. Widths are kept where the code depends on them
    (event ordinals, IP addresses).
\<close>

section \<open>Collections of facts\<close>

named_theorems go_defs \<open>definitions of Go library functions, to unfold\<close>
named_theorems go_simps \<open>computation rules of the model\<close>
named_theorems inv_intros \<open>one preservation rule per operation of a component\<close>

section \<open>Fallible functions\<close>

text \<open>\<open>v, err := f(); if err != nil { return err }\<close>, the early return of an error.\<close>

definition bind_res :: "'e + 'a \<Rightarrow> ('a \<Rightarrow> 'e + 'b) \<Rightarrow> 'e + 'b" where
  "bind_res r f = (case r of Inl e \<Rightarrow> Inl e | Inr v \<Rightarrow> f v)"

definition is_ok :: "'e + 'a \<Rightarrow> bool" where
  "is_ok r = (case r of Inl _ \<Rightarrow> False | Inr _ \<Rightarrow> True)"

lemma bind_res_simps [simp]:
  "bind_res (Inl e) f = Inl e"
  "bind_res (Inr v) f = f v"
  by (simp_all add: bind_res_def)

lemma bind_res_Inr_iff:
  "bind_res r f = Inr y \<longleftrightarrow> (\<exists>x. r = Inr x \<and> f x = Inr y)"
  by (cases r) auto

lemma bind_res_Inl_iff:
  "bind_res r f = Inl e \<longleftrightarrow> r = Inl e \<or> (\<exists>x. r = Inr x \<and> f x = Inl e)"
  by (cases r) auto

lemma is_ok_simps [simp]: "is_ok (Inl e) = False" "is_ok (Inr v) = True"
  by (simp_all add: is_ok_def)

lemma is_ok_iff: "is_ok r \<longleftrightarrow> (\<exists>v. r = Inr v)"
  by (cases r) auto

section \<open>Lists\<close>

lemma length_concat_ge_mem:
  "x \<in> set xs \<Longrightarrow> length x \<le> length (concat xs)"
  by (induction xs) auto

lemma drop_Suc_nth:
  "i < length xs \<Longrightarrow> drop i xs = xs ! i # drop (Suc i) xs"
  by (rule Cons_nth_drop_Suc [symmetric])

lemma suffix_drop_length:
  "suffix ys xs \<longleftrightarrow> length ys \<le> length xs \<and> drop (length xs - length ys) xs = ys"
proof
  assume "suffix ys xs"
  then obtain zs where "xs = zs @ ys" by (auto simp: suffix_def)
  then show "length ys \<le> length xs \<and> drop (length xs - length ys) xs = ys" by simp
next
  assume "length ys \<le> length xs \<and> drop (length xs - length ys) xs = ys"
  then show "suffix ys xs" by (metis suffix_drop)
qed

text \<open>The last index of a list whose element satisfies a predicate: the backward scan
  \<open>for i := len(xs)-1; i >= 0; i--\<close> that several components share.\<close>

fun last_index_of :: "('a \<Rightarrow> bool) \<Rightarrow> 'a list \<Rightarrow> nat option" where
  "last_index_of P [] = None"
| "last_index_of P (x # xs) =
     (case last_index_of P xs of
        Some i \<Rightarrow> Some (Suc i)
      | None \<Rightarrow> (if P x then Some 0 else None))"

lemma last_index_of_None: "last_index_of P xs = None \<longleftrightarrow> (\<forall>x \<in> set xs. \<not> P x)"
  by (induction xs) (auto split: option.splits)

lemma last_index_of_Some:
  "last_index_of P xs = Some i \<Longrightarrow>
     i < length xs \<and> P (xs ! i) \<and> (\<forall>j. i < j \<and> j < length xs \<longrightarrow> \<not> P (xs ! j))"
proof (induction xs arbitrary: i)
  case (Cons x xs)
  show ?case
  proof (cases "last_index_of P xs")
    case None
    then have "\<forall>y \<in> set xs. \<not> P y" by (simp add: last_index_of_None)
    with Cons.prems None show ?thesis by (auto simp: nth_Cons' split: if_splits)
  next
    case (Some j)
    with Cons.prems have "i = Suc j" by simp
    with Cons.IH [OF Some] show ?thesis
      by (auto simp: nth_Cons split: nat.splits)
  qed
qed simp

lemma last_index_of_drop:
  "last_index_of P xs = Some i \<Longrightarrow> \<forall>x \<in> set (drop (Suc i) xs). \<not> P x"
  by (auto dest!: last_index_of_Some simp: in_set_conv_nth)

section \<open>Decimal numerals\<close>

text \<open>The byte of a number below 256, with an equation that evaluates.\<close>

definition chr :: "nat \<Rightarrow> char" where
  [simp]: "chr n = char_of n"

lemma chr_code [code]:
  "chr n = Char (odd n) (odd (n div 2)) (odd (n div 4)) (odd (n div 8))
     (odd (n div 16)) (odd (n div 32)) (odd (n div 64)) (odd (n div 128))"
  by (simp add: char_of_def bit_iff_odd)

text \<open>\<open>fmt.Sprintf("%d", n)\<close> and \<open>strconv.ParseUint(s, 10, 64)\<close>.\<close>

fun digit_char :: "nat \<Rightarrow> char" where
  "digit_char d = chr (48 + d)"

fun dec_of_nat :: "nat \<Rightarrow> string" where
  "dec_of_nat n = (if n < 10 then [digit_char n] else dec_of_nat (n div 10) @ [digit_char (n mod 10)])"

declare dec_of_nat.simps [simp del]

definition is_digit :: "char \<Rightarrow> bool" where
  "is_digit c \<longleftrightarrow> 48 \<le> (of_char c :: nat) \<and> (of_char c :: nat) \<le> 57"

definition digit_val :: "char \<Rightarrow> nat" where
  "digit_val c = of_char c - 48"

text \<open>The accumulating loop: \<open>None\<close> stands for the syntax error.\<close>

fun dec_value :: "nat \<Rightarrow> string \<Rightarrow> nat option" where
  "dec_value acc [] = Some acc"
| "dec_value acc (c # s) = (if is_digit c then dec_value (10 * acc + digit_val c) s else None)"

text \<open>The empty string is a syntax error; a value of \<open>2 ^ 64\<close> or more is a range error.\<close>

definition parse_uint64 :: "string \<Rightarrow> nat option" where
  "parse_uint64 s =
     (if s = [] then None
      else case dec_value 0 s of
        None \<Rightarrow> None
      | Some n \<Rightarrow> (if n < 2 ^ 64 then Some n else None))"

lemma digit_char_props [simp]:
  "d < 10 \<Longrightarrow> is_digit (char_of (48 + d))"
  "d < 10 \<Longrightarrow> digit_val (char_of (48 + d)) = d"
  by (simp_all add: is_digit_def digit_val_def of_char_of)

lemma dec_value_append:
  "dec_value acc (s @ t) = (case dec_value acc s of None \<Rightarrow> None | Some n \<Rightarrow> dec_value n t)"
  by (induction s arbitrary: acc) auto

lemma dec_of_nat_not_Nil [simp]: "dec_of_nat n \<noteq> []"
  by (subst dec_of_nat.simps) simp

lemma dec_value_dec_of_nat: "dec_value 0 (dec_of_nat n) = Some n"
proof (induction n rule: dec_of_nat.induct)
  case (1 n)
  show ?case
  proof (cases "n < 10")
    case True
    then show ?thesis by (subst dec_of_nat.simps) simp
  next
    case False
    with "1.IH" have "dec_value 0 (dec_of_nat (n div 10)) = Some (n div 10)" by simp
    with False show ?thesis by (subst dec_of_nat.simps) (simp add: dec_value_append)
  qed
qed

lemma parse_uint64_dec_of_nat: "n < 2 ^ 64 \<Longrightarrow> parse_uint64 (dec_of_nat n) = Some n"
  by (simp add: parse_uint64_def dec_value_dec_of_nat)

lemma dec_of_nat_inject [simp]: "dec_of_nat m = dec_of_nat n \<longleftrightarrow> m = n"
  by (metis dec_value_dec_of_nat option.inject)

lemma dec_of_nat_digits: "c \<in> set (dec_of_nat n) \<Longrightarrow> is_digit c"
proof (induction n rule: dec_of_nat.induct)
  case (1 n)
  show ?case
  proof (cases "n < 10")
    case True
    with "1.prems" show ?thesis by (simp add: dec_of_nat.simps [of n])
  next
    case False
    with "1.prems" have "c \<in> set (dec_of_nat (n div 10)) \<or> c = char_of (48 + n mod 10)"
      by (auto simp: dec_of_nat.simps [of n])
    moreover have "is_digit (char_of (48 + n mod 10))" by simp
    ultimately show ?thesis using False "1.IH" by blast
  qed
qed

end
