(* ===== verification/GoText.thy ===== *)
theory GoText
  imports Prelude
begin

text \<open>
  Go strings: UTF-8 decoding and encoding (\<open>[]rune(s)\<close>, \<open>string(runes)\<close>,
  \<open>utf8.RuneCountInString\<close>) and the functions of package \<open>strings\<close> the source calls.
  A string is a list of bytes; a rune is a natural number. Decoding follows the table of the
  Go specification: an invalid byte decodes to U+FFFD and has width 1.
\<close>

section \<open>UTF-8\<close>

abbreviation byte :: "char \<Rightarrow> nat" where
  "byte c \<equiv> of_char c"

definition rune_error :: nat where
  "rune_error = 65533"

definition valid_rune :: "nat \<Rightarrow> bool" where
  "valid_rune r \<longleftrightarrow> r < 55296 \<or> (57344 \<le> r \<and> r \<le> 1114111)"

definition cont_byte :: "char \<Rightarrow> bool" where
  "cont_byte c \<longleftrightarrow> 128 \<le> byte c \<and> byte c < 192"

text \<open>\<open>utf8.DecodeRuneInString\<close>: the first rune and its width in bytes.\<close>

definition decode2 :: "char \<Rightarrow> string \<Rightarrow> nat \<times> nat" where
  "decode2 a s = (case s of
     b # _ \<Rightarrow> if cont_byte b then ((byte a - 192) * 64 + (byte b - 128), 2) else (rune_error, 1)
   | _ \<Rightarrow> (rune_error, 1))"

definition decode3 :: "char \<Rightarrow> string \<Rightarrow> nat \<times> nat" where
  "decode3 a s = (case s of
     b # c # _ \<Rightarrow>
       if (if byte a = 224 then 160 else 128) \<le> byte b \<and> byte b < (if byte a = 237 then 160 else 192)
          \<and> cont_byte c
       then ((byte a - 224) * 4096 + (byte b - 128) * 64 + (byte c - 128), 3)
       else (rune_error, 1)
   | _ \<Rightarrow> (rune_error, 1))"

definition decode4 :: "char \<Rightarrow> string \<Rightarrow> nat \<times> nat" where
  "decode4 a s = (case s of
     b # c # d # _ \<Rightarrow>
       if (if byte a = 240 then 144 else 128) \<le> byte b \<and> byte b < (if byte a = 244 then 144 else 192)
          \<and> cont_byte c \<and> cont_byte d
       then ((byte a - 240) * 262144 + (byte b - 128) * 4096 + (byte c - 128) * 64 + (byte d - 128), 4)
       else (rune_error, 1)
   | _ \<Rightarrow> (rune_error, 1))"

definition decode_rune :: "char \<Rightarrow> string \<Rightarrow> nat \<times> nat" where
  "decode_rune a s =
     (if byte a < 128 then (byte a, 1)
      else if byte a < 194 then (rune_error, 1)
      else if byte a < 224 then decode2 a s
      else if byte a < 240 then decode3 a s
      else if byte a < 245 then decode4 a s
      else (rune_error, 1))"

text \<open>The runes of a string, each with the bytes it was decoded from.\<close>

function segs :: "string \<Rightarrow> (nat \<times> string) list" where
  "segs [] = []"
| "segs (a # s) =
     (let (r, w) = decode_rune a s in (r, a # take (w - 1) s) # segs (drop (w - 1) s))"
  by pat_completeness auto
termination by (relation "measure length") auto

definition runes :: "string \<Rightarrow> nat list" where
  "runes s = map fst (segs s)"

definition rune_count :: "string \<Rightarrow> nat" where
  "rune_count s = length (runes s)"

text \<open>\<open>string(r)\<close> for a rune: surrogates and values beyond U+10FFFF become U+FFFD.\<close>

definition encode_valid :: "nat \<Rightarrow> string" where
  "encode_valid r =
     (if r < 128 then [chr r]
      else if r < 2048 then [chr (192 + r div 64), chr (128 + r mod 64)]
      else if r < 65536 then
        [chr (224 + r div 4096), chr (128 + r div 64 mod 64), chr (128 + r mod 64)]
      else [chr (240 + r div 262144), chr (128 + r div 4096 mod 64),
            chr (128 + r div 64 mod 64), chr (128 + r mod 64)])"

definition encode_rune :: "nat \<Rightarrow> string" where
  "encode_rune r = encode_valid (if valid_rune r then r else rune_error)"

definition string_of_runes :: "nat list \<Rightarrow> string" where
  "string_of_runes rs = concat (map encode_rune rs)"

lemma byte_char_of [simp]: "n < 256 \<Longrightarrow> byte (char_of n) = n"
  by (simp add: of_char_of)

lemma byte_less [simp]: "byte c < 256"
  by simp

lemma decode_rune_width:
  "decode_rune a s = (r, w) \<Longrightarrow> 1 \<le> w \<and> w \<le> Suc (length s)"
  by (auto simp: decode_rune_def decode2_def decode3_def decode4_def Let_def
        split: if_splits list.splits)

lemma decode2_valid: "194 \<le> byte a \<Longrightarrow> byte a < 224 \<Longrightarrow> valid_rune (fst (decode2 a s))"
  by (auto simp: decode2_def valid_rune_def rune_error_def cont_byte_def split: list.splits)

lemma decode3_valid: "224 \<le> byte a \<Longrightarrow> byte a < 240 \<Longrightarrow> valid_rune (fst (decode3 a s))"
proof (cases "\<exists>b c t. s = b # c # t")
  case True
  then obtain b c t where s: "s = b # c # t" by blast
  assume a: "224 \<le> byte a" "byte a < 240"
  define x y z where "x = byte a - 224" and "y = byte b - 128" and "z = byte c - 128"
  have "byte b < 256" "byte c < 256" by simp_all
  then show ?thesis
    using a unfolding s
    by (auto simp: decode3_def valid_rune_def rune_error_def cont_byte_def; arith)
next
  case False
  then show ?thesis
    by (auto simp: decode3_def valid_rune_def rune_error_def split: list.splits)
qed

lemma decode4_valid: "240 \<le> byte a \<Longrightarrow> byte a < 245 \<Longrightarrow> valid_rune (fst (decode4 a s))"
  by (auto simp: decode4_def valid_rune_def rune_error_def cont_byte_def split: list.splits; arith)

lemma decode_rune_valid: "valid_rune (fst (decode_rune a s))"
  using decode2_valid [of a s] decode3_valid [of a s] decode4_valid [of a s]
  by (auto simp: decode_rune_def) (auto simp: valid_rune_def rune_error_def)

lemma runes_valid: "r \<in> set (runes s) \<Longrightarrow> valid_rune r"
proof (induction s rule: segs.induct)
  case (2 a s)
  obtain q w where qw: "decode_rune a s = (q, w)" by (cases "decode_rune a s")
  have "valid_rune q" using decode_rune_valid [of a s] qw by simp
  with "2.prems" "2.IH" [OF refl qw [symmetric]] qw show ?case
    by (auto simp: runes_def)
qed (simp add: runes_def)

text \<open>The segments of a string are a partition of its bytes.\<close>

lemma concat_segs: "concat (map snd (segs s)) = s"
proof (induction s rule: segs.induct)
  case (2 a s)
  obtain q w where qw: "decode_rune a s = (q, w)" by (cases "decode_rune a s")
  with "2.IH" [OF refl qw [symmetric]] show ?case by simp
qed simp

lemma rune_count_le: "rune_count s \<le> length s"
proof (induction s rule: segs.induct)
  case (2 a s)
  obtain q w where qw: "decode_rune a s = (q, w)" by (cases "decode_rune a s")
  have "length (segs (drop (w - 1) s)) \<le> length s"
    using "2.IH" [OF refl qw [symmetric]] by (simp add: rune_count_def runes_def)
  with qw show ?case by (simp add: rune_count_def runes_def)
qed (simp add: rune_count_def runes_def)

subsection \<open>Decoding inverts encoding\<close>

lemma decode_encode_valid:
  assumes "valid_rune r"
  shows "\<exists>a u. encode_valid r = a # u \<and> decode_rune a (u @ t) = (r, Suc (length u))"
proof -
  consider "r < 128" | "128 \<le> r" "r < 2048" | "2048 \<le> r" "r < 65536" | "65536 \<le> r"
    by linarith
  then show ?thesis
  proof cases
    case 1
    then show ?thesis by (simp add: encode_valid_def decode_rune_def)
  next
    case 2
    define x y where "x = r div 64" and "y = r mod 64"
    have r: "r = x * 64 + y" and y: "y < 64" by (simp_all add: x_def y_def)
    with 2 have x: "2 \<le> x" "x < 32" by auto
    have e: "encode_valid r = [char_of (192 + x), char_of (128 + y)]"
      using 2 by (simp add: encode_valid_def x_def y_def)
    have d: "decode_rune (char_of (192 + x)) ([char_of (128 + y)] @ t) = (r, 2)"
      using x y r by (simp add: decode_rune_def decode2_def cont_byte_def)
    show ?thesis
      by (rule exI [of _ "char_of (192 + x)"], rule exI [of _ "[char_of (128 + y)]"]) (use e d in simp)
  next
    case 3
    define x y z where "x = r div 4096" and "y = r div 64 mod 64" and "z = r mod 64"
    have "r div 4096 = r div 64 div 64" by (simp add: div_mult2_eq [symmetric])
    then have r: "r = x * 4096 + y * 64 + z"
      using div_mult_mod_eq [of r 64] div_mult_mod_eq [of "r div 64" 64]
      unfolding x_def y_def z_def by linarith
    have yz: "y < 64" "z < 64" by (simp_all add: y_def z_def)
    with 3 r have x: "x < 16" by auto
    have e: "encode_valid r = [char_of (224 + x), char_of (128 + y), char_of (128 + z)]"
      using 3 by (simp add: encode_valid_def x_def y_def z_def)
    have lo: "x = 0 \<longrightarrow> 32 \<le> y" using 3 r yz by auto
    have hi: "x = 13 \<longrightarrow> y < 32" using assms 3 r yz by (auto simp: valid_rune_def)
    have b: "byte (char_of (224 + x)) = 224 + x" "byte (char_of (128 + y)) = 128 + y"
        "byte (char_of (128 + z)) = 128 + z"
      using x yz by simp_all
    have ok: "(if 224 + x = 224 then 160 else 128) \<le> 128 + y
        \<and> 128 + y < (if 224 + x = 237 then 160 else 192)"
      using lo hi yz by auto
    have d3: "decode3 (char_of (224 + x)) (char_of (128 + y) # char_of (128 + z) # t) = (r, 3)"
      unfolding decode3_def list.case b cont_byte_def using ok yz r by simp
    have d: "decode_rune (char_of (224 + x)) ([char_of (128 + y), char_of (128 + z)] @ t) = (r, 3)"
      unfolding decode_rune_def b using x d3 by simp
    show ?thesis
      by (rule exI [of _ "char_of (224 + x)"], rule exI [of _ "[char_of (128 + y), char_of (128 + z)]"]) (use e d in simp)
  next
    case 4
    define x y z v where "x = r div 262144" and "y = r div 4096 mod 64"
      and "z = r div 64 mod 64" and "v = r mod 64"
    define p q where "p = r div 64" and "q = p div 64"
    have d: "r div 4096 = q" "r div 262144 = q div 64"
      by (simp_all add: p_def q_def div_mult2_eq [symmetric])
    have s: "x = q div 64" "y = q mod 64" "z = p mod 64"
      by (simp_all add: x_def y_def z_def d p_def)
    have "r = p * 64 + v" "p = q * 64 + z" "q = x * 64 + y"
      unfolding v_def s by (simp_all add: p_def q_def)
    then have r: "r = x * 262144 + y * 4096 + z * 64 + v" by simp
    have yz: "y < 64" "z < 64" "v < 64" by (simp_all add: y_def z_def v_def)
    have top: "r \<le> 1114111" using assms 4 by (auto simp: valid_rune_def)
    with r have x: "x \<le> 4" by auto
    have e: "encode_valid r =
        [char_of (240 + x), char_of (128 + y), char_of (128 + z), char_of (128 + v)]"
      using 4 by (simp add: encode_valid_def x_def y_def z_def v_def)
    have lo: "x = 0 \<longrightarrow> 16 \<le> y" using 4 r yz by auto
    have hi: "x = 4 \<longrightarrow> y < 16" using top r yz by auto
    have b: "byte (char_of (240 + x)) = 240 + x" "byte (char_of (128 + y)) = 128 + y"
        "byte (char_of (128 + z)) = 128 + z" "byte (char_of (128 + v)) = 128 + v"
      using x yz by simp_all
    have ok: "(if 240 + x = 240 then 144 else 128) \<le> 128 + y
        \<and> 128 + y < (if 240 + x = 244 then 144 else 192)"
      using lo hi yz by auto
    have d4: "decode4 (char_of (240 + x))
        (char_of (128 + y) # char_of (128 + z) # char_of (128 + v) # t) = (r, 4)"
      unfolding decode4_def list.case b cont_byte_def using ok yz r by simp
    have d: "decode_rune (char_of (240 + x))
        ([char_of (128 + y), char_of (128 + z), char_of (128 + v)] @ t) = (r, 4)"
      unfolding decode_rune_def b using x d4 by simp
    show ?thesis
      by (rule exI [of _ "char_of (240 + x)"], rule exI [of _ "[char_of (128 + y), char_of (128 + z), char_of (128 + v)]"]) (use e d in simp)
  qed
qed

lemma segs_encode_rune:
  assumes "valid_rune r"
  shows "segs (encode_rune r @ t) = (r, encode_rune r) # segs t"
proof -
  obtain a u where "encode_valid r = a # u" "decode_rune a (u @ t) = (r, Suc (length u))"
    using decode_encode_valid [OF assms] by blast
  with assms show ?thesis by (simp add: encode_rune_def)
qed

lemma runes_string_of_runes_append:
  "(\<And>r. r \<in> set rs \<Longrightarrow> valid_rune r) \<Longrightarrow> runes (string_of_runes rs @ t) = rs @ runes t"
proof (induction rs)
  case (Cons r rs)
  have "runes (encode_rune r @ string_of_runes rs @ t) = r # runes (string_of_runes rs @ t)"
    using Cons.prems by (simp add: runes_def segs_encode_rune)
  with Cons show ?case by (simp add: string_of_runes_def)
qed (simp add: string_of_runes_def)

lemma runes_string_of_runes:
  "(\<And>r. r \<in> set rs \<Longrightarrow> valid_rune r) \<Longrightarrow> runes (string_of_runes rs) = rs"
  using runes_string_of_runes_append [of rs "[]"] by (simp add: runes_def)

lemma string_of_runes_append [simp]:
  "string_of_runes (rs @ qs) = string_of_runes rs @ string_of_runes qs"
  by (simp add: string_of_runes_def)

text \<open>Re-encoding the runes of a string that holds no invalid byte gives the string back.\<close>

definition utf8_valid :: "string \<Rightarrow> bool" where
  "utf8_valid s \<longleftrightarrow> list_all (\<lambda>(r, b). b = encode_rune r) (segs s)"

lemma string_of_runes_runes: "utf8_valid s \<Longrightarrow> string_of_runes (runes s) = s"
proof -
  assume v: "utf8_valid s"
  then have "map (encode_rune \<circ> fst) (segs s) = map snd (segs s)"
    by (auto simp: utf8_valid_def list_all_iff)
  then have "concat (map (encode_rune \<circ> fst) (segs s)) = concat (map snd (segs s))"
    by (rule arg_cong)
  then have "concat (map (encode_rune \<circ> fst) (segs s)) = s"
    by (simp only: concat_segs)
  then show ?thesis by (simp add: string_of_runes_def runes_def)
qed

lemma utf8_valid_string_of_runes:
  "(\<And>r. r \<in> set rs \<Longrightarrow> valid_rune r) \<Longrightarrow> utf8_valid (string_of_runes rs @ t) = utf8_valid t"
proof (induction rs)
  case (Cons r rs)
  have "utf8_valid (encode_rune r @ string_of_runes rs @ t) = utf8_valid (string_of_runes rs @ t)"
    using Cons.prems by (simp add: utf8_valid_def segs_encode_rune)
  with Cons show ?case by (simp add: string_of_runes_def)
qed (simp add: string_of_runes_def)

section \<open>Package strings\<close>

text \<open>
  \<open>strings.HasPrefix(s, p)\<close> is \<open>prefix p s\<close>, \<open>strings.HasSuffix\<close> is \<open>suffix\<close> and
  \<open>strings.Contains(s, p)\<close> is \<open>sublist p s\<close>, all from the library theory Sublist.
\<close>

definition is_space_rune :: "nat \<Rightarrow> bool" where
  "is_space_rune r \<longleftrightarrow>
     r \<in> {9, 10, 11, 12, 13, 32, 133, 160, 5760, 8232, 8233, 8239, 8287, 12288}
     \<or> (8192 \<le> r \<and> r \<le> 8202)"

definition trim_space :: "string \<Rightarrow> string" where
  "trim_space s =
     concat (map snd (rev (dropWhile (is_space_rune \<circ> fst)
                       (rev (dropWhile (is_space_rune \<circ> fst) (segs s))))))"

text \<open>\<open>strings.EqualFold\<close>, over the representative that case folding gives a rune.\<close>

definition equal_fold :: "(nat \<Rightarrow> nat) \<Rightarrow> string \<Rightarrow> string \<Rightarrow> bool" where
  "equal_fold fold_rune a b \<longleftrightarrow> map fold_rune (runes a) = map fold_rune (runes b)"

text \<open>\<open>strings.Split\<close> on a one-byte separator, and \<open>strings.Join\<close>.\<close>

fun split_char :: "char \<Rightarrow> string \<Rightarrow> string list" where
  "split_char c [] = [[]]"
| "split_char c (x # s) =
     (if x = c then [] # split_char c s
      else case split_char c s of [] \<Rightarrow> [[x]] | p # ps \<Rightarrow> (x # p) # ps)"

fun join :: "string \<Rightarrow> string list \<Rightarrow> string" where
  "join sep [] = []"
| "join sep [p] = p"
| "join sep (p # q # ps) = p @ sep @ join sep (q # ps)"

text \<open>\<open>strings.Split\<close> on a separator of one or more bytes, leftmost occurrence first.\<close>

fun split_str_aux :: "string \<Rightarrow> string \<Rightarrow> string \<Rightarrow> string list" where
  "split_str_aux sep acc [] = [rev acc]"
| "split_str_aux sep acc (c # s) =
     (if sep \<noteq> [] \<and> prefix sep (c # s)
      then rev acc # split_str_aux sep [] (drop (length sep - 1) s)
      else split_str_aux sep (c # acc) s)"

definition split_str :: "string \<Rightarrow> string \<Rightarrow> string list" where
  "split_str sep s = split_str_aux sep [] s"

definition replace_all :: "string \<Rightarrow> string \<Rightarrow> string \<Rightarrow> string" where
  "replace_all old new s = join new (split_str old s)"

text \<open>\<open>strings.Map\<close> with a mapping that drops some runes and keeps the others: the result is
  re-encoded, so an invalid byte comes out as U+FFFD.\<close>

definition filter_runes :: "(nat \<Rightarrow> bool) \<Rightarrow> string \<Rightarrow> string" where
  "filter_runes keep s = string_of_runes (filter keep (runes s))"

text \<open>\<open>strings.IndexByte\<close> and \<open>strings.LastIndex\<close> of a one-byte string; \<open>None\<close> is -1.\<close>

fun index_byte :: "char \<Rightarrow> string \<Rightarrow> nat option" where
  "index_byte c [] = None"
| "index_byte c (x # s) = (if x = c then Some 0 else map_option Suc (index_byte c s))"

definition last_index_byte :: "char \<Rightarrow> string \<Rightarrow> nat option" where
  "last_index_byte c s = last_index_of (\<lambda>x. x = c) s"

subsection \<open>Facts about splitting and joining\<close>

lemma split_char_not_Nil [simp]: "split_char c s \<noteq> []"
  by (induction s) (auto split: list.splits)

lemma join_Cons: "ps \<noteq> [] \<Longrightarrow> join sep (p # ps) = p @ sep @ join sep ps"
  by (cases ps) auto

lemma join_split_char: "join [c] (split_char c s) = s"
proof (induction s)
  case (Cons x s)
  obtain p ps where ps: "split_char c s = p # ps" by (cases "split_char c s") auto
  with Cons.IH show ?case by (cases ps) auto
qed simp

lemma split_char_free: "p \<in> set (split_char c s) \<Longrightarrow> c \<notin> set p"
proof (induction s arbitrary: p)
  case (Cons x s)
  obtain q qs where qs: "split_char c s = q # qs" by (cases "split_char c s") auto
  from Cons qs show ?case by (auto split: if_splits)
qed simp

lemma split_char_none: "c \<notin> set s \<Longrightarrow> split_char c s = [s]"
  by (induction s) auto

lemma split_char_append: "c \<notin> set p \<Longrightarrow> split_char c (p @ c # s) = p # split_char c s"
  by (induction p) auto

lemma split_char_join:
  "ps \<noteq> [] \<Longrightarrow> (\<And>p. p \<in> set ps \<Longrightarrow> c \<notin> set p) \<Longrightarrow> split_char c (join [c] ps) = ps"
proof (induction ps rule: induct_list012)
  case (3 p q ps)
  then show ?case by (simp add: split_char_append)
qed (simp_all add: split_char_none)

lemma split_char_append_sep:
  "split_char c (a @ c # b) = split_char c a @ split_char c b"
proof (induction a)
  case (Cons x a)
  obtain p ps where ps: "split_char c a = p # ps" by (cases "split_char c a") auto
  with Cons.IH show ?case by simp
qed simp

lemma set_join_sub: "set (join sep ps) \<subseteq> set sep \<union> (\<Union>p \<in> set ps. set p)"
  by (induction sep ps rule: join.induct) auto

lemma split_str_aux_not_Nil [simp]: "split_str_aux sep acc s \<noteq> []"
  by (induction sep acc s rule: split_str_aux.induct) auto

lemma prefix_Cons_drop:
  "sep \<noteq> [] \<Longrightarrow> prefix sep (c # s) \<Longrightarrow> sep @ drop (length sep - 1) s = c # s"
  by (cases sep) (auto simp: prefix_def)

lemma join_split_str_aux: "join sep (split_str_aux sep acc s) = rev acc @ s"
proof (induction sep acc s rule: split_str_aux.induct)
  case (2 sep acc c s)
  show ?case
  proof (cases "sep \<noteq> [] \<and> prefix sep (c # s)")
    case True
    with "2.IH"(1) prefix_Cons_drop [of sep c s] show ?thesis by (simp add: join_Cons)
  next
    case False
    then have "split_str_aux sep acc (c # s) = split_str_aux sep (c # acc) s" by auto
    with "2.IH"(2) [OF False] show ?thesis by simp
  qed
qed simp

lemma join_split_str: "join sep (split_str sep s) = s"
  by (simp add: split_str_def join_split_str_aux)

lemma split_str_aux_sublist:
  "sep \<noteq> [] \<Longrightarrow> sublist sep s \<Longrightarrow> 2 \<le> length (split_str_aux sep acc s)"
proof (induction sep acc s rule: split_str_aux.induct)
  case (2 sep acc c s)
  have "1 \<le> length (split_str_aux sep [] (drop (length sep - 1) s))"
    by (simp add: Suc_le_eq)
  with 2 show ?case by (auto simp: sublist_Cons_right)
qed simp

lemma length_join:
  "ps \<noteq> [] \<Longrightarrow> length (join sep ps) = length (concat ps) + (length ps - 1) * length sep"
  by (induction sep ps rule: join.induct) (auto simp: algebra_simps)

text \<open>Deleting a substring that occurs makes the string shorter.\<close>

lemma length_replace_all_less:
  assumes "old \<noteq> []" and "sublist old s"
  shows "length (replace_all old [] s) < length s"
proof -
  let ?ps = "split_str_aux old [] s"
  have "length s = length (join old ?ps)" by (simp add: join_split_str_aux)
  also have "\<dots> = length (concat ?ps) + (length ?ps - 1) * length old"
    by (simp add: length_join)
  finally have "length s = length (concat ?ps) + (length ?ps - 1) * length old" .
  moreover have "2 \<le> length ?ps" using assms by (rule split_str_aux_sublist)
  moreover have "0 < length old" using assms by simp
  ultimately have "length (concat ?ps) < length s" by simp
  then show ?thesis by (simp add: replace_all_def split_str_def length_join)
qed

lemma replace_all_byte: "replace_all [a] [b] s = map (\<lambda>x. if x = a then b else x) s"
proof -
  have "join [b] (split_str_aux [a] acc s) = rev acc @ map (\<lambda>x. if x = a then b else x) s" for acc
    by (induction s arbitrary: acc) (auto simp: join_Cons)
  then show ?thesis by (simp add: replace_all_def split_str_def)
qed

lemma replace_all_delete_byte: "replace_all [a] [] s = filter (\<lambda>x. x \<noteq> a) s"
proof -
  have "join [] (split_str_aux [a] acc s) = rev acc @ filter (\<lambda>x. x \<noteq> a) s" for acc
    by (induction s arbitrary: acc) (auto simp: join_Cons)
  then show ?thesis by (simp add: replace_all_def split_str_def)
qed

lemma index_byte_Some:
  "index_byte c s = Some i \<Longrightarrow> i < length s \<and> s ! i = c"
  by (induction s arbitrary: i) (auto split: if_splits)

lemma index_byte_None: "index_byte c s = None \<longleftrightarrow> c \<notin> set s"
  by (induction s) auto

lemma sublist_trim_space: "sublist (trim_space s) s"
proof -
  let ?P = "is_space_rune \<circ> fst"
  let ?l = "dropWhile ?P (segs s)"
  have 1: "suffix ?l (segs s)" by (rule suffix_dropWhile)
  have "suffix (dropWhile ?P (rev ?l)) (rev ?l)" by (rule suffix_dropWhile)
  then have 2: "prefix (rev (dropWhile ?P (rev ?l))) ?l" by (simp add: suffix_to_prefix)
  from 1 obtain a where a: "segs s = a @ ?l" by (rule suffixE)
  from 2 obtain b where b: "?l = rev (dropWhile ?P (rev ?l)) @ b" by (rule prefixE)
  let ?m = "rev (dropWhile ?P (rev ?l))"
  have "segs s = a @ ?m @ b" using a b by simp
  then have "concat (map snd (segs s)) = concat (map snd (a @ ?m @ b))" by (rule arg_cong)
  then have "concat (map snd (segs s)) = concat (map snd a) @ trim_space s @ concat (map snd b)"
    by (simp only: trim_space_def map_append concat_append)
  then have "s = concat (map snd a) @ trim_space s @ concat (map snd b)"
    by (simp only: concat_segs)
  then show ?thesis unfolding sublist_def by blast
qed

end
