(* ===== verification/StrUtil.thy ===== *)
theory StrUtil
  imports GoText
begin

text \<open>
  Package \<^verbatim>\<open>libs/toolkit/strutil\<close>: rune-aware truncation with a marker and the
  extraction of a JSON block from the free-form answer of a language model.
\<close>

section \<open>Operations\<close>

text \<open>\<open>Truncate\<close>. The byte length is tested first, then the rune count.\<close>

definition truncate_str :: "string \<Rightarrow> int \<Rightarrow> string \<Rightarrow> string" where
  "truncate_str s max_len marker =
     (if max_len \<le> 0 \<or> int (length s) \<le> max_len then s
      else let rs = runes s in
        if int (length rs) \<le> max_len then s
        else string_of_runes (take (nat max_len) rs) @ marker)"

definition fence :: string where
  "fence = ''```''"

text \<open>\<open>StripMarkdownFences\<close>: the opening fence goes with the rest of its line.\<close>

definition strip_open_fence :: "string \<Rightarrow> string" where
  "strip_open_fence s =
     (if prefix fence s then
        (case index_byte (CHR 0x0A) s of
           Some nl \<Rightarrow> drop (Suc nl) s
         | None \<Rightarrow> (if 3 < length s then drop 3 s else s))
      else s)"

definition strip_close_fence :: "string \<Rightarrow> string" where
  "strip_close_fence s =
     (if suffix fence s then trim_space (take (length s - 3) s) else s)"

definition strip_markdown_fences :: "string \<Rightarrow> string" where
  "strip_markdown_fences s =
     strip_close_fence (trim_space (strip_open_fence (trim_space s)))"

text \<open>One arm of \<open>ExtractJSONBlock\<close>: from the first opening to the last closing bracket.\<close>

definition bracket_block :: "char \<Rightarrow> char \<Rightarrow> string \<Rightarrow> string option" where
  "bracket_block l r s =
     (case (index_byte l s, last_index_byte r s) of
        (Some i, Some j) \<Rightarrow> (if i < j then Some (take (Suc j - i) (drop i s)) else None)
      | _ \<Rightarrow> None)"

definition extract_json_block :: "string \<Rightarrow> string" where
  "extract_json_block content =
     (let c = trim_space (strip_markdown_fences content) in
      case bracket_block (CHR ''['') (CHR '']'') c of
        Some b \<Rightarrow> b
      | None \<Rightarrow> (case bracket_block (CHR 0x7B) (CHR 0x7D) c of Some b \<Rightarrow> b | None \<Rightarrow> []))"

section \<open>Truncation\<close>

lemma rune_count_append_valid:
  "(\<And>r. r \<in> set rs \<Longrightarrow> valid_rune r) \<Longrightarrow>
     rune_count (string_of_runes rs @ t) = length rs + rune_count t"
  by (simp add: rune_count_def runes_string_of_runes_append)

lemma truncate_str_cut:
  assumes "0 < max_len" and "max_len < int (rune_count s)"
  shows "truncate_str s max_len marker = string_of_runes (take (nat max_len) (runes s)) @ marker"
proof -
  have "int (rune_count s) \<le> int (length s)" by (simp add: rune_count_le)
  with assms show ?thesis by (simp add: truncate_str_def rune_count_def Let_def)
qed

lemma truncate_str_id:
  assumes "max_len \<le> 0 \<or> int (rune_count s) \<le> max_len"
  shows "truncate_str s max_len marker = s"
  using assms by (auto simp: truncate_str_def rune_count_def Let_def)

text \<open>\<open>Truncate\<close> never returns more than \<open>maxLen\<close> runes plus the marker, and a string that
  fits is returned byte for byte.\<close>

theorem truncate_bound:
  assumes "0 < max_len"
  shows "int (rune_count (truncate_str s max_len marker)) \<le> max_len + int (rune_count marker)
       \<and> (int (rune_count s) \<le> max_len \<longrightarrow> truncate_str s max_len marker = s)"
proof (cases "int (rune_count s) \<le> max_len")
  case True
  then show ?thesis by (simp add: truncate_str_id)
next
  case False
  let ?rs = "take (nat max_len) (runes s)"
  have "valid_rune r" if "r \<in> set ?rs" for r
    using that by (meson in_set_takeD runes_valid)
  then have "rune_count (string_of_runes ?rs @ marker) = length ?rs + rune_count marker"
    by (rule rune_count_append_valid)
  with False assms show ?thesis
    by (simp add: truncate_str_cut rune_count_def)
qed

theorem truncate_bound_witness:
  "int (rune_count (truncate_str ''hello'' 3 ''..'')) \<le> 3 + int (rune_count ''..'')"
  using truncate_bound [of 3 "''hello''" "''..''"] by simp

section \<open>JSON blocks\<close>

lemma sublist_take_drop: "sublist (take n (drop i s)) s"
  by (metis append_take_drop_id sublist_appendI)

lemma bracket_block_Some:
  assumes "bracket_block l r s = Some b"
  shows "sublist b s \<and> b \<noteq> [] \<and> hd b = l \<and> last b = r"
proof -
  obtain i j where ij: "index_byte l s = Some i" "last_index_byte r s = Some j" "i < j"
      and b: "b = take (Suc j - i) (drop i s)"
    using assms by (auto simp: bracket_block_def split: option.splits if_splits)
  have i: "i < length s" "s ! i = l" using index_byte_Some [OF ij(1)] by auto
  have j: "j < length s" "s ! j = r"
    using last_index_of_Some [OF ij(2) [unfolded last_index_byte_def]] by auto
  have len: "length b = Suc j - i" using b ij(3) j(1) by simp
  then have ne: "b \<noteq> []" using ij(3) by auto
  have "last b = b ! (j - i)" using ne len ij(3) by (simp add: last_conv_nth)
  then have "last b = r" using b ij(3) j by simp
  moreover have "hd b = l" using ne b ij(3) i by (simp add: hd_conv_nth)
  ultimately show ?thesis using b ne sublist_take_drop by auto
qed

lemma sublist_strip_markdown_fences: "sublist (strip_markdown_fences s) s"
proof -
  have o: "sublist (strip_open_fence t) t" for t
    by (auto simp: strip_open_fence_def split: option.splits intro: sublist_drop)
  have c: "sublist (strip_close_fence t) t" for t
    unfolding strip_close_fence_def
    using sublist_order.order_trans [OF sublist_trim_space sublist_take] by auto
  show ?thesis
    unfolding strip_markdown_fences_def
    by (meson o c sublist_trim_space sublist_order.order_trans)
qed

end
