(* ===== verification/FileUtil.thy ===== *)
theory FileUtil
  imports GoText
begin

text \<open>
  Package \<^verbatim>\<open>libs/toolkit/fileutil\<close>: the lexical path guards (\<open>SanitizePathSegment\<close>,
  \<open>ValidateRelativePath\<close>, \<open>IsWithinPath\<close>, \<open>RejectDotGitPath\<close>, \<open>ValidateRootDir\<close>), the
  symlink-safe walk \<open>ResolveSymlinkSafe\<close> over a file-system state, binary detection and line
  ranges. The functions of \<open>path/filepath\<close> they call are modelled for Unix.
\<close>

section \<open>path/filepath on Unix\<close>

text \<open>\<open>filepath.Clean\<close> works on the elements between slashes: the output stack is kept in
  reverse, \<open>..\<close> pops an element, is dropped at a root and is kept where nothing is left to pop.\<close>

definition dot :: string where "dot = ''.''"
definition dotdot :: string where "dotdot = ''..''"
definition slash :: char where "slash = CHR ''/''"

definition is_abs :: "string \<Rightarrow> bool" where
  "is_abs p \<longleftrightarrow> prefix [slash] p"

fun clean_step :: "bool \<Rightarrow> string \<Rightarrow> string list \<Rightarrow> string list" where
  "clean_step rooted e out =
     (if e = [] \<or> e = dot then out
      else if e = dotdot then
        (case out of
           [] \<Rightarrow> if rooted then [] else [dotdot]
         | t # rest \<Rightarrow> if t = dotdot then dotdot # out else rest)
      else e # out)"

definition clean_elems :: "bool \<Rightarrow> string list \<Rightarrow> string list" where
  "clean_elems rooted es = rev (fold (clean_step rooted) es [])"

definition unsplit :: "bool \<Rightarrow> string list \<Rightarrow> string" where
  "unsplit rooted es =
     (if rooted then slash # join [slash] es else if es = [] then dot else join [slash] es)"

definition clean :: "string \<Rightarrow> string" where
  "clean p = unsplit (is_abs p) (clean_elems (is_abs p) (split_char slash p))"

text \<open>\<open>filepath.Join\<close> of two elements: empty elements are ignored, the result is cleaned.\<close>

definition path_join :: "string \<Rightarrow> string \<Rightarrow> string" where
  "path_join a b =
     (if a = [] \<and> b = [] then []
      else if a = [] then clean b
      else if b = [] then clean a
      else clean (a @ slash # b))"

section \<open>Lexical guards\<close>

datatype path_error =
    NullByte
  | AbsolutePath string
  | EscapesRoot string string
  | Traversal string
  | DotGitPath
  | RootRequired
  | RootNotAbsolute string
  | RootTraversal string
  | RootSystemDir string
  | RootSystemMount string
  | SymlinkComponent string
  | NotADirectory string
  | ComponentMissing string
  | StatFailed string
  | MkdirFailed string
  | RelFailed

text \<open>The collapse loop \<open>for strings.Contains(s, "..")\<close>: each round deletes bytes.\<close>

function collapse_dotdot :: "string \<Rightarrow> string" where
  "collapse_dotdot s =
     (if sublist dotdot s then collapse_dotdot (replace_all dotdot [] s) else s)"
  by pat_completeness auto
termination
  by (relation "measure length") (auto simp: dotdot_def intro!: length_replace_all_less)

declare collapse_dotdot.simps [simp del]

definition printable :: "nat \<Rightarrow> bool" where
  "printable r \<longleftrightarrow> \<not> (r < 32 \<or> r = 127)"

definition sanitize_path_segment :: "string \<Rightarrow> string \<Rightarrow> string" where
  "sanitize_path_segment s fallback =
     (let s1 = replace_all [CHR 0x00] [] s;
          s2 = replace_all [slash] ''_'' s1;
          s3 = replace_all [CHR 0x5C] ''_'' s2;
          s4 = collapse_dotdot s3;
          s5 = filter_runes printable s4
      in if s5 = [] \<or> s5 = dot then fallback else s5)"

text \<open>On Unix \<open>filepath.FromSlash\<close> and \<open>filepath.ToSlash\<close> are the identity.\<close>

definition validate_relative_path :: "string \<Rightarrow> string \<Rightarrow> path_error + string" where
  "validate_relative_path root rel =
     (let clean_root = clean root in
      if rel = [] then Inr clean_root
      else if CHR 0x00 \<in> set rel then Inl NullByte
      else if is_abs rel then Inl (AbsolutePath rel)
      else
        let cleaned = clean (path_join clean_root rel) in
        if cleaned \<noteq> clean_root \<and> \<not> prefix (clean_root @ [slash]) cleaned
        then Inl (EscapesRoot rel root)
        else if sublist ''/../'' cleaned \<or> suffix ''/..'' cleaned then Inl (Traversal rel)
        else Inr cleaned)"

definition is_within_path :: "string \<Rightarrow> string \<Rightarrow> bool" where
  "is_within_path root path =
     (let clean_root = clean root; clean_path = clean path in
      if clean_path = clean_root then True
      else if clean_root = [slash] then is_abs clean_path
      else prefix (clean_root @ [slash]) clean_path)"

definition dotgit :: string where "dotgit = ''.git''"

definition reject_dot_git_path :: "string \<Rightarrow> path_error + unit" where
  "reject_dot_git_path path =
     (if path = [] then Inr ()
      else let cleaned = clean path in
        if cleaned = dotgit \<or> prefix ''.git/'' cleaned then Inl DotGitPath
        else if dotgit \<in> set (split_char slash cleaned) then Inl DotGitPath
        else Inr ())"

definition system_dirs :: "string list" where
  "system_dirs =
     [''/'', ''/etc'', ''/bin'', ''/usr'', ''/var'', ''/proc'', ''/sys'', ''/dev'', ''/tmp'']"

definition validate_root_dir :: "string \<Rightarrow> path_error + unit" where
  "validate_root_dir dir =
     (if dir = [] then Inl RootRequired
      else if \<not> is_abs dir then Inl (RootNotAbsolute dir)
      else if sublist dotdot dir then Inl (RootTraversal dir)
      else let cleaned = clean dir in
        if cleaned \<in> set system_dirs then Inl (RootSystemDir cleaned)
        else if prefix ''/proc/'' cleaned \<or> prefix ''/sys/'' cleaned \<or> prefix ''/dev/'' cleaned
        then Inl (RootSystemMount cleaned)
        else Inr ())"

definition is_binary :: "string \<Rightarrow> bool" where
  "is_binary data = (CHR 0x00 \<in> set (take 8192 data))"

definition apply_line_range :: "string \<Rightarrow> int \<Rightarrow> int \<Rightarrow> string \<times> int \<times> int" where
  "apply_line_range content start_line end_line =
     (let lines = split_char (CHR 0x0A) content;
          n = int (length lines);
          start_idx = (if 0 < start_line then (if n < start_line - 1 then n else start_line - 1) else 0);
          end_idx = (if 0 < end_line then (if n < end_line then n else end_line) else n);
          result = (if start_idx < end_idx
                    then join [CHR 0x0A] (drop (nat start_idx) (take (nat end_idx) lines))
                    else [])
      in (result, start_idx + 1, end_idx))"

section \<open>The symlink-safe walk\<close>

text \<open>
  A file-system state maps a path to the kind of the object there (\<open>os.Lstat\<close>). Where a
  system call fails for another reason than a missing object is a set of paths the
  environment chooses: \<open>lstat_fails\<close> and \<open>mkdir_fails\<close>.
\<close>

datatype node = File | Dir | Symlink

record fs =
  nodes :: "string \<Rightarrow> node option"
  lstat_fails :: "string \<Rightarrow> bool"
  mkdir_fails :: "string \<Rightarrow> bool"

text \<open>\<open>filepath.Rel(root, full)\<close> for two cleaned paths of the same kind, as the list of its
  elements: common elements go, the rest of the root becomes \<open>..\<close>. It fails where one path is
  absolute and the other is not, and where the rest of the root holds \<open>..\<close>.\<close>

fun strip_common :: "string list \<Rightarrow> string list \<Rightarrow> string list \<times> string list" where
  "strip_common (x # xs) (y # ys) = (if x = y then strip_common xs ys else (x # xs, y # ys))"
| "strip_common xs ys = (xs, ys)"

definition elems :: "string \<Rightarrow> string list" where
  "elems p = clean_elems (is_abs p) (split_char slash p)"

definition path_rel :: "string \<Rightarrow> string \<Rightarrow> path_error + string list" where
  "path_rel root full =
     (if is_abs root \<noteq> is_abs full then Inl RelFailed
      else let (xs, ys) = strip_common (elems root) (elems full) in
        if dotdot \<in> set xs then Inl RelFailed
        else Inr (map (\<lambda>_. dotdot) xs @ ys))"

text \<open>The loop over the elements; the flag is \<open>i < len(parts)-1\<close>.\<close>

fun walk_parts :: "bool \<Rightarrow> fs \<Rightarrow> string \<Rightarrow> string list \<Rightarrow> (path_error + string) \<times> fs" where
  "walk_parts create s current [] = (Inr current, s)"
| "walk_parts create s current (part # parts) =
     (let next = path_join current part in
      if lstat_fails s next then (Inl (StatFailed next), s)
      else case nodes s next of
        None \<Rightarrow>
          if parts = [] then walk_parts create s next parts
          else if create then
            (if mkdir_fails s next then (Inl (MkdirFailed next), s)
             else walk_parts create (s\<lparr>nodes := (nodes s)(next \<mapsto> Dir)\<rparr>) next parts)
          else (Inl (ComponentMissing next), s)
      | Some k \<Rightarrow>
          if k = Symlink then (Inl (SymlinkComponent next), s)
          else if parts \<noteq> [] \<and> k \<noteq> Dir then (Inl (NotADirectory next), s)
          else walk_parts create s next parts)"

definition resolve_symlink_safe :: "fs \<Rightarrow> string \<Rightarrow> string \<Rightarrow> bool \<Rightarrow> (path_error + string) \<times> fs" where
  "resolve_symlink_safe s root full create =
     (let clean_root = clean root; clean_full = clean full in
      case path_rel clean_root clean_full of
        Inl e \<Rightarrow> (Inl e, s)
      | Inr rel \<Rightarrow>
          if rel = [] then (Inr clean_root, s)
          else if hd rel = dotdot then (Inl (EscapesRoot full root), s)
          else walk_parts create s clean_root rel)"

section \<open>Cleaning a path\<close>

text \<open>The elements of a cleaned path: no empty element, no \<open>.\<close>, and \<open>..\<close> only as a leading
  run of a path without root. \<open>ok_stack\<close> states it of the reversed output of the loop.\<close>

definition good_elem :: "string \<Rightarrow> bool" where
  "good_elem e \<longleftrightarrow> e \<noteq> [] \<and> e \<noteq> dot \<and> slash \<notin> set e"

fun ok_stack :: "bool \<Rightarrow> string list \<Rightarrow> bool" where
  "ok_stack rooted [] = True"
| "ok_stack rooted (t # rest) =
     (ok_stack rooted rest \<and> good_elem t
      \<and> (t = dotdot \<longrightarrow> \<not> rooted \<and> (\<forall>x \<in> set rest. x = dotdot)))"

definition canon :: "bool \<Rightarrow> string list \<Rightarrow> bool" where
  "canon rooted es = ok_stack rooted (rev es)"

lemma dot_neqs [simp]: "dot \<noteq> dotdot" "dotdot \<noteq> dot" "dotdot \<noteq> []" "dot \<noteq> []" "[] \<noteq> dot" "[] \<noteq> dotdot"
  by (simp_all add: dot_def dotdot_def)

lemma good_elem_dotdot [simp]: "good_elem dotdot"
  by (simp add: good_elem_def) (simp add: dotdot_def slash_def)

lemma ok_stack_step:
  "ok_stack rooted out \<Longrightarrow> slash \<notin> set e \<Longrightarrow> ok_stack rooted (clean_step rooted e out)"
  by (cases "e = dotdot") (auto simp: good_elem_def [of e] split: list.splits)

lemma ok_stack_fold:
  "ok_stack rooted out \<Longrightarrow> (\<And>e. e \<in> set es \<Longrightarrow> slash \<notin> set e) \<Longrightarrow>
     ok_stack rooted (fold (clean_step rooted) es out)"
proof (induction es arbitrary: out)
  case (Cons e es)
  then show ?case by (simp add: ok_stack_step del: clean_step.simps)
qed simp

lemma canon_clean_elems:
  "(\<And>e. e \<in> set es \<Longrightarrow> slash \<notin> set e) \<Longrightarrow> canon rooted (clean_elems rooted es)"
  by (simp add: canon_def clean_elems_def ok_stack_fold)

lemma canon_elems: "canon (is_abs p) (elems p)"
  unfolding elems_def by (rule canon_clean_elems) (rule split_char_free)

lemma ok_stack_push:
  "ok_stack rooted (t # rest) \<Longrightarrow> clean_step rooted t rest = t # rest"
  by (cases "t = dotdot"; cases rest) (simp_all add: good_elem_def [of t])

lemma fold_clean_step_canon:
  "ok_stack rooted out \<Longrightarrow> fold (clean_step rooted) (rev out) [] = out"
proof (induction out)
  case (Cons t rest)
  then show ?case
    using ok_stack_push [OF Cons.prems] by (simp del: clean_step.simps)
qed simp

lemma clean_elems_canon: "canon rooted es \<Longrightarrow> clean_elems rooted es = es"
  using fold_clean_step_canon [of rooted "rev es"] by (simp add: canon_def clean_elems_def)

lemma clean_elems_skip: "clean_elems rooted ([] # es) = clean_elems rooted es"
  by (simp add: clean_elems_def)

lemma ok_stack_mem: "ok_stack rooted out \<Longrightarrow> e \<in> set out \<Longrightarrow> good_elem e"
  by (induction rooted out rule: ok_stack.induct) auto

lemma ok_stack_rooted: "ok_stack True out \<Longrightarrow> dotdot \<notin> set out"
  by (induction "True" out rule: ok_stack.induct) auto

lemma canon_mem: "canon rooted es \<Longrightarrow> e \<in> set es \<Longrightarrow> good_elem e"
  unfolding canon_def using ok_stack_mem [of rooted "rev es" e] by simp

lemma canon_rooted: "canon True es \<Longrightarrow> dotdot \<notin> set es"
  unfolding canon_def using ok_stack_rooted [of "rev es"] by simp

lemma canon_append_plain:
  "canon rooted es \<Longrightarrow> good_elem e \<Longrightarrow> e \<noteq> dotdot \<Longrightarrow> canon rooted (es @ [e])"
  by (simp add: canon_def)

lemma split_join_good:
  "es \<noteq> [] \<Longrightarrow> (\<And>e. e \<in> set es \<Longrightarrow> good_elem e) \<Longrightarrow> split_char slash (join [slash] es) = es"
  by (rule split_char_join) (auto simp: good_elem_def)

lemma join_good_head:
  "es \<noteq> [] \<Longrightarrow> good_elem (hd es) \<Longrightarrow> join [slash] es \<noteq> [] \<and> hd (join [slash] es) \<noteq> slash"
  by (cases es; cases "hd es"; cases "tl es") (auto simp: good_elem_def)

lemma is_abs_Cons: "is_abs (c # s) \<longleftrightarrow> c = slash"
  by (auto simp: is_abs_def)

lemma is_abs_iff: "is_abs s \<longleftrightarrow> s \<noteq> [] \<and> hd s = slash"
  by (cases s) (auto simp: is_abs_def)

text \<open>Printing and re-reading a canonical path gives its elements back.\<close>

lemma is_abs_unsplit: "canon rooted es \<Longrightarrow> is_abs (unsplit rooted es) = rooted"
proof (cases rooted)
  case False
  assume c: "canon rooted es"
  show ?thesis
  proof (cases "es = []")
    case False
    have "good_elem (hd es)" using canon_mem [OF c] False by simp
    with False \<open>\<not> rooted\<close> join_good_head [of es] show ?thesis
      by (auto simp: unsplit_def is_abs_iff)
  qed (use \<open>\<not> rooted\<close> in \<open>simp add: unsplit_def is_abs_iff dot_def slash_def\<close>)
qed (simp add: unsplit_def is_abs_Cons)

lemma elems_unsplit:
  assumes c: "canon rooted es"
  shows "elems (unsplit rooted es) = es"
proof -
  have "clean_elems rooted (split_char slash (unsplit rooted es)) = es"
  proof (cases "es = []")
    case True
    have "clean_elems True [[], []] = []" "clean_elems False [dot] = []"
      by (simp_all add: clean_elems_def)
    then show ?thesis
      using True by (simp add: unsplit_def dot_def slash_def)
  next
    case False
    have sp: "split_char slash (join [slash] es) = es"
      using False canon_mem [OF c] by (intro split_join_good)
    have "clean_elems rooted es = es" by (rule clean_elems_canon [OF c])
    then show ?thesis
      using False sp by (cases rooted) (simp_all add: unsplit_def clean_elems_skip)
  qed
  then show ?thesis using is_abs_unsplit [OF c] by (simp add: elems_def)
qed

lemma clean_eq_unsplit: "clean p = unsplit (is_abs p) (elems p)"
  by (simp add: clean_def elems_def)

lemma elems_clean [simp]: "elems (clean p) = elems p"
  by (simp add: clean_eq_unsplit elems_unsplit canon_elems)

lemma is_abs_clean [simp]: "is_abs (clean p) = is_abs p"
  by (simp add: clean_eq_unsplit is_abs_unsplit canon_elems)

text \<open>\<open>filepath.Clean\<close> as modelled is idempotent.\<close>

lemma clean_clean [simp]: "clean (clean p) = clean p"
  by (simp add: clean_eq_unsplit [of "clean p"]) (simp add: clean_eq_unsplit)

lemma clean_eqI: "is_abs p = is_abs q \<Longrightarrow> elems p = elems q \<Longrightarrow> clean p = clean q"
  by (simp add: clean_eq_unsplit)

lemma clean_not_Nil [simp]: "clean p \<noteq> []"
proof -
  have "elems p \<noteq> [] \<Longrightarrow> join [slash] (elems p) \<noteq> []"
    using join_good_head [of "elems p"] canon_mem [OF canon_elems, of "hd (elems p)" p] by simp
  then show ?thesis by (simp add: clean_eq_unsplit unsplit_def)
qed

text \<open>The string test \<open>prefix (root + "/")\<close> is the list test on elements.\<close>

lemma join_append: "xs \<noteq> [] \<Longrightarrow> ys \<noteq> [] \<Longrightarrow> join sep (xs @ ys) = join sep xs @ sep @ join sep ys"
  by (induction xs rule: induct_list012) (auto simp: join_Cons)

lemma unsplit_append_prefix:
  "es \<noteq> [] \<Longrightarrow> xs \<noteq> [] \<Longrightarrow> prefix (unsplit rooted es @ [slash]) (unsplit rooted (es @ xs))"
  by (auto simp: unsplit_def join_append)

section \<open>Joining and staying under a root\<close>

text \<open>What a relative path does to the elements of its base.\<close>

definition resolve_elems :: "bool \<Rightarrow> string list \<Rightarrow> string list \<Rightarrow> string list" where
  "resolve_elems rooted base es = rev (fold (clean_step rooted) es (rev base))"

lemma elems_fold: "fold (clean_step (is_abs p)) (split_char slash p) [] = rev (elems p)"
  by (simp add: elems_def clean_elems_def)

lemma is_abs_append: "a \<noteq> [] \<Longrightarrow> is_abs (a @ b) = is_abs a"
  by (cases a) (simp_all add: is_abs_Cons)

lemma path_join_props:
  assumes "a \<noteq> []"
  shows "elems (path_join a b) = resolve_elems (is_abs a) (elems a) (split_char slash b)"
    and "is_abs (path_join a b) = is_abs a"
    and "clean (path_join a b) = path_join a b"
proof -
  have skip: "resolve_elems r base [[]] = base" for r base by (simp add: resolve_elems_def)
  have "elems (a @ slash # b) = resolve_elems (is_abs a) (elems a) (split_char slash b)"
    using assms elems_fold [of a]
    by (simp add: elems_def [of "a @ slash # b"] is_abs_append split_char_append_sep
        clean_elems_def resolve_elems_def)
  with assms skip show "elems (path_join a b) = resolve_elems (is_abs a) (elems a) (split_char slash b)"
    by (simp add: path_join_def)
  show "is_abs (path_join a b) = is_abs a" "clean (path_join a b) = path_join a b"
    using assms by (simp_all add: path_join_def is_abs_append)
qed

lemma canon_resolve: "canon r base \<Longrightarrow> (\<And>e. e \<in> set es \<Longrightarrow> slash \<notin> set e) \<Longrightarrow> canon r (resolve_elems r base es)"
  by (simp add: canon_def resolve_elems_def ok_stack_fold)

lemma fold_clean_step_plain:
  "dotdot \<notin> set es \<Longrightarrow>
     fold (clean_step r) es out = rev (filter (\<lambda>e. e \<noteq> [] \<and> e \<noteq> dot) es) @ out"
  by (induction es arbitrary: out) auto

lemma resolve_elems_plain:
  "dotdot \<notin> set es \<Longrightarrow> resolve_elems r base es = base @ filter (\<lambda>e. e \<noteq> [] \<and> e \<noteq> dot) es"
  by (simp add: resolve_elems_def fold_clean_step_plain)

lemma resolve_elems_single:
  "good_elem e \<Longrightarrow> e \<noteq> dotdot \<Longrightarrow> resolve_elems r base [e] = base @ [e]"
  by (simp add: resolve_elems_def good_elem_def)

lemma split_unsplit_abs:
  "canon True es \<Longrightarrow> split_char slash (unsplit True es) = [] # (if es = [] then [[]] else es)"
  using split_join_good [of es] canon_mem [of True es]
  by (auto simp: unsplit_def)

lemma abs_prefix_iff:
  assumes "canon True es" "canon True fs" "es \<noteq> []"
  shows "unsplit True fs = unsplit True es \<or> prefix (unsplit True es @ [slash]) (unsplit True fs)
         \<longleftrightarrow> prefix es fs"
proof
  assume "unsplit True fs = unsplit True es \<or> prefix (unsplit True es @ [slash]) (unsplit True fs)"
  then show "prefix es fs"
  proof
    assume "unsplit True fs = unsplit True es"
    then have "elems (unsplit True fs) = elems (unsplit True es)" by simp
    then show ?thesis using assms by (simp add: elems_unsplit)
  next
    assume "prefix (unsplit True es @ [slash]) (unsplit True fs)"
    then obtain w where "unsplit True fs = unsplit True es @ slash # w"
      by (auto simp: prefix_def)
    then have "split_char slash (unsplit True fs) = split_char slash (unsplit True es) @ split_char slash w"
      by (simp add: split_char_append_sep)
    then show ?thesis
      using assms by (auto simp: split_unsplit_abs Cons_eq_append_conv split: if_splits)
  qed
next
  assume "prefix es fs"
  then obtain ws where fs: "fs = es @ ws" by (auto simp: prefix_def)
  then show "unsplit True fs = unsplit True es \<or> prefix (unsplit True es @ [slash]) (unsplit True fs)"
    using unsplit_append_prefix [of es ws True] assms(3) by (cases "ws = []") auto
qed

lemma split_has_dotdot:
  assumes "sublist ''/../'' p \<or> suffix ''/..'' p"
  shows "dotdot \<in> set (split_char slash p)"
proof -
  have a: "''/../'' = slash # dotdot @ slash # []" "''/..'' = slash # dotdot"
    by (simp_all add: slash_def dotdot_def)
  have nd: "slash \<notin> set dotdot" by (simp add: slash_def dotdot_def)
  from assms show ?thesis
  proof
    assume "sublist ''/../'' p"
    then obtain u v where "p = u @ slash # (dotdot @ slash # v)"
      unfolding a(1) by (auto simp: sublist_def)
    then have "split_char slash p = split_char slash u @ dotdot # split_char slash v"
      by (simp only: split_char_append_sep split_char_none [OF nd] append.simps)
    then show ?thesis by simp
  next
    assume "suffix ''/..'' p"
    then obtain u where "p = u @ slash # dotdot"
      unfolding a(2) by (auto simp: suffix_def)
    then have "split_char slash p = split_char slash u @ [dotdot]"
      by (simp only: split_char_append_sep split_char_none [OF nd])
    then show ?thesis by simp
  qed
qed

lemma abs_clean_no_traversal:
  assumes "is_abs p"
  shows "\<not> (sublist ''/../'' (clean p) \<or> suffix ''/..'' (clean p))"
proof
  assume "sublist ''/../'' (clean p) \<or> suffix ''/..'' (clean p)"
  then have "dotdot \<in> set (split_char slash (unsplit True (elems p)))"
    using assms split_has_dotdot by (simp add: clean_eq_unsplit)
  moreover have c: "canon True (elems p)" using canon_elems [of p] assms by simp
  ultimately show False using canon_rooted [OF c] by (auto simp: split_unsplit_abs split: if_splits)
qed

lemma elems_root_nonempty: "is_abs root \<Longrightarrow> clean root \<noteq> [slash] \<Longrightarrow> elems root \<noteq> []"
  by (auto simp: clean_eq_unsplit unsplit_def)

text \<open>The decision of \<open>ValidateRelativePath\<close> under an absolute root below \<open>/\<close>, in terms of
  elements only.\<close>

lemma validate_relative_path_abs:
  assumes abs: "is_abs root" and below: "clean root \<noteq> [slash]"
    and rel: "rel \<noteq> []" "CHR 0x00 \<notin> set rel" "\<not> is_abs rel"
  defines "es \<equiv> resolve_elems True (elems root) (split_char slash rel)"
  shows "validate_relative_path root rel =
    (if prefix (elems root) es then Inr (unsplit True es) else Inl (EscapesRoot rel root))"
proof -
  let ?j = "path_join (clean root) rel"
  have es: "elems ?j = es" and ja: "is_abs ?j" and jc: "clean ?j = ?j"
    using path_join_props [of "clean root" rel] abs by (simp_all add: es_def)
  have cr: "canon True (elems root)" using canon_elems [of root] abs by simp
  have ce: "canon True es" using canon_elems [of ?j] ja es by simp
  have j: "?j = unsplit True es" using clean_eq_unsplit [of ?j] ja es jc by simp
  have root: "clean root = unsplit True (elems root)" using abs by (simp add: clean_eq_unsplit)
  have ne: "elems root \<noteq> []" using abs below by (rule elems_root_nonempty)
  have nt: "\<not> (sublist ''/../'' ?j \<or> suffix ''/..'' ?j)"
    using abs_clean_no_traversal [OF ja] unfolding jc .
  have iff: "?j = clean root \<or> prefix (clean root @ [slash]) ?j \<longleftrightarrow> prefix (elems root) es"
    using abs_prefix_iff [OF cr ce ne] unfolding j [symmetric] root [symmetric] .
  have v: "validate_relative_path root rel =
      (if \<not> (?j = clean root \<or> prefix (clean root @ [slash]) ?j) then Inl (EscapesRoot rel root)
       else if sublist ''/../'' ?j \<or> suffix ''/..'' ?j then Inl (Traversal rel) else Inr ?j)"
    using rel unfolding validate_relative_path_def Let_def jc by (simp only: if_False de_Morgan_disj)
  show ?thesis unfolding v iff if_not_P [OF nt] using j by (cases "prefix (elems root) es") simp_all
qed

lemma is_within_path_abs:
  assumes "is_abs root" "is_abs p" "clean root \<noteq> [slash]"
  shows "is_within_path root p \<longleftrightarrow> prefix (elems root) (elems p)"
proof -
  have "canon True (elems root)" "canon True (elems p)"
    using canon_elems [of root] canon_elems [of p] assms by simp_all
  from abs_prefix_iff [OF this elems_root_nonempty [OF assms(1,3)]] assms
  show ?thesis by (auto simp: is_within_path_def Let_def clean_eq_unsplit)
qed

lemma validate_root_dir_ok:
  assumes "validate_root_dir root = Inr ()"
  shows "is_abs root" "clean root \<noteq> [slash]"
  using assms by (auto simp: validate_root_dir_def system_dirs_def Let_def slash_def split: if_splits)

text \<open>under a root that \<open>ValidateRootDir\<close> accepts, a path that \<open>ValidateRelativePath\<close> accepts
  is within the root, is its own cleaning and holds no \<open>..\<close> element.\<close>

theorem validate_relative_path_safe:
  assumes root: "validate_root_dir root = Inr ()"
    and ok: "validate_relative_path root rel = Inr p"
  shows "is_within_path root p \<and> clean p = p \<and> dotdot \<notin> set (elems p)"
proof -
  note r = validate_root_dir_ok [OF root]
  have cr: "canon True (elems root)" using canon_elems [of root] r by simp
  show ?thesis
  proof (cases "rel = []")
    case True
    with ok have "p = clean root" by (simp add: validate_relative_path_def Let_def)
    then show ?thesis using canon_rooted [OF cr] by (simp add: is_within_path_def Let_def)
  next
    case False
    with ok have rel: "rel \<noteq> []" "CHR 0x00 \<notin> set rel" "\<not> is_abs rel"
      by (auto simp: validate_relative_path_def Let_def split: if_splits)
    define es where "es = resolve_elems True (elems root) (split_char slash rel)"
    have p: "p = unsplit True es" and pre: "prefix (elems root) es"
      using ok validate_relative_path_abs [OF r rel]
      by (auto simp: es_def split: if_splits)
    have ce: "canon True es"
      unfolding es_def by (rule canon_resolve [OF cr]) (rule split_char_free)
    have e: "elems p = es" "is_abs p" using ce p by (simp_all add: elems_unsplit is_abs_unsplit)
    then show ?thesis
      using pre canon_rooted [OF ce] is_within_path_abs [OF r(1) e(2) r(2)]
        clean_eq_unsplit [of p] p by simp
  qed
qed

theorem validate_relative_path_safe_witness:
  "validate_root_dir ''/srv/ws'' = Inr ()
   \<and> validate_relative_path ''/srv/ws'' ''a/../b'' = Inr ''/srv/ws/b''
   \<and> is_within_path ''/srv/ws'' ''/srv/ws/b''"
proof -
  have 1: "validate_root_dir ''/srv/ws'' = Inr ()" by code_simp
  have 2: "validate_relative_path ''/srv/ws'' ''a/../b'' = Inr ''/srv/ws/b''" by code_simp
  show ?thesis using 1 2 validate_relative_path_safe [OF 1 2] by simp
qed

text \<open>no legitimate path is refused: a relative path without \<open>..\<close> element and without NUL is
  accepted, and the result is the root followed by the non-trivial elements of the path.\<close>

theorem validate_relative_path_complete:
  assumes root: "validate_root_dir root = Inr ()"
    and rel: "CHR 0x00 \<notin> set rel" "\<not> is_abs rel" "dotdot \<notin> set (split_char slash rel)"
  shows "validate_relative_path root rel =
    Inr (unsplit True (elems root @ filter (\<lambda>e. e \<noteq> [] \<and> e \<noteq> dot) (split_char slash rel)))"
proof (cases "rel = []")
  case True
  then show ?thesis
    using validate_root_dir_ok [OF root]
    by (simp add: validate_relative_path_def clean_eq_unsplit)
next
  case False
  show ?thesis
    using validate_relative_path_abs [OF validate_root_dir_ok [OF root] False rel(1,2)] rel(3)
    by (simp add: resolve_elems_plain)
qed

theorem validate_relative_path_complete_witness:
  "validate_relative_path ''/srv/ws'' ''./a//b'' = Inr ''/srv/ws/a/b''"
proof -
  have 1: "validate_root_dir ''/srv/ws'' = Inr ()" by code_simp
  have 2: "CHR 0x00 \<notin> set ''./a//b''" "\<not> is_abs ''./a//b''" by code_simp+
  have 3: "dotdot \<notin> set (split_char slash ''./a//b'')" by code_simp
  have 4: "unsplit True (elems ''/srv/ws'' @ filter (\<lambda>e. e \<noteq> [] \<and> e \<noteq> dot) (split_char slash ''./a//b''))
      = ''/srv/ws/a/b''" by code_simp
  show ?thesis using validate_relative_path_complete [OF 1 2 3] 4 by simp
qed

end
