(* ===== verification/FileWalk.thy ===== *)
theory FileWalk
  imports FileUtil
begin

text \<open>
  What the guards of \<^verbatim>\<open>libs/toolkit/fileutil\<close> promise beyond the lexical checks: the
  symlink-safe walk, the sanitised segment, the \<open>.git\<close> filter and line ranges.
\<close>

section \<open>The symlink-safe walk\<close>

abbreviation walk_path :: "string \<Rightarrow> string list \<Rightarrow> string" where
  "walk_path cur parts \<equiv> foldl path_join cur parts"

text \<open>The walk only ever turns a missing object into a directory.\<close>

lemma walk_parts_mono:
  "walk_parts create s cur parts = (r, s') \<Longrightarrow>
     nodes s' q = nodes s q \<or> (nodes s q = None \<and> nodes s' q = Some Dir \<and> create)"
proof (induction create s cur parts arbitrary: r s' rule: walk_parts.induct)
  case (2 create s cur part parts)
  show ?case
  proof (cases "lstat_fails s (path_join cur part)")
    case True
    with "2.prems" show ?thesis by (simp add: Let_def)
  next
    case False
    show ?thesis
    proof (cases "nodes s (path_join cur part)")
      case None
      show ?thesis
      proof (cases "parts = [] \<or> \<not> create \<or> mkdir_fails s (path_join cur part)")
        case True
        with False None "2.prems" show ?thesis
          using "2.IH"(1) [OF refl False None] by (auto simp: Let_def split: if_splits)
      next
        case made: False
        then have "walk_parts create (s\<lparr>nodes := (nodes s)(path_join cur part \<mapsto> Dir)\<rparr>)
            (path_join cur part) parts = (r, s')"
          using False None "2.prems" by (simp add: Let_def)
        from "2.IH"(2) [OF refl False None _ _ _ this] made None show ?thesis
          by (auto split: if_splits)
      qed
    next
      case (Some k)
      with False "2.prems" "2.IH"(3) [OF refl False Some] show ?thesis
        by (auto simp: Let_def split: if_splits)
    qed
  qed
qed simp

lemma walk_parts_state:
  assumes "walk_parts create s cur parts = (r, s')"
  shows "nodes s q = Some k \<Longrightarrow> nodes s' q = Some k"
    and "nodes s' q = Some Symlink \<Longrightarrow> nodes s q = Some Symlink"
  using walk_parts_mono [OF assms, of q] by auto

lemma walk_parts_ok:
  "walk_parts create s cur parts = (Inr p, s') \<Longrightarrow>
     p = walk_path cur parts
     \<and> (\<forall>i. 0 < i \<and> i \<le> length parts \<longrightarrow> nodes s' (walk_path cur (take i parts)) \<noteq> Some Symlink)
     \<and> (\<forall>i. 0 < i \<and> i < length parts \<longrightarrow> nodes s' (walk_path cur (take i parts)) = Some Dir)"
proof (induction create s cur parts arbitrary: s' rule: walk_parts.induct)
  case (2 create s cur part parts)
  let ?n = "path_join cur part"
  have nl: "\<not> lstat_fails s ?n" using "2.prems" by (auto simp: Let_def split: if_splits)
  obtain t where t: "walk_parts create t ?n parts = (Inr p, s')"
    and first: "nodes t ?n \<noteq> Some Symlink" "parts \<noteq> [] \<Longrightarrow> nodes t ?n = Some Dir"
    and IH: "p = walk_path ?n parts
     \<and> (\<forall>i. 0 < i \<and> i \<le> length parts \<longrightarrow> nodes s' (walk_path ?n (take i parts)) \<noteq> Some Symlink)
     \<and> (\<forall>i. 0 < i \<and> i < length parts \<longrightarrow> nodes s' (walk_path ?n (take i parts)) = Some Dir)"
  proof (cases "nodes s ?n")
    case None
    show ?thesis
    proof (cases "parts = []")
      case True
      with None nl "2.prems" have w: "walk_parts create s ?n parts = (Inr p, s')"
        by (simp add: Let_def)
      show ?thesis
        using that [OF w] "2.IH"(1) [OF refl nl None True w] None True by simp
    next
      case False
      with None nl "2.prems" have c: "create" "\<not> mkdir_fails s ?n"
        and w: "walk_parts create (s\<lparr>nodes := (nodes s)(?n \<mapsto> Dir)\<rparr>) ?n parts = (Inr p, s')"
        by (auto simp: Let_def split: if_splits)
      show ?thesis
        using that [OF w] "2.IH"(2) [OF refl nl None False c w] by simp
    qed
  next
    case (Some k)
    with nl "2.prems" have k: "k \<noteq> Symlink" "\<not> (parts \<noteq> [] \<and> k \<noteq> Dir)"
      and w: "walk_parts create s ?n parts = (Inr p, s')"
      by (auto simp: Let_def split: if_splits)
    show ?thesis
      using that [OF w] "2.IH"(3) [OF refl nl Some k w] Some k by auto
  qed
  have here: "nodes s' ?n \<noteq> Some Symlink" "parts \<noteq> [] \<Longrightarrow> nodes s' ?n = Some Dir"
    using walk_parts_state [OF t, of ?n] first by auto
  show ?case
  proof (intro conjI allI impI)
    show "p = walk_path cur (part # parts)" using IH by simp
  next
    fix i assume i: "0 < i \<and> i \<le> length (part # parts)"
    then show "nodes s' (walk_path cur (take i (part # parts))) \<noteq> Some Symlink"
      using IH here by (cases "i = 1") (auto simp: take_Cons' Suc_le_eq)
  next
    fix i assume i: "0 < i \<and> i < length (part # parts)"
    then show "nodes s' (walk_path cur (take i (part # parts))) = Some Dir"
      using IH here by (cases "i = 1") (auto simp: take_Cons')
  qed
qed simp

lemma strip_common_prefix:
  "strip_common xs ys = (us, vs) \<Longrightarrow> \<exists>cs. xs = cs @ us \<and> ys = cs @ vs"
  by (induction xs ys arbitrary: us vs rule: strip_common.induct)
    (auto split: if_splits)

lemma walk_path_elems:
  "cur \<noteq> [] \<Longrightarrow> (\<And>e. e \<in> set parts \<Longrightarrow> good_elem e \<and> e \<noteq> dotdot) \<Longrightarrow>
     elems (walk_path cur parts) = elems cur @ parts
     \<and> is_abs (walk_path cur parts) = is_abs cur"
proof (induction parts arbitrary: cur)
  case (Cons e es)
  then have e: "good_elem e" "e \<noteq> dotdot" by auto
  then have sp: "split_char slash e = [e]" by (simp add: good_elem_def split_char_none)
  have j: "elems (path_join cur e) = elems cur @ [e]" "is_abs (path_join cur e) = is_abs cur"
      "path_join cur e \<noteq> []"
    using path_join_props [OF Cons.prems(1), of e] e sp
    by (simp_all add: resolve_elems_single) (metis clean_not_Nil)
  show ?case using Cons.IH [OF j(3)] Cons.prems(2) j by simp
qed simp

text \<open>A walked path is the clean path of its elements.\<close>

lemma walk_path_unsplit:
  assumes "is_abs root" and "\<And>e. e \<in> set parts \<Longrightarrow> good_elem e \<and> e \<noteq> dotdot"
  shows "walk_path (clean root) parts = unsplit True (elems root @ parts)"
proof -
  have w: "elems (walk_path (clean root) parts) = elems root @ parts" "is_abs (walk_path (clean root) parts)"
    using walk_path_elems [of "clean root" parts] assms by auto
  have "clean (walk_path (clean root) parts) = walk_path (clean root) parts"
  proof (cases parts rule: rev_cases)
    case (snoc xs x)
    have "is_abs (walk_path (clean root) xs)" using walk_path_elems [of "clean root" xs] assms snoc by auto
    then have "walk_path (clean root) xs \<noteq> []" by (auto simp: is_abs_def)
    then show ?thesis using path_join_props(3) snoc by simp
  qed simp
  then show ?thesis using clean_eq_unsplit [of "walk_path (clean root) parts"] w by simp
qed

text \<open>C9: A path \<open>ResolveSymlinkSafe\<close> returns is the requested path, cleaned, and lies within the root. Every one of its
  elements below the root, one by one, is looked at: in the resulting file system the path up to that element is no
  symlink, and is a directory unless it is the whole path.\<close>

theorem resolve_symlink_safe_sound:
  assumes abs: "is_abs root" and below: "clean root \<noteq> [slash]"
    and ok: "resolve_symlink_safe s root full create = (Inr p, s')"
  shows "p = clean full \<and> is_within_path root p
     \<and> (\<forall>i. length (elems root) < i \<and> i \<le> length (elems p) \<longrightarrow>
           nodes s' (unsplit True (take i (elems p))) \<noteq> Some Symlink
           \<and> (i < length (elems p) \<longrightarrow> nodes s' (unsplit True (take i (elems p))) = Some Dir))"
proof -
  obtain rel where rel: "path_rel (clean root) (clean full) = Inr rel"
    using ok by (auto simp: resolve_symlink_safe_def Let_def split: sum.splits)
  obtain us vs where sc: "strip_common (elems root) (elems full) = (us, vs)"
    by (cases "strip_common (elems root) (elems full)")
  with rel have r: "rel = map (\<lambda>_. dotdot) us @ vs" and af: "is_abs full"
    using abs by (auto simp: path_rel_def split: if_splits)
  have us: "us = []" using ok rel r by (cases us) (auto simp: resolve_symlink_safe_def Let_def)
  from strip_common_prefix [OF sc] us r have full: "elems full = elems root @ rel" by auto
  have cf: "canon True (elems full)" using canon_elems [of full] af by simp
  have good: "good_elem e \<and> e \<noteq> dotdot" if "e \<in> set rel" for e
    using that full canon_mem [OF cf] canon_rooted [OF cf] by auto
  have wk: "walk_path (clean root) (take i rel) = unsplit True (elems root @ take i rel)" for i
    by (rule walk_path_unsplit [OF abs good]) (auto dest: in_set_takeD)
  have p: "p = walk_path (clean root) rel
     \<and> (\<forall>i. 0 < i \<and> i \<le> length rel \<longrightarrow> nodes s' (walk_path (clean root) (take i rel)) \<noteq> Some Symlink)
     \<and> (\<forall>i. 0 < i \<and> i < length rel \<longrightarrow> nodes s' (walk_path (clean root) (take i rel)) = Some Dir)"
  proof (cases "rel = []")
    case False
    with ok rel have "walk_parts create s (clean root) rel = (Inr p, s')"
      by (auto simp: resolve_symlink_safe_def Let_def split: if_splits)
    then show ?thesis by (rule walk_parts_ok)
  qed (use ok rel in \<open>simp add: resolve_symlink_safe_def Let_def\<close>)
  have pe: "p = clean full" "elems p = elems root @ rel"
    using p wk [of "length rel"] full af clean_eq_unsplit [of full] elems_unsplit [OF cf] by auto
  have at: "unsplit True (take i (elems p)) = walk_path (clean root) (take (i - length (elems root)) rel)"
    if "length (elems root) < i" for i
    using that pe(2) wk by simp
  have "is_within_path root p" using is_within_path_abs [OF abs _ below] pe full af by simp
  moreover have "nodes s' (unsplit True (take i (elems p))) \<noteq> Some Symlink
      \<and> (i < length (elems p) \<longrightarrow> nodes s' (unsplit True (take i (elems p))) = Some Dir)"
    if "length (elems root) < i \<and> i \<le> length (elems p)" for i
    using p that pe(2) at [of i] by auto
  ultimately show ?thesis using pe(1) by blast
qed

definition demo_fs :: fs where
  "demo_fs = \<lparr>nodes = (\<lambda>p. if p = ''/srv/a'' then Some Dir
                           else if p = ''/srv/l'' then Some Symlink else None),
              lstat_fails = (\<lambda>_. False), mkdir_fails = (\<lambda>_. False)\<rparr>"

theorem resolve_symlink_safe_sound_witness:
  "fst (resolve_symlink_safe demo_fs ''/srv'' ''/srv/a/b/c'' True) = Inr ''/srv/a/b/c''
   \<and> is_within_path ''/srv'' ''/srv/a/b/c''
   \<and> fst (resolve_symlink_safe demo_fs ''/srv'' ''/srv/l/x'' True) = Inl (SymlinkComponent ''/srv/l'')"
proof -
  have 1: "is_abs ''/srv''" "clean ''/srv'' \<noteq> [slash]" by code_simp+
  have 2: "fst (resolve_symlink_safe demo_fs ''/srv'' ''/srv/a/b/c'' True) = Inr ''/srv/a/b/c''"
    by code_simp
  have 3: "fst (resolve_symlink_safe demo_fs ''/srv'' ''/srv/l/x'' True) = Inl (SymlinkComponent ''/srv/l'')"
    by code_simp
  obtain s' where s': "resolve_symlink_safe demo_fs ''/srv'' ''/srv/a/b/c'' True = (Inr ''/srv/a/b/c'', s')"
    using 2 by (metis prod.collapse)
  show ?thesis using 2 3 resolve_symlink_safe_sound [OF 1 s'] by blast
qed

section \<open>Sanitised segments\<close>

lemma segs_ascii: "(r, b) \<in> set (segs s) \<Longrightarrow> r < 128 \<Longrightarrow> b = [char_of r]"
proof (induction s rule: segs.induct)
  case (2 a s)
  obtain q w where qw: "decode_rune a s = (q, w)" by (cases "decode_rune a s")
  have "w = 1 \<and> q = byte a" if "q < 128"
    using qw that
    by (auto simp: decode_rune_def decode2_def decode3_def decode4_def rune_error_def
        split: if_splits list.splits)
  with "2.prems" "2.IH" [OF refl qw [symmetric]] qw show ?case by auto
qed simp

lemma runes_ascii: "r \<in> set (runes s) \<Longrightarrow> r < 128 \<Longrightarrow> char_of r \<in> set s"
proof -
  assume "r \<in> set (runes s)" and r: "r < 128"
  then obtain b where b: "(r, b) \<in> set (segs s)" by (auto simp: runes_def)
  then have "char_of r \<in> set (concat (map snd (segs s)))"
    using segs_ascii [OF b r] by force
  then show ?thesis by (simp only: concat_segs)
qed

lemma encode_rune_ascii: "byte c < 128 \<Longrightarrow> c \<in> set (encode_rune r) \<Longrightarrow> encode_rune r = [c] \<and> r = byte c"
  by (auto simp: encode_rune_def encode_valid_def valid_rune_def rune_error_def split: if_splits)

lemma encode_rune_not_Nil [simp]: "encode_rune r \<noteq> []"
  by (simp add: encode_rune_def encode_valid_def)

lemma string_of_runes_ascii:
  "c \<in> set (string_of_runes rs) \<Longrightarrow> byte c < 128 \<Longrightarrow> byte c \<in> set rs"
  by (auto simp: string_of_runes_def dest: encode_rune_ascii)

lemma string_of_runes_Cons: "string_of_runes (r # rs) = encode_rune r @ string_of_runes rs"
  by (simp add: string_of_runes_def)

lemma prefix_ascii_runes:
  "prefix [b] (string_of_runes rs) \<Longrightarrow> byte b < 128 \<Longrightarrow> prefix [byte b] rs"
proof (cases rs)
  case (Cons r qs)
  assume p: "prefix [b] (string_of_runes rs)" and b: "byte b < 128"
  have "hd (encode_rune r) = b"
    using p Cons by (cases "encode_rune r") (auto simp: string_of_runes_Cons)
  then have "b \<in> set (encode_rune r)" by (metis encode_rune_not_Nil hd_in_set)
  with encode_rune_ascii [OF b] Cons show ?thesis by simp
qed (simp add: string_of_runes_def)

lemma sublist_ascii_runes:
  assumes "byte a < 128" "byte b < 128"
  shows "sublist [a, b] (string_of_runes rs) \<Longrightarrow> sublist [byte a, byte b] rs"
proof (induction rs)
  case (Cons r rs)
  let ?e = "encode_rune r" and ?t = "string_of_runes rs"
  from Cons.prems consider "sublist [a, b] ?e" | "sublist [a, b] ?t"
    | xs ys where "[a, b] = xs @ ys" "xs \<noteq> []" "ys \<noteq> []" "suffix xs ?e" "prefix ys ?t"
    by (auto simp: string_of_runes_Cons sublist_append) (metis append_Nil append_Nil2 prefix_imp_sublist suffix_imp_sublist)
  then show ?case
  proof cases
    case 1
    then have "a \<in> set ?e" by (auto dest: set_mono_sublist)
    with encode_rune_ascii [OF assms(1)] have "?e = [a]" by blast
    then have "length ?e = 1" by simp
    with sublist_length_le [OF 1] show ?thesis by simp
  next
    case 2
    with Cons.IH show ?thesis by (simp add: sublist_Cons_right)
  next
    case 3
    then have xy: "xs = [a]" "ys = [b]" by (cases xs; cases "tl xs"; auto simp: append_eq_Cons_conv)+
    with 3(4) have "a \<in> set ?e" by (auto dest: set_mono_suffix)
    with encode_rune_ascii [OF assms(1)] have "r = byte a" by simp
    moreover have "prefix [byte b] rs" using prefix_ascii_runes 3(5) xy assms(2) by simp
    ultimately show ?thesis by (auto simp: prefix_def intro!: sublist_appendI [of _ "[]", simplified])
  qed
qed (simp add: string_of_runes_def)

lemma sublist_runes_ascii:
  assumes "sublist [x, y] (runes s)" "x < 128" "y < 128"
  shows "sublist [char_of x, char_of y] s"
proof -
  obtain us vs where "runes s = us @ [x, y] @ vs" using assms(1) by (auto simp: sublist_def)
  then obtain as bx by' bs where sg: "segs s = as @ (x, bx) # (y, by') # bs"
    by (auto simp: runes_def map_eq_append_conv map_eq_Cons_conv)
  then have "bx = [char_of x]" "by' = [char_of y]"
    using segs_ascii [of x bx s] segs_ascii [of y by' s] assms(2,3) by auto
  then have "s = concat (map snd as) @ [char_of x, char_of y] @ concat (map snd bs)"
    using concat_segs [of s] unfolding sg by simp
  then show ?thesis unfolding sublist_def by blast
qed

lemma collapse_dotdot_free: "\<not> sublist dotdot (collapse_dotdot s)"
  by (induction s rule: collapse_dotdot.induct) (subst collapse_dotdot.simps, auto)

lemma set_piece_join: "p \<in> set ps \<Longrightarrow> set p \<subseteq> set (join sep ps)"
  by (induction sep ps rule: join.induct) auto

lemma set_replace_delete: "set (replace_all old [] s) \<subseteq> set s"
proof -
  have "set (join [] ps) \<subseteq> (\<Union>p \<in> set ps. set p)" for ps :: "string list"
    using set_join_sub [of "[]" ps] by simp
  moreover have "(\<Union>p \<in> set (split_str old s). set p) \<subseteq> set s"
    using set_piece_join [of _ "split_str old s" old] by (auto simp: join_split_str)
  ultimately show ?thesis unfolding replace_all_def by blast
qed

lemma set_collapse_dotdot: "set (collapse_dotdot s) \<subseteq> set s"
proof (induction s rule: collapse_dotdot.induct)
  case (1 s)
  then show ?case using set_replace_delete [of dotdot s] by (subst collapse_dotdot.simps) auto
qed

text \<open>The string after the byte replacements and the collapse loop.\<close>

definition presegment :: "string \<Rightarrow> string" where
  "presegment s =
     collapse_dotdot (replace_all [CHR 0x5C] ''_'' (replace_all [slash] ''_''
       (replace_all [CHR 0x00] [] s)))"

lemma sanitize_eq:
  "sanitize_path_segment s fb =
     (let r = filter_runes printable (presegment s) in if r = [] \<or> r = dot then fb else r)"
  by (simp add: sanitize_path_segment_def presegment_def Let_def)

lemma presegment_bytes:
  "c \<in> set (presegment s) \<Longrightarrow> c \<noteq> slash \<and> c \<noteq> CHR 0x5C \<and> (c \<in> set s \<or> c = CHR ''_'') \<and> c \<noteq> CHR 0x00"
  using set_collapse_dotdot unfolding presegment_def
  by (fastforce simp: replace_all_byte replace_all_delete_byte slash_def split: if_splits)

text \<open>whatever the input, a segment that is not the fallback is non-empty, is not \<open>.\<close> and
  holds no path separator and no control character.\<close>

theorem sanitize_no_separator:
  "sanitize_path_segment s fb = fb
   \<or> (let r = sanitize_path_segment s fb in
        r \<noteq> [] \<and> r \<noteq> dot
        \<and> list_all (\<lambda>c. c \<noteq> slash \<and> c \<noteq> CHR 0x5C \<and> printable (byte c)) r)"
proof (cases "let r = filter_runes printable (presegment s) in r = [] \<or> r = dot")
  case False
  let ?r = "filter_runes printable (presegment s)"
  have "c \<noteq> slash \<and> c \<noteq> CHR 0x5C \<and> printable (byte c)" if c: "c \<in> set ?r" for c
  proof (cases "byte c < 128")
    case True
    then have "byte c \<in> set (runes (presegment s))" "printable (byte c)"
      using string_of_runes_ascii [OF c [unfolded filter_runes_def]] by auto
    then have "c \<in> set (presegment s)" using runes_ascii [of "byte c" "presegment s"] True by simp
    with presegment_bytes \<open>printable (byte c)\<close> show ?thesis by blast
  qed (auto simp: slash_def printable_def)
  with False show ?thesis by (simp add: sanitize_eq Let_def list_all_iff)
qed (simp add: sanitize_eq Let_def)

text \<open>on an input without control characters other than NUL the segment is free of \<open>..\<close>.\<close>

theorem sanitize_no_dotdot:
  assumes "list_all (\<lambda>c. printable (byte c) \<or> c = CHR 0x00) s"
  shows "sanitize_path_segment s fb = fb \<or> \<not> sublist dotdot (sanitize_path_segment s fb)"
proof -
  let ?p = "presegment s"
  have "printable r" if r: "r \<in> set (runes ?p)" for r
  proof (cases "r < 128")
    case True
    then have "char_of r \<in> set ?p" by (rule runes_ascii [OF r])
    then have "char_of r \<noteq> CHR 0x00" "char_of r \<in> set s \<or> char_of r = CHR ''_''"
      using presegment_bytes by blast+
    moreover have "printable (byte c)" if "c \<in> set s \<or> c = CHR ''_''" "c \<noteq> CHR 0x00" for c
      using that assms by (auto simp: list_all_iff printable_def)
    ultimately have "printable (byte (char_of r))" by blast
    with True show ?thesis by simp
  qed (simp add: printable_def)
  then have "filter_runes printable ?p = string_of_runes (runes ?p)"
    by (simp add: filter_runes_def)
  moreover have "\<not> sublist dotdot (string_of_runes (runes ?p))"
  proof
    assume "sublist dotdot (string_of_runes (runes ?p))"
    then have "sublist [46, 46] (runes ?p)"
      using sublist_ascii_runes [of "CHR ''.''" "CHR ''.''"] by (simp add: dotdot_def)
    then have "sublist [char_of (46::nat), char_of (46::nat)] ?p" by (rule sublist_runes_ascii) simp_all
    moreover have "chr 46 = CHR ''.''" by code_simp
    ultimately have "sublist dotdot ?p" by (simp add: dotdot_def)
    then show False by (simp add: presegment_def collapse_dotdot_free)
  qed
  ultimately show ?thesis by (simp add: sanitize_eq Let_def)
qed

theorem sanitize_no_dotdot_witness:
  "sanitize_path_segment ''a..b'' ''repo'' = ''ab'' \<and> \<not> sublist dotdot ''ab''"
proof -
  have 1: "list_all (\<lambda>c. printable (byte c) \<or> c = CHR 0x00) ''a..b''" by code_simp
  have 2: "sanitize_path_segment ''a..b'' ''repo'' = ''ab''"
    by code_simp
  show ?thesis using 2 sanitize_no_dotdot [OF 1, of "''repo''"] by simp
qed

text \<open>control characters are removed after the \<open>..\<close> loop has run, so a control byte between
  two dots lets the parent directory through, for any fallback.\<close>

theorem sanitize_control_bypass:
  "sanitize_path_segment [CHR ''.'', CHR 0x01, CHR ''.''] fb = dotdot"
proof -
  have "filter_runes printable (presegment [CHR ''.'', CHR 0x01, CHR ''.'']) = dotdot"
    by code_simp
  then show ?thesis by (simp add: sanitize_eq)
qed

section \<open>The .git filter\<close>

lemma elems_in_split: "e \<in> set (split_char slash (clean p)) \<Longrightarrow> e \<noteq> [] \<Longrightarrow> e \<noteq> dot \<Longrightarrow> e \<in> set (elems p)"
proof -
  assume e: "e \<in> set (split_char slash (clean p))" "e \<noteq> []" "e \<noteq> dot"
  have c: "canon (is_abs p) (elems p)" by (rule canon_elems)
  show ?thesis
  proof (cases "is_abs p")
    case True
    with e c show ?thesis by (auto simp: clean_eq_unsplit split_unsplit_abs split: if_splits)
  next
    case False
    have nd: "split_char slash dot = [dot]" by (simp add: dot_def slash_def)
    show ?thesis
    proof (cases "elems p = []")
      case True
      with False e nd show ?thesis by (simp add: clean_eq_unsplit unsplit_def)
    next
      case ne: False
      have "split_char slash (join [slash] (elems p)) = elems p"
        using ne canon_mem [OF c] by (rule split_join_good)
      with False e ne show ?thesis by (simp add: clean_eq_unsplit unsplit_def)
    qed
  qed
qed

lemma elems_to_split: "e \<in> set (elems p) \<Longrightarrow> e \<in> set (split_char slash (clean p))"
proof -
  assume e: "e \<in> set (elems p)"
  have c: "canon (is_abs p) (elems p)" by (rule canon_elems)
  have "split_char slash (join [slash] (elems p)) = elems p"
    using e canon_mem [OF c] by (intro split_join_good) auto
  then show ?thesis
    using e c by (auto simp: clean_eq_unsplit unsplit_def)
qed

text \<open>\<open>RejectDotGitPath\<close> accepts exactly the paths none of whose cleaned elements is \<open>.git\<close>:
  the two string tests add nothing to the element test.\<close>

theorem reject_dot_git_path_iff:
  "reject_dot_git_path p = Inr () \<longleftrightarrow> dotgit \<notin> set (elems p)"
proof (cases "p = []")
  case True
  have "elems [] = []" by code_simp
  then show ?thesis using True by (simp add: reject_dot_git_path_def)
next
  case False
  have neq: "dotgit \<noteq> []" "dotgit \<noteq> dot" "slash \<notin> set dotgit"
    by (simp_all add: dotgit_def dot_def slash_def)
  have mem: "dotgit \<in> set (split_char slash (clean p)) \<longleftrightarrow> dotgit \<in> set (elems p)"
    using elems_in_split elems_to_split neq by blast
  have "dotgit \<in> set (split_char slash (clean p))" if "clean p = dotgit"
    using that neq by (simp add: split_char_none)
  moreover have "dotgit \<in> set (split_char slash (clean p))" if "prefix ''.git/'' (clean p)"
  proof -
    from that obtain w where "clean p = dotgit @ slash # w"
      by (auto simp: prefix_def dotgit_def slash_def)
    then show ?thesis using neq by (simp add: split_char_append)
  qed
  ultimately show ?thesis using False mem by (auto simp: reject_dot_git_path_def Let_def)
qed

section \<open>Line ranges\<close>

lemma apply_line_range_whole: "apply_line_range c 0 0 = (c, 1, int (length (split_char (CHR 0x0A) c)))"
  by (simp add: apply_line_range_def Let_def join_split_char)

lemma apply_line_range_bounds:
  assumes "apply_line_range c a b = (r, i, j)"
  shows "1 \<le> i" "i \<le> int (length (split_char (CHR 0x0A) c)) + 1"
    "0 \<le> j" "j \<le> int (length (split_char (CHR 0x0A) c))"
  using assms by (auto simp: apply_line_range_def Let_def split: if_splits)

text \<open>cutting a file after any of its lines and reading both parts loses nothing: the two
  ranges, joined by a newline, are the content.\<close>

theorem apply_line_range_partition:
  assumes "0 < k" and "k < int (length (split_char (CHR 0x0A) c))"
  shows "fst (apply_line_range c 1 k) @ [CHR 0x0A] @ fst (apply_line_range c (k + 1) 0) = c"
proof -
  let ?ls = "split_char (CHR 0x0A) c"
  have "take (nat k) ?ls \<noteq> []" "drop (nat k) ?ls \<noteq> []" using assms by auto
  from join_append [OF this, of "[CHR 0x0A]"]
  have "join [CHR 0x0A] (take (nat k) ?ls) @ [CHR 0x0A] @ join [CHR 0x0A] (drop (nat k) ?ls) = c"
    by (simp add: join_split_char)
  with assms show ?thesis by (simp add: apply_line_range_def Let_def)
qed

theorem apply_line_range_partition_witness:
  "fst (apply_line_range [CHR ''a'', CHR 0x0A, CHR ''b''] 1 1) @ [CHR 0x0A]
     @ fst (apply_line_range [CHR ''a'', CHR 0x0A, CHR ''b''] 2 0) = [CHR ''a'', CHR 0x0A, CHR ''b'']"
  using apply_line_range_partition [of 1 "[CHR ''a'', CHR 0x0A, CHR ''b'']"] by simp

end
