(* ===== verification/Messages.thy ===== *)
theory Messages
  imports Prelude
begin

text \<open>
  Chat messages as the source uses \<^verbatim>\<open>schema.Message\<close>, the boolean markers of
  \<^verbatim>\<open>components/memory/markers.go\<close> and \<^verbatim>\<open>conversation.go\<close>, and the token counter
  of \<^verbatim>\<open>libs/counter\<close>.

  A message pointer that the code compares with nil is a \<open>message option\<close>. The Extra map is a
  partial map; a nil map and an empty map are the same to every reader in the source. A value of
  type \<open>any\<close> is a boolean, a string or something the code never looks into.
\<close>

section \<open>Messages\<close>

datatype role = RSystem | RUser | RAssistant | RTool | ROther string

datatype gval = GBool bool | GStr string | GOpaque string

record tool_call =
  tc_id :: string
  tc_name :: string
  tc_args :: string

record message =
  msg_role :: role
  msg_content :: string
  msg_tool_calls :: "tool_call list"
  msg_tool_call_id :: string
  msg_tool_name :: string
  msg_extra :: "string \<Rightarrow> gval option"

type_synonym msg_ptr = "message option"

definition plain_message :: "role \<Rightarrow> string \<Rightarrow> message" where
  "plain_message r c = \<lparr>msg_role = r, msg_content = c, msg_tool_calls = [],
     msg_tool_call_id = [], msg_tool_name = [], msg_extra = Map.empty\<rparr>"

section \<open>Markers\<close>

definition summary_marker_key :: string where
  "summary_marker_key = ''__eino_ext_memory_summary''"

definition incomplete_marker_key :: string where
  "incomplete_marker_key = ''__eino_ext_memory_incomplete''"

definition ephemeral_marker_key :: string where
  "ephemeral_marker_key = ''__eino_ext_memory_ephemeral''"

definition has_bool_marker :: "msg_ptr \<Rightarrow> string \<Rightarrow> bool" where
  "has_bool_marker p key =
     (case p of None \<Rightarrow> False
      | Some m \<Rightarrow> (case msg_extra m key of Some (GBool b) \<Rightarrow> b | _ \<Rightarrow> False))"

definition set_bool_marker :: "msg_ptr \<Rightarrow> string \<Rightarrow> msg_ptr" where
  "set_bool_marker p key =
     map_option (\<lambda>m. m\<lparr>msg_extra := (msg_extra m)(key \<mapsto> GBool True)\<rparr>) p"

definition is_summary :: "msg_ptr \<Rightarrow> bool" where
  "is_summary p = has_bool_marker p summary_marker_key"

definition is_incomplete :: "msg_ptr \<Rightarrow> bool" where
  "is_incomplete p = has_bool_marker p incomplete_marker_key"

definition is_ephemeral :: "msg_ptr \<Rightarrow> bool" where
  "is_ephemeral p = has_bool_marker p ephemeral_marker_key"

definition mark_incomplete :: "msg_ptr \<Rightarrow> msg_ptr" where
  "mark_incomplete p = set_bool_marker p incomplete_marker_key"

definition new_summary_message :: "string \<Rightarrow> message" where
  "new_summary_message c =
     (plain_message RAssistant c)\<lparr>msg_extra := [summary_marker_key \<mapsto> GBool True]\<rparr>"

definition new_ephemeral_message :: "role \<Rightarrow> string \<Rightarrow> message" where
  "new_ephemeral_message r c =
     (plain_message r c)\<lparr>msg_extra := [ephemeral_marker_key \<mapsto> GBool True]\<rparr>"

lemma marker_keys_distinct [simp]:
  "summary_marker_key \<noteq> incomplete_marker_key" "incomplete_marker_key \<noteq> summary_marker_key"
  "summary_marker_key \<noteq> ephemeral_marker_key" "ephemeral_marker_key \<noteq> summary_marker_key"
  "incomplete_marker_key \<noteq> ephemeral_marker_key" "ephemeral_marker_key \<noteq> incomplete_marker_key"
  by (simp_all add: summary_marker_key_def incomplete_marker_key_def ephemeral_marker_key_def)

lemma has_set_bool_marker [simp]:
  "has_bool_marker (set_bool_marker p k) k' = (if k = k' then p \<noteq> None else has_bool_marker p k')"
  by (cases p) (auto simp: has_bool_marker_def set_bool_marker_def)

lemma is_summary_new [simp]: "is_summary (Some (new_summary_message c))"
  by (simp add: is_summary_def has_bool_marker_def new_summary_message_def)

lemma is_ephemeral_new [simp]: "is_ephemeral (Some (new_ephemeral_message r c))"
  by (simp add: is_ephemeral_def has_bool_marker_def new_ephemeral_message_def)

lemma is_incomplete_mark [simp]: "is_incomplete (mark_incomplete p) \<longleftrightarrow> p \<noteq> None"
  by (simp add: is_incomplete_def mark_incomplete_def)

lemma is_summary_mark_incomplete [simp]: "is_summary (mark_incomplete p) = is_summary p"
  by (simp add: is_summary_def mark_incomplete_def)

lemma markers_None [simp]: "\<not> is_summary None" "\<not> is_ephemeral None" "\<not> is_incomplete None"
  by (simp_all add: is_summary_def is_ephemeral_def is_incomplete_def has_bool_marker_def)

section \<open>The default token counter\<close>

text \<open>It dereferences every pointer, so it is defined on messages, not on pointers. Go's division of
  non-negative integers is \<open>div\<close>.\<close>

definition msg_chars :: "message \<Rightarrow> nat" where
  "msg_chars m = length (msg_content m) + sum_list (map (\<lambda>tc. length (tc_args tc)) (msg_tool_calls m))"

definition default_token_counter :: "message list \<Rightarrow> int" where
  "default_token_counter ms =
     (let total = sum_list (map msg_chars ms); tokens = total div 4
      in int (if tokens = 0 \<and> 0 < total then 1 else tokens))"

lemma sum_list_subseq: "subseq ms ns \<Longrightarrow> sum_list (map f ms) \<le> (sum_list (map f ns) :: nat)"
  by (induction rule: list_emb.induct) auto

lemma default_token_counter_mono:
  assumes "subseq ms ns"
  shows "default_token_counter ms \<le> default_token_counter ns"
proof -
  have "(if a div 4 = 0 \<and> 0 < a then 1 else a div 4) \<le> (if b div 4 = 0 \<and> 0 < b then 1 else b div 4)"
    if "a \<le> b" for a b :: nat
    using that div_le_mono [OF that, of 4] by auto
  from this [OF sum_list_subseq [OF assms, of msg_chars]] show ?thesis
    unfolding default_token_counter_def Let_def by linarith
qed

lemma default_token_counter_nonneg: "0 \<le> default_token_counter ms"
  by (simp add: default_token_counter_def Let_def)

end
