(* ===== verification/Window.thy ===== *)
theory Window
  imports Messages
begin

text \<open>
  \<open>SelectWindow\<close> of \<^verbatim>\<open>components/memory/conversation.go\<close>: the part of a conversation that is
  sent to the model, starting at the last summary and cut to a token budget by binary search.
  The locale \<open>token_counter\<close> is what the search relies on; the counter of \<^verbatim>\<open>libs/counter\<close>
  satisfies it.
\<close>

section \<open>Operations\<close>

definition last_summary_index :: "message list \<Rightarrow> nat option" where
  "last_summary_index ms = last_index_of (\<lambda>m. is_summary (Some m)) ms"

text \<open>The search loop \<open>for lo < hi\<close>; \<open>fits mid\<close> is the test in its body.\<close>

function bsearch :: "(nat \<Rightarrow> bool) \<Rightarrow> nat \<Rightarrow> nat \<Rightarrow> nat" where
  "bsearch fits lo hi =
     (if lo < hi then
        let mid = (lo + hi) div 2 in
        if fits mid then bsearch fits lo mid else bsearch fits (mid + 1) hi
      else lo)"
  by pat_completeness auto
termination by (relation "measure (\<lambda>(f, lo, hi). hi - lo)") auto

declare bsearch.simps [simp del]

definition summary_window ::
    "(message list \<Rightarrow> int) \<Rightarrow> int \<Rightarrow> message list \<Rightarrow> message list" where
  "summary_window count budget window =
     (let n = length window; s = window ! 0 in
      if n = 2 then window
      else if count [s, window ! (n - 1)] > budget then [s, window ! (n - 1)]
      else s # drop (bsearch (\<lambda>mid. count (s # drop mid window) \<le> budget) 1 (n - 1)) window)"

definition plain_window ::
    "(message list \<Rightarrow> int) \<Rightarrow> int \<Rightarrow> message list \<Rightarrow> message list" where
  "plain_window count budget window =
     (let n = length window in
      if count (drop (n - 1) window) > budget then drop (n - 1) window
      else drop (bsearch (\<lambda>mid. count (drop mid window) \<le> budget) 0 (n - 1)) window)"

definition select_window ::
    "message list \<Rightarrow> (message list \<Rightarrow> int) \<Rightarrow> int \<Rightarrow> int \<Rightarrow> message list" where
  "select_window ms count budget0 max_window_tokens =
     (let budget = (if budget0 \<le> 0 then max_window_tokens else budget0);
          start_idx = (case last_summary_index ms of Some i \<Rightarrow> i | None \<Rightarrow> 0);
          window = drop start_idx ms
      in if budget \<le> 0 \<or> window = [] then window
         else if count window \<le> budget then window
         else if length window = 1 then window
         else if \<not> is_summary (Some (window ! 0)) then plain_window count budget window
         else summary_window count budget window)"

section \<open>The binary search\<close>

lemma bsearch_bounds: "lo \<le> hi \<Longrightarrow> lo \<le> bsearch fits lo hi \<and> bsearch fits lo hi \<le> hi"
proof (induction fits lo hi rule: bsearch.induct)
  case (1 fits lo hi)
  show ?case
  proof (cases "lo < hi")
    case True
    let ?m = "(lo + hi) div 2"
    have m: "lo \<le> ?m" "?m < hi" using True by auto
    show ?thesis
      using "1.IH"(1) [OF True refl] "1.IH"(2) [OF True refl] m True
      by (cases "fits ?m") (auto simp: bsearch.simps [of fits lo hi] Let_def)
  next
    case False
    with "1.prems" have "lo = hi" by simp
    then show ?thesis using "1.prems" by (simp add: bsearch.simps [of fits hi hi])
  qed
qed

text \<open>On a test that stays true once it is true, the loop finds the least true index.\<close>

lemma bsearch_least:
  assumes "lo \<le> hi" "fits hi"
    and mono: "\<And>i j. lo \<le> i \<Longrightarrow> i \<le> j \<Longrightarrow> j \<le> hi \<Longrightarrow> fits i \<Longrightarrow> fits j"
  shows "fits (bsearch fits lo hi) \<and> (\<forall>i. lo \<le> i \<and> i < bsearch fits lo hi \<longrightarrow> \<not> fits i)"
  using assms
proof (induction fits lo hi rule: bsearch.induct)
  case (1 fits lo hi)
  show ?case
  proof (cases "lo < hi")
    case True
    let ?m = "(lo + hi) div 2"
    have m: "lo \<le> ?m" "?m < hi" using True by auto
    show ?thesis
    proof (cases "fits ?m")
      case fm: True
      have mono': "fits j" if "lo \<le> i" "i \<le> j" "j \<le> ?m" "fits i" for i j
        using "1.prems"(3) [of i j] that m by simp
      have "fits (bsearch fits lo ?m) \<and> (\<forall>i. lo \<le> i \<and> i < bsearch fits lo ?m \<longrightarrow> \<not> fits i)"
        using "1.IH"(1) [OF True refl fm m(1) fm] mono' by blast
      then show ?thesis
        using True fm by (simp add: bsearch.simps [of fits lo hi] Let_def)
    next
      case nfm: False
      have below: "\<not> fits i" if "lo \<le> i" "i \<le> ?m" for i
        using "1.prems"(3) [of i ?m] that nfm m by auto
      have mono': "fits j" if "?m + 1 \<le> i" "i \<le> j" "j \<le> hi" "fits i" for i j
        using "1.prems"(3) [of i j] that m by simp
      have "?m + 1 \<le> hi" using m by simp
      then have r: "fits (bsearch fits (?m + 1) hi)
          \<and> (\<forall>i. ?m + 1 \<le> i \<and> i < bsearch fits (?m + 1) hi \<longrightarrow> \<not> fits i)"
        using "1.IH"(2) [OF True refl nfm _ "1.prems"(2)] mono' by blast
      have "bsearch fits lo hi = bsearch fits (?m + 1) hi"
        using True nfm by (simp add: bsearch.simps [of fits lo hi] Let_def)
      with r below show ?thesis by (metis Suc_eq_plus1 not_less_eq_eq)
    qed
  next
    case False
    with "1.prems" have "lo = hi" by simp
    then show ?thesis using "1.prems" by (auto simp: bsearch.simps [of fits hi hi])
  qed
qed

section \<open>Structure of the window, for any counter\<close>

lemma drop_last_ne: "ws \<noteq> [] \<Longrightarrow> drop (length ws - 1) ws = [last ws]"
  by (cases ws rule: rev_cases) auto

lemma last_drop_lt: "i < length ws \<Longrightarrow> last (drop i ws) = last ws"
  by simp

lemma plain_window_suffix:
  assumes "ws \<noteq> []"
  shows "\<exists>i < length ws. plain_window count b ws = drop i ws"
proof -
  let ?i = "bsearch (\<lambda>mid. count (drop mid ws) \<le> b) 0 (length ws - 1)"
  have "?i < length ws" using bsearch_bounds [of 0 "length ws - 1"] assms
    by (metis diff_less length_greater_0_conv le0 less_numeral_extra(1) order_le_less_trans)
  moreover have "plain_window count b ws = drop (length ws - 1) ws \<or> plain_window count b ws = drop ?i ws"
    by (simp add: plain_window_def Let_def)
  moreover have "length ws - 1 < length ws" using assms by simp
  ultimately show ?thesis by blast
qed

lemma summary_window_shape:
  assumes "2 \<le> length ws"
  shows "\<exists>i. 1 \<le> i \<and> i < length ws \<and> summary_window count b ws = ws ! 0 # drop i ws"
proof -
  let ?n = "length ws"
  have ne: "ws \<noteq> []" using assms by auto
  have d: "drop (?n - 1) ws = [ws ! (?n - 1)]"
    using drop_last_ne [OF ne] ne by (simp add: last_conv_nth)
  have two: "?n = 2 \<Longrightarrow> ws = ws ! 0 # drop 1 ws"
    using ne by (metis Cons_nth_drop_Suc One_nat_def drop0 length_greater_0_conv)
  have bs: "1 \<le> bsearch f 1 (?n - 1) \<and> bsearch f 1 (?n - 1) < ?n" for f
    using bsearch_bounds [of 1 "?n - 1" f] assms by linarith
  show ?thesis
  proof (cases "?n = 2")
    case True
    with two show ?thesis by (intro exI [of _ 1]) (simp add: summary_window_def)
  next
    case False
    show ?thesis
    proof (cases "count [ws ! 0, ws ! (?n - 1)] > b")
      case True
      then have "summary_window count b ws = ws ! 0 # drop (?n - 1) ws"
        using False d by (simp add: summary_window_def Let_def)
      moreover have "1 \<le> ?n - 1" "?n - 1 < ?n" using assms by linarith+
      ultimately show ?thesis by blast
    next
      case fit: False
      show ?thesis
        using False fit bs
        by (intro exI [of _ "bsearch (\<lambda>mid. count (ws ! 0 # drop mid ws) \<le> b) 1 (?n - 1)"])
          (simp add: summary_window_def Let_def)
    qed
  qed
qed

lemma last_summary_index_lt: "last_summary_index ms = Some i \<Longrightarrow> i < length ms"
  unfolding last_summary_index_def using last_index_of_Some by metis

text \<open>for every counter and budget the window keeps the order of the conversation and its last
  message, and starts with the last summary when there is one.\<close>

theorem select_window_keeps_ends:
  assumes "ms \<noteq> []"
  shows "subseq (select_window ms count budget mx) ms
     \<and> select_window ms count budget mx \<noteq> []
     \<and> last (select_window ms count budget mx) = last ms
     \<and> (case last_summary_index ms of
          None \<Rightarrow> True
        | Some i \<Rightarrow> hd (select_window ms count budget mx) = ms ! i)"
proof -
  define k where "k = (case last_summary_index ms of Some i \<Rightarrow> i | None \<Rightarrow> 0)"
  define ws where "ws = drop k ms"
  define b where "b = (if budget \<le> 0 then mx else budget)"
  have k: "k < length ms"
    using assms last_summary_index_lt by (auto simp: k_def split: option.splits)
  have ws: "ws \<noteq> []" "last ws = last ms" "ws ! 0 = ms ! k" "subseq ws ms"
    using k suffix_imp_subseq [OF suffix_drop] by (simp_all add: ws_def)
  have eq: "select_window ms count budget mx =
     (if b \<le> 0 \<or> ws = [] then ws else if count ws \<le> b then ws else if length ws = 1 then ws
      else if \<not> is_summary (Some (ws ! 0)) then plain_window count b ws
      else summary_window count b ws)"
    by (simp add: select_window_def k_def ws_def b_def Let_def)
  define r where "r = select_window ms count budget mx"
  have "\<exists>i. i < length ws \<and> (r = drop i ws \<and> (i = 0 \<or> \<not> is_summary (Some (ws ! 0)))
          \<or> r = ws ! 0 # drop i ws \<and> 0 < i)"
  proof -
    have z: "0 < length ws" "ws = drop 0 ws" using ws by simp_all
    have two: "2 \<le> length ws" if "length ws \<noteq> 1" using z that by linarith
    consider "r = ws" | "\<not> is_summary (Some (ws ! 0))" "r = plain_window count b ws"
      | "r = summary_window count b ws" "length ws \<noteq> 1"
      using eq [folded r_def] by (metis (full_types))
    then show ?thesis
      using plain_window_suffix [OF ws(1), of count b] summary_window_shape [of ws count b] two z
      by cases (auto simp: Suc_le_eq)
  qed
  then obtain i where i: "i < length ws" and
    r: "r = drop i ws \<and> (i = 0 \<or> \<not> is_summary (Some (ws ! 0))) \<or> r = ws ! 0 # drop i ws \<and> 0 < i"
    by blast
  have sub: "subseq (ws ! 0 # drop i ws) ws" if "0 < i"
  proof -
    have "ws = ws ! 0 # drop 1 ws" using ws(1) by (metis Cons_nth_drop_Suc One_nat_def drop0 length_greater_0_conv)
    moreover have "subseq (drop i ws) (drop 1 ws)"
      using that by (metis Suc_leI One_nat_def drop_drop le_add_diff_inverse2 suffix_drop suffix_imp_subseq)
    ultimately show ?thesis by (metis subseq_Cons2)
  qed
  have "subseq r ms" using r sub ws(4) by (auto intro: subseq_order.order_trans suffix_imp_subseq suffix_drop)
  moreover have "r \<noteq> [] \<and> last r = last ms" using r i ws by auto
  moreover have "case last_summary_index ms of None \<Rightarrow> True | Some j \<Rightarrow> hd r = ms ! j"
  proof (cases "last_summary_index ms")
    case (Some j)
    then have "k = j" "is_summary (Some (ws ! 0))"
      using last_index_of_Some [of _ ms j] ws(3) by (auto simp: k_def last_summary_index_def)
    with r ws i Some show ?thesis by (auto simp: hd_conv_nth)
  qed simp
  ultimately show ?thesis unfolding r_def by blast
qed

theorem select_window_keeps_ends_witness:
  "last (select_window [plain_message RUser ''hello'', plain_message RAssistant ''bye''] default_token_counter 1 0)
     = plain_message RAssistant ''bye''"
  using select_window_keeps_ends
    [of "[plain_message RUser ''hello'', plain_message RAssistant ''bye'']" default_token_counter 1 0]
  by simp

section \<open>The budget\<close>

text \<open>The least a window can be: the last message, after the last summary.\<close>

definition least_window :: "message list \<Rightarrow> message list" where
  "least_window ms =
     (case last_summary_index ms of
        Some i \<Rightarrow> if i = length ms - 1 then [last ms] else [ms ! i, last ms]
      | None \<Rightarrow> [last ms])"

lemma last_subseq: "ms \<noteq> [] \<Longrightarrow> subseq [last ms] ms"
  by (metis append_butlast_last_id list_emb_append2 subseq_order.order_refl)

lemma two_elements: "length ws = 2 \<Longrightarrow> ws = [ws ! 0, last ws]"
  by (cases ws; cases "tl ws") auto

text \<open>What the search asks of a counter: a longer list never counts less.\<close>

locale token_counter =
  fixes count :: "message list \<Rightarrow> int"
  assumes count_mono: "subseq ms ns \<Longrightarrow> count ms \<le> count ns"
begin

lemma drop_mono: "i \<le> j \<Longrightarrow> count (drop j ws) \<le> count (drop i ws)"
  by (rule count_mono, rule suffix_imp_subseq)
    (metis drop_drop le_add_diff_inverse2 suffix_drop)

lemma cons_drop_mono: "i \<le> j \<Longrightarrow> count (s # drop j ws) \<le> count (s # drop i ws)"
  by (rule count_mono, rule subseq_Cons2, rule suffix_imp_subseq)
    (metis drop_drop le_add_diff_inverse2 suffix_drop)

lemma plain_window_best:
  assumes ws: "ws \<noteq> []" and fit: "count [last ws] \<le> b"
  shows "\<exists>i < length ws. plain_window count b ws = drop i ws \<and> count (drop i ws) \<le> b
           \<and> (\<forall>j < i. b < count (drop j ws))"
proof -
  let ?n = "length ws - 1" and ?fits = "\<lambda>mid. count (drop mid ws) \<le> b"
  let ?i = "bsearch ?fits 0 ?n"
  have last: "drop ?n ws = [last ws]" using ws by (rule drop_last_ne)
  have "?fits ?i \<and> (\<forall>j. 0 \<le> j \<and> j < ?i \<longrightarrow> \<not> ?fits j)"
  proof (rule bsearch_least)
    show "?fits ?n" using fit last by simp
    show "?fits j" if "i \<le> j" "?fits i" for i j
      using drop_mono [of i j ws] that by simp
  qed simp
  moreover have "?i \<le> ?n" using bsearch_bounds [of 0 ?n ?fits] by simp
  then have "?i < length ws" using ws by (metis diff_less length_greater_0_conv order_le_less_trans zero_less_one)
  moreover have "plain_window count b ws = drop ?i ws"
    using fit last by (simp add: plain_window_def Let_def)
  ultimately show ?thesis by (intro exI [of _ ?i]) auto
qed

lemma summary_window_best:
  assumes len: "3 \<le> length ws" and fit: "count [ws ! 0, last ws] \<le> b"
  shows "\<exists>i. 1 \<le> i \<and> i < length ws \<and> summary_window count b ws = ws ! 0 # drop i ws
           \<and> count (ws ! 0 # drop i ws) \<le> b
           \<and> (\<forall>j. 1 \<le> j \<and> j < i \<longrightarrow> b < count (ws ! 0 # drop j ws))"
proof -
  let ?n = "length ws - 1" and ?fits = "\<lambda>mid. count (ws ! 0 # drop mid ws) \<le> b"
  let ?i = "bsearch ?fits 1 ?n"
  have ws: "ws \<noteq> []" using len by auto
  have last: "drop ?n ws = [last ws]" using ws by (rule drop_last_ne)
  have n: "1 \<le> ?n" "?n < length ws" using len by auto
  have "?fits ?i \<and> (\<forall>j. 1 \<le> j \<and> j < ?i \<longrightarrow> \<not> ?fits j)"
  proof (rule bsearch_least)
    show "?fits ?n" using fit last by simp
    show "?fits j" if "i \<le> j" "?fits i" for i j
      using cons_drop_mono [of i j "ws ! 0" ws] that by simp
  qed (rule n(1))
  moreover have "1 \<le> ?i \<and> ?i < length ws" using bsearch_bounds [of 1 ?n ?fits] n by linarith
  moreover have "summary_window count b ws = ws ! 0 # drop ?i ws"
    using fit len ws by (simp add: summary_window_def Let_def last_conv_nth)
  ultimately show ?thesis by (intro exI [of _ ?i]) auto
qed

lemma select_window_exact:
  assumes ne: "ms \<noteq> []" and b: "b = (if budget \<le> 0 then mx else budget)" "0 < b"
  shows "if b < count (least_window ms) then select_window ms count budget mx = least_window ms
    else count (select_window ms count budget mx) \<le> b
      \<and> (case last_summary_index ms of
           None \<Rightarrow> \<exists>i < length ms. select_window ms count budget mx = drop i ms \<and> (\<forall>j < i. b < count (drop j ms))
         | Some k \<Rightarrow> \<exists>i. k < i \<and> i \<le> length ms \<and> select_window ms count budget mx = ms ! k # drop i ms
             \<and> (\<forall>j. k < j \<and> j < i \<longrightarrow> b < count (ms ! k # drop j ms)))"
proof (cases "last_summary_index ms")
  case None
  have least: "least_window ms = [last ms]" using None by (simp add: least_window_def)
  have nos: "\<not> is_summary (Some (ms ! 0))" using None ne by (simp add: last_summary_index_def last_index_of_None)
  have eq: "select_window ms count budget mx
      = (if count ms \<le> b then ms else if length ms = 1 then ms else plain_window count b ms)"
    using b ne nos None by (auto simp: select_window_def Let_def)
  show ?thesis
  proof (cases "b < count [last ms]")
    case True
    have "count [last ms] \<le> count ms" using count_mono [OF last_subseq [OF ne]] .
    moreover have "plain_window count b ms = [last ms]" using True drop_last_ne [OF ne] by (simp add: plain_window_def Let_def)
    moreover have "ms = [last ms]" if "length ms = 1" using that by (cases ms) auto
    ultimately show ?thesis using True eq least by auto
  next
    case False
    have "\<exists>i < length ms. ms = drop i ms \<and> (\<forall>j < i. b < count (drop j ms))" using ne by (intro exI [of _ 0]) simp
    moreover have "ms = [last ms]" if "length ms = 1" using that by (cases ms) auto
    ultimately show ?thesis
      using False eq least None plain_window_best [OF ne, of b] by (cases "count ms \<le> b"; cases "length ms = 1") auto
  qed
next
  case (Some k)
  note sk = last_index_of_Some [of "\<lambda>m. is_summary (Some m)" ms k, folded last_summary_index_def, OF Some]
  define ws where "ws = drop k ms"
  have ws: "ws \<noteq> []" "ws ! 0 = ms ! k" "last ws = last ms" "length ws = length ms - k" "drop i ws = drop (k + i) ms" for i
    using sk by (auto simp: ws_def add.commute)
  have cons: "ws = ms ! k # drop (Suc k) ms" using sk by (simp add: ws_def Cons_nth_drop_Suc)
  have eq: "select_window ms count budget mx
      = (if count ws \<le> b then ws else if length ws = 1 then ws else summary_window count b ws)"
    using b sk ws Some by (auto simp: select_window_def ws_def [symmetric] Let_def)
  have whole: "\<exists>i. k < i \<and> i \<le> length ms \<and> ws = ms ! k # drop i ms \<and> (\<forall>j. k < j \<and> j < i \<longrightarrow> b < count (ms ! k # drop j ms))"
    using cons sk by (intro exI [of _ "Suc k"]) auto
  show ?thesis
  proof (cases "k = length ms - 1")
    case True
    then have "length ws = 1" using ws(1,4) sk by (cases ws) auto
    then have one: "ws = [last ms]" using ws(3) by (cases ws) auto
    then have "least_window ms = ws" using Some True by (simp add: least_window_def)
    then show ?thesis using eq one whole Some by auto
  next
    case False
    have least: "least_window ms = [ws ! 0, last ws]" using Some False ws by (simp add: least_window_def)
    have two: "2 \<le> length ws" using False sk ws(4) by linarith
    have sub: "subseq [ws ! 0, last ws] ws"
    proof -
      have "drop (Suc k) ms \<noteq> []" "last (drop (Suc k) ms) = last ws" using False sk ws(3) by auto
      then show ?thesis using last_subseq [of "drop (Suc k) ms"] cons ws(2) by (metis subseq_Cons2)
    qed
    show ?thesis
    proof (cases "b < count [ws ! 0, last ws]")
      case True
      have "\<not> count ws \<le> b" using count_mono [OF sub] True by linarith
      moreover have "summary_window count b ws = [ws ! 0, last ws]"
        using True two ws(1) two_elements [of ws] by (auto simp: summary_window_def Let_def last_conv_nth)
      ultimately show ?thesis using True least eq two by auto
    next
      case fits: False
      show ?thesis
      proof (cases "count ws \<le> b")
        case True
        then show ?thesis using eq least fits whole Some by simp
      next
        case big: False
        have "length ws \<noteq> 2" using two_elements [of ws] big fits by auto
        then have "3 \<le> length ws" using two by linarith
        from summary_window_best [OF this, of b] fits obtain i where i: "1 \<le> i" "i < length ws"
          "summary_window count b ws = ws ! 0 # drop i ws" "count (ws ! 0 # drop i ws) \<le> b"
          "\<forall>j. 1 \<le> j \<and> j < i \<longrightarrow> b < count (ws ! 0 # drop j ws)" by auto
        have "\<exists>i. k < i \<and> i \<le> length ms \<and> summary_window count b ws = ms ! k # drop i ms
            \<and> (\<forall>j. k < j \<and> j < i \<longrightarrow> b < count (ms ! k # drop j ms))"
        proof (intro exI [of _ "k + i"] conjI allI impI)
          show "b < count (ms ! k # drop j ms)" if "k < j \<and> j < k + i" for j
          proof -
            have "1 \<le> j - k \<and> j - k < i" using that by linarith
            then show ?thesis using i(5) that ws(2) ws(5) [of "j - k"] by auto
          qed
        qed (use i ws in auto)
        then show ?thesis using eq least fits big two i(3,4) Some by auto
      qed
    qed
  qed
qed

end

interpretation default_counter: token_counter default_token_counter
  by unfold_locales (rule default_token_counter_mono)

text \<open>C17: The window is the best there is. With a positive budget, and the counter of the repository, let the least window be
  the last message, after the last summary when there is one. If that is over the budget it is the window. Otherwise the
  window fits the budget; without a summary it is the longest suffix of the conversation that does, and with one it is the
  summary and the longest part after it that fits together with it.\<close>

theorem select_window_maximal:
  assumes "ms \<noteq> []" and "b = (if budget \<le> 0 then mx else budget)" and "0 < b"
  shows "if b < default_token_counter (least_window ms) then select_window ms default_token_counter budget mx = least_window ms
    else default_token_counter (select_window ms default_token_counter budget mx) \<le> b
      \<and> (case last_summary_index ms of
           None \<Rightarrow> \<exists>i < length ms. select_window ms default_token_counter budget mx = drop i ms
             \<and> (\<forall>j < i. b < default_token_counter (drop j ms))
         | Some k \<Rightarrow> \<exists>i. k < i \<and> i \<le> length ms \<and> select_window ms default_token_counter budget mx = ms ! k # drop i ms
             \<and> (\<forall>j. k < j \<and> j < i \<longrightarrow> b < default_token_counter (ms ! k # drop j ms)))"
  using assms by (rule default_counter.select_window_exact)

definition demo_messages :: "message list" where
  "demo_messages = [plain_message RUser ''aaaaaaaaaaaa'', plain_message RAssistant ''bbbbbbbb'',
     plain_message RUser ''cccc'']"

theorem select_window_maximal_witness:
  "default_token_counter demo_messages = 6
   \<and> default_token_counter (select_window demo_messages default_token_counter 3 0) \<le> 3
   \<and> (\<exists>i < 3. select_window demo_messages default_token_counter 3 0 = drop i demo_messages)"
proof -
  have ns: "last_summary_index demo_messages = None"
    by (simp add: demo_messages_def last_summary_index_def plain_message_def is_summary_def has_bool_marker_def)
  have 1: "\<not> 3 < default_token_counter (least_window demo_messages)"
    by (simp add: ns least_window_def) (simp add: demo_messages_def plain_message_def default_token_counter_def msg_chars_def)
  have 2: "default_token_counter demo_messages = 6" "length demo_messages = 3" "demo_messages \<noteq> []"
    by (simp_all add: demo_messages_def plain_message_def default_token_counter_def msg_chars_def)
  show ?thesis using select_window_maximal [of demo_messages 3 3 0] 1 2 ns by auto
qed

end
