(* ===== verification/Session_Lock.thy ===== *)
theory Session_Lock
  imports Prelude
begin

text \<open>
  The reference-counted lock of \<^verbatim>\<open>components/memory/session/session.go\<close> (\<open>lock\<close>, \<open>unlock\<close>,
  \<open>activeLocks\<close>), as a step relation over any number of threads.

  Lock objects live in a list (a heap that only grows); the map leads from a key to an object. A
  step is what runs atomically: a block under the manager's mutex, the acquisition of a lock
  object's own mutex, or its release. Between two steps of one thread any other thread may run.
\<close>

section \<open>State\<close>

record ref_lock =
  rl_owner :: "nat option"
  rl_refs :: int

text \<open>Where a thread is: outside; in \<open>lock\<close> with its reference taken; holding the session; in \<open>unlock\<close>
  after the look-up; in \<open>unlock\<close> after releasing the object.\<close>

datatype 'k pc = Outside | Waiting 'k nat | Holding 'k nat | Unlocking 'k nat | Dropping 'k nat

record 'k lock_state =
  ls_map :: "'k \<Rightarrow> nat option"
  ls_heap :: "ref_lock list"
  ls_pc :: "'k pc list"

definition initial_locks :: "nat \<Rightarrow> 'k lock_state" where
  "initial_locks n = \<lparr>ls_map = Map.empty, ls_heap = [], ls_pc = replicate n Outside\<rparr>"

section \<open>Steps\<close>

definition add_ref :: "nat \<Rightarrow> int \<Rightarrow> ref_lock list \<Rightarrow> ref_lock list" where
  "add_ref i d h = h[i := (h ! i)\<lparr>rl_refs := rl_refs (h ! i) + d\<rparr>]"

definition set_owner :: "nat \<Rightarrow> nat option \<Rightarrow> ref_lock list \<Rightarrow> ref_lock list" where
  "set_owner i p h = h[i := (h ! i)\<lparr>rl_owner := p\<rparr>]"

text \<open>First half of \<open>lock\<close>, under the manager's mutex: find or create the object, count a reference.\<close>

definition take_ref :: "nat \<Rightarrow> 'k \<Rightarrow> 'k lock_state \<Rightarrow> 'k lock_state" where
  "take_ref t k s =
     (let (m, h, i) = (case ls_map s k of
            Some i \<Rightarrow> (ls_map s, ls_heap s, i)
          | None \<Rightarrow> ((ls_map s)(k \<mapsto> length (ls_heap s)),
                     ls_heap s @ [\<lparr>rl_owner = None, rl_refs = 0\<rparr>], length (ls_heap s)))
      in \<lparr>ls_map = m, ls_heap = add_ref i 1 h, ls_pc = (ls_pc s)[t := Waiting k i]\<rparr>)"

text \<open>Last block of \<open>unlock\<close>: give the reference back, and drop the entry with the last one.\<close>

definition drop_ref :: "nat \<Rightarrow> 'k \<Rightarrow> nat \<Rightarrow> 'k lock_state \<Rightarrow> 'k lock_state" where
  "drop_ref t k i s =
     (let h = add_ref i (-1) (ls_heap s) in
      \<lparr>ls_map = (if rl_refs (h ! i) \<le> 0 then (ls_map s)(k := None) else ls_map s),
       ls_heap = h, ls_pc = (ls_pc s)[t := Outside]\<rparr>)"

inductive lock_step :: "'k lock_state \<Rightarrow> 'k lock_state \<Rightarrow> bool" where
  enter: "t < length (ls_pc s) \<Longrightarrow> ls_pc s ! t = Outside \<Longrightarrow> lock_step s (take_ref t k s)"
| acquire: "t < length (ls_pc s) \<Longrightarrow> ls_pc s ! t = Waiting k i \<Longrightarrow> rl_owner (ls_heap s ! i) = None \<Longrightarrow>
    lock_step s (s\<lparr>ls_heap := set_owner i (Some t) (ls_heap s), ls_pc := (ls_pc s)[t := Holding k i]\<rparr>)"
| lookup: "t < length (ls_pc s) \<Longrightarrow> ls_pc s ! t = Holding k i \<Longrightarrow> ls_map s k = Some j \<Longrightarrow>
    lock_step s (s\<lparr>ls_pc := (ls_pc s)[t := Unlocking k j]\<rparr>)"
| lookup_none: "t < length (ls_pc s) \<Longrightarrow> ls_pc s ! t = Holding k i \<Longrightarrow> ls_map s k = None \<Longrightarrow>
    lock_step s (s\<lparr>ls_pc := (ls_pc s)[t := Outside]\<rparr>)"
| give_back: "t < length (ls_pc s) \<Longrightarrow> ls_pc s ! t = Unlocking k i \<Longrightarrow> rl_owner (ls_heap s ! i) \<noteq> None \<Longrightarrow>
    lock_step s (s\<lparr>ls_heap := set_owner i None (ls_heap s), ls_pc := (ls_pc s)[t := Dropping k i]\<rparr>)"
| leave: "t < length (ls_pc s) \<Longrightarrow> ls_pc s ! t = Dropping k i \<Longrightarrow> lock_step s (drop_ref t k i s)"

inductive lock_reachable :: "nat \<Rightarrow> 'k lock_state \<Rightarrow> bool" for n where
  start: "lock_reachable n (initial_locks n)"
| step: "lock_reachable n s \<Longrightarrow> lock_step s s' \<Longrightarrow> lock_reachable n s'"

section \<open>Invariant\<close>

definition uses :: "'k \<Rightarrow> nat \<Rightarrow> 'k pc \<Rightarrow> bool" where
  "uses k i p \<longleftrightarrow> p = Waiting k i \<or> p = Holding k i \<or> p = Unlocking k i \<or> p = Dropping k i"

definition owns :: "nat \<Rightarrow> 'k pc \<Rightarrow> bool" where
  "owns i p \<longleftrightarrow> (\<exists>k. p = Holding k i \<or> p = Unlocking k i)"

definition users_of :: "nat \<Rightarrow> 'k pc list \<Rightarrow> nat" where
  "users_of i ps = length (filter (\<lambda>p. \<exists>k. uses k i p) ps)"

definition lock_inv :: "'k lock_state \<Rightarrow> bool" where
  "lock_inv s \<longleftrightarrow>
     (\<forall>k i. ls_map s k = Some i \<longrightarrow> i < length (ls_heap s))
     \<and> (\<forall>k k' i. ls_map s k = Some i \<longrightarrow> ls_map s k' = Some i \<longrightarrow> k = k')
     \<and> (\<forall>t < length (ls_pc s). \<forall>k i. uses k i (ls_pc s ! t) \<longrightarrow> ls_map s k = Some i)
     \<and> (\<forall>k i. ls_map s k = Some i \<longrightarrow>
          rl_refs (ls_heap s ! i) = int (users_of i (ls_pc s)) \<and> 0 < users_of i (ls_pc s))
     \<and> (\<forall>k i t. ls_map s k = Some i \<longrightarrow>
          (rl_owner (ls_heap s ! i) = Some t \<longleftrightarrow> t < length (ls_pc s) \<and> owns i (ls_pc s ! t)))"

lemma uses_simps [simp]:
  "uses k i (Waiting k' i') \<longleftrightarrow> k = k' \<and> i = i'" "uses k i (Holding k' i') \<longleftrightarrow> k = k' \<and> i = i'"
  "uses k i (Unlocking k' i') \<longleftrightarrow> k = k' \<and> i = i'" "uses k i (Dropping k' i') \<longleftrightarrow> k = k' \<and> i = i'"
  "\<not> uses k i Outside"
  by (auto simp: uses_def)

lemma owns_simps [simp]:
  "owns i (Holding k i') \<longleftrightarrow> i = i'" "owns i (Unlocking k i') \<longleftrightarrow> i = i'"
  "\<not> owns i (Waiting k i')" "\<not> owns i (Dropping k i')" "\<not> owns i Outside"
  by (auto simp: owns_def)

lemma length_filter_update:
  "t < length xs \<Longrightarrow> length (filter P (xs[t := x])) + (if P (xs ! t) then 1 else 0)
     = length (filter P xs) + (if P x then 1 else 0)"
proof (induction xs arbitrary: t)
  case (Cons y ys)
  show ?case
  proof (cases t)
    case (Suc t')
    with Cons.IH [of t'] Cons.prems show ?thesis by (auto split: if_splits)
  qed auto
qed simp

lemma users_of_update:
  "t < length ps \<Longrightarrow> users_of i (ps[t := p]) + (if \<exists>k. uses k i (ps ! t) then 1 else 0)
     = users_of i ps + (if \<exists>k. uses k i p then 1 else 0)"
  unfolding users_of_def by (rule length_filter_update)

lemma users_of_pos: "0 < users_of i ps \<longleftrightarrow> (\<exists>t < length ps. \<exists>k. uses k i (ps ! t))"
  by (auto simp: users_of_def filter_empty_conv) (auto simp: in_set_conv_nth)

lemma lock_invD:
  assumes "lock_inv s"
  shows "ls_map s k = Some i \<Longrightarrow> i < length (ls_heap s)"
    and "ls_map s k = Some i \<Longrightarrow> ls_map s k' = Some i \<Longrightarrow> k = k'"
    and "t < length (ls_pc s) \<Longrightarrow> uses k i (ls_pc s ! t) \<Longrightarrow> ls_map s k = Some i"
    and "ls_map s k = Some i \<Longrightarrow> rl_refs (ls_heap s ! i) = int (users_of i (ls_pc s))"
    and "ls_map s k = Some i \<Longrightarrow> 0 < users_of i (ls_pc s)"
    and "ls_map s k = Some i \<Longrightarrow>
      rl_owner (ls_heap s ! i) = Some t \<longleftrightarrow> t < length (ls_pc s) \<and> owns i (ls_pc s ! t)"
  using assms unfolding lock_inv_def by blast+

lemma lock_invI:
  assumes "\<And>k i. ls_map s k = Some i \<Longrightarrow> i < length (ls_heap s)"
    and "\<And>k k' i. ls_map s k = Some i \<Longrightarrow> ls_map s k' = Some i \<Longrightarrow> k = k'"
    and "\<And>t k i. t < length (ls_pc s) \<Longrightarrow> uses k i (ls_pc s ! t) \<Longrightarrow> ls_map s k = Some i"
    and "\<And>k i. ls_map s k = Some i \<Longrightarrow>
      rl_refs (ls_heap s ! i) = int (users_of i (ls_pc s)) \<and> 0 < users_of i (ls_pc s)"
    and "\<And>k i t. ls_map s k = Some i \<Longrightarrow>
      rl_owner (ls_heap s ! i) = Some t \<longleftrightarrow> t < length (ls_pc s) \<and> owns i (ls_pc s ! t)"
  shows "lock_inv s"
  unfolding lock_inv_def using assms by (intro conjI allI impI) blast+

lemma owns_uses: "owns i p \<Longrightarrow> \<exists>k. uses k i p"
  by (auto simp: owns_def)

text \<open>A thread that moves on within one session, changing at most the owner of its object.\<close>

lemma lock_inv_move:
  assumes inv: "lock_inv s" and t: "t < length (ls_pc s)"
    and u: "uses k i (ls_pc s ! t)" "uses k i p"
    and h: "h = (if owns i p = owns i (ls_pc s ! t) then ls_heap s
                 else set_owner i (if owns i p then Some t else None) (ls_heap s))"
    and free: "owns i p \<Longrightarrow> \<not> owns i (ls_pc s ! t) \<Longrightarrow> rl_owner (ls_heap s ! i) = None"
  shows "lock_inv (s\<lparr>ls_heap := h, ls_pc := (ls_pc s)[t := p]\<rparr>)"
proof -
  note inv = lock_invD [OF inv]
  have mk: "ls_map s k = Some i" using inv(3) [OF t u(1)] .
  have il: "i < length (ls_heap s)" using inv(1) [OF mk] .
  have lh: "length h = length (ls_heap s)" by (simp add: h set_owner_def)
  have refs: "rl_refs (h ! j) = rl_refs (ls_heap s ! j)" for j
    using il by (simp add: h set_owner_def nth_list_update)
  have owner: "rl_owner (h ! j) =
      (if j \<noteq> i \<or> owns i p = owns i (ls_pc s ! t) then rl_owner (ls_heap s ! j)
       else if owns i p then Some t else None)" for j
    using il by (auto simp: h set_owner_def nth_list_update)
  have ex: "(\<exists>k. uses k j p) = (\<exists>k. uses k j (ls_pc s ! t))" for j
    using u by (auto simp: uses_def)
  have cnt: "users_of j ((ls_pc s)[t := p]) = users_of j (ls_pc s)" for j
    using users_of_update [OF t, of j p] ex [of j] by (simp split: if_splits)
  have pu: "k' = k \<and> j = i" if "uses k' j p" for k' j using that u(2) by (auto simp: uses_def)
  have oj: "owns j p \<longleftrightarrow> owns j (ls_pc s ! t)" if "j \<noteq> i" for j
    using that u by (auto simp: uses_def)
  have own: "rl_owner (h ! j) = Some t' \<longleftrightarrow> t' < length (ls_pc s) \<and> owns j ((ls_pc s)[t := p] ! t')"
    if m: "ls_map s k' = Some j" for k' j t'
  proof (cases "j = i")
    case False
    then show ?thesis using inv(6) [OF m, of t'] oj t by (auto simp: owner nth_list_update)
  next
    case True
    show ?thesis
      using inv(6) [OF mk, of t'] inv(6) [OF mk, of t] free t True
      by (auto simp: owner nth_list_update split: if_splits)
  qed
  have us: "ls_map s k' = Some j" if "t' < length (ls_pc s)" "uses k' j ((ls_pc s)[t := p] ! t')" for t' k' j
    using that inv(3) pu mk by (cases "t' = t") auto
  show ?thesis
    unfolding lock_inv_def using inv(1,2,4,5) own us by (simp add: lh refs cnt)
qed

lemma lock_inv_enter:
  assumes inv: "lock_inv s" and t: "t < length (ls_pc s)" "ls_pc s ! t = Outside"
  shows "lock_inv (take_ref t k s)"
proof -
  note inv = lock_invD [OF inv]
  have cnt: "users_of j ((ls_pc s)[t := Waiting k i]) = users_of j (ls_pc s) + (if j = i then 1 else 0)" for i j
    using users_of_update [OF t(1), of j "Waiting k i"] t(2) by simp
  show ?thesis
  proof (cases "ls_map s k")
    case (Some i)
    have il: "i < length (ls_heap s)" using inv(1) [OF Some] .
    have e: "take_ref t k s = s\<lparr>ls_heap := add_ref i 1 (ls_heap s), ls_pc := (ls_pc s)[t := Waiting k i]\<rparr>"
      by (simp add: take_ref_def Some)
    have h: "rl_owner (add_ref i 1 (ls_heap s) ! j) = rl_owner (ls_heap s ! j)"
      "rl_refs (add_ref i 1 (ls_heap s) ! j) = rl_refs (ls_heap s ! j) + (if j = i then 1 else 0)" for j
      using il by (simp_all add: add_ref_def nth_list_update)
    have us: "ls_map s k' = Some j" if "t' < length (ls_pc s)" "uses k' j ((ls_pc s)[t := Waiting k i] ! t')" for t' k' j
      using that inv(3) Some by (cases "t' = t") auto
    have own: "rl_owner (ls_heap s ! j) = Some t' \<longleftrightarrow> t' < length (ls_pc s) \<and> owns j ((ls_pc s)[t := Waiting k i] ! t')"
      if "ls_map s k' = Some j" for k' j t'
      using inv(6) [OF that, of t'] t by (auto simp: nth_list_update)
    show ?thesis
      unfolding e lock_inv_def using inv(1,2,4,5) own us
      by (simp add: h cnt) (simp add: add_ref_def)
  next
    case None
    let ?i = "length (ls_heap s)"
    let ?h = "add_ref ?i 1 (ls_heap s @ [\<lparr>rl_owner = None, rl_refs = 0\<rparr>])"
    have e: "take_ref t k s = \<lparr>ls_map = (ls_map s)(k \<mapsto> ?i), ls_heap = ?h, ls_pc = (ls_pc s)[t := Waiting k ?i]\<rparr>"
      by (simp add: take_ref_def None)
    have h: "length ?h = Suc ?i" "?h ! ?i = \<lparr>rl_owner = None, rl_refs = 1\<rparr>"
      "j < ?i \<Longrightarrow> ?h ! j = ls_heap s ! j" for j
      by (simp_all add: add_ref_def nth_append nth_list_update)
    have nm: "ls_map s x \<noteq> Some ?i" for x using inv(1) [of x ?i] by auto
    have fresh: "users_of ?i (ls_pc s) = 0"
    proof (rule ccontr)
      assume "users_of ?i (ls_pc s) \<noteq> 0"
      then obtain t' k' where "t' < length (ls_pc s)" "uses k' ?i (ls_pc s ! t')" by (auto simp: users_of_pos)
      from inv(1) [OF inv(3) [OF this]] show False by simp
    qed
    have noown: "\<not> owns ?i ((ls_pc s)[t := Waiting k ?i] ! t')" if "t' < length (ls_pc s)" for t'
      using fresh that t(1) owns_uses [of ?i "ls_pc s ! t'"] users_of_pos [of ?i "ls_pc s"]
      by (cases "t' = t") auto
    have us: "((ls_map s)(k \<mapsto> ?i)) k' = Some j" if "t' < length (ls_pc s)" "uses k' j ((ls_pc s)[t := Waiting k ?i] ! t')" for t' k' j
      using that inv(3) None by (cases "t' = t") fastforce+
    have main: "j < Suc ?i \<and> rl_refs (?h ! j) = int (users_of j ((ls_pc s)[t := Waiting k ?i]))
        \<and> 0 < users_of j ((ls_pc s)[t := Waiting k ?i])
        \<and> (\<forall>t'. rl_owner (?h ! j) = Some t' \<longleftrightarrow> t' < length (ls_pc s) \<and> owns j ((ls_pc s)[t := Waiting k ?i] ! t'))"
      if m: "((ls_map s)(k \<mapsto> ?i)) k' = Some j" for k' j
    proof (cases "k' = k")
      case True
      with m have "j = ?i" by simp
      with fresh noown show ?thesis by (auto simp: h cnt)
    next
      case False
      with m have m': "ls_map s k' = Some j" by simp
      from inv(1) [OF m'] have "j < ?i" "j \<noteq> ?i" by simp_all
      moreover have "owns j ((ls_pc s)[t := Waiting k ?i] ! t') = owns j (ls_pc s ! t')" for t'
        using t by (auto simp: nth_list_update)
      ultimately show ?thesis using inv(4,5) [OF m'] inv(6) [OF m'] by (simp add: h cnt)
    qed
    have inj: "k' = k''" if "((ls_map s)(k \<mapsto> ?i)) k' = Some j" "((ls_map s)(k \<mapsto> ?i)) k'' = Some j" for k' k'' j
      using that nm inv(2) [of k' j k''] by (auto split: if_splits)
    show ?thesis
    proof (rule lock_invI)
      fix k' i assume "ls_map (take_ref t k s) k' = Some i"
      then show "i < length (ls_heap (take_ref t k s))"
        "rl_refs (ls_heap (take_ref t k s) ! i) = int (users_of i (ls_pc (take_ref t k s)))
          \<and> 0 < users_of i (ls_pc (take_ref t k s))"
        using main [of k' i] h(1) by (simp_all add: e)
    next
      fix k' i t' assume "ls_map (take_ref t k s) k' = Some i"
      then show "rl_owner (ls_heap (take_ref t k s) ! i) = Some t'
        \<longleftrightarrow> t' < length (ls_pc (take_ref t k s)) \<and> owns i (ls_pc (take_ref t k s) ! t')"
        using main [of k' i] by (simp add: e)
    next
      fix t' k' i
      assume "t' < length (ls_pc (take_ref t k s))" "uses k' i (ls_pc (take_ref t k s) ! t')"
      then show "ls_map (take_ref t k s) k' = Some i" using us [of t' k' i] by (simp add: e)
    next
      fix k' k'' i
      assume "ls_map (take_ref t k s) k' = Some i" "ls_map (take_ref t k s) k'' = Some i"
      then show "k' = k''" using inj [of k' i k''] by (simp add: e)
    qed
  qed
qed

lemma lock_inv_leave:
  assumes inv: "lock_inv s" and t: "t < length (ls_pc s)" "ls_pc s ! t = Dropping k i"
  shows "lock_inv (drop_ref t k i s)"
proof -
  note inv = lock_invD [OF inv]
  have mk: "ls_map s k = Some i" using inv(3) [OF t(1), of k i] t(2) by simp
  have il: "i < length (ls_heap s)" using inv(1) [OF mk] .
  let ?h = "add_ref i (-1) (ls_heap s)" and ?ps = "(ls_pc s)[t := Outside]"
  have h: "length ?h = length (ls_heap s)" "rl_owner (?h ! j) = rl_owner (ls_heap s ! j)"
      "rl_refs (?h ! j) = rl_refs (ls_heap s ! j) - (if j = i then 1 else 0)" for j
    using il by (simp_all add: add_ref_def nth_list_update)
  have cnt: "users_of j ?ps + (if j = i then 1 else 0) = users_of j (ls_pc s)" for j
    using users_of_update [OF t(1), of j Outside] t(2) by simp
  have ri: "rl_refs (?h ! i) = int (users_of i ?ps)"
    using inv(4) [OF mk] cnt [of i] by (simp add: h)
  have us: "ls_map s k' = Some j \<and> (k' = k \<longrightarrow> 0 < users_of i ?ps)"
    if "t' < length (ls_pc s)" "uses k' j (?ps ! t')" for t' k' j
  proof -
    have m: "ls_map s k' = Some j" using that inv(3) by (cases "t' = t") auto
    moreover have "0 < users_of j ?ps" using that by (auto simp: users_of_pos)
    ultimately show ?thesis using mk by auto
  qed
  have own: "rl_owner (ls_heap s ! j) = Some t' \<longleftrightarrow> t' < length (ls_pc s) \<and> owns j (?ps ! t')"
    if "ls_map s k' = Some j" for k' j t'
    using inv(6) [OF that, of t'] t by (auto simp: nth_list_update)
  have rest: "j \<noteq> i" if "ls_map s k' = Some j" "k' \<noteq> k" for k' j using inv(2) that mk by blast
  have rj: "rl_refs (?h ! j) = int (users_of j ?ps)" if "ls_map s k' = Some j" for k' j
    using inv(4) [OF that] cnt [of j] ri by (cases "j = i") (simp_all add: h)
  have pj: "0 < users_of j ?ps" if "ls_map s k' = Some j" "k' \<noteq> k" for k' j
    using inv(5) [OF that(1)] cnt [of j] rest [OF that] by simp
  show ?thesis
  proof (cases "0 < users_of i ?ps")
    case True
    then have "drop_ref t k i s = s\<lparr>ls_heap := ?h, ls_pc := ?ps\<rparr>" by (simp add: drop_ref_def ri Let_def)
    moreover have "0 < users_of j ?ps" if "ls_map s k' = Some j" for k' j
      using pj [OF that] True mk that by (cases "k' = k") auto
    ultimately show ?thesis
      unfolding lock_inv_def using inv(1,2) us own rj by (simp add: h(1,2))
  next
    case False
    then have "drop_ref t k i s = s\<lparr>ls_map := (ls_map s)(k := None), ls_heap := ?h, ls_pc := ?ps\<rparr>"
      by (simp add: drop_ref_def ri Let_def)
    moreover have "k' \<noteq> k \<and> ls_map s k' = Some j" if "t' < length (ls_pc s)" "uses k' j (?ps ! t')" for t' k' j
      using us [OF that] False by auto
    ultimately show ?thesis
      unfolding lock_inv_def using inv(1,2) own rj pj by (simp add: h(1,2))
  qed
qed

lemma lock_inv_step:
  assumes "lock_step s s'" "lock_inv s"
  shows "lock_inv s'"
  using assms
proof (induction rule: lock_step.induct)
  case (enter t s k)
  then show ?case by (intro lock_inv_enter)
next
  case (acquire t s k i)
  then show ?case by (intro lock_inv_move [where k = k and i = i]) simp_all
next
  case (lookup t s k i j)
  then have "ls_map s k = Some i" using lock_invD(3) by fastforce
  with lookup have "lock_inv (s\<lparr>ls_heap := ls_heap s, ls_pc := (ls_pc s)[t := Unlocking k j]\<rparr>)"
    by (intro lock_inv_move [where k = k and i = i]) simp_all
  then show ?case by simp
next
  case (lookup_none t s k i)
  then have "ls_map s k = Some i" using lock_invD(3) by fastforce
  with lookup_none show ?case by simp
next
  case (give_back t s k i)
  then show ?case by (intro lock_inv_move [where k = k and i = i]) simp_all
next
  case (leave t s k i)
  then show ?case by (intro lock_inv_leave)
qed

lemma lock_inv_initial: "lock_inv (initial_locks n)"
  by (simp add: lock_inv_def initial_locks_def)

lemma lock_inv_reachable: "lock_reachable n s \<Longrightarrow> lock_inv s"
  by (induction rule: lock_reachable.induct) (auto intro: lock_inv_step lock_inv_initial)

lemma length_pc_step: "lock_step s s' \<Longrightarrow> length (ls_pc s') = length (ls_pc s)"
  by (induction rule: lock_step.induct) (simp_all add: take_ref_def drop_ref_def Let_def split: option.splits)

section \<open>Properties\<close>

definition holds :: "'k lock_state \<Rightarrow> nat \<Rightarrow> 'k \<Rightarrow> bool" where
  "holds s t k \<longleftrightarrow> t < length (ls_pc s) \<and> (\<exists>i. ls_pc s ! t = Holding k i)"

text \<open>Two threads never hold the same session at once, whatever the interleaving of the blocks
  of \<open>lock\<close> and \<open>unlock\<close> and whatever entries are created and dropped meanwhile.\<close>

theorem session_mutual_exclusion:
  assumes "lock_reachable n s" and "holds s t k" and "holds s t' k"
  shows "t = t'"
proof -
  note inv = lock_invD [OF lock_inv_reachable [OF assms(1)]]
  obtain i where i: "t < length (ls_pc s)" "ls_pc s ! t = Holding k i" using assms(2) by (auto simp: holds_def)
  obtain j where j: "t' < length (ls_pc s)" "ls_pc s ! t' = Holding k j" using assms(3) by (auto simp: holds_def)
  have m: "ls_map s k = Some i" "ls_map s k = Some j"
    using inv(3) [OF i(1), of k i] inv(3) [OF j(1), of k j] i j by simp_all
  with inv(6) [OF m(1), of t] inv(6) [OF m(1), of t'] i j show ?thesis by simp
qed

text \<open>The map of locks does not leak: it holds an entry exactly for the sessions some thread is
  using, so it is empty when no thread is in a turn.\<close>

theorem session_locks_no_leak:
  assumes "lock_reachable n s"
  shows "(ls_map s k \<noteq> None) = (\<exists>t < length (ls_pc s). \<exists>i. uses k i (ls_pc s ! t))"
proof
  note inv = lock_invD [OF lock_inv_reachable [OF assms]]
  assume "ls_map s k \<noteq> None"
  then obtain i where m: "ls_map s k = Some i" by auto
  from inv(5) [OF m] obtain t k' where "t < length (ls_pc s)" "uses k' i (ls_pc s ! t)"
    by (auto simp: users_of_pos)
  moreover from this inv(2) [OF m inv(3)] have "k' = k" by blast
  ultimately show "\<exists>t < length (ls_pc s). \<exists>i. uses k i (ls_pc s ! t)" by blast
next
  assume "\<exists>t < length (ls_pc s). \<exists>i. uses k i (ls_pc s ! t)"
  then show "ls_map s k \<noteq> None" using lock_invD(3) [OF lock_inv_reachable [OF assms]] by fastforce
qed

text \<open>\<open>unlock\<close> always finds the object its \<open>lock\<close> took and that object is locked by the caller, so
  the call neither returns early nor unlocks an unlocked mutex; and as long as some thread is
  inside, some thread inside can take a step.\<close>

theorem unlock_never_fails:
  assumes "lock_reachable n s" and "t < length (ls_pc s)"
  shows "(case ls_pc s ! t of
      Holding k i \<Rightarrow> ls_map s k = Some i \<and> rl_owner (ls_heap s ! i) = Some t
    | Unlocking k i \<Rightarrow> rl_owner (ls_heap s ! i) = Some t
    | Waiting k i \<Rightarrow> (case rl_owner (ls_heap s ! i) of
        None \<Rightarrow> lock_step s (s\<lparr>ls_heap := set_owner i (Some t) (ls_heap s), ls_pc := (ls_pc s)[t := Holding k i]\<rparr>)
      | Some t' \<Rightarrow> \<exists>s'. lock_step s s' \<and> ls_pc s' ! t' \<noteq> ls_pc s ! t')
    | _ \<Rightarrow> True)"
proof -
  note inv = lock_invD [OF lock_inv_reachable [OF assms(1)]]
  have u: "ls_map s k = Some i" if "uses k i (ls_pc s ! t')" "t' < length (ls_pc s)" for k i t'
    using inv(3) that by blast
  show ?thesis
  proof (cases "ls_pc s ! t")
    case (Holding k i)
    with u [of k i t] inv(6) [of k i t] assms(2) show ?thesis by simp
  next
    case (Unlocking k i)
    with u [of k i t] inv(6) [of k i t] assms(2) show ?thesis by simp
  next
    case (Waiting k i)
    then have m: "ls_map s k = Some i" using u [of k i t] assms(2) by simp
    show ?thesis
    proof (cases "rl_owner (ls_heap s ! i)")
      case None
      with Waiting assms(2) show ?thesis by (simp add: lock_step.acquire)
    next
      case (Some t')
      with inv(6) [OF m] have t': "t' < length (ls_pc s)" "owns i (ls_pc s ! t')" by auto
      then consider k' where "ls_pc s ! t' = Holding k' i" | k' where "ls_pc s ! t' = Unlocking k' i"
        by (auto simp: owns_def)
      then have "\<exists>s'. lock_step s s' \<and> ls_pc s' ! t' \<noteq> ls_pc s ! t'"
      proof cases
        case 1
        with u [of k' i t'] t' lock_step.lookup [OF t'(1) 1] show ?thesis by fastforce
      next
        case 2
        with t' Some lock_step.give_back [OF t'(1) 2] show ?thesis by fastforce
      qed
      with Waiting Some show ?thesis by simp
    qed
  qed simp_all
qed

text \<open>Two threads on one session, the first inside, the second waiting.\<close>

definition two_threads :: "string lock_state" where
  "two_threads =
     (let s1 = take_ref 0 ''k'' (initial_locks 2);
          s2 = s1\<lparr>ls_heap := set_owner 0 (Some 0) (ls_heap s1), ls_pc := (ls_pc s1)[0 := Holding ''k'' 0]\<rparr>
      in take_ref 1 ''k'' s2)"

lemma two_threads_simps:
  "ls_pc two_threads = [Holding ''k'' 0, Waiting ''k'' 0]"
  "ls_map two_threads = [''k'' \<mapsto> 0]"
  "ls_heap two_threads = [\<lparr>rl_owner = Some 0, rl_refs = 2\<rparr>]"
  by (simp_all add: two_threads_def take_ref_def initial_locks_def add_ref_def set_owner_def Let_def
      numeral_2_eq_2)

lemma two_threads_reachable: "lock_reachable 2 two_threads"
proof -
  let ?s1 = "take_ref 0 ''k'' (initial_locks 2) :: string lock_state"
  let ?s2 = "?s1\<lparr>ls_heap := set_owner 0 (Some 0) (ls_heap ?s1), ls_pc := (ls_pc ?s1)[0 := Holding ''k'' 0]\<rparr>"
  have p1: "ls_pc ?s1 = [Waiting ''k'' 0, Outside]" "ls_heap ?s1 = [\<lparr>rl_owner = None, rl_refs = 1\<rparr>]"
    by (simp_all add: take_ref_def initial_locks_def add_ref_def numeral_2_eq_2)
  have "lock_reachable 2 ?s1"
    by (rule lock_reachable.step [OF lock_reachable.start lock_step.enter]) (simp_all add: initial_locks_def)
  then have "lock_reachable 2 ?s2"
    by (rule lock_reachable.step) (rule lock_step.acquire, simp_all add: p1)
  then have "lock_reachable 2 (take_ref 1 ''k'' ?s2)"
    by (rule lock_reachable.step) (rule lock_step.enter, simp_all add: p1)
  then show ?thesis by (simp add: two_threads_def Let_def)
qed

theorem session_mutual_exclusion_witness:
  "holds two_threads 0 ''k'' \<and> \<not> holds two_threads 1 ''k''"
proof -
  have h: "holds two_threads 0 ''k''" by (simp add: holds_def two_threads_simps)
  with session_mutual_exclusion [OF two_threads_reachable h, of 1] show ?thesis by auto
qed

theorem session_locks_no_leak_witness:
  "(ls_map two_threads ''k'' \<noteq> None) = (\<exists>t < 2. \<exists>i. uses ''k'' i (ls_pc two_threads ! t))"
  using session_locks_no_leak [OF two_threads_reachable, of "''k''"]
  by (simp add: two_threads_simps numeral_2_eq_2)

theorem unlock_never_fails_witness:
  "\<exists>s'. lock_step two_threads s' \<and> ls_pc s' ! 0 \<noteq> ls_pc two_threads ! 0"
  using unlock_never_fails [OF two_threads_reachable, of 1] by (simp add: two_threads_simps)

end
