(* ===== verification/FileMemory.thy ===== *)
theory FileMemory
  imports Window FileUtil "HOL-Library.AList" "HOL-Library.List_Lexorder" "HOL-Library.Char_ord"
begin

text \<open>
  The file backend of conversations, \<^verbatim>\<open>components/memory/file/file.go\<close>: a map from user and
  conversation id to a shared conversation object, each with its messages in memory and one JSON
  line per message in a \<^verbatim>\<open>.jsonl\<close> file.

  A conversation object is shared between the map and every holder of the handle, so the objects
  live in a heap (a list) and a handle is an index. The disk is an association list from path to
  content with the directories that exist; a path in \<open>io_fails\<close> refuses every access. JSON coding
  (\<^verbatim>\<open>goccy/go-json\<close>) is a parameter of type \<open>codec\<close>.
\<close>

section \<open>State\<close>

record codec =
  cd_enc :: "message \<Rightarrow> string"
  cd_dec :: "string \<Rightarrow> message option"
  cd_enc_acts :: "string list \<Rightarrow> string"
  cd_dec_acts :: "string \<Rightarrow> string list option"

record disk =
  d_files :: "(string \<times> string) list"
  d_dirs :: "string list"
  io_fails :: "string \<Rightarrow> bool"

record conv =
  cv_user :: string
  cv_id :: string
  cv_messages :: "message list"
  cv_activities :: "string list"
  cv_path :: string
  cv_max_size :: int
  cv_max_tokens :: int

record file_memory =
  fm_dir :: string
  fm_max_size :: int
  fm_max_tokens :: int
  fm_convs :: "string \<Rightarrow> (string \<Rightarrow> nat option) option"
  fm_heap :: "conv list"
  fm_disk :: disk

datatype mem_error = MkdirError | CreateFileError | ReadDirError | DeleteFileError
  | OpenError | UnmarshalError | ScannerError | ReadActivitiesError | UnmarshalActivitiesError
  | BackendError string | ConversationNotFound

section \<open>Conversation objects\<close>

definition newline :: char where "newline = CHR 0x0A"

definition conv_path :: "string \<Rightarrow> string \<Rightarrow> string \<Rightarrow> string" where
  "conv_path dir user cid = path_join (path_join dir user) (cid @ ''.jsonl'')"

text \<open>\<open>filepath.Dir\<close>.\<close>

definition path_dir :: "string \<Rightarrow> string" where
  "path_dir p = clean (case last_index_byte slash p of None \<Rightarrow> [] | Some i \<Rightarrow> take (Suc i) p)"

text \<open>A directory exists with everything above it; a file can be written when its directory
  exists and the disk does not refuse it.\<close>

definition dir_exists :: "disk \<Rightarrow> string \<Rightarrow> bool" where
  "dir_exists d p \<longleftrightarrow> (\<exists>q \<in> set (d_dirs d). q = p \<or> prefix (p @ [slash]) q)"

definition can_write :: "disk \<Rightarrow> string \<Rightarrow> bool" where
  "can_write d p \<longleftrightarrow> \<not> io_fails d p \<and> dir_exists d (path_dir p)"

definition put_file :: "disk \<Rightarrow> string \<Rightarrow> string \<Rightarrow> disk" where
  "put_file d p x = (if can_write d p then d\<lparr>d_files := AList.update p x (d_files d)\<rparr> else d)"

definition activities_path :: "string \<Rightarrow> string" where
  "activities_path p = p @ ''.activities''"

text \<open>\<open>bufio.Scanner\<close> with \<open>ScanLines\<close>: lines without their newline and one trailing carriage
  return. A line that does not fit the scanner's buffer of 64 KiB ends the scan with an error.\<close>

definition max_scan_token :: nat where "max_scan_token = 65536"

definition scan_lines :: "string \<Rightarrow> string list" where
  "scan_lines data =
     (let ps = split_char newline data in if last ps = [] then butlast ps else ps)"

definition drop_cr :: "string \<Rightarrow> string" where
  "drop_cr l = (if l \<noteq> [] \<and> last l = CHR 0x0D then butlast l else l)"

fun load_lines :: "codec \<Rightarrow> string list \<Rightarrow> message list \<Rightarrow> mem_error option \<times> message list" where
  "load_lines cd [] acc = (None, acc)"
| "load_lines cd (l # ls) acc =
     (if max_scan_token \<le> length l then (Some ScannerError, acc)
      else case cd_dec cd (drop_cr l) of
        None \<Rightarrow> (Some UnmarshalError, acc)
      | Some m \<Rightarrow> load_lines cd ls (acc @ [m]))"

definition load :: "codec \<Rightarrow> disk \<Rightarrow> conv \<Rightarrow> mem_error option \<times> conv" where
  "load cd d c =
     (if io_fails d (cv_path c) then (Some OpenError, c)
      else case map_of (d_files d) (cv_path c) of
        None \<Rightarrow> (Some OpenError, c)
      | Some data \<Rightarrow>
          let (e, ms) = load_lines cd (scan_lines data) (cv_messages c);
              c1 = c\<lparr>cv_messages := ms\<rparr>
          in case e of
               Some err \<Rightarrow> (Some err, c1)
             | None \<Rightarrow>
                 if io_fails d (activities_path (cv_path c)) then (Some ReadActivitiesError, c1)
                 else case map_of (d_files d) (activities_path (cv_path c)) of
                   None \<Rightarrow> (None, c1)
                 | Some raw \<Rightarrow>
                     if raw = [] then (None, c1)
                     else case cd_dec_acts cd raw of
                       None \<Rightarrow> (Some UnmarshalActivitiesError, c1)
                     | Some as \<Rightarrow> (None, c1\<lparr>cv_activities := as\<rparr>))"

definition save :: "codec \<Rightarrow> disk \<Rightarrow> string \<Rightarrow> message \<Rightarrow> disk" where
  "save cd d path m =
     put_file d path
       ((case map_of (d_files d) path of None \<Rightarrow> [] | Some x \<Rightarrow> x) @ cd_enc cd m @ [newline])"

section \<open>Operations on a handle\<close>

definition fm_full :: "file_memory \<Rightarrow> nat \<Rightarrow> message list" where
  "fm_full s h = cv_messages (fm_heap s ! h)"

definition fm_append :: "codec \<Rightarrow> file_memory \<Rightarrow> nat \<Rightarrow> message \<Rightarrow> file_memory" where
  "fm_append cd s h m =
     (let c = fm_heap s ! h in
      s\<lparr>fm_heap := (fm_heap s)[h := c\<lparr>cv_messages := cv_messages c @ [m]\<rparr>],
        fm_disk := save cd (fm_disk s) (cv_path c) m\<rparr>)"

definition mark_summary :: "message \<Rightarrow> message" where
  "mark_summary m = m\<lparr>msg_extra := (msg_extra m)(summary_marker_key \<mapsto> GBool True)\<rparr>"

definition fm_append_summary :: "codec \<Rightarrow> file_memory \<Rightarrow> nat \<Rightarrow> message \<Rightarrow> file_memory" where
  "fm_append_summary cd s h m = fm_append cd s h (mark_summary m)"

definition fm_get_messages :: "file_memory \<Rightarrow> nat \<Rightarrow> message list" where
  "fm_get_messages s h =
     (let c = fm_heap s ! h; n = int (length (cv_messages c)) in
      if 0 < cv_max_size c \<and> cv_max_size c < n
      then drop (nat (n - cv_max_size c)) (cv_messages c) else cv_messages c)"

definition fm_get_window ::
    "(message list \<Rightarrow> int) \<Rightarrow> file_memory \<Rightarrow> nat \<Rightarrow> int \<Rightarrow> message list" where
  "fm_get_window count s h budget =
     select_window (fm_full s h) count budget (cv_max_tokens (fm_heap s ! h))"

definition fm_count_tokens :: "(message list \<Rightarrow> int) \<Rightarrow> file_memory \<Rightarrow> nat \<Rightarrow> int" where
  "fm_count_tokens count s h = count (fm_get_window count s h 0)"

definition fm_set_activities :: "codec \<Rightarrow> file_memory \<Rightarrow> nat \<Rightarrow> string list \<Rightarrow> file_memory" where
  "fm_set_activities cd s h raw =
     (let c = fm_heap s ! h; p = activities_path (cv_path c); d = fm_disk s in
      s\<lparr>fm_heap := (fm_heap s)[h := c\<lparr>cv_activities := raw\<rparr>],
        fm_disk := put_file d p (cd_enc_acts cd raw)\<rparr>)"

section \<open>Operations of the store\<close>

definition new_file_memory :: "string \<Rightarrow> int \<Rightarrow> int \<Rightarrow> disk \<Rightarrow> file_memory" where
  "new_file_memory dir max_size max_tokens d =
     \<lparr>fm_dir = (if dir = [] then ''/tmp/eino/memory'' else dir), fm_max_size = max_size,
      fm_max_tokens = max_tokens, fm_convs = Map.empty, fm_heap = [], fm_disk = d\<rparr>"

definition empty_conv :: "file_memory \<Rightarrow> string \<Rightarrow> string \<Rightarrow> conv" where
  "empty_conv s user cid =
     \<lparr>cv_user = user, cv_id = cid, cv_messages = [], cv_activities = [],
      cv_path = conv_path (fm_dir s) user cid, cv_max_size = fm_max_size s,
      cv_max_tokens = fm_max_tokens s\<rparr>"

text \<open>The user's map, created with the directory of the file on first use.\<close>

definition ensure_user :: "file_memory \<Rightarrow> string \<Rightarrow> string \<Rightarrow> mem_error + file_memory" where
  "ensure_user s user path =
     (case fm_convs s user of
        Some _ \<Rightarrow> Inr s
      | None \<Rightarrow>
          let dir = path_dir path; d = fm_disk s in
          if \<not> dir_exists d dir \<and> io_fails d dir then Inl MkdirError
          else Inr (s\<lparr>fm_disk := (if dir_exists d dir then d else d\<lparr>d_dirs := dir # d_dirs d\<rparr>),
                      fm_convs := (fm_convs s)(user \<mapsto> Map.empty)\<rparr>))"

definition get_conversation ::
    "codec \<Rightarrow> file_memory \<Rightarrow> string \<Rightarrow> string \<Rightarrow> bool \<Rightarrow> (mem_error + nat) \<times> file_memory" where
  "get_conversation cd s0 user cid create =
     (let path = conv_path (fm_dir s0) user cid in
      case ensure_user s0 user path of
        Inl e \<Rightarrow> (Inl e, s0)
      | Inr s \<Rightarrow>
          (case the (fm_convs s user) cid of
             Some h \<Rightarrow> (Inr h, s)
           | None \<Rightarrow>
               let d = fm_disk s; make = (create \<and> map_of (d_files d) path = None) in
               if make \<and> \<not> can_write d path then (Inl CreateFileError, s)
               else
                 let d1 = (if make then put_file d path [] else d);
                     c = snd (load cd d1 (empty_conv s user cid));
                     h = length (fm_heap s)
                 in (Inr h,
                     s\<lparr>fm_disk := d1, fm_heap := fm_heap s @ [c],
                       fm_convs := (fm_convs s)(user \<mapsto> (the (fm_convs s user))(cid \<mapsto> h))\<rparr>)))"

text \<open>The names in a directory, sorted as \<open>os.ReadDir\<close> returns them; \<open>TrimSuffix\<close> keeps a name
  without the suffix as it is.\<close>

definition names_in_dir :: "disk \<Rightarrow> string \<Rightarrow> string list" where
  "names_in_dir d dir =
     sort (map (drop (Suc (length dir)))
            (filter (\<lambda>p. prefix (dir @ [slash]) p \<and> slash \<notin> set (drop (Suc (length dir)) p))
              (map fst (d_files d))))"

definition trim_suffix :: "string \<Rightarrow> string \<Rightarrow> string" where
  "trim_suffix s x = (if suffix x s then take (length s - length x) s else s)"

definition list_conversations :: "file_memory \<Rightarrow> string \<Rightarrow> mem_error + string list" where
  "list_conversations s user =
     (let dir = path_join (fm_dir s) user in
      if \<not> dir_exists (fm_disk s) dir \<or> io_fails (fm_disk s) dir then Inl ReadDirError
      else Inr (map (\<lambda>n. trim_suffix n ''.jsonl'') (names_in_dir (fm_disk s) dir)))"

definition delete_conversation :: "file_memory \<Rightarrow> string \<Rightarrow> string \<Rightarrow> (mem_error + unit) \<times> file_memory" where
  "delete_conversation s user cid =
     (let path = conv_path (fm_dir s) user cid; d = fm_disk s in
      if map_of (d_files d) path = None \<or> io_fails d path then (Inl DeleteFileError, s)
      else
        let fs = AList.delete path (d_files d);
            fs' = (if io_fails d (activities_path path) then fs
                   else AList.delete (activities_path path) fs)
        in (Inr (),
            s\<lparr>fm_disk := d\<lparr>d_files := fs'\<rparr>,
              fm_convs := (case fm_convs s user of None \<Rightarrow> fm_convs s
                           | Some m \<Rightarrow> (fm_convs s)(user \<mapsto> m(cid := None)))\<rparr>))"

section \<open>The lines of a file\<close>

definition file_lines :: "codec \<Rightarrow> message list \<Rightarrow> string" where
  "file_lines cd ms = concat (map (\<lambda>m. cd_enc cd m @ [newline]) ms)"

text \<open>What the code relies on of JSON for the messages it stores: decoding inverts encoding, an
  encoded message holds no raw newline and does not end in a carriage return.\<close>

definition codec_ok :: "codec \<Rightarrow> message list \<Rightarrow> bool" where
  "codec_ok cd ms \<longleftrightarrow>
     (\<forall>m \<in> set ms. cd_dec cd (cd_enc cd m) = Some m \<and> newline \<notin> set (cd_enc cd m)
        \<and> drop_cr (cd_enc cd m) = cd_enc cd m)"

definition fits_line :: "codec \<Rightarrow> message \<Rightarrow> bool" where
  "fits_line cd m \<longleftrightarrow> length (cd_enc cd m) < max_scan_token"

lemma codec_ok_simps [simp]:
  "codec_ok cd []"
  "codec_ok cd (ms @ ns) \<longleftrightarrow> codec_ok cd ms \<and> codec_ok cd ns"
  by (auto simp: codec_ok_def)

lemma file_lines_simps [simp]:
  "file_lines cd [] = []"
  "file_lines cd (ms @ ns) = file_lines cd ms @ file_lines cd ns"
  "file_lines cd [m] = cd_enc cd m @ [newline]"
  by (simp_all add: file_lines_def)

lemma scan_file_lines:
  assumes "codec_ok cd ms"
  shows "scan_lines (file_lines cd ms) = map (cd_enc cd) ms"
proof -
  have "split_char newline (file_lines cd ms) = map (cd_enc cd) ms @ [[]]"
    using assms by (induction ms) (simp_all add: file_lines_def split_char_append codec_ok_def)
  then show ?thesis by (simp add: scan_lines_def)
qed

lemma load_lines_enc:
  assumes "codec_ok cd ms"
  shows "snd (load_lines cd (map (cd_enc cd) ms) acc) = acc @ takeWhile (fits_line cd) ms"
  using assms
proof (induction ms arbitrary: acc)
  case (Cons m ms)
  have "cd_dec cd (drop_cr (cd_enc cd m)) = Some m" "codec_ok cd ms"
    using Cons.prems by (simp_all add: codec_ok_def)
  with Cons.IH [of "acc @ [m]"] show ?case by (simp add: fits_line_def)
qed simp

lemma load_messages:
  assumes "\<not> io_fails d (cv_path c)" "map_of (d_files d) (cv_path c) = Some (file_lines cd ms)"
    "codec_ok cd ms"
  shows "cv_messages (snd (load cd d c)) = cv_messages c @ takeWhile (fits_line cd) ms"
  using assms load_lines_enc [OF assms(3), of "cv_messages c"]
  by (auto simp: load_def scan_file_lines Let_def split: prod.splits option.splits)

lemma load_path: "cv_path (snd (load cd d c)) = cv_path c"
  by (auto simp: load_def Let_def split: prod.splits option.splits)

section \<open>A handle in step with its file\<close>

definition synced :: "codec \<Rightarrow> file_memory \<Rightarrow> nat \<Rightarrow> string \<Rightarrow> bool" where
  "synced cd s h path \<longleftrightarrow>
     h < length (fm_heap s) \<and> cv_path (fm_heap s ! h) = path
     \<and> can_write (fm_disk s) path
     \<and> map_of (d_files (fm_disk s)) path = Some (file_lines cd (fm_full s h))"

definition append_all :: "codec \<Rightarrow> file_memory \<Rightarrow> nat \<Rightarrow> message list \<Rightarrow> file_memory" where
  "append_all cd s h ms = fold (\<lambda>m s. fm_append cd s h m) ms s"

lemma put_file_simps [simp]:
  "io_fails (put_file d p x) = io_fails d" "d_dirs (put_file d p x) = d_dirs d"
  "dir_exists (put_file d p x) = dir_exists d" "can_write (put_file d p x) = can_write d"
  by (auto simp: put_file_def dir_exists_def can_write_def fun_eq_iff)

lemma put_file_files:
  "can_write d p \<Longrightarrow> map_of (d_files (put_file d p x)) q = (if q = p then Some x else map_of (d_files d) q)"
  by (simp add: put_file_def update_conv')

lemma fm_append_full:
  "h < length (fm_heap s) \<Longrightarrow> fm_full (fm_append cd s h m) h = fm_full s h @ [m]"
  by (simp add: fm_append_def fm_full_def Let_def)

lemma fm_append_other:
  "h' \<noteq> h \<Longrightarrow> fm_full (fm_append cd s h m) h' = fm_full s h'"
  by (simp add: fm_append_def fm_full_def Let_def)

lemma synced_append [inv_intros]:
  assumes "synced cd s h path"
  shows "synced cd (fm_append cd s h m) h path"
  using assms
  by (simp add: synced_def fm_append_def fm_full_def save_def put_file_files Let_def)

lemma synced_append_all:
  "synced cd s h path \<Longrightarrow>
     synced cd (append_all cd s h ms) h path \<and> fm_full (append_all cd s h ms) h = fm_full s h @ ms"
proof (induction ms arbitrary: s)
  case (Cons m ms)
  have "h < length (fm_heap s)" using Cons.prems by (simp add: synced_def)
  with Cons.IH [OF synced_append [OF Cons.prems, of m]] show ?case
    by (simp add: append_all_def fm_append_full)
qed (simp add: append_all_def)

lemma ensure_user_fresh:
  assumes "fm_convs s user = None" "\<not> io_fails (fm_disk s) (path_dir path)"
  shows "\<exists>s'. ensure_user s user path = Inr s' \<and> fm_dir s' = fm_dir s \<and> fm_heap s' = fm_heap s
    \<and> the (fm_convs s' user) = Map.empty
    \<and> d_files (fm_disk s') = d_files (fm_disk s) \<and> io_fails (fm_disk s') = io_fails (fm_disk s)
    \<and> dir_exists (fm_disk s') (path_dir path)"
  using assms by (auto simp: ensure_user_def Let_def dir_exists_def)

text \<open>A first open of a conversation that has no file yet is in step with the empty file it makes.\<close>

lemma get_conversation_new:
  assumes "fm_convs s user = None" "path = conv_path (fm_dir s) user cid"
    "\<not> io_fails (fm_disk s) (path_dir path)" "\<not> io_fails (fm_disk s) path"
    "map_of (d_files (fm_disk s)) path = None"
  shows "\<exists>h s'. get_conversation cd s user cid True = (Inr h, s') \<and> synced cd s' h path
    \<and> fm_full s' h = [] \<and> io_fails (fm_disk s') = io_fails (fm_disk s)"
proof -
  obtain s1 where s1: "ensure_user s user path = Inr s1" "fm_dir s1 = fm_dir s"
    "the (fm_convs s1 user) = Map.empty" "d_files (fm_disk s1) = d_files (fm_disk s)"
    "io_fails (fm_disk s1) = io_fails (fm_disk s)" "dir_exists (fm_disk s1) (path_dir path)"
    using ensure_user_fresh [OF assms(1,3)] by blast
  let ?d = "fm_disk s1"
  let ?c = "snd (load cd (put_file ?d path []) (empty_conv s1 user cid))"
  have w: "can_write ?d path" using s1 assms by (simp add: can_write_def)
  have c: "cv_path (empty_conv s1 user cid) = path" "cv_messages (empty_conv s1 user cid) = []"
    using s1 assms by (simp_all add: empty_conv_def)
  have l: "cv_messages ?c = []"
    using load_messages [where ms = "[]" and d = "put_file ?d path []" and c = "empty_conv s1 user cid" and cd = cd]
      w c by (simp add: put_file_files can_write_def)
  have p: "cv_path ?c = path"
    using c by (simp add: load_path)
  have "get_conversation cd s user cid True =
     (Inr (length (fm_heap s1)),
      s1\<lparr>fm_disk := put_file ?d path [], fm_heap := fm_heap s1 @ [?c],
         fm_convs := (fm_convs s1)(user \<mapsto> [cid \<mapsto> length (fm_heap s1)])\<rparr>)"
    using s1 w assms unfolding get_conversation_def Let_def by simp
  with l p w s1(5) show ?thesis by (simp add: synced_def fm_full_def put_file_files)
qed

text \<open>An open in a new process reads the lines that fit the scanner.\<close>

lemma get_conversation_stored:
  assumes "fm_convs s user = None" "path = conv_path (fm_dir s) user cid"
    "\<not> io_fails (fm_disk s) (path_dir path)" "\<not> io_fails (fm_disk s) path"
    "map_of (d_files (fm_disk s)) path = Some (file_lines cd ms)" "codec_ok cd ms"
  shows "\<exists>h s'. get_conversation cd s user cid create = (Inr h, s')
    \<and> fm_full s' h = takeWhile (fits_line cd) ms"
proof -
  obtain s1 where s1: "ensure_user s user path = Inr s1" "fm_dir s1 = fm_dir s"
    "the (fm_convs s1 user) = Map.empty" "d_files (fm_disk s1) = d_files (fm_disk s)"
    "io_fails (fm_disk s1) = io_fails (fm_disk s)"
    using ensure_user_fresh [OF assms(1,3)] by blast
  let ?c = "snd (load cd (fm_disk s1) (empty_conv s1 user cid))"
  have c: "cv_path (empty_conv s1 user cid) = path" "cv_messages (empty_conv s1 user cid) = []"
    using s1 assms by (simp_all add: empty_conv_def)
  have l: "cv_messages ?c = takeWhile (fits_line cd) ms"
    using load_messages [where ms = ms and d = "fm_disk s1" and c = "empty_conv s1 user cid"]
      s1 assms c by simp
  have "get_conversation cd s user cid create =
     (Inr (length (fm_heap s1)),
      s1\<lparr>fm_disk := fm_disk s1, fm_heap := fm_heap s1 @ [?c],
         fm_convs := (fm_convs s1)(user \<mapsto> [cid \<mapsto> length (fm_heap s1)])\<rparr>)"
    using s1 assms unfolding get_conversation_def Let_def by simp
  with l show ?thesis by (simp add: fm_full_def)
qed

section \<open>Properties\<close>

definition disk_ok :: "disk \<Rightarrow> string \<Rightarrow> bool" where
  "disk_ok d path \<longleftrightarrow> \<not> io_fails d path \<and> \<not> io_fails d (path_dir path)"

text \<open>C4: Messages appended to a new conversation are read back by a process that opens the same
  directory later, in order and up to the first message whose JSON line does not fit the
  scanner's 64 KiB: that message and everything after it are lost, without an error.\<close>

theorem reload_reads_back:
  assumes "path = conv_path (fm_dir (new_file_memory dir mx mt d)) user cid"
    and "disk_ok d path" and "map_of (d_files d) path = None" and "codec_ok cd ms"
    and "get_conversation cd (new_file_memory dir mx mt d) user cid True = (r, s1)"
    and "s2 = append_all cd s1 (projr r) ms"
    and "get_conversation cd (new_file_memory dir mx' mt' (fm_disk s2)) user cid create = (r', s3)"
  shows "fm_full s2 (projr r) = ms \<and> is_ok r' \<and> fm_full s3 (projr r') = takeWhile (fits_line cd) ms"
proof -
  let ?s = "new_file_memory dir mx mt d"
  have s: "fm_convs ?s = Map.empty" "fm_disk ?s = d" by (simp_all add: new_file_memory_def)
  obtain h where h: "r = Inr h" "synced cd s1 h path" "fm_full s1 h = []"
    "io_fails (fm_disk s1) = io_fails d"
    using get_conversation_new [of ?s user path cid cd] assms(1-3,5) s by (auto simp: disk_ok_def)
  have 2: "synced cd s2 h path" "fm_full s2 h = ms"
    using synced_append_all [OF h(2), of ms] h(1,3) assms(6) by simp_all
  have io: "io_fails (fm_disk s2) = io_fails d"
  proof -
    have "io_fails (fm_disk (append_all cd s h ms)) = io_fails (fm_disk s)" for s
      by (induction ms arbitrary: s)
        (simp_all add: append_all_def fm_append_def save_def Let_def)
    then show ?thesis using h(1,4) assms(6) by simp
  qed
  let ?t = "new_file_memory dir mx' mt' (fm_disk s2)"
  have t: "fm_convs ?t = Map.empty" "fm_disk ?t = fm_disk s2" "fm_dir ?t = fm_dir ?s"
    by (simp_all add: new_file_memory_def)
  have "map_of (d_files (fm_disk s2)) path = Some (file_lines cd ms)"
    using 2 by (simp add: synced_def)
  from get_conversation_stored [of ?t user path cid cd ms create] this t assms io
  obtain h' s' where "get_conversation cd ?t user cid create = (Inr h', s')"
    "fm_full s' h' = takeWhile (fits_line cd) ms"
    by (auto simp: disk_ok_def)
  with 2 h(1) assms(7) show ?thesis by auto
qed

definition content_codec :: codec where
  "content_codec = \<lparr>cd_enc = msg_content, cd_dec = (\<lambda>l. Some (plain_message RUser l)),
     cd_enc_acts = concat, cd_dec_acts = (\<lambda>x. Some [x])\<rparr>"

definition free_disk :: disk where
  "free_disk = \<lparr>d_files = [], d_dirs = [], io_fails = (\<lambda>_. False)\<rparr>"

theorem reload_reads_back_witness:
  "let s1 = snd (get_conversation content_codec (new_file_memory ''/m'' 0 0 free_disk) ''u'' ''c'' True);
       r = fst (get_conversation content_codec (new_file_memory ''/m'' 0 0 free_disk) ''u'' ''c'' True);
       s2 = append_all content_codec s1 (projr r) [plain_message RUser ''a'', plain_message RUser ''b''];
       x = get_conversation content_codec (new_file_memory ''/m'' 0 0 (fm_disk s2)) ''u'' ''c'' False
   in fm_full (snd x) (projr (fst x)) = [plain_message RUser ''a'', plain_message RUser ''b'']"
proof -
  let ?ms = "[plain_message RUser ''a'', plain_message RUser ''b'']"
  let ?x = "get_conversation content_codec (new_file_memory ''/m'' 0 0 free_disk) ''u'' ''c'' True"
  have c: "codec_ok content_codec ?ms"
    by (simp add: codec_ok_def content_codec_def plain_message_def newline_def drop_cr_def)
  have f: "takeWhile (fits_line content_codec) ?ms = ?ms"
    by (simp add: fits_line_def content_codec_def plain_message_def max_scan_token_def)
  have d: "disk_ok free_disk p" "map_of (d_files free_disk) p = None" for p
    by (simp_all add: disk_ok_def free_disk_def)
  note r = reload_reads_back [where dir = "''/m''" and mx = 0 and mt = 0 and mx' = 0 and mt' = 0
      and user = "''u''" and cid = "''c''" and create = False, OF refl d c
      prod.collapse [symmetric] refl prod.collapse [symmetric]]
  show ?thesis unfolding Let_def using conjunct2 [OF conjunct2 [OF r]] f by simp
qed

text \<open>Appending through one handle changes the messages of no other handle and keeps the
  handle in step with its file.\<close>

theorem append_isolated:
  assumes "synced cd s h path"
  shows "synced cd (fm_append cd s h m) h path
    \<and> fm_full (fm_append cd s h m) h = fm_full s h @ [m]
    \<and> (\<forall>h'. h' = h \<or> fm_full (fm_append cd s h m) h' = fm_full s h')
    \<and> (\<forall>q. q = path \<or> map_of (d_files (fm_disk (fm_append cd s h m))) q = map_of (d_files (fm_disk s)) q)"
proof -
  have "h < length (fm_heap s)" using assms by (simp add: synced_def)
  moreover have "map_of (d_files (fm_disk (fm_append cd s h m))) q = map_of (d_files (fm_disk s)) q"
    if "q \<noteq> path" for q
    using assms that
    by (simp add: synced_def fm_append_def save_def put_file_files Let_def)
  ultimately show ?thesis using synced_append [OF assms] fm_append_full fm_append_other by blast
qed

text \<open>\<open>GetConversation\<close> with \<open>createIfNotExist\<close> false still returns a conversation and registers
  it when none exists, instead of reporting that there is none.\<close>

theorem get_conversation_false_creates:
  assumes "fm_convs s user = None" and "path = conv_path (fm_dir s) user cid"
    and "disk_ok (fm_disk s) path" and "map_of (d_files (fm_disk s)) path = None"
    and "get_conversation cd s user cid False = (r, s')"
  shows "\<exists>h. r = Inr h \<and> the (fm_convs s' user) cid = Some h \<and> fm_full s' h = []
    \<and> map_of (d_files (fm_disk s')) path = None"
proof -
  obtain s1 where s1: "ensure_user s user path = Inr s1" "fm_dir s1 = fm_dir s"
    "the (fm_convs s1 user) = Map.empty" "d_files (fm_disk s1) = d_files (fm_disk s)"
    using ensure_user_fresh [of s user path] assms(1,3) by (auto simp: disk_ok_def)
  have l: "snd (load cd (fm_disk s1) (empty_conv s1 user cid)) = empty_conv s1 user cid"
    using s1 assms(2,4) by (simp add: load_def empty_conv_def)
  have "get_conversation cd s user cid False =
     (Inr (length (fm_heap s1)),
      s1\<lparr>fm_disk := fm_disk s1, fm_heap := fm_heap s1 @ [empty_conv s1 user cid],
         fm_convs := (fm_convs s1)(user \<mapsto> [cid \<mapsto> length (fm_heap s1)])\<rparr>)"
    using s1 assms(2) l unfolding get_conversation_def Let_def by simp
  with assms(4,5) s1 show ?thesis by (auto simp: fm_full_def empty_conv_def)
qed

theorem get_conversation_false_creates_witness:
  "\<exists>h s'. get_conversation content_codec (new_file_memory ''/m'' 0 0 free_disk) ''u'' ''c'' False
     = (Inr h, s') \<and> fm_full s' h = []"
proof -
  let ?s = "new_file_memory ''/m'' 0 0 free_disk"
  obtain r s' where g: "get_conversation content_codec ?s ''u'' ''c'' False = (r, s')"
    by fastforce
  have "fm_convs ?s ''u'' = None" "map_of (d_files (fm_disk ?s)) p = None" "disk_ok (fm_disk ?s) p" for p
    by (simp_all add: new_file_memory_def free_disk_def disk_ok_def)
  from get_conversation_false_creates [OF this(1) refl this(3,2) g] g show ?thesis by blast
qed

text \<open>The id list of a user holds a phantom conversation for every conversation with stored
  activities: a name \<open><id>.jsonl.activities\<close> in the user's directory is listed whole, because only
  the suffix \<open>.jsonl\<close> is trimmed.\<close>

theorem list_conversations_phantom:
  assumes "list_conversations s user = Inr ids"
    and "map_of (d_files (fm_disk s)) (path_join (fm_dir s) user @ [slash] @ cid @ ''.jsonl.activities'') \<noteq> None"
    and "slash \<notin> set cid"
  shows "cid @ ''.jsonl.activities'' \<in> set ids"
proof -
  let ?dir = "path_join (fm_dir s) user"
  let ?n = "cid @ ''.jsonl.activities''"
  have "?dir @ [slash] @ ?n \<in> set (map fst (d_files (fm_disk s)))"
    using assms(2) by (auto simp: map_of_eq_None_iff)
  moreover have "slash \<notin> set ?n" using assms(3) by (simp add: slash_def)
  moreover have "drop (Suc (length ?dir)) (?dir @ [slash] @ ?n) = ?n" by simp
  ultimately have "?n \<in> set (names_in_dir (fm_disk s) ?dir)"
    unfolding names_in_dir_def by (force simp: image_iff)
  moreover have "trim_suffix ?n ''.jsonl'' = ?n"
    by (simp add: trim_suffix_def suffix_drop_length)
  moreover have "ids = map (\<lambda>n. trim_suffix n ''.jsonl'') (names_in_dir (fm_disk s) ?dir)"
    using assms(1) by (simp add: list_conversations_def Let_def split: if_splits)
  ultimately show ?thesis by force
qed

theorem list_conversations_phantom_witness:
  "let s = new_file_memory ''/m'' 0 0
       \<lparr>d_files = [(''/m/u/c.jsonl'', []), (''/m/u/c.jsonl.activities'', ''x'')], d_dirs = [''/m/u''],
        io_fails = (\<lambda>_. False)\<rparr>
   in ''c.jsonl.activities'' \<in> set (projr (list_conversations s ''u''))"
proof -
  let ?s = "new_file_memory ''/m'' 0 0
       \<lparr>d_files = [(''/m/u/c.jsonl'', []), (''/m/u/c.jsonl.activities'', ''x'')], d_dirs = [''/m/u''],
        io_fails = (\<lambda>_. False)\<rparr>"
  have j: "path_join (fm_dir ?s) ''u'' = ''/m/u''" by code_simp
  have "is_ok (list_conversations ?s ''u'')"
    by (simp add: list_conversations_def j Let_def) (simp add: new_file_memory_def dir_exists_def)
  then obtain ids where l: "list_conversations ?s ''u'' = Inr ids" by (auto simp: is_ok_iff)
  from list_conversations_phantom [OF this, of "''c''"] show ?thesis
    by (simp add: l j Let_def) (simp add: new_file_memory_def slash_def)
qed

theorem append_isolated_witness:
  "let c = \<lparr>cv_user = ''u'', cv_id = ''c'', cv_messages = [], cv_activities = [],
             cv_path = ''/m/u/c.jsonl'', cv_max_size = 0, cv_max_tokens = 0\<rparr>;
       s = \<lparr>fm_dir = ''/m'', fm_max_size = 0, fm_max_tokens = 0, fm_convs = Map.empty, fm_heap = [c, c],
            fm_disk = \<lparr>d_files = [(''/m/u/c.jsonl'', [])], d_dirs = [''/m/u''], io_fails = (\<lambda>_. False)\<rparr>\<rparr>
   in fm_full (fm_append content_codec s 0 (plain_message RUser ''x'')) 0 = [plain_message RUser ''x'']
      \<and> fm_full (fm_append content_codec s 0 (plain_message RUser ''x'')) 1 = []"
proof -
  define c where "c = \<lparr>cv_user = ''u'', cv_id = ''c'', cv_messages = [], cv_activities = [],
             cv_path = ''/m/u/c.jsonl'', cv_max_size = 0, cv_max_tokens = 0\<rparr>"
  define s where "s = \<lparr>fm_dir = ''/m'', fm_max_size = 0, fm_max_tokens = 0, fm_convs = Map.empty,
      fm_heap = [c, c],
      fm_disk = \<lparr>d_files = [(''/m/u/c.jsonl'', [])], d_dirs = [''/m/u''], io_fails = (\<lambda>_. False)\<rparr>\<rparr>"
  have "path_dir ''/m/u/c.jsonl'' = ''/m/u''" by code_simp
  then have "synced content_codec s 0 ''/m/u/c.jsonl''"
    by (simp add: synced_def s_def c_def can_write_def dir_exists_def fm_full_def)
  from append_isolated [OF this, of "plain_message RUser ''x''"]
  show ?thesis unfolding Let_def c_def [symmetric] s_def [symmetric]
    by (metis (no_types) One_nat_def append_Nil c_def conv.select_convs(3) file_memory.select_convs(5)
        fm_full_def nth_Cons_0 nth_Cons_Suc s_def zero_neq_one)
qed

lemma elems_conv_path:
  assumes "dir \<noteq> []" "good_elem user" "user \<noteq> dotdot" "slash \<notin> set cid"
  shows "elems (conv_path dir user cid) = elems dir @ [user, cid @ ''.jsonl'']"
proof -
  have sp: "split_char slash user = [user]" "split_char slash (cid @ ''.jsonl'') = [cid @ ''.jsonl'']"
    using assms by (auto intro!: split_char_none simp: good_elem_def slash_def)
  have "length (cid @ ''.jsonl'') > length dotdot" "length (cid @ ''.jsonl'') > length dot"
    by (simp_all add: dot_def dotdot_def)
  then have "cid @ ''.jsonl'' \<noteq> dotdot" "cid @ ''.jsonl'' \<noteq> dot" by fastforce+
  moreover have "slash \<notin> set (cid @ ''.jsonl'')" using assms(4) by (simp add: slash_def)
  ultimately have g: "good_elem (cid @ ''.jsonl'')" "cid @ ''.jsonl'' \<noteq> dotdot"
    by (simp_all add: good_elem_def)
  have "path_join dir user \<noteq> []" using path_join_props(3) [OF assms(1), of user] clean_not_Nil by metis
  then show ?thesis
    using sp assms g by (simp add: conv_path_def path_join_props resolve_elems_single)
qed

text \<open>For users and ids without separators, no two conversations share a file, and every file
  is two levels below the store's directory. The code does not check this of its arguments; a
  user \<open>..\<close> or an id with a separator breaks both.\<close>

theorem conv_path_separates:
  assumes "dir \<noteq> []" and "good_elem user" and "user \<noteq> dotdot" and "slash \<notin> set cid"
    and "good_elem user'" and "user' \<noteq> dotdot" and "slash \<notin> set cid'"
  shows "(conv_path dir user cid = conv_path dir user' cid' \<longleftrightarrow> user = user' \<and> cid = cid')
    \<and> elems (conv_path dir user cid) = elems dir @ [user, cid @ ''.jsonl'']"
proof -
  have "user = user' \<and> cid = cid'" if e: "conv_path dir user cid = conv_path dir user' cid'"
  proof -
    have "elems dir @ [user, cid @ ''.jsonl''] = elems dir @ [user', cid' @ ''.jsonl'']"
      unfolding elems_conv_path [OF assms(1-4), symmetric] elems_conv_path [OF assms(1,5-7), symmetric]
      by (rule arg_cong [OF e])
    then show ?thesis by simp
  qed
  with elems_conv_path [OF assms(1-4)] show ?thesis by blast
qed

theorem conv_path_separates_witness:
  "conv_path ''/m'' ''a'' ''b'' \<noteq> conv_path ''/m'' ''b'' ''a''
   \<and> conv_path ''/m'' ''a'' ''b/c'' = conv_path ''/m'' ''a/b'' ''c''
   \<and> conv_path ''/m'' ''..'' ''x'' = ''/x.jsonl''"
proof -
  have "good_elem ''a''" "good_elem ''b''" "''a'' \<noteq> dotdot" "''b'' \<noteq> dotdot"
    by (simp_all add: good_elem_def dot_def dotdot_def slash_def)
  then have "conv_path ''/m'' ''a'' ''b'' \<noteq> conv_path ''/m'' ''b'' ''a''"
    using conv_path_separates [of "''/m''" "''a''" "''b''" "''b''" "''a''"] by (simp add: slash_def)
  moreover have "conv_path ''/m'' ''a'' ''b/c'' = conv_path ''/m'' ''a/b'' ''c''" by code_simp
  moreover have "conv_path ''/m'' ''..'' ''x'' = ''/x.jsonl''" by code_simp
  ultimately show ?thesis by blast
qed

end
