(* ===== verification/Session.thy ===== *)
theory Session
  imports FileMemory
begin

text \<open>
  Turns of a conversation, \<^verbatim>\<open>components/memory/session/session.go\<close>: a turn holds the lock of its
  session, keeps the user's message pending, and persists it with the assistant's answer or not
  at all.

  The manager works on any \<^verbatim>\<open>memory.Memory\<close>; here its operations are the record \<open>store_ops\<close>, and
  the locale \<open>conversation_store\<close> states what the manager relies on. The file backend
  \<open>fm_ops\<close> is the interpretation. A lock key is the pair of user and id: the code quotes both
  parts, so distinct pairs have distinct keys. The protocol behind \<open>lock\<close> and \<open>unlock\<close> is the
  theory \<open>Session_Lock\<close>; here a session is held or it is not.
\<close>

section \<open>State\<close>

type_synonym session_key = "string \<times> string"

record ('s, 'h) store_ops =
  op_get :: "'s \<Rightarrow> string \<Rightarrow> string \<Rightarrow> bool \<Rightarrow> (mem_error + 'h) \<times> 's"
  op_append :: "'s \<Rightarrow> 'h \<Rightarrow> message \<Rightarrow> 's"
  op_append_summary :: "'s \<Rightarrow> 'h \<Rightarrow> message \<Rightarrow> 's"
  op_window :: "'s \<Rightarrow> 'h \<Rightarrow> int \<Rightarrow> message list"
  op_delete :: "'s \<Rightarrow> string \<Rightarrow> string \<Rightarrow> (mem_error + unit) \<times> 's"

type_synonym summarize = "message list \<Rightarrow> string \<Rightarrow> string option"

record session_config =
  sm_summarizer :: "summarize option"
  sm_threshold :: int
  sm_window_budget :: int
  sm_count :: "message list \<Rightarrow> int"

record 's session =
  se_store :: 's
  se_held :: "session_key list"

record 'h turn =
  tn_key :: session_key
  tn_conv :: 'h
  tn_pending :: "message option"
  tn_released :: bool
  tn_committed :: bool

datatype session_error = GetConversationFailed mem_error | DeleteFailed mem_error
  | SummarizeFailed | AlreadyCommitted

section \<open>Operations\<close>

definition unlock_key :: "session_key \<Rightarrow> 's session \<Rightarrow> 's session" where
  "unlock_key k se = se\<lparr>se_held := remove1 k (se_held se)\<rparr>"

definition lock_key :: "session_key \<Rightarrow> 's session \<Rightarrow> 's session" where
  "lock_key k se = se\<lparr>se_held := k # se_held se\<rparr>"

text \<open>\<open>None\<close>: another turn holds the session and the call waits.\<close>

definition begin_turn ::
    "('s, 'h) store_ops \<Rightarrow> 's session \<Rightarrow> string \<Rightarrow> string \<Rightarrow> message option
      \<Rightarrow> ((session_error + 'h turn) \<times> 's session) option" where
  "begin_turn ops se user cid msg =
     (let k = (user, cid) in
      if k \<in> set (se_held se) then None
      else let se1 = lock_key k se in
        case op_get ops (se_store se1) user cid True of
          (Inl e, st) \<Rightarrow> Some (Inl (GetConversationFailed e), unlock_key k (se1\<lparr>se_store := st\<rparr>))
        | (Inr h, st) \<Rightarrow>
            Some (Inr \<lparr>tn_key = k, tn_conv = h, tn_pending = msg, tn_released = False,
                       tn_committed = False\<rparr>, se1\<lparr>se_store := st\<rparr>))"

definition delete_session ::
    "('s, 'h) store_ops \<Rightarrow> 's session \<Rightarrow> string \<Rightarrow> string
      \<Rightarrow> ((session_error + unit) \<times> 's session) option" where
  "delete_session ops se user cid =
     (let k = (user, cid) in
      if k \<in> set (se_held se) then None
      else let se1 = lock_key k se; (r, st) = op_delete ops (se_store se1) user cid in
        Some (case r of Inl e \<Rightarrow> Inl (DeleteFailed e) | Inr u \<Rightarrow> Inr u,
              unlock_key k (se1\<lparr>se_store := st\<rparr>)))"

definition turn_window ::
    "('s, 'h) store_ops \<Rightarrow> session_config \<Rightarrow> 's session \<Rightarrow> 'h turn \<Rightarrow> int \<Rightarrow> message list" where
  "turn_window ops cfg se t budget0 =
     (let budget = (if budget0 \<le> 0 then sm_window_budget cfg else budget0);
          win = op_window ops (se_store se) (tn_conv t) budget
      in case tn_pending t of None \<Rightarrow> win | Some u \<Rightarrow> win @ [u])"

definition previous_summary_text :: "message list \<Rightarrow> string" where
  "previous_summary_text window =
     (case last_index_of (\<lambda>m. is_summary (Some m)) window of
        Some i \<Rightarrow> msg_content (window ! i) | None \<Rightarrow> [])"

definition condense ::
    "('s, 'h) store_ops \<Rightarrow> session_config \<Rightarrow> 's session \<Rightarrow> 'h turn
      \<Rightarrow> (session_error + bool) \<times> 's session" where
  "condense ops cfg se t =
     (case sm_summarizer cfg of
        None \<Rightarrow> (Inr False, se)
      | Some summarize \<Rightarrow>
          if sm_threshold cfg \<le> 0 then (Inr False, se)
          else if sm_count cfg (turn_window ops cfg se t 0) < sm_threshold cfg then (Inr False, se)
          else let persisted = op_window ops (se_store se) (tn_conv t) (sm_window_budget cfg) in
            if persisted = [] then (Inr False, se)
            else case summarize persisted (previous_summary_text persisted) of
              None \<Rightarrow> (Inl SummarizeFailed, se)
            | Some text \<Rightarrow>
                (Inr True, se\<lparr>se_store := op_append_summary ops (se_store se) (tn_conv t)
                                            (new_summary_message text)\<rparr>))"

definition release :: "'s session \<Rightarrow> 'h turn \<Rightarrow> 's session \<times> 'h turn" where
  "release se t =
     (if tn_released t then (se, t) else (unlock_key (tn_key t) se, t\<lparr>tn_released := True\<rparr>))"

definition append_opt :: "('s, 'h) store_ops \<Rightarrow> 's \<Rightarrow> 'h \<Rightarrow> message option \<Rightarrow> 's" where
  "append_opt ops st h p = (case p of None \<Rightarrow> st | Some m \<Rightarrow> op_append ops st h m)"

definition commit_assistant ::
    "('s, 'h) store_ops \<Rightarrow> 's session \<Rightarrow> 'h turn \<Rightarrow> message option
      \<Rightarrow> (session_error + unit) \<times> 's session \<times> 'h turn" where
  "commit_assistant ops se t msg =
     (if tn_committed t then (Inl AlreadyCommitted, se, t)
      else
        let st1 = append_opt ops (se_store se) (tn_conv t) (tn_pending t);
            st2 = append_opt ops st1 (tn_conv t) msg
        in (Inr (), release (se\<lparr>se_store := st2\<rparr>) (t\<lparr>tn_committed := True, tn_pending := None\<rparr>)))"

definition discard :: "'s session \<Rightarrow> 'h turn \<Rightarrow> 's session \<times> 'h turn" where
  "discard se t = release se (t\<lparr>tn_pending := None\<rparr>)"

section \<open>Runs of a turn\<close>

text \<open>What the holder of a turn may do, in any order and number.\<close>

datatype turn_op = OCondense | OCommit "message option" | ODiscard

fun turn_step ::
    "('s, 'h) store_ops \<Rightarrow> session_config \<Rightarrow> turn_op \<Rightarrow> 's session \<times> 'h turn \<Rightarrow> 's session \<times> 'h turn" where
  "turn_step ops cfg OCondense (se, t) = (snd (condense ops cfg se t), t)"
| "turn_step ops cfg (OCommit m) (se, t) = snd (commit_assistant ops se t m)"
| "turn_step ops cfg ODiscard (se, t) = discard se t"

definition turn_run ::
    "('s, 'h) store_ops \<Rightarrow> session_config \<Rightarrow> turn_op list \<Rightarrow> 's session \<times> 'h turn \<Rightarrow> 's session \<times> 'h turn" where
  "turn_run ops cfg os x = fold (turn_step ops cfg) os x"

text \<open>What a run may persist besides summaries: nothing before the first commit; the pending user
  message when the turn was not discarded before it; then the assistant's message.\<close>

fun persisted_by :: "message option \<Rightarrow> turn_op list \<Rightarrow> message list" where
  "persisted_by p [] = []"
| "persisted_by p (OCondense # os) = persisted_by p os"
| "persisted_by p (ODiscard # os) = persisted_by None os"
| "persisted_by p (OCommit m # os) =
     (case p of None \<Rightarrow> [] | Some u \<Rightarrow> [u]) @ (case m of None \<Rightarrow> [] | Some a \<Rightarrow> [a])"

section \<open>What the manager relies on\<close>

locale conversation_store =
  fixes ops :: "('s, 'h) store_ops"
    and wf :: "'s \<Rightarrow> bool"
    and valid :: "'s \<Rightarrow> 'h \<Rightarrow> bool"
    and full :: "'s \<Rightarrow> 'h \<Rightarrow> message list"
  assumes wf_get: "wf s \<Longrightarrow> op_get ops s user cid create = (r, s') \<Longrightarrow>
      wf s' \<and> (\<forall>h. r = Inr h \<longrightarrow> valid s' h)"
    and get_keeps: "op_get ops s user cid create = (r, s') \<Longrightarrow> valid s h' \<Longrightarrow>
      valid s' h' \<and> full s' h' = full s h'"
    and wf_append: "wf s \<Longrightarrow> wf (op_append ops s h m)"
    and wf_summary: "wf s \<Longrightarrow> wf (op_append_summary ops s h m)"
    and valid_append: "valid s h \<Longrightarrow> valid (op_append ops s h m) h"
    and full_append: "valid s h \<Longrightarrow> full (op_append ops s h m) h = full s h @ [m]"
    and valid_summary: "valid s h \<Longrightarrow> valid (op_append_summary ops s h m) h"
    and full_summary: "valid s h \<Longrightarrow> full (op_append_summary ops s h m) h = full s h @ [mark_summary m]"
    and window_at_summary: "valid s h \<Longrightarrow> full s h = ms @ [m] \<Longrightarrow> is_summary (Some m)
      \<Longrightarrow> op_window ops s h b = [m]"

definition not_summary :: "message \<Rightarrow> bool" where
  "not_summary m \<longleftrightarrow> \<not> is_summary (Some m)"

lemma mark_new_summary [simp]: "mark_summary (new_summary_message c) = new_summary_message c"
  by (simp add: mark_summary_def new_summary_message_def plain_message_def)

lemma not_summary_new [simp]: "\<not> not_summary (new_summary_message c)"
  by (simp add: not_summary_def)

lemma release_simps [simp]:
  "se_store (fst (release se t)) = se_store se"
  "tn_conv (snd (release se t)) = tn_conv t"
  "tn_pending (snd (release se t)) = tn_pending t"
  "tn_committed (snd (release se t)) = tn_committed t"
  "tn_released (snd (release se t))"
  by (simp_all add: release_def unlock_key_def)

lemma condense_cases:
  "(snd (condense ops cfg se t) = se \<and> fst (condense ops cfg se t) \<noteq> Inr True)
   \<or> (\<exists>text. condense ops cfg se t =
      (Inr True, se\<lparr>se_store := op_append_summary ops (se_store se) (tn_conv t) (new_summary_message text)\<rparr>))"
  by (auto simp: condense_def Let_def split: option.splits if_splits)

context conversation_store
begin

lemma append_opt_props:
  assumes "valid s h"
  shows "valid (append_opt ops s h p) h
    \<and> full (append_opt ops s h p) h = full s h @ (case p of None \<Rightarrow> [] | Some m \<Rightarrow> [m])"
  using assms by (auto simp: append_opt_def valid_append full_append split: option.splits)

lemma commit_props:
  fixes msg :: "message option"
  assumes "valid (se_store se) (tn_conv t)" "\<not> tn_committed t"
    and x_def: "x = snd (commit_assistant ops se t msg)"
  shows "tn_committed (snd x)" "tn_pending (snd x) = None" "tn_conv (snd x) = tn_conv t"
    "tn_released (snd x)" "valid (se_store (fst x)) (tn_conv t)"
    "full (se_store (fst x)) (tn_conv t) = full (se_store se) (tn_conv t)
       @ (case tn_pending t of None \<Rightarrow> [] | Some u \<Rightarrow> [u]) @ (case msg of None \<Rightarrow> [] | Some m \<Rightarrow> [m])"
proof -
  let ?s1 = "append_opt ops (se_store se) (tn_conv t) (tn_pending t)"
  have 1: "valid ?s1 (tn_conv t)" using append_opt_props [OF assms(1)] by blast
  show "tn_committed (snd x)" "tn_pending (snd x) = None" "tn_conv (snd x) = tn_conv t"
    "tn_released (snd x)" "valid (se_store (fst x)) (tn_conv t)"
    "full (se_store (fst x)) (tn_conv t) = full (se_store se) (tn_conv t)
       @ (case tn_pending t of None \<Rightarrow> [] | Some u \<Rightarrow> [u]) @ (case msg of None \<Rightarrow> [] | Some m \<Rightarrow> [m])"
    using assms(2) append_opt_props [OF assms(1), of "tn_pending t"] append_opt_props [OF 1, of msg]
    by (simp_all add: x_def commit_assistant_def Let_def)
qed

text \<open>A committed turn persists no message of its own again.\<close>

lemma run_committed:
  assumes "valid (se_store (fst x)) (tn_conv (snd x))" "tn_committed (snd x)"
  shows "\<exists>ext. full (se_store (fst (turn_run ops cfg os x))) (tn_conv (snd x))
      = full (se_store (fst x)) (tn_conv (snd x)) @ ext \<and> filter not_summary ext = []"
  using assms
proof (induction os arbitrary: x)
  case Nil
  then show ?case by (simp add: turn_run_def)
next
  case (Cons o1 os)
  obtain se t where x: "x = (se, t)" by (cases x)
  let ?y = "turn_step ops cfg o1 x"
  have "valid (se_store (fst ?y)) (tn_conv t) \<and> tn_conv (snd ?y) = tn_conv t \<and> tn_committed (snd ?y)
    \<and> (\<exists>ext. full (se_store (fst ?y)) (tn_conv t) = full (se_store se) (tn_conv t) @ ext
         \<and> filter not_summary ext = [])"
  proof (cases o1)
    case OCondense
    show ?thesis
      using condense_cases [of ops cfg se t] Cons.prems x OCondense
      by (auto simp: valid_summary full_summary)
  next
    case (OCommit m)
    then show ?thesis using Cons.prems x by (simp add: commit_assistant_def)
  next
    case ODiscard
    then show ?thesis using Cons.prems x by (simp add: discard_def)
  qed
  moreover from this Cons.IH [of ?y]
  obtain ext where "full (se_store (fst (turn_run ops cfg os ?y))) (tn_conv t)
      = full (se_store (fst ?y)) (tn_conv t) @ ext" "filter not_summary ext = []"
    by auto
  ultimately show ?case using x by (auto simp: turn_run_def)
qed

lemma run_persists:
  assumes "valid (se_store (fst x)) (tn_conv (snd x))" "\<not> tn_committed (snd x)"
  shows "\<exists>ext. full (se_store (fst (turn_run ops cfg os x))) (tn_conv (snd x))
      = full (se_store (fst x)) (tn_conv (snd x)) @ ext
    \<and> filter not_summary ext = filter not_summary (persisted_by (tn_pending (snd x)) os)"
  using assms
proof (induction os arbitrary: x)
  case Nil
  then show ?case by (simp add: turn_run_def)
next
  case (Cons o1 os)
  obtain se t where x: "x = (se, t)" by (cases x)
  note pr = Cons.prems [unfolded x, simplified]
  have run: "turn_run ops cfg (o1 # os) x = turn_run ops cfg os (turn_step ops cfg o1 (se, t))"
    by (simp add: turn_run_def x)
  show ?case
  proof (cases o1)
    case OCondense
    let ?y = "(snd (condense ops cfg se t), t)"
    have "valid (se_store (fst ?y)) (tn_conv t)
      \<and> (\<exists>ext. full (se_store (fst ?y)) (tn_conv t) = full (se_store se) (tn_conv t) @ ext
         \<and> filter not_summary ext = [])"
      using condense_cases [of ops cfg se t] pr by (auto simp: valid_summary full_summary)
    with Cons.IH [of ?y] pr OCondense run show ?thesis by (auto simp: x)
  next
    case (OCommit m)
    let ?y = "snd (commit_assistant ops se t m)"
    note c = commit_props [OF pr refl, of m]
    from run_committed [of ?y cfg os] c
    obtain ext where "full (se_store (fst (turn_run ops cfg os ?y))) (tn_conv t)
      = full (se_store (fst ?y)) (tn_conv t) @ ext" "filter not_summary ext = []"
      by auto
    with c OCommit run show ?thesis by (simp add: x)
  next
    case ODiscard
    let ?y = "discard se t"
    have "se_store (fst ?y) = se_store se" "tn_conv (snd ?y) = tn_conv t"
      "tn_pending (snd ?y) = None" "\<not> tn_committed (snd ?y)"
      using pr by (simp_all add: discard_def)
    with Cons.IH [of ?y] pr ODiscard run show ?thesis by (simp add: x)
  qed
qed

text \<open>After a condensation the next window is the summary and the pending message.\<close>

lemma window_after_condense:
  assumes "valid (se_store se) (tn_conv t)" "condense ops cfg se t = (Inr True, se')"
  shows "\<exists>tx. full (se_store se') (tn_conv t)
      = full (se_store se) (tn_conv t) @ [new_summary_message tx]
    \<and> turn_window ops cfg se' t b = new_summary_message tx
         # (case tn_pending t of None \<Rightarrow> [] | Some u \<Rightarrow> [u])"
proof -
  from condense_cases [of ops cfg se t] assms(2) obtain tx where "condense ops cfg se t =
      (Inr True, se\<lparr>se_store := op_append_summary ops (se_store se) (tn_conv t) (new_summary_message tx)\<rparr>)"
    by auto
  with assms have e: "se' = se\<lparr>se_store := op_append_summary ops (se_store se) (tn_conv t) (new_summary_message tx)\<rparr>"
    by simp
  have f: "full (se_store se') (tn_conv t) = full (se_store se) (tn_conv t) @ [new_summary_message tx]"
    using assms(1) e by (simp add: full_summary)
  have "valid (se_store se') (tn_conv t)" using assms(1) e by (simp add: valid_summary)
  from window_at_summary [OF this f] have "op_window ops (se_store se') (tn_conv t) b' = [new_summary_message tx]" for b'
    by simp
  with f show ?thesis by (auto simp: turn_window_def Let_def split: option.splits)
qed

lemma begin_turn_ok:
  assumes "wf (se_store se)" "begin_turn ops se user cid u = Some (Inr t, se')"
  shows "wf (se_store se')" "valid (se_store se') (tn_conv t)" "tn_pending t = u" "\<not> tn_committed t"
    "\<not> tn_released t" "tn_key t = (user, cid)" "se_held se' = (user, cid) # se_held se"
    "(user, cid) \<notin> set (se_held se)"
    "\<And>h. valid (se_store se) h \<Longrightarrow> full (se_store se') h = full (se_store se) h"
  using assms wf_get [of "se_store se" user cid True] get_keeps [of "se_store se" user cid True]
  by (auto simp: begin_turn_def lock_key_def Let_def split: if_splits prod.splits sum.splits)

lemma turn_persists:
  assumes "wf (se_store se)" "begin_turn ops se user cid u = Some (Inr t, se')"
  shows "\<exists>ext. full (se_store (fst (turn_run ops cfg os (se', t)))) (tn_conv t)
      = full (se_store se') (tn_conv t) @ ext
    \<and> filter not_summary ext = filter not_summary (persisted_by u os)"
  using run_persists [of "(se', t)" cfg os] begin_turn_ok [OF assms] by simp

end

section \<open>The file backend is a conversation store\<close>

definition fm_ops :: "codec \<Rightarrow> (message list \<Rightarrow> int) \<Rightarrow> (file_memory, nat) store_ops" where
  "fm_ops cd count = \<lparr>op_get = get_conversation cd, op_append = fm_append cd,
     op_append_summary = fm_append_summary cd, op_window = fm_get_window count,
     op_delete = delete_conversation\<rparr>"

definition fm_valid :: "file_memory \<Rightarrow> nat \<Rightarrow> bool" where
  "fm_valid s h \<longleftrightarrow> h < length (fm_heap s)"

definition fm_wf :: "file_memory \<Rightarrow> bool" where
  "fm_wf s \<longleftrightarrow> (\<forall>user m cid h. fm_convs s user = Some m \<longrightarrow> m cid = Some h \<longrightarrow> fm_valid s h)"

lemma ensure_user_props:
  assumes "ensure_user s user path = Inr s'"
  shows "fm_heap s' = fm_heap s" "fm_wf s \<Longrightarrow> fm_wf s'" "fm_convs s' user \<noteq> None"
  using assms by (auto simp: ensure_user_def fm_wf_def fm_valid_def Let_def split: option.splits if_splits)

lemma get_conversation_heap:
  assumes "get_conversation cd s user cid create = (r, s')"
  shows "\<exists>cs. fm_heap s' = fm_heap s @ cs"
proof (cases "ensure_user s user (conv_path (fm_dir s) user cid)")
  case (Inl e)
  then show ?thesis using assms by (simp add: get_conversation_def)
next
  case (Inr s1)
  with assms ensure_user_props(1) [OF Inr] show ?thesis
    by (auto simp: get_conversation_def Let_def split: option.splits if_splits)
qed

lemma fm_wf_get:
  assumes "get_conversation cd s user cid create = (r, s')" "fm_wf s"
  shows "fm_wf s' \<and> (\<forall>h. r = Inr h \<longrightarrow> fm_valid s' h)"
proof (cases "ensure_user s user (conv_path (fm_dir s) user cid)")
  case (Inl e)
  then show ?thesis using assms by (auto simp: get_conversation_def)
next
  case (Inr s1)
  have w: "fm_wf s1" using ensure_user_props(2) [OF Inr assms(2)] .
  obtain m where m: "fm_convs s1 user = Some m" using ensure_user_props(3) [OF Inr] by auto
  show ?thesis
  proof (cases "m cid")
    case None
    with m Inr w assms(1) show ?thesis
      by (auto simp: get_conversation_def fm_wf_def fm_valid_def Let_def split: if_splits)
        (metis less_SucI)+
  next
    case (Some h)
    with m Inr w assms(1) show ?thesis
      by (auto simp: get_conversation_def fm_wf_def)
  qed
qed

lemma select_window_at_summary:
  assumes "is_summary (Some m)"
  shows "select_window (ms @ [m]) count b mt = [m]"
proof -
  have "last_index_of (\<lambda>m. is_summary (Some m)) (ms @ [m]) = Some (length ms)"
    using assms by (induction ms) simp_all
  then show ?thesis by (simp add: select_window_def last_summary_index_def Let_def)
qed

interpretation file_store: conversation_store "fm_ops cd count" fm_wf fm_valid fm_full for cd count
proof (unfold_locales, goal_cases)
  case (1 s user cid create r s')
  then show ?case using fm_wf_get by (simp add: fm_ops_def)
next
  case (2 s user cid create r s' h')
  then have "get_conversation cd s user cid create = (r, s')" by (simp add: fm_ops_def)
  from get_conversation_heap [OF this] 2 show ?case
    by (auto simp: fm_valid_def fm_full_def nth_append)
next
  case (9 s h ms m b)
  then show ?case by (simp add: fm_ops_def fm_get_window_def select_window_at_summary)
qed (auto simp: fm_ops_def fm_wf_def fm_valid_def fm_append_def fm_append_summary_def fm_full_def Let_def)

section \<open>The lock of a turn\<close>

definition ends_turn :: "turn_op \<Rightarrow> bool" where
  "ends_turn o1 = (case o1 of OCondense \<Rightarrow> False | _ \<Rightarrow> True)"

lemma condense_held [simp]: "se_held (snd (condense ops cfg se t)) = se_held se"
  using condense_cases [of ops cfg se t] by auto

lemma run_released:
  assumes "tn_released t" "se_held se = ks"
  shows "se_held (fst (turn_run ops cfg os (se, t))) = ks"
  using assms
proof (induction os arbitrary: se t)
  case (Cons o1 os)
  obtain se' t' where st: "turn_step ops cfg o1 (se, t) = (se', t')" by fastforce
  have "tn_released t' \<and> se_held se' = ks"
    using Cons.prems st
    by (cases o1) (auto simp: commit_assistant_def discard_def release_def Let_def split: if_splits)
  with Cons.IH st show ?case by (simp add: turn_run_def)
qed (simp add: turn_run_def)

lemma run_locked:
  assumes "\<not> tn_released t" "\<not> tn_committed t" "se_held se = tn_key t # ks"
  shows "se_held (fst (turn_run ops cfg os (se, t)))
    = (if \<exists>o1 \<in> set os. ends_turn o1 then ks else tn_key t # ks)"
  using assms
proof (induction os arbitrary: se t)
  case (Cons o1 os)
  obtain se' t' where st: "turn_step ops cfg o1 (se, t) = (se', t')" by fastforce
  show ?case
  proof (cases "ends_turn o1")
    case True
    have "tn_released t' \<and> se_held se' = ks"
      using Cons.prems st True
      by (cases o1) (auto simp: ends_turn_def commit_assistant_def discard_def release_def
          unlock_key_def Let_def split: if_splits)
    from run_released [of t' se' ks ops cfg os] this st True show ?thesis
      by (simp add: turn_run_def)
  next
    case False
    then have "o1 = OCondense" by (cases o1) (simp_all add: ends_turn_def)
    then have "t' = t" "se_held se' = se_held se" using st by (auto dest: arg_cong [where f = "\<lambda>x. se_held (fst x)"])
    with Cons st False show ?thesis by (simp add: turn_run_def)
  qed
qed (simp add: turn_run_def)

section \<open>Properties\<close>


definition demo_session :: "file_memory session" where
  "demo_session = \<lparr>se_store = new_file_memory ''/m'' 0 0 free_disk, se_held = []\<rparr>"

definition demo_config :: session_config where
  "demo_config = \<lparr>sm_summarizer = Some (\<lambda>_ _. Some ''s''), sm_threshold = 1, sm_window_budget = 0,
     sm_count = default_token_counter\<rparr>"

lemma demo_wf: "fm_wf (se_store demo_session)"
  by (simp add: demo_session_def fm_wf_def new_file_memory_def)

lemma demo_begin:
  "\<exists>t se1. begin_turn (fm_ops content_codec count) demo_session ''u'' ''c'' p = Some (Inr t, se1)
     \<and> fm_full (se_store se1) (tn_conv t) = []"
proof -
  let ?s = "new_file_memory ''/m'' 0 0 free_disk"
  have f: "fm_convs ?s ''u'' = None" "\<not> io_fails (fm_disk ?s) q" "map_of (d_files (fm_disk ?s)) q = None" for q
    by (simp_all add: new_file_memory_def free_disk_def)
  obtain h s1 where "get_conversation content_codec ?s ''u'' ''c'' True = (Inr h, s1)"
    "fm_full s1 h = []"
    using get_conversation_new [OF f(1) refl f(2) f(2) f(3), where cid = "''c''" and cd = content_codec] by blast
  then show ?thesis
    by (simp add: begin_turn_def demo_session_def lock_key_def fm_ops_def Let_def)
qed


text \<open>A turn holds its session's lock from its begin to its first commit or discard, gives it back
  exactly once whatever is called after, and touches no other session's lock.\<close>

theorem turn_releases_lock:
  assumes "begin_turn ops se user cid msg = Some (Inr t, se1)"
    and "turn_run ops cfg os (se1, t) = (se2, t2)"
  shows "(user, cid) \<notin> set (se_held se)
    \<and> se_held se2 = (if OCondense \<in> set os \<and> set os \<subseteq> {OCondense} \<or> os = []
                     then (user, cid) # se_held se else se_held se)"
proof -
  have t: "\<not> tn_released t" "\<not> tn_committed t" "se_held se1 = tn_key t # se_held se"
    "tn_key t = (user, cid)" "(user, cid) \<notin> set (se_held se)"
    using assms(1) by (auto simp: begin_turn_def lock_key_def Let_def split: if_splits prod.splits sum.splits)
  have e: "ends_turn o1 \<longleftrightarrow> o1 \<noteq> OCondense" for o1 by (cases o1) (simp_all add: ends_turn_def)
  have "(\<exists>o1 \<in> set os. ends_turn o1) \<longleftrightarrow> \<not> (OCondense \<in> set os \<and> set os \<subseteq> {OCondense} \<or> os = [])"
    unfolding e by (cases os) auto
  with run_locked [OF t(1-3), of ops cfg os] assms(2) t(4,5) show ?thesis by simp
qed

theorem turn_releases_lock_witness:
  "let x = the (begin_turn (fm_ops content_codec default_token_counter) demo_session ''u'' ''c'' None);
       y = turn_run (fm_ops content_codec default_token_counter) demo_config
             [OCondense, ODiscard, OCommit None, ODiscard] (snd x, projr (fst x))
   in se_held (fst y) = []"
proof -
  let ?ops = "fm_ops content_codec default_token_counter"
  obtain t se1 where b: "begin_turn ?ops demo_session ''u'' ''c'' None = Some (Inr t, se1)"
    using demo_begin by blast
  obtain se2 t2 where r:
    "turn_run ?ops demo_config [OCondense, ODiscard, OCommit None, ODiscard] (se1, t) = (se2, t2)"
    by fastforce
  from turn_releases_lock [OF b r] b r show ?thesis by (simp add: demo_session_def)
qed

text \<open>When a turn condenses, the stored conversation grows by the summary alone, and the next
  window is that summary and the pending message, whatever the budget: the persisted history
  before it is no longer sent.\<close>

theorem condense_resets_window:
  assumes "fm_valid (se_store se) (tn_conv t)"
    and "condense (fm_ops cd count) cfg se t = (Inr True, se')"
  shows "\<exists>tx. fm_full (se_store se') (tn_conv t) = fm_full (se_store se) (tn_conv t) @ [new_summary_message tx]
    \<and> turn_window (fm_ops cd count) cfg se' t b
        = new_summary_message tx # (case tn_pending t of None \<Rightarrow> [] | Some u \<Rightarrow> [u])"
  by (rule file_store.window_after_condense [OF assms])

definition demo_turn :: "nat turn" where
  "demo_turn = \<lparr>tn_key = (''u'', ''c''), tn_conv = 0, tn_pending = Some (plain_message RUser ''q''),
     tn_released = False, tn_committed = False\<rparr>"

definition demo_store :: file_memory where
  "demo_store = \<lparr>fm_dir = ''/m'', fm_max_size = 0, fm_max_tokens = 0, fm_convs = Map.empty,
     fm_heap = [\<lparr>cv_user = ''u'', cv_id = ''c'', cv_messages = [plain_message RUser ''hello'',
       plain_message RAssistant ''hi''], cv_activities = [], cv_path = ''/m/u/c.jsonl'',
       cv_max_size = 0, cv_max_tokens = 0\<rparr>], fm_disk = free_disk\<rparr>"

theorem condense_resets_window_witness:
  "let se = \<lparr>se_store = demo_store, se_held = [(''u'', ''c'')]\<rparr>;
       ops = fm_ops content_codec default_token_counter
   in length (turn_window ops demo_config (snd (condense ops demo_config se demo_turn)) demo_turn 7) = 2"
proof -
  let ?se = "\<lparr>se_store = demo_store, se_held = [(''u'', ''c'')]\<rparr>"
  let ?ops = "fm_ops content_codec default_token_counter"
  have v: "fm_valid (se_store ?se) (tn_conv demo_turn)"
    by (simp add: fm_valid_def demo_store_def demo_turn_def)
  have "fst (condense ?ops demo_config ?se demo_turn) = Inr True"
    by (simp add: condense_def demo_config_def turn_window_def fm_ops_def fm_get_window_def fm_full_def
        demo_store_def demo_turn_def select_window_def last_summary_index_def plain_message_def
        is_summary_def has_bool_marker_def default_token_counter_def msg_chars_def Let_def)
  then obtain se' where c: "condense ?ops demo_config ?se demo_turn = (Inr True, se')"
    by (metis prod.collapse)
  from condense_resets_window [OF v c, of 7] c show ?thesis
    by (auto simp: Let_def demo_turn_def)
qed

text \<open>A commit after a discard still writes: the assistant's message is stored without its user
  message, at a moment when the turn no longer holds the session's lock.\<close>

theorem commit_after_discard_unlocked:
  assumes "fm_wf (se_store se)"
    and "begin_turn (fm_ops cd count) se user cid (Some u) = Some (Inr t, se1)"
    and "discard se1 t = (se2, t2)"
    and "commit_assistant (fm_ops cd count) se2 t2 (Some a) = (r, se3, t3)"
  shows "(user, cid) \<notin> set (se_held se2) \<and> r = Inr ()
    \<and> fm_full (se_store se3) (tn_conv t) = fm_full (se_store se1) (tn_conv t) @ [a]"
proof -
  note b = file_store.begin_turn_ok [OF assms(1,2)]
  have d: "se_store se2 = se_store se1" "tn_conv t2 = tn_conv t" "tn_pending t2 = None"
    "\<not> tn_committed t2" "se_held se2 = se_held se"
    using assms(3) b by (auto simp: discard_def release_def unlock_key_def split: if_splits)
  have "r = Inr ()" using assms(4) d by (simp add: commit_assistant_def)
  with d b file_store.commit_props(6) [of se2 t2 "(se3, t3)" cd count "Some a"] assms(4)
  show ?thesis by simp
qed

theorem commit_after_discard_unlocked_witness:
  "let a = plain_message RAssistant ''r''; ops = fm_ops content_codec default_token_counter;
       x = the (begin_turn ops demo_session ''u'' ''c'' (Some (plain_message RUser ''q'')));
       y = discard (snd x) (projr (fst x));
       z = snd (commit_assistant ops (fst y) (snd y) (Some a))
   in fm_full (se_store (fst z)) (tn_conv (projr (fst x))) = [a]"
proof -
  let ?u = "plain_message RUser ''q''" and ?a = "plain_message RAssistant ''r''"
  let ?ops = "fm_ops content_codec default_token_counter"
  obtain t se1 where b: "begin_turn ?ops demo_session ''u'' ''c'' (Some ?u) = Some (Inr t, se1)"
    "fm_full (se_store se1) (tn_conv t) = []" using demo_begin by blast
  obtain se2 t2 where d: "discard se1 t = (se2, t2)" by fastforce
  obtain r se3 t3 where c: "commit_assistant ?ops se2 t2 (Some ?a) = (r, se3, t3)" by (metis prod_cases3)
  from commit_after_discard_unlocked [OF demo_wf b(1) d c] b d c show ?thesis by (simp add: Let_def)
qed

end
