(* ===== verification/Runner.thy ===== *)
theory Runner
  imports Session
begin

text \<open>
  The bridge from an agent's event stream to the client and to the store,
  \<^verbatim>\<open>components/memory/runner\<close>. One goroutine filters the events into a pipe, another reads a copy
  of the pipe and commits or discards the turn.

  An event stream, a message stream and the pipe are the lists of what they deliver, up to their
  end of file. The reader of the pipe loads the shared flag \<open>incomplete\<close> after it has seen the end
  of the pipe, hence after the writer finished, or after an error, which sets it: so the value it
  loads does not depend on the schedule. \<open>schema.ConcatMessages\<close> is the parameter \<open>concat_msgs\<close>.
\<close>

section \<open>Predicates\<close>

type_synonym message_predicate = "string \<Rightarrow> role \<Rightarrow> bool"

definition agent_role :: "string \<Rightarrow> role \<Rightarrow> message_predicate" where
  "agent_role agent r = (\<lambda>name r'. name = agent \<and> r' = r)"

definition role_pred :: "role \<Rightarrow> message_predicate" where
  "role_pred r = (\<lambda>_ r'. r' = r)"

fun and_pred :: "message_predicate list \<Rightarrow> message_predicate" where
  "and_pred [] n r = True"
| "and_pred (p # ps) n r = (if \<not> p n r then False else and_pred ps n r)"

fun or_pred :: "message_predicate list \<Rightarrow> message_predicate" where
  "or_pred [] n r = False"
| "or_pred (p # ps) n r = (if p n r then True else or_pred ps n r)"

definition not_pred :: "message_predicate \<Rightarrow> message_predicate" where
  "not_pred p = (\<lambda>n r. \<not> p n r)"

lemma and_pred_iff: "and_pred ps n r \<longleftrightarrow> (\<forall>p \<in> set ps. p n r)" by (induction ps) auto
lemma or_pred_iff: "or_pred ps n r \<longleftrightarrow> (\<exists>p \<in> set ps. p n r)" by (induction ps) auto

section \<open>Streams\<close>

text \<open>One \<open>Recv\<close>: a chunk, possibly nil, or an error.\<close>

datatype item = Chunk msg_ptr | Fail string

record message_output =
  mo_role :: role
  mo_streaming :: bool
  mo_stream :: "item list option"
  mo_message :: msg_ptr

record agent_event =
  ev_agent :: string
  ev_err :: "string option"
  ev_output :: "message_output option"

record runner_config =
  rc_predicate :: "message_predicate option"
  rc_on_error :: "(string \<Rightarrow> msg_ptr) option"

definition runner_predicate :: "runner_config \<Rightarrow> message_predicate" where
  "runner_predicate cfg = (case rc_predicate cfg of None \<Rightarrow> role_pred RAssistant | Some p \<Rightarrow> p)"

text \<open>The items sent and whether the flag was set.\<close>

fun proxy_stream_items :: "item list \<Rightarrow> item list \<times> bool" where
  "proxy_stream_items [] = ([], False)"
| "proxy_stream_items (Fail e # _) = ([Fail e], True)"
| "proxy_stream_items (Chunk c # is) =
     (let (out, inc) = proxy_stream_items is in (Chunk c # out, inc))"

definition proxy_stream :: "item list option \<Rightarrow> item list \<times> bool" where
  "proxy_stream s = (case s of None \<Rightarrow> ([], False) | Some is \<Rightarrow> proxy_stream_items is)"

definition proxy_event :: "runner_config \<Rightarrow> agent_event option \<Rightarrow> item list \<times> bool" where
  "proxy_event cfg ev =
     (case ev of
        None \<Rightarrow> ([], False)
      | Some e \<Rightarrow>
          (case ev_err e of
             Some err \<Rightarrow>
               ((case rc_on_error cfg of
                   None \<Rightarrow> []
                 | Some f \<Rightarrow> (case f err of None \<Rightarrow> [] | Some notice \<Rightarrow> [Chunk (Some notice)]))
                @ [Fail err], True)
           | None \<Rightarrow>
               (case ev_output e of
                  None \<Rightarrow> ([], False)
                | Some mo \<Rightarrow>
                    if \<not> runner_predicate cfg (ev_agent e) (mo_role mo) then ([], False)
                    else if mo_streaming mo then proxy_stream (mo_stream mo)
                    else (case mo_message mo of None \<Rightarrow> ([], False)
                          | Some m \<Rightarrow> ([Chunk (Some m)], False)))))"

fun proxy :: "runner_config \<Rightarrow> agent_event option list \<Rightarrow> item list \<times> bool" where
  "proxy cfg [] = ([], False)"
| "proxy cfg (ev # evs) =
     (let (out, inc) = proxy_event cfg ev; (outs, incs) = proxy cfg evs in (out @ outs, inc \<or> incs))"

definition persistable :: "message \<Rightarrow> bool" where
  "persistable m \<longleftrightarrow> \<not> is_ephemeral (Some m) \<and> msg_tool_calls m = []"

text \<open>The reading loop: the accumulated chunks and whether it ended on an error.\<close>

fun collect :: "item list \<Rightarrow> message list \<Rightarrow> message list \<times> bool" where
  "collect [] acc = (acc, False)"
| "collect (Fail e # _) acc = (acc, True)"
| "collect (Chunk None # is) acc = collect is acc"
| "collect (Chunk (Some m) # is) acc =
     (if is_ephemeral (Some m) \<or> 0 < length (msg_tool_calls m) then collect is acc
      else collect is (acc @ [m]))"

definition persist ::
    "('s, 'h) store_ops \<Rightarrow> (message list \<Rightarrow> message option) \<Rightarrow> item list \<Rightarrow> bool
      \<Rightarrow> 's session \<times> 'h turn \<Rightarrow> 's session \<times> 'h turn" where
  "persist ops concat_msgs stream flag x =
     (let (se, t) = x; (full_msgs, failed) = collect stream [] in
      if full_msgs = [] then discard se t
      else case concat_msgs full_msgs of
        None \<Rightarrow> discard se t
      | Some m \<Rightarrow>
          snd (commit_assistant ops se t
                 (if flag \<or> failed then mark_incomplete (Some m) else Some m)))"

definition run_bridge ::
    "('s, 'h) store_ops \<Rightarrow> (message list \<Rightarrow> message option) \<Rightarrow> runner_config
      \<Rightarrow> agent_event option list \<Rightarrow> 's session \<times> 'h turn \<Rightarrow> item list \<times> 's session \<times> 'h turn" where
  "run_bridge ops concat_msgs cfg evs x =
     (let (out, flag) = proxy cfg evs in (out, persist ops concat_msgs out flag x))"

section \<open>What is streamed and what is kept\<close>

definition is_fail :: "item \<Rightarrow> bool" where
  "is_fail i = (case i of Fail _ \<Rightarrow> True | Chunk _ \<Rightarrow> False)"

definition chunk_list :: "item \<Rightarrow> message list" where
  "chunk_list i = (case i of Chunk (Some m) \<Rightarrow> [m] | _ \<Rightarrow> [])"

text \<open>The answer: the chunks before the first error that are neither notices nor tool calls.\<close>

definition answer_chunks :: "item list \<Rightarrow> message list" where
  "answer_chunks is = filter persistable (concat (map chunk_list (takeWhile (\<lambda>i. \<not> is_fail i) is)))"

lemma is_fail_simps [simp]: "is_fail (Fail e)" "\<not> is_fail (Chunk c)"
  by (simp_all add: is_fail_def)

lemma collect_eq: "collect is acc = (acc @ answer_chunks is, \<exists>i \<in> set is. is_fail i)"
  by (induction "is" acc rule: collect.induct)
    (auto simp: answer_chunks_def chunk_list_def persistable_def)

lemma proxy_stream_items_flag:
  "snd (proxy_stream_items is) \<longleftrightarrow> (\<exists>i \<in> set (fst (proxy_stream_items is)). is_fail i)"
  by (induction "is" rule: proxy_stream_items.induct) (auto split: prod.splits)

lemma proxy_event_flag:
  "snd (proxy_event cfg ev) \<longleftrightarrow> (\<exists>i \<in> set (fst (proxy_event cfg ev)). is_fail i)"
  by (auto simp: proxy_event_def proxy_stream_def proxy_stream_items_flag split: option.splits)

text \<open>The flag is set exactly when an error went down the pipe.\<close>

lemma proxy_flag: "snd (proxy cfg evs) \<longleftrightarrow> (\<exists>i \<in> set (fst (proxy cfg evs)). is_fail i)"
proof (induction evs)
  case (Cons ev evs)
  with proxy_event_flag [of cfg ev] show ?case by (auto split: prod.splits)
qed simp

lemma persist_op:
  "persist ops concat_msgs is flag (se, t) =
     (case (if answer_chunks is = [] then None else concat_msgs (answer_chunks is)) of
        None \<Rightarrow> discard se t
      | Some m \<Rightarrow> snd (commit_assistant ops se t
          (if flag \<or> (\<exists>i \<in> set is. is_fail i) then mark_incomplete (Some m) else Some m)))"
  by (auto simp: persist_def collect_eq split: option.splits)

lemma persist_step: "\<exists>o1. ends_turn o1 \<and> persist ops concat_msgs is flag (se, t) = turn_step ops cfg o1 (se, t)"
  unfolding persist_op
  by (cases "if answer_chunks is = [] then None else concat_msgs (answer_chunks is)")
    (simp_all only: option.case, metis ends_turn_def turn_op.case(3) turn_step.simps(3),
     metis ends_turn_def turn_op.case(2) turn_step.simps(2))

section \<open>Properties\<close>

text \<open>For a turn on the file store, the bridge persists exactly the answer. The stored
  conversation grows by the user's message and the concatenation of the chunks streamed before the
  first error that are neither ephemeral notices nor tool calls, marked incomplete exactly when
  the client was sent an error; with no such chunk, or when they do not concatenate, it does not
  grow at all, so no user message is left without an answer.\<close>

theorem bridge_persists_answer:
  assumes "fm_wf (se_store se)"
    and "begin_turn (fm_ops cd count) se user cid (Some u) = Some (Inr t, se1)"
    and "run_bridge (fm_ops cd count) concat_msgs cfg evs (se1, t) = (out, se2, t2)"
  shows "fm_full (se_store se2) (tn_conv t) = fm_full (se_store se1) (tn_conv t) @
    (case (if answer_chunks out = [] then None else concat_msgs (answer_chunks out)) of
       None \<Rightarrow> []
     | Some m \<Rightarrow> [u, if \<exists>i \<in> set out. is_fail i then the (mark_incomplete (Some m)) else m])"
proof -
  note b = file_store.begin_turn_ok [OF assms(1,2)]
  have p: "persist (fm_ops cd count) concat_msgs out (\<exists>i \<in> set out. is_fail i) (se1, t) = (se2, t2)"
    using assms(3) proxy_flag [of cfg evs] by (auto simp: run_bridge_def split: prod.splits)
  show ?thesis
  proof (cases "if answer_chunks out = [] then None else concat_msgs (answer_chunks out)")
    case None
    then have "discard se1 t = (se2, t2)" using p by (simp add: persist_op)
    then have "se_store se2 = se_store se1" using b by (auto simp: discard_def release_def unlock_key_def split: if_splits)
    with None show ?thesis by simp
  next
    case (Some m)
    let ?m = "if \<exists>i \<in> set out. is_fail i then the (mark_incomplete (Some m)) else m"
    have "(if \<exists>i \<in> set out. is_fail i then mark_incomplete (Some m) else Some m) = Some ?m"
      by (simp add: mark_incomplete_def set_bool_marker_def)
    then have "snd (commit_assistant (fm_ops cd count) se1 t (Some ?m)) = (se2, t2)"
      using p Some by (simp add: persist_op split: if_splits)
    with file_store.commit_props(6) [OF b(2,4) refl, of cd count "Some ?m"] Some b(3) show ?thesis
      by simp
  qed
qed

text \<open>C21: However the event stream ends, the bridge gives the session's lock back.\<close>

theorem bridge_releases_lock:
  assumes "begin_turn ops se user cid msg = Some (Inr t, se1)"
    and "run_bridge ops concat_msgs cfg evs (se1, t) = (out, se2, t2)"
  shows "se_held se2 = se_held se \<and> tn_released t2"
proof -
  obtain flag where f: "persist ops concat_msgs out flag (se1, t) = (se2, t2)"
    using assms(2) unfolding run_bridge_def by (cases "proxy cfg evs") auto
  obtain o1 where o1: "(se2, t2) = turn_run ops demo_config [o1] (se1, t)" "ends_turn o1"
    using persist_step [of ops concat_msgs out flag se1 t demo_config] f by (auto simp: turn_run_def)
  have t: "\<not> tn_released t" "\<not> tn_committed t" "se_held se1 = tn_key t # se_held se"
    using assms(1) by (auto simp: begin_turn_def lock_key_def Let_def split: if_splits prod.splits sum.splits)
  from run_locked [OF this, of ops demo_config "[o1]"] o1 have "se_held se2 = se_held se"
    by (metis fst_conv list.set_intros(1))
  moreover have "tn_released t2"
    using o1 t by (cases o1) (auto simp: turn_run_def ends_turn_def commit_assistant_def discard_def
        release_def Let_def split: if_splits)
  ultimately show ?thesis by simp
qed

text \<open>The client's stream carries what the events carry and no more: with no error event, no
  failing message stream and every message of the events accepted by the predicate, it is the
  concatenation of their messages; an event the predicate refuses contributes nothing, and an
  error event contributes its notice, when there is one, before the error.\<close>

lemma proxy_event_streams:
  "proxy cfg (evs1 @ Some e # evs2) =
     (fst (proxy cfg evs1) @ fst (proxy_event cfg (Some e)) @ fst (proxy cfg evs2),
      snd (proxy cfg evs1) \<or> snd (proxy_event cfg (Some e)) \<or> snd (proxy cfg evs2))
   \<and> (ev_err e \<noteq> None \<or> runner_predicate cfg (ev_agent e) (mo_role (the (ev_output e)))
      \<or> fst (proxy_event cfg (Some e)) = [])
   \<and> (ev_err e = None \<or> last (fst (proxy_event cfg (Some e))) = Fail (the (ev_err e)))"
proof -
  have "proxy cfg (as @ bs) = (fst (proxy cfg as) @ fst (proxy cfg bs), snd (proxy cfg as) \<or> snd (proxy cfg bs))" for as bs
    by (induction as) (auto split: prod.splits)
  moreover have "ev_err e \<noteq> None \<or> runner_predicate cfg (ev_agent e) (mo_role (the (ev_output e)))
      \<or> fst (proxy_event cfg (Some e)) = []"
    by (auto simp: proxy_event_def split: option.splits)
  moreover have "ev_err e = None \<or> last (fst (proxy_event cfg (Some e))) = Fail (the (ev_err e))"
    by (auto simp: proxy_event_def split: option.splits)
  ultimately show ?thesis by (auto split: prod.splits)
qed

definition demo_runner :: runner_config where
  "demo_runner = \<lparr>rc_predicate = None, rc_on_error = Some (\<lambda>_. Some (new_ephemeral_message RAssistant ''failed''))\<rparr>"

definition demo_events :: "agent_event option list" where
  "demo_events =
     [Some \<lparr>ev_agent = ''a'', ev_err = None, ev_output = Some \<lparr>mo_role = RAssistant, mo_streaming = False,
        mo_stream = None, mo_message = Some (plain_message RAssistant ''hi'')\<rparr>\<rparr>,
      None,
      Some \<lparr>ev_agent = ''a'', ev_err = Some ''boom'', ev_output = None\<rparr>]"

theorem bridge_persists_answer_witness:
  "let u = plain_message RUser ''q''; ops = fm_ops content_codec default_token_counter;
       x = the (begin_turn ops demo_session ''u'' ''c'' (Some u));
       y = run_bridge ops (\<lambda>ms. Some (last ms)) demo_runner demo_events (snd x, projr (fst x));
       ms = fm_full (se_store (fst (snd y))) (tn_conv (projr (fst x)))
   in ms = [u, the (mark_incomplete (Some (plain_message RAssistant ''hi'')))]"
proof -
  let ?u = "plain_message RUser ''q''"
  let ?ops = "fm_ops content_codec default_token_counter"
  obtain t se1 where b: "begin_turn ?ops demo_session ''u'' ''c'' (Some ?u) = Some (Inr t, se1)"
    "fm_full (se_store se1) (tn_conv t) = []" using demo_begin by blast
  obtain out se2 t2 where r: "run_bridge ?ops (\<lambda>ms. Some (last ms)) demo_runner demo_events (se1, t) = (out, se2, t2)"
    by (metis prod_cases3)
  have "fst (proxy demo_runner demo_events) =
    [Chunk (Some (plain_message RAssistant ''hi'')), Chunk (Some (new_ephemeral_message RAssistant ''failed'')), Fail ''boom'']"
    by (simp add: demo_runner_def demo_events_def proxy_event_def runner_predicate_def role_pred_def)
  then have o1: "out = [Chunk (Some (plain_message RAssistant ''hi'')), Chunk (Some (new_ephemeral_message RAssistant ''failed'')), Fail ''boom'']"
    using r by (auto simp: run_bridge_def split: prod.splits)
  have "\<not> is_ephemeral (Some (plain_message RAssistant ''hi''))" "msg_tool_calls (plain_message RAssistant ''hi'') = []"
    by (simp_all add: is_ephemeral_def has_bool_marker_def plain_message_def)
  then have a: "answer_chunks out = [plain_message RAssistant ''hi'']"
    by (simp add: o1 answer_chunks_def chunk_list_def persistable_def)
  from bridge_persists_answer [OF demo_wf b(1) r] b r a show ?thesis by (simp add: Let_def o1)
qed

theorem bridge_releases_lock_witness:
  "let ops = fm_ops content_codec default_token_counter;
       x = the (begin_turn ops demo_session ''u'' ''c'' None);
       y = run_bridge ops (\<lambda>_. None) demo_runner demo_events (snd x, projr (fst x))
   in se_held (fst (snd y)) = []"
proof -
  let ?ops = "fm_ops content_codec default_token_counter"
  obtain t se1 where b: "begin_turn ?ops demo_session ''u'' ''c'' None = Some (Inr t, se1)"
    using demo_begin by blast
  obtain out se2 t2 where r: "run_bridge ?ops (\<lambda>_. None) demo_runner demo_events (se1, t) = (out, se2, t2)"
    by (metis prod_cases3)
  from bridge_releases_lock [OF b r] b r show ?thesis by (simp add: Let_def demo_session_def)
qed

end
