(* ===== verification/GoRegex.thy ===== *)
theory GoRegex
  imports GoText
begin

text \<open>
  Regular expressions as Go's package \<^verbatim>\<open>regexp\<close> matches them, over the bytes of a line: the
  language of an expression and a matcher by derivatives that computes it. Only \<open>MatchString\<close> of
  expressions anchored at both ends is needed, so the leftmost-first rule plays no part.
\<close>

datatype re = RNone | REmpty | RCls "char \<Rightarrow> bool" | RSeq re re | RAlt re re | RStar re

inductive re_lang :: "re \<Rightarrow> string \<Rightarrow> bool" where
  lang_empty: "re_lang REmpty []"
| lang_cls: "p c \<Longrightarrow> re_lang (RCls p) [c]"
| lang_seq: "re_lang a x \<Longrightarrow> re_lang b y \<Longrightarrow> re_lang (RSeq a b) (x @ y)"
| lang_alt1: "re_lang a x \<Longrightarrow> re_lang (RAlt a b) x"
| lang_alt2: "re_lang b x \<Longrightarrow> re_lang (RAlt a b) x"
| lang_star0: "re_lang (RStar a) []"
| lang_star1: "re_lang a x \<Longrightarrow> re_lang (RStar a) y \<Longrightarrow> re_lang (RStar a) (x @ y)"

inductive_cases re_langE [elim!]:
  "re_lang RNone s" "re_lang REmpty s" "re_lang (RCls p) s" "re_lang (RSeq a b) s" "re_lang (RAlt a b) s"

fun nullable :: "re \<Rightarrow> bool" where
  "nullable RNone = False"
| "nullable REmpty = True"
| "nullable (RCls p) = False"
| "nullable (RSeq a b) = (nullable a \<and> nullable b)"
| "nullable (RAlt a b) = (nullable a \<or> nullable b)"
| "nullable (RStar a) = True"

text \<open>Constructors that drop dead branches, so that derivatives stay small.\<close>

fun mk_seq :: "re \<Rightarrow> re \<Rightarrow> re" where
  "mk_seq RNone b = RNone"
| "mk_seq REmpty b = b"
| "mk_seq a b = RSeq a b"

fun mk_alt :: "re \<Rightarrow> re \<Rightarrow> re" where
  "mk_alt RNone b = b"
| "mk_alt a RNone = a"
| "mk_alt a b = RAlt a b"

fun deriv :: "char \<Rightarrow> re \<Rightarrow> re" where
  "deriv c RNone = RNone"
| "deriv c REmpty = RNone"
| "deriv c (RCls p) = (if p c then REmpty else RNone)"
| "deriv c (RSeq a b) =
     (let ab = mk_seq (deriv c a) b in if nullable a then mk_alt ab (deriv c b) else ab)"
| "deriv c (RAlt a b) = mk_alt (deriv c a) (deriv c b)"
| "deriv c (RStar a) = mk_seq (deriv c a) (RStar a)"

fun matches :: "re \<Rightarrow> string \<Rightarrow> bool" where
  "matches r [] = nullable r"
| "matches r (c # s) = matches (deriv c r) s"

lemma nullable_iff: "nullable r \<longleftrightarrow> re_lang r []"
proof (induction r)
  case (RSeq a b)
  then show ?case by (auto intro: re_lang.lang_seq [of a "[]" b "[]", simplified])
qed (auto intro: re_lang.intros)

lemma mk_seq_lang: "re_lang (mk_seq a b) s \<longleftrightarrow> re_lang (RSeq a b) s"
proof (cases a)
  case REmpty
  then show ?thesis by (auto intro: lang_seq [OF lang_empty, simplified])
qed auto

lemma mk_alt_lang: "re_lang (mk_alt a b) s \<longleftrightarrow> re_lang (RAlt a b) s"
  by (cases "(a, b)" rule: mk_alt.cases) (auto intro: re_lang.intros)

lemma star_Cons:
  assumes "re_lang (RStar a) (c # s)"
  shows "\<exists>x y. s = x @ y \<and> re_lang a (c # x) \<and> re_lang (RStar a) y"
proof -
  have "\<exists>x y. tl t = x @ y \<and> re_lang a (hd t # x) \<and> re_lang (RStar a) y"
    if "re_lang r t" "r = RStar a" "t \<noteq> []" for r t
    using that
  proof (induction rule: re_lang.induct)
    case (lang_star1 a' x y)
    show ?case
    proof (cases x)
      case Nil
      with lang_star1 show ?thesis by simp
    next
      case (Cons d x')
      with lang_star1 show ?thesis by auto
    qed
  qed simp_all
  from this [OF assms refl] show ?thesis by simp
qed

lemma deriv_lang: "re_lang (deriv c r) s \<longleftrightarrow> re_lang r (c # s)"
proof (induction r arbitrary: s)
  case (RSeq a b)
  have seq: "re_lang (RSeq a b) (c # s) \<longleftrightarrow>
      (\<exists>x y. s = x @ y \<and> re_lang a (c # x) \<and> re_lang b y) \<or> re_lang a [] \<and> re_lang b (c # s)"
  proof
    assume "re_lang (RSeq a b) (c # s)"
    then obtain x y where "c # s = x @ y" "re_lang a x" "re_lang b y" by auto
    then show "(\<exists>x y. s = x @ y \<and> re_lang a (c # x) \<and> re_lang b y) \<or> re_lang a [] \<and> re_lang b (c # s)"
      by (cases x) auto
  next
    assume "(\<exists>x y. s = x @ y \<and> re_lang a (c # x) \<and> re_lang b y) \<or> re_lang a [] \<and> re_lang b (c # s)"
    then show "re_lang (RSeq a b) (c # s)"
      using lang_seq [of a _ b] by (metis append_Cons append_Nil)
  qed
  have ab: "re_lang (mk_seq (deriv c a) b) s \<longleftrightarrow> (\<exists>x y. s = x @ y \<and> re_lang a (c # x) \<and> re_lang b y)"
    unfolding mk_seq_lang using RSeq.IH(1) lang_seq [of "deriv c a" _ b] by (auto; blast)
  show ?case
  proof (cases "nullable a")
    case True
    then have "re_lang (deriv c (RSeq a b)) s \<longleftrightarrow>
      re_lang (mk_seq (deriv c a) b) s \<or> re_lang (deriv c b) s"
      by (auto simp: Let_def mk_alt_lang intro: lang_alt1 lang_alt2)
    with True ab seq RSeq.IH(2) show ?thesis by (simp add: nullable_iff)
  next
    case False
    with ab seq show ?thesis by (simp add: nullable_iff Let_def)
  qed
next
  case (RAlt a b)
  then show ?case by (auto simp: mk_alt_lang intro: re_lang.intros)
next
  case (RStar a)
  have "re_lang (deriv c (RStar a)) s \<longleftrightarrow> (\<exists>x y. s = x @ y \<and> re_lang a (c # x) \<and> re_lang (RStar a) y)"
    using RStar.IH lang_seq [of "deriv c a" _ "RStar a"] by (auto simp: mk_seq_lang; blast)
  also have "\<dots> \<longleftrightarrow> re_lang (RStar a) (c # s)"
    using star_Cons [of a c s] lang_star1 [of a "c # _" _] by auto
  finally show ?case .
qed (auto intro: re_lang.intros split: if_splits)

text \<open>The matcher decides the language.\<close>

lemma matches_lang: "matches r s \<longleftrightarrow> re_lang r s"
  by (induction s arbitrary: r) (simp_all add: nullable_iff deriv_lang)

section \<open>Derived expressions\<close>

fun re_seq :: "re list \<Rightarrow> re" where
  "re_seq [] = REmpty"
| "re_seq [r] = r"
| "re_seq (r # rs) = RSeq r (re_seq rs)"

fun re_alt :: "re list \<Rightarrow> re" where
  "re_alt [] = RNone"
| "re_alt [r] = r"
| "re_alt (r # rs) = RAlt r (re_alt rs)"

definition re_char :: "char \<Rightarrow> re" where "re_char c = RCls (\<lambda>x. x = c)"

definition re_opt :: "re \<Rightarrow> re" where "re_opt r = RAlt r REmpty"

definition re_plus :: "re \<Rightarrow> re" where "re_plus r = RSeq r (RStar r)"

definition re_any :: re where "re_any = RCls (\<lambda>c. c \<noteq> CHR 0x0A)"

definition re_digit :: re where "re_digit = RCls is_digit"

definition re_space :: re where
  "re_space = RCls (\<lambda>c. c \<in> {CHR 0x09, CHR 0x0A, CHR 0x0C, CHR 0x0D, CHR '' ''})"

definition is_word_char :: "char \<Rightarrow> bool" where
  "is_word_char c \<longleftrightarrow> (let n = (of_char c :: nat) in
     48 \<le> n \<and> n \<le> 57 \<or> 65 \<le> n \<and> n \<le> 90 \<or> 97 \<le> n \<and> n \<le> 122 \<or> n = 95)"

text \<open>A lower-case letter under \<open>(?i)\<close>. Unicode folds the long s and the Kelvin sign too.\<close>

definition re_fold :: "char \<Rightarrow> re" where
  "re_fold c =
     (let up = chr (of_char c - 32);
          r = RCls (\<lambda>x. x = c \<or> x = up)
      in if c = CHR ''s'' then RAlt r (RSeq (re_char (chr 0xC5)) (re_char (chr 0xBF)))
         else if c = CHR ''k'' then RAlt r (re_seq [re_char (chr 0xE2), re_char (chr 0x84), re_char (chr 0xAA)])
         else if c = CHR '' '' then re_char c
         else r)"

definition re_word :: "string \<Rightarrow> re" where
  "re_word w = re_seq (map re_fold w)"

end
