(* ===== verification/ContentStore.thy ===== *)
theory ContentStore
  imports Prelude
begin

text \<open>
  The content-addressed store of \<^verbatim>\<open>libs/contentcomp\<close>. The locale \<open>content_store\<close> is the contract of
  the interface \<open>Store\<close> as its clients use it; \<open>MemoryStore\<close> is the interpretation. SHA-256 is the
  parameter \<open>digest\<close>: nothing here depends on more than that it is a function.
\<close>

record ref =
  ref_key :: string
  ref_size :: nat

datatype store_error = NotFound string

type_synonym memory_store = "string \<Rightarrow> string option"

definition new_memory_store :: memory_store where
  "new_memory_store = Map.empty"

definition content_key :: "(string \<Rightarrow> string) \<Rightarrow> string \<Rightarrow> string" where
  "content_key digest content = ''sha256:'' @ digest content"

definition store_put :: "(string \<Rightarrow> string) \<Rightarrow> memory_store \<Rightarrow> string \<Rightarrow> ref \<times> memory_store" where
  "store_put digest s content =
     (let key = content_key digest content in
      (\<lparr>ref_key = key, ref_size = length content\<rparr>, s(key \<mapsto> content)))"

definition store_get :: "memory_store \<Rightarrow> ref \<Rightarrow> store_error + string" where
  "store_get s r = (case s (ref_key r) of None \<Rightarrow> Inl (NotFound (ref_key r)) | Some v \<Rightarrow> Inr v)"

locale content_store =
  fixes put :: "'s \<Rightarrow> string \<Rightarrow> ref \<times> 's"
    and get :: "'s \<Rightarrow> ref \<Rightarrow> store_error + string"
  assumes get_put: "put s x = (r, s') \<Longrightarrow> get s' r = Inr x"
    and get_keep: "put s y = (r', s') \<Longrightarrow> get s r = Inr x \<Longrightarrow> ref_key r' = ref_key r \<longrightarrow> y = x
      \<Longrightarrow> get s' r = Inr x"
    and put_same: "fst (put s x) = fst (put s' x)"
begin

fun put_all :: "'s \<Rightarrow> string list \<Rightarrow> ref list \<times> 's" where
  "put_all s [] = ([], s)"
| "put_all s (x # xs) =
     (let (r, s1) = put s x; (rs, s2) = put_all s1 xs in (r # rs, s2))"

lemma put_all_keeps:
  assumes "get s r = Inr x"
    and "\<forall>y \<in> set ys. ref_key (fst (put s0 y)) = ref_key r \<longrightarrow> y = x"
  shows "get (snd (put_all s ys)) r = Inr x"
  using assms
proof (induction ys arbitrary: s)
  case (Cons y ys)
  obtain r1 s1 where p: "put s y = (r1, s1)" by fastforce
  have "ref_key r1 = ref_key r \<longrightarrow> y = x" using Cons.prems(2) put_same [of s y s0] p by simp
  then have "get s1 r = Inr x" by (rule get_keep [OF p Cons.prems(1)])
  moreover have "snd (put_all s (y # ys)) = snd (put_all s1 ys)" by (simp add: p split: prod.splits)
  ultimately show ?case using Cons.IH [of s1] Cons.prems(2) by simp
qed simp

text \<open>Whatever is stored stays readable through its handle as long as no two different contents
  that are stored share a key.\<close>

lemma put_all_readable:
  assumes "x \<in> set xs"
    and "\<forall>y \<in> set xs. ref_key (fst (put s y)) = ref_key (fst (put s x)) \<longrightarrow> y = x"
  shows "get (snd (put_all s xs)) (fst (put s x)) = Inr x"
  using assms
proof (induction xs arbitrary: s)
  case (Cons y ys)
  obtain r1 s1 where p: "put s y = (r1, s1)" by fastforce
  have same: "fst (put s1 z) = fst (put s z)" for z by (rule put_same)
  have e: "snd (put_all s (y # ys)) = snd (put_all s1 ys)" by (simp add: p split: prod.splits)
  have hy: "\<forall>z \<in> set ys. ref_key (fst (put s z)) = ref_key (fst (put s x)) \<longrightarrow> z = x"
    using Cons.prems(2) by simp
  show ?case
  proof (cases "x \<in> set ys")
    case True
    from Cons.IH [OF True, of s1] hy show ?thesis unfolding e same by blast
  next
    case False
    with Cons.prems(1) have "y = x" by simp
    with p have "fst (put s x) = r1" "get s1 r1 = Inr x" using get_put by auto
    with put_all_keeps [of s1 r1 x ys s] hy show ?thesis unfolding e by simp
  qed
qed simp

end

interpretation memory_store: content_store "store_put digest" store_get for digest
  by unfold_locales (auto simp: store_put_def store_get_def Let_def)

text \<open>A handle returned by \<open>Put\<close> resolves to the stored bytes with their size, and keeps doing so
  after later stores, as long as no different content with the same digest is stored; storing the
  same content twice gives the same handle and leaves the store as it is.\<close>

theorem store_put_get:
  assumes "store_put digest s x = (r, s1)"
    and "store_put digest s1 y = (r', s2)"
    and "digest y = digest x \<longrightarrow> y = x"
  shows "store_get s1 r = Inr x \<and> ref_size r = length x \<and> store_get s2 r = Inr x
    \<and> store_get s2 r' = Inr y \<and> store_put digest s1 x = (r, s1)"
  using assms memory_store.get_put [OF assms(1)] memory_store.get_put [OF assms(2)]
    memory_store.get_keep [OF assms(2) memory_store.get_put [OF assms(1)]]
  by (auto simp: store_put_def content_key_def Let_def)

theorem store_put_get_witness:
  "store_get (snd (store_put id (snd (store_put id new_memory_store ''a'')) ''b''))
     (fst (store_put id new_memory_store ''a'')) = Inr ''a''"
proof -
  have "id ''b'' = id ''a'' \<longrightarrow> ''b'' = ''a''" by simp
  from store_put_get [OF prod.collapse [symmetric] prod.collapse [symmetric] this] show ?thesis by blast
qed

end
