(* ===== verification/ShellOut.thy ===== *)
theory ShellOut
  imports GoRegex ContentStore
begin

text \<open>
  The shell-output compressor, \<^verbatim>\<open>libs/contentcomp/shellout\<close>: four line transforms, the cheap
  pre-check, and \<open>Compress\<close> with its minimal gain and its store.
\<close>

section \<open>Transforms\<close>

definition nl :: char where "nl = CHR 0x0A"
definition cr :: char where "cr = CHR 0x0D"

definition by_lines :: "(string list \<Rightarrow> string list) \<Rightarrow> string \<Rightarrow> string" where
  "by_lines f s = join [nl] (f (split_char nl s))"

text \<open>Replacing the matches of \<open>.*\r\<close> by nothing leaves what follows the last carriage return.\<close>

definition after_last_cr :: "string \<Rightarrow> string" where
  "after_last_cr ln = (case last_index_byte cr ln of None \<Rightarrow> ln | Some i \<Rightarrow> drop (Suc i) ln)"

definition strip_carriage_progress :: "string \<Rightarrow> string" where
  "strip_carriage_progress s =
     (if cr \<notin> set s then s
      else by_lines (map (\<lambda>ln. if cr \<in> set ln then after_last_cr ln else ln)) s)"

definition re_progress_bar :: re where
  "re_progress_bar = re_seq
     [RStar re_space, RStar (RCls (\<lambda>c. c \<in> set ''[#=>.- '')), RStar re_space,
      re_digit, re_opt re_digit, re_opt re_digit,
      re_opt (RSeq (re_char CHR ''.'') (re_plus re_digit)), re_char CHR ''%'', RStar re_any]"

text \<open>Each word ends in a word character, so \<open>\b\<close> asks for another character that is none; the
  digits further on make sure there is one.\<close>

definition re_downloading :: re where
  "re_downloading = re_seq
     [RStar re_space,
      re_alt (map re_word [''downloading'', ''fetching'', ''receiving objects'', ''resolving deltas'',
                           ''compiling'', ''building'']),
      RCls (\<lambda>c. \<not> is_word_char c \<and> c \<noteq> nl), RStar re_any, re_plus re_digit, re_char CHR ''%'', RStar re_any]"

definition looks_like_data :: "string \<Rightarrow> bool" where
  "looks_like_data ln =
     (let trimmed = trim_space ln in
      CHR '':'' \<in> set trimmed \<and> \<not> (\<exists>c \<in> set trimmed. c \<in> set ''[=>#''))"

definition progress_line :: "string \<Rightarrow> bool" where
  "progress_line ln \<longleftrightarrow>
     matches re_downloading ln \<or> (matches re_progress_bar ln \<and> \<not> looks_like_data ln)"

definition drop_progress_bars :: "string \<Rightarrow> string" where
  "drop_progress_bars s = by_lines (filter (\<lambda>ln. \<not> progress_line ln)) s"

definition is_blank :: "string \<Rightarrow> bool" where
  "is_blank ln \<longleftrightarrow> trim_space ln = []"

fun collapse_blanks :: "bool \<Rightarrow> string list \<Rightarrow> string list" where
  "collapse_blanks blank [] = []"
| "collapse_blanks blank (ln # lns) =
     (if is_blank ln \<and> blank then collapse_blanks blank lns
      else ln # collapse_blanks (is_blank ln) lns)"

definition collapse_blank_runs :: "string \<Rightarrow> string" where
  "collapse_blank_runs s = by_lines (collapse_blanks False) s"

definition collapsed_marker :: "nat \<Rightarrow> string" where
  "collapsed_marker n = ''... ['' @ dec_of_nat n @ '' identical lines collapsed]''"

function collapse_repeats :: "string list \<Rightarrow> string list" where
  "collapse_repeats [] = []"
| "collapse_repeats (ln # lns) =
     (let run = Suc (length (takeWhile (\<lambda>x. x = ln) lns));
          rest = collapse_repeats (dropWhile (\<lambda>x. x = ln) lns)
      in if 3 \<le> run then ln # collapsed_marker (run - 1) # rest else replicate run ln @ rest)"
  by pat_completeness auto
termination by (relation "measure length") (auto simp: le_imp_less_Suc length_dropWhile_le)

definition collapse_repeated_lines :: "string \<Rightarrow> string" where
  "collapse_repeated_lines s = by_lines collapse_repeats s"

section \<open>Compress\<close>

fun repeats_3 :: "string list \<Rightarrow> nat \<Rightarrow> bool" where
  "repeats_3 (a # b # ls) run =
     (if b = a then (if 3 \<le> run + 1 then True else repeats_3 (b # ls) (run + 1))
      else repeats_3 (b # ls) 1)"
| "repeats_3 ls run = False"

definition may_compress :: "string \<Rightarrow> bool" where
  "may_compress s \<longleftrightarrow> cr \<in> set s \<or> sublist [nl, nl] s \<or> CHR ''%'' \<in> set s
     \<or> repeats_3 (split_char nl s) 1"

definition default_patterns :: "(string \<Rightarrow> string) list" where
  "default_patterns =
     [strip_carriage_progress, drop_progress_bars, collapse_blank_runs, collapse_repeated_lines]"

record 's shell_options =
  so_store :: "('s \<times> ('s \<Rightarrow> string \<Rightarrow> store_error + (ref \<times> 's))) option"
  so_patterns :: "(string \<Rightarrow> string) list"
  so_custom :: bool
  so_min_gain :: int

definition default_shell_options :: "'s shell_options" where
  "default_shell_options =
     \<lparr>so_store = None, so_patterns = default_patterns, so_custom = False, so_min_gain = 64\<rparr>"

text \<open>The result and the store afterwards; \<open>Inl\<close> when the store refuses.\<close>

definition shell_compress ::
    "'s shell_options \<Rightarrow> string \<Rightarrow> store_error + (string \<times> (ref \<times> 's) option)" where
  "shell_compress o1 content =
     (if int (length content) \<le> so_min_gain o1 \<or> (\<not> so_custom o1 \<and> \<not> may_compress content)
      then Inr (content, None)
      else let out = fold (\<lambda>p x. p x) (so_patterns o1) content in
        if int (length content) - int (length out) < so_min_gain o1 then Inr (content, None)
        else case so_store o1 of
          None \<Rightarrow> Inr (out, None)
        | Some (s, put) \<Rightarrow> bind_res (put s content) (\<lambda>(r, s'). Inr (out, Some (r, s'))))"

definition shell_compressor :: "'s shell_options \<Rightarrow> string \<Rightarrow> store_error + (string \<times> bool)" where
  "shell_compressor o1 content =
     bind_res (shell_compress o1 content) (\<lambda>(out, _). Inr (out, out \<noteq> content))"

section \<open>Lemmas on the transforms\<close>

lemma split_by_lines:
  assumes "f (split_char nl s) \<noteq> []" "\<And>ln. ln \<in> set (f (split_char nl s)) \<Longrightarrow> nl \<notin> set ln"
  shows "split_char nl (by_lines f s) = f (split_char nl s)"
  unfolding by_lines_def using assms by (intro split_char_join) auto

text \<open>A transform that keeps or drops lines, or rewrites a line into a part of it, is idempotent on
  text when it is on lists of lines.\<close>

lemma by_lines_idem:
  assumes "\<And>ls. f (f ls) = f ls" "f [[]] = [[]]"
    and "\<And>ls ln. ln \<in> set (f ls) \<Longrightarrow> \<exists>l \<in> set ls. set ln \<subseteq> set l"
  shows "by_lines f (by_lines f s) = by_lines f s"
proof (cases "f (split_char nl s) = []")
  case True
  then show ?thesis by (simp add: by_lines_def assms(2))
next
  case False
  have "nl \<notin> set ln" if "ln \<in> set (f (split_char nl s))" for ln
    using assms(3) [OF that] split_char_free by fastforce
  from split_by_lines [of f s, OF False this] assms(1) show ?thesis
    by (simp add: by_lines_def [of f "by_lines f s"]) (simp add: by_lines_def)
qed

lemma after_last_cr_free: "cr \<notin> set (after_last_cr ln)"
proof (cases "last_index_byte cr ln")
  case None
  then have "cr \<notin> set ln" by (auto simp: last_index_byte_def last_index_of_None)
  then show ?thesis by (simp add: after_last_cr_def None)
next
  case (Some i)
  then have "last_index_of (\<lambda>x. x = cr) ln = Some i" by (simp add: last_index_byte_def)
  from last_index_of_drop [OF this] Some show ?thesis by (auto simp: after_last_cr_def)
qed

lemma strip_carriage_free: "cr \<notin> set (strip_carriage_progress s)"
proof (cases "cr \<in> set s")
  case True
  let ?f = "\<lambda>ln. if cr \<in> set ln then after_last_cr ln else ln"
  have "cr \<notin> set (join [nl] (map ?f ls))" for ls
  proof -
    have "cr \<notin> set x" if "x \<in> set (map ?f ls)" for x using that after_last_cr_free by auto
    moreover have "cr \<notin> set [nl]" by (simp add: nl_def cr_def)
    ultimately show ?thesis using set_join_sub [of "[nl]" "map ?f ls"] by blast
  qed
  then show ?thesis using True by (simp add: strip_carriage_progress_def by_lines_def)
qed (simp add: strip_carriage_progress_def)

lemma collapse_blanks_idem: "collapse_blanks b (collapse_blanks b ls) = collapse_blanks b ls"
  by (induction ls arbitrary: b) auto

lemma collapse_blanks_sub: "set (collapse_blanks b ls) \<subseteq> set ls"
  by (induction ls arbitrary: b) auto

lemma progress_line_Nil: "\<not> progress_line []"
  by (simp add: progress_line_def re_downloading_def re_progress_bar_def re_plus_def re_opt_def
      re_char_def re_digit_def re_space_def)

section \<open>The marker of a collapsed run\<close>

definition parse_marker :: "string \<Rightarrow> nat option" where
  "parse_marker ln =
     (let a = ''... [''; z = '' identical lines collapsed]'';
          n = take (length ln - length a - length z) (drop (length a) ln)
      in if dec_value 0 n \<noteq> None \<and> n \<noteq> [] \<and> ln = a @ n @ z then dec_value 0 n else None)"

text \<open>What a reader makes of collapsed output.\<close>

fun expand_repeats :: "string list \<Rightarrow> string list" where
  "expand_repeats (a # b # ls) =
     (case parse_marker b of
        Some n \<Rightarrow> replicate (Suc n) a @ expand_repeats ls
      | None \<Rightarrow> a # expand_repeats (b # ls))"
| "expand_repeats ls = ls"

lemma parse_collapsed_marker [simp]: "parse_marker (collapsed_marker n) = Some n"
  by (simp add: parse_marker_def collapsed_marker_def dec_value_dec_of_nat Let_def)

lemma expand_plain:
  "parse_marker a = None \<Longrightarrow> (ls = [] \<or> parse_marker (hd ls) = None) \<Longrightarrow>
     expand_repeats (a # ls) = a # expand_repeats ls"
  by (cases ls) auto

lemma hd_collapse_repeats:
  "ls \<noteq> [] \<Longrightarrow> collapse_repeats ls \<noteq> [] \<and> hd (collapse_repeats ls) = hd ls"
  by (cases ls) (simp_all add: Let_def)

lemma takeWhile_eq_replicate:
  "takeWhile (\<lambda>x. x = a) ls = replicate (length (takeWhile (\<lambda>x. x = a) ls)) a"
  by (induction ls) auto

lemma expand_replicate:
  assumes "parse_marker a = None" "ls = [] \<or> parse_marker (hd ls) = None"
  shows "expand_repeats (replicate n a @ ls) = replicate n a @ expand_repeats ls"
proof (induction n)
  case (Suc n)
  have "replicate n a @ ls = [] \<or> parse_marker (hd (replicate n a @ ls)) = None"
    using assms by (cases n) auto
  with expand_plain [OF assms(1) this] Suc show ?case by simp
qed simp

lemma expand_collapse:
  "(\<And>ln. ln \<in> set ls \<Longrightarrow> parse_marker ln = None) \<Longrightarrow> expand_repeats (collapse_repeats ls) = ls"
proof (induction ls rule: collapse_repeats.induct)
  case (2 a ls)
  let ?tw = "takeWhile (\<lambda>x. x = a) ls" and ?dw = "dropWhile (\<lambda>x. x = a) ls"
  have ih: "expand_repeats (collapse_repeats ?dw) = ?dw"
    using 2 by (auto dest: set_dropWhileD)
  have pa: "parse_marker a = None" using "2.prems" by simp
  have hd: "collapse_repeats ?dw = [] \<or> parse_marker (hd (collapse_repeats ?dw)) = None"
  proof (cases "?dw = []")
    case False
    then have "hd ?dw \<in> set ls" by (meson hd_in_set set_dropWhileD)
    with hd_collapse_repeats [OF False] "2.prems" show ?thesis by simp
  next
    case True
    then show ?thesis by (metis collapse_repeats.simps(1))
  qed
  have all: "a # ls = replicate (Suc (length ?tw)) a @ ?dw"
    using takeWhile_dropWhile_id [of "\<lambda>x. x = a" ls] takeWhile_eq_replicate [of a ls]
    by (metis append_Cons replicate_Suc)
  show ?case
  proof (cases "3 \<le> Suc (length ?tw)")
    case True
    then have c: "collapse_repeats (a # ls) = a # collapsed_marker (length ?tw) # collapse_repeats ?dw"
      by (simp add: Let_def)
    have "expand_repeats (a # collapsed_marker (length ?tw) # collapse_repeats ?dw)
        = replicate (Suc (length ?tw)) a @ expand_repeats (collapse_repeats ?dw)"
      by (simp only: expand_repeats.simps parse_collapsed_marker option.case)
    then show ?thesis unfolding c ih by (simp only: all [symmetric])
  next
    case False
    then have "collapse_repeats (a # ls) = replicate (Suc (length ?tw)) a @ collapse_repeats ?dw"
      by (simp add: Let_def)
    with expand_replicate [OF pa hd, of "Suc (length ?tw)"] ih all show ?thesis by metis
  qed
qed simp

section \<open>Properties\<close>

text \<open>Three of the four transforms are idempotent, as the pattern table asks of each: keeping the
  last frame of carriage-return redraws, dropping progress lines, collapsing blank runs.\<close>

theorem transforms_idempotent:
  "strip_carriage_progress (strip_carriage_progress s) = strip_carriage_progress s
   \<and> drop_progress_bars (drop_progress_bars s) = drop_progress_bars s
   \<and> collapse_blank_runs (collapse_blank_runs s) = collapse_blank_runs s"
proof (intro conjI)
  show "strip_carriage_progress (strip_carriage_progress s) = strip_carriage_progress s"
    using strip_carriage_free [of s] by (simp add: strip_carriage_progress_def [of "strip_carriage_progress s"])
  show "drop_progress_bars (drop_progress_bars s) = drop_progress_bars s"
    unfolding drop_progress_bars_def
    by (rule by_lines_idem) (auto simp: progress_line_Nil)
  show "collapse_blank_runs (collapse_blank_runs s) = collapse_blank_runs s"
    unfolding collapse_blank_runs_def
  proof (rule by_lines_idem)
    fix ls ln assume "ln \<in> set (collapse_blanks False ls)"
    then show "\<exists>l \<in> set ls. set ln \<subseteq> set l" using collapse_blanks_sub by blast
  qed (simp_all add: collapse_blanks_idem)
qed

text \<open>The fourth transform is not idempotent: a run of three lines followed by two lines that
  look like its marker is collapsed further by a second application.\<close>

theorem repeated_lines_not_idempotent:
  "let s = by_lines (\<lambda>_. [''a'', ''a'', ''a'', collapsed_marker 2, collapsed_marker 2]) [];
       t = collapse_repeated_lines s
   in collapse_repeated_lines t \<noteq> t"
  by code_simp

text \<open>Collapsing repeated lines loses nothing: when no line of the text looks like a marker,
  reading every marker back as its run gives the original lines.\<close>

theorem collapse_repeats_reversible:
  assumes "\<And>ln. ln \<in> set (split_char nl s) \<Longrightarrow> parse_marker ln = None"
  shows "by_lines expand_repeats (collapse_repeated_lines s) = s"
proof -
  let ?ls = "split_char nl s"
  have nf: "nl \<notin> set ln" if m: "ln \<in> set (collapse_repeats ?ls)" for ln
  proof -
    have "ln \<in> set ls \<or> (\<exists>n. ln = collapsed_marker n)" if "ln \<in> set (collapse_repeats ls)" for ls
      using that
      by (induction ls rule: collapse_repeats.induct)
        (auto simp: Let_def split: if_splits dest: set_dropWhileD)
    from this [OF m] show ?thesis
    proof
      assume "ln \<in> set ?ls"
      then show ?thesis using split_char_free by fastforce
    next
      assume "\<exists>n. ln = collapsed_marker n"
      then show ?thesis
        by (auto simp: collapsed_marker_def nl_def is_digit_def dest!: dec_of_nat_digits)
    qed
  qed
  have "split_char nl (collapse_repeated_lines s) = collapse_repeats ?ls"
    unfolding collapse_repeated_lines_def
    by (rule split_by_lines [OF _ nf]) (simp_all add: hd_collapse_repeats)
  then show ?thesis
    by (simp add: by_lines_def expand_collapse assms join_split_char)
qed

theorem collapse_repeats_reversible_witness:
  "let s = join [nl] [''x'', ''x'', ''x'', ''y'']
   in collapse_repeated_lines s \<noteq> s \<and> by_lines expand_repeats (collapse_repeated_lines s) = s"
proof -
  let ?s = "join [nl] [''x'', ''x'', ''x'', ''y'']"
  have "split_char nl ?s = [''x'', ''x'', ''x'', ''y'']" by (simp add: nl_def)
  then have "by_lines expand_repeats (collapse_repeated_lines ?s) = ?s"
    by (intro collapse_repeats_reversible) (auto simp: parse_marker_def)
  moreover have "collapse_repeated_lines ?s \<noteq> ?s" by code_simp
  ultimately show ?thesis by (simp add: Let_def)
qed

text \<open>The pre-check can answer no on text the default transforms do change: two lines of
  different blanks are a blank run without a double newline.\<close>

theorem may_compress_misses:
  "let s = join [nl] ['' '', ''  '', ''x'']
   in \<not> may_compress s \<and> fold (\<lambda>p x. p x) default_patterns s \<noteq> s"
  by code_simp

text \<open>\<open>Compress\<close> either returns its input untouched and stores nothing, or returns a text smaller
  by the minimal gain; with a store behind it, the handle it returns resolves to the original.\<close>

theorem shell_compress_recoverable:
  assumes "shell_compress o1 content = Inr (out, kept)"
    and "so_store o1 = Some (s, \<lambda>s x. Inr (store_put digest s x))"
  shows "(out = content \<and> kept = None)
    \<or> (int (length out) + so_min_gain o1 \<le> int (length content)
       \<and> (\<exists>r s'. kept = Some (r, s') \<and> store_get s' r = Inr content))"
proof (cases "out = content \<and> kept = None")
  case False
  let ?out = "fold (\<lambda>p x. p x) (so_patterns o1) content"
  obtain r s' where p: "store_put digest s content = (r, s')" by fastforce
  have "out = ?out" "so_min_gain o1 \<le> int (length content) - int (length ?out)" "kept = Some (r, s')"
    using assms False p by (auto simp: shell_compress_def Let_def split: if_splits)
  with memory_store.get_put [OF p] show ?thesis by auto
qed simp

theorem shell_compress_recoverable_witness:
  "let o1 = \<lparr>so_store = Some (new_memory_store, \<lambda>s x. Inr (store_put id s x)), so_patterns = [collapse_blank_runs],
             so_custom = True, so_min_gain = 2\<rparr>;
       content = join [nl] [''a'', [], [], [], [], ''b'']
   in \<exists>out r s'. shell_compress o1 content = Inr (out, Some (r, s')) \<and> store_get s' r = Inr content
        \<and> length out + 2 \<le> length content"
proof -
  let ?o = "\<lparr>so_store = Some (new_memory_store, \<lambda>s x. Inr (store_put id s x)), so_patterns = [collapse_blank_runs],
             so_custom = True, so_min_gain = 2\<rparr>"
  let ?c = "join [nl] [''a'', [], [], [], [], ''b'']"
  have o1: "collapse_blank_runs ?c = join [nl] [''a'', [], ''b'']" by code_simp
  obtain r s' where p: "store_put id new_memory_store ?c = (r, s')" by fastforce
  have c: "shell_compress ?o ?c = Inr (join [nl] [''a'', [], ''b''], Some (r, s'))"
    using p o1 by (simp add: shell_compress_def Let_def)
  from shell_compress_recoverable [OF c, of new_memory_store id] c show ?thesis
    by (auto simp: Let_def)
qed

end
