(* ===== verification/JsonCrush.thy ===== *)
theory JsonCrush
  imports ContentStore "HOL-Library.AList" "HOL-Library.List_Lexorder" "HOL-Library.Char_ord"
begin

text \<open>
  The crush of JSON arrays of objects, \<^verbatim>\<open>libs/contentcomp/jsoncrush\<close>: pairs that every row shares
  are hoisted into defaults, and with a store, columns of distinct values are moved out of band.

  A Go map from keys to raw JSON is an association list in any order with distinct keys. The JSON
  library (\<^verbatim>\<open>goccy/go-json\<close>) is the record \<open>json\<close> of what the code calls: decoding the first value
  of a text as an array of objects, canonical re-encoding of a value, and encoding and decoding of
  the crushed object, of rows and of a column.
\<close>

section \<open>Data\<close>

type_synonym row = "(string \<times> string) list"

record crushed =
  cr_defaults :: row
  cr_rows :: "row list"
  cr_lossy :: "(string \<times> string) list"

record json =
  js_dec_array :: "string \<Rightarrow> row list option"
  js_canonical :: "string \<Rightarrow> string option"
  js_enc_crushed :: "crushed \<Rightarrow> string"
  js_dec_crushed :: "string \<Rightarrow> crushed option"
  js_enc_rows :: "row list \<Rightarrow> string"
  js_enc_values :: "string list \<Rightarrow> string"
  js_dec_values :: "string \<Rightarrow> string list option"

datatype crush_error = Canonicalize | StoreLossy | NeedsStore string | Unresolved string | DecodeColumn string

section \<open>Crush\<close>

text \<open>\<open>js_dec_array\<close> decodes as the streaming decoder does: the first value of the text; what follows
  it is not looked at. \<open>None\<close> stands for every reason not to be an array of objects.\<close>

definition parse_rows :: "json \<Rightarrow> string \<Rightarrow> row list option" where
  "parse_rows js content =
     (case js_dec_array js content of None \<Rightarrow> None
      | Some rows \<Rightarrow> if rows = [] then None else Some rows)"

fun canon_row :: "json \<Rightarrow> row \<Rightarrow> row option" where
  "canon_row js [] = Some []"
| "canon_row js ((k, v) # r) =
     (case js_canonical js v of None \<Rightarrow> None
      | Some cv \<Rightarrow> map_option ((#) (k, cv)) (canon_row js r))"

fun canon_rows :: "json \<Rightarrow> row list \<Rightarrow> row list option" where
  "canon_rows js [] = Some []"
| "canon_rows js (r # rs) =
     (case canon_row js r of None \<Rightarrow> None | Some c \<Rightarrow> map_option ((#) c) (canon_rows js rs))"

definition all_keys :: "row list \<Rightarrow> string list" where
  "all_keys rows = sort (remdups (concat (map (map fst) rows)))"

definition shared_value :: "row list \<Rightarrow> string \<Rightarrow> string option" where
  "shared_value rows k =
     (case map_of (hd rows) k of None \<Rightarrow> None
      | Some v \<Rightarrow> if list_all (\<lambda>r. map_of r k = Some v) (tl rows) then Some v else None)"

definition crush_defaults :: "row list \<Rightarrow> row" where
  "crush_defaults rows =
     concat (map (\<lambda>k. case shared_value rows k of None \<Rightarrow> [] | Some v \<Rightarrow> [(k, v)]) (all_keys rows))"

fun all_present_distinct :: "row list \<Rightarrow> string \<Rightarrow> string list \<Rightarrow> bool" where
  "all_present_distinct [] k seen = True"
| "all_present_distinct (r # rs) k seen =
     (case map_of r k of None \<Rightarrow> False
      | Some v \<Rightarrow> if v \<in> set seen then False else all_present_distinct rs k (v # seen))"

definition lossy_keys :: "row list \<Rightarrow> string list" where
  "lossy_keys rows =
     filter (\<lambda>k. map_of (crush_defaults rows) k = None \<and> all_present_distinct rows k []) (all_keys rows)"

definition column :: "json \<Rightarrow> row list \<Rightarrow> string \<Rightarrow> string" where
  "column js rows k = js_enc_values js (map (\<lambda>r. the (map_of r k)) rows)"

text \<open>The lossy stage puts the columns one after another; the store is an operation and its state.\<close>

fun offload :: "('s \<Rightarrow> string \<Rightarrow> store_error + (ref \<times> 's)) \<Rightarrow> json \<Rightarrow> row list \<Rightarrow> string list \<Rightarrow> 's
    \<Rightarrow> crush_error + ((string \<times> ref) list \<times> 's)" where
  "offload put js rows [] s = Inr ([], s)"
| "offload put js rows (k # ks) s =
     (case put s (column js rows k) of
        Inl _ \<Rightarrow> Inl StoreLossy
      | Inr (r, s1) \<Rightarrow>
          bind_res (offload put js rows ks s1) (\<lambda>(rs, s2). Inr ((k, r) # rs, s2)))"

definition deviations :: "row \<Rightarrow> string list \<Rightarrow> row \<Rightarrow> row" where
  "deviations defaults lossy r = filter (\<lambda>(k, v). map_of defaults k = None \<and> k \<notin> set lossy) r"

definition build_crushed :: "row list \<Rightarrow> (string \<times> ref) list \<Rightarrow> crushed" where
  "build_crushed rows lossy =
     \<lparr>cr_defaults = crush_defaults rows,
      cr_rows = map (deviations (crush_defaults rows) (map fst lossy)) rows,
      cr_lossy = map (\<lambda>(k, r). (k, ref_key r)) lossy\<rparr>"

definition crush ::
    "json \<Rightarrow> ('s \<Rightarrow> string \<Rightarrow> store_error + (ref \<times> 's)) option \<Rightarrow> 's \<Rightarrow> string
      \<Rightarrow> crush_error + (string \<times> ref list \<times> 's)" where
  "crush js store s content =
     (case parse_rows js content of
        None \<Rightarrow> Inr (content, [], s)
      | Some rows \<Rightarrow>
          (case canon_rows js rows of
             None \<Rightarrow> Inl Canonicalize
           | Some canon \<Rightarrow>
               bind_res (case store of None \<Rightarrow> Inr ([], s)
                         | Some put \<Rightarrow> offload put js canon (lossy_keys canon) s)
                 (\<lambda>(lossy, s1).
                    let encoded = js_enc_crushed js (build_crushed canon lossy) in
                    if length content \<le> length encoded \<and> lossy = [] then Inr (content, [], s1)
                    else Inr (encoded, map snd lossy, s1))))"

section \<open>Expand\<close>

fun resolve :: "('s \<Rightarrow> ref \<Rightarrow> store_error + string) option \<Rightarrow> json \<Rightarrow> 's \<Rightarrow> (string \<times> string) list
    \<Rightarrow> crush_error + (string \<times> string list) list" where
  "resolve get js s [] = Inr []"
| "resolve get js s ((k, key) # ls) =
     (case get of None \<Rightarrow> Inl (NeedsStore k)
      | Some g \<Rightarrow>
          (case g s \<lparr>ref_key = key, ref_size = 0\<rparr> of
             Inl _ \<Rightarrow> Inl (Unresolved k)
           | Inr data \<Rightarrow>
               (case js_dec_values js data of
                  None \<Rightarrow> Inl (DecodeColumn k)
                | Some vals \<Rightarrow> bind_res (resolve get js s ls) (\<lambda>rs. Inr ((k, vals) # rs)))))"

definition merge_row :: "row \<Rightarrow> (string \<times> string list) list \<Rightarrow> nat \<Rightarrow> row \<Rightarrow> row" where
  "merge_row defaults lossy i dev =
     fold (\<lambda>(k, vals) m. if i < length vals then AList.update k (vals ! i) m else m) lossy
       (AList.updates (map fst dev) (map snd dev) defaults)"

definition expand_rows :: "crushed \<Rightarrow> (string \<times> string list) list \<Rightarrow> row list" where
  "expand_rows c lossy =
     map (\<lambda>i. merge_row (cr_defaults c) lossy i (cr_rows c ! i)) [0..<length (cr_rows c)]"

definition expand_with_store ::
    "json \<Rightarrow> ('s \<Rightarrow> ref \<Rightarrow> store_error + string) option \<Rightarrow> 's \<Rightarrow> string \<Rightarrow> crush_error + string" where
  "expand_with_store js get s content =
     (case js_dec_crushed js content of
        None \<Rightarrow> Inr content
      | Some c \<Rightarrow> bind_res (resolve get js s (cr_lossy c))
          (\<lambda>lossy. Inr (js_enc_rows js (expand_rows c lossy))))"

definition is_crushed :: "json \<Rightarrow> string \<Rightarrow> bool" where
  "is_crushed js content \<longleftrightarrow> js_dec_crushed js content \<noteq> None"

definition crush_compressor ::
    "json \<Rightarrow> ('s \<Rightarrow> string \<Rightarrow> store_error + (ref \<times> 's)) option \<Rightarrow> 's \<Rightarrow> string
      \<Rightarrow> crush_error + (string \<times> bool \<times> 's)" where
  "crush_compressor js store s content =
     (if is_crushed js content then Inr (content, False, s)
      else bind_res (crush js store s content) (\<lambda>(out, _, s'). Inr (out, out \<noteq> content, s')))"

section \<open>Lemmas\<close>

text \<open>Two association lists that are the same map.\<close>

definition same_row :: "row \<Rightarrow> row \<Rightarrow> bool" where
  "same_row a b \<longleftrightarrow> map_of a = map_of b"

lemma map_of_defaults: "map_of (crush_defaults rows) k =
    (if k \<in> set (all_keys rows) then shared_value rows k else None)"
proof -
  have "map_of (concat (map (\<lambda>k. case f k of None \<Rightarrow> [] | Some v \<Rightarrow> [(k, v)]) ks)) k
      = (if k \<in> set ks then f k else None)" for f :: "string \<Rightarrow> string option" and ks
    by (induction ks) (auto split: option.splits)
  then show ?thesis by (simp add: crush_defaults_def)
qed

lemma default_in_rows:
  assumes "map_of (crush_defaults rows) k = Some v" "r \<in> set rows"
  shows "map_of r k = Some v"
  using assms by (cases rows) (auto simp: map_of_defaults shared_value_def list_all_iff
      split: option.splits if_splits)

lemma map_of_deviations:
  "map_of (deviations d ls r) k = (if map_of d k = None \<and> k \<notin> set ls then map_of r k else None)"
  by (induction r) (auto simp: deviations_def)

lemma distinct_deviations: "distinct (map fst r) \<Longrightarrow> distinct (map fst (deviations d ls r))"
  by (induction r) (auto simp: deviations_def)

lemma map_of_updates:
  "distinct (map fst dev) \<Longrightarrow>
     map_of (AList.updates (map fst dev) (map snd dev) d) k =
       (case map_of dev k of None \<Rightarrow> map_of d k | Some v \<Rightarrow> Some v)"
proof (induction dev arbitrary: d)
  case (Cons p dev)
  obtain k' v' where p: "p = (k', v')" by (cases p)
  with Cons show ?case
    by (auto simp: update_conv' split: option.splits dest: map_of_SomeD)
qed simp

lemma map_of_merge_lossy:
  assumes "distinct (map fst lossy)" "\<forall>p \<in> set lossy. i < length (snd p)"
  shows "map_of (fold (\<lambda>(k, vals) m. if i < length vals then AList.update k (vals ! i) m else m) lossy d) k
    = (case map_of lossy k of None \<Rightarrow> map_of d k | Some vs \<Rightarrow> Some (vs ! i))"
  using assms
proof (induction lossy arbitrary: d)
  case (Cons p lossy)
  obtain k' vs where p: "p = (k', vs)" by (cases p)
  have l: "i < length vs" "map_of lossy k' = None" using Cons.prems p by (auto simp: map_of_eq_None_iff)
  show ?case using Cons.IH [of "AList.update k' (vs ! i) d"] Cons.prems p l
    by (cases "k = k'") (simp_all add: update_conv' split: option.splits)
qed simp

lemma apd_present: "all_present_distinct rows k seen \<Longrightarrow> r \<in> set rows \<Longrightarrow> map_of r k \<noteq> None"
  by (induction rows k seen rule: all_present_distinct.induct) (auto split: option.splits if_splits)

lemma distinct_lossy_keys: "distinct (lossy_keys rows)"
  by (simp add: lossy_keys_def all_keys_def)

lemma lossy_present: "k \<in> set (lossy_keys rows) \<Longrightarrow> r \<in> set rows \<Longrightarrow> map_of r k \<noteq> None"
  using apd_present by (auto simp: lossy_keys_def)

text \<open>Every row comes back, as a map, from the crushed form and the values of its lossy columns.\<close>

lemma expand_build:
  assumes "\<And>r. r \<in> set rows \<Longrightarrow> distinct (map fst r)"
    and l: "map fst lossy = ks" "set ks \<subseteq> set (lossy_keys rows)" "distinct ks"
    and "vals = map (\<lambda>k. (k, map (\<lambda>r. the (map_of r k)) rows)) ks"
  shows "list_all2 same_row (expand_rows (build_crushed rows lossy) vals) rows"
proof -
  have "map_of (merge_row (crush_defaults rows) vals i (deviations (crush_defaults rows) ks (rows ! i))) k
      = map_of (rows ! i) k" if i: "i < length rows" for i k
  proof -
    let ?r = "rows ! i" and ?d = "crush_defaults rows"
    have r: "?r \<in> set rows" using i by simp
    have dv: "distinct (map fst vals)" "\<forall>p \<in> set vals. i < length (snd p)"
      using i l assms(5) by (auto simp: comp_def)
    have mv: "map_of vals k = (if k \<in> set ks then Some (map (\<lambda>r. the (map_of r k)) rows) else None)"
      unfolding assms(5) by (induction ks) auto
    have u: "map_of (AList.updates (map fst (deviations ?d ks ?r)) (map snd (deviations ?d ks ?r)) ?d) k
        = (if k \<in> set ks then map_of ?d k else map_of ?r k)"
      using map_of_updates [OF distinct_deviations [OF assms(1) [OF r]], of ?d ks ?d k] default_in_rows [OF _ r]
      by (auto simp: map_of_deviations split: option.splits)
    have m: "map_of (merge_row ?d vals i (deviations ?d ks ?r)) k
        = (if k \<in> set ks then Some (the (map_of ?r k)) else map_of ?r k)"
      unfolding merge_row_def map_of_merge_lossy [OF dv] mv by (simp add: u i)
    show ?thesis using m lossy_present [of k rows ?r] l(2) r by auto
  qed
  then show ?thesis
    by (auto simp: expand_rows_def build_crushed_def l list_all2_conv_all_nth same_row_def fun_eq_iff)
qed

section \<open>Offloading to a store\<close>

context content_store
begin

lemma offload_put_all:
  "offload (\<lambda>s x. Inr (put s x)) js rows ks s =
     (let (rs, s') = put_all s (map (column js rows) ks) in Inr (zip ks rs, s'))"
proof (induction ks arbitrary: s)
  case (Cons k ks)
  obtain r s1 where p: "put s (column js rows k) = (r, s1)" by fastforce
  show ?case by (simp add: p Cons.IH split: prod.splits)
qed simp

lemma put_all_fst: "fst (put_all s xs) = map (\<lambda>x. fst (put s0 x)) xs"
proof (induction xs arbitrary: s)
  case (Cons x xs)
  obtain r s1 where p: "put s x = (r, s1)" by fastforce
  have "r = fst (put s0 x)" using put_same [of s x s0] p by simp
  with Cons p show ?case by (simp split: prod.splits) (metis fst_conv)
qed simp

end

section \<open>Properties\<close>

text \<open>The library's part: an encoded crushed object decodes to itself, and so does a column.\<close>

definition json_ok :: "json \<Rightarrow> row list \<Rightarrow> (string \<times> ref) list \<Rightarrow> bool" where
  "json_ok js canon lossy \<longleftrightarrow>
     js_dec_crushed js (js_enc_crushed js (build_crushed canon lossy)) = Some (build_crushed canon lossy)
     \<and> (\<forall>k \<in> set (map fst lossy).
          js_dec_values js (column js canon k) = Some (map (\<lambda>r. the (map_of r k)) canon))"

definition distinct_keys :: "row list \<Rightarrow> bool" where
  "distinct_keys rows \<longleftrightarrow> (\<forall>r \<in> set rows. distinct (map fst r))"

lemma crush_None_cases:
  assumes "crush js None s content = Inr (out, refs, s')" "out \<noteq> content"
  obtains rows canon where "parse_rows js content = Some rows" "canon_rows js rows = Some canon"
    "out = js_enc_crushed js (build_crushed canon [])" "length out < length content" "refs = []" "s' = s"
  using assms by (auto simp: crush_def Let_def split: option.splits if_splits)

text \<open>Without a store the crush is lossless: whenever the output differs from the input it is
  shorter, and expanding it gives, row by row, the maps of canonical values of the array the input
  starts with.\<close>

theorem crush_lossless:
  assumes "crush js None s content = Inr (out, refs, s')" and "out \<noteq> content"
    and "parse_rows js content = Some rows" and "canon_rows js rows = Some canon"
    and "distinct_keys canon" and "json_ok js canon []"
  shows "length out < length content \<and> is_crushed js out
    \<and> (\<exists>rows'. expand_with_store js None s out = Inr (js_enc_rows js rows') \<and> list_all2 same_row rows' canon)"
proof -
  obtain rows1 canon1 where "parse_rows js content = Some rows1" "canon_rows js rows1 = Some canon1"
    "out = js_enc_crushed js (build_crushed canon1 [])" "length out < length content"
    using crush_None_cases [OF assms(1,2)] by metis
  with assms have out: "out = js_enc_crushed js (build_crushed canon [])" "length out < length content"
    by simp_all
  have d: "js_dec_crushed js out = Some (build_crushed canon [])" using assms(6) out by (simp add: json_ok_def)
  have "list_all2 same_row (expand_rows (build_crushed canon []) []) canon"
    by (rule expand_build [where ks = "[]"]) (use assms(5) in \<open>auto simp: distinct_keys_def\<close>)
  with d out(2) show ?thesis by (auto simp: expand_with_store_def is_crushed_def build_crushed_def)
qed

text \<open>C18: With a content-addressed store the crush stays reversible: the columns moved out of band
  are read back through their handles, as long as no two different columns have the same digest.\<close>

theorem crush_lossy_reversible:
  assumes "crush js (Some (\<lambda>s x. Inr (store_put digest s x))) s content = Inr (out, refs, s')"
    and "out \<noteq> content"
    and "parse_rows js content = Some rows" and "canon_rows js rows = Some canon"
    and "distinct_keys canon"
    and "json_ok js canon (map (\<lambda>k. (k, fst (store_put digest s (column js canon k)))) (lossy_keys canon))"
    and "inj_on digest (column js canon ` set (lossy_keys canon))"
  shows "\<exists>rows'. expand_with_store js (Some store_get) s' out = Inr (js_enc_rows js rows')
    \<and> list_all2 same_row rows' canon"
proof -
  let ?ks = "lossy_keys canon" and ?put = "store_put digest"
  let ?xs = "map (column js canon) ?ks"
  obtain rs s1 where pa: "memory_store.put_all digest s ?xs = (rs, s1)" by fastforce
  have rs: "rs = map (\<lambda>k. fst (?put s (column js canon k))) ?ks"
    using memory_store.put_all_fst [of digest s ?xs s] pa by simp
  let ?lossy = "zip ?ks rs"
  have ml: "map fst ?lossy = ?ks" by (simp add: rs)
  have of: "offload (\<lambda>s x. Inr (?put s x)) js canon ?ks s = Inr (?lossy, s1)"
    by (simp add: memory_store.offload_put_all pa)
  have out: "out = js_enc_crushed js (build_crushed canon ?lossy)" "s' = s1"
    using assms(1-4) of by (auto simp: crush_def Let_def split: if_splits)
  have "?lossy = map (\<lambda>k. (k, fst (?put s (column js canon k)))) ?ks"
    by (simp add: rs zip_map2 zip_same_conv_map)
  then have jok: "json_ok js canon ?lossy" using assms(6) by simp
  have key: "ref_key (fst (?put s x)) = content_key digest x" for x by (simp add: store_put_def Let_def)
  have get: "store_get s1 \<lparr>ref_key = content_key digest (column js canon k), ref_size = 0\<rparr> = Inr (column js canon k)"
    if "k \<in> set ?ks" for k
  proof -
    have "\<forall>y \<in> set ?xs. ref_key (fst (?put s y)) = ref_key (fst (?put s (column js canon k))) \<longrightarrow> y = column js canon k"
      using assms(7) that by (auto simp: key content_key_def inj_on_def)
    from memory_store.put_all_readable [OF _ this] that pa
    have "store_get s1 (fst (?put s (column js canon k))) = Inr (column js canon k)" by auto
    then show ?thesis by (auto simp: store_get_def key split: option.splits)
  qed
  let ?vals = "\<lambda>ks. map (\<lambda>k. (k, map (\<lambda>r. the (map_of r k)) canon)) ks"
  have res: "resolve (Some store_get) js s1 (map (\<lambda>k. (k, content_key digest (column js canon k))) ks) = Inr (?vals ks)"
    if "set ks \<subseteq> set ?ks" for ks
    using that
  proof (induction ks)
    case (Cons k ks)
    have "js_dec_values js (column js canon k) = Some (map (\<lambda>r. the (map_of r k)) canon)"
      using jok Cons.prems unfolding json_ok_def ml by auto
    with Cons get [of k] show ?case by simp
  qed simp
  have cl: "cr_lossy (build_crushed canon ?lossy) = map (\<lambda>k. (k, content_key digest (column js canon k))) ?ks"
    by (simp add: build_crushed_def rs zip_map2 zip_same_conv_map key)
  have "list_all2 same_row (expand_rows (build_crushed canon ?lossy) (?vals ?ks)) canon"
    by (rule expand_build [OF _ ml]) (use assms(5) distinct_lossy_keys in \<open>auto simp: distinct_keys_def\<close>)
  moreover have "expand_with_store js (Some store_get) s' out
      = Inr (js_enc_rows js (expand_rows (build_crushed canon ?lossy) (?vals ?ks)))"
    using jok res [OF subset_refl] by (simp add: expand_with_store_def out json_ok_def cl)
  ultimately show ?thesis by blast
qed

text \<open>What follows the array in the input is lost: the decoder reads the first value of the text
  and nothing checks that it was the whole text, so a crushed input with text behind its array
  gives the same output as the array alone.\<close>

theorem crush_drops_trailing_text:
  assumes "crush js None s content = Inr (out, refs, s')" and "out \<noteq> content"
    and "js_dec_array js (content @ rest) = js_dec_array js content"
  shows "crush js None s (content @ rest) = Inr (out, refs, s')"
  using assms by (auto simp: crush_def parse_rows_def Let_def split: option.splits if_splits)

text \<open>The compressor is idempotent: what it has changed it recognises and leaves alone.\<close>

theorem crush_compressor_idempotent:
  assumes "crush_compressor js None s content = Inr (out, changed, s')"
    and "\<And>rows canon. parse_rows js content = Some rows \<Longrightarrow> canon_rows js rows = Some canon \<Longrightarrow> json_ok js canon []"
  shows "crush_compressor js None s out = Inr (out, False, s)
    \<and> length out \<le> length content \<and> changed = (out \<noteq> content)"
proof (cases "out = content")
  case True
  with assms(1) show ?thesis
    by (auto simp: crush_compressor_def crush_def Let_def bind_res_Inr_iff split: if_splits option.splits)
next
  case False
  have nc: "\<not> is_crushed js content" using assms(1) False by (auto simp: crush_compressor_def split: if_splits)
  then obtain refs where c: "crush js None s content = Inr (out, refs, s')" "changed = (out \<noteq> content)"
    using assms(1) by (auto simp: crush_compressor_def bind_res_Inr_iff)
  from crush_None_cases [OF c(1) False] obtain rows canon where
    r: "parse_rows js content = Some rows" "canon_rows js rows = Some canon"
    "out = js_enc_crushed js (build_crushed canon [])" "length out < length content" by metis
  then have "is_crushed js out" using assms(2) [OF r(1,2)] by (simp add: json_ok_def is_crushed_def)
  with r(4) c(2) show ?thesis by (simp add: crush_compressor_def)
qed

section \<open>Witnesses\<close>

definition demo_rows :: "row list" where
  "demo_rows = [[(''a'', ''1''), (''b'', ''x'')], [(''a'', ''1''), (''b'', ''y'')]]"

text \<open>A JSON library that knows one array, its crushed forms and its column.\<close>

definition demo_json :: json where
  "demo_json = \<lparr>js_dec_array = (\<lambda>x. if x \<noteq> [] \<and> hd x = CHR ''['' then Some demo_rows else None),
     js_canonical = Some, js_enc_crushed = (\<lambda>c. if cr_lossy c = [] then ''C'' else ''L''),
     js_dec_crushed = (\<lambda>x. if x = ''C'' then Some (build_crushed demo_rows [])
       else if x = ''L'' then Some (build_crushed demo_rows [(''b'', \<lparr>ref_key = ''sha256:V'', ref_size = 1\<rparr>)]) else None),
     js_enc_rows = (\<lambda>rs. ''R''), js_enc_values = (\<lambda>_. ''V''), js_dec_values = (\<lambda>_. Some [''x'', ''y''])\<rparr>"

lemma demo_json_facts:
  "canon_rows demo_json demo_rows = Some demo_rows" "distinct_keys demo_rows"
  "json_ok demo_json demo_rows []" "lossy_keys demo_rows = [''b'']" "column demo_json demo_rows k = ''V''"
  by (simp_all add: demo_json_def demo_rows_def distinct_keys_def json_ok_def build_crushed_def column_def)
    code_simp

theorem crush_lossless_witness:
  "\<exists>rows'. expand_with_store demo_json None (0::nat) ''C'' = Inr (js_enc_rows demo_json rows')
     \<and> list_all2 same_row rows' demo_rows"
proof -
  have p: "parse_rows demo_json ''[12]'' = Some demo_rows"
    by (simp add: parse_rows_def demo_json_def) (simp add: demo_rows_def)
  then have "crush demo_json None (0::nat) ''[12]'' = Inr (''C'', [], 0)"
    by (simp add: crush_def demo_json_facts Let_def) (simp add: demo_json_def build_crushed_def)
  from crush_lossless [OF this _ p demo_json_facts(1,2,3)] show ?thesis by simp
qed

theorem crush_lossy_reversible_witness:
  "\<exists>rows' s'. expand_with_store demo_json (Some store_get) s' ''L'' = Inr (js_enc_rows demo_json rows')
     \<and> list_all2 same_row rows' demo_rows"
proof -
  have p: "parse_rows demo_json ''[12]'' = Some demo_rows"
    by (simp add: parse_rows_def demo_json_def) (simp add: demo_rows_def)
  obtain r s' where st: "store_put (\<lambda>x. x) new_memory_store ''V'' = (r, s')" by fastforce
  have rk: "ref_key r = ''sha256:V''" using st by (auto simp: store_put_def content_key_def Let_def)
  have c: "crush demo_json (Some (\<lambda>s x. Inr (store_put (\<lambda>x. x) s x))) new_memory_store ''[12]'' = Inr (''L'', [r], s')"
    using p st by (simp add: crush_def demo_json_facts Let_def) (simp add: demo_json_def build_crushed_def)
  have "json_ok demo_json demo_rows
      (map (\<lambda>k. (k, fst (store_put (\<lambda>x. x) new_memory_store (column demo_json demo_rows k)))) (lossy_keys demo_rows))"
    by (simp add: demo_json_facts store_put_def content_key_def Let_def json_ok_def)
      (simp add: demo_json_def build_crushed_def demo_rows_def)
  from crush_lossy_reversible [OF c _ p demo_json_facts(1,2) this] show ?thesis by auto
qed

theorem crush_drops_trailing_text_witness:
  "crush demo_json None (0::nat) ''[12] and more'' = Inr (''C'', [], 0)"
proof -
  have p: "parse_rows demo_json ''[12]'' = Some demo_rows"
    by (simp add: parse_rows_def demo_json_def) (simp add: demo_rows_def)
  then have c: "crush demo_json None (0::nat) ''[12]'' = Inr (''C'', [], 0)"
    by (simp add: crush_def demo_json_facts Let_def) (simp add: demo_json_def build_crushed_def)
  have "js_dec_array demo_json (''[12]'' @ '' and more'') = js_dec_array demo_json ''[12]''"
    by (simp add: demo_json_def)
  from crush_drops_trailing_text [OF c _ this] show ?thesis by simp
qed

theorem crush_compressor_idempotent_witness:
  "crush_compressor demo_json None (0::nat) ''C'' = Inr (''C'', False, 0)"
proof -
  have p: "parse_rows demo_json ''[12]'' = Some demo_rows"
    by (simp add: parse_rows_def demo_json_def) (simp add: demo_rows_def)
  then have c: "crush demo_json None (0::nat) ''[12]'' = Inr (''C'', [], 0)"
    by (simp add: crush_def demo_json_facts Let_def) (simp add: demo_json_def build_crushed_def)
  have "\<not> is_crushed demo_json ''[12]''" by (simp add: is_crushed_def demo_json_def)
  with c have "crush_compressor demo_json None (0::nat) ''[12]'' = Inr (''C'', True, 0)"
    by (simp add: crush_compressor_def)
  from conjunct1 [OF crush_compressor_idempotent [OF this]] p demo_json_facts show ?thesis by auto
qed

end
