(* ===== verification/ContextOpt.thy ===== *)
theory ContextOpt
  imports Messages StrUtil ContentStore GoRegex
begin

text \<open>
  The context-window optimizer, \<^verbatim>\<open>components/middleware/contextopt\<close>: defaults, trimming before the
  last summary, content compressors, pruning of stale tool outputs with an optional store, tail
  selection, summarization on overflow, the verbosity steer and the volatile-token check.

  A history is a list of message pointers. The token counter and the summarizer are parameters of
  the configuration. A compressor is a function from content to its rewrite and a changed flag,
  \<open>None\<close> for its error; what it stores by itself is not seen here. The pruning store is an operation
  on a state \<open>'s\<close>.
\<close>

section \<open>Configuration\<close>

type_synonym token_count = "msg_ptr list \<Rightarrow> int"

datatype opt_error = InvalidConfig | CompressorFailed | OffloadFailed | SummarizeError | RestoreFailed

record 's optimizer =
  oc_context_limit :: int
  oc_max_input_tokens :: int
  oc_reserved_tokens :: int
  oc_tail_turns :: int
  oc_preserve_recent :: int
  oc_prune_tool_outputs :: bool
  oc_prune_protect :: int
  oc_prune_minimum :: int
  oc_tool_output_max :: int
  oc_protected_tools :: "string list"
  oc_count :: token_count
  oc_summarizer :: "(msg_ptr list \<Rightarrow> string \<Rightarrow> string option) option"
  oc_put :: "('s \<Rightarrow> string \<Rightarrow> store_error + (ref \<times> 's)) option"
  oc_get :: "'s \<Rightarrow> ref \<Rightarrow> store_error + string"
  oc_compressors :: "(string \<Rightarrow> (string \<times> bool) option) list"
  oc_volatile_check :: bool
  oc_steer :: string

definition clamp :: "int \<Rightarrow> int \<Rightarrow> int \<Rightarrow> int" where
  "clamp v lo hi = max lo (min hi v)"

definition usable :: "'s optimizer \<Rightarrow> int" where
  "usable o1 =
     (let base = (if 0 < oc_max_input_tokens o1 then oc_max_input_tokens o1 else oc_context_limit o1)
      in if base \<le> 0 then 0 else max 0 (base - oc_reserved_tokens o1))"

definition or_default :: "int \<Rightarrow> int \<Rightarrow> int" where
  "or_default v d = (if v = 0 then d else v)"

text \<open>The \<open>gte=0\<close> rules of the configuration's tags; \<open>TailTurns\<close> has none.\<close>

definition config_valid :: "'s optimizer \<Rightarrow> bool" where
  "config_valid c \<longleftrightarrow> 0 \<le> oc_context_limit c \<and> 0 \<le> oc_max_input_tokens c \<and> 0 \<le> oc_reserved_tokens c
     \<and> 0 \<le> oc_preserve_recent c \<and> 0 \<le> oc_prune_protect c \<and> 0 \<le> oc_prune_minimum c
     \<and> 0 \<le> oc_tool_output_max c"

definition new_optimizer :: "'s optimizer \<Rightarrow> opt_error + 's optimizer" where
  "new_optimizer c0 =
     (if \<not> config_valid c0 then Inl InvalidConfig
      else let c = c0\<lparr>oc_reserved_tokens := or_default (oc_reserved_tokens c0) 20000,
                      oc_tail_turns := or_default (oc_tail_turns c0) 2,
                      oc_prune_protect := or_default (oc_prune_protect c0) 40000,
                      oc_prune_minimum := or_default (oc_prune_minimum c0) 20000,
                      oc_tool_output_max := or_default (oc_tool_output_max c0) 2000\<rparr>
        in Inr (c\<lparr>oc_preserve_recent :=
                  or_default (oc_preserve_recent c) (clamp (usable c div 4) 2000 8000)\<rparr>))"

definition is_overflow :: "'s optimizer \<Rightarrow> msg_ptr list \<Rightarrow> bool" where
  "is_overflow o1 msgs = (if usable o1 \<le> 0 then False else usable o1 \<le> oc_count o1 msgs)"

section \<open>Turns and the tail\<close>

record turn_range =
  tr_start :: nat
  tr_end :: nat

definition starts_turn :: "msg_ptr \<Rightarrow> bool" where
  "starts_turn p = (case p of None \<Rightarrow> False | Some m \<Rightarrow> msg_role m = RUser \<and> \<not> is_summary p)"

fun close_turns :: "nat \<Rightarrow> nat list \<Rightarrow> turn_range list" where
  "close_turns n [] = []"
| "close_turns n [i] = [\<lparr>tr_start = i, tr_end = n\<rparr>]"
| "close_turns n (i # j # is) = \<lparr>tr_start = i, tr_end = j\<rparr> # close_turns n (j # is)"

definition split_turns :: "msg_ptr list \<Rightarrow> turn_range list" where
  "split_turns msgs =
     close_turns (length msgs) (filter (\<lambda>i. starts_turn (msgs ! i)) [0..<length msgs])"

definition slice :: "'a list \<Rightarrow> nat \<Rightarrow> nat \<Rightarrow> 'a list" where
  "slice xs i j = take (j - i) (drop i xs)"

definition split_turn :: "'s optimizer \<Rightarrow> msg_ptr list \<Rightarrow> turn_range \<Rightarrow> int \<Rightarrow> nat option" where
  "split_turn o1 msgs t budget =
     (if budget \<le> 0 then None
      else if tr_end t - tr_start t \<le> 1 then None
      else List.find (\<lambda>start. oc_count o1 (slice msgs start (tr_end t)) \<le> budget)
             [tr_start t + 1..<tr_end t])"

text \<open>The loop over the recent turns, newest first: \<open>keep\<close> so far and the tokens kept.\<close>

fun keep_loop :: "'s optimizer \<Rightarrow> msg_ptr list \<Rightarrow> int \<Rightarrow> turn_range list \<Rightarrow> int \<Rightarrow> nat option \<Rightarrow> nat option" where
  "keep_loop o1 msgs budget [] tot keep = keep"
| "keep_loop o1 msgs budget (t # ts) tot keep =
     (let size = oc_count o1 (slice msgs (tr_start t) (tr_end t)) in
      if tot + size \<le> budget then keep_loop o1 msgs budget ts (tot + size) (Some (tr_start t))
      else case split_turn o1 msgs t (budget - tot) of Some i \<Rightarrow> Some i | None \<Rightarrow> keep)"

definition select_tail :: "'s optimizer \<Rightarrow> msg_ptr list \<Rightarrow> msg_ptr list \<times> nat" where
  "select_tail o1 msgs =
     (if oc_tail_turns o1 \<le> 0 then (msgs, length msgs)
      else
        let all = split_turns msgs in
        if all = [] then (msgs, length msgs)
        else
          let recent = (if oc_tail_turns o1 < int (length all)
                        then drop (nat (int (length all) - oc_tail_turns o1)) all else all)
          in case keep_loop o1 msgs (oc_preserve_recent o1) (rev recent) 0 None of
               None \<Rightarrow> (msgs, length msgs)
             | Some keep \<Rightarrow> if keep \<le> 0 then (msgs, length msgs) else (take keep msgs, keep))"

section \<open>Pruning of tool outputs\<close>

definition prune_marker_key :: string where "prune_marker_key = ''__eino_ext_contextopt_pruned''"
definition prune_ref_key :: string where "prune_ref_key = ''__eino_ext_contextopt_pruned_ref''"
definition compressed_marker_key :: string where
  "compressed_marker_key = ''__eino_ext_contextopt_compressed''"
definition steer_marker_key :: string where
  "steer_marker_key = ''__eino_ext_contextopt_verbosity_steer''"

definition truncate_tool_output :: "'s optimizer \<Rightarrow> string \<Rightarrow> string" where
  "truncate_tool_output o1 content =
     truncate_str content (oc_tool_output_max o1)
       ([CHR 0x0A, CHR 0x0A] @ ''[output pruned to save context]'')"

definition tool_names_by_call_id :: "msg_ptr list \<Rightarrow> string \<Rightarrow> string option" where
  "tool_names_by_call_id msgs =
     fold (\<lambda>p names. case p of None \<Rightarrow> names
       | Some m \<Rightarrow> fold (\<lambda>tc names. if tc_id tc \<noteq> [] then names(tc_id tc \<mapsto> tc_name tc) else names)
                    (msg_tool_calls m) names)
       msgs Map.empty"

definition is_pruned :: "msg_ptr \<Rightarrow> bool" where
  "is_pruned p = has_bool_marker p prune_marker_key"

definition is_compressed :: "msg_ptr \<Rightarrow> bool" where
  "is_compressed p = has_bool_marker p compressed_marker_key"

text \<open>A missing entry of the Go map reads as the empty name.\<close>

definition protected_tool :: "'s optimizer \<Rightarrow> (string \<Rightarrow> string option) \<Rightarrow> message \<Rightarrow> bool" where
  "protected_tool o1 names m \<longleftrightarrow>
     (case names (msg_tool_call_id m) of None \<Rightarrow> [] | Some n \<Rightarrow> n) \<in> set (oc_protected_tools o1)"

definition protect_recent_turns :: "'s optimizer \<Rightarrow> int" where
  "protect_recent_turns o1 = max (oc_tail_turns o1) 2"

record prune_state =
  ps_total :: int
  ps_pruned :: int
  ps_set :: "nat list"
  ps_turns :: int

text \<open>The loop from the newest message back; \<open>n\<close> messages are left, \<open>msgs ! (n - 1)\<close> is next.\<close>

fun prune_loop :: "'s optimizer \<Rightarrow> (string \<Rightarrow> string option) \<Rightarrow> msg_ptr list \<Rightarrow> nat \<Rightarrow> prune_state \<Rightarrow> prune_state" where
  "prune_loop o1 names msgs 0 st = st"
| "prune_loop o1 names msgs (Suc i) st =
     (case msgs ! i of
        None \<Rightarrow> prune_loop o1 names msgs i st
      | Some m \<Rightarrow>
          let st1 = (if msg_role m = RUser then st\<lparr>ps_turns := ps_turns st + 1\<rparr> else st) in
          if ps_turns st1 < protect_recent_turns o1 then prune_loop o1 names msgs i st1
          else if msg_role m = RAssistant \<and> is_summary (Some m) then st1
          else if msg_role m \<noteq> RTool then prune_loop o1 names msgs i st1
          else if protected_tool o1 names m then prune_loop o1 names msgs i st1
          else if is_pruned (Some m) then st1
          else
            let est = oc_count o1 [Some m]; st2 = st1\<lparr>ps_total := ps_total st1 + est\<rparr> in
            if ps_total st2 \<le> oc_prune_protect o1 then prune_loop o1 names msgs i st2
            else prune_loop o1 names msgs i
                   (st2\<lparr>ps_pruned := ps_pruned st2 + est, ps_set := i # ps_set st2\<rparr>))"

definition offload_text :: "ref \<Rightarrow> string" where
  "offload_text r = ''[output offloaded to backend: '' @ ref_key r @ '' ('' @ dec_of_nat (ref_size r) @ '' bytes)]''"

definition prune_message :: "'s optimizer \<Rightarrow> message \<Rightarrow> 's \<Rightarrow> opt_error + (message \<times> 's)" where
  "prune_message o1 m s =
     (case oc_put o1 of
        None \<Rightarrow>
          Inr (m\<lparr>msg_content := truncate_tool_output o1 (msg_content m),
                 msg_extra := (msg_extra m)(prune_marker_key \<mapsto> GBool True)\<rparr>, s)
      | Some put \<Rightarrow>
          (case put s (msg_content m) of
             Inl _ \<Rightarrow> Inl OffloadFailed
           | Inr (r, s1) \<Rightarrow>
               Inr (m\<lparr>msg_content := offload_text r,
                      msg_extra := (msg_extra m)(prune_ref_key \<mapsto> GStr (ref_key r),
                                                 prune_marker_key \<mapsto> GBool True)\<rparr>, s1)))"

text \<open>The loop over the chosen indices. Go ranges over a map, in any order: \<open>order\<close> is that order.\<close>

fun prune_all :: "'s optimizer \<Rightarrow> nat list \<Rightarrow> msg_ptr list \<Rightarrow> 's \<Rightarrow> opt_error + (msg_ptr list \<times> 's)" where
  "prune_all o1 [] out s = Inr (out, s)"
| "prune_all o1 (i # is) out s =
     bind_res (prune_message o1 (the (out ! i)) s)
       (\<lambda>(m, s1). prune_all o1 is (out[i := Some m]) s1)"

definition prune_result :: "'s optimizer \<Rightarrow> msg_ptr list \<Rightarrow> prune_state" where
  "prune_result o1 msgs =
     prune_loop o1 (tool_names_by_call_id msgs) msgs (length msgs)
       \<lparr>ps_total = 0, ps_pruned = 0, ps_set = [], ps_turns = 0\<rparr>"

definition prune_tool_outputs ::
    "(nat list \<Rightarrow> nat list) \<Rightarrow> 's optimizer \<Rightarrow> msg_ptr list \<Rightarrow> 's \<Rightarrow> opt_error + (msg_ptr list \<times> 's)" where
  "prune_tool_outputs order o1 msgs s =
     (let st = prune_result o1 msgs in
      if ps_pruned st \<le> oc_prune_minimum o1 \<or> ps_set st = [] then Inr (msgs, s)
      else prune_all o1 (order (ps_set st)) msgs s)"

definition restore_pruned :: "'s optimizer \<Rightarrow> 's \<Rightarrow> msg_ptr \<Rightarrow> opt_error + string" where
  "restore_pruned o1 s p =
     (case p of None \<Rightarrow> Inr []
      | Some m \<Rightarrow>
          if oc_put o1 = None then Inr (msg_content m)
          else case msg_extra m prune_ref_key of
            Some (GStr key) \<Rightarrow>
              if key = [] then Inr (msg_content m)
              else (case oc_get o1 s \<lparr>ref_key = key, ref_size = 0\<rparr> of
                      Inl _ \<Rightarrow> Inl RestoreFailed | Inr c \<Rightarrow> Inr c)
          | _ \<Rightarrow> Inr (msg_content m))"

section \<open>Content compressors\<close>

fun run_compressors :: "(string \<Rightarrow> (string \<times> bool) option) list \<Rightarrow> string \<Rightarrow> string option" where
  "run_compressors [] content = Some content"
| "run_compressors (c # cs) content =
     (case c content of None \<Rightarrow> None
      | Some (nxt, ch) \<Rightarrow> run_compressors cs (if ch then nxt else content))"

definition compressible :: "msg_ptr \<Rightarrow> bool" where
  "compressible p = (case p of None \<Rightarrow> False
     | Some m \<Rightarrow> msg_role m = RTool \<and> \<not> is_pruned p \<and> \<not> is_compressed p \<and> msg_content m \<noteq> [])"

fun compress_messages :: "(string \<Rightarrow> (string \<times> bool) option) list \<Rightarrow> msg_ptr list \<Rightarrow> opt_error + msg_ptr list" where
  "compress_messages cs [] = Inr []"
| "compress_messages cs (p # ps) =
     (if \<not> compressible p then bind_res (compress_messages cs ps) (\<lambda>out. Inr (p # out))
      else let m = the p in
        case run_compressors cs (msg_content m) of
          None \<Rightarrow> Inl CompressorFailed
        | Some content \<Rightarrow>
            bind_res (compress_messages cs ps)
              (\<lambda>out. Inr (Some (m\<lparr>msg_content := content,
                                  msg_extra := (msg_extra m)(compressed_marker_key \<mapsto> GBool True)\<rparr>) # out)))"

definition apply_content_compressors :: "'s optimizer \<Rightarrow> msg_ptr list \<Rightarrow> opt_error + msg_ptr list" where
  "apply_content_compressors o1 msgs =
     (if oc_compressors o1 = [] then Inr msgs else compress_messages (oc_compressors o1) msgs)"

section \<open>The pipeline\<close>

definition trim_before_last_summary :: "msg_ptr list \<Rightarrow> msg_ptr list" where
  "trim_before_last_summary msgs =
     (case last_index_of is_summary msgs of None \<Rightarrow> msgs | Some i \<Rightarrow> drop i msgs)"

definition last_summary_text :: "msg_ptr list \<Rightarrow> string" where
  "last_summary_text msgs =
     (case last_index_of is_summary msgs of None \<Rightarrow> [] | Some i \<Rightarrow> msg_content (the (msgs ! i)))"

fun steer_messages :: "string \<Rightarrow> msg_ptr list \<Rightarrow> msg_ptr list" where
  "steer_messages steer [] = []"
| "steer_messages steer (p # ps) =
     (case p of
        Some m \<Rightarrow>
          if msg_role m \<noteq> RSystem then p # steer_messages steer ps
          else if has_bool_marker p steer_marker_key then p # ps
          else Some (m\<lparr>msg_content := msg_content m @ [CHR 0x0A, CHR 0x0A] @ steer,
                       msg_extra := (msg_extra m)(steer_marker_key \<mapsto> GBool True)\<rparr>) # ps
      | None \<Rightarrow> p # steer_messages steer ps)"

definition apply_verbosity_steer :: "'s optimizer \<Rightarrow> msg_ptr list \<Rightarrow> msg_ptr list" where
  "apply_verbosity_steer o1 msgs =
     (let steer = trim_space (oc_steer o1) in if steer = [] then msgs else steer_messages steer msgs)"

definition optimize ::
    "(nat list \<Rightarrow> nat list) \<Rightarrow> 's optimizer \<Rightarrow> msg_ptr list \<Rightarrow> 's \<Rightarrow> opt_error + (msg_ptr list \<times> 's)" where
  "optimize order o1 msgs s =
     bind_res (apply_content_compressors o1 (trim_before_last_summary msgs)) (\<lambda>out1.
     bind_res (if oc_prune_tool_outputs o1 then prune_tool_outputs order o1 out1 s else Inr (out1, s)) (\<lambda>(out, s1).
       case oc_summarizer o1 of
         None \<Rightarrow> Inr (apply_verbosity_steer o1 out, s1)
       | Some summarize \<Rightarrow>
           if \<not> is_overflow o1 out then Inr (apply_verbosity_steer o1 out, s1)
           else
             let (head, tail_start) = select_tail o1 out in
             case summarize head (last_summary_text out) of
               None \<Rightarrow> Inl SummarizeError
             | Some txt \<Rightarrow>
                 Inr (apply_verbosity_steer o1 (Some (new_summary_message txt) # drop tail_start out), s1)))"

text \<open>The two surfaces: the middleware rewrites the state's messages, the model decorator passes the
  optimized input on.\<close>

definition before_model_rewrite ::
    "(nat list \<Rightarrow> nat list) \<Rightarrow> 's optimizer \<Rightarrow> msg_ptr list option \<Rightarrow> 's
      \<Rightarrow> opt_error option \<times> msg_ptr list option \<times> 's" where
  "before_model_rewrite order o1 state s =
     (case state of None \<Rightarrow> (None, None, s)
      | Some msgs \<Rightarrow>
          (case optimize order o1 msgs s of
             Inl e \<Rightarrow> (Some e, state, s)
           | Inr (out, s1) \<Rightarrow> (None, Some out, s1)))"

definition opt_generate ::
    "(nat list \<Rightarrow> nat list) \<Rightarrow> 's optimizer \<Rightarrow> (msg_ptr list \<Rightarrow> opt_error + 'r) \<Rightarrow> msg_ptr list \<Rightarrow> 's \<Rightarrow> opt_error + 'r" where
  "opt_generate order o1 base input s = bind_res (optimize order o1 input s) (\<lambda>(msgs, _). base msgs)"

section \<open>The volatile-token check\<close>

datatype volatile_kind = VTimestamp | VUUID | VIDField

record volatile_finding =
  vf_index :: nat
  vf_role :: role
  vf_kind :: volatile_kind
  vf_sample :: string

definition re_rep :: "nat \<Rightarrow> re \<Rightarrow> re list" where "re_rep n r = replicate n r"

definition re_dash :: re where "re_dash = re_char CHR ''-''"

definition re_hex :: re where
  "re_hex = RCls (\<lambda>c. is_digit c \<or> c \<in> set ''abcdefABCDEF'')"

definition re_iso8601 :: re where
  "re_iso8601 = re_seq (re_rep 4 re_digit @ [re_dash] @ re_rep 2 re_digit @ [re_dash] @ re_rep 2 re_digit
     @ [re_char CHR ''T''] @ re_rep 2 re_digit @ [re_char CHR '':''] @ re_rep 2 re_digit
     @ [re_char CHR '':''] @ re_rep 2 re_digit
     @ [re_opt (RSeq (re_char CHR ''.'') (re_plus re_digit)),
        RAlt (re_char CHR ''Z'')
          (re_seq ([RCls (\<lambda>c. c \<in> set ''+-'')] @ re_rep 2 re_digit @ [re_char CHR '':''] @ re_rep 2 re_digit))])"

definition re_uuid :: re where
  "re_uuid = re_seq (re_rep 8 re_hex @ [re_dash] @ re_rep 4 re_hex @ [re_dash, RCls (\<lambda>c. c \<in> set ''12345'')]
     @ re_rep 3 re_hex @ [re_dash, RCls (\<lambda>c. c \<in> set ''89abAB'')] @ re_rep 3 re_hex @ [re_dash] @ re_rep 12 re_hex)"

definition is_alnum :: "char \<Rightarrow> bool" where "is_alnum c \<longleftrightarrow> is_word_char c \<and> c \<noteq> CHR ''_''"

text \<open>\<open>"([A-Za-z0-9]+_id)"\<close>, a colon after blanks; the group ends at the second quote.\<close>

definition re_id_field :: re where
  "re_id_field = re_seq [re_char (chr 34), re_plus (RCls is_alnum), re_char CHR ''_'', re_char CHR ''i'',
     re_char CHR ''d'', re_char (chr 34), RStar re_space, re_char CHR '':'']"

text \<open>\<open>FindString\<close>: the first position where a match starts. At one position each of the three
  expressions matches at most one length, so the preference order of the engine plays no part.\<close>

definition match_at :: "re \<Rightarrow> string \<Rightarrow> string option" where
  "match_at r s = List.find (matches r) (map (\<lambda>j. take j s) [0..<Suc (length s)])"

fun find_string :: "re \<Rightarrow> string \<Rightarrow> string option" where
  "find_string r [] = match_at r []"
| "find_string r (c # s) = (case match_at r (c # s) of Some m \<Rightarrow> Some m | None \<Rightarrow> find_string r s)"

definition scan_content :: "string \<Rightarrow> (volatile_kind \<times> string) list" where
  "scan_content content =
     (case find_string re_iso8601 content of Some m \<Rightarrow> [(VTimestamp, m)] | None \<Rightarrow> [])
     @ (case find_string re_uuid content of Some m \<Rightarrow> [(VUUID, m)] | None \<Rightarrow> [])
     @ (case find_string re_id_field content of
          Some m \<Rightarrow> [(VIDField, takeWhile (\<lambda>c. c \<noteq> chr 34) (tl m))] | None \<Rightarrow> [])"

text \<open>The calls of the observer, in order.\<close>

fun volatile_loop :: "nat \<Rightarrow> nat \<Rightarrow> msg_ptr list \<Rightarrow> volatile_finding list" where
  "volatile_loop i scanned [] = []"
| "volatile_loop i scanned (None # ps) = volatile_loop (Suc i) scanned ps"
| "volatile_loop i scanned (Some m # ps) =
     (let is_prefix = (msg_role m = RSystem \<or> scanned < 3);
          scanned' = (if msg_role m \<noteq> RSystem then scanned + 1 else scanned)
      in if \<not> is_prefix then []
         else map (\<lambda>(k, sample). \<lparr>vf_index = i, vf_role = msg_role m, vf_kind = k, vf_sample = sample\<rparr>)
                (scan_content (msg_content m)) @ volatile_loop (Suc i) scanned' ps)"

definition run_volatile_check :: "'s optimizer \<Rightarrow> bool \<Rightarrow> msg_ptr list \<Rightarrow> volatile_finding list" where
  "run_volatile_check o1 has_observer msgs =
     (if \<not> oc_volatile_check o1 \<or> \<not> has_observer then [] else volatile_loop 0 0 msgs)"

section \<open>The model summarizer\<close>

record model_summarizer =
  ms_template :: string
  ms_tool_output_max :: int
  ms_generate :: "message \<Rightarrow> msg_ptr option"

definition newl :: string where "newl = [CHR 0x0A]"

definition quote1 :: string where "quote1 = ''Update the anchored summary below using the conversation history above.''"
definition quote2 :: string where
  "quote2 = ''Preserve still-true details, remove stale details, and merge in the new facts.''"
definition quote3 :: string where "quote3 = ''Create a new anchored summary from the conversation history above.''"

definition build_prompt :: "model_summarizer \<Rightarrow> string \<Rightarrow> string" where
  "build_prompt ms previous =
     (let anchor = (if trim_space previous \<noteq> []
            then join newl [quote1, quote2, ''<previous-summary>'', previous, ''</previous-summary>'']
            else quote3)
      in anchor @ newl @ newl @ ms_template ms)"

definition role_name :: "role \<Rightarrow> string" where
  "role_name r = (case r of RSystem \<Rightarrow> ''system'' | RUser \<Rightarrow> ''user'' | RAssistant \<Rightarrow> ''assistant''
     | RTool \<Rightarrow> ''tool'' | ROther s \<Rightarrow> s)"

fun render_history :: "model_summarizer \<Rightarrow> msg_ptr list \<Rightarrow> string" where
  "render_history ms [] = []"
| "render_history ms (None # ps) = render_history ms ps"
| "render_history ms (Some m # ps) =
     (let content = (if msg_role m = RTool
            then truncate_str (msg_content m) (ms_tool_output_max ms) (newl @ newl @ ''[output truncated]'')
            else msg_content m)
      in role_name (msg_role m) @ '': '' @ content @ newl
         @ concat (map (\<lambda>tc. role_name (msg_role m) @ '' -> tool_call '' @ tc_name tc @ ''('' @ tc_args tc @ '')'' @ newl)
                    (msg_tool_calls m))
         @ render_history ms ps)"

definition model_summarize :: "model_summarizer \<Rightarrow> msg_ptr list \<Rightarrow> string \<Rightarrow> string option" where
  "model_summarize ms history previous =
     (case ms_generate ms (plain_message RUser
              (render_history ms history @ newl @ newl @ build_prompt ms previous)) of
        None \<Rightarrow> None
      | Some None \<Rightarrow> None
      | Some (Some m) \<Rightarrow> Some (msg_content m))"

end
