(* ===== verification/ContextOpt_Props.thy ===== *)
theory ContextOpt_Props
  imports ContextOpt
begin

text \<open>
  The lemmas and properties of the optimizer: what pruning may touch, that it is idempotent and
  reversible, that the preserved tail fits its budget, and what summarization keeps and drops.
\<close>

section \<open>Which messages are pruned\<close>

definition is_user_msg :: "msg_ptr \<Rightarrow> bool" where
  "is_user_msg p = (case p of None \<Rightarrow> False | Some m \<Rightarrow> msg_role m = RUser)"

definition users_from :: "msg_ptr list \<Rightarrow> nat \<Rightarrow> int" where
  "users_from msgs i = int (length (filter is_user_msg (drop i msgs)))"

definition prunable :: "'s optimizer \<Rightarrow> msg_ptr list \<Rightarrow> (string \<Rightarrow> string option) \<Rightarrow> nat \<Rightarrow> bool" where
  "prunable o1 msgs names i \<longleftrightarrow>
     i < length msgs \<and> (\<exists>m. msgs ! i = Some m \<and> msg_role m = RTool \<and> \<not> protected_tool o1 names m
       \<and> \<not> is_pruned (Some m)) \<and> protect_recent_turns o1 \<le> users_from msgs i"

lemma users_from_step:
  "i < length msgs \<Longrightarrow> users_from msgs i = users_from msgs (Suc i) + (if is_user_msg (msgs ! i) then 1 else 0)"
  by (simp add: users_from_def drop_Suc_nth)

lemma prune_loop_sound:
  assumes "n \<le> length msgs" "ps_turns st = users_from msgs n"
    and "\<forall>j \<in> set (ps_set st). n \<le> j \<and> prunable o1 msgs names j" "distinct (ps_set st)"
  shows "(\<forall>j \<in> set (ps_set (prune_loop o1 names msgs n st)). prunable o1 msgs names j)
    \<and> distinct (ps_set (prune_loop o1 names msgs n st))"
  using assms
proof (induction n arbitrary: st)
  case (Suc i)
  have il: "i < length msgs" using Suc.prems(1) by simp
  have old: "\<forall>j \<in> set (ps_set st). i \<le> j \<and> prunable o1 msgs names j" "i \<notin> set (ps_set st)"
    using Suc.prems(3) by fastforce+
  show ?case
  proof (cases "msgs ! i")
    case None
    then have "ps_turns st = users_from msgs i"
      using Suc.prems(2) users_from_step [OF il] by (simp add: is_user_msg_def)
    with Suc.IH [of st] old None Suc.prems(4) il show ?thesis by simp
  next
    case (Some m)
    let ?st1 = "if msg_role m = RUser then st\<lparr>ps_turns := ps_turns st + 1\<rparr> else st"
    have t: "ps_turns ?st1 = users_from msgs i" "ps_set ?st1 = ps_set st"
      using Suc.prems(2) users_from_step [OF il] Some by (simp_all add: is_user_msg_def)
    have keep: ?thesis if "prune_loop o1 names msgs (Suc i) st = prune_loop o1 names msgs i st'"
      "ps_turns st' = users_from msgs i" "ps_set st' = ps_set st" for st'
      using Suc.IH [of st'] that old Suc.prems(4) il by simp
    have stop: ?thesis if "prune_loop o1 names msgs (Suc i) st = ?st1"
      using that t old Suc.prems(4) by simp
    let ?st2 = "?st1\<lparr>ps_total := ps_total ?st1 + oc_count o1 [Some m]\<rparr>"
    let ?st3 = "?st2\<lparr>ps_pruned := ps_pruned ?st2 + oc_count o1 [Some m], ps_set := i # ps_set ?st2\<rparr>"
    consider (young) "ps_turns ?st1 < protect_recent_turns o1"
      | (summary) "\<not> ps_turns ?st1 < protect_recent_turns o1" "msg_role m = RAssistant \<and> is_summary (Some m)"
      | (other) "\<not> ps_turns ?st1 < protect_recent_turns o1" "\<not> (msg_role m = RAssistant \<and> is_summary (Some m))"
          "msg_role m \<noteq> RTool \<or> protected_tool o1 names m"
      | (marked) "\<not> ps_turns ?st1 < protect_recent_turns o1" "msg_role m = RTool" "\<not> protected_tool o1 names m"
          "is_pruned (Some m)"
      | (under) "\<not> ps_turns ?st1 < protect_recent_turns o1" "msg_role m = RTool" "\<not> protected_tool o1 names m"
          "\<not> is_pruned (Some m)" "ps_total ?st2 \<le> oc_prune_protect o1"
      | (chosen) "\<not> ps_turns ?st1 < protect_recent_turns o1" "msg_role m = RTool" "\<not> protected_tool o1 names m"
          "\<not> is_pruned (Some m)" "\<not> ps_total ?st2 \<le> oc_prune_protect o1"
      by blast
    then show ?thesis
    proof cases
      case young
      then show ?thesis by (intro keep [of ?st1]) (use t Some in \<open>simp_all add: Let_def\<close>)
    next
      case summary
      then show ?thesis by (intro stop) (use Some in \<open>simp add: Let_def\<close>)
    next
      case other
      then show ?thesis by (intro keep [of ?st1]) (use t Some in \<open>auto simp: Let_def\<close>)
    next
      case marked
      then show ?thesis by (intro stop) (use Some in \<open>simp add: Let_def\<close>)
    next
      case under
      then show ?thesis by (intro keep [of ?st2]) (use t Some in \<open>simp_all add: Let_def\<close>)
    next
      case chosen
      have p: "prunable o1 msgs names i" using chosen Some il t by (simp add: prunable_def)
      have e: "prune_loop o1 names msgs (Suc i) st = prune_loop o1 names msgs i ?st3"
        using chosen Some by (simp add: Let_def)
      have "\<forall>j \<in> set (ps_set ?st3). i \<le> j \<and> prunable o1 msgs names j" "distinct (ps_set ?st3)"
        "ps_turns ?st3 = users_from msgs i"
        using p old Suc.prems(4) t by simp_all
      then show ?thesis unfolding e using Suc.IH [of ?st3] il by simp
    qed
  qed
qed simp

lemma prune_result_sound:
  "(\<forall>j \<in> set (ps_set (prune_result o1 msgs)). prunable o1 msgs (tool_names_by_call_id msgs) j)
   \<and> distinct (ps_set (prune_result o1 msgs))"
  unfolding prune_result_def by (rule prune_loop_sound) (simp_all add: users_from_def)

text \<open>A second run stops at the newest message the first run has pruned.\<close>

lemma prune_loop_second:
  assumes "ps_set st = []" "ps_set (prune_loop o1 names msgs n st) \<noteq> []"
  shows "\<exists>i < n. i \<in> set (ps_set (prune_loop o1 names msgs n st))
    \<and> (\<forall>j \<in> set (ps_set (prune_loop o1 names msgs n st)). j \<le> i)
    \<and> (\<forall>msgs' m'. (\<forall>j. i < j \<and> j < n \<longrightarrow> msgs' ! j = msgs ! j) \<longrightarrow> msgs' ! i = Some m' \<longrightarrow>
         msg_role m' = RTool \<longrightarrow> \<not> protected_tool o1 names m' \<longrightarrow> is_pruned (Some m') \<longrightarrow>
         ps_set (prune_loop o1 names msgs' n st) = [])"
  using assms
proof (induction n arbitrary: st)
  case (Suc i)
  have bound: "\<forall>j \<in> set (ps_set (prune_loop o1 names msgs n st)). j < n \<or> j \<in> set (ps_set st)" for n st
  proof (induction n arbitrary: st)
    case (Suc n)
    show ?case
      using Suc.IH less_Suc_eq
      by (auto simp: Let_def split: option.splits) (fastforce split: if_splits)+
  qed simp
  have step: ?case
    if e: "\<And>msgs'. msgs' ! i = msgs ! i \<Longrightarrow> prune_loop o1 names msgs' (Suc i) st = prune_loop o1 names msgs' i st'"
      and s: "ps_set st' = []" for st'
  proof -
    have e0: "prune_loop o1 names msgs (Suc i) st = prune_loop o1 names msgs i st'" by (rule e) simp
    from Suc.IH [OF s] Suc.prems(2) e0 obtain k where k: "k < i"
      "k \<in> set (ps_set (prune_loop o1 names msgs i st'))"
      "\<forall>j \<in> set (ps_set (prune_loop o1 names msgs i st')). j \<le> k"
      "\<forall>msgs' m'. (\<forall>j. k < j \<and> j < i \<longrightarrow> msgs' ! j = msgs ! j) \<longrightarrow> msgs' ! k = Some m' \<longrightarrow>
         msg_role m' = RTool \<longrightarrow> \<not> protected_tool o1 names m' \<longrightarrow> is_pruned (Some m') \<longrightarrow>
         ps_set (prune_loop o1 names msgs' i st') = []"
      by auto
    have "ps_set (prune_loop o1 names msgs' (Suc i) st) = []"
      if "\<forall>j. k < j \<and> j < Suc i \<longrightarrow> msgs' ! j = msgs ! j" "msgs' ! k = Some m'" "msg_role m' = RTool"
        "\<not> protected_tool o1 names m'" "is_pruned (Some m')" for msgs' m'
    proof -
      have "msgs' ! i = msgs ! i" using that(1) k(1) by simp
      moreover have "\<forall>j. k < j \<and> j < i \<longrightarrow> msgs' ! j = msgs ! j" using that(1) by simp
      ultimately show ?thesis using e k(4) that by metis
    qed
    with k show ?thesis unfolding e0 using less_SucI by blast
  qed
  show ?case
  proof (cases "msgs ! i")
    case None
    then show ?thesis by (intro step [of st]) (use Suc.prems in simp_all)
  next
    case (Some m)
    let ?st1 = "if msg_role m = RUser then st\<lparr>ps_turns := ps_turns st + 1\<rparr> else st"
    let ?st2 = "?st1\<lparr>ps_total := ps_total ?st1 + oc_count o1 [Some m]\<rparr>"
    let ?st3 = "?st2\<lparr>ps_pruned := ps_pruned ?st2 + oc_count o1 [Some m], ps_set := i # ps_set ?st2\<rparr>"
    have s1: "ps_set ?st1 = []" using Suc.prems(1) by simp
    let ?Y = "ps_turns ?st1 < protect_recent_turns o1"
    let ?S = "msg_role m = RAssistant \<and> is_summary (Some m)"
    let ?P = "protected_tool o1 names m"
    let ?U = "ps_total ?st2 \<le> oc_prune_protect o1"
    have stop: "\<not> (\<not> ?Y \<and> (?S \<or> msg_role m = RTool \<and> \<not> ?P \<and> is_pruned (Some m)))"
    proof
      assume "\<not> ?Y \<and> (?S \<or> msg_role m = RTool \<and> \<not> ?P \<and> is_pruned (Some m))"
      then have "prune_loop o1 names msgs (Suc i) st = ?st1" using Some by (auto simp: Let_def)
      with Suc.prems(2) s1 show False by metis
    qed
    show ?thesis
    proof (cases "?Y \<or> msg_role m \<noteq> RTool \<or> ?P")
      case True
      show ?thesis
        by (rule step [of ?st1, OF _ s1]) (use True stop Some in \<open>auto simp: Let_def\<close>)
    next
      case False
      show ?thesis
      proof (cases ?U)
        case True
        show ?thesis
          by (rule step [of ?st2]) (use True False stop Some s1 in \<open>auto simp: Let_def\<close>)
      next
        case nU: False
        have e: "prune_loop o1 names msgs (Suc i) st = prune_loop o1 names msgs i ?st3"
          using nU False stop Some by (auto simp: Let_def)
        have grow: "set (ps_set st) \<subseteq> set (ps_set (prune_loop o1 names msgs n st))" for n st
        proof (induction n arbitrary: st)
          case (Suc n)
          show ?case
            using Suc.IH by (auto simp: Let_def split: option.splits) (fastforce split: if_splits)+
        qed simp
        have "i \<in> set (ps_set (prune_loop o1 names msgs i ?st3))" using grow [of ?st3 i] by auto
        moreover have "\<forall>j \<in> set (ps_set (prune_loop o1 names msgs i ?st3)). j \<le> i"
        proof
          fix j assume "j \<in> set (ps_set (prune_loop o1 names msgs i ?st3))"
          with bound [of i ?st3] have "j < i \<or> j \<in> set (ps_set ?st3)" by blast
          with s1 show "j \<le> i" by auto
        qed
        moreover have "ps_set (prune_loop o1 names msgs' (Suc i) st) = []"
          if "msgs' ! i = Some m'" "msg_role m' = RTool" "\<not> protected_tool o1 names m'" "is_pruned (Some m')" for msgs' m'
        proof -
          have "msg_role m = RTool" "\<not> ?Y" using False by simp_all
          then have "\<not> ps_turns st < protect_recent_turns o1" by simp
          with that Suc.prems(1) show ?thesis by (simp add: Let_def)
        qed
        ultimately show ?thesis unfolding e by blast
      qed
    qed
  qed
qed simp

section \<open>What pruning does to a message\<close>

text \<open>The pieces of a message no step of the optimizer changes.\<close>

definition same_frame :: "message \<Rightarrow> message \<Rightarrow> bool" where
  "same_frame m m' \<longleftrightarrow> msg_role m' = msg_role m \<and> msg_tool_calls m' = msg_tool_calls m
     \<and> msg_tool_call_id m' = msg_tool_call_id m"

lemma prune_message_ok:
  "prune_message o1 m s = Inr (m', s') \<Longrightarrow> same_frame m m' \<and> is_pruned (Some m')"
  by (auto simp: prune_message_def same_frame_def is_pruned_def has_bool_marker_def
      split: option.splits sum.splits prod.splits)

lemma prune_all_ok:
  assumes "prune_all o1 is out s = Inr (out', s')" "distinct is"
    and "\<And>i. i \<in> set is \<Longrightarrow> i < length out \<and> out ! i \<noteq> None"
  shows "length out' = length out \<and> (\<forall>i. i \<notin> set is \<longrightarrow> out' ! i = out ! i)
    \<and> (\<forall>i \<in> set is. \<exists>m'. out' ! i = Some m' \<and> same_frame (the (out ! i)) m' \<and> is_pruned (Some m'))"
  using assms
proof (induction "is" arbitrary: out s)
  case (Cons i "is")
  obtain m1 s1 where m1: "prune_message o1 (the (out ! i)) s = Inr (m1, s1)"
    "prune_all o1 is (out[i := Some m1]) s1 = Inr (out', s')"
    using Cons.prems(1) by (auto simp: bind_res_Inr_iff)
  have "j < length (out[i := Some m1]) \<and> out[i := Some m1] ! j \<noteq> None" if "j \<in> set is" for j
    using Cons.prems(3) [of j] that by (cases "j = i") auto
  from Cons.IH [OF m1(2) _ this] Cons.prems(2)
  have ih: "length out' = length out" "\<And>j. j \<notin> set is \<Longrightarrow> out' ! j = out[i := Some m1] ! j"
    "\<And>j. j \<in> set is \<Longrightarrow> \<exists>m'. out' ! j = Some m' \<and> same_frame (the (out[i := Some m1] ! j)) m' \<and> is_pruned (Some m')"
    by auto
  have i: "i < length out" "i \<notin> set is" using Cons.prems by auto
  have "out' ! i = Some m1" using ih(2) [OF i(2)] i(1) by simp
  moreover have "same_frame (the (out ! i)) m1 \<and> is_pruned (Some m1)" using prune_message_ok [OF m1(1)] .
  moreover have "\<exists>m'. out' ! j = Some m' \<and> same_frame (the (out ! j)) m' \<and> is_pruned (Some m')" if "j \<in> set is" for j
    using ih(3) [OF that] that i(2) by (cases "j = i") auto
  ultimately show ?case using ih(1,2) by auto
qed simp

lemma tool_names_cong:
  assumes "length msgs' = length msgs"
    and "\<And>i. i < length msgs \<Longrightarrow> msgs' ! i = msgs ! i
      \<or> (\<exists>m m'. msgs ! i = Some m \<and> msgs' ! i = Some m' \<and> same_frame m m')"
  shows "tool_names_by_call_id msgs' = tool_names_by_call_id msgs"
proof -
  let ?f = "\<lambda>p names. case p of None \<Rightarrow> names
       | Some m \<Rightarrow> fold (\<lambda>tc names. if tc_id tc \<noteq> [] then names(tc_id tc \<mapsto> tc_name tc) else names)
                    (msg_tool_calls m) names"
  have "list_all2 (\<lambda>p p'. ?f p' = ?f p) msgs msgs'"
    unfolding list_all2_conv_all_nth
  proof (intro conjI allI impI)
    fix i assume "i < length msgs"
    from assms(2) [OF this] show "?f (msgs' ! i) = ?f (msgs ! i)"
      by (auto simp: same_frame_def)
  qed (simp add: assms(1))
  then have "fold ?f msgs' names = fold ?f msgs names" for names
    by (induction msgs msgs' arbitrary: names rule: list_all2_induct) simp_all
  then show ?thesis by (simp add: tool_names_by_call_id_def)
qed

lemma protected_frame: "same_frame m m' \<Longrightarrow> protected_tool o1 names m' = protected_tool o1 names m"
  by (simp add: protected_tool_def same_frame_def)

text \<open>The order in which Go ranges over a map: some permutation.\<close>

definition map_order :: "(nat list \<Rightarrow> nat list) \<Rightarrow> bool" where
  "map_order order \<longleftrightarrow> (\<forall>xs. distinct xs \<longrightarrow> distinct (order xs) \<and> set (order xs) = set xs)"

lemma map_orderD:
  "map_order order \<Longrightarrow> distinct xs \<Longrightarrow> distinct (order xs)"
  "map_order order \<Longrightarrow> distinct xs \<Longrightarrow> set (order xs) = set xs"
  by (simp_all add: map_order_def)

lemma prune_outputs_cases:
  assumes "prune_tool_outputs order o1 msgs s = Inr (out, s')" "map_order order"
  shows "(out = msgs \<and> s' = s \<and> (ps_pruned (prune_result o1 msgs) \<le> oc_prune_minimum o1 \<or> ps_set (prune_result o1 msgs) = []))
   \<or> (ps_set (prune_result o1 msgs) \<noteq> [] \<and> prune_all o1 (order (ps_set (prune_result o1 msgs))) msgs s = Inr (out, s')
      \<and> length out = length msgs
      \<and> (\<forall>i. i \<notin> set (ps_set (prune_result o1 msgs)) \<longrightarrow> out ! i = msgs ! i)
      \<and> (\<forall>i \<in> set (ps_set (prune_result o1 msgs)). \<exists>m'. out ! i = Some m' \<and> same_frame (the (msgs ! i)) m' \<and> is_pruned (Some m')))"
proof (cases "ps_pruned (prune_result o1 msgs) \<le> oc_prune_minimum o1 \<or> ps_set (prune_result o1 msgs) = []")
  case True
  then show ?thesis using assms(1) by (auto simp: prune_tool_outputs_def Let_def)
next
  case False
  let ?J = "ps_set (prune_result o1 msgs)"
  have J: "distinct ?J" "\<And>i. i \<in> set ?J \<Longrightarrow> i < length msgs \<and> msgs ! i \<noteq> None"
    using prune_result_sound [of o1 msgs] by (auto simp: prunable_def)
  note o1 = map_orderD [OF assms(2) J(1)]
  have "prune_all o1 (order ?J) msgs s = Inr (out, s')"
    using assms(1) False by (simp add: prune_tool_outputs_def Let_def)
  with prune_all_ok [OF this o1(1)] J(2) False show ?thesis unfolding o1(2) by simp
qed

section \<open>Offloaded outputs\<close>

definition content_at :: "msg_ptr list \<Rightarrow> nat \<Rightarrow> string" where
  "content_at msgs i = msg_content (the (msgs ! i))"

lemma prune_all_memory:
  assumes "prune_all o1 is out s = Inr (out', s')" "distinct is"
    and "oc_put o1 = Some (\<lambda>s x. Inr (store_put digest s x))"
    and "\<And>i. i \<in> set is \<Longrightarrow> i < length out"
    and "inj_on digest (content_at out ` set is)"
  shows "(\<forall>i \<in> set is. out' ! i \<noteq> None
      \<and> msg_extra (the (out' ! i)) prune_ref_key = Some (GStr (content_key digest (content_at out i)))
      \<and> s' (content_key digest (content_at out i)) = Some (content_at out i))
    \<and> (\<forall>i. i \<notin> set is \<longrightarrow> out' ! i = out ! i)
    \<and> (\<forall>k. k \<notin> content_key digest ` content_at out ` set is \<longrightarrow> s' k = s k)"
  using assms
proof (induction "is" arbitrary: out s)
  case (Cons i "is")
  let ?c = "content_at out i"
  let ?m = "(the (out ! i))\<lparr>msg_content := offload_text \<lparr>ref_key = content_key digest ?c, ref_size = length ?c\<rparr>,
     msg_extra := (msg_extra (the (out ! i)))(prune_ref_key \<mapsto> GStr (content_key digest ?c), prune_marker_key \<mapsto> GBool True)\<rparr>"
  let ?out = "out[i := Some ?m]" and ?s = "s(content_key digest ?c \<mapsto> ?c)"
  have il: "i < length out" "i \<notin> set is" using Cons.prems by auto
  have p: "prune_all o1 is ?out ?s = Inr (out', s')"
    using Cons.prems(1) by (simp add: prune_message_def Cons.prems(3) store_put_def content_at_def Let_def)
  have ca: "content_at ?out j = content_at out j" if "j \<in> set is" for j
    using that il(2) by (cases "j = i") (simp_all add: content_at_def)
  then have im: "content_at ?out ` set is = content_at out ` set is" by auto
  have "inj_on digest (content_at ?out ` set is)"
    unfolding im using Cons.prems(5) by (rule inj_on_subset) auto
  from Cons.IH [OF p _ Cons.prems(3) _ this] Cons.prems(2,4)
  have ih: "\<And>j. j \<in> set is \<Longrightarrow> out' ! j \<noteq> None
      \<and> msg_extra (the (out' ! j)) prune_ref_key = Some (GStr (content_key digest (content_at ?out j)))
      \<and> s' (content_key digest (content_at ?out j)) = Some (content_at ?out j)"
    "\<And>j. j \<notin> set is \<Longrightarrow> out' ! j = ?out ! j"
    "\<And>k. k \<notin> content_key digest ` content_at ?out ` set is \<Longrightarrow> s' k = ?s k"
    by auto
  have keys: "prune_ref_key \<noteq> prune_marker_key" by (simp add: prune_ref_key_def prune_marker_key_def)
  have i1: "out' ! i = Some ?m" using ih(2) [OF il(2)] il(1) by simp
  have i2: "s' (content_key digest ?c) = Some ?c"
  proof (cases "content_key digest ?c \<in> content_key digest ` content_at out ` set is")
    case True
    then obtain j where j: "j \<in> set is" "digest (content_at out j) = digest ?c"
      by (auto simp: content_key_def)
    then have "content_at out j = ?c" using inj_onD [OF Cons.prems(5) j(2)] by simp
    with ih(1) [OF j(1)] ca [OF j(1)] show ?thesis by simp
  next
    case False
    then show ?thesis using ih(3) im by simp
  qed
  have "s' k = s k" if "k \<notin> content_key digest ` content_at out ` set (i # is)" for k
    using that ih(3) [of k] unfolding im by simp
  moreover have "out' ! j = out ! j" if "j \<notin> set (i # is)" for j using ih(2) [of j] that by simp
  moreover have "out' ! j \<noteq> None
      \<and> msg_extra (the (out' ! j)) prune_ref_key = Some (GStr (content_key digest (content_at out j)))
      \<and> s' (content_key digest (content_at out j)) = Some (content_at out j)" if "j \<in> set (i # is)" for j
  proof (cases "j = i")
    case True
    with i1 i2 keys show ?thesis by simp
  next
    case False
    with that have "j \<in> set is" by simp
    with ih(1) [of j] ca [of j] show ?thesis by simp
  qed
  ultimately show ?case by blast
qed simp

section \<open>The preserved tail\<close>

fun chain :: "nat \<Rightarrow> turn_range list \<Rightarrow> bool" where
  "chain pos [] = True"
| "chain pos (t # ts) = (tr_end t = pos \<and> tr_start t < tr_end t \<and> chain (tr_start t) ts)"

lemma chain_append: "chain pos (as @ bs) \<longleftrightarrow> chain pos as \<and> chain (if as = [] then pos else tr_start (last as)) bs"
  by (induction as arbitrary: pos) auto

lemma close_turns_chain:
  "sorted_wrt (<) is \<Longrightarrow> (\<forall>i \<in> set is. i < n) \<Longrightarrow>
     chain n (rev (close_turns n is)) \<and> (is \<noteq> [] \<longrightarrow> tr_start (hd (close_turns n is)) = hd is)"
proof (induction n "is" rule: close_turns.induct)
  case (3 n i j "is")
  then have ih: "chain n (rev (close_turns n (j # is)))" "tr_start (hd (close_turns n (j # is))) = j" by auto
  have ne: "close_turns n (j # is) \<noteq> []" by (cases "is") auto
  have "last (rev (close_turns n (j # is))) = hd (close_turns n (j # is))" using ne by (simp add: last_rev)
  then show ?case using ih ne 3 by (simp add: chain_append)
qed auto

lemma split_turns_chain: "chain (length msgs) (rev (split_turns msgs))"
proof -
  have "sorted_wrt (<) (filter P [0..<n])" for P :: "nat \<Rightarrow> bool" and n
    by (rule sorted_wrt_filter) simp
  from close_turns_chain [OF this, of "\<lambda>i. starts_turn (msgs ! i)" "length msgs" "length msgs"]
  show ?thesis unfolding split_turns_def by auto
qed

definition subadditive :: "token_count \<Rightarrow> bool" where
  "subadditive count \<longleftrightarrow> count [] \<le> 0 \<and> (\<forall>xs ys. count (xs @ ys) \<le> count xs + count ys)"

lemma drop_slice: "i \<le> j \<Longrightarrow> j \<le> length xs \<Longrightarrow> drop i xs = slice xs i j @ drop j xs"
  using append_take_drop_id [of "j - i" "drop i xs", symmetric] by (simp add: slice_def)

lemma keep_loop_budget:
  assumes "subadditive (oc_count o1)" "0 \<le> tot" "tot \<le> budget"
    and "chain pos ts" "pos = (case keep of None \<Rightarrow> length msgs | Some k \<Rightarrow> k)" "pos \<le> length msgs"
    and "oc_count o1 (drop pos msgs) \<le> tot"
    and "keep_loop o1 msgs budget ts tot keep = Some k" and "\<And>ms. 0 \<le> oc_count o1 ms"
  shows "k \<le> length msgs \<and> oc_count o1 (drop k msgs) \<le> budget"
  using assms(2-8)
proof (induction ts arbitrary: tot keep pos)
  case Nil
  then show ?case by simp
next
  case (Cons t ts)
  have t: "tr_end t = pos" "tr_start t < pos" "chain (tr_start t) ts" using Cons.prems(3) by auto
  have add: "oc_count o1 (drop i msgs) \<le> oc_count o1 (slice msgs i pos) + oc_count o1 (drop pos msgs)" if "i \<le> pos" for i
    using assms(1) drop_slice [OF that Cons.prems(5)] by (simp add: subadditive_def)
  let ?size = "oc_count o1 (slice msgs (tr_start t) (tr_end t))"
  show ?case
  proof (cases "tot + ?size \<le> budget")
    case True
    have "keep_loop o1 msgs budget ts (tot + ?size) (Some (tr_start t)) = Some k"
      using Cons.prems(7) True by (simp add: Let_def)
    moreover have "oc_count o1 (drop (tr_start t) msgs) \<le> tot + ?size"
      using add [of "tr_start t"] t Cons.prems(6) by simp
    ultimately show ?thesis
      using Cons.IH [of "tot + ?size" "tr_start t" "Some (tr_start t)"] Cons.prems(1,5) True t assms(9) by simp
  next
    case False
    show ?thesis
    proof (cases "split_turn o1 msgs t (budget - tot)")
      case None
      then have "keep = Some k" using Cons.prems(7) False by (simp add: Let_def)
      with Cons.prems show ?thesis by simp
    next
      case (Some i)
      then have k: "k = i" using Cons.prems(7) False by (simp add: Let_def)
      from Some have "List.find (\<lambda>start. oc_count o1 (slice msgs start (tr_end t)) \<le> budget - tot)
             [tr_start t + 1..<tr_end t] = Some i"
        by (auto simp: split_turn_def split: if_splits)
      then have "oc_count o1 (slice msgs i pos) \<le> budget - tot" "i < pos"
        by (auto simp: find_Some_iff t(1))
      with add [of i] Cons.prems(5,6) show ?thesis by (simp add: k)
    qed
  qed
qed

lemma select_tail_cases:
  assumes "select_tail o1 msgs = (head, k)"
  shows "k = length msgs \<and> head = msgs
    \<or> 0 < k \<and> head = take k msgs \<and> (\<exists>ts. chain (length msgs) ts \<and> keep_loop o1 msgs (oc_preserve_recent o1) ts 0 None = Some k)"
proof -
  have c: "chain (length msgs) (rev (drop n (split_turns msgs)))" for n
    using split_turns_chain [of msgs] chain_append
    by (metis append_take_drop_id rev_append)
  show ?thesis using assms c [of 0] c
    by (auto simp: select_tail_def Let_def split: if_splits option.splits)
qed

section \<open>Properties\<close>

text \<open>Pruning is idempotent: a history whose stale tool outputs were pruned once is left alone by
  the next run, whatever the order of Go's map iteration and whatever the store holds.\<close>

theorem prune_idempotent:
  assumes "map_order order" and "prune_tool_outputs order o1 msgs s = Inr (out, s')"
  shows "prune_tool_outputs order' o1 out t = Inr (out, t)"
proof -
  let ?J = "ps_set (prune_result o1 msgs)"
  from prune_outputs_cases [OF assms(2,1)] show ?thesis
  proof
    assume "out = msgs \<and> s' = s \<and> (ps_pruned (prune_result o1 msgs) \<le> oc_prune_minimum o1 \<or> ?J = [])"
    then show ?thesis by (simp add: prune_tool_outputs_def Let_def)
  next
    assume "?J \<noteq> [] \<and> prune_all o1 (order ?J) msgs s = Inr (out, s') \<and> length out = length msgs
      \<and> (\<forall>i. i \<notin> set ?J \<longrightarrow> out ! i = msgs ! i)
      \<and> (\<forall>i \<in> set ?J. \<exists>m'. out ! i = Some m' \<and> same_frame (the (msgs ! i)) m' \<and> is_pruned (Some m'))"
    then have J: "?J \<noteq> []" "length out = length msgs" "\<And>i. i \<notin> set ?J \<Longrightarrow> out ! i = msgs ! i"
      "\<And>i. i \<in> set ?J \<Longrightarrow> \<exists>m'. out ! i = Some m' \<and> same_frame (the (msgs ! i)) m' \<and> is_pruned (Some m')"
      by auto
    have snd: "prunable o1 msgs (tool_names_by_call_id msgs) i" if "i \<in> set ?J" for i
      using prune_result_sound [of o1 msgs] that by blast
    have names: "tool_names_by_call_id out = tool_names_by_call_id msgs"
    proof (rule tool_names_cong [OF J(2)])
      fix i assume "i < length msgs"
      show "out ! i = msgs ! i \<or> (\<exists>m m'. msgs ! i = Some m \<and> out ! i = Some m' \<and> same_frame m m')"
        using J(3,4) [of i] snd [of i] by (cases "i \<in> set ?J") (auto simp: prunable_def)
    qed
    let ?st = "\<lparr>ps_total = 0, ps_pruned = 0, ps_set = [], ps_turns = 0\<rparr>"
    from prune_loop_second [of ?st o1 "tool_names_by_call_id msgs" msgs "length msgs"] J(1)
    obtain i where i: "i < length msgs" "i \<in> set ?J" "\<And>j. j \<in> set ?J \<Longrightarrow> j \<le> i"
      and stop: "\<And>msgs' m'. (\<forall>j. i < j \<and> j < length msgs \<longrightarrow> msgs' ! j = msgs ! j) \<Longrightarrow> msgs' ! i = Some m' \<Longrightarrow>
         msg_role m' = RTool \<Longrightarrow> \<not> protected_tool o1 (tool_names_by_call_id msgs) m' \<Longrightarrow> is_pruned (Some m') \<Longrightarrow>
         ps_set (prune_loop o1 (tool_names_by_call_id msgs) msgs' (length msgs) ?st) = []"
      by (auto simp: prune_result_def)
    obtain m' where m': "out ! i = Some m'" "same_frame (the (msgs ! i)) m'" "is_pruned (Some m')"
      using J(4) [OF i(2)] by auto
    obtain m where m: "msgs ! i = Some m" "msg_role m = RTool" "\<not> protected_tool o1 (tool_names_by_call_id msgs) m"
      using snd [OF i(2)] by (auto simp: prunable_def)
    have "ps_set (prune_result o1 out) = []"
      unfolding prune_result_def names J(2)
    proof (rule stop [OF _ m'(1) _ _ m'(3)])
      show "\<forall>j. i < j \<and> j < length msgs \<longrightarrow> out ! j = msgs ! j" using J(3) i(3) by fastforce
      show "msg_role m' = RTool" using m m'(2) by (simp add: same_frame_def)
      show "\<not> protected_tool o1 (tool_names_by_call_id msgs) m'" using m m'(2) protected_frame by fastforce
    qed
    then show ?thesis by (simp add: prune_tool_outputs_def Let_def)
  qed
qed

text \<open>Pruning touches only what it may: the history keeps its length, and a message that changes
  is a tool output that was not pruned before, not of a protected tool, and older than the most
  recent turns, of which at least two are always protected; its role and call id stay.\<close>

theorem prune_only_stale_outputs:
  assumes "map_order order" and "prune_tool_outputs order o1 msgs s = Inr (out, s')"
    and "out ! i \<noteq> msgs ! i"
  shows "length out = length msgs \<and> i < length msgs
    \<and> (\<exists>m m'. msgs ! i = Some m \<and> out ! i = Some m' \<and> msg_role m = RTool \<and> \<not> is_pruned (Some m)
         \<and> \<not> protected_tool o1 (tool_names_by_call_id msgs) m \<and> same_frame m m' \<and> is_pruned (Some m'))
    \<and> max (oc_tail_turns o1) 2 \<le> users_from msgs i"
proof -
  let ?J = "ps_set (prune_result o1 msgs)"
  have "i \<in> set ?J" using prune_outputs_cases [OF assms(2,1)] assms(3) by metis
  moreover from this have "prunable o1 msgs (tool_names_by_call_id msgs) i"
    using prune_result_sound [of o1 msgs] by blast
  ultimately show ?thesis
    using prune_outputs_cases [OF assms(2,1)] assms(3)
    by (auto simp: prunable_def protect_recent_turns_def)
qed

text \<open>C19: With a backend, pruning is reversible: restoring any message of the pruned history gives the
  content it had before, as long as no two offloaded contents collide and no message carried a
  handle already.\<close>

theorem prune_reversible:
  assumes "map_order order" and "prune_tool_outputs order o1 msgs s = Inr (out, s')"
    and "oc_put o1 = Some (\<lambda>s x. Inr (store_put digest s x))" and "oc_get o1 = store_get"
    and "inj_on digest (content_at msgs ` {..<length msgs})"
    and "\<And>p m. p \<in> set msgs \<Longrightarrow> p = Some m \<Longrightarrow> msg_extra m prune_ref_key = None"
    and "i < length msgs" and "msgs ! i = Some m"
  shows "restore_pruned o1 s' (out ! i) = Inr (msg_content m)"
proof -
  let ?J = "ps_set (prune_result o1 msgs)"
  have plain: "restore_pruned o1 s' (msgs ! i) = Inr (msg_content m)"
    using assms(3,8) assms(6) [OF nth_mem [OF assms(7)] assms(8)] by (simp add: restore_pruned_def)
  from prune_outputs_cases [OF assms(2,1)] show ?thesis
  proof
    assume "out = msgs \<and> s' = s \<and> (ps_pruned (prune_result o1 msgs) \<le> oc_prune_minimum o1 \<or> ?J = [])"
    with plain show ?thesis by simp
  next
    assume a: "?J \<noteq> [] \<and> prune_all o1 (order ?J) msgs s = Inr (out, s') \<and> length out = length msgs
      \<and> (\<forall>i. i \<notin> set ?J \<longrightarrow> out ! i = msgs ! i)
      \<and> (\<forall>i \<in> set ?J. \<exists>m'. out ! i = Some m' \<and> same_frame (the (msgs ! i)) m' \<and> is_pruned (Some m'))"
    show ?thesis
    proof (cases "i \<in> set ?J")
      case False
      with a plain show ?thesis by simp
    next
      case True
      have J: "distinct ?J" "\<And>j. j \<in> set ?J \<Longrightarrow> j < length msgs"
        using prune_result_sound [of o1 msgs] by (auto simp: prunable_def)
      note ord = map_orderD [OF assms(1) J(1)]
      have "inj_on digest (content_at msgs ` set (order ?J))"
        using assms(5) by (rule inj_on_subset) (use J(2) ord in auto)
      from prune_all_memory [OF _ ord(1) assms(3) _ this] a J(2) True ord(2)
      have "out ! i \<noteq> None" "msg_extra (the (out ! i)) prune_ref_key = Some (GStr (content_key digest (content_at msgs i)))"
        "s' (content_key digest (content_at msgs i)) = Some (content_at msgs i)"
        by auto
      then show ?thesis
        using assms(3,4,8) by (auto simp: restore_pruned_def store_get_def content_at_def content_key_def)
    qed
  qed
qed

text \<open>The preserved tail fits its budget: with a non-negative counter that does not grow when a
  history is counted in parts, what is kept verbatim counts at most \<open>PreserveRecentTokens\<close>; head
  and tail are the history, and the head is never empty.\<close>

theorem tail_within_budget:
  assumes "select_tail o1 msgs = (head, k)"
    and "subadditive (oc_count o1)" and "\<And>ms. 0 \<le> oc_count o1 ms" and "0 \<le> oc_preserve_recent o1"
  shows "oc_count o1 (drop k msgs) \<le> oc_preserve_recent o1 \<and> head @ drop k msgs = msgs
    \<and> (head = [] \<longleftrightarrow> msgs = [])"
proof -
  have e: "oc_count o1 [] \<le> oc_preserve_recent o1" using assms(2,4) by (simp add: subadditive_def)
  from select_tail_cases [OF assms(1)] show ?thesis
  proof
    assume "k = length msgs \<and> head = msgs"
    with e show ?thesis by simp
  next
    assume "0 < k \<and> head = take k msgs \<and> (\<exists>ts. chain (length msgs) ts \<and> keep_loop o1 msgs (oc_preserve_recent o1) ts 0 None = Some k)"
    then obtain ts where ts: "0 < k" "head = take k msgs" "chain (length msgs) ts"
      "keep_loop o1 msgs (oc_preserve_recent o1) ts 0 None = Some k" by auto
    have "oc_count o1 (drop k msgs) \<le> oc_preserve_recent o1"
      using keep_loop_budget [OF assms(2) _ assms(4) ts(3) _ _ _ ts(4)] assms(2,3)
      by (simp add: subadditive_def)
    with ts(1,2) show ?thesis by auto
  qed
qed

lemma compressible_marked:
  "\<not> compressible (Some (m\<lparr>msg_content := c, msg_extra := (msg_extra m)(compressed_marker_key \<mapsto> GBool True)\<rparr>))"
  by (simp add: compressible_def is_compressed_def has_bool_marker_def)

lemma compress_messages_fixed: "\<forall>p \<in> set ps. \<not> compressible p \<Longrightarrow> compress_messages cs ps = Inr ps"
  by (induction ps) auto

lemma compress_messages_done:
  "compress_messages cs ps = Inr out \<Longrightarrow> \<forall>p \<in> set out. \<not> compressible p"
proof (induction ps arbitrary: out)
  case (Cons p ps)
  show ?case
  proof (cases "compressible p")
    case False
    with Cons show ?thesis by (auto simp: bind_res_Inr_iff)
  next
    case True
    with Cons show ?thesis
      by (auto simp: bind_res_Inr_iff compressible_marked Let_def split: option.splits)
  qed
qed simp

text \<open>The compressors run once per tool output: a second pass over a compressed history changes
  nothing, whatever the compressors do.\<close>

theorem compressors_idempotent:
  assumes "apply_content_compressors o1 msgs = Inr out"
  shows "apply_content_compressors o1 out = Inr out"
  using assms compress_messages_done compress_messages_fixed
  by (auto simp: apply_content_compressors_def split: if_splits)

text \<open>On overflow with a summarizer, the result is one summary and a proper suffix of the history:
  the first message after the last summary is never kept. A system prompt at the head of the
  history is therefore dropped, and the verbosity steer, which looks for a system message, finds
  none among the messages summarized away.\<close>

theorem overflow_drops_head:
  assumes "optimize order o1 msgs s = Inr (result, s')"
    and "oc_summarizer o1 \<noteq> None" and "oc_compressors o1 = []" and "\<not> oc_prune_tool_outputs o1"
    and "is_overflow o1 (trim_before_last_summary msgs)" and "trim_before_last_summary msgs \<noteq> []"
  shows "\<exists>txt k. 0 < k \<and> k \<le> length (trim_before_last_summary msgs)
    \<and> result = apply_verbosity_steer o1 (Some (new_summary_message txt) # drop k (trim_before_last_summary msgs))"
proof -
  let ?out = "trim_before_last_summary msgs"
  obtain f where f: "oc_summarizer o1 = Some f" using assms(2) by auto
  obtain head k where t: "select_tail o1 ?out = (head, k)" by fastforce
  have "0 < k \<and> k \<le> length ?out"
  proof -
    have "k' \<le> length ?out" if "keep_loop o1 ?out b ts 0 None = Some k'" "chain (length ?out) ts" for k' ts b
    proof -
      have "k' \<le> pos" if "keep_loop o1 ?out b ts tot keep = Some k'" "chain pos ts"
        "keep = None \<or> keep = Some pos" for tot keep pos
        using that
      proof (induction ts arbitrary: tot keep pos)
        case (Cons t ts)
        have "i < tr_end t" if "split_turn o1 ?out t b' = Some i" for i b'
          using that by (auto simp: split_turn_def find_Some_iff split: if_splits)
        with Cons.IH [of _ "Some (tr_start t)" "tr_start t"] Cons.prems show ?case
          by (fastforce simp: Let_def split: if_splits option.splits)
      qed auto
      from this [OF that] show ?thesis by simp
    qed
    with select_tail_cases [OF t] assms(6) show ?thesis by blast
  qed
  moreover have "\<exists>txt. result = apply_verbosity_steer o1 (Some (new_summary_message txt) # drop k ?out)"
    using assms(1,3-5) f t
    by (auto simp: optimize_def apply_content_compressors_def split: option.splits if_splits)
  ultimately show ?thesis by blast
qed

lemma steer_marked: "steer_messages t (steer_messages t ps) = steer_messages t ps"
  by (induction ps) (auto simp: has_bool_marker_def split: option.splits)

lemma steer_prefix:
  "list_all2 (\<lambda>p p'. case p of None \<Rightarrow> p' = None
     | Some m \<Rightarrow> (\<exists>m'. p' = Some m' \<and> prefix (msg_content m) (msg_content m') \<and> same_frame m m')) ps (steer_messages t ps)"
proof (induction ps)
  case (Cons p ps)
  have refl: "list_all2 (\<lambda>p p'. case p of None \<Rightarrow> p' = None
     | Some m \<Rightarrow> (\<exists>m'. p' = Some m' \<and> prefix (msg_content m) (msg_content m') \<and> same_frame m m')) qs qs" for qs
    by (induction qs) (auto simp: same_frame_def split: option.splits)
  show ?case using Cons refl [of ps]
    by (cases p) (auto simp: same_frame_def)
qed simp

text \<open>The verbosity steer changes at most the first system message, only by appending, and only
  once.\<close>

theorem verbosity_steer_append_only:
  "apply_verbosity_steer o1 (apply_verbosity_steer o1 msgs) = apply_verbosity_steer o1 msgs
   \<and> list_all2 (\<lambda>p p'. case p of None \<Rightarrow> p' = None
       | Some m \<Rightarrow> (\<exists>m'. p' = Some m' \<and> prefix (msg_content m) (msg_content m') \<and> same_frame m m'))
       msgs (apply_verbosity_steer o1 msgs)"
proof -
  have "list_all2 (\<lambda>p p'. case p of None \<Rightarrow> p' = None
     | Some m \<Rightarrow> (\<exists>m'. p' = Some m' \<and> prefix (msg_content m) (msg_content m') \<and> same_frame m m')) msgs msgs"
    by (induction msgs) (auto simp: same_frame_def split: option.splits)
  then show ?thesis by (simp add: apply_verbosity_steer_def steer_marked steer_prefix Let_def)
qed

section \<open>Concrete runs\<close>

definition char_count :: token_count where
  "char_count ps = int (sum_list (map (\<lambda>p. case p of None \<Rightarrow> 0 | Some m \<Rightarrow> length (msg_content m)) ps))"

definition demo_opt :: "memory_store optimizer" where
  "demo_opt = \<lparr>oc_context_limit = 10, oc_max_input_tokens = 0, oc_reserved_tokens = 4, oc_tail_turns = 2,
     oc_preserve_recent = 3, oc_prune_tool_outputs = False, oc_prune_protect = 0, oc_prune_minimum = 0,
     oc_tool_output_max = 1, oc_protected_tools = [], oc_count = char_count,
     oc_summarizer = Some (\<lambda>_ _. Some ''s''), oc_put = Some (\<lambda>s x. Inr (store_put (\<lambda>x. x) s x)),
     oc_get = store_get, oc_compressors = [], oc_volatile_check = False, oc_steer = []\<rparr>"

definition sys_msg :: msg_ptr where "sys_msg = Some (plain_message RSystem ''rules'')"
definition user_msg :: msg_ptr where "user_msg = Some (plain_message RUser ''q'')"
definition asst_msg :: msg_ptr where "asst_msg = Some (plain_message RAssistant ''long'')"
definition tool_msg :: msg_ptr where "tool_msg = Some (plain_message RTool ''out'')"

lemmas demo_opt_defs = demo_opt_def sys_msg_def user_msg_def asst_msg_def tool_msg_def char_count_def plain_message_def

text \<open>The preserved tail can start inside a turn, at a tool output whose call was summarized
  away: the result then holds a tool message that answers no call.\<close>

theorem tail_can_orphan_tool_output:
  "map_option (map (map_option msg_role))
     (case optimize id demo_opt [sys_msg, user_msg, asst_msg, tool_msg] new_memory_store of
        Inr (out, _) \<Rightarrow> Some out | Inl _ \<Rightarrow> None)
   = Some [Some RAssistant, Some RTool]"
  by (simp add: optimize_def apply_content_compressors_def trim_before_last_summary_def
      is_summary_def has_bool_marker_def is_overflow_def usable_def select_tail_def
      split_turns_def starts_turn_def split_turn_def slice_def apply_verbosity_steer_def
      new_summary_message_def trim_space_def upt_rec Let_def demo_opt_defs)

definition stale_history :: "msg_ptr list" where
  "stale_history = [user_msg, tool_msg, user_msg, user_msg]"

definition pruned_msg :: message where
  "pruned_msg = (plain_message RTool (offload_text \<lparr>ref_key = content_key (\<lambda>x. x) ''out'', ref_size = 3\<rparr>))
     \<lparr>msg_extra := [prune_ref_key \<mapsto> GStr (content_key (\<lambda>x. x) ''out''), prune_marker_key \<mapsto> GBool True]\<rparr>"

lemma map_order_id: "map_order (\<lambda>xs. xs)"
  by (simp add: map_order_def)

lemma prune_demo:
  "prune_tool_outputs (\<lambda>xs. xs) demo_opt stale_history new_memory_store
     = Inr ([user_msg, Some pruned_msg, user_msg, user_msg], [content_key (\<lambda>x. x) ''out'' \<mapsto> ''out''])"
  by (simp add: prune_tool_outputs_def prune_result_def stale_history_def protect_recent_turns_def
      protected_tool_def is_pruned_def has_bool_marker_def prune_message_def store_put_def pruned_msg_def
      new_memory_store_def Let_def eval_nat_numeral demo_opt_defs)

theorem prune_idempotent_witness:
  "prune_tool_outputs rev demo_opt [user_msg, Some pruned_msg, user_msg, user_msg] Map.empty
     = Inr ([user_msg, Some pruned_msg, user_msg, user_msg], Map.empty)"
  by (rule prune_idempotent [OF map_order_id prune_demo])

theorem prune_only_stale_outputs_witness:
  "2 \<le> users_from stale_history 1 \<and> length stale_history = 4"
proof -
  have "[user_msg, Some pruned_msg, user_msg, user_msg] ! 1 \<noteq> stale_history ! 1"
    by (simp add: stale_history_def pruned_msg_def tool_msg_def plain_message_def)
  from prune_only_stale_outputs [OF map_order_id prune_demo this] show ?thesis by auto
qed

theorem prune_reversible_witness:
  "restore_pruned demo_opt [content_key (\<lambda>x. x) ''out'' \<mapsto> ''out''] (Some pruned_msg) = Inr ''out''"
proof -
  have c: "oc_put demo_opt = Some (\<lambda>s x. Inr (store_put (\<lambda>x. x) s x))" "oc_get demo_opt = store_get"
    by (simp_all add: demo_opt_def)
  have n: "msg_extra m prune_ref_key = None" if "p \<in> set stale_history" "p = Some m" for p m
    using that by (auto simp: stale_history_def user_msg_def tool_msg_def plain_message_def)
  have i: "1 < length stale_history" "stale_history ! 1 = Some (plain_message RTool ''out'')"
    by (simp_all add: stale_history_def tool_msg_def)
  from prune_reversible [OF map_order_id prune_demo c _ n i] show ?thesis
    by (simp add: plain_message_def)
qed

lemma char_count_facts: "subadditive char_count" "0 \<le> char_count ms"
  by (simp_all add: subadditive_def char_count_def)

theorem tail_within_budget_witness:
  "case select_tail demo_opt [sys_msg, user_msg, asst_msg, tool_msg] of
     (head, k) \<Rightarrow> k = 3 \<and> char_count (drop k [sys_msg, user_msg, asst_msg, tool_msg]) \<le> 3"
proof -
  let ?ms = "[sys_msg, user_msg, asst_msg, tool_msg]"
  have t: "select_tail demo_opt ?ms = ([sys_msg, user_msg, asst_msg], 3)"
    by (simp add: select_tail_def is_summary_def has_bool_marker_def split_turns_def starts_turn_def
        split_turn_def slice_def upt_rec Let_def demo_opt_defs)
  have "oc_count demo_opt = char_count" "oc_preserve_recent demo_opt = 3" by (simp_all add: demo_opt_def)
  with tail_within_budget [OF t] char_count_facts t show ?thesis by simp
qed

theorem compressors_idempotent_witness:
  "let o1 = demo_opt\<lparr>oc_compressors := [\<lambda>c. Some (''z'', True)]\<rparr>;
       out = [Some ((plain_message RTool ''z'')\<lparr>msg_extra := [compressed_marker_key \<mapsto> GBool True]\<rparr>)]
   in apply_content_compressors o1 [tool_msg] = Inr out \<and> apply_content_compressors o1 out = Inr out"
proof -
  let ?o = "demo_opt\<lparr>oc_compressors := [\<lambda>c. Some (''z'', True)]\<rparr>"
  let ?out = "[Some ((plain_message RTool ''z'')\<lparr>msg_extra := [compressed_marker_key \<mapsto> GBool True]\<rparr>)]"
  have "apply_content_compressors ?o [tool_msg] = Inr ?out"
    by (simp add: apply_content_compressors_def compressible_def is_pruned_def is_compressed_def
        has_bool_marker_def Let_def demo_opt_defs)
  with compressors_idempotent [OF this] show ?thesis by (simp add: Let_def)
qed

theorem overflow_drops_head_witness:
  "\<exists>txt k s'. 0 < k \<and> optimize (\<lambda>xs. xs) demo_opt [sys_msg, user_msg, asst_msg, tool_msg] new_memory_store
     = Inr (apply_verbosity_steer demo_opt (Some (new_summary_message txt) # drop k [sys_msg, user_msg, asst_msg, tool_msg]), s')"
proof -
  let ?ms = "[sys_msg, user_msg, asst_msg, tool_msg]"
  have t: "trim_before_last_summary ?ms = ?ms"
    by (simp add: trim_before_last_summary_def is_summary_def has_bool_marker_def demo_opt_defs)
  have f: "oc_compressors demo_opt = []" "\<not> oc_prune_tool_outputs demo_opt"
    "oc_summarizer demo_opt = Some (\<lambda>_ _. Some ''s'')" by (simp_all add: demo_opt_def)
  have "is_ok (optimize (\<lambda>xs. xs) demo_opt ?ms new_memory_store)"
    by (cases "select_tail demo_opt ?ms") (simp add: optimize_def t apply_content_compressors_def f)
  then obtain x where "optimize (\<lambda>xs. xs) demo_opt ?ms new_memory_store = Inr x" by (auto simp: is_ok_iff)
  then obtain result s' where r: "optimize (\<lambda>xs. xs) demo_opt ?ms new_memory_store = Inr (result, s')"
    by (cases x) simp
  have "is_overflow demo_opt ?ms" by (simp add: is_overflow_def usable_def Let_def demo_opt_defs)
  then show ?thesis using overflow_drops_head [OF r] r unfolding t by (auto simp: demo_opt_def)
qed

text \<open>A zero \<open>TailTurns\<close> does not disable the tail, as the comment on the field says: it becomes the
  default of two turns; only a negative one disables it.\<close>

theorem tail_turns_zero_is_default:
  assumes "config_valid c"
  shows "\<exists>o1. new_optimizer c = Inr o1
    \<and> oc_tail_turns o1 = (if oc_tail_turns c = 0 then 2 else oc_tail_turns c)
    \<and> 0 < oc_reserved_tokens o1 \<and> 0 < oc_prune_minimum o1 \<and> 0 < oc_tool_output_max o1
    \<and> 0 < oc_preserve_recent o1
    \<and> (if oc_preserve_recent c = 0 then 2000 \<le> oc_preserve_recent o1 \<and> oc_preserve_recent o1 \<le> 8000
       else oc_preserve_recent o1 = oc_preserve_recent c)"
proof -
  let ?c = "c\<lparr>oc_reserved_tokens := or_default (oc_reserved_tokens c) 20000,
              oc_tail_turns := or_default (oc_tail_turns c) 2,
              oc_prune_protect := or_default (oc_prune_protect c) 40000,
              oc_prune_minimum := or_default (oc_prune_minimum c) 20000,
              oc_tool_output_max := or_default (oc_tool_output_max c) 2000\<rparr>"
  let ?o = "?c\<lparr>oc_preserve_recent := or_default (oc_preserve_recent c) (clamp (usable ?c div 4) 2000 8000)\<rparr>"
  have n: "new_optimizer c = Inr ?o" using assms by (simp add: new_optimizer_def Let_def)
  have cl: "2000 \<le> clamp v 2000 8000" "clamp v 2000 8000 \<le> 8000" for v by (simp_all add: clamp_def)
  have od: "0 \<le> v \<Longrightarrow> 0 < d \<Longrightarrow> 0 < or_default v d" for v d by (simp add: or_default_def)
  have p: "0 < clamp (usable ?c div 4) 2000 8000" using cl(1) [of "usable ?c div 4"] by linarith
  have "0 < oc_reserved_tokens ?o \<and> 0 < oc_prune_minimum ?o \<and> 0 < oc_tool_output_max ?o \<and> 0 < oc_preserve_recent ?o"
    using assms od p by (simp add: config_valid_def)
  moreover have "oc_tail_turns ?o = (if oc_tail_turns c = 0 then 2 else oc_tail_turns c)"
    by (simp add: or_default_def)
  moreover have "if oc_preserve_recent c = 0 then 2000 \<le> oc_preserve_recent ?o \<and> oc_preserve_recent ?o \<le> 8000
       else oc_preserve_recent ?o = oc_preserve_recent c"
    using cl by (simp add: or_default_def)
  ultimately show ?thesis using n by blast
qed

theorem tail_turns_zero_is_default_witness:
  "\<exists>o1. new_optimizer (demo_opt\<lparr>oc_tail_turns := 0\<rparr>) = Inr o1 \<and> oc_tail_turns o1 = 2"
proof -
  have "config_valid (demo_opt\<lparr>oc_tail_turns := 0\<rparr>)" by (simp add: config_valid_def demo_opt_def)
  from tail_turns_zero_is_default [OF this] show ?thesis by auto
qed

end
