(* ===== verification/Safety.thy ===== *)
theory Safety
  imports GoText
begin

text \<open>
  The safety primitives of \<^verbatim>\<open>libs/toolkit/safety\<close> and \<^verbatim>\<open>libs/toolkit/confirm\<close>: gate parameters,
  execution grants carried in a context, the gate with authorization, CEL policies and chains,
  audit sinks, controller ownership and the per-tool confirmation check.

  A \<open>context.Context\<close> is here what these functions read of it: \<open>None\<close> for a nil context, otherwise
  the set of tools granted execution. The JSON decoder of the gate parameters, the CEL engine, the
  conversion of parameters to its structure and the host's authorizer are parameters.
\<close>

section \<open>Grants in a context\<close>

type_synonym ctx = "string list option"

definition with_execution_authorized :: "ctx \<Rightarrow> string \<Rightarrow> ctx" where
  "with_execution_authorized c tool =
     (case c of None \<Rightarrow> c
      | Some granted \<Rightarrow> if tool = [] then c else Some (tool # filter (\<lambda>t. t \<noteq> tool) granted))"

definition execution_authorized_for :: "ctx \<Rightarrow> string \<Rightarrow> bool" where
  "execution_authorized_for c tool =
     (case c of None \<Rightarrow> False | Some granted \<Rightarrow> if tool = [] then False else tool \<in> set granted)"

section \<open>The gate\<close>

record gate_params =
  gp_dry_run :: bool
  gp_confirmed :: bool

datatype policy_error = StructConversion | RuleError string | RuleNotBool string | RuleDenied string
  | InChain nat policy_error | CustomDenied string

datatype safety_error = EPolicy policy_error | EGateParse | EGateRequired | ENotAuthorized
  | EAuthorizer string string | ENotConfirmed | EActionNotConfirmed string | ETool string
  | EBlocked string nat

type_synonym authorizer = "ctx \<Rightarrow> string \<Rightarrow> string \<Rightarrow> string option"

definition new_write_tool_set :: "string list \<Rightarrow> string set" where
  "new_write_tool_set names = set names"

definition should_gate_with_authorization ::
    "ctx \<Rightarrow> string \<Rightarrow> string set \<Rightarrow> gate_params \<Rightarrow> string \<Rightarrow> authorizer option \<Rightarrow> safety_error option" where
  "should_gate_with_authorization c tool write_tools gp args auth =
     (if tool \<notin> write_tools then None
      else if gp_dry_run gp then None
      else if \<not> gp_confirmed gp then Some EGateRequired
      else case auth of
        None \<Rightarrow> Some ENotAuthorized
      | Some a \<Rightarrow> (case a c tool args of Some err \<Rightarrow> Some (EAuthorizer tool err) | None \<Rightarrow> None))"

definition extract_gate_params :: "(string \<Rightarrow> gate_params option) \<Rightarrow> string \<Rightarrow> safety_error + gate_params" where
  "extract_gate_params unmarshal raw =
     (case unmarshal raw of None \<Rightarrow> Inl EGateParse | Some gp \<Rightarrow> Inr gp)"

section \<open>The per-tool confirmation check\<close>

definition require_confirmation_ctx :: "ctx \<Rightarrow> string \<Rightarrow> bool \<Rightarrow> bool \<Rightarrow> safety_error option" where
  "require_confirmation_ctx c tool dry_run confirmed =
     (if dry_run then None
      else if \<not> confirmed then Some ENotConfirmed
      else if \<not> execution_authorized_for c tool then Some ENotAuthorized
      else None)"

definition require_confirmation_for_action_ctx :: "ctx \<Rightarrow> string \<Rightarrow> string \<Rightarrow> bool \<Rightarrow> safety_error option" where
  "require_confirmation_for_action_ctx c tool action confirmed =
     (if \<not> confirmed then Some (EActionNotConfirmed action)
      else if \<not> execution_authorized_for c tool then Some ENotAuthorized
      else None)"

section \<open>Policies\<close>

text \<open>What a compiled CEL program returns on an activation.\<close>

datatype cel_value = CelError | CelBool bool | CelOther

record 'v cel_rule =
  rule_name :: string
  rule_tools :: "string list"
  rule_program :: "string \<Rightarrow> 'v \<Rightarrow> cel_value"

type_synonym 'p policy = "string \<Rightarrow> 'p \<Rightarrow> policy_error option"

definition matches_tool :: "string list \<Rightarrow> string \<Rightarrow> bool" where
  "matches_tool tools tool \<longleftrightarrow> tools = [] \<or> tool \<in> set tools"

fun eval_rules :: "'v cel_rule list \<Rightarrow> string \<Rightarrow> 'v \<Rightarrow> policy_error option" where
  "eval_rules [] tool v = None"
| "eval_rules (r # rs) tool v =
     (if \<not> matches_tool (rule_tools r) tool then eval_rules rs tool v
      else case rule_program r tool v of
        CelError \<Rightarrow> Some (RuleError (rule_name r))
      | CelOther \<Rightarrow> Some (RuleNotBool (rule_name r))
      | CelBool allowed \<Rightarrow> if \<not> allowed then Some (RuleDenied (rule_name r)) else eval_rules rs tool v)"

definition cel_evaluate :: "('p \<Rightarrow> 'v option) \<Rightarrow> 'v cel_rule list \<Rightarrow> 'p policy" where
  "cel_evaluate to_struct rules = (\<lambda>tool params.
     case to_struct params of None \<Rightarrow> Some StructConversion | Some v \<Rightarrow> eval_rules rules tool v)"

fun chain_from :: "nat \<Rightarrow> 'p policy list \<Rightarrow> 'p policy" where
  "chain_from i [] tool params = None"
| "chain_from i (p # ps) tool params =
     (case p tool params of Some e \<Rightarrow> Some (InChain i e) | None \<Rightarrow> chain_from (Suc i) ps tool params)"

definition chain_evaluate :: "'p policy list \<Rightarrow> 'p policy" where
  "chain_evaluate ps = chain_from 0 ps"

section \<open>The command blocklist\<close>

text \<open>A compiled pattern is the predicate its \<open>MatchString\<close> computes; the error carries the command
  line and the index of the pattern.\<close>

fun first_match :: "nat \<Rightarrow> (string \<Rightarrow> bool) list \<Rightarrow> string \<Rightarrow> nat option" where
  "first_match i [] s = None"
| "first_match i (p # ps) s = (if p s then Some i else first_match (Suc i) ps s)"

definition check_blocklist :: "(string \<Rightarrow> bool) list \<Rightarrow> string list \<Rightarrow> safety_error option" where
  "check_blocklist compiled command =
     (let s = join '' '' command in
      case first_match 0 compiled s of None \<Rightarrow> None | Some i \<Rightarrow> Some (EBlocked s i))"

section \<open>Audit\<close>

datatype phase = PhaseRead | PhaseDryRun | PhaseExecute | PhaseRejected

record audit_event =
  ae_tool :: string
  ae_call :: string
  ae_phase :: phase
  ae_args :: string
  ae_result :: string
  ae_error :: "safety_error option"
  ae_policy_pass :: bool

text \<open>A \<open>ChannelSink\<close>: the buffered events, the buffer size and whether it was closed. Sending on a
  closed channel panics.\<close>

record channel_sink =
  cs_events :: "audit_event list"
  cs_size :: nat
  cs_closed :: bool

definition new_channel_sink :: "int \<Rightarrow> channel_sink" where
  "new_channel_sink n = \<lparr>cs_events = [], cs_size = (if n \<le> 0 then 100 else nat n), cs_closed = False\<rparr>"

definition channel_write :: "channel_sink \<Rightarrow> audit_event \<Rightarrow> channel_sink option" where
  "channel_write s e =
     (if cs_closed s then None
      else if length (cs_events s) < cs_size s then Some (s\<lparr>cs_events := cs_events s @ [e]\<rparr>)
      else Some s)"

definition channel_receive :: "channel_sink \<Rightarrow> (audit_event \<times> channel_sink) option" where
  "channel_receive s =
     (case cs_events s of [] \<Rightarrow> None | e # es \<Rightarrow> Some (e, s\<lparr>cs_events := es\<rparr>))"

definition channel_close :: "channel_sink \<Rightarrow> channel_sink option" where
  "channel_close s = (if cs_closed s then None else Some (s\<lparr>cs_closed := True\<rparr>))"

section \<open>Ownership\<close>

record owner_ref =
  or_api_version :: string
  or_name :: string
  or_controller :: "bool option"

record ownership =
  ow_managed :: bool
  ow_managed_by :: string
  ow_controller :: string
  ow_refs :: "string list"
  ow_warnings :: "string list"

definition add_owner_ref :: "owner_ref \<Rightarrow> ownership \<Rightarrow> ownership" where
  "add_owner_ref r info =
     info\<lparr>ow_managed := True, ow_refs := ow_refs info @ [or_api_version r @ ''/'' @ or_name r],
          ow_controller := (if or_controller r = Some True then or_name r else ow_controller info)\<rparr>"

text \<open>One annotation or label that names a manager: its value when present and not empty.\<close>

definition add_manager :: "string option \<Rightarrow> (string \<Rightarrow> string) \<Rightarrow> (string \<Rightarrow> string) \<Rightarrow> ownership \<Rightarrow> ownership" where
  "add_manager val manager warning info =
     (case val of None \<Rightarrow> info
      | Some v \<Rightarrow>
          if v = [] then info
          else info\<lparr>ow_managed := True,
                    ow_managed_by := (if ow_managed_by info = [] then manager v else ow_managed_by info),
                    ow_warnings := ow_warnings info @ [warning v]\<rparr>)"

definition argocd_annotation :: string where "argocd_annotation = ''argocd.argoproj.io/instance''"
definition helm_annotation :: string where "helm_annotation = ''meta.helm.sh/release-name''"
definition flux_annotation :: string where "flux_annotation = ''kustomize.toolkit.fluxcd.io/name''"
definition kubectl_annotation :: string where
  "kubectl_annotation = ''kubectl.kubernetes.io/last-applied-configuration''"
definition managed_by_label :: string where "managed_by_label = ''app.kubernetes.io/managed-by''"

text \<open>The quoting of the label's value in its warning is Go's \<open>%q\<close>, a parameter.\<close>

definition check_ownership ::
    "(string \<Rightarrow> string) \<Rightarrow> owner_ref list \<Rightarrow> (string \<Rightarrow> string option) \<Rightarrow> (string \<Rightarrow> string option) \<Rightarrow> ownership" where
  "check_ownership quote refs annotations labels =
     (let drift = ''). Modifying it directly may cause drift.'';
          i0 = \<lparr>ow_managed = False, ow_managed_by = [], ow_controller = [], ow_refs = [], ow_warnings = []\<rparr>;
          i1 = fold add_owner_ref refs i0;
          i2 = (case annotations argocd_annotation of None \<Rightarrow> i1
                | Some v \<Rightarrow> if v = [] then i1
                    else i1\<lparr>ow_managed := True, ow_managed_by := ''argocd'',
                            ow_warnings := ow_warnings i1 @ [''This resource is managed by ArgoCD (instance: '' @ v @ drift]\<rparr>);
          i3 = add_manager (annotations helm_annotation) (\<lambda>_. ''helm'')
                 (\<lambda>v. ''This resource is managed by Helm (release: '' @ v @ drift) i2;
          i4 = add_manager (annotations flux_annotation) (\<lambda>_. ''flux'')
                 (\<lambda>v. ''This resource is managed by Flux (kustomization: '' @ v @ drift) i3;
          i5 = add_manager (labels managed_by_label) (\<lambda>v. v)
                 (\<lambda>v. ''This resource is managed by '' @ quote v @ '' (via app.kubernetes.io/managed-by label).'') i4
      in if annotations kubectl_annotation = None then i5
         else i5\<lparr>ow_warnings := ow_warnings i5 @
           [''This resource was previously applied with kubectl. Modifying it may conflict with expected state.'']\<rparr>)"

section \<open>Lemmas\<close>

lemma authorized_for_grant:
  "execution_authorized_for (with_execution_authorized c t) t'
     \<longleftrightarrow> c \<noteq> None \<and> t' \<noteq> [] \<and> (t' = t \<or> execution_authorized_for c t')"
  by (auto simp: execution_authorized_for_def with_execution_authorized_def split: option.splits)

lemma gate_None_iff:
  "should_gate_with_authorization c tool ws gp args auth = None \<longleftrightarrow>
     tool \<notin> ws \<or> gp_dry_run gp
     \<or> gp_confirmed gp \<and> (\<exists>a. auth = Some a \<and> a c tool args = None)"
  by (auto simp: should_gate_with_authorization_def split: option.splits)

lemma eval_rules_None:
  "eval_rules rs tool v = None \<longleftrightarrow>
     (\<forall>r \<in> set rs. matches_tool (rule_tools r) tool \<longrightarrow> rule_program r tool v = CelBool True)"
  by (induction rs) (auto split: cel_value.splits)

lemma chain_from_None: "chain_from i ps tool v = None \<longleftrightarrow> (\<forall>p \<in> set ps. p tool v = None)"
  by (induction ps arbitrary: i) (auto split: option.splits)

lemma chain_from_Some:
  "chain_from i ps tool v = Some e \<Longrightarrow>
     \<exists>j < length ps. \<exists>e'. e = InChain (i + j) e' \<and> (ps ! j) tool v = Some e'
       \<and> (\<forall>k < j. (ps ! k) tool v = None)"
proof (induction ps arbitrary: i)
  case (Cons p ps)
  show ?case
  proof (cases "p tool v")
    case (Some e')
    with Cons.prems show ?thesis by (intro exI [of _ 0]) auto
  next
    case None
    with Cons.prems have "chain_from (Suc i) ps tool v = Some e" by simp
    from Cons.IH [OF this] obtain j e' where "j < length ps" "e = InChain (Suc i + j) e'"
      "(ps ! j) tool v = Some e'" "\<forall>k < j. (ps ! k) tool v = None" by auto
    with None show ?thesis by (intro exI [of _ "Suc j"]) (auto simp: less_Suc_eq_0_disj)
  qed
qed simp

lemma first_match_None: "first_match i ps s = None \<longleftrightarrow> (\<forall>p \<in> set ps. \<not> p s)"
  by (induction ps arbitrary: i) auto

section \<open>Properties\<close>

text \<open>A policy chain of CEL policies allows a call exactly when, for every policy, the parameters
  convert and every rule that applies to the tool evaluates to true; otherwise the error names
  the first policy that denies. An evaluation error or a result that is no boolean denies.\<close>

theorem policy_chain_allows:
  "(chain_evaluate (map (cel_evaluate to_struct) rule_lists) tool params = None)
     = (\<forall>rules \<in> set rule_lists. \<exists>v. to_struct params = Some v \<and>
          (\<forall>r \<in> set rules. matches_tool (rule_tools r) tool \<longrightarrow> rule_program r tool v = CelBool True))"
  by (auto simp: chain_evaluate_def chain_from_None cel_evaluate_def eval_rules_None split: option.splits)

theorem policy_chain_allows_witness:
  "chain_evaluate [cel_evaluate Some [\<lparr>rule_name = ''r'', rule_tools = [''t''], rule_program = (\<lambda>_ n. CelBool (n < (3::nat)))\<rparr>]] ''t'' 2 = None"
  using policy_chain_allows [of Some "[[\<lparr>rule_name = ''r'', rule_tools = [''t''], rule_program = (\<lambda>_ n. CelBool (n < (3::nat)))\<rparr>]]" "''t''" 2]
  by simp

text \<open>The grants of a context are exactly the ones that were made: marking one tool executable
  grants that tool and no other, never the empty name, and nothing on a nil context.\<close>

theorem grants_exact:
  "execution_authorized_for (fold (\<lambda>t c. with_execution_authorized c t) tools c) tool
     = (c \<noteq> None \<and> tool \<noteq> [] \<and> (tool \<in> set tools \<or> execution_authorized_for c tool))"
proof (induction tools arbitrary: c)
  case Nil
  then show ?case by (auto simp: execution_authorized_for_def split: option.splits)
next
  case (Cons t ts)
  have "with_execution_authorized c t = None \<longleftrightarrow> c = None"
    by (auto simp: with_execution_authorized_def split: option.splits)
  with Cons show ?case by (auto simp: authorized_for_grant)
qed

text \<open>A channel sink never holds more events than its buffer, drops the newest when it is full,
  never blocks, and delivers the others in the order they were written.\<close>

theorem channel_sink_bounded:
  assumes "\<not> cs_closed s" and "length (cs_events s) \<le> cs_size s"
    and "s' = fold (\<lambda>e s. the (channel_write s e)) es s"
  shows "cs_size s' = cs_size s \<and> length (cs_events s') \<le> cs_size s' \<and> \<not> cs_closed s'
    \<and> cs_events s' = take (cs_size s) (cs_events s @ es)"
  using assms
proof (induction es arbitrary: s)
  case (Cons e es)
  show ?case
  proof (cases "length (cs_events s) < cs_size s")
    case True
    then have w: "the (channel_write s e) = s\<lparr>cs_events := cs_events s @ [e]\<rparr>"
      using Cons.prems(1) by (simp add: channel_write_def)
    show ?thesis using Cons.IH [of "the (channel_write s e)"] Cons.prems True by (simp add: w)
  next
    case False
    then have w: "the (channel_write s e) = s" "cs_size s = length (cs_events s)"
      using Cons.prems by (simp_all add: channel_write_def)
    show ?thesis using Cons.IH [of "the (channel_write s e)"] Cons.prems by (simp add: w)
  qed
qed auto

theorem channel_sink_bounded_witness:
  "\<exists>e. let s = fold (\<lambda>e s. the (channel_write s e)) [e, e, e] (new_channel_sink 2) in cs_events s = [e, e]"
proof -
  let ?e = "\<lparr>ae_tool = ''t'', ae_call = ''c'', ae_phase = PhaseRead, ae_args = [], ae_result = [], ae_error = None,
     ae_policy_pass = True\<rparr>"
  have "\<not> cs_closed (new_channel_sink 2)" "length (cs_events (new_channel_sink 2)) \<le> cs_size (new_channel_sink 2)"
    by (simp_all add: new_channel_sink_def)
  from channel_sink_bounded [OF this refl, of "[?e, ?e, ?e]"]
  have "cs_events (fold (\<lambda>e s. the (channel_write s e)) [?e, ?e, ?e] (new_channel_sink 2)) = [?e, ?e]"
    by (simp add: new_channel_sink_def numeral_2_eq_2)
  then show ?thesis unfolding Let_def by blast
qed

end
