(* ===== verification/SafetyMiddleware.thy ===== *)
theory SafetyMiddleware
  imports Safety
begin

text \<open>
  The safety middleware, \<^verbatim>\<open>components/middleware/safety/middleware.go\<close>: every tool call passes policy,
  gate and authorization before its endpoint runs, and leaves audit events.

  A wrapped call returns its result and its trace: the audit events it wrote and the calls it made
  to the endpoint, in order. An endpoint, the argument parsers, the policy and the authorizer are
  parameters. A stream is the list of its chunks and the error that ends it, \<open>None\<close> for the end of
  file. Timestamps are not modelled.
\<close>

section \<open>Configuration\<close>

record 'p safety_config =
  sc_write_tools :: "string list"
  sc_policy :: "'p policy option"
  sc_authorizer :: "authorizer option"
  sc_allow_model_confirmation :: bool
  sc_parse_args :: "string \<Rightarrow> 'p option"
  sc_empty_params :: "'p"
  sc_gate_params :: "string \<Rightarrow> gate_params option"

datatype event = TAudit audit_event | TCall ctx string

definition reject_event :: "string \<Rightarrow> string \<Rightarrow> string \<Rightarrow> safety_error \<Rightarrow> bool \<Rightarrow> audit_event" where
  "reject_event tool call args err policy_pass =
     \<lparr>ae_tool = tool, ae_call = call, ae_phase = PhaseRejected, ae_args = args, ae_result = [],
      ae_error = Some err, ae_policy_pass = policy_pass\<rparr>"

definition result_event ::
    "string \<Rightarrow> string \<Rightarrow> phase \<Rightarrow> string \<Rightarrow> string \<Rightarrow> safety_error option \<Rightarrow> audit_event" where
  "result_event tool call ph args result err =
     \<lparr>ae_tool = tool, ae_call = call, ae_phase = ph, ae_args = args,
      ae_result = (if err = None then result else []), ae_error = err, ae_policy_pass = True\<rparr>"

section \<open>Preflight\<close>

definition gate_error ::
    "'p safety_config \<Rightarrow> ctx \<Rightarrow> string \<Rightarrow> string \<Rightarrow> gate_params \<Rightarrow> safety_error option" where
  "gate_error cfg c tool args gp =
     (if sc_allow_model_confirmation cfg then
        (if gp_dry_run gp then None else if gp_confirmed gp then None else Some EGateRequired)
      else should_gate_with_authorization c tool (new_write_tool_set (sc_write_tools cfg)) gp args
             (sc_authorizer cfg))"

definition preflight ::
    "'p safety_config \<Rightarrow> ctx \<Rightarrow> string \<Rightarrow> string \<Rightarrow> string \<Rightarrow> bool
      \<Rightarrow> (safety_error + (ctx \<times> phase)) \<times> event list" where
  "preflight cfg c tool call args is_write =
     (let params = (case sc_parse_args cfg args of None \<Rightarrow> sc_empty_params cfg | Some p \<Rightarrow> p) in
      case (case sc_policy cfg of None \<Rightarrow> None | Some p \<Rightarrow> p tool params) of
        Some e \<Rightarrow> (Inl (EPolicy e), [TAudit (reject_event tool call args (EPolicy e) False)])
      | None \<Rightarrow>
          if \<not> is_write then (Inr (c, PhaseRead), [])
          else case extract_gate_params (sc_gate_params cfg) args of
            Inl e \<Rightarrow> (Inl e, [TAudit (reject_event tool call args e True)])
          | Inr gp \<Rightarrow>
              (case gate_error cfg c tool args gp of
                 Some e \<Rightarrow> (Inl e, [TAudit (reject_event tool call args e True)])
               | None \<Rightarrow>
                   if gp_dry_run gp then (Inr (c, PhaseDryRun), [])
                   else (Inr (with_execution_authorized c tool, PhaseExecute), [])))"

section \<open>Wrapped calls\<close>

definition dry_run_guidance :: string where
  "dry_run_guidance = [CHR 0x0A, CHR 0x0A] @ ''DRY-RUN RESULT: This is a preview of what would happen. Show this to the user and ask for confirmation before re-calling with confirmed=true.''"

definition is_write_tool :: "'p safety_config \<Rightarrow> string \<Rightarrow> bool" where
  "is_write_tool cfg tool \<longleftrightarrow> tool \<in> new_write_tool_set (sc_write_tools cfg)"

definition wrap_invokable ::
    "'p safety_config \<Rightarrow> (ctx \<Rightarrow> string \<Rightarrow> safety_error + string) \<Rightarrow> string \<Rightarrow> string \<Rightarrow> ctx \<Rightarrow> string
      \<Rightarrow> (safety_error + string) \<times> event list" where
  "wrap_invokable cfg endpoint tool call c args =
     (case preflight cfg c tool call args (is_write_tool cfg tool) of
        (Inl e, tr) \<Rightarrow> (Inl e, tr)
      | (Inr (ec, ph), tr) \<Rightarrow>
          (case endpoint ec args of
             Inl e \<Rightarrow> (Inl e, tr @ [TCall ec args, TAudit (result_event tool call ph args [] (Some e))])
           | Inr result \<Rightarrow>
               (Inr (if ph = PhaseDryRun then result @ dry_run_guidance else result),
                tr @ [TCall ec args, TAudit (result_event tool call ph args result None)])))"

type_synonym stream = "string list \<times> string option"

text \<open>The goroutine of \<open>wrapStreamAudit\<close>: what it sends on and the event it writes at the end.\<close>

fun stream_audit_loop ::
    "string \<Rightarrow> string \<Rightarrow> phase \<Rightarrow> string \<Rightarrow> bool \<Rightarrow> string list \<Rightarrow> string option \<Rightarrow> string
      \<Rightarrow> string list \<times> audit_event" where
  "stream_audit_loop tool call ph args dry [] None full =
     (if dry then ([dry_run_guidance], result_event tool call ph args (full @ dry_run_guidance) None)
      else ([], result_event tool call ph args full None))"
| "stream_audit_loop tool call ph args dry [] (Some err) full =
     ([''tool call failed: '' @ err], result_event tool call ph args [] (Some (ETool err)))"
| "stream_audit_loop tool call ph args dry (x # xs) err full =
     (let (out, ev) = stream_audit_loop tool call ph args dry xs err (full @ x) in (x # out, ev))"

definition wrap_streamable ::
    "'p safety_config \<Rightarrow> (ctx \<Rightarrow> string \<Rightarrow> safety_error + stream) \<Rightarrow> string \<Rightarrow> string \<Rightarrow> ctx \<Rightarrow> string
      \<Rightarrow> (safety_error + string list) \<times> event list" where
  "wrap_streamable cfg endpoint tool call c args =
     (case preflight cfg c tool call args (is_write_tool cfg tool) of
        (Inl e, tr) \<Rightarrow> (Inl e, tr)
      | (Inr (ec, ph), tr) \<Rightarrow>
          (case endpoint ec args of
             Inl e \<Rightarrow> (Inl e, tr @ [TCall ec args, TAudit (result_event tool call ph args [] (Some e))])
           | Inr (xs, err) \<Rightarrow>
               let (out, ev) = stream_audit_loop tool call ph args (ph = PhaseDryRun) xs err [] in
               (Inr out, tr @ [TCall ec args, TAudit ev])))"

text \<open>The enhanced variants differ in the result: a list of text parts, never written to the audit.\<close>

type_synonym parts = "string list"

definition wrap_enhanced_invokable ::
    "'p safety_config \<Rightarrow> (ctx \<Rightarrow> string \<Rightarrow> safety_error + parts) \<Rightarrow> string \<Rightarrow> string \<Rightarrow> ctx \<Rightarrow> string
      \<Rightarrow> (safety_error + parts) \<times> event list" where
  "wrap_enhanced_invokable cfg endpoint tool call c args =
     (case preflight cfg c tool call args (is_write_tool cfg tool) of
        (Inl e, tr) \<Rightarrow> (Inl e, tr)
      | (Inr (ec, ph), tr) \<Rightarrow>
          (case endpoint ec args of
             Inl e \<Rightarrow> (Inl e, tr @ [TCall ec args, TAudit (result_event tool call ph args [] (Some e))])
           | Inr ps \<Rightarrow>
               (Inr (if ph = PhaseDryRun then ps @ [dry_run_guidance] else ps),
                tr @ [TCall ec args, TAudit (result_event tool call ph args [] None)])))"

fun enhanced_stream_audit_loop ::
    "string \<Rightarrow> string \<Rightarrow> phase \<Rightarrow> string \<Rightarrow> bool \<Rightarrow> parts list \<Rightarrow> string option \<Rightarrow> parts list \<times> audit_event" where
  "enhanced_stream_audit_loop tool call ph args dry [] None =
     ((if dry then [[dry_run_guidance]] else []), result_event tool call ph args [] None)"
| "enhanced_stream_audit_loop tool call ph args dry [] (Some err) =
     ([[''tool call failed: '' @ err]], result_event tool call ph args [] (Some (ETool err)))"
| "enhanced_stream_audit_loop tool call ph args dry (x # xs) err =
     (let (out, ev) = enhanced_stream_audit_loop tool call ph args dry xs err in (x # out, ev))"

definition wrap_enhanced_streamable ::
    "'p safety_config \<Rightarrow> (ctx \<Rightarrow> string \<Rightarrow> safety_error + (parts list \<times> string option)) \<Rightarrow> string \<Rightarrow> string
      \<Rightarrow> ctx \<Rightarrow> string \<Rightarrow> (safety_error + parts list) \<times> event list" where
  "wrap_enhanced_streamable cfg endpoint tool call c args =
     (case preflight cfg c tool call args (is_write_tool cfg tool) of
        (Inl e, tr) \<Rightarrow> (Inl e, tr)
      | (Inr (ec, ph), tr) \<Rightarrow>
          (case endpoint ec args of
             Inl e \<Rightarrow> (Inl e, tr @ [TCall ec args, TAudit (result_event tool call ph args [] (Some e))])
           | Inr (xs, err) \<Rightarrow>
               let (out, ev) = enhanced_stream_audit_loop tool call ph args (ph = PhaseDryRun) xs err in
               (Inr out, tr @ [TCall ec args, TAudit ev])))"

section \<open>What preflight decides\<close>

definition policy_allows :: "'p safety_config \<Rightarrow> string \<Rightarrow> string \<Rightarrow> bool" where
  "policy_allows cfg tool args \<longleftrightarrow>
     (case sc_policy cfg of None \<Rightarrow> True
      | Some p \<Rightarrow> p tool (case sc_parse_args cfg args of None \<Rightarrow> sc_empty_params cfg | Some x \<Rightarrow> x) = None)"

lemma preflight_Inr:
  assumes "preflight cfg c tool call args w = (Inr (ec, ph), tr)"
  shows "tr = [] \<and> policy_allows cfg tool args
    \<and> (if \<not> w then ec = c \<and> ph = PhaseRead
       else \<exists>gp. sc_gate_params cfg args = Some gp \<and> gate_error cfg c tool args gp = None
         \<and> (if gp_dry_run gp then ec = c \<and> ph = PhaseDryRun
            else ec = with_execution_authorized c tool \<and> ph = PhaseExecute))"
  using assms
  by (auto simp: preflight_def policy_allows_def extract_gate_params_def Let_def
      split: option.splits sum.splits if_splits)

lemma preflight_Inl:
  assumes "preflight cfg c tool call args w = (Inl e, tr)"
  shows "\<exists>pp. tr = [TAudit (reject_event tool call args e pp)] \<and> pp = policy_allows cfg tool args"
  using assms
  by (auto simp: preflight_def policy_allows_def extract_gate_params_def Let_def
      split: option.splits sum.splits if_splits)

text \<open>The four wrappers share their trace: preflight's, or one call and one event.\<close>

definition wrapped_trace ::
    "'p safety_config \<Rightarrow> string \<Rightarrow> string \<Rightarrow> ctx \<Rightarrow> string \<Rightarrow> event list \<Rightarrow> bool" where
  "wrapped_trace cfg tool call c args tr \<longleftrightarrow>
     (case preflight cfg c tool call args (is_write_tool cfg tool) of
        (Inl e, ptr) \<Rightarrow> tr = ptr
      | (Inr (ec, ph), ptr) \<Rightarrow>
          (\<exists>ev. tr = [TCall ec args, TAudit ev] \<and> ae_phase ev = ph \<and> ae_tool ev = tool
             \<and> ae_call ev = call \<and> ae_args ev = args \<and> ae_policy_pass ev))"

lemma stream_audit_event:
  "\<exists>r e. snd (stream_audit_loop tool call ph args dry xs err full) = result_event tool call ph args r e"
  by (induction tool call ph args dry xs err full rule: stream_audit_loop.induct)
    (auto split: prod.splits, blast)

lemma enhanced_stream_audit_event:
  "\<exists>e. snd (enhanced_stream_audit_loop tool call ph args dry xs err) = result_event tool call ph args [] e"
  by (induction tool call ph args dry xs err rule: enhanced_stream_audit_loop.induct)
    (fastforce split: prod.splits)+

lemma wrap_traces:
  "wrapped_trace cfg tool call c args (snd (wrap_invokable cfg ep1 tool call c args))"
  "wrapped_trace cfg tool call c args (snd (wrap_streamable cfg ep2 tool call c args))"
  "wrapped_trace cfg tool call c args (snd (wrap_enhanced_invokable cfg ep3 tool call c args))"
  "wrapped_trace cfg tool call c args (snd (wrap_enhanced_streamable cfg ep4 tool call c args))"
proof -
  obtain r ptr where p: "preflight cfg c tool call args (is_write_tool cfg tool) = (r, ptr)" by fastforce
  have ev: "ae_phase (result_event tool call ph args x e) = ph" "ae_tool (result_event tool call ph args x e) = tool"
    "ae_call (result_event tool call ph args x e) = call" "ae_args (result_event tool call ph args x e) = args"
    "ae_policy_pass (result_event tool call ph args x e)" for ph x e
    by (simp_all add: result_event_def)
  show "wrapped_trace cfg tool call c args (snd (wrap_invokable cfg ep1 tool call c args))"
  proof (cases r)
    case (Inl e)
    then show ?thesis by (simp add: wrapped_trace_def wrap_invokable_def p)
  next
    case (Inr x)
    obtain ec ph where x: "x = (ec, ph)" by (cases x)
    have "ptr = []" using preflight_Inr p Inr x by fastforce
    then show ?thesis
      by (cases "ep1 ec args") (simp_all add: wrapped_trace_def wrap_invokable_def p Inr x ev)
  qed
  show "wrapped_trace cfg tool call c args (snd (wrap_streamable cfg ep2 tool call c args))"
  proof (cases r)
    case (Inl e)
    then show ?thesis by (simp add: wrapped_trace_def wrap_streamable_def p)
  next
    case (Inr x)
    obtain ec ph where x: "x = (ec, ph)" by (cases x)
    have pt: "ptr = []" using preflight_Inr p Inr x by fastforce
    show ?thesis
    proof (cases "ep2 ec args")
      case i: (Inl e)
      then show ?thesis by (simp add: wrapped_trace_def wrap_streamable_def p Inr x pt ev)
    next
      case i: (Inr y)
      obtain xs err where y: "y = (xs, err)" by (cases y)
      obtain out e2 where l: "stream_audit_loop tool call ph args (ph = PhaseDryRun) xs err [] = (out, e2)" by fastforce
      then obtain r2 e3 where "e2 = result_event tool call ph args r2 e3"
        using stream_audit_event [of tool call ph args "ph = PhaseDryRun" xs err "[]"] by auto
      then show ?thesis by (simp add: wrapped_trace_def wrap_streamable_def p Inr x pt i y l ev)
    qed
  qed
  show "wrapped_trace cfg tool call c args (snd (wrap_enhanced_invokable cfg ep3 tool call c args))"
  proof (cases r)
    case (Inl e)
    then show ?thesis by (simp add: wrapped_trace_def wrap_enhanced_invokable_def p)
  next
    case (Inr x)
    obtain ec ph where x: "x = (ec, ph)" by (cases x)
    have "ptr = []" using preflight_Inr p Inr x by fastforce
    then show ?thesis
      by (cases "ep3 ec args") (simp_all add: wrapped_trace_def wrap_enhanced_invokable_def p Inr x ev)
  qed
  show "wrapped_trace cfg tool call c args (snd (wrap_enhanced_streamable cfg ep4 tool call c args))"
  proof (cases r)
    case (Inl e)
    then show ?thesis by (simp add: wrapped_trace_def wrap_enhanced_streamable_def p)
  next
    case (Inr x)
    obtain ec ph where x: "x = (ec, ph)" by (cases x)
    have pt: "ptr = []" using preflight_Inr p Inr x by fastforce
    show ?thesis
    proof (cases "ep4 ec args")
      case i: (Inl e)
      then show ?thesis by (simp add: wrapped_trace_def wrap_enhanced_streamable_def p Inr x pt ev)
    next
      case i: (Inr y)
      obtain xs err where y: "y = (xs, err)" by (cases y)
      obtain out e2 where l: "enhanced_stream_audit_loop tool call ph args (ph = PhaseDryRun) xs err = (out, e2)" by fastforce
      then obtain e3 where "e2 = result_event tool call ph args [] e3"
        using enhanced_stream_audit_event [of tool call ph args "ph = PhaseDryRun" xs err] by auto
      then show ?thesis by (simp add: wrapped_trace_def wrap_enhanced_streamable_def p Inr x pt i y l ev)
    qed
  qed
qed

section \<open>Properties\<close>

text \<open>The traces the four wrappers can leave for a call.\<close>

definition call_traces ::
    "'p safety_config \<Rightarrow> (ctx \<Rightarrow> string \<Rightarrow> safety_error + string) \<Rightarrow> (ctx \<Rightarrow> string \<Rightarrow> safety_error + stream)
      \<Rightarrow> (ctx \<Rightarrow> string \<Rightarrow> safety_error + parts) \<Rightarrow> (ctx \<Rightarrow> string \<Rightarrow> safety_error + (parts list \<times> string option))
      \<Rightarrow> string \<Rightarrow> string \<Rightarrow> ctx \<Rightarrow> string \<Rightarrow> event list list" where
  "call_traces cfg ep1 ep2 ep3 ep4 tool call c args =
     [snd (wrap_invokable cfg ep1 tool call c args), snd (wrap_streamable cfg ep2 tool call c args),
      snd (wrap_enhanced_invokable cfg ep3 tool call c args), snd (wrap_enhanced_streamable cfg ep4 tool call c args)]"

lemma call_traces_wrapped:
  "tr \<in> set (call_traces cfg ep1 ep2 ep3 ep4 tool call c args) \<Longrightarrow> wrapped_trace cfg tool call c args tr"
  using wrap_traces [where cfg = cfg and tool = tool and call = call and c = c and args = args]
  by (auto simp: call_traces_def)

lemma wrapped_call:
  assumes "wrapped_trace cfg tool call c args tr" "TCall ec args' \<in> set tr"
  obtains ph ev where "preflight cfg c tool call args (is_write_tool cfg tool) = (Inr (ec, ph), [])"
    "args' = args" "tr = [TCall ec args, TAudit ev]" "ae_phase ev = ph"
proof -
  obtain r ptr where p: "preflight cfg c tool call args (is_write_tool cfg tool) = (r, ptr)" by fastforce
  show ?thesis
  proof (cases r)
    case (Inl e)
    with preflight_Inl [of cfg c tool call args "is_write_tool cfg tool" e ptr] p assms show ?thesis
      by (auto simp: wrapped_trace_def)
  next
    case (Inr x)
    obtain ec' ph where x: "x = (ec', ph)" by (cases x)
    have "ptr = []" using preflight_Inr p Inr x by fastforce
    with p Inr x assms that show ?thesis by (auto simp: wrapped_trace_def)
  qed
qed

text \<open>C1: A write tool's endpoint runs only on a call that the policy allows and that either asks for a
  dry run or is confirmed and approved by the host's authorizer for these arguments; this holds
  for each of the four kinds of tool call. Without an authorizer only dry runs pass.\<close>

theorem write_call_authorized:
  assumes "tr \<in> set (call_traces cfg ep1 ep2 ep3 ep4 tool call c args)"
    and "TCall ec args' \<in> set tr" and "tool \<in> set (sc_write_tools cfg)"
    and "\<not> sc_allow_model_confirmation cfg"
  shows "args' = args \<and> policy_allows cfg tool args
    \<and> (\<exists>gp. sc_gate_params cfg args = Some gp
         \<and> (gp_dry_run gp \<or> gp_confirmed gp \<and> (\<exists>a. sc_authorizer cfg = Some a \<and> a c tool args = None)))"
proof -
  obtain ph ev where p: "preflight cfg c tool call args (is_write_tool cfg tool) = (Inr (ec, ph), [])" "args' = args"
    using wrapped_call [OF call_traces_wrapped [OF assms(1)] assms(2)] by metis
  have w: "is_write_tool cfg tool" using assms(3) by (simp add: is_write_tool_def new_write_tool_set_def)
  from preflight_Inr [OF p(1)] w p(2) assms(3,4) show ?thesis
    by (auto simp: gate_error_def gate_None_iff new_write_tool_set_def)
qed

text \<open>C20: Every call leaves exactly one audit event, as its last step, and the event is a rejection
  exactly when the endpoint did not run; a rejection records whether the policy had passed.\<close>

theorem one_audit_event_per_call:
  assumes "tr \<in> set (call_traces cfg ep1 ep2 ep3 ep4 tool call c args)"
  shows "\<exists>ev. last tr = TAudit ev \<and> filter (\<lambda>e. \<exists>ev. e = TAudit ev) tr = [TAudit ev]
    \<and> ae_tool ev = tool \<and> ae_call ev = call \<and> ae_args ev = args
    \<and> (ae_phase ev = PhaseRejected) = (\<forall>ec. TCall ec args \<notin> set tr)
    \<and> ae_policy_pass ev = policy_allows cfg tool args"
proof -
  note wt = call_traces_wrapped [OF assms]
  obtain r ptr where p: "preflight cfg c tool call args (is_write_tool cfg tool) = (r, ptr)" by fastforce
  show ?thesis
  proof (cases r)
    case (Inl e)
    with preflight_Inl [of cfg c tool call args "is_write_tool cfg tool" e ptr] p wt show ?thesis
      by (auto simp: wrapped_trace_def reject_event_def)
  next
    case (Inr x)
    obtain ec ph where x: "x = (ec, ph)" by (cases x)
    note pr = preflight_Inr [OF p [unfolded Inr x]]
    then have ph: "ph \<noteq> PhaseRejected" by (auto split: if_splits)
    obtain ev where "tr = [TCall ec args, TAudit ev]" "ae_phase ev = ph" "ae_tool ev = tool"
      "ae_call ev = call" "ae_args ev = args" "ae_policy_pass ev"
      using wt p Inr x by (auto simp: wrapped_trace_def)
    with pr ph show ?thesis by auto
  qed
qed

text \<open>The two layers agree. When the middleware lets a write tool execute, the per-tool check
  accepts the call with the context it passes on; when it lets it through as a dry run, that
  check refuses to execute, even to a tool that reads its arguments as confirmed, unless the
  caller's own context held a grant.\<close>

theorem second_layer_agrees:
  assumes "tr \<in> set (call_traces cfg ep1 ep2 ep3 ep4 tool call c args)"
    and "TCall ec args' \<in> set tr" and "tool \<in> set (sc_write_tools cfg)" and "tool \<noteq> []" and "c \<noteq> None"
  shows "\<exists>gp. sc_gate_params cfg args = Some gp
    \<and> (if gp_dry_run gp
       then execution_authorized_for c tool \<or> require_confirmation_ctx ec tool False True = Some ENotAuthorized
       else require_confirmation_ctx ec tool False True = None
            \<and> require_confirmation_for_action_ctx ec tool action True = None)"
proof -
  obtain ph ev where p: "preflight cfg c tool call args (is_write_tool cfg tool) = (Inr (ec, ph), [])"
    using wrapped_call [OF call_traces_wrapped [OF assms(1)] assms(2)] by metis
  have w: "is_write_tool cfg tool" using assms(3) by (simp add: is_write_tool_def new_write_tool_set_def)
  from preflight_Inr [OF p] w obtain gp where gp: "sc_gate_params cfg args = Some gp"
    "if gp_dry_run gp then ec = c else ec = with_execution_authorized c tool" by (auto split: if_splits)
  then show ?thesis using assms(4,5)
    by (auto simp: require_confirmation_ctx_def require_confirmation_for_action_ctx_def authorized_for_grant)
qed

text \<open>The audit record of a streamed call that ends well is the text the agent received, the
  dry-run guidance included; a stream that fails ends in one chunk with its error, and the record
  carries the error.\<close>

theorem stream_audit_complete:
  assumes "stream_audit_loop tool call ph args dry xs err full = (out, ev)"
  shows "(err = None \<longrightarrow> ae_result ev = full @ concat out \<and> ae_error ev = None
            \<and> out = xs @ (if dry then [dry_run_guidance] else []))
    \<and> (\<forall>e. err = Some e \<longrightarrow> ae_error ev = Some (ETool e) \<and> out = xs @ [''tool call failed: '' @ e])"
  using assms
proof (induction tool call ph args dry xs err full arbitrary: out ev rule: stream_audit_loop.induct)
  case (3 tool call ph args dry x xs err full)
  obtain out1 where o1: "stream_audit_loop tool call ph args dry xs err (full @ x) = (out1, ev)" "out = x # out1"
    using "3.prems" by (auto split: prod.splits)
  from "3.IH" [OF o1(1)] o1(2) show ?case by auto
qed (auto simp: result_event_def split: if_splits)

section \<open>Witnesses\<close>

definition demo_safety :: "nat safety_config" where
  "demo_safety = \<lparr>sc_write_tools = [''del''], sc_policy = None,
     sc_authorizer = Some (\<lambda>_ _ args. if args = ''ok'' then None else Some ''no''),
     sc_allow_model_confirmation = False, sc_parse_args = (\<lambda>_. Some 0), sc_empty_params = 0,
     sc_gate_params = (\<lambda>a. Some \<lparr>gp_dry_run = (a = ''dry''), gp_confirmed = (a \<noteq> ''dry'')\<rparr>)\<rparr>"

definition demo_traces :: "string \<Rightarrow> event list list" where
  "demo_traces args = call_traces demo_safety (\<lambda>_ _. Inr ''done'') (\<lambda>_ _. Inr ([''a'', ''b''], None))
     (\<lambda>_ _. Inr []) (\<lambda>_ _. Inr ([], None)) ''del'' ''1'' (Some []) args"

lemma demo_call: "TCall (Some [''del'']) ''ok'' \<in> set (demo_traces ''ok'' ! 0) \<and> demo_traces ''ok'' ! 0 \<in> set (demo_traces ''ok'')"
  by (simp add: demo_traces_def call_traces_def wrap_invokable_def preflight_def demo_safety_def
      is_write_tool_def new_write_tool_set_def extract_gate_params_def gate_error_def
      should_gate_with_authorization_def with_execution_authorized_def)

lemma demo_fields: "''del'' \<in> set (sc_write_tools demo_safety)" "\<not> sc_allow_model_confirmation demo_safety"
  by (simp_all add: demo_safety_def)

theorem write_call_authorized_witness:
  "\<exists>a. sc_authorizer demo_safety = Some a \<and> a (Some []) ''del'' ''ok'' = None"
  using write_call_authorized [OF conjunct2 [OF demo_call, unfolded demo_traces_def]
      conjunct1 [OF demo_call, unfolded demo_traces_def] demo_fields]
  by (auto simp: demo_safety_def)

theorem one_audit_event_per_call_witness:
  "\<exists>ev. last (demo_traces ''bad'' ! 0) = TAudit ev \<and> ae_phase ev = PhaseRejected"
proof -
  have "demo_traces ''bad'' ! 0 \<in> set (demo_traces ''bad'')" by (simp add: demo_traces_def call_traces_def)
  from one_audit_event_per_call [OF this [unfolded demo_traces_def]]
  obtain ev where "last (demo_traces ''bad'' ! 0) = TAudit ev"
    "(ae_phase ev = PhaseRejected) = (\<forall>ec. TCall ec ''bad'' \<notin> set (demo_traces ''bad'' ! 0))"
    by (auto simp: demo_traces_def)
  moreover have "TCall ec ''bad'' \<notin> set (demo_traces ''bad'' ! 0)" for ec
    by (simp add: demo_traces_def call_traces_def wrap_invokable_def preflight_def demo_safety_def
        is_write_tool_def new_write_tool_set_def extract_gate_params_def gate_error_def
        should_gate_with_authorization_def)
  ultimately show ?thesis by blast
qed

theorem second_layer_agrees_witness:
  "require_confirmation_ctx (Some [''del'']) ''del'' False True = None"
  using second_layer_agrees [OF conjunct2 [OF demo_call, unfolded demo_traces_def]
      conjunct1 [OF demo_call, unfolded demo_traces_def] demo_fields(1)]
  by (auto simp: demo_safety_def)

theorem stream_audit_complete_witness:
  "ae_result (snd (stream_audit_loop ''t'' ''1'' PhaseDryRun ''{}'' True [''a'', ''b''] None [])) = ''ab'' @ dry_run_guidance"
  using stream_audit_complete [where tool = "''t''" and call = "''1''" and ph = PhaseDryRun
      and args = "''{}''" and dry = True and xs = "[''a'', ''b'']" and err = None and full = "[]",
      OF prod.collapse [symmetric]]
  by simp

end
