(* ===== verification/Bus.thy ===== *)
theory Bus
  imports Prelude "HOL-Library.AList"
begin

text \<open>
  The in-memory activity bus, \<^verbatim>\<open>callbacks/activity/bus.go\<close>: per-session ring buffers for replay,
  subscribers with bounded channels, eviction of idle sessions.

  The sessions are an association list in the arbitrary order in which Go would range over its
  map. Channels outlive the subscription that created them, so they live in a heap (a list) of
  their queued events, capacity and closed flag. Everything under the bus's mutex is one
  operation; \<open>Publish\<close> takes its event id before it takes the mutex, so it is two operations.
  Times are integers; \<open>None\<close> is the zero time.
\<close>

section \<open>State\<close>

record 'd event =
  be_id :: string
  be_session :: string
  be_type :: string
  be_agent :: string
  be_time :: "int option"
  be_data :: "'d"

datatype slow_policy = DropEvent | DropSubscriber

record 'd channel =
  ch_queue :: "'d event list"
  ch_cap :: nat
  ch_closed :: bool

record 'd session_state =
  ss_ring :: "'d event list"
  ss_subs :: "(nat \<times> nat) list"
  ss_next :: nat
  ss_active :: int

record 'd bus =
  bu_buffer :: nat
  bu_queue :: nat
  bu_policy :: slow_policy
  bu_max_sessions :: nat
  bu_counter :: nat
  bu_closed :: bool
  bu_sessions :: "(string \<times> 'd session_state) list"
  bu_channels :: "'d channel list"

definition new_bus :: "nat \<Rightarrow> nat \<Rightarrow> slow_policy \<Rightarrow> nat \<Rightarrow> 'd bus" where
  "new_bus buffer queue policy max_sessions =
     \<lparr>bu_buffer = (if buffer = 0 then 256 else buffer), bu_queue = (if queue = 0 then 64 else queue),
      bu_policy = policy, bu_max_sessions = (if max_sessions = 0 then 4096 else max_sessions),
      bu_counter = 0, bu_closed = False, bu_sessions = [], bu_channels = []\<rparr>"

section \<open>Event ids\<close>

definition evt_prefix :: string where "evt_prefix = ''evt_''"

definition next_id :: "'d bus \<Rightarrow> string \<times> 'd bus" where
  "next_id b = (let n = (bu_counter b + 1) mod 2 ^ 64 in (evt_prefix @ dec_of_nat n, b\<lparr>bu_counter := n\<rparr>))"

definition parse_id :: "string \<Rightarrow> nat option" where
  "parse_id s = (if prefix evt_prefix s then parse_uint64 (drop (length evt_prefix) s) else None)"

section \<open>Sessions\<close>

definition new_session :: "'d session_state" where
  "new_session = \<lparr>ss_ring = [], ss_subs = [], ss_next = 0, ss_active = 0\<rparr>"

fun pick_victim :: "(string \<times> 'd session_state) list \<Rightarrow> (string \<times> int) option \<Rightarrow> (string \<times> int) option" where
  "pick_victim [] v = v"
| "pick_victim ((key, st) # ss) v =
     (if ss_subs st \<noteq> [] then pick_victim ss v
      else case v of
        None \<Rightarrow> pick_victim ss (Some (key, ss_active st))
      | Some (_, oldest) \<Rightarrow>
          if ss_active st < oldest then pick_victim ss (Some (key, ss_active st)) else pick_victim ss v)"

definition evict_idle_session :: "'d bus \<Rightarrow> 'd bus" where
  "evict_idle_session b =
     (case pick_victim (bu_sessions b) None of
        None \<Rightarrow> b
      | Some (victim, _) \<Rightarrow> b\<lparr>bu_sessions := AList.delete victim (bu_sessions b)\<rparr>)"

definition get_or_create_session :: "string \<Rightarrow> 'd bus \<Rightarrow> 'd session_state \<times> 'd bus" where
  "get_or_create_session sid b =
     (case map_of (bu_sessions b) sid of
        Some st \<Rightarrow> (st, b)
      | None \<Rightarrow>
          let b1 = (if 0 < bu_max_sessions b \<and> bu_max_sessions b \<le> length (bu_sessions b)
                    then evict_idle_session b else b)
          in (new_session, b1\<lparr>bu_sessions := AList.update sid new_session (bu_sessions b1)\<rparr>))"

definition put_session :: "string \<Rightarrow> 'd session_state \<Rightarrow> 'd bus \<Rightarrow> 'd bus" where
  "put_session sid st b = b\<lparr>bu_sessions := AList.update sid st (bu_sessions b)\<rparr>"

section \<open>Channels\<close>

definition chan_room :: "'d channel list \<Rightarrow> nat \<Rightarrow> bool" where
  "chan_room cs c \<longleftrightarrow> length (ch_queue (cs ! c)) < ch_cap (cs ! c)"

definition chan_send :: "nat \<Rightarrow> 'd event \<Rightarrow> 'd channel list \<Rightarrow> 'd channel list" where
  "chan_send c e cs = cs[c := (cs ! c)\<lparr>ch_queue := ch_queue (cs ! c) @ [e]\<rparr>]"

definition chan_close :: "nat \<Rightarrow> 'd channel list \<Rightarrow> 'd channel list" where
  "chan_close c cs = cs[c := (cs ! c)\<lparr>ch_closed := True\<rparr>]"

text \<open>What a reader gets: \<open>None\<close> when it would block, \<open>Some None\<close> at the end of a closed channel.\<close>

definition chan_receive :: "nat \<Rightarrow> 'd bus \<Rightarrow> 'd event option option \<times> 'd bus" where
  "chan_receive c b =
     (let ch = bu_channels b ! c in
      case ch_queue ch of
        e # es \<Rightarrow> (Some (Some e), b\<lparr>bu_channels := (bu_channels b)[c := ch\<lparr>ch_queue := es\<rparr>]\<rparr>)
      | [] \<Rightarrow> (if ch_closed ch then Some None else None, b))"

definition remove_sub :: "nat \<Rightarrow> 'd session_state \<Rightarrow> 'd channel list \<Rightarrow> 'd session_state \<times> 'd channel list" where
  "remove_sub i st cs =
     (case map_of (ss_subs st) i of
        None \<Rightarrow> (st, cs)
      | Some c \<Rightarrow> (st\<lparr>ss_subs := AList.delete i (ss_subs st)\<rparr>, chan_close c cs))"

fun fan_out :: "slow_policy \<Rightarrow> 'd event \<Rightarrow> (nat \<times> nat) list \<Rightarrow> 'd session_state \<Rightarrow> 'd channel list
    \<Rightarrow> 'd session_state \<times> 'd channel list" where
  "fan_out policy e [] st cs = (st, cs)"
| "fan_out policy e ((i, c) # subs) st cs =
     (if chan_room cs c then fan_out policy e subs st (chan_send c e cs)
      else if policy = DropSubscriber
      then (let (st1, cs1) = remove_sub i st cs in fan_out policy e subs st1 cs1)
      else fan_out policy e subs st cs)"

section \<open>Operations of the bus\<close>

text \<open>First part of \<open>Publish\<close>, before the mutex: id and time.\<close>

definition stamp :: "int \<Rightarrow> 'd event \<Rightarrow> 'd bus \<Rightarrow> 'd event \<times> 'd bus" where
  "stamp clock e b =
     (let (e1, b1) = (if be_id e = [] then (let (i, b1) = next_id b in (e\<lparr>be_id := i\<rparr>, b1)) else (e, b))
      in (if be_time e1 = None then e1\<lparr>be_time := Some clock\<rparr> else e1, b1))"

definition push_ring :: "nat \<Rightarrow> 'd event \<Rightarrow> 'd event list \<Rightarrow> 'd event list" where
  "push_ring n e ring =
     (let r = ring @ [e] in if n < length r then drop (length r - n) r else r)"

text \<open>Second part, under the mutex, for a stamped event.\<close>

definition commit_event :: "'d event \<Rightarrow> 'd bus \<Rightarrow> 'd bus" where
  "commit_event e b =
     (if bu_closed b then b
      else
        let (st, b1) = get_or_create_session (be_session e) b;
            st1 = st\<lparr>ss_active := (case be_time e of None \<Rightarrow> 0 | Some t \<Rightarrow> t),
                     ss_ring := push_ring (bu_buffer b) e (ss_ring st)\<rparr>;
            (st2, cs) = fan_out (bu_policy b) e (ss_subs st1) st1 (bu_channels b1)
        in put_session (be_session e) st2 (b1\<lparr>bu_channels := cs\<rparr>))"

definition publish :: "int \<Rightarrow> 'd event \<Rightarrow> 'd bus \<Rightarrow> 'd bus" where
  "publish clock e b = (let (e1, b1) = stamp clock e b in commit_event e1 b1)"

definition newer_than :: "string \<Rightarrow> 'd event list \<Rightarrow> 'd event list" where
  "newer_than last_id ring =
     (case parse_id last_id of
        None \<Rightarrow> []
      | Some after \<Rightarrow> filter (\<lambda>e. case parse_id (be_id e) of None \<Rightarrow> False | Some n \<Rightarrow> after < n) ring)"

text \<open>The result is the channel and, unless the bus is closed, the handle of the unsubscribe function.\<close>

definition subscribe :: "int \<Rightarrow> string \<Rightarrow> string \<Rightarrow> 'd bus \<Rightarrow> nat \<times> (string \<times> nat) option \<times> 'd bus" where
  "subscribe clock sid last_id b =
     (let c = length (bu_channels b); cap = bu_buffer b + bu_queue b in
      if bu_closed b
      then (c, None, b\<lparr>bu_channels := bu_channels b @ [\<lparr>ch_queue = [], ch_cap = cap, ch_closed = True\<rparr>]\<rparr>)
      else
        let (st, b1) = get_or_create_session sid b;
            ch = \<lparr>ch_queue = newer_than last_id (ss_ring st), ch_cap = cap, ch_closed = False\<rparr>;
            i = ss_next st;
            st1 = st\<lparr>ss_active := clock, ss_next := i + 1, ss_subs := ss_subs st @ [(i, c)]\<rparr>
        in (c, Some (sid, i), put_session sid st1 (b1\<lparr>bu_channels := bu_channels b1 @ [ch]\<rparr>)))"

text \<open>The unsubscribe function, at its first call; \<open>sync.Once\<close> makes the others do nothing.\<close>

definition unsubscribe :: "string \<times> nat \<Rightarrow> 'd bus \<Rightarrow> 'd bus" where
  "unsubscribe h b =
     (case map_of (bu_sessions b) (fst h) of
        None \<Rightarrow> b
      | Some st \<Rightarrow>
          let (st1, cs) = remove_sub (snd h) st (bu_channels b)
          in put_session (fst h) st1 (b\<lparr>bu_channels := cs\<rparr>))"

definition has_subscribers :: "string \<Rightarrow> 'd bus \<Rightarrow> bool" where
  "has_subscribers sid b =
     (case map_of (bu_sessions b) sid of None \<Rightarrow> False | Some st \<Rightarrow> 0 < length (ss_subs st))"

definition replay :: "string \<Rightarrow> 'd bus \<Rightarrow> 'd event list option" where
  "replay sid b = map_option ss_ring (map_of (bu_sessions b) sid)"

definition close_bus :: "'d bus \<Rightarrow> 'd bus" where
  "close_bus b =
     (if bu_closed b then b
      else b\<lparr>bu_closed := True, bu_sessions := [],
             bu_channels := fold (\<lambda>(_, st) cs. fold (\<lambda>(_, c) cs. chan_close c cs) (ss_subs st) cs)
                              (bu_sessions b) (bu_channels b)\<rparr>)"

section \<open>Lemmas\<close>

lemma next_id_parse: "parse_id (fst (next_id b)) = Some (bu_counter (snd (next_id b)))"
  by (simp add: next_id_def parse_id_def parse_uint64_dec_of_nat Let_def)

lemma push_ring_eq: "push_ring n e ring = drop (length ring + 1 - n) (ring @ [e])"
  by (auto simp: push_ring_def Let_def)

lemma pick_victim_step:
  "pick_victim ((key, st) # ss) v =
     (if ss_subs st = [] \<and> (v = None \<or> ss_active st < snd (the v)) then pick_victim ss (Some (key, ss_active st))
      else pick_victim ss v)"
  by (cases v) auto

lemma pick_victim_Some:
  "pick_victim ss v = Some (k, t) \<Longrightarrow> v = Some (k, t) \<or> (\<exists>st. (k, st) \<in> set ss \<and> ss_subs st = [] \<and> ss_active st = t)"
proof (induction ss arbitrary: v)
  case (Cons p ss)
  obtain key st where p: "p = (key, st)" by (cases p)
  show ?case
  proof (cases "ss_subs st = [] \<and> (v = None \<or> ss_active st < snd (the v))")
    case True
    with Cons.prems have "pick_victim ss (Some (key, ss_active st)) = Some (k, t)"
      by (simp only: p pick_victim_step if_True simp_thms)
    from Cons.IH [OF this] True p show ?thesis by auto
  next
    case False
    then have "pick_victim ss v = Some (k, t)" using Cons.prems unfolding p pick_victim_step by (simp only: if_False)
    from Cons.IH [OF this] show ?thesis by auto
  qed
qed simp

lemma pick_victim_least:
  "pick_victim ss v = Some (k, t) \<Longrightarrow>
     (\<forall>p \<in> set ss. ss_subs (snd p) = [] \<longrightarrow> t \<le> ss_active (snd p)) \<and> (v \<noteq> None \<longrightarrow> t \<le> snd (the v))"
proof (induction ss arbitrary: v)
  case (Cons p ss)
  obtain key st where p: "p = (key, st)" by (cases p)
  show ?case
  proof (cases "ss_subs st = [] \<and> (v = None \<or> ss_active st < snd (the v))")
    case True
    with Cons.prems have "pick_victim ss (Some (key, ss_active st)) = Some (k, t)"
      by (simp only: p pick_victim_step if_True simp_thms)
    from Cons.IH [OF this] True p show ?thesis by auto
  next
    case False
    then have "pick_victim ss v = Some (k, t)" using Cons.prems unfolding p pick_victim_step by (simp only: if_False)
    from Cons.IH [OF this] False p show ?thesis by auto
  qed
qed simp

lemma pick_victim_None: "pick_victim ss v = None \<longleftrightarrow> v = None \<and> (\<forall>p \<in> set ss. ss_subs (snd p) \<noteq> [])"
  by (induction ss v rule: pick_victim.induct) (auto split: option.splits)

lemma map_of_evict:
  assumes "map_of (bu_sessions b) sid = Some st" "ss_subs st \<noteq> []" "distinct (map fst (bu_sessions b))"
  shows "map_of (bu_sessions (evict_idle_session b)) sid = Some st"
proof (cases "pick_victim (bu_sessions b) None")
  case None
  then show ?thesis using assms by (simp add: evict_idle_session_def)
next
  case (Some p)
  obtain k t where p: "p = (k, t)" by (cases p)
  obtain st' where st': "(k, st') \<in> set (bu_sessions b)" "ss_subs st' = []"
    using pick_victim_Some [OF Some [unfolded p]] by auto
  from map_of_is_SomeI [OF assms(3) st'(1)] assms(1,2) st'(2) have "k \<noteq> sid" by fastforce
  with assms(1) Some p show ?thesis by (simp add: evict_idle_session_def delete_conv')
qed

lemma remove_sub_ring [simp]: "ss_ring (fst (remove_sub i st cs)) = ss_ring st"
  by (simp add: remove_sub_def split: option.splits)

lemma fan_out_ring: "ss_ring (fst (fan_out policy e subs st cs)) = ss_ring st"
proof (induction policy e subs st cs rule: fan_out.induct)
  case (2 policy e i c subs st cs)
  obtain st1 cs1 where r: "remove_sub i st cs = (st1, cs1)" by fastforce
  then have "ss_ring st1 = ss_ring st" by (metis fst_conv remove_sub_ring)
  with 2 r show ?case by auto
qed simp

text \<open>What one delivery does to each channel: with room it gets the event; without, the policy
  decides; a channel that no subscription uses is left alone.\<close>

definition delivered :: "slow_policy \<Rightarrow> 'd event \<Rightarrow> 'd channel \<Rightarrow> 'd channel" where
  "delivered policy e ch =
     (if length (ch_queue ch) < ch_cap ch then ch\<lparr>ch_queue := ch_queue ch @ [e]\<rparr>
      else if policy = DropSubscriber then ch\<lparr>ch_closed := True\<rparr> else ch)"

lemma fan_out_chan:
  assumes "\<forall>p \<in> set subs. map_of (ss_subs st) (fst p) = Some (snd p)"
    "distinct (map fst subs)" "distinct (map snd subs)" "d < length cs"
  shows "snd (fan_out policy e subs st cs) ! d
    = (if d \<in> snd ` set subs then delivered policy e (cs ! d) else cs ! d)"
  using assms
proof (induction subs arbitrary: st cs)
  case (Cons p subs)
  obtain i c where p: "p = (i, c)" by (cases p)
  have c: "c \<notin> snd ` set subs" "map_of (ss_subs st) i = Some c" "\<And>q. q \<in> set subs \<Longrightarrow> fst q \<noteq> i"
    using Cons.prems p by auto
  define st1 where "st1 = (if \<not> chan_room cs c \<and> policy = DropSubscriber then st\<lparr>ss_subs := AList.delete i (ss_subs st)\<rparr> else st)"
  define cs1 where "cs1 = cs[c := delivered policy e (cs ! c)]"
  have e: "fan_out policy e (p # subs) st cs = fan_out policy e subs st1 cs1"
    using c(2) by (auto simp: p st1_def cs1_def chan_room_def chan_send_def remove_sub_def chan_close_def delivered_def)
  have "\<forall>q \<in> set subs. map_of (ss_subs st1) (fst q) = Some (snd q)"
    using Cons.prems(1) c(3) by (auto simp: st1_def delete_conv')
  from Cons.IH [OF this, of cs1] Cons.prems(2-4) p
  have "snd (fan_out policy e subs st1 cs1) ! d
    = (if d \<in> snd ` set subs then delivered policy e (cs1 ! d) else cs1 ! d)" by (simp add: cs1_def)
  moreover have "cs1 ! d = (if d = c then delivered policy e (cs ! c) else cs ! d)"
    using Cons.prems(4) by (simp add: cs1_def nth_list_update)
  ultimately show ?case unfolding e using c(1) by (auto simp: p)
qed simp

text \<open>And what it leaves of the subscriptions.\<close>

lemma fan_out_subs:
  assumes "\<forall>p \<in> set subs. map_of (ss_subs st) (fst p) = Some (snd p)"
    "distinct (map fst subs)" "distinct (map snd subs)" "distinct (map fst (ss_subs st))"
    "\<forall>p \<in> set subs. snd p < length cs"
  shows "fst (fan_out policy e subs st cs)
    = st\<lparr>ss_subs := filter (\<lambda>p. p \<in> set subs \<longrightarrow> policy = DropSubscriber \<longrightarrow> chan_room cs (snd p)) (ss_subs st)\<rparr>"
  using assms
proof (induction subs arbitrary: st cs)
  case (Cons p subs)
  obtain i c where p: "p = (i, c)" by (cases p)
  have c: "c \<notin> snd ` set subs" "map_of (ss_subs st) i = Some c" "\<And>q. q \<in> set subs \<Longrightarrow> fst q \<noteq> i" "c < length cs"
    using Cons.prems p by auto
  define st1 where "st1 = (if \<not> chan_room cs c \<and> policy = DropSubscriber then st\<lparr>ss_subs := AList.delete i (ss_subs st)\<rparr> else st)"
  define cs1 where "cs1 = cs[c := delivered policy e (cs ! c)]"
  have e: "fan_out policy e (p # subs) st cs = fan_out policy e subs st1 cs1"
    using c(2) by (auto simp: p st1_def cs1_def chan_room_def chan_send_def remove_sub_def chan_close_def delivered_def)
  have prem: "\<forall>q \<in> set subs. map_of (ss_subs st1) (fst q) = Some (snd q)"
    using Cons.prems(1) c(3) by (auto simp: st1_def delete_conv')
  have d1: "distinct (map fst (ss_subs st1))" using Cons.prems(4) by (simp add: st1_def distinct_delete)
  have ih: "fst (fan_out policy e subs st1 cs1)
    = st1\<lparr>ss_subs := filter (\<lambda>p. p \<in> set subs \<longrightarrow> policy = DropSubscriber \<longrightarrow> chan_room cs1 (snd p)) (ss_subs st1)\<rparr>"
    using Cons.IH [OF prem _ _ d1, of cs1] Cons.prems(2,3,5) p by (simp add: cs1_def)
  have room: "chan_room cs1 (snd q) \<longleftrightarrow> chan_room cs (snd q)" if "q \<in> set subs" for q
  proof -
    have "c \<noteq> snd q" using that c(1) by (metis imageI)
    then show ?thesis by (simp add: chan_room_def cs1_def)
  qed
  have ic: "q = (i, c)" if "q \<in> set (ss_subs st)" "fst q = i" for q
    using map_of_is_SomeI [OF Cons.prems(4), of "fst q" "snd q"] that c(2) by (cases q) simp
  have "filter (\<lambda>p. p \<in> set subs \<longrightarrow> policy = DropSubscriber \<longrightarrow> chan_room cs1 (snd p)) (ss_subs st1)
    = filter (\<lambda>q. q \<in> set (p # subs) \<longrightarrow> policy = DropSubscriber \<longrightarrow> chan_room cs (snd q)) (ss_subs st)"
  proof (cases "\<not> chan_room cs c \<and> policy = DropSubscriber")
    case True
    then have st1: "ss_subs st1 = filter (\<lambda>q. fst q \<noteq> i) (ss_subs st)"
      by (auto simp: st1_def AList.delete_eq intro!: filter_cong)
    show ?thesis unfolding st1 filter_filter
    proof (rule filter_cong [OF refl])
      fix q assume q: "q \<in> set (ss_subs st)"
      show "(fst q \<noteq> i \<and> (q \<in> set subs \<longrightarrow> policy = DropSubscriber \<longrightarrow> chan_room cs1 (snd q)))
        = (q \<in> set (p # subs) \<longrightarrow> policy = DropSubscriber \<longrightarrow> chan_room cs (snd q))"
      proof (cases "fst q = i")
        case True
        with ic [OF q] \<open>\<not> chan_room cs c \<and> policy = DropSubscriber\<close> p show ?thesis by simp
      next
        case False
        with room [of q] p show ?thesis by auto
      qed
    qed
  next
    case False
    then have st1: "ss_subs st1 = ss_subs st" by (auto simp: st1_def)
    show ?thesis unfolding st1
    proof (rule filter_cong [OF refl])
      fix q assume "q \<in> set (ss_subs st)"
      show "(q \<in> set subs \<longrightarrow> policy = DropSubscriber \<longrightarrow> chan_room cs1 (snd q))
        = (q \<in> set (p # subs) \<longrightarrow> policy = DropSubscriber \<longrightarrow> chan_room cs (snd q))"
        using False room [of q] p by auto
    qed
  qed
  then show ?case unfolding e ih by (simp add: st1_def)
qed simp

lemma length_fan_out: "length (snd (fan_out policy e subs st cs)) = length cs"
proof (induction policy e subs st cs rule: fan_out.induct)
  case (2 policy e j c subs st cs)
  obtain st1 cs1 where r: "remove_sub j st cs = (st1, cs1)" by fastforce
  then have "length cs1 = length cs" by (auto simp: remove_sub_def chan_close_def split: option.splits)
  with 2 r show ?case by (auto simp: chan_send_def)
qed simp

section \<open>Invariant\<close>

text \<open>The subscriptions of a session have distinct ids below the next one and their own, open, channels;
  rings are bounded.\<close>

definition session_ok :: "nat \<Rightarrow> 'd channel list \<Rightarrow> 'd session_state \<Rightarrow> bool" where
  "session_ok buffer cs st \<longleftrightarrow>
     distinct (map fst (ss_subs st)) \<and> distinct (map snd (ss_subs st))
     \<and> (\<forall>p \<in> set (ss_subs st). fst p < ss_next st \<and> snd p < length cs \<and> \<not> ch_closed (cs ! snd p))
     \<and> length (ss_ring st) \<le> buffer"

definition sub_chans :: "'d session_state \<Rightarrow> nat set" where
  "sub_chans st = snd ` set (ss_subs st)"

text \<open>No channel serves two sessions, and no channel holds more than its capacity.\<close>

definition bus_inv :: "'d bus \<Rightarrow> bool" where
  "bus_inv b \<longleftrightarrow> distinct (map fst (bu_sessions b)) \<and> 0 < bu_buffer b
     \<and> (\<forall>k st. map_of (bu_sessions b) k = Some st \<longrightarrow> session_ok (bu_buffer b) (bu_channels b) st)
     \<and> (\<forall>k k' st st'. k \<noteq> k' \<longrightarrow> map_of (bu_sessions b) k = Some st \<longrightarrow> map_of (bu_sessions b) k' = Some st'
          \<longrightarrow> sub_chans st \<inter> sub_chans st' = {})
     \<and> (\<forall>ch \<in> set (bu_channels b). length (ch_queue ch) \<le> ch_cap ch)"

lemma bus_invD:
  assumes "bus_inv b"
  shows "distinct (map fst (bu_sessions b))" "0 < bu_buffer b"
    "map_of (bu_sessions b) k = Some st \<Longrightarrow> session_ok (bu_buffer b) (bu_channels b) st"
    "k \<noteq> k' \<Longrightarrow> map_of (bu_sessions b) k = Some st \<Longrightarrow> map_of (bu_sessions b) k' = Some st' \<Longrightarrow> sub_chans st \<inter> sub_chans st' = {}"
    "ch \<in> set (bu_channels b) \<Longrightarrow> length (ch_queue ch) \<le> ch_cap ch"
  using assms unfolding bus_inv_def by blast+

lemma bus_inv_new: "bus_inv (new_bus x y p m)"
  by (simp add: bus_inv_def new_bus_def)

lemma sub_chans_less: "session_ok n cs st \<Longrightarrow> c \<in> sub_chans st \<Longrightarrow> c < length cs"
  by (auto simp: session_ok_def sub_chans_def)

text \<open>The one step all operations share: they replace a session and touch, of the old channels, only
  those of that session.\<close>

lemma bus_inv_put:
  assumes inv: "bus_inv b"
    and ok: "session_ok (bu_buffer b) cs st"
    and len: "length (bu_channels b) \<le> length cs"
    and same: "\<And>k st' c. k \<noteq> sid \<Longrightarrow> map_of (bu_sessions b) k = Some st' \<Longrightarrow> c \<in> sub_chans st' \<Longrightarrow>
      cs ! c = bu_channels b ! c \<and> c \<notin> sub_chans st"
    and caps: "\<forall>ch \<in> set cs. length (ch_queue ch) \<le> ch_cap ch"
  shows "bus_inv (put_session sid st (b\<lparr>bu_channels := cs\<rparr>))"
proof -
  have other: "session_ok (bu_buffer b) cs st'" if "k \<noteq> sid" "map_of (bu_sessions b) k = Some st'" for k st'
  proof -
    from bus_invD(3) [OF inv that(2)] have o: "session_ok (bu_buffer b) (bu_channels b) st'" .
    have "cs ! snd p = bu_channels b ! snd p" if "p \<in> set (ss_subs st')" for p
      using same [OF \<open>k \<noteq> sid\<close> \<open>map_of (bu_sessions b) k = Some st'\<close>, of "snd p"] that by (simp add: sub_chans_def)
    with o len show ?thesis unfolding session_ok_def by (auto intro: less_le_trans)
  qed
  have disj: "sub_chans st1 \<inter> sub_chans st2 = {}"
    if "k \<noteq> k'" "((map_of (bu_sessions b))(sid \<mapsto> st)) k = Some st1" "((map_of (bu_sessions b))(sid \<mapsto> st)) k' = Some st2"
    for k k' st1 st2
  proof (cases "k = sid")
    case True
    with that have "st1 = st" "map_of (bu_sessions b) k' = Some st2" "k' \<noteq> sid" by auto
    with same show ?thesis by blast
  next
    case k: False
    show ?thesis
    proof (cases "k' = sid")
      case True
      with that k have "st2 = st" "map_of (bu_sessions b) k = Some st1" by auto
      with same [OF k] show ?thesis by blast
    next
      case False
      with that k bus_invD(4) [OF inv that(1)] show ?thesis by simp
    qed
  qed
  show ?thesis
    unfolding bus_inv_def put_session_def
    using bus_invD(1,2) [OF inv] other ok disj caps by (auto simp: distinct_update update_conv')
qed

lemma bus_inv_evict:
  assumes "bus_inv b" shows "bus_inv (evict_idle_session b)"
proof (cases "pick_victim (bu_sessions b) None")
  case None
  then show ?thesis using assms by (simp add: evict_idle_session_def)
next
  case (Some p)
  obtain v t where p: "p = (v, t)" by (cases p)
  have m: "map_of (AList.delete v (bu_sessions b)) k = Some st \<Longrightarrow> map_of (bu_sessions b) k = Some st" for k st
    by (simp add: delete_conv' split: if_splits)
  have e: "evict_idle_session b = b\<lparr>bu_sessions := AList.delete v (bu_sessions b)\<rparr>"
    using Some p by (simp add: evict_idle_session_def)
  show ?thesis unfolding e bus_inv_def
    using bus_invD [OF assms] m by (simp add: distinct_delete) blast
qed

lemma evict_fields [simp]: "bu_buffer (evict_idle_session b) = bu_buffer b"
  "bu_channels (evict_idle_session b) = bu_channels b" "bu_policy (evict_idle_session b) = bu_policy b"
  "bu_queue (evict_idle_session b) = bu_queue b" "bu_closed (evict_idle_session b) = bu_closed b"
  by (simp_all add: evict_idle_session_def split: option.splits prod.splits)

lemma get_or_create_fields:
  assumes "get_or_create_session sid b = (st, b1)"
  shows "bu_buffer b1 = bu_buffer b" "bu_channels b1 = bu_channels b" "bu_policy b1 = bu_policy b" "bu_queue b1 = bu_queue b"
    "map_of (bu_sessions b1) sid = Some st"
  using assms by (auto simp: get_or_create_session_def Let_def update_conv' split: option.splits if_splits)

lemma new_session_ok [simp]: "session_ok n cs new_session"
  by (simp add: session_ok_def new_session_def)

lemma put_session_fresh:
  "b\<lparr>bu_sessions := AList.update sid st (bu_sessions b)\<rparr> = put_session sid st (b\<lparr>bu_channels := bu_channels b\<rparr>)"
  by (simp add: put_session_def)

lemma bus_inv_get_or_create:
  assumes "bus_inv b" "get_or_create_session sid b = (st, b1)"
  shows "bus_inv b1"
proof (cases "map_of (bu_sessions b) sid")
  case None
  define b2 where "b2 = (if 0 < bu_max_sessions b \<and> bu_max_sessions b \<le> length (bu_sessions b)
                    then evict_idle_session b else b)"
  have i: "bus_inv b2" using assms(1) bus_inv_evict [OF assms(1)] by (simp add: b2_def)
  have "b1 = put_session sid new_session (b2\<lparr>bu_channels := bu_channels b2\<rparr>)"
    using assms(2) None by (simp add: get_or_create_session_def Let_def b2_def put_session_def)
  moreover have "bus_inv (put_session sid new_session (b2\<lparr>bu_channels := bu_channels b2\<rparr>))"
    by (rule bus_inv_put [OF i]) (use bus_invD(5) [OF i] in \<open>auto simp: sub_chans_def new_session_def session_ok_def\<close>)
  ultimately show ?thesis by simp
qed (use assms in \<open>auto simp: get_or_create_session_def\<close>)

lemma length_push_ring: "length ring \<le> n \<Longrightarrow> length (push_ring n e ring) \<le> n"
  by (auto simp: push_ring_def Let_def)

text \<open>What a committed event does, on a state that satisfies the invariant.\<close>

lemma fan_out_session:
  assumes "session_ok n cs st"
  shows "\<forall>p \<in> set (ss_subs st). map_of (ss_subs st) (fst p) = Some (snd p)"
    "distinct (map fst (ss_subs st))" "distinct (map snd (ss_subs st))" "\<forall>p \<in> set (ss_subs st). snd p < length cs"
  using assms by (auto simp: session_ok_def)

lemma fan_out_result:
  assumes "session_ok n cs st"
  shows "fst (fan_out policy e (ss_subs st) st cs)
      = st\<lparr>ss_subs := filter (\<lambda>p. policy = DropSubscriber \<longrightarrow> chan_room cs (snd p)) (ss_subs st)\<rparr>" (is ?subs)
    and "snd (fan_out policy e (ss_subs st) st cs)
      = map (\<lambda>d. if d \<in> sub_chans st then delivered policy e (cs ! d) else cs ! d) [0..<length cs]" (is ?chans)
proof -
  note s = fan_out_session [OF assms]
  have f: "filter (\<lambda>p. p \<in> set (ss_subs st) \<longrightarrow> policy = DropSubscriber \<longrightarrow> chan_room cs (snd p)) (ss_subs st)
    = filter (\<lambda>p. policy = DropSubscriber \<longrightarrow> chan_room cs (snd p)) (ss_subs st)" by (rule filter_cong) auto
  show ?subs using fan_out_subs [OF s(1-3) s(2) s(4), of policy e] unfolding f .
  show ?chans
  proof (rule nth_equalityI)
    fix d assume "d < length (snd (fan_out policy e (ss_subs st) st cs))"
    then have d: "d < length cs" by (simp add: length_fan_out)
    show "snd (fan_out policy e (ss_subs st) st cs) ! d
      = map (\<lambda>d. if d \<in> sub_chans st then delivered policy e (cs ! d) else cs ! d) [0..<length cs] ! d"
      using fan_out_chan [OF s(1-3) d, of policy e] d by (simp add: sub_chans_def)
  qed (simp add: length_fan_out)
qed

text \<open>The whole of a committed event on an open bus.\<close>

definition touched :: "'d event \<Rightarrow> 'd session_state \<Rightarrow> 'd bus \<Rightarrow> 'd channel list \<Rightarrow> 'd session_state" where
  "touched e st b cs = st\<lparr>ss_active := (case be_time e of None \<Rightarrow> 0 | Some t \<Rightarrow> t),
     ss_ring := push_ring (bu_buffer b) e (ss_ring st),
     ss_subs := filter (\<lambda>p. bu_policy b = DropSubscriber \<longrightarrow> chan_room cs (snd p)) (ss_subs st)\<rparr>"

lemma delivered_cap: "length (ch_queue ch) \<le> ch_cap ch \<Longrightarrow>
    length (ch_queue (delivered policy e ch)) \<le> ch_cap (delivered policy e ch)"
  by (simp add: delivered_def)

lemma commit_event_open:
  assumes inv: "bus_inv b" and op: "\<not> bu_closed b"
    and g: "get_or_create_session (be_session e) b = (st, b1)"
  shows "commit_event e b = put_session (be_session e) (touched e st b (bu_channels b))
    (b1\<lparr>bu_channels := map (\<lambda>d. if d \<in> sub_chans st then delivered (bu_policy b) e (bu_channels b ! d)
       else bu_channels b ! d) [0..<length (bu_channels b)]\<rparr>)"
proof -
  note f = get_or_create_fields [OF g]
  define st1 where "st1 = st\<lparr>ss_active := (case be_time e of None \<Rightarrow> 0 | Some t \<Rightarrow> t),
     ss_ring := push_ring (bu_buffer b) e (ss_ring st)\<rparr>"
  have "session_ok (bu_buffer b1) (bu_channels b1) st"
    by (rule bus_invD(3) [OF bus_inv_get_or_create [OF inv g] f(5)])
  then have ok: "session_ok (bu_buffer b) (bu_channels b) st1"
    by (simp add: st1_def session_ok_def f length_push_ring)
  have subs1: "ss_subs st1 = ss_subs st" by (simp add: st1_def)
  obtain st2 cs where r: "fan_out (bu_policy b) e (ss_subs st1) st1 (bu_channels b) = (st2, cs)" by fastforce
  have "st2 = touched e st b (bu_channels b)"
    using fan_out_result(1) [OF ok, of "bu_policy b" e] r by (simp add: touched_def st1_def)
  moreover have "cs = map (\<lambda>d. if d \<in> sub_chans st then delivered (bu_policy b) e (bu_channels b ! d)
       else bu_channels b ! d) [0..<length (bu_channels b)]"
    using fan_out_result(2) [OF ok, of "bu_policy b" e] r by (simp add: sub_chans_def st1_def)
  ultimately show ?thesis
    using op r [unfolded subs1] by (simp add: commit_event_def g f Let_def flip: st1_def)
qed

lemma touched_ok:
  assumes ok: "session_ok (bu_buffer b) (bu_channels b) st"
  shows "session_ok (bu_buffer b) (map (\<lambda>d. if d \<in> sub_chans st then delivered (bu_policy b) e (bu_channels b ! d)
       else bu_channels b ! d) [0..<length (bu_channels b)]) (touched e st b (bu_channels b))"
proof -
  have "\<not> ch_closed (delivered (bu_policy b) e (bu_channels b ! snd p))"
    if "p \<in> set (ss_subs (touched e st b (bu_channels b)))" for p
    using that ok by (auto simp: touched_def delivered_def session_ok_def chan_room_def)
  moreover have "distinct (map f (filter P xs))" if "distinct (map f xs)" for f P and xs :: "(nat \<times> nat) list"
    using that by (induction xs) auto
  ultimately show ?thesis using ok by (auto simp: session_ok_def touched_def length_push_ring)
qed

lemma bus_inv_commit: "bus_inv b \<Longrightarrow> bus_inv (commit_event e b)"
proof (cases "bu_closed b")
  case False
  assume inv: "bus_inv b"
  obtain st b1 where g: "get_or_create_session (be_session e) b = (st, b1)" by fastforce
  note f = get_or_create_fields [OF g]
  define cs where "cs = map (\<lambda>d. if d \<in> sub_chans st then delivered (bu_policy b) e (bu_channels b ! d)
       else bu_channels b ! d) [0..<length (bu_channels b)]"
  have inv1: "bus_inv b1" by (rule bus_inv_get_or_create [OF inv g])
  have ok: "session_ok (bu_buffer b) (bu_channels b) st" using bus_invD(3) [OF inv1 f(5)] f by simp
  have "bus_inv (put_session (be_session e) (touched e st b (bu_channels b)) (b1\<lparr>bu_channels := cs\<rparr>))"
  proof (rule bus_inv_put [OF inv1])
    show "session_ok (bu_buffer b1) cs (touched e st b (bu_channels b))"
      using touched_ok [OF ok] f by (simp add: cs_def)
    show "length (bu_channels b1) \<le> length cs" by (simp add: cs_def f)
  next
    fix k st' c assume k: "k \<noteq> be_session e" "map_of (bu_sessions b1) k = Some st'" "c \<in> sub_chans st'"
    from bus_invD(4) [OF inv1 k(1,2) f(5)] k(3) have n: "c \<notin> sub_chans st" by blast
    have c: "c < length (bu_channels b)" using sub_chans_less [OF bus_invD(3) [OF inv1 k(2)] k(3)] f by simp
    show "cs ! c = bu_channels b1 ! c \<and> c \<notin> sub_chans (touched e st b (bu_channels b))"
      using n c by (auto simp: cs_def f touched_def sub_chans_def)
  next
    show "\<forall>ch \<in> set cs. length (ch_queue ch) \<le> ch_cap ch"
      using bus_invD(5) [OF inv] by (auto simp: cs_def delivered_cap)
  qed
  then show ?thesis using commit_event_open [OF inv False g] by (simp add: cs_def)
qed (simp add: commit_event_def)

lemma bus_inv_stamp: "bus_inv b \<Longrightarrow> bus_inv (snd (stamp clock e b))"
  by (simp add: stamp_def next_id_def Let_def bus_inv_def)

lemma bus_inv_unsubscribe: "bus_inv b \<Longrightarrow> bus_inv (unsubscribe h b)"
proof -
  assume inv: "bus_inv b"
  obtain sid i where h: "h = (sid, i)" by (cases h)
  show ?thesis
  proof (cases "map_of (bu_sessions b) sid")
    case None
    then show ?thesis using inv by (simp add: unsubscribe_def h)
  next
    case (Some st)
    note ok = bus_invD(3) [OF inv Some]
    obtain st1 cs where r: "remove_sub i st (bu_channels b) = (st1, cs)" by fastforce
    have e: "unsubscribe h b = put_session sid st1 (b\<lparr>bu_channels := cs\<rparr>)"
      using Some r by (simp add: unsubscribe_def h)
    show ?thesis unfolding e
    proof (cases "map_of (ss_subs st) i")
      case None
      then have "st1 = st" "cs = bu_channels b" using r by (auto simp: remove_sub_def)
      then show "bus_inv (put_session sid st1 (b\<lparr>bu_channels := cs\<rparr>))"
        using ok bus_invD(4) [OF inv _ _ Some] bus_invD(5) [OF inv]
        by (intro bus_inv_put [OF inv]) auto
    next
      case sub: (Some c)
      then have st1: "st1 = st\<lparr>ss_subs := AList.delete i (ss_subs st)\<rparr>" and cs: "cs = chan_close c (bu_channels b)"
        using r by (auto simp: remove_sub_def)
      have c: "c \<in> sub_chans st" using map_of_SomeD [OF sub] by (force simp: sub_chans_def)
      have sub1: "ss_subs st1 = filter (\<lambda>p. fst p \<noteq> i) (ss_subs st)"
        by (auto simp: st1 AList.delete_eq intro!: filter_cong)
      have other: "snd p \<noteq> c" if "p \<in> set (ss_subs st1)" for p
      proof
        assume "snd p = c"
        moreover have "inj_on snd (set (ss_subs st))" using ok by (simp add: session_ok_def distinct_map)
        moreover have "p \<in> set (ss_subs st)" using that by (simp add: sub1)
        ultimately have "p = (i, c)" using map_of_SomeD [OF sub] by (metis inj_onD snd_conv)
        then show False using that by (simp add: sub1)
      qed
      have same: "cs ! snd p = bu_channels b ! snd p" if "p \<in> set (ss_subs st1)" for p
        using other [OF that] by (simp add: cs chan_close_def nth_list_update_neq [OF not_sym])
      have d: "distinct (map f (filter P xs))" if "distinct (map f xs)" for f P and xs :: "(nat \<times> nat) list"
        using that by (induction xs) auto
      have "ss_next st1 = ss_next st" "ss_ring st1 = ss_ring st" by (simp_all add: st1)
      moreover have "length cs = length (bu_channels b)" by (simp add: cs chan_close_def)
      ultimately have "session_ok (bu_buffer b) cs st1"
        using ok same unfolding session_ok_def sub1 by (simp add: d)
      moreover have sc: "sub_chans st1 \<subseteq> sub_chans st" by (auto simp: sub_chans_def sub1)
      moreover have "cs ! d = bu_channels b ! d \<and> d \<notin> sub_chans st1"
        if "k \<noteq> sid" "map_of (bu_sessions b) k = Some st'" "d \<in> sub_chans st'" for k st' d
      proof -
        have "d \<notin> sub_chans st" using bus_invD(4) [OF inv that(1,2) Some] that(3) by blast
        with c sc have "c \<noteq> d" "d \<notin> sub_chans st1" by auto
        then show ?thesis by (simp add: cs chan_close_def)
      qed
      moreover have "\<forall>ch \<in> set cs. length (ch_queue ch) \<le> ch_cap ch"
        using bus_invD(5) [OF inv] sub_chans_less [OF ok c]
        by (auto simp: cs chan_close_def dest!: subsetD [OF set_update_subset_insert])
      ultimately show "bus_inv (put_session sid st1 (b\<lparr>bu_channels := cs\<rparr>))"
        by (intro bus_inv_put [OF inv]) (simp_all add: cs chan_close_def)
    qed
  qed
qed

lemma length_newer_than: "length (newer_than l ring) \<le> length ring"
  by (simp add: newer_than_def length_filter_le split: option.splits)

lemma bus_inv_channels:
  assumes "bus_inv b" "\<And>st. session_ok (bu_buffer b) (bu_channels b) st \<Longrightarrow> session_ok (bu_buffer b) cs st"
    "\<And>ch. ch \<in> set cs \<Longrightarrow> length (ch_queue ch) \<le> ch_cap ch"
  shows "bus_inv (b\<lparr>bu_channels := cs\<rparr>)"
  using bus_invD(1-4) [OF assms(1)] assms(2,3) unfolding bus_inv_def by simp

lemma bus_inv_add_channel:
  assumes "bus_inv b" "length (ch_queue ch) \<le> ch_cap ch"
  shows "bus_inv (b\<lparr>bu_channels := bu_channels b @ [ch]\<rparr>)"
proof -
  have "session_ok (bu_buffer b) (bu_channels b @ [ch]) st" if "session_ok (bu_buffer b) (bu_channels b) st" for st
    using that by (auto simp: session_ok_def nth_append)
  then show ?thesis using bus_invD(5) [OF assms(1)] assms(2) by (intro bus_inv_channels [OF assms(1)]) auto
qed

lemma bus_inv_subscribe: "bus_inv b \<Longrightarrow> bus_inv (snd (snd (subscribe clock sid l b)))"
proof (cases "bu_closed b")
  case True
  assume "bus_inv b"
  then show ?thesis using True by (simp add: subscribe_def Let_def bus_inv_add_channel)
next
  case False
  assume inv: "bus_inv b"
  obtain st b1 where g: "get_or_create_session sid b = (st, b1)" by fastforce
  note f = get_or_create_fields [OF g]
  have inv1: "bus_inv b1" by (rule bus_inv_get_or_create [OF inv g])
  have ok: "session_ok (bu_buffer b) (bu_channels b) st" using bus_invD(3) [OF inv1 f(5)] f by simp
  define ch where "ch = \<lparr>ch_queue = newer_than l (ss_ring st), ch_cap = bu_buffer b + bu_queue b, ch_closed = False\<rparr>"
  define st1 where "st1 = st\<lparr>ss_active := clock, ss_next := ss_next st + 1, ss_subs := ss_subs st @ [(ss_next st, length (bu_channels b))]\<rparr>"
  have e: "snd (snd (subscribe clock sid l b)) = put_session sid st1 (b1\<lparr>bu_channels := bu_channels b1 @ [ch]\<rparr>)"
    using False by (simp add: subscribe_def g Let_def st1_def ch_def)
  have ringle: "length (ss_ring st) \<le> bu_buffer b" using ok by (simp add: session_ok_def)
  have cap: "length (ch_queue ch) \<le> ch_cap ch"
    using le_trans [OF length_newer_than [of l "ss_ring st"] ringle] by (simp add: ch_def)
  show ?thesis unfolding e
  proof (rule bus_inv_put [OF inv1])
    show "session_ok (bu_buffer b1) (bu_channels b1 @ [ch]) st1"
      using ok by (fastforce simp: session_ok_def st1_def f nth_append ch_def)
  next
    fix k st' c assume k: "k \<noteq> sid" "map_of (bu_sessions b1) k = Some st'" "c \<in> sub_chans st'"
    from bus_invD(4) [OF inv1 k(1,2) f(5)] k(3) have n: "c \<notin> sub_chans st" by blast
    have c: "c < length (bu_channels b)" using sub_chans_less [OF bus_invD(3) [OF inv1 k(2)] k(3)] f by simp
    show "(bu_channels b1 @ [ch]) ! c = bu_channels b1 ! c \<and> c \<notin> sub_chans st1"
      using n c by (auto simp: f nth_append st1_def sub_chans_def)
  next
    show "\<forall>x \<in> set (bu_channels b1 @ [ch]). length (ch_queue x) \<le> ch_cap x"
      using bus_invD(5) [OF inv1] cap by auto
  qed simp
qed

lemma bus_inv_receive: "bus_inv b \<Longrightarrow> bus_inv (snd (chan_receive c b))"
proof (cases "ch_queue (bu_channels b ! c)")
  case (Cons e es)
  assume inv: "bus_inv b"
  define cs where "cs = (bu_channels b)[c := (bu_channels b ! c)\<lparr>ch_queue := es\<rparr>]"
  have e: "snd (chan_receive c b) = b\<lparr>bu_channels := cs\<rparr>"
    by (simp add: chan_receive_def Let_def Cons cs_def)
  have closed: "ch_closed (cs ! d) = ch_closed (bu_channels b ! d)" if "d < length (bu_channels b)" for d
    using that by (cases "c = d") (simp_all add: cs_def)
  have ok: "session_ok (bu_buffer b) cs st" if "session_ok (bu_buffer b) (bu_channels b) st" for st
    using that closed by (auto simp: session_ok_def cs_def)
  have caps: "length (ch_queue ch) \<le> ch_cap ch" if "ch \<in> set cs" for ch
  proof (cases "c < length (bu_channels b)")
    case True
    then have "length (ch_queue (bu_channels b ! c)) \<le> ch_cap (bu_channels b ! c)" using bus_invD(5) [OF inv] by simp
    from that consider "ch = (bu_channels b ! c)\<lparr>ch_queue := es\<rparr>" | "ch \<in> set (bu_channels b)"
      unfolding cs_def by (meson insertE set_update_subset_insert subsetD)
    then show ?thesis
    proof cases
      case 1
      then show ?thesis using \<open>length (ch_queue (bu_channels b ! c)) \<le> ch_cap (bu_channels b ! c)\<close> by (simp add: Cons)
    next
      case 2
      then show ?thesis by (rule bus_invD(5) [OF inv])
    qed
  next
    case False
    then show ?thesis using that bus_invD(5) [OF inv] by (simp add: cs_def list_update_beyond)
  qed
  show ?thesis unfolding e by (rule bus_inv_channels [OF inv ok caps])
qed (simp add: chan_receive_def Let_def)

lemma close_caps:
  "\<forall>ch \<in> set cs. length (ch_queue ch) \<le> ch_cap ch \<Longrightarrow> \<forall>ch \<in> set (chan_close c cs). length (ch_queue ch) \<le> ch_cap ch"
proof (cases "c < length cs")
  case True
  assume "\<forall>ch \<in> set cs. length (ch_queue ch) \<le> ch_cap ch"
  with True show ?thesis by (auto simp: chan_close_def dest!: subsetD [OF set_update_subset_insert])
qed (simp add: chan_close_def list_update_beyond)

lemma bus_inv_close: "bus_inv b \<Longrightarrow> bus_inv (close_bus b)"
proof -
  assume inv: "bus_inv b"
  have inner: "\<forall>ch \<in> set cs. length (ch_queue ch) \<le> ch_cap ch \<Longrightarrow>
    \<forall>ch \<in> set (fold (\<lambda>(_, c) cs. chan_close c cs) subs cs). length (ch_queue ch) \<le> ch_cap ch"
    for subs :: "(nat \<times> nat) list" and cs :: "'a channel list"
    by (induction subs arbitrary: cs) (auto dest: close_caps)
  have "\<forall>ch \<in> set cs. length (ch_queue ch) \<le> ch_cap ch \<Longrightarrow>
    \<forall>ch \<in> set (fold (\<lambda>(_, st) cs. fold (\<lambda>(_, c) cs. chan_close c cs) (ss_subs st) cs) ss cs). length (ch_queue ch) \<le> ch_cap ch"
    for ss :: "(string \<times> 'a session_state) list" and cs :: "'a channel list"
  proof (induction ss arbitrary: cs)
    case (Cons p ss)
    from Cons.IH [OF inner [OF Cons.prems, of "ss_subs (snd p)"]] show ?case by (simp add: case_prod_unfold)
  qed simp
  from this [of "bu_channels b" "bu_sessions b"] show ?thesis
    using inv by (auto simp: close_bus_def bus_inv_def)
qed

section \<open>Histories\<close>

datatype 'd bus_op =
  Stamp int "'d event" | Commit "'d event" | Publish int "'d event"
| Subscribe int string string | Unsubscribe "string \<times> nat" | Receive nat | Close

fun bus_step :: "'d bus_op \<Rightarrow> 'd bus \<Rightarrow> 'd bus" where
  "bus_step (Stamp t e) b = snd (stamp t e b)"
| "bus_step (Commit e) b = commit_event e b"
| "bus_step (Publish t e) b = publish t e b"
| "bus_step (Subscribe t sid l) b = snd (snd (subscribe t sid l b))"
| "bus_step (Unsubscribe h) b = unsubscribe h b"
| "bus_step (Receive c) b = snd (chan_receive c b)"
| "bus_step Close b = close_bus b"

definition run_bus :: "'d bus_op list \<Rightarrow> 'd bus \<Rightarrow> 'd bus" where
  "run_bus ops b = fold bus_step ops b"

lemma run_bus_Nil [simp]: "run_bus [] b = b" and run_bus_Cons [simp]: "run_bus (x # ops) b = run_bus ops (bus_step x b)"
  by (simp_all add: run_bus_def)

lemma bus_inv_step: "bus_inv b \<Longrightarrow> bus_inv (bus_step x b)"
  by (cases x) (auto simp: bus_inv_stamp bus_inv_commit bus_inv_subscribe bus_inv_unsubscribe bus_inv_receive
      bus_inv_close publish_def split_beta intro: bus_inv_commit bus_inv_stamp)

lemma bus_inv_run: "bus_inv b \<Longrightarrow> bus_inv (run_bus ops b)"
  by (induction ops arbitrary: b) (auto intro: bus_inv_step)

end
