(* ===== verification/Bus_Props.thy ===== *)
theory Bus_Props
  imports Bus
begin

text \<open>
  The properties of the activity bus (\<^verbatim>\<open>callbacks/activity/bus.go\<close>): what every history of operations
  keeps, what one event does to every channel, what eviction may drop, what a reconnecting client
  is given, and two histories in which the last two fail.
\<close>

section \<open>Safety of every history\<close>

text \<open>C10: Whatever the history of operations, every replay ring stays within the buffer size, every live
  subscription's channel is open (so neither a delivery to nor the closing of a closed channel, which
  would panic, can happen), serves no other subscription of any session, and holds at most its capacity
  (so no delivery or replay under the mutex blocks).\<close>

theorem bus_histories_safe:
  "let b = run_bus ops (new_bus buffer queue policy max_sessions) in
    (\<forall>ch \<in> set (bu_channels b). length (ch_queue ch) \<le> ch_cap ch)
    \<and> (\<forall>sid st. map_of (bu_sessions b) sid = Some st \<longrightarrow>
        length (ss_ring st) \<le> bu_buffer b \<and> distinct (map snd (ss_subs st))
        \<and> (\<forall>(i, c) \<in> set (ss_subs st). c < length (bu_channels b) \<and> \<not> ch_closed (bu_channels b ! c)
            \<and> (\<forall>sid' st'. sid' \<noteq> sid \<longrightarrow> map_of (bu_sessions b) sid' = Some st' \<longrightarrow> c \<notin> sub_chans st')))"
proof -
  define b where "b = run_bus ops (new_bus buffer queue policy max_sessions)"
  have inv: "bus_inv b" unfolding b_def by (rule bus_inv_run [OF bus_inv_new])
  have "length (ss_ring st) \<le> bu_buffer b" "distinct (map snd (ss_subs st))"
    "\<And>i c. (i, c) \<in> set (ss_subs st) \<Longrightarrow> c < length (bu_channels b) \<and> \<not> ch_closed (bu_channels b ! c)"
    if "map_of (bu_sessions b) sid = Some st" for sid st
    using bus_invD(3) [OF inv that] by (auto simp: session_ok_def)
  moreover have "c \<notin> sub_chans st'"
    if "map_of (bu_sessions b) sid = Some st" "(i, c) \<in> set (ss_subs st)" "sid' \<noteq> sid"
      "map_of (bu_sessions b) sid' = Some st'" for sid st i c sid' st'
    using bus_invD(4) [OF inv that(3,4,1)] that(2) by (force simp: sub_chans_def)
  ultimately show ?thesis using bus_invD(5) [OF inv] unfolding Let_def b_def [symmetric] by blast
qed

definition bus_demo :: "unit bus" where
  "bus_demo = run_bus [Subscribe 1 ''s'' [], Subscribe 2 ''t'' []] (new_bus 2 1 DropEvent 2)"

definition ev :: "string \<Rightarrow> unit event" where
  "ev sid = \<lparr>be_id = [], be_session = sid, be_type = ''log'', be_agent = [], be_time = None, be_data = ()\<rparr>"

text \<open>Concrete buses are evaluated one operation at a time.\<close>

lemmas bus_exec = run_bus_def new_bus_def publish_def stamp_def next_id_def commit_event_def subscribe_def
  unsubscribe_def get_or_create_session_def evict_idle_session_def put_session_def push_ring_def newer_than_def
  chan_room_def chan_send_def chan_close_def remove_sub_def chan_receive_def new_session_def ev_def Let_def

theorem bus_histories_safe_witness:
  "length (ch_queue (bu_channels bus_demo ! 0)) \<le> ch_cap (bu_channels bus_demo ! 0)"
proof -
  have "length (bu_channels bus_demo) = 2" by code_simp
  then have m: "bu_channels bus_demo ! 0 \<in> set (bu_channels bus_demo)" by simp
  show ?thesis
    using m bus_histories_safe [of "[Subscribe 1 ''s'' [], Subscribe 2 ''t'' []]" 2 1 DropEvent 2]
    unfolding Let_def bus_demo_def by blast
qed

lemma bus_demo_inv: "bus_inv bus_demo"
  unfolding bus_demo_def by (rule bus_inv_run [OF bus_inv_new])

section \<open>Delivery\<close>

lemma push_ring_tail:
  assumes "length ring \<le> n" and "0 < n"
  shows "suffix (push_ring n e ring) (ring @ [e])" and "length (push_ring n e ring) = min n (length ring + 1)"
    and "push_ring n e ring \<noteq> [] \<and> last (push_ring n e ring) = e"
  using assms by (auto simp: push_ring_eq suffix_drop min_def)

text \<open>The session a publication creates may push another one out.\<close>

lemma get_or_create_others:
  assumes "bus_inv b" and "get_or_create_session k b = (st, b1)"
  shows "\<exists>gone. (\<forall>sid. sid \<noteq> k \<longrightarrow> map_of (bu_sessions b1) sid = (if gone = Some sid then None else map_of (bu_sessions b) sid))
    \<and> (\<forall>v. gone = Some v \<longrightarrow> map_of (bu_sessions b) k = None \<and> bu_max_sessions b \<le> length (bu_sessions b)
        \<and> (\<exists>s. map_of (bu_sessions b) v = Some s \<and> ss_subs s = []))"
proof (cases "map_of (bu_sessions b) k = None \<and> 0 < bu_max_sessions b \<and> bu_max_sessions b \<le> length (bu_sessions b)
    \<and> pick_victim (bu_sessions b) None \<noteq> None")
  case True
  then obtain v t where v: "pick_victim (bu_sessions b) None = Some (v, t)" by auto
  obtain s where s: "(v, s) \<in> set (bu_sessions b)" "ss_subs s = []" using pick_victim_Some [OF v] by auto
  have "map_of (bu_sessions b) v = Some s" using map_of_is_SomeI [OF bus_invD(1) [OF assms(1)] s(1)] .
  then show ?thesis using True v s(2) assms(2)
    by (intro exI [of _ "Some v"])
      (auto simp: get_or_create_session_def evict_idle_session_def Let_def update_conv' delete_conv')
next
  case False
  then show ?thesis using assms(2)
    by (intro exI [of _ None])
      (auto simp: get_or_create_session_def evict_idle_session_def Let_def update_conv' split: option.splits if_splits)
qed

text \<open>C11: An event published on an open bus reaches, at the end of their queues, exactly the channels subscribed to its
  session that have room; a full one is closed and unsubscribed under \<open>DropSubscriber\<close>, and left as it is otherwise; every
  other channel is left alone. The session, which is made when it is new, keeps its other subscriptions and the latest
  events up to the bound of its ring, the event last. Other sessions stay as they are, but for one without subscribers that
  may have to go when a new session comes to a full bus.\<close>

theorem publish_delivers:
  assumes inv: "bus_inv b" and op: "\<not> bu_closed b"
    and st: "st = (case map_of (bu_sessions b) (be_session e) of Some s \<Rightarrow> s | None \<Rightarrow> new_session)"
  shows "bu_channels (commit_event e b)
      = map (\<lambda>d. let ch = bu_channels b ! d in
            if d \<in> snd ` set (ss_subs st)
            then (if length (ch_queue ch) < ch_cap ch then ch\<lparr>ch_queue := ch_queue ch @ [e]\<rparr>
                  else if bu_policy b = DropSubscriber then ch\<lparr>ch_closed := True\<rparr> else ch)
            else ch) [0..<length (bu_channels b)]
    \<and> (\<exists>st'. map_of (bu_sessions (commit_event e b)) (be_session e) = Some st'
        \<and> suffix (ss_ring st') (ss_ring st @ [e]) \<and> length (ss_ring st') = min (bu_buffer b) (length (ss_ring st) + 1)
        \<and> ss_ring st' \<noteq> [] \<and> last (ss_ring st') = e
        \<and> ss_subs st' = filter (\<lambda>p. bu_policy b = DropSubscriber
            \<longrightarrow> length (ch_queue (bu_channels b ! snd p)) < ch_cap (bu_channels b ! snd p)) (ss_subs st)
        \<and> ss_next st' = ss_next st \<and> ss_active st' = (case be_time e of None \<Rightarrow> 0 | Some t \<Rightarrow> t))
    \<and> (\<exists>gone. (\<forall>sid. sid \<noteq> be_session e \<longrightarrow>
            map_of (bu_sessions (commit_event e b)) sid = (if gone = Some sid then None else map_of (bu_sessions b) sid))
        \<and> (\<forall>v. gone = Some v \<longrightarrow> map_of (bu_sessions b) (be_session e) = None \<and> bu_max_sessions b \<le> length (bu_sessions b)
            \<and> (\<exists>s. map_of (bu_sessions b) v = Some s \<and> ss_subs s = [])))"
proof -
  obtain s1 b1 where g: "get_or_create_session (be_session e) b = (s1, b1)" by fastforce
  have s1: "s1 = st" using g st by (auto simp: get_or_create_session_def Let_def split: option.splits)
  note g = g [unfolded s1]
  have "session_ok (bu_buffer b) (bu_channels b) st"
    using bus_invD(3) [OF bus_inv_get_or_create [OF inv g] get_or_create_fields(5) [OF g]] get_or_create_fields [OF g] by simp
  then have ring: "length (ss_ring st) \<le> bu_buffer b" by (simp add: session_ok_def)
  note r = push_ring_tail [OF ring bus_invD(2) [OF inv], of e]
  show ?thesis unfolding commit_event_open [OF inv op g]
  proof (intro conjI)
    show "\<exists>st'. map_of (bu_sessions (put_session (be_session e) (touched e st b (bu_channels b))
          (b1\<lparr>bu_channels := map (\<lambda>d. if d \<in> sub_chans st then delivered (bu_policy b) e (bu_channels b ! d) else bu_channels b ! d)
            [0..<length (bu_channels b)]\<rparr>))) (be_session e) = Some st'
        \<and> suffix (ss_ring st') (ss_ring st @ [e]) \<and> length (ss_ring st') = min (bu_buffer b) (length (ss_ring st) + 1)
        \<and> ss_ring st' \<noteq> [] \<and> last (ss_ring st') = e
        \<and> ss_subs st' = filter (\<lambda>p. bu_policy b = DropSubscriber
            \<longrightarrow> length (ch_queue (bu_channels b ! snd p)) < ch_cap (bu_channels b ! snd p)) (ss_subs st)
        \<and> ss_next st' = ss_next st \<and> ss_active st' = (case be_time e of None \<Rightarrow> 0 | Some t \<Rightarrow> t)"
      by (intro exI [of _ "touched e st b (bu_channels b)"])
        (use r in \<open>simp add: put_session_def update_conv' touched_def chan_room_def\<close>)
  qed (use get_or_create_others [OF inv g] in
      \<open>auto simp: put_session_def update_conv' sub_chans_def delivered_def Let_def\<close>)
qed

theorem publish_delivers_witness:
  "map ch_queue (bu_channels (commit_event (ev ''s'') bus_demo))
      = map (\<lambda>d. ch_queue (if length (ch_queue (bu_channels bus_demo ! d)) < ch_cap (bu_channels bus_demo ! d) \<and> d = 0
          then (bu_channels bus_demo ! d)\<lparr>ch_queue := ch_queue (bu_channels bus_demo ! d) @ [ev ''s'']\<rparr> else bu_channels bus_demo ! d))
          [0..<length (bu_channels bus_demo)]"
proof -
  have "\<not> bu_closed bus_demo" "map_of (bu_sessions bus_demo) ''s'' = Some \<lparr>ss_ring = [], ss_subs = [(0, 0)], ss_next = 1, ss_active = 1\<rparr>"
    "bu_policy bus_demo = DropEvent"
    by (simp_all add: bus_demo_def bus_exec parse_id_def evt_prefix_def)
  then show ?thesis
    using publish_delivers [OF bus_demo_inv _ refl, of "ev ''s''"] by (simp add: ev_def Let_def o_def cong: if_cong)
qed

section \<open>Eviction\<close>

text \<open>Making room for a new session removes at most one session, never one that has a subscriber, and of
  those without one the least recently active; it fails to remove one only when every session has a
  subscriber.\<close>

theorem eviction_lru:
  assumes inv: "bus_inv b"
  shows "evict_idle_session b = b \<and> (\<forall>p \<in> set (bu_sessions b). ss_subs (snd p) \<noteq> [])
    \<or> (\<exists>victim st. map_of (bu_sessions b) victim = Some st \<and> ss_subs st = []
        \<and> (\<forall>p \<in> set (bu_sessions b). ss_subs (snd p) = [] \<longrightarrow> ss_active st \<le> ss_active (snd p))
        \<and> (\<forall>sid. map_of (bu_sessions (evict_idle_session b)) sid = (if sid = victim then None else map_of (bu_sessions b) sid)))"
proof (cases "pick_victim (bu_sessions b) None")
  case None
  then have "evict_idle_session b = b" by (simp add: evict_idle_session_def)
  moreover have "\<forall>p \<in> set (bu_sessions b). ss_subs (snd p) \<noteq> []"
    using None by (simp add: pick_victim_None)
  ultimately show ?thesis by blast
next
  case (Some p)
  obtain v t where p: "p = (v, t)" by (cases p)
  obtain st where st: "(v, st) \<in> set (bu_sessions b)" "ss_subs st = []" "ss_active st = t"
    using pick_victim_Some [OF Some [unfolded p]] by auto
  have "map_of (bu_sessions b) v = Some st" using map_of_is_SomeI [OF bus_invD(1) [OF inv] st(1)] .
  moreover have "map_of (bu_sessions (evict_idle_session b)) sid = (if sid = v then None else map_of (bu_sessions b) sid)" for sid
    using Some p by (simp add: evict_idle_session_def delete_conv')
  moreover have "\<forall>p \<in> set (bu_sessions b). ss_subs (snd p) = [] \<longrightarrow> ss_active st \<le> ss_active (snd p)"
    using pick_victim_least [OF Some [unfolded p]] st(3) by blast
  ultimately show ?thesis using st(2) by blast
qed

definition idle_sessions :: "unit bus" where
  "idle_sessions = run_bus [Commit ((ev ''t'')\<lparr>be_time := Some 7\<rparr>), Commit ((ev ''s'')\<lparr>be_time := Some 3\<rparr>),
     Subscribe 1 ''u'' []] (new_bus 2 1 DropEvent 4)"

theorem eviction_lru_witness:
  "map_of (bu_sessions (evict_idle_session idle_sessions)) ''s'' = None
    \<and> map_of (bu_sessions (evict_idle_session idle_sessions)) ''t'' = map_of (bu_sessions idle_sessions) ''t''"
proof -
  have inv: "bus_inv idle_sessions" unfolding idle_sessions_def by (rule bus_inv_run [OF bus_inv_new])
  have ss: "map (\<lambda>(k, st). (k, ss_subs st, ss_active st)) (bu_sessions idle_sessions) = [(''t'', [], 7), (''s'', [], 3), (''u'', [(0, 0)], 1)]"
    by code_simp
  then obtain st1 st2 st3 where b: "bu_sessions idle_sessions = [(''t'', st1), (''s'', st2), (''u'', st3)]"
    and a: "ss_active st1 = 7" "ss_active st2 = 3" "ss_subs st1 = []" "ss_subs st2 = []" "ss_subs st3 \<noteq> []"
    by (auto simp: map_eq_Cons_conv)
  have ne: "\<not> (\<forall>p \<in> set (bu_sessions idle_sessions). ss_subs (snd p) \<noteq> [])" using b a by simp
  from eviction_lru [OF inv] ne obtain v st where v: "map_of (bu_sessions idle_sessions) v = Some st" "ss_subs st = []"
      "\<And>p. p \<in> set (bu_sessions idle_sessions) \<Longrightarrow> ss_subs (snd p) = [] \<Longrightarrow> ss_active st \<le> ss_active (snd p)"
      "\<And>sid. map_of (bu_sessions (evict_idle_session idle_sessions)) sid = (if sid = v then None else map_of (bu_sessions idle_sessions) sid)"
    by blast
  have "v = ''s''" using v(1,2) v(3) [of "(''s'', st2)"] a b by (auto split: if_splits)
  then show ?thesis using v(4) by simp
qed

section \<open>Reconnecting\<close>

text \<open>When publishers do not overlap, each event goes from its id to the ring in one step, and rings stay
  sorted by id.\<close>

definition ring_ids :: "'d event list \<Rightarrow> nat option list" where
  "ring_ids ring = map (\<lambda>e. parse_id (be_id e)) ring"

definition ring_sorted :: "nat \<Rightarrow> 'd event list \<Rightarrow> bool" where
  "ring_sorted n ring \<longleftrightarrow> (\<exists>ns. ring_ids ring = map Some ns \<and> sorted_wrt (<) ns \<and> (\<forall>k \<in> set ns. k \<le> n))"

definition rings_sorted :: "'d bus \<Rightarrow> bool" where
  "rings_sorted b \<longleftrightarrow> (\<forall>sid st. map_of (bu_sessions b) sid = Some st \<longrightarrow> ring_sorted (bu_counter b) (ss_ring st))"

lemma rings_sortedD: "rings_sorted b \<Longrightarrow> map_of (bu_sessions b) sid = Some st \<Longrightarrow> ring_sorted (bu_counter b) (ss_ring st)"
  by (simp add: rings_sorted_def)

lemma ring_sorted_Nil [simp]: "ring_sorted n []"
  by (simp add: ring_sorted_def ring_ids_def)

lemma ring_sorted_push:
  assumes "ring_sorted n ring" "n < k" "parse_id (be_id e) = Some k"
  shows "ring_sorted k (push_ring m e ring)"
proof -
  obtain ns where ns: "ring_ids ring = map Some ns" "sorted_wrt (<) ns" "\<forall>k \<in> set ns. k \<le> n"
    using assms(1) by (auto simp: ring_sorted_def)
  define d where "d = length ring + 1 - m"
  have "ring_ids (push_ring m e ring) = drop d (ring_ids (ring @ [e]))"
    by (simp only: push_ring_eq ring_ids_def d_def drop_map)
  also have "ring_ids (ring @ [e]) = map Some (ns @ [k])"
    using ns(1) assms(3) by (simp add: ring_ids_def)
  finally have "ring_ids (push_ring m e ring) = map Some (drop d (ns @ [k]))" by (simp only: drop_map)
  moreover have "sorted_wrt (<) (ns @ [k])" using ns(2,3) assms(2) by (auto simp: sorted_wrt_append)
  then have "sorted_wrt (<) (drop d (ns @ [k]))" by (rule sorted_wrt_drop)
  moreover have "\<forall>j \<in> set (drop d (ns @ [k])). j \<le> k" using ns(3) assms(2) by (auto dest!: in_set_dropD)
  ultimately show ?thesis unfolding ring_sorted_def by blast
qed

text \<open>An operation that adds no event leaves every session's ring as it was, or empty, or drops it.\<close>

definition rings_kept :: "'d bus \<Rightarrow> 'd bus \<Rightarrow> bool" where
  "rings_kept b b' \<longleftrightarrow> bu_counter b' = bu_counter b
     \<and> (\<forall>sid st'. map_of (bu_sessions b') sid = Some st' \<longrightarrow>
          ss_ring st' = [] \<or> (\<exists>st. map_of (bu_sessions b) sid = Some st \<and> ss_ring st' = ss_ring st))"

lemma rings_kept_sorted: "rings_kept b b' \<Longrightarrow> rings_sorted b \<Longrightarrow> rings_sorted b'"
  unfolding rings_kept_def rings_sorted_def by (metis ring_sorted_Nil)

lemma rings_kept_refl: "bu_sessions b' = bu_sessions b \<Longrightarrow> bu_counter b' = bu_counter b \<Longrightarrow> rings_kept b b'"
  by (auto simp: rings_kept_def)

lemma rings_kept_evict: "rings_kept b (evict_idle_session b)"
  by (auto simp: rings_kept_def evict_idle_session_def delete_conv' split: option.splits prod.splits if_splits)

lemma rings_kept_create: "rings_kept b b1 \<Longrightarrow> ss_ring st = [] \<Longrightarrow>
    rings_kept b (b1\<lparr>bu_sessions := AList.update sid st (bu_sessions b1)\<rparr>)"
  by (auto simp: rings_kept_def update_conv')

lemma get_or_create_kept:
  assumes "get_or_create_session sid b = (st, b1)"
  shows "rings_kept b b1"
proof (cases "map_of (bu_sessions b) sid")
  case None
  define b2 where "b2 = (if 0 < bu_max_sessions b \<and> bu_max_sessions b \<le> length (bu_sessions b)
                    then evict_idle_session b else b)"
  have "rings_kept b b2" using rings_kept_evict [of b] by (simp add: b2_def rings_kept_refl)
  then have "rings_kept b (b2\<lparr>bu_sessions := AList.update sid new_session (bu_sessions b2)\<rparr>)"
    by (rule rings_kept_create) (simp add: new_session_def)
  moreover have "b1 = b2\<lparr>bu_sessions := AList.update sid new_session (bu_sessions b2)\<rparr>"
    using assms None by (simp add: get_or_create_session_def Let_def flip: b2_def)
  ultimately show ?thesis by simp
qed (use assms in \<open>simp add: get_or_create_session_def rings_kept_refl\<close>)

lemma rings_kept_put:
  assumes "rings_kept b b1" "map_of (bu_sessions b1) sid = Some st" "ss_ring st' = ss_ring st"
  shows "rings_kept b (put_session sid st' (b1\<lparr>bu_channels := cs\<rparr>))"
  using assms by (auto simp: rings_kept_def put_session_def update_conv')

lemma rings_kept_subscribe: "rings_kept b (snd (snd (subscribe t sid l b)))"
proof (cases "bu_closed b")
  case True
  then show ?thesis by (simp add: subscribe_def Let_def rings_kept_refl)
next
  case False
  obtain st b1 where g: "get_or_create_session sid b = (st, b1)" by fastforce
  show ?thesis using False rings_kept_put [OF get_or_create_kept [OF g] get_or_create_fields(5) [OF g]]
    by (simp add: subscribe_def Let_def g)
qed

lemma rings_kept_unsubscribe: "rings_kept b (unsubscribe h b)"
proof (cases "map_of (bu_sessions b) (fst h)")
  case (Some st)
  have "ss_ring (fst (remove_sub (snd h) st (bu_channels b))) = ss_ring st" by simp
  from rings_kept_put [OF rings_kept_refl [OF refl refl] Some this] show ?thesis
    by (simp add: unsubscribe_def Some Let_def split_beta)
qed (simp add: unsubscribe_def rings_kept_refl)

lemma rings_kept_receive: "rings_kept b (snd (chan_receive c b))"
  by (rule rings_kept_refl) (simp_all add: chan_receive_def Let_def split: list.splits)

lemma rings_kept_close: "rings_kept b (close_bus b)"
  by (simp add: close_bus_def rings_kept_def)

text \<open>Histories in which every event is published in one step, without an id of its own.\<close>

fun sequential :: "'d bus_op \<Rightarrow> bool" where
  "sequential (Publish t e) \<longleftrightarrow> be_id e = []"
| "sequential (Stamp t e) \<longleftrightarrow> False"
| "sequential (Commit e) \<longleftrightarrow> False"
| "sequential op \<longleftrightarrow> True"

lemma stamp_empty_id:
  assumes "be_id e = []" "Suc (bu_counter b) < 2 ^ 64"
  shows "parse_id (be_id (fst (stamp t e b))) = Some (Suc (bu_counter b))"
    "snd (stamp t e b) = b\<lparr>bu_counter := Suc (bu_counter b)\<rparr>" "be_session (fst (stamp t e b)) = be_session e"
  using assms next_id_parse [of b] by (simp_all add: stamp_def Let_def next_id_def)

lemma commit_counter [simp]: "bu_counter (commit_event e b) = bu_counter b"
proof -
  obtain st b1 where g: "get_or_create_session (be_session e) b = (st, b1)" by fastforce
  have "bu_counter b1 = bu_counter b" using get_or_create_kept [OF g] by (simp add: rings_kept_def)
  then show ?thesis by (simp add: commit_event_def g Let_def put_session_def split_beta)
qed

lemma commit_rings:
  assumes "\<not> bu_closed b" "map_of (bu_sessions (commit_event e b)) sid = Some st'"
  shows "ss_ring st' = [] \<or> (\<exists>st. map_of (bu_sessions b) sid = Some st \<and> ss_ring st' = ss_ring st)
    \<or> sid = be_session e \<and> (\<exists>ring. (ring = [] \<or> (\<exists>st. map_of (bu_sessions b) sid = Some st \<and> ring = ss_ring st))
        \<and> ss_ring st' = push_ring (bu_buffer b) e ring)"
proof -
  obtain st b1 where g: "get_or_create_session (be_session e) b = (st, b1)" by fastforce
  note k = get_or_create_kept [OF g] and f = get_or_create_fields(5) [OF g]
  show ?thesis
  proof (cases "sid = be_session e")
    case True
    have "ss_ring st' = push_ring (bu_buffer b) e (ss_ring st)"
      using assms True by (auto simp: commit_event_def g Let_def put_session_def update_conv' fan_out_ring split_beta)
    moreover have "ss_ring st = [] \<or> (\<exists>st0. map_of (bu_sessions b) sid = Some st0 \<and> ss_ring st = ss_ring st0)"
      using k f True unfolding rings_kept_def by blast
    ultimately show ?thesis using True by blast
  next
    case False
    then have "map_of (bu_sessions b1) sid = Some st'"
      using assms by (auto simp: commit_event_def g Let_def put_session_def update_conv' split_beta)
    then show ?thesis using k unfolding rings_kept_def by blast
  qed
qed

lemma ring_sorted_mono: "ring_sorted n ring \<Longrightarrow> n \<le> k \<Longrightarrow> ring_sorted k ring"
  unfolding ring_sorted_def by (meson le_trans)

lemma publish_sorted:
  assumes "rings_sorted b" "be_id e = []" "Suc (bu_counter b) < 2 ^ 64"
  shows "rings_sorted (publish t e b) \<and> bu_counter (publish t e b) = Suc (bu_counter b)"
proof -
  obtain e1 b1 where s: "stamp t e b = (e1, b1)" by fastforce
  note stamp = stamp_empty_id [OF assms(2,3), of t, unfolded s fst_conv snd_conv]
  have p: "publish t e b = commit_event e1 b1" by (simp add: publish_def s)
  have "ring_sorted (Suc (bu_counter b)) (ss_ring st')" if st': "map_of (bu_sessions (commit_event e1 b1)) sid = Some st'" for sid st'
  proof (cases "bu_closed b1")
    case True
    with st' stamp(2) rings_sortedD [OF assms(1), of sid st'] show ?thesis
      by (auto simp: commit_event_def intro: ring_sorted_mono)
  next
    case False
    have old: "ring_sorted (bu_counter b) (ss_ring st)" if "map_of (bu_sessions b1) sid = Some st" for st
      using that stamp(2) rings_sortedD [OF assms(1)] by simp
    have push: "ring_sorted (Suc (bu_counter b)) (push_ring m e1 ring)" if "ring_sorted (bu_counter b) ring" for m ring
      using ring_sorted_push [OF that lessI stamp(1)] .
    from commit_rings [OF False st'] consider "ss_ring st' = []"
      | st where "map_of (bu_sessions b1) sid = Some st" "ss_ring st' = ss_ring st"
      | "ss_ring st' = push_ring (bu_buffer b1) e1 []"
      | st where "map_of (bu_sessions b1) sid = Some st" "ss_ring st' = push_ring (bu_buffer b1) e1 (ss_ring st)"
      by blast
    then show ?thesis
    proof cases
      case 2
      then show ?thesis using ring_sorted_mono [OF old] by simp
    qed (simp_all add: push old)
  qed
  then show ?thesis using stamp(2) by (simp add: rings_sorted_def p)
qed

lemma sequential_step:
  assumes "rings_sorted b" "sequential op" "Suc (bu_counter b) < 2 ^ 64"
  shows "rings_sorted (bus_step op b) \<and> bu_counter (bus_step op b) \<le> Suc (bu_counter b)"
proof -
  have k: "rings_sorted b' \<and> bu_counter b' \<le> Suc (bu_counter b)" if "rings_kept b b'" for b'
    using rings_kept_sorted [OF that assms(1)] that by (simp add: rings_kept_def)
  show ?thesis
  proof (cases op)
    case (Publish t e)
    then show ?thesis using publish_sorted [OF assms(1) _ assms(3)] assms(2) by simp
  qed (use assms(2) k [OF rings_kept_subscribe] k [OF rings_kept_unsubscribe] k [OF rings_kept_receive]
      k [OF rings_kept_close] in \<open>simp_all\<close>)
qed

lemma sequential_run:
  "rings_sorted b \<Longrightarrow> list_all sequential ops \<Longrightarrow> bu_counter b + length ops < 2 ^ 64 \<Longrightarrow> rings_sorted (run_bus ops b)"
proof (induction ops arbitrary: b)
  case (Cons op ops)
  have "rings_sorted (bus_step op b) \<and> bu_counter (bus_step op b) \<le> Suc (bu_counter b)"
    using Cons.prems by (intro sequential_step) auto
  with Cons show ?case by simp
qed simp

definition id_above :: "nat \<Rightarrow> 'd event \<Rightarrow> bool" where
  "id_above k e = (case parse_id (be_id e) of None \<Rightarrow> False | Some n \<Rightarrow> k < n)"

lemma filter_above_none: "ring_ids zs = map Some cs \<Longrightarrow> \<forall>c \<in> set cs. \<not> k < c \<Longrightarrow> filter (id_above k) zs = []"
  by (induction zs arbitrary: cs) (auto simp: ring_ids_def id_above_def Cons_eq_map_conv)

lemma filter_above_all: "ring_ids zs = map Some cs \<Longrightarrow> \<forall>c \<in> set cs. k < c \<Longrightarrow> filter (id_above k) zs = zs"
  by (induction zs arbitrary: cs) (auto simp: ring_ids_def id_above_def Cons_eq_map_conv)

lemma newer_than_resumes:
  assumes "ring_sorted n (xs @ e # ys)"
  shows "newer_than (be_id e) (xs @ e # ys) = ys"
proof -
  obtain ns where ns: "ring_ids (xs @ e # ys) = map Some ns" "sorted_wrt (<) ns"
    using assms by (auto simp: ring_sorted_def)
  from ns(1) have "ring_ids xs @ parse_id (be_id e) # ring_ids ys = map Some ns" by (simp add: ring_ids_def)
  then obtain as k bs where split: "ns = as @ k # bs" "ring_ids xs = map Some as" "parse_id (be_id e) = Some k"
    "ring_ids ys = map Some bs"
    by (auto simp: append_eq_map_conv Cons_eq_map_conv)
  have "\<forall>c \<in> set as. \<not> k < c" "\<forall>c \<in> set bs. k < c" using ns(2) by (auto simp: split(1) sorted_wrt_append)
  then have "filter (id_above k) (xs @ e # ys) = ys"
    using filter_above_none [OF split(2)] filter_above_all [OF split(4)] split(3) by (simp add: id_above_def)
  then show ?thesis by (simp add: newer_than_def split(3) id_above_def [abs_def])
qed

text \<open>When publishers do not overlap, a client that reconnects with the id of the last event it saw is
  given exactly the retained events after it, in order, without gap or repetition, as long as that event
  is still in the ring (below \<open>2 ^ 64\<close> operations, so that ids do not wrap).\<close>

theorem reconnect_resumes:
  assumes seq: "list_all sequential ops" "length ops < 2 ^ 64"
    and b: "b = run_bus ops (new_bus buffer queue policy max_sessions)" "\<not> bu_closed b"
    and st: "map_of (bu_sessions b) sid = Some st" "ss_ring st = xs @ e # ys"
    and sub: "subscribe t sid (be_id e) b = (c, h, b')"
  shows "ch_queue (bu_channels b' ! c) = ys \<and> h \<noteq> None \<and> \<not> ch_closed (bu_channels b' ! c)"
proof -
  have "rings_sorted b" unfolding b(1)
    by (rule sequential_run [OF _ seq(1)]) (use seq(2) in \<open>simp_all add: new_bus_def rings_sorted_def\<close>)
  from rings_sortedD [OF this st(1)] have "newer_than (be_id e) (ss_ring st) = ys"
    unfolding st(2) by (rule newer_than_resumes)
  then show ?thesis using sub b(2) st(1)
    by (auto simp: subscribe_def Let_def get_or_create_session_def put_session_def)
qed

definition three_events :: "unit bus" where
  "three_events = run_bus (replicate 3 (Publish 1 (ev ''s''))) (new_bus 4 1 DropEvent 4)"

definition numbered :: "string \<Rightarrow> unit event" where
  "numbered n = (ev ''s'')\<lparr>be_id := ''evt_'' @ n, be_time := Some 1\<rparr>"

theorem reconnect_resumes_witness:
  "ch_queue (bu_channels (snd (snd (subscribe 2 ''s'' ''evt_1'' three_events))) ! 0) = [numbered ''2'', numbered ''3'']"
proof -
  define b where "b = three_events"
  define st where "st = the (map_of (bu_sessions b) ''s'')"
  obtain c h b' where sub: "subscribe 2 ''s'' (be_id (numbered ''1'')) b = (c, h, b')" by (metis prod_cases3)
  have st: "map_of (bu_sessions b) ''s'' = Some st" "ss_ring st = [] @ numbered ''1'' # [numbered ''2'', numbered ''3'']"
    and op: "\<not> bu_closed b"
    unfolding st_def b_def by code_simp+
  have "length (bu_channels b) = 0" unfolding b_def by code_simp
  then have "c = 0" using arg_cong [OF sub, of fst] op by (simp add: subscribe_def Let_def split_beta)
  have "list_all sequential (replicate 3 (Publish 1 (ev ''s'')))" by code_simp
  with \<open>c = 0\<close> reconnect_resumes [OF _ _ _ op st sub, of "replicate 3 (Publish 1 (ev ''s''))" 4 1 DropEvent 4] sub
  show ?thesis by (simp add: b_def three_events_def ev_def numbered_def)
qed

section \<open>Where histories go wrong\<close>

text \<open>Overlapping publishers can make a reconnecting client miss an event. The id is taken before the
  mutex, so a later id can enter the ring first; a client that saw only that one and comes back with its id
  is not sent the earlier one, though the ring holds it and it was never delivered.\<close>

definition lost_event_run :: "unit event \<times> unit event \<times> unit event option option \<times> unit event list \<times> unit event list" where
  "lost_event_run =
     (let b0 = new_bus 4 1 DropEvent 4;
          (c, h, b1) = subscribe 1 ''s'' [] b0;
          (e1, b2) = stamp 1 (ev ''s'') b1;
          (e2, b3) = stamp 1 (ev ''s'') b2;
          b4 = commit_event e2 b3;
          (got, b5) = chan_receive c b4;
          b6 = commit_event e1 (unsubscribe (the h) b5);
          (c', h', b7) = subscribe 2 ''s'' (be_id e2) b6
      in (e1, e2, got, the (replay ''s'' b6), ch_queue (bu_channels b7 ! c')))"

theorem overlapping_publishers_lose_event:
  "lost_event_run = (numbered ''1'', numbered ''2'', Some (Some (numbered ''2'')), [numbered ''2'', numbered ''1''], [])"
  by code_simp

text \<open>An unsubscribe function can close another client's channel. Subscription ids restart with a
  session's state, and the state of a session without subscribers can be evicted: after the slow policy has dropped a
  subscriber and the session was evicted and created again, the first client's function removes the subscription
  that got the same number.\<close>

definition stale_unsubscribe_run :: "nat \<times> nat \<times> bool \<times> bool \<times> bool" where
  "stale_unsubscribe_run =
     (let (c, h, b1) = subscribe 1 ''s'' [] (new_bus 1 1 DropSubscriber 1 :: unit bus);
          b2 = run_bus [Commit (numbered ''1''), Commit (numbered ''2''), Commit (numbered ''3''), Commit (ev ''t'')] b1;
          (c', h', b3) = subscribe 6 ''s'' [] b2;
          b4 = unsubscribe (the h) b3
      in (c, c', ch_closed (bu_channels b3 ! c'), ch_closed (bu_channels b4 ! c'), has_subscribers ''s'' b4))"

theorem stale_unsubscribe_closes_other:
  "stale_unsubscribe_run = (0, 1, False, True, False)"
  by code_simp

end
