(* ===== verification/RunTrace.thy ===== *)
theory RunTrace
  imports GoText "HOL-Library.Product_Lexorder" "HOL-Library.Multiset"
begin

text \<open>
  Rendering of run traces, \<^verbatim>\<open>components/agent/memory/trace.go\<close>: steps are filtered, redacted,
  shortened and dropped by priority until the text fits.

  The redactor is the function in use, the configured one or the default; the default redactor's regular
  expressions are not modelled. Decoding a tool call's arguments (\<^verbatim>\<open>json.Unmarshal\<close> into a map) is
  a parameter: it gives the fields, a string or the text the value is marshaled to.
\<close>

section \<open>Definitions\<close>

datatype step_kind = AssistantText | ToolCallStep | ToolResult | TerminalAnswer

record trace_step =
  ts_kind :: step_kind
  ts_agent :: string
  ts_name :: string
  ts_text :: string

record trace_config =
  tr_max_step_chars :: int
  tr_max_chars :: int
  tr_redact :: "string \<Rightarrow> string"
  tr_filter :: "trace_step \<Rightarrow> bool"

definition kind_name :: "step_kind \<Rightarrow> string" where
  "kind_name k = (case k of AssistantText \<Rightarrow> ''assistant_text'' | ToolCallStep \<Rightarrow> ''tool_call''
     | ToolResult \<Rightarrow> ''tool_result'' | TerminalAnswer \<Rightarrow> ''terminal_answer'')"

definition trace_step_keep_rank :: "step_kind \<Rightarrow> int" where
  "trace_step_keep_rank k = (case k of TerminalAnswer \<Rightarrow> 0 | ToolCallStep \<Rightarrow> 1 | ToolResult \<Rightarrow> 2 | AssistantText \<Rightarrow> 3)"

definition format_trace_step :: "trace_step \<Rightarrow> string \<Rightarrow> string" where
  "format_trace_step st s =
     ''['' @ kind_name (ts_kind st) @ (if ts_name st \<noteq> [] then '':'' @ ts_name st else [])
     @ (if ts_agent st \<noteq> [] then ''@'' @ ts_agent st else []) @ ''] '' @ s"

definition ellipsis :: string where "ellipsis = [CHR 0xE2, CHR 0x80, CHR 0xA6]"

definition truncation_marker :: "nat \<Rightarrow> string" where
  "truncation_marker removed = ellipsis @ ''[truncated '' @ dec_of_nat removed @ '' chars]'' @ ellipsis"

definition truncate_head_tail :: "string \<Rightarrow> int \<Rightarrow> string" where
  "truncate_head_tail s limit =
     (let rs = runes s; n = length rs in
      if limit \<le> 0 \<or> int n \<le> limit then s
      else
        let head = nat (limit * 3 div 4); tail = nat limit - head; removed = n - nat limit
        in string_of_runes (take head rs) @ truncation_marker removed @ string_of_runes (drop (n - tail) rs))"

definition rendered_total :: "string list \<Rightarrow> bool list \<Rightarrow> nat" where
  "rendered_total rendered keep =
     (let kept = map fst (filter snd (zip rendered keep));
          total = sum_list (map length kept); count = length kept
      in if 1 < count then total + (count - 1) else total)"

definition join_rendered :: "string list \<Rightarrow> bool list \<Rightarrow> string" where
  "join_rendered rendered keep = join [CHR 0x0A] (map fst (filter snd (zip rendered keep)))"

fun drop_steps :: "int \<Rightarrow> trace_step list \<Rightarrow> string list \<Rightarrow> nat list \<Rightarrow> bool list \<Rightarrow> bool list" where
  "drop_steps limit steps rendered [] keep = keep"
| "drop_steps limit steps rendered (i # order) keep =
     (if int (rendered_total rendered keep) \<le> limit then keep
      else if ts_kind (steps ! i) = TerminalAnswer then drop_steps limit steps rendered order keep
      else drop_steps limit steps rendered order (keep[i := False]))"

definition drop_key :: "trace_step list \<Rightarrow> nat \<Rightarrow> int \<times> nat" where
  "drop_key steps i = (- trace_step_keep_rank (ts_kind (steps ! i)), i)"

definition drop_order :: "trace_step list \<Rightarrow> nat list" where
  "drop_order steps = sort_key (drop_key steps) [0..<length steps]"

definition max_step :: "trace_config \<Rightarrow> int" where
  "max_step cfg = (if tr_max_step_chars cfg \<le> 0 then 1500 else tr_max_step_chars cfg)"

definition max_total :: "trace_config \<Rightarrow> int" where
  "max_total cfg = (if tr_max_chars cfg \<le> 0 then 12000 else tr_max_chars cfg)"

definition rendered_steps :: "trace_config \<Rightarrow> trace_step list \<Rightarrow> string list" where
  "rendered_steps cfg steps =
     map (\<lambda>st. format_trace_step st (truncate_head_tail (tr_redact cfg (ts_text st)) (max_step cfg))) steps"

definition render_trace :: "trace_config \<Rightarrow> trace_step list \<Rightarrow> string" where
  "render_trace cfg trace =
     (let steps = filter (tr_filter cfg) trace; rendered = rendered_steps cfg steps; keep = replicate (length steps) True in
      if steps = [] then []
      else if int (rendered_total rendered keep) \<le> max_total cfg then join_rendered rendered keep
      else join_rendered rendered (drop_steps (max_total cfg) steps rendered (drop_order steps) keep))"

section \<open>The fields of tool arguments\<close>

datatype field_value = FString string | FOther "string option"

definition terminal_arg_value :: "(string \<Rightarrow> (string \<Rightarrow> field_value option) option) \<Rightarrow> string \<Rightarrow> string \<Rightarrow> string option" where
  "terminal_arg_value decode args field =
     (if field = [] then None
      else case decode args of
        None \<Rightarrow> None
      | Some m \<Rightarrow> (case m field of None \<Rightarrow> None | Some (FString s) \<Rightarrow> Some s | Some (FOther b) \<Rightarrow> b))"

section \<open>The rendered text fits, by priority\<close>

lemma length_join_newline: "length (join [c] ps) = sum_list (map length ps) + (length ps - 1)"
proof (induction ps)
  case (Cons p ps)
  then show ?case by (cases "ps = []") (simp_all add: join_Cons)
qed simp

lemma rendered_total_length: "length (join_rendered rendered keep) = rendered_total rendered keep"
  by (simp add: join_rendered_def rendered_total_def length_join_newline Let_def)

definition droppable :: "trace_step list \<Rightarrow> nat \<Rightarrow> bool" where
  "droppable steps i \<longleftrightarrow> ts_kind (steps ! i) \<noteq> TerminalAnswer"

lemma drop_steps_prefix:
  "\<exists>k. drop_steps limit steps rendered order keep
      = fold (\<lambda>i ks. ks[i := False]) (filter (droppable steps) (take k order)) keep
    \<and> (int (rendered_total rendered (drop_steps limit steps rendered order keep)) \<le> limit \<or> length order \<le> k)"
proof (induction order arbitrary: keep)
  case (Cons i order)
  show ?case
  proof (cases "int (rendered_total rendered keep) \<le> limit")
    case True
    then show ?thesis by (intro exI [of _ 0]) simp
  next
    case False
    let ?keep = "if droppable steps i then keep[i := False] else keep"
    obtain k where k: "drop_steps limit steps rendered order ?keep
        = fold (\<lambda>i ks. ks[i := False]) (filter (droppable steps) (take k order)) ?keep"
      "int (rendered_total rendered (drop_steps limit steps rendered order ?keep)) \<le> limit \<or> length order \<le> k"
      using Cons.IH by blast
    have "drop_steps limit steps rendered (i # order) keep = drop_steps limit steps rendered order ?keep"
      using False by (simp add: droppable_def)
    with k show ?thesis by (intro exI [of _ "Suc k"]) (simp only: take_Suc_Cons filter.simps fold_simps length_Cons split: if_splits, auto)
  qed
qed (auto intro: exI [of _ 0])

lemma nth_fold_False:
  "i < length keep \<Longrightarrow> fold (\<lambda>i ks. ks[i := False]) is keep ! i = (keep ! i \<and> i \<notin> set is)"
proof (induction "is" arbitrary: keep)
  case (Cons a xs)
  then show ?case by (cases "i = a") simp_all
qed simp

lemma length_fold_False [simp]: "length (fold (\<lambda>i ks. ks[i := False]) is keep) = length keep"
  by (induction "is" arbitrary: keep) simp_all

lemma drop_order_sorted: "sorted_wrt (\<lambda>i j. drop_key steps i \<le> drop_key steps j) (drop_order steps)"
  using sorted_sort_key [of "drop_key steps" "[0..<length steps]"]
  by (simp add: drop_order_def sorted_wrt_map)

lemma drop_order_set [simp]: "set (drop_order steps) = {..<length steps}" "length (drop_order steps) = length steps"
  by (auto simp: drop_order_def)

lemma drop_order_split:
  assumes "i \<in> set (take k (drop_order steps))" "j < length steps" "j \<notin> set (take k (drop_order steps))"
  shows "drop_key steps i \<le> drop_key steps j"
proof -
  have "j \<in> set (drop k (drop_order steps))"
    using assms(2,3) drop_order_set(1) [of steps] by (metis Un_iff append_take_drop_id lessThan_iff set_append)
  moreover have "sorted_wrt (\<lambda>i j. drop_key steps i \<le> drop_key steps j) (take k (drop_order steps) @ drop k (drop_order steps))"
    using drop_order_sorted by simp
  ultimately show ?thesis using assms(1) unfolding sorted_wrt_append by blast
qed


section \<open>A shortened step\<close>

definition marker_runes :: "nat \<Rightarrow> nat list" where
  "marker_runes removed = 8230 # map byte (''[truncated '' @ dec_of_nat removed @ '' chars]'') @ [8230]"

lemma encode_ascii_byte: "byte c < 128 \<Longrightarrow> encode_rune (byte c) = [c]"
  by (simp add: encode_rune_def encode_valid_def valid_rune_def)

lemma string_of_ascii_bytes: "(\<And>c. c \<in> set s \<Longrightarrow> byte c < 128) \<Longrightarrow> string_of_runes (map byte s) = s"
  by (induction s) (simp_all add: string_of_runes_def encode_ascii_byte)

lemma marker_ascii: "c \<in> set (''[truncated '' @ dec_of_nat n @ '' chars]'') \<Longrightarrow> byte c < 128"
proof -
  have "list_all (\<lambda>c. byte c < 128) ''[truncated ''" "list_all (\<lambda>c. byte c < 128) '' chars]''" by code_simp+
  moreover have "list_all (\<lambda>c. byte c < 128) (dec_of_nat n)"
    unfolding list_all_iff using dec_of_nat_digits by (fastforce simp only: is_digit_def)
  ultimately have "list_all (\<lambda>c. byte c < 128) (''[truncated '' @ dec_of_nat n @ '' chars]'')"
    by (simp only: list_all_append)
  then show "c \<in> set (''[truncated '' @ dec_of_nat n @ '' chars]'') \<Longrightarrow> byte c < 128"
    unfolding list_all_iff by blast
qed

lemma framed_string: "string_of_runes (map byte m) = m \<Longrightarrow> encode_rune 8230 = ellipsis \<Longrightarrow>
    string_of_runes (8230 # map byte m @ [8230]) = ellipsis @ m @ ellipsis"
  by (simp add: string_of_runes_def)

lemma marker_string: "string_of_runes (marker_runes n) = truncation_marker n"
proof -
  have "encode_rune 8230 = ellipsis" by code_simp
  moreover have "string_of_runes (map byte (''[truncated '' @ dec_of_nat n @ '' chars]''))
    = ''[truncated '' @ dec_of_nat n @ '' chars]''"
    by (rule string_of_ascii_bytes) (rule marker_ascii)
  ultimately have "string_of_runes (8230 # map byte (''[truncated '' @ dec_of_nat n @ '' chars]'') @ [8230])
    = ellipsis @ (''[truncated '' @ dec_of_nat n @ '' chars]'') @ ellipsis"
    by (intro framed_string)
  then show ?thesis unfolding marker_runes_def truncation_marker_def by (simp only: append_assoc)
qed

lemma framed_valid: "(\<And>c. c \<in> set m \<Longrightarrow> byte c < 128) \<Longrightarrow> r \<in> set (8230 # map byte m @ [8230]) \<Longrightarrow> valid_rune r"
  by (fastforce simp: valid_rune_def)

lemma marker_valid: "r \<in> set (marker_runes n) \<Longrightarrow> valid_rune r"
  unfolding marker_runes_def by (rule framed_valid [OF marker_ascii])

text \<open>A shortened step keeps its first three quarters of the budget and its end, and says how many runes are
  missing; the note comes on top of the budget, so the result is always longer than the cap.\<close>

theorem truncate_head_tail_runes:
  assumes "0 < limit" "limit < int (rune_count s)"
  shows "\<exists>h t. runes (truncate_head_tail s limit) = h @ marker_runes (rune_count s - nat limit) @ t
    \<and> prefix h (runes s) \<and> suffix t (runes s) \<and> int (length h + length t) = limit"
proof -
  let ?rs = "runes s" and ?n = "rune_count s"
  let ?h = "take (nat (limit * 3 div 4)) ?rs" and ?t = "drop (?n - (nat limit - nat (limit * 3 div 4))) ?rs"
  have n: "?n = length ?rs" by (simp add: rune_count_def)
  have e: "truncate_head_tail s limit = string_of_runes (?h @ marker_runes (?n - nat limit) @ ?t)"
    using assms by (simp add: truncate_head_tail_def Let_def marker_string n)
  have "valid_rune r" if "r \<in> set (?h @ marker_runes (?n - nat limit) @ ?t)" for r
    using that runes_valid marker_valid by (auto dest: in_set_takeD in_set_dropD)
  then have "runes (truncate_head_tail s limit) = ?h @ marker_runes (?n - nat limit) @ ?t"
    unfolding e by (rule runes_string_of_runes)
  moreover have "int (length ?h + length ?t) = limit" using assms n by auto
  ultimately show ?thesis using take_is_prefix suffix_drop by blast
qed

theorem truncate_head_tail_runes_witness:
  "\<exists>h t. runes (truncate_head_tail ''hello'' 4) = h @ marker_runes 1 @ t \<and> int (length h + length t) = 4"
proof -
  have "rune_count ''hello'' = 5" by code_simp
  with truncate_head_tail_runes [of 4 "''hello''"] show ?thesis by auto
qed

definition demo_trace :: "trace_step list" where
  "demo_trace = [\<lparr>ts_kind = AssistantText, ts_agent = ''a'', ts_name = [], ts_text = ''thinking about it''\<rparr>,
     \<lparr>ts_kind = TerminalAnswer, ts_agent = ''a'', ts_name = ''done'', ts_text = ''yes''\<rparr>]"

definition demo_trace_config :: trace_config where
  "demo_trace_config = \<lparr>tr_max_step_chars = 0, tr_max_chars = 40, tr_redact = (\<lambda>s. s), tr_filter = (\<lambda>_. True)\<rparr>"


end
