(* ===== verification/MemoryEntry.thy ===== *)
theory MemoryEntry
  imports Complex_Main Messages GoText
begin

text \<open>
  Memories and the documents they travel as, \<^verbatim>\<open>components/agent/memory/types.go\<close>.

  A \<open>time.Time\<close> is its distance in nanoseconds from Go's zero time, which is 0. A metadata value is a
  string, a number, a list of ids or something the code only carries along. Formatting and parsing
  RFC 3339 times are the pair \<open>time_format\<close>; a nil metadata map reads as the empty one.
\<close>

datatype meta = MStr string | MNum rat | MIds "string list" | MVec "rat list" | MOpaque string

type_synonym metadata = "string \<Rightarrow> meta option"

record time_format =
  tf_format :: "int \<Rightarrow> string"
  tf_parse :: "string \<Rightarrow> int option"

record entry =
  en_id :: string
  en_content :: string
  en_category :: string
  en_source :: string
  en_session :: string
  en_created :: int
  en_updated :: int
  en_meta :: metadata

record document =
  dc_id :: string
  dc_content :: string
  dc_meta :: metadata

definition reserved_keys :: "string list" where
  "reserved_keys = [''category'', ''source'', ''session_id'', ''created_at'', ''updated_at'']"

definition to_document :: "time_format \<Rightarrow> entry \<Rightarrow> document" where
  "to_document tf e =
     \<lparr>dc_id = en_id e, dc_content = en_content e,
      dc_meta = [''category'' \<mapsto> MStr (en_category e), ''source'' \<mapsto> MStr (en_source e),
                 ''session_id'' \<mapsto> MStr (en_session e),
                 ''created_at'' \<mapsto> MStr (tf_format tf (en_created e)),
                 ''updated_at'' \<mapsto> MStr (tf_format tf (en_updated e))] ++ en_meta e\<rparr>"

definition meta_string :: "metadata \<Rightarrow> string \<Rightarrow> string" where
  "meta_string m k = (case m k of Some (MStr s) \<Rightarrow> s | _ \<Rightarrow> [])"

definition meta_time :: "time_format \<Rightarrow> metadata \<Rightarrow> string \<Rightarrow> int" where
  "meta_time tf m k =
     (case m k of Some (MStr s) \<Rightarrow> (case tf_parse tf s of Some t \<Rightarrow> t | None \<Rightarrow> 0) | _ \<Rightarrow> 0)"

definition entry_from_document :: "time_format \<Rightarrow> document \<Rightarrow> entry" where
  "entry_from_document tf d =
     \<lparr>en_id = dc_id d, en_content = dc_content d,
      en_category = meta_string (dc_meta d) ''category'', en_source = meta_string (dc_meta d) ''source'',
      en_session = meta_string (dc_meta d) ''session_id'',
      en_created = meta_time tf (dc_meta d) ''created_at'',
      en_updated = meta_time tf (dc_meta d) ''updated_at'',
      en_meta = (\<lambda>k. if k \<in> set reserved_keys then None else dc_meta d k)\<rparr>"

definition memory_context_marker_key :: string where
  "memory_context_marker_key = ''__eino_ext_memory_context''"

definition is_memory_context :: "msg_ptr \<Rightarrow> bool" where
  "is_memory_context p = has_bool_marker p memory_context_marker_key"

definition new_memory_context_message :: "string \<Rightarrow> message" where
  "new_memory_context_message c = the (set_bool_marker (Some (plain_message RSystem c)) memory_context_marker_key)"

lemma is_memory_context_new: "is_memory_context (Some (new_memory_context_message c))"
  by (simp add: is_memory_context_def new_memory_context_message_def set_bool_marker_def has_bool_marker_def)

section \<open>Round trip\<close>

text \<open>What \<^verbatim>\<open>time.RFC3339\<close> keeps of a time: whole seconds.\<close>

definition whole_seconds :: "int \<Rightarrow> int" where
  "whole_seconds t = t - t mod 10 ^ 9"

definition time_format_ok :: "time_format \<Rightarrow> bool" where
  "time_format_ok tf \<longleftrightarrow> (\<forall>t. tf_parse tf (tf_format tf t) = Some (whole_seconds t))"

definition no_reserved :: "metadata \<Rightarrow> bool" where
  "no_reserved m \<longleftrightarrow> (\<forall>k \<in> set reserved_keys. m k = None)"

lemma reserved_meta:
  assumes "no_reserved (en_meta e)"
  shows "dc_meta (to_document tf e) ''category'' = Some (MStr (en_category e))"
    "dc_meta (to_document tf e) ''source'' = Some (MStr (en_source e))"
    "dc_meta (to_document tf e) ''session_id'' = Some (MStr (en_session e))"
    "dc_meta (to_document tf e) ''created_at'' = Some (MStr (tf_format tf (en_created e)))"
    "dc_meta (to_document tf e) ''updated_at'' = Some (MStr (tf_format tf (en_updated e)))"
    "k \<notin> set reserved_keys \<Longrightarrow> dc_meta (to_document tf e) k = en_meta e k"
  using assms by (auto simp: to_document_def no_reserved_def reserved_keys_def map_add_def split: option.splits)

text \<open>A memory survives the way through a document, up to the fractions of its seconds, unless its
  metadata use a key that the document reserves.\<close>

theorem document_round_trip:
  assumes tf: "time_format_ok tf" and m: "no_reserved (en_meta e)"
  shows "entry_from_document tf (to_document tf e)
    = e\<lparr>en_created := whole_seconds (en_created e), en_updated := whole_seconds (en_updated e)\<rparr>"
proof -
  have t: "tf_parse tf (tf_format tf t) = Some (whole_seconds t)" for t using tf by (simp add: time_format_ok_def)
  have "(\<lambda>k. if k \<in> set reserved_keys then None else dc_meta (to_document tf e) k) = en_meta e"
    using reserved_meta(6) [OF m] m by (auto simp: no_reserved_def)
  then show ?thesis
    by (simp add: entry_from_document_def meta_string_def meta_time_def reserved_meta [OF m] t)
      (simp add: to_document_def)
qed

text \<open>A time format to compute with: it writes the seconds in unary.\<close>

definition unary_time :: time_format where
  "unary_time = \<lparr>tf_format = (\<lambda>t. let s = t div 10 ^ 9 in replicate (nat \<bar>s\<bar>) (if 0 \<le> s then CHR ''+'' else CHR ''-'')),
     tf_parse = (\<lambda>s. Some (10 ^ 9 * (if s \<noteq> [] \<and> hd s = CHR ''-'' then - int (length s) else int (length s))))\<rparr>"

lemma unary_time_ok: "time_format_ok unary_time"
proof -
  have "10 ^ 9 * (t div 10 ^ 9) = t - t mod (10 ^ 9 :: int)" for t by (simp add: minus_mod_eq_mult_div)
  then show ?thesis
    by (auto simp: time_format_ok_def unary_time_def whole_seconds_def Let_def hd_replicate)
qed

definition demo_entry :: entry where
  "demo_entry = \<lparr>en_id = ''1'', en_content = ''x'', en_category = ''fact'', en_source = ''user'', en_session = ''s'',
     en_created = 3500000000, en_updated = 4000000000, en_meta = [''user_id'' \<mapsto> MStr ''u'']\<rparr>"

theorem document_round_trip_witness:
  "en_created (entry_from_document unary_time (to_document unary_time demo_entry)) = 3000000000"
  using document_round_trip [OF unary_time_ok, of demo_entry]
  by (simp add: demo_entry_def no_reserved_def reserved_keys_def whole_seconds_def)

end
