(* ===== verification/MemoryFile.thy ===== *)
theory MemoryFile
  imports MemoryEntry "HOL-Library.AList" "HOL-Library.Product_Lexorder" "HOL-Library.Multiset"
begin

text \<open>
  The JSONL store of memories, \<^verbatim>\<open>components/agent/memory/file/store.go\<close>: an index in memory, an
  order of insertion and a file, with a lexical search.

  The file is what \<^verbatim>\<open>json.Decoder\<close> makes of it: values that decode to an entry, values of another
  shape, and the first byte of a rest that is no JSON value. The decoder stays on such a rest, so the
  loop of \<open>load\<close> need not end; it is a partial function, and \<open>None\<close> means that it does not return. A
  metadata value is assumed to be read back as it was written. Letters, digits and lower case
  are the tables of package \<^verbatim>\<open>unicode\<close>, a parameter; scores are exact fractions. Ids for documents
  without one come from a stream of fresh ids. A store whose file cannot be written refuses every
  write.
\<close>

section \<open>State\<close>

datatype file_item = Value entry | OtherShape | Garbage char

record fstore =
  fs_entries :: "(string \<times> entry) list"
  fs_order :: "string list"
  fs_file :: "file_item list"
  fs_writable :: bool
  fs_min_score :: "rat option"
  fs_fresh :: nat

datatype store_failure = OpenFailed | RewriteFailed

section \<open>Loading\<close>

definition index_entry :: "entry \<Rightarrow> fstore \<Rightarrow> fstore" where
  "index_entry e s =
     s\<lparr>fs_entries := AList.update (en_id e) e (fs_entries s), fs_order := fs_order s @ [en_id e]\<rparr>"

text \<open>\<open>dec.More\<close> answers no at the end of the input and before a closing bracket or brace.\<close>

definition decoder_more :: "file_item list \<Rightarrow> bool" where
  "decoder_more items =
     (case items of [] \<Rightarrow> False | Garbage c # _ \<Rightarrow> c \<noteq> CHR '']'' \<and> c \<noteq> CHR ''}'' | _ \<Rightarrow> True)"

partial_function (option) load_loop :: "file_item list \<Rightarrow> fstore \<Rightarrow> fstore option" where
  "load_loop items s =
     (if \<not> decoder_more items then Some s
      else case hd items of
        Value e \<Rightarrow> load_loop (tl items) (index_entry e s)
      | OtherShape \<Rightarrow> load_loop (tl items) s
      | Garbage _ \<Rightarrow> load_loop items s)"

definition empty_fstore :: "bool \<Rightarrow> rat option \<Rightarrow> file_item list \<Rightarrow> fstore" where
  "empty_fstore writable min_score items =
     \<lparr>fs_entries = [], fs_order = [], fs_file = items, fs_writable = writable, fs_min_score = min_score, fs_fresh = 0\<rparr>"

definition new_fstore :: "bool \<Rightarrow> rat option \<Rightarrow> file_item list \<Rightarrow> (store_failure + fstore) option" where
  "new_fstore writable min_score items =
     (if \<not> writable then Some (Inl OpenFailed)
      else map_option Inr (load_loop items (empty_fstore writable min_score items)))"

section \<open>Writing\<close>

definition stored_entry :: "time_format \<Rightarrow> (nat \<Rightarrow> string) \<Rightarrow> int \<Rightarrow> document \<Rightarrow> nat \<Rightarrow> entry \<times> nat" where
  "stored_entry tf uuid now d n =
     (let e = entry_from_document tf d;
          (e1, n1) = (if en_id e = [] then (e\<lparr>en_id := uuid n\<rparr>, n + 1) else (e, n));
          e2 = (if en_created e1 = 0 then e1\<lparr>en_created := now\<rparr> else e1);
          e3 = (if en_updated e2 = 0 then e2\<lparr>en_updated := now\<rparr> else e2)
      in (e3, n1))"

definition store_one :: "time_format \<Rightarrow> (nat \<Rightarrow> string) \<Rightarrow> int \<Rightarrow> document \<Rightarrow> fstore \<Rightarrow> string \<times> fstore" where
  "store_one tf uuid now d s =
     (let (e, n) = stored_entry tf uuid now d (fs_fresh s)
      in (en_id e, index_entry e (s\<lparr>fs_file := fs_file s @ [Value e], fs_fresh := n\<rparr>)))"

fun store_loop :: "time_format \<Rightarrow> (nat \<Rightarrow> string) \<Rightarrow> int \<Rightarrow> document list \<Rightarrow> fstore \<Rightarrow> string list \<times> fstore" where
  "store_loop tf uuid now [] s = ([], s)"
| "store_loop tf uuid now (d # ds) s =
     (let (i, s1) = store_one tf uuid now d s; (is, s2) = store_loop tf uuid now ds s1 in (i # is, s2))"

definition store_docs :: "time_format \<Rightarrow> (nat \<Rightarrow> string) \<Rightarrow> int \<Rightarrow> document list \<Rightarrow> fstore
    \<Rightarrow> (store_failure + string list) \<times> fstore" where
  "store_docs tf uuid now ds s =
     (if \<not> fs_writable s then (Inl OpenFailed, s)
      else let (is, s1) = store_loop tf uuid now ds s in (Inr is, s1))"

definition remove_from_order :: "string list \<Rightarrow> string \<Rightarrow> string list" where
  "remove_from_order order i = filter (\<lambda>v. v \<noteq> i) order"

definition rewrite_file :: "fstore \<Rightarrow> (store_failure + unit) \<times> fstore" where
  "rewrite_file s =
     (if \<not> fs_writable s then (Inl RewriteFailed, s)
      else
        let order = filter (\<lambda>i. map_of (fs_entries s) i \<noteq> None) (fs_order s)
        in (Inr (), s\<lparr>fs_order := order, fs_file := map (\<lambda>i. Value (the (map_of (fs_entries s) i))) order\<rparr>))"

definition drop_entry :: "string \<Rightarrow> fstore \<Rightarrow> fstore" where
  "drop_entry i s =
     s\<lparr>fs_entries := AList.delete i (fs_entries s), fs_order := remove_from_order (fs_order s) i\<rparr>"

definition delete_memory :: "string \<Rightarrow> fstore \<Rightarrow> (store_failure + unit) \<times> fstore" where
  "delete_memory i s =
     (case map_of (fs_entries s) i of None \<Rightarrow> (Inr (), s) | Some _ \<Rightarrow> rewrite_file (drop_entry i s))"

definition matches_one :: "entry \<Rightarrow> string \<Rightarrow> string \<Rightarrow> bool" where
  "matches_one e k v =
     (if k = ''category'' then en_category e = v
      else if k = ''source'' then en_source e = v
      else if k = ''session_id'' then en_session e = v
      else en_meta e k = Some (MStr v))"

definition matches_filter :: "entry \<Rightarrow> (string \<times> meta) list \<Rightarrow> bool" where
  "matches_filter e flt = list_all (\<lambda>(k, v). case v of MStr fv \<Rightarrow> matches_one e k fv | _ \<Rightarrow> False) flt"

fun delete_matching :: "(string \<times> meta) list \<Rightarrow> (string \<times> entry) list \<Rightarrow> fstore \<Rightarrow> nat \<times> fstore" where
  "delete_matching flt [] s = (0, s)"
| "delete_matching flt ((i, e) # es) s =
     (if matches_filter e flt
      then (let (n, s1) = delete_matching flt es (drop_entry i s) in (n + 1, s1))
      else delete_matching flt es s)"

definition delete_by_filter :: "(string \<times> meta) list \<Rightarrow> fstore \<Rightarrow> nat \<times> (store_failure + unit) \<times> fstore" where
  "delete_by_filter flt s =
     (let (n, s1) = delete_matching flt (fs_entries s) s
      in if 0 < n then (n, rewrite_file s1) else (n, Inr (), s1))"

section \<open>Reading\<close>

definition indexed :: "fstore \<Rightarrow> string list \<Rightarrow> entry list" where
  "indexed s is = map (\<lambda>i. the (map_of (fs_entries s) i)) (filter (\<lambda>i. map_of (fs_entries s) i \<noteq> None) is)"

text \<open>The addition of two 64-bit ints.\<close>

definition add64 :: "int \<Rightarrow> int \<Rightarrow> int" where
  "add64 a b = (a + b + 2 ^ 63) mod 2 ^ 64 - 2 ^ 63"

definition list_memories :: "time_format \<Rightarrow> int \<Rightarrow> int \<Rightarrow> fstore \<Rightarrow> document list" where
  "list_memories tf offset limit s =
     (let n = length (fs_order s);
          off = (if offset < 0 then 0 else offset);
          lim = (if limit \<le> 0 then int n else limit)
      in map (to_document tf) (indexed s (take (nat (add64 off lim - off)) (drop (nat off) (fs_order s)))))"

definition count_memories :: "fstore \<Rightarrow> nat" where
  "count_memories s = length (fs_entries s)"

section \<open>Search\<close>

record unicode =
  u_lower :: "nat \<Rightarrow> nat"
  u_letter :: "nat \<Rightarrow> bool"
  u_digit :: "nat \<Rightarrow> bool"

text \<open>\<open>strings.ToLower\<close> and \<open>strings.FieldsFunc\<close> on runes; a word is the list of its runes.\<close>

fun fields_func :: "(nat \<Rightarrow> bool) \<Rightarrow> nat list \<Rightarrow> nat list \<Rightarrow> nat list list" where
  "fields_func sep acc [] = (if acc = [] then [] else [rev acc])"
| "fields_func sep acc (r # rs) =
     (if sep r then (if acc = [] then fields_func sep [] rs else rev acc # fields_func sep [] rs)
      else fields_func sep (r # acc) rs)"

definition stopword_list :: "string list" where
  "stopword_list =
     [''an'', ''and'', ''are'', ''as'', ''at'', ''be'', ''been'', ''but'', ''by'', ''can'', ''did'', ''do'',
      ''does'', ''for'', ''from'', ''had'', ''has'', ''have'', ''if'', ''in'', ''into'', ''is'', ''it'', ''its'',
      ''me'', ''my'', ''not'', ''of'', ''on'', ''or'', ''our'', ''please'', ''should'', ''than'', ''that'', ''the'',
      ''their'', ''them'', ''then'', ''there'', ''these'', ''they'', ''this'', ''to'', ''was'', ''were'', ''what'',
      ''when'', ''where'', ''which'', ''will'', ''with'', ''would'', ''you'', ''your'',
      ''au'', ''aux'', ''avec'', ''ce'', ''ces'', ''cette'', ''dans'', ''de'', ''des'', ''du'', ''elle'', ''en'',
      ''est'', ''et'', ''il'', ''ils'', ''je'', ''la'', ''le'', ''les'', ''leur'', ''ma'', ''mais'', ''mon'', ''ne'',
      ''nous'', ''ou'', ''par'', ''pas'', ''plus'', ''pour'', ''que'', ''qui'', ''sa'', ''se'', ''ses'', ''son'',
      ''sont'', ''sur'', ''tu'', ''un'', ''une'', ''votre'', ''vous'']"

definition is_stopword :: "nat list \<Rightarrow> bool" where
  "is_stopword w \<longleftrightarrow> w \<in> set (map (map byte) stopword_list)"

definition tokenize_query :: "unicode \<Rightarrow> string \<Rightarrow> nat list list" where
  "tokenize_query u s =
     filter (\<lambda>w. 2 \<le> length w \<and> \<not> is_stopword w)
       (fields_func (\<lambda>r. \<not> u_letter u r \<and> \<not> u_digit u r) [] (map (u_lower u) (runes s)))"

definition matched_terms :: "nat list list \<Rightarrow> nat list list \<Rightarrow> nat" where
  "matched_terms query content = length (filter (\<lambda>w. w \<in> set query) (remdups content))"

definition score_entry :: "unicode \<Rightarrow> nat list list \<Rightarrow> string \<Rightarrow> rat" where
  "score_entry u query content =
     (let ts = tokenize_query u content in
      if query = [] \<or> ts = [] then 0
      else let m = matched_terms query ts in
        if m = 0 then 0 else of_nat m + of_nat m / of_nat (length (remdups ts)))"

record scored =
  sc_entry :: entry
  sc_score :: rat
  sc_index :: nat

definition scored_entries :: "unicode \<Rightarrow> nat list list \<Rightarrow> fstore \<Rightarrow> scored list" where
  "scored_entries u query s =
     filter (\<lambda>m. 0 < sc_score m \<and> (case fs_min_score s of None \<Rightarrow> True | Some x \<Rightarrow> x \<le> sc_score m))
       (concat (map (\<lambda>i. case map_of (fs_entries s) (fs_order s ! i) of
            None \<Rightarrow> []
          | Some e \<Rightarrow> [\<lparr>sc_entry = e, sc_score = score_entry u query (en_content e), sc_index = i\<rparr>])
         [0..<length (fs_order s)]))"

text \<open>The comparison of the sort is the order of these keys.\<close>

definition rank_key :: "scored \<Rightarrow> rat \<times> int \<times> int \<times> nat" where
  "rank_key m = (- sc_score m, - en_updated (sc_entry m), - en_created (sc_entry m), sc_index m)"

definition scored_document :: "time_format \<Rightarrow> scored \<Rightarrow> document" where
  "scored_document tf m =
     (let d = to_document tf (sc_entry m) in d\<lparr>dc_meta := (dc_meta d)(''_score'' \<mapsto> MNum (sc_score m))\<rparr>)"

definition top_limit :: "int option \<Rightarrow> fstore \<Rightarrow> nat" where
  "top_limit top_k s =
     (let n = length (fs_entries s) in
      case top_k of None \<Rightarrow> n | Some k \<Rightarrow> if 0 < k \<and> k < int n then nat k else n)"

definition retrieve_memories :: "unicode \<Rightarrow> time_format \<Rightarrow> string \<Rightarrow> int option \<Rightarrow> fstore \<Rightarrow> document list" where
  "retrieve_memories u tf query top_k s =
     (if fs_entries s = [] then []
      else
        let k = top_limit top_k s in
        if trim_space query = [] then map (to_document tf) (take k (indexed s (fs_order s)))
        else
          let terms = tokenize_query u query in
          if terms = [] then []
          else map (scored_document tf) (take k (sort_key rank_key (scored_entries u (remdups terms) s))))"

section \<open>Loading ends unless the file is damaged\<close>

lemma load_loop_Value: "load_loop (Value e # items) s = load_loop items (index_entry e s)"
  by (subst load_loop.simps) (simp add: decoder_more_def)

lemma load_loop_OtherShape: "load_loop (OtherShape # items) s = load_loop items s"
  by (subst load_loop.simps) (simp add: decoder_more_def)

lemma load_loop_Nil: "load_loop [] s = Some s"
  by (subst load_loop.simps) (simp add: decoder_more_def)

lemma load_loop_Garbage_stop: "c = CHR '']'' \<or> c = CHR ''}'' \<Longrightarrow> load_loop (Garbage c # items) s = Some s"
  by (subst load_loop.simps) (auto simp: decoder_more_def)

lemma load_loop_returns:
  "load_loop xs s = Some y \<Longrightarrow> c \<noteq> CHR '']'' \<Longrightarrow> c \<noteq> CHR ''}'' \<Longrightarrow> xs \<noteq> Garbage c # items"
proof (rule load_loop.raw_induct [of "\<lambda>xs s y. c \<noteq> CHR '']'' \<longrightarrow> c \<noteq> CHR ''}'' \<longrightarrow> xs \<noteq> Garbage c # items" xs s y, rule_format])
  fix f xs and s :: fstore and y
  assume ih: "\<And>xs' s' y'. f xs' s' = Some y' \<Longrightarrow> c \<noteq> CHR '']'' \<Longrightarrow> c \<noteq> CHR ''}'' \<Longrightarrow> xs' \<noteq> Garbage c # items"
    and body: "(if \<not> decoder_more xs then Some s
      else case hd xs of Value e \<Rightarrow> f (tl xs) (index_entry e s) | OtherShape \<Rightarrow> f (tl xs) s | Garbage _ \<Rightarrow> f xs s) = Some y"
    and c: "c \<noteq> CHR '']''" "c \<noteq> CHR ''}''"
  show "xs \<noteq> Garbage c # items"
  proof
    assume xs: "xs = Garbage c # items"
    then have "f xs s = Some y" using body c by (simp add: decoder_more_def)
    from ih [OF this c] xs show False by simp
  qed
qed

lemma load_loop_Garbage_stuck:
  "c \<noteq> CHR '']'' \<Longrightarrow> c \<noteq> CHR ''}'' \<Longrightarrow> load_loop (Garbage c # items) s = None"
  using load_loop_returns [of "Garbage c # items" s _ c items] by (cases "load_loop (Garbage c # items) s") auto

lemmas load_loop_simps = load_loop_Nil load_loop_Value load_loop_OtherShape load_loop_Garbage_stop
  load_loop_Garbage_stuck

text \<open>The entries read before the first damaged place, and the byte found there.\<close>

fun read_part :: "file_item list \<Rightarrow> entry list \<times> char option" where
  "read_part [] = ([], None)"
| "read_part (Value e # items) = (case read_part items of (es, c) \<Rightarrow> (e # es, c))"
| "read_part (OtherShape # items) = read_part items"
| "read_part (Garbage c # items) = ([], Some c)"

definition loading_ends :: "file_item list \<Rightarrow> bool" where
  "loading_ends items = (case snd (read_part items) of None \<Rightarrow> True | Some c \<Rightarrow> c = CHR '']'' \<or> c = CHR ''}'')"

lemma load_loop_read_part:
  "load_loop items s = (if loading_ends items then Some (fold index_entry (fst (read_part items)) s) else None)"
proof (induction items arbitrary: s)
  case (Cons x items)
  show ?case
  proof (cases x)
    case (Garbage c)
    then show ?thesis
      by (cases "c = CHR '']'' \<or> c = CHR ''}''") (auto simp: loading_ends_def load_loop_simps)
  qed (use Cons in \<open>simp_all add: load_loop_simps loading_ends_def split: prod.splits\<close>)
qed (simp add: load_loop_simps loading_ends_def)

text \<open>C24: Opening a store returns exactly when what follows the last readable value is nothing or starts with a
  closing bracket or brace; it then holds the readable entries, the last one of each id. Anything else,
  such as a line cut short by a crash, makes the loop that was meant to skip it run for ever.\<close>

theorem open_store_ends_iff:
  "new_fstore True ms items =
     (if loading_ends items
      then Some (Inr (fold index_entry (fst (read_part items)) (empty_fstore True ms items)))
      else None)"
  by (simp add: new_fstore_def load_loop_read_part)

end
