(* ===== verification/MemoryFile_Props.thy ===== *)
theory MemoryFile_Props
  imports MemoryFile
begin

text \<open>
  Properties of the JSONL store of memories (\<^verbatim>\<open>components/agent/memory/file/store.go\<close>): the file
  holds what the store holds, the search ranks, the pages of a listing fit together, and what goes
  wrong when an id is stored again.
\<close>

section \<open>The file and the index\<close>

definition latest :: "entry list \<Rightarrow> string \<Rightarrow> entry option" where
  "latest es = map_of (rev (map (\<lambda>e. (en_id e, e)) es))"

lemma latest_id: "latest es i = Some e \<Longrightarrow> en_id e = i"
  by (auto simp: latest_def dest: map_of_SomeD)

lemma latest_dom: "latest es i \<noteq> None \<longleftrightarrow> i \<in> set (map en_id es)"
  by (auto simp: latest_def map_of_eq_None_iff image_iff)

lemma latest_append: "latest (es @ [e]) = (latest es)(en_id e \<mapsto> e)"
  by (simp add: latest_def)

lemma latest_of: "latest (map f is) i = (if i \<in> set is then Some (f i) else None)"
  if "\<And>i. i \<in> set is \<Longrightarrow> en_id (f i) = i"
  using that
proof (induction "is" rule: rev_induct)
  case (snoc x xs)
  then show ?case using snoc.prems [of x] by (simp add: latest_append)
qed (simp add: latest_def)

lemma index_entry_fields [simp]:
  "fs_order (index_entry e s) = fs_order s @ [en_id e]"
  "map_of (fs_entries (index_entry e s)) = (map_of (fs_entries s))(en_id e \<mapsto> e)"
  "fs_file (index_entry e s) = fs_file s" "fs_writable (index_entry e s) = fs_writable s"
  by (simp_all add: index_entry_def update_conv')

lemma fold_index:
  "fs_order (fold index_entry es s) = fs_order s @ map en_id es"
  "map_of (fs_entries (fold index_entry es s)) = map_of (fs_entries s) ++ latest es"
  "fs_file (fold index_entry es s) = fs_file s" "fs_writable (fold index_entry es s) = fs_writable s"
proof (induction es arbitrary: s)
  case (Cons e es)
  { case 1 show ?case by (simp add: Cons.IH) }
  { case 2 show ?case by (simp add: Cons.IH latest_def map_add_def fun_eq_iff split: option.splits) }
  { case 3 show ?case by (simp add: Cons.IH) }
  { case 4 show ?case by (simp add: Cons.IH) }
qed (simp_all add: latest_def)

lemma read_part_append:
  "snd (read_part xs) = None \<Longrightarrow> read_part (xs @ ys) = (fst (read_part xs) @ fst (read_part ys), snd (read_part ys))"
  by (induction xs rule: read_part.induct) (auto split: prod.splits)

lemma read_part_Values [simp]: "read_part (map Value es) = (es, None)"
  by (induction es) simp_all

text \<open>The file is readable to its end and says what the index says.\<close>

definition synced_file :: "fstore \<Rightarrow> bool" where
  "synced_file s \<longleftrightarrow> fs_writable s \<and> snd (read_part (fs_file s)) = None
     \<and> map en_id (fst (read_part (fs_file s))) = fs_order s
     \<and> map_of (fs_entries s) = latest (fst (read_part (fs_file s)))"

definition consistent_index :: "fstore \<Rightarrow> bool" where
  "consistent_index s \<longleftrightarrow> fs_writable s \<and> (\<forall>i. map_of (fs_entries s) i \<noteq> None \<longleftrightarrow> i \<in> set (fs_order s))
     \<and> (\<forall>i e. map_of (fs_entries s) i = Some e \<longrightarrow> en_id e = i)"

lemma synced_consistent: "synced_file s \<Longrightarrow> consistent_index s"
  using latest_dom [of "fst (read_part (fs_file s))"] latest_id [of "fst (read_part (fs_file s))"]
  unfolding synced_file_def consistent_index_def by metis

lemma drop_entry_consistent: "consistent_index s \<Longrightarrow> consistent_index (drop_entry i s)"
  by (auto simp: consistent_index_def drop_entry_def remove_from_order_def delete_conv')

lemma rewrite_synced:
  assumes "consistent_index s"
  shows "fst (rewrite_file s) = Inr () \<and> synced_file (snd (rewrite_file s))
    \<and> fs_order (snd (rewrite_file s)) = fs_order s \<and> fs_entries (snd (rewrite_file s)) = fs_entries s"
proof -
  let ?f = "\<lambda>i. the (map_of (fs_entries s) i)"
  have w: "fs_writable s" using assms by (simp add: consistent_index_def)
  have dom: "map_of (fs_entries s) i \<noteq> None \<longleftrightarrow> i \<in> set (fs_order s)" for i
    using assms by (simp add: consistent_index_def)
  then have o: "filter (\<lambda>i. map_of (fs_entries s) i \<noteq> None) (fs_order s) = fs_order s" by simp
  have idf: "en_id (?f i) = i" if "i \<in> set (fs_order s)" for i
    using that dom [of i] assms by (auto simp: consistent_index_def)
  have "map_of (fs_entries s) = latest (map ?f (fs_order s))"
  proof
    fix i
    show "map_of (fs_entries s) i = latest (map ?f (fs_order s)) i"
      using latest_of [OF idf] dom [of i] by auto
  qed
  moreover have "map en_id (map ?f (fs_order s)) = fs_order s" using idf by (simp add: map_idI)
  moreover have "read_part (map (\<lambda>i. Value (?f i)) (fs_order s)) = (map ?f (fs_order s), None)"
    using read_part_Values [of "map ?f (fs_order s)"] by (simp add: comp_def)
  moreover have "rewrite_file s = (Inr (), s\<lparr>fs_order := fs_order s, fs_file := map (\<lambda>i. Value (?f i)) (fs_order s)\<rparr>)"
    unfolding rewrite_file_def Let_def o using w by simp
  ultimately show ?thesis using w by (simp add: synced_file_def)
qed

section \<open>Histories\<close>

datatype mem_op = MStore int "document list" | MDelete string | MDeleteBy "(string \<times> meta) list"

fun mem_step :: "time_format \<Rightarrow> (nat \<Rightarrow> string) \<Rightarrow> mem_op \<Rightarrow> fstore \<Rightarrow> fstore" where
  "mem_step tf uuid (MStore now ds) s = snd (store_docs tf uuid now ds s)"
| "mem_step tf uuid (MDelete i) s = snd (delete_memory i s)"
| "mem_step tf uuid (MDeleteBy flt) s = snd (snd (delete_by_filter flt s))"

definition run_mem :: "time_format \<Rightarrow> (nat \<Rightarrow> string) \<Rightarrow> mem_op list \<Rightarrow> fstore \<Rightarrow> fstore" where
  "run_mem tf uuid ops s = fold (mem_step tf uuid) ops s"

lemma store_one_synced: "synced_file s \<Longrightarrow> synced_file (snd (store_one tf uuid now d s))"
  by (auto simp: synced_file_def store_one_def index_entry_def update_conv' latest_append read_part_append split: prod.splits)

lemma store_loop_synced: "synced_file s \<Longrightarrow> synced_file (snd (store_loop tf uuid now ds s))"
proof (induction ds arbitrary: s)
  case (Cons d ds)
  from Cons.IH [OF store_one_synced [OF Cons.prems, of tf uuid now d]] show ?case
    by (simp add: split_beta)
qed simp

lemma delete_matching_consistent:
  "consistent_index s \<Longrightarrow> consistent_index (snd (delete_matching flt es s))"
  by (induction flt es s rule: delete_matching.induct) (auto simp: drop_entry_consistent split_beta)

lemma delete_matching_zero: "fst (delete_matching flt es s) = 0 \<Longrightarrow> snd (delete_matching flt es s) = s"
  by (induction flt es s rule: delete_matching.induct) (auto simp: split_beta split: if_splits)

lemma mem_step_synced:
  assumes "synced_file s"
  shows "synced_file (mem_step tf uuid op s)"
proof (cases op)
  case (MStore now ds)
  have "fs_writable s" using assms by (simp add: synced_file_def)
  then show ?thesis using store_loop_synced [OF assms] by (simp add: MStore store_docs_def split_beta)
next
  case (MDelete i)
  show ?thesis
    using assms rewrite_synced [OF drop_entry_consistent [OF synced_consistent [OF assms]]]
    by (simp add: MDelete delete_memory_def split: option.splits)
next
  case (MDeleteBy flt)
  obtain n s1 where r: "delete_matching flt (fs_entries s) s = (n, s1)" by fastforce
  have c: "consistent_index s1" using delete_matching_consistent [OF synced_consistent [OF assms], of flt "fs_entries s"] r by simp
  show ?thesis
  proof (cases "n = 0")
    case True
    then have "s1 = s" using delete_matching_zero [of flt "fs_entries s" s] r by simp
    then show ?thesis using assms True by (simp add: MDeleteBy delete_by_filter_def r)
  next
    case False
    then show ?thesis using rewrite_synced [OF c] by (simp add: MDeleteBy delete_by_filter_def r)
  qed
qed

lemma run_mem_synced: "synced_file s \<Longrightarrow> synced_file (run_mem tf uuid ops s)"
  unfolding run_mem_def by (induction ops arbitrary: s) (simp_all add: mem_step_synced)

lemma synced_reopens:
  assumes "synced_file s"
  shows "\<exists>s'. new_fstore True ms (fs_file s) = Some (Inr s') \<and> fs_order s' = fs_order s
    \<and> map_of (fs_entries s') = map_of (fs_entries s)"
  using assms by (auto simp: new_fstore_def load_loop_read_part loading_ends_def synced_file_def fold_index empty_fstore_def)

lemma synced_new: "synced_file (empty_fstore True ms [])"
  by (simp add: synced_file_def empty_fstore_def latest_def)

text \<open>C22: Whatever is stored and deleted, a process that opens the store's file afterwards has the same memories
  in the same order, as long as the file can be written.\<close>

theorem memories_persist:
  assumes "snd (read_part items) = None" "new_fstore True ms items = Some (Inr s0)"
    and "s = run_mem tf uuid ops s0"
  shows "\<exists>s'. new_fstore True ms (fs_file s) = Some (Inr s')
    \<and> list_memories tf off n s' = list_memories tf off n s"
proof -
  have "synced_file s0"
    using assms(1,2) by (auto simp: new_fstore_def load_loop_read_part loading_ends_def synced_file_def fold_index empty_fstore_def)
  then have "synced_file s" unfolding assms(3) by (rule run_mem_synced)
  from synced_reopens [OF this, of ms] show ?thesis by (auto simp: list_memories_def indexed_def)
qed

definition demo_doc :: "string \<Rightarrow> string \<Rightarrow> document" where
  "demo_doc i c = \<lparr>dc_id = i, dc_content = c, dc_meta = [''category'' \<mapsto> MStr ''fact'']\<rparr>"

theorem memories_persist_witness:
  "\<exists>s'. new_fstore True None (fs_file (run_mem unary_time (\<lambda>n. ''u'') [MStore 5 [demo_doc ''a'' ''x'', demo_doc [] ''y''],
      MDelete ''a''] (empty_fstore True None []))) = Some (Inr s')
    \<and> map dc_content (list_memories unary_time 0 0 s') = [''y'']"
proof -
  have n: "new_fstore True None [] = Some (Inr (empty_fstore True None []))"
    by (simp add: new_fstore_def load_loop_simps)
  have "map dc_content (list_memories unary_time 0 0 (run_mem unary_time (\<lambda>n. ''u'')
      [MStore 5 [demo_doc ''a'' ''x'', demo_doc [] ''y''], MDelete ''a''] (empty_fstore True None []))) = [''y'']"
    by (simp add: run_mem_def store_docs_def store_one_def stored_entry_def entry_from_document_def empty_fstore_def
        index_entry_def delete_memory_def drop_entry_def remove_from_order_def rewrite_file_def list_memories_def indexed_def
        to_document_def demo_doc_def meta_time_def Let_def add64_def)
  with memories_persist [OF _ n refl, of unary_time "\<lambda>n. ''u''" "[MStore 5 [demo_doc ''a'' ''x'', demo_doc [] ''y''], MDelete ''a'']" 0 0]
  show ?thesis by auto
qed

section \<open>Search\<close>

lemma matched_terms_le: "matched_terms q ts \<le> length (remdups ts)"
  by (simp add: matched_terms_def)

lemma matched_terms_pos: "0 < matched_terms q ts \<longleftrightarrow> (\<exists>w \<in> set ts. w \<in> set q)"
  by (auto simp: matched_terms_def filter_empty_conv)

lemma score_entry_eq:
  "score_entry u q c =
     (let ts = tokenize_query u c; m = matched_terms q ts in of_nat m + of_nat m / of_nat (length (remdups ts)))"
  by (auto simp: score_entry_def Let_def matched_terms_def)

lemma score_entry_pos: "0 < score_entry u q c \<longleftrightarrow> (\<exists>w \<in> set (tokenize_query u c). w \<in> set q)"
proof -
  let ?m = "matched_terms q (tokenize_query u c)"
  have "0 < score_entry u q c \<longleftrightarrow> 0 < ?m"
    by (cases "?m = 0") (auto simp: score_entry_eq Let_def intro: add_pos_nonneg)
  then show ?thesis by (simp only: matched_terms_pos)
qed

text \<open>A memory that contains more of the query's terms scores higher, however long it is: the bonus for short
  memories never outweighs a term.\<close>

theorem more_terms_score_higher:
  assumes "matched_terms q (tokenize_query u a) < matched_terms q (tokenize_query u b)"
  shows "score_entry u q a < score_entry u q b"
proof -
  let ?ta = "tokenize_query u a" and ?tb = "tokenize_query u b"
  let ?ma = "matched_terms q ?ta" and ?mb = "matched_terms q ?tb"
  have "of_nat ?ma / of_nat (length (remdups ?ta)) \<le> (1 :: rat)"
    using matched_terms_le [of q ?ta] by (cases "length (remdups ?ta) = 0") (simp_all add: divide_le_eq)
  then have "score_entry u q a \<le> of_nat (?ma + 1)" by (simp add: score_entry_eq Let_def)
  also have "\<dots> \<le> (of_nat ?mb :: rat)" using assms by (simp flip: of_nat_Suc)
  also have "\<dots> < score_entry u q b"
  proof -
    have "0 < ?mb" "0 < length (remdups ?tb)" using assms matched_terms_le [of q ?tb] by linarith+
    then show ?thesis by (simp add: score_entry_eq Let_def)
  qed
  finally show ?thesis .
qed

text \<open>A table of runes to compute with: ASCII.\<close>

definition ascii_runes :: unicode where
  "ascii_runes = \<lparr>u_lower = (\<lambda>r. if 65 \<le> r \<and> r \<le> 90 then r + 32 else r),
     u_letter = (\<lambda>r. 97 \<le> r \<and> r \<le> 122), u_digit = (\<lambda>r. 48 \<le> r \<and> r \<le> 57)\<rparr>"

theorem more_terms_score_higher_witness:
  "score_entry ascii_runes (tokenize_query ascii_runes ''Delete the pod'') ''pod''
     < score_entry ascii_runes (tokenize_query ascii_runes ''Delete the pod'') ''Never delete a running pod of user foo''"
  by (rule more_terms_score_higher) code_simp

lemma set_scored_entries:
  "m \<in> set (scored_entries u q s) \<longleftrightarrow>
     (\<exists>i e. i < length (fs_order s) \<and> map_of (fs_entries s) (fs_order s ! i) = Some e
        \<and> m = \<lparr>sc_entry = e, sc_score = score_entry u q (en_content e), sc_index = i\<rparr>
        \<and> 0 < sc_score m \<and> (\<forall>x. fs_min_score s = Some x \<longrightarrow> x \<le> sc_score m))"
  by (fastforce simp: scored_entries_def split: option.splits)

text \<open>The score, and the order of a ranking, in terms of the memories.\<close>

definition memory_score :: "unicode \<Rightarrow> string \<Rightarrow> string \<Rightarrow> rat" where
  "memory_score u query content =
     (let ts = set (tokenize_query u content); n = card (ts \<inter> set (tokenize_query u query)) in of_nat n + of_nat n / of_nat (card ts))"

definition ranked_before :: "scored \<Rightarrow> scored \<Rightarrow> bool" where
  "ranked_before a b \<longleftrightarrow> sc_score b < sc_score a
     \<or> sc_score a = sc_score b \<and> (en_updated (sc_entry b) < en_updated (sc_entry a)
     \<or> en_updated (sc_entry a) = en_updated (sc_entry b) \<and> (en_created (sc_entry b) < en_created (sc_entry a)
     \<or> en_created (sc_entry a) = en_created (sc_entry b) \<and> sc_index a < sc_index b))"

lemma score_entry_memory: "score_entry u (remdups (tokenize_query u query)) content = memory_score u query content"
proof -
  have "matched_terms (remdups q) ts = card (set ts \<inter> set q)" for q ts :: "nat list list"
  proof -
    have "set (filter (\<lambda>w. w \<in> set q) (remdups ts)) = set ts \<inter> set q" by auto
    then show ?thesis by (metis distinct_card distinct_filter distinct_remdups matched_terms_def set_remdups)
  qed
  then show ?thesis
    by (auto simp: score_entry_def memory_score_def Let_def length_remdups_card_conv)
qed

lemma distinct_scored: "distinct (map sc_index (scored_entries u q s))"
proof -
  let ?f = "\<lambda>i. case map_of (fs_entries s) (fs_order s ! i) of None \<Rightarrow> []
    | Some e \<Rightarrow> [\<lparr>sc_entry = e, sc_score = score_entry u q (en_content e), sc_index = i\<rparr>]"
  have "distinct (map sc_index (concat (map ?f is))) \<and> sc_index ` set (concat (map ?f is)) \<subseteq> set is" if "distinct is" for "is"
    using that by (induction "is") (auto split: option.split)
  from this [of "[0..<length (fs_order s)]"] show ?thesis unfolding scored_entries_def by (simp only: distinct_upt distinct_map_filter)
qed

lemma sort_ranked: "sorted_wrt ranked_before (sort_key rank_key (scored_entries u q s))"
proof -
  let ?ms = "sort_key rank_key (scored_entries u q s)"
  have "distinct (map sc_index ?ms)"
    using distinct_scored [of u q s] by (metis mset_eq_imp_distinct_iff mset_map mset_sort)
  moreover have "sc_index m = snd (snd (snd (rank_key m)))" for m by (simp add: rank_key_def)
  ultimately have "distinct (map rank_key ?ms)" by (auto simp: distinct_map inj_on_def)
  then have "sorted_wrt (<) (map rank_key ?ms)" by (simp add: strict_sorted_iff)
  then have "sorted_wrt (\<lambda>a b. rank_key a < rank_key b) ?ms" by (simp add: sorted_wrt_map)
  then show ?thesis by (rule sorted_wrt_mono_rel [rotated]) (auto simp: rank_key_def ranked_before_def)
qed

text \<open>C0: A search with terms ranks exactly the memories of the order that share a term with the query and reach the
  threshold: by score, the number of terms shared plus the part of the memory's terms they are, then the more recently
  updated, then the more recently made, then the order they were stored in. It returns the first \<open>TopK\<close> of them, without a
  bound as many as the index has memories, each as its document with its score.\<close>

theorem retrieve_ranked:
  assumes q: "trim_space query \<noteq> []" "tokenize_query u query \<noteq> []" and s: "fs_entries s \<noteq> []"
  shows "\<exists>ms. retrieve_memories u tf query top_k s
      = map (\<lambda>m. (to_document tf (sc_entry m))\<lparr>dc_meta := (dc_meta (to_document tf (sc_entry m)))(''_score'' \<mapsto> MNum (sc_score m))\<rparr>)
          (take (case top_k of None \<Rightarrow> length (fs_entries s) | Some k \<Rightarrow> if 0 < k \<and> k < int (length (fs_entries s)) then nat k else length (fs_entries s)) ms)
    \<and> sorted_wrt ranked_before ms
    \<and> set ms = {m. sc_index m < length (fs_order s) \<and> map_of (fs_entries s) (fs_order s ! sc_index m) = Some (sc_entry m)
        \<and> set (tokenize_query u (en_content (sc_entry m))) \<inter> set (tokenize_query u query) \<noteq> {}
        \<and> sc_score m = memory_score u query (en_content (sc_entry m)) \<and> (\<forall>x. fs_min_score s = Some x \<longrightarrow> x \<le> sc_score m)}"
proof (intro exI conjI)
  let ?ms = "sort_key rank_key (scored_entries u (remdups (tokenize_query u query)) s)"
  show "retrieve_memories u tf query top_k s
      = map (\<lambda>m. (to_document tf (sc_entry m))\<lparr>dc_meta := (dc_meta (to_document tf (sc_entry m)))(''_score'' \<mapsto> MNum (sc_score m))\<rparr>)
          (take (case top_k of None \<Rightarrow> length (fs_entries s) | Some k \<Rightarrow> if 0 < k \<and> k < int (length (fs_entries s)) then nat k else length (fs_entries s)) ?ms)"
    using assms by (simp add: retrieve_memories_def top_limit_def scored_document_def [abs_def] Let_def)
  show "sorted_wrt ranked_before ?ms" by (rule sort_ranked)
  show "set ?ms = {m. sc_index m < length (fs_order s) \<and> map_of (fs_entries s) (fs_order s ! sc_index m) = Some (sc_entry m)
        \<and> set (tokenize_query u (en_content (sc_entry m))) \<inter> set (tokenize_query u query) \<noteq> {}
        \<and> sc_score m = memory_score u query (en_content (sc_entry m)) \<and> (\<forall>x. fs_min_score s = Some x \<longrightarrow> x \<le> sc_score m)}"
    (is "_ = {m. ?P m}")
  proof (rule set_eqI)
    fix m :: scored
    have m: "m = \<lparr>sc_entry = e, sc_score = x, sc_index = i\<rparr> \<longleftrightarrow> sc_entry m = e \<and> sc_score m = x \<and> sc_index m = i" for e x i
      by (cases m) auto
    have "m \<in> set ?ms \<longleftrightarrow> sc_index m < length (fs_order s) \<and> map_of (fs_entries s) (fs_order s ! sc_index m) = Some (sc_entry m)
        \<and> sc_score m = memory_score u query (en_content (sc_entry m)) \<and> 0 < sc_score m \<and> (\<forall>x. fs_min_score s = Some x \<longrightarrow> x \<le> sc_score m)"
      unfolding set_sort set_scored_entries score_entry_memory m by blast
    also have "\<dots> \<longleftrightarrow> ?P m" using score_entry_pos [of u "remdups (tokenize_query u query)" "en_content (sc_entry m)"]
      unfolding score_entry_memory set_remdups by (auto simp: disjoint_iff)
    finally show "m \<in> set ?ms \<longleftrightarrow> m \<in> {m. ?P m}" by simp
  qed
qed

definition two_memories :: fstore where
  "two_memories = run_mem unary_time (\<lambda>n. ''u'') [MStore 5 [demo_doc ''a'' ''Delete a pod'', demo_doc ''b'' ''list pods of user'']]
     (empty_fstore True None [])"

theorem retrieve_ranked_witness:
  "\<exists>ms. length (retrieve_memories ascii_runes unary_time ''delete'' None two_memories) = min (length ms) 2
      \<and> sorted_wrt ranked_before ms \<and> sc_index ` set ms \<subseteq> {0, 1}"
proof -
  have len: "length (fs_order two_memories) = 2" "length (fs_entries two_memories) = 2" and f: "fs_entries two_memories \<noteq> []"
    "trim_space ''delete'' \<noteq> []" "tokenize_query ascii_runes ''delete'' \<noteq> []"
    by code_simp+
  obtain ms f where r: "retrieve_memories ascii_runes unary_time ''delete'' None two_memories = map f (take (length (fs_entries two_memories)) ms)"
    and ms: "sorted_wrt ranked_before ms" and st: "set ms \<subseteq> {m. sc_index m < length (fs_order two_memories)}"
    using retrieve_ranked [OF f(2,3,1), of unary_time None] by fastforce
  have i: "sc_index m < length (fs_order two_memories)" if "m \<in> set ms" for m using st that by blast
  have ms: "length (retrieve_memories ascii_runes unary_time ''delete'' None two_memories) = min (length ms) 2" "sorted_wrt ranked_before ms"
    using r ms len(2) by simp_all
  from i len(1) have "sc_index ` set ms \<subseteq> {0, 1}" by fastforce
  with ms show ?thesis by blast
qed

section \<open>Listing\<close>

lemma add64_small: "0 \<le> a \<Longrightarrow> 0 \<le> b \<Longrightarrow> a + b < 2 ^ 63 \<Longrightarrow> add64 a b = a + b"
  by (simp add: add64_def)

lemma list_memories_page:
  assumes "0 \<le> off" "0 < k" "off + k < 2 ^ 63"
  shows "list_memories tf off k s = map (to_document tf) (indexed s (take (nat k) (drop (nat off) (fs_order s))))"
  using assms by (simp add: list_memories_def Let_def add64_small)

text \<open>Two adjacent pages make one page, so paging through a listing shows every memory once and in order.\<close>

theorem pages_adjacent:
  assumes "0 \<le> off" "0 < k" "0 < l" "off + k + l < 2 ^ 63"
  shows "list_memories tf off k s @ list_memories tf (off + k) l s = list_memories tf off (k + l) s"
proof -
  have n: "nat (off + k) = nat off + nat k" "nat (k + l) = nat k + nat l" using assms by simp_all
  have "take (nat k) xs @ take (nat l) (drop (nat k) xs) = take (nat k + nat l) xs" for xs :: "string list"
    by (simp add: take_add)
  from arg_cong [OF this [of "drop (nat off) (fs_order s)"], of "indexed s"]
  have "indexed s (take (nat k) (drop (nat off) (fs_order s))) @ indexed s (take (nat l) (drop (nat off + nat k) (fs_order s)))
    = indexed s (take (nat k + nat l) (drop (nat off) (fs_order s)))"
    by (simp add: indexed_def add.commute)
  then show ?thesis using assms by (simp add: list_memories_page n flip: map_append)
qed

theorem pages_adjacent_witness:
  "list_memories unary_time 0 1 two_memories @ list_memories unary_time 1 1 two_memories = list_memories unary_time 0 2 two_memories"
  using pages_adjacent [of 0 1 1 unary_time two_memories] by simp

text \<open>The sum of offset and limit is not guarded: from offset 1 a limit of \<open>2 ^ 63 - 1\<close>, meant as no limit, gives
  nothing.\<close>

theorem huge_limit_lists_nothing: "list_memories tf 1 (2 ^ 63 - 1) s = []"
  by (simp add: list_memories_def add64_def indexed_def)

text \<open>Storing a document under an id that the store has does not replace it in the order: the count stays, and the
  listing gains a second copy.\<close>

theorem storing_again_duplicates:
  assumes s: "synced_file s" and d: "dc_id d \<noteq> []" "map_of (fs_entries s) (dc_id d) \<noteq> None"
    and r: "store_docs tf uuid now [d] s = (Inr ids, s')" and len: "int (length (fs_order s')) < 2 ^ 63"
  shows "dom (map_of (fs_entries s')) = dom (map_of (fs_entries s))
    \<and> map dc_id (list_memories tf 0 0 s') = map dc_id (list_memories tf 0 0 s) @ [dc_id d]"
proof -
  have w: "fs_writable s" using s by (simp add: synced_file_def)
  obtain e n where e: "stored_entry tf uuid now d (fs_fresh s) = (e, n)" by fastforce
  have id: "en_id e = dc_id d" using e d(1) by (auto simp: stored_entry_def entry_from_document_def Let_def split: if_splits)
  have s': "s' = index_entry e (s\<lparr>fs_file := fs_file s @ [Value e], fs_fresh := n\<rparr>)"
    using r w by (auto simp: store_docs_def store_one_def e)
  have ids: "map dc_id (list_memories tf 0 0 t) = fs_order t"
    if c: "consistent_index t" and n: "int (length (fs_order t)) < 2 ^ 63" for t
  proof -
    have "indexed t (fs_order t) = map (\<lambda>i. the (map_of (fs_entries t) i)) (fs_order t)"
      using c by (simp add: indexed_def consistent_index_def)
    moreover have "map (\<lambda>i. en_id (the (map_of (fs_entries t) i))) (fs_order t) = fs_order t"
      using c by (intro map_idI) (auto simp: consistent_index_def)
    ultimately show ?thesis using n by (simp add: list_memories_def add64_small Let_def to_document_def comp_def)
  qed
  have "synced_file s'" using store_one_synced [OF s, of tf uuid now d] by (simp add: s' store_one_def e)
  then have "map dc_id (list_memories tf 0 0 s') = fs_order s @ [dc_id d]"
    using ids [OF synced_consistent len] by (simp add: s' id)
  moreover have "map dc_id (list_memories tf 0 0 s) = fs_order s"
    using ids [OF synced_consistent [OF s]] len by (simp add: s')
  moreover have "dom (map_of (fs_entries s')) = dom (map_of (fs_entries s))"
    using d(2) by (auto simp: s' id)
  ultimately show ?thesis by simp
qed

end
