(* ===== verification/MemoryMaintainer.thy ===== *)
theory MemoryMaintainer
  imports MemoryFile_Props
begin

text \<open>
  Memory hygiene, \<^verbatim>\<open>components/agent/memory/maintainer.go\<close>: memories of one category that look
  alike are merged, old ones are deleted.

  The maintainer works on any \<open>MemoryStore\<close>; its operations are the record \<open>memory_ops\<close> and what it
  may rely on is the locale \<open>memory_backend\<close>. Categories are taken in any order, as Go ranges over its
  map. Ids of merged memories come from \<open>mid\<close>, a stream of UUIDs; the model, when there is one, is a
  function from its prompt to an answer. A pass sees one time. The background loop is not modelled.
\<close>

section \<open>The store a maintainer works on\<close>

record 's memory_ops =
  mo_retrieve :: "string \<Rightarrow> int option \<Rightarrow> 's \<Rightarrow> document list option"
  mo_list :: "'s \<Rightarrow> document list option"
  mo_store :: "document list \<Rightarrow> 's \<Rightarrow> bool \<times> 's"
  mo_delete :: "string \<Rightarrow> 's \<Rightarrow> 's"
  mo_delete_by_filter :: "(string \<times> meta) list \<Rightarrow> 's \<Rightarrow> nat \<times> bool \<times> 's"
  mo_count :: "'s \<Rightarrow> nat option"

record maintainer =
  mt_threshold :: rat
  mt_max_age :: int
  mt_model :: "(string \<Rightarrow> string option) option"

definition new_maintainer :: "rat \<Rightarrow> int \<Rightarrow> (string \<Rightarrow> string option) option \<Rightarrow> maintainer" where
  "new_maintainer threshold max_age model =
     \<lparr>mt_threshold = (if threshold \<le> 0 then 4 / 5 else threshold), mt_max_age = max_age, mt_model = model\<rparr>"

section \<open>Similarity\<close>

definition alnum_rune :: "nat \<Rightarrow> bool" where
  "alnum_rune r \<longleftrightarrow> 97 \<le> r \<and> r \<le> 122 \<or> 48 \<le> r \<and> r \<le> 57"

definition tokenize_words :: "unicode \<Rightarrow> string \<Rightarrow> nat list list" where
  "tokenize_words u s = fields_func (\<lambda>r. \<not> alnum_rune r) [] (map (u_lower u) (runes s))"

definition text_similarity :: "unicode \<Rightarrow> string \<Rightarrow> string \<Rightarrow> rat" where
  "text_similarity u a b =
     (let wa = tokenize_words u a; wb = tokenize_words u b in
      if wa = [] \<or> wb = [] then 0
      else
        let inter = length (filter (\<lambda>w. w \<in> set wa) wb);
            union = length (remdups wa) + length (filter (\<lambda>w. w \<notin> set wa) (remdups wb))
        in if union = 0 then 0 else of_nat inter / of_nat union)"

text \<open>The loops over the indices not yet used: the first starts a cluster and takes every later one that is
  similar to it; the rest goes on.\<close>

function cluster_loop :: "unicode \<Rightarrow> rat \<Rightarrow> document list \<Rightarrow> document list list" where
  "cluster_loop u t [] = []"
| "cluster_loop u t (d # ds) =
     (d # filter (\<lambda>x. t \<le> text_similarity u (dc_content d) (dc_content x)) ds)
       # cluster_loop u t (filter (\<lambda>x. \<not> t \<le> text_similarity u (dc_content d) (dc_content x)) ds)"
  by pat_completeness auto
termination by (relation "measure (\<lambda>(u, t, ds). length ds)") (auto simp: less_Suc_eq_le)

definition cluster_by_text_overlap :: "unicode \<Rightarrow> rat \<Rightarrow> document list \<Rightarrow> document list list" where
  "cluster_by_text_overlap u t ds = (if length ds \<le> 1 then [ds] else cluster_loop u t ds)"

definition category_of :: "document \<Rightarrow> string" where
  "category_of d = meta_string (dc_meta d) ''category''"

definition group_by_similarity ::
    "(string list \<Rightarrow> string list) \<Rightarrow> unicode \<Rightarrow> rat \<Rightarrow> document list \<Rightarrow> document list list" where
  "group_by_similarity order u t ds =
     concat (map (\<lambda>c. cluster_by_text_overlap u t (filter (\<lambda>d. category_of d = c) ds))
       (order (remdups (map category_of ds))))"

section \<open>Merging\<close>

definition semicolon :: string where "semicolon = ''; ''"
definition prompt_rule :: string where "prompt_rule = [CHR 0x0A] @ ''---'' @ [CHR 0x0A]"

definition merged_content :: "(string \<Rightarrow> string option) option \<Rightarrow> string list \<Rightarrow> string" where
  "merged_content model contents =
     (case model of None \<Rightarrow> join semicolon contents
      | Some f \<Rightarrow> (case f (join prompt_rule contents) of None \<Rightarrow> join semicolon contents | Some r \<Rightarrow> trim_space r))"

definition merged_document ::
    "time_format \<Rightarrow> (string \<Rightarrow> string option) option \<Rightarrow> int \<Rightarrow> string \<Rightarrow> document list \<Rightarrow> document" where
  "merged_document tf model now mid ds =
     \<lparr>dc_id = mid, dc_content = merged_content model (map dc_content ds),
      dc_meta = (dc_meta (hd ds))(''merged_from'' \<mapsto> MIds (map dc_id ds), ''updated_at'' \<mapsto> MStr (tf_format tf now))\<rparr>"

definition merge_group ::
    "time_format \<Rightarrow> 's memory_ops \<Rightarrow> (string \<Rightarrow> string option) option \<Rightarrow> int \<Rightarrow> string \<Rightarrow> document list \<Rightarrow> 's \<Rightarrow> bool \<times> 's" where
  "merge_group tf ops model now mid ds s =
     (if length ds < 2 then (True, s)
      else
        let (ok, s1) = mo_store ops [merged_document tf model now mid ds] s
        in if \<not> ok then (False, s1) else (True, fold (mo_delete ops) (map dc_id ds) s1))"

fun merge_groups ::
    "time_format \<Rightarrow> 's memory_ops \<Rightarrow> (string \<Rightarrow> string option) option \<Rightarrow> int \<Rightarrow> (nat \<Rightarrow> string) \<Rightarrow> nat
      \<Rightarrow> document list list \<Rightarrow> 's \<Rightarrow> bool \<times> 's" where
  "merge_groups tf ops model now mid n [] s = (True, s)"
| "merge_groups tf ops model now mid n (g # gs) s =
     (if length g < 2 then merge_groups tf ops model now mid n gs s
      else
        let (ok, s1) = merge_group tf ops model now (mid n) g s
        in if ok then merge_groups tf ops model now mid (n + 1) gs s1 else (False, s1))"

definition compact_memories ::
    "time_format \<Rightarrow> (string list \<Rightarrow> string list) \<Rightarrow> unicode \<Rightarrow> 's memory_ops \<Rightarrow> maintainer \<Rightarrow> int \<Rightarrow> (nat \<Rightarrow> string)
      \<Rightarrow> 's \<Rightarrow> bool \<times> 's" where
  "compact_memories tf order u ops mt now mid s =
     (case mo_list ops s of
        None \<Rightarrow> (False, s)
      | Some ds \<Rightarrow>
          if length ds < 2 then (True, s)
          else merge_groups tf ops (mt_model mt) now mid 0 (group_by_similarity order u (mt_threshold mt) ds) s)"

definition cleanup_memories :: "time_format \<Rightarrow> 's memory_ops \<Rightarrow> maintainer \<Rightarrow> int \<Rightarrow> 's \<Rightarrow> bool \<times> 's" where
  "cleanup_memories tf ops mt now s =
     (if mt_max_age mt \<le> 0 then (True, s)
      else case mo_list ops s of
        None \<Rightarrow> (False, s)
      | Some ds \<Rightarrow>
          (True, fold (mo_delete ops)
             (map dc_id (filter (\<lambda>d. mt_max_age mt < now - en_created (entry_from_document tf d)) ds)) s))"

definition trigger_full_pass ::
    "time_format \<Rightarrow> (string list \<Rightarrow> string list) \<Rightarrow> unicode \<Rightarrow> 's memory_ops \<Rightarrow> maintainer \<Rightarrow> int \<Rightarrow> (nat \<Rightarrow> string)
      \<Rightarrow> 's \<Rightarrow> bool \<times> 's" where
  "trigger_full_pass tf order u ops mt now mid s =
     (let (ok, s1) = compact_memories tf order u ops mt now mid s
      in if \<not> ok then (False, s1) else cleanup_memories tf ops mt now s1)"

section \<open>Grouping is a partition\<close>

lemma mset_filter_split: "mset (filter P xs) + mset (filter (\<lambda>x. \<not> P x) xs) = mset xs"
  by (induction xs) simp_all

lemma mset_cluster_loop: "mset (concat (cluster_loop u t ds)) = mset ds"
proof (induction u t ds rule: cluster_loop.induct)
  case (2 u t d ds)
  then show ?case using mset_filter_split [of "\<lambda>x. t \<le> text_similarity u (dc_content d) (dc_content x)" ds]
    by (simp del: mset_filter)
qed simp

lemma mset_cluster: "mset (concat (cluster_by_text_overlap u t ds)) = mset ds"
  by (simp add: cluster_by_text_overlap_def mset_cluster_loop)

lemma cluster_members:
  assumes "g \<in> set (cluster_by_text_overlap u t ds)"
  shows "set g \<subseteq> set ds"
  using arg_cong [OF mset_cluster [of u t ds], of set_mset] assms by auto

lemma cluster_similar:
  assumes "g \<in> set (cluster_by_text_overlap u t ds)" "d \<in> set g"
  shows "d = hd g \<or> t \<le> text_similarity u (dc_content (hd g)) (dc_content d)"
proof (cases "length ds \<le> 1")
  case True
  with assms have "g = ds" by (simp add: cluster_by_text_overlap_def)
  with True assms(2) show ?thesis by (cases ds) auto
next
  case False
  have "g \<in> set (cluster_loop u t ds) \<Longrightarrow> d \<in> set g \<Longrightarrow> d = hd g \<or> t \<le> text_similarity u (dc_content (hd g)) (dc_content d)"
    by (induction u t ds rule: cluster_loop.induct) auto
  with False assms show ?thesis by (simp add: cluster_by_text_overlap_def)
qed

lemma mset_by_category: "distinct cs \<Longrightarrow> set (map f ds) \<subseteq> set cs \<Longrightarrow>
    mset (concat (map (\<lambda>c. filter (\<lambda>d. f d = c) ds) cs)) = mset ds"
proof (induction cs arbitrary: ds)
  case (Cons c cs)
  have "mset (concat (map (\<lambda>c. filter (\<lambda>d. f d = c) ds) cs))
    = mset (concat (map (\<lambda>c'. filter (\<lambda>d. f d = c') (filter (\<lambda>d. f d \<noteq> c) ds)) cs))"
    using Cons.prems(1) by (intro arg_cong [of _ _ mset] arg_cong [of _ _ concat] map_cong refl) (auto intro!: filter_cong)
  also have "\<dots> = mset (filter (\<lambda>d. f d \<noteq> c) ds)" using Cons.prems by (intro Cons.IH) auto
  finally show ?case by simp
qed simp

lemma grouping_partitions:
  assumes "\<And>cs. mset (order cs) = mset cs"
  shows "mset (concat (group_by_similarity order u t ds)) = mset ds"
proof -
  have d: "distinct (order (remdups (map category_of ds)))"
    using assms [of "remdups (map category_of ds)"] by (metis distinct_remdups mset_eq_imp_distinct_iff)
  have s: "set (order (remdups (map category_of ds))) = set (map category_of ds)"
    using assms [of "remdups (map category_of ds)"] by (metis set_mset_mset set_remdups)
  have "mset (concat (concat (map (\<lambda>c. cluster_by_text_overlap u t (filter (\<lambda>d. category_of d = c) ds)) cs)))
    = mset (concat (map (\<lambda>c. filter (\<lambda>d. category_of d = c) ds) cs))" for cs
    by (induction cs) (simp_all add: mset_cluster)
  then show ?thesis
    unfolding group_by_similarity_def using mset_by_category [OF d, of category_of ds] s by simp
qed

text \<open>Grouping loses and repeats no memory, whatever the order of the categories, and every member of a
  group has the category of its first member and is as similar to it as asked.\<close>

theorem groups_partition:
  assumes "\<And>cs. mset (order cs) = mset cs"
  shows "mset (concat (group_by_similarity order u t ds)) = mset ds
    \<and> (\<forall>g \<in> set (group_by_similarity order u t ds). \<forall>d \<in> set g. category_of d = category_of (hd g)
        \<and> (d = hd g \<or> t \<le> text_similarity u (dc_content (hd g)) (dc_content d)))"
proof (rule conjI [OF grouping_partitions [OF assms]])
  show "\<forall>g \<in> set (group_by_similarity order u t ds). \<forall>d \<in> set g. category_of d = category_of (hd g)
        \<and> (d = hd g \<or> t \<le> text_similarity u (dc_content (hd g)) (dc_content d))"
  proof (intro ballI)
    fix g d assume g: "g \<in> set (group_by_similarity order u t ds)" and d: "d \<in> set g"
    then obtain c where c: "g \<in> set (cluster_by_text_overlap u t (filter (\<lambda>d. category_of d = c) ds))"
      by (auto simp: group_by_similarity_def)
    have "hd g \<in> set g" using d by (cases g) auto
    then have "d \<in> set (filter (\<lambda>d. category_of d = c) ds)" "hd g \<in> set (filter (\<lambda>d. category_of d = c) ds)"
      using cluster_members [OF c] d by blast+
    then show "category_of d = category_of (hd g) \<and> (d = hd g \<or> t \<le> text_similarity u (dc_content (hd g)) (dc_content d))"
      using cluster_similar [OF c d] by simp
  qed
qed

definition grouped_docs :: "document list" where
  "grouped_docs = [demo_doc ''a'' ''deploy key'', demo_doc ''b'' ''list pods'', demo_doc ''c'' ''deploy key'']"

theorem groups_partition_witness:
  "mset (concat (group_by_similarity rev ascii_runes (4 / 5) grouped_docs)) = mset grouped_docs"
  by (rule conjunct1 [OF groups_partition]) simp

section \<open>Compaction keeps the text\<close>

text \<open>What a maintainer relies on: listing gives stored texts, storing adds its documents, deleting removes one.\<close>

locale memory_backend =
  fixes ops :: "'s memory_ops" and valid :: "'s \<Rightarrow> bool" and text_of :: "'s \<Rightarrow> string \<Rightarrow> string option"
  assumes list_text: "valid s \<Longrightarrow> mo_list ops s = Some ds \<Longrightarrow> d \<in> set ds \<Longrightarrow> text_of s (dc_id d) = Some (dc_content d)"
    and store_text: "valid s \<Longrightarrow> list_all (\<lambda>d. dc_id d \<noteq> []) ds \<Longrightarrow> mo_store ops ds s = (True, s') \<Longrightarrow>
      valid s' \<and> text_of s' = text_of s ++ map_of (rev (map (\<lambda>d. (dc_id d, dc_content d)) ds))"
    and store_failed: "valid s \<Longrightarrow> mo_store ops ds s = (False, s') \<Longrightarrow> valid s' \<and> text_of s' = text_of s"
    and delete_text: "valid s \<Longrightarrow> valid (mo_delete ops i s) \<and> text_of (mo_delete ops i s) = (text_of s)(i := None)"

definition keeps_text :: "(string \<Rightarrow> string option) \<Rightarrow> (string \<Rightarrow> string option) \<Rightarrow> bool" where
  "keeps_text t t' \<longleftrightarrow> (\<forall>i c. t i = Some c \<longrightarrow> (\<exists>j c'. t' j = Some c' \<and> sublist c c'))"

lemma keeps_text_refl [simp]: "keeps_text t t"
  by (auto simp: keeps_text_def)

lemma keeps_text_trans: "keeps_text t t' \<Longrightarrow> keeps_text t' t'' \<Longrightarrow> keeps_text t t''"
  unfolding keeps_text_def by (meson sublist_order.order_trans)

lemma sublist_join: "p \<in> set ps \<Longrightarrow> sublist p (join sep ps)"
proof (induction ps)
  case (Cons q ps)
  show ?case
  proof (cases "ps = []")
    case True
    then show ?thesis using Cons.prems by simp
  next
    case False
    then have j: "join sep (q # ps) = q @ sep @ join sep ps" by (simp add: join_Cons)
    show ?thesis
    proof (cases "p = q")
      case True
      then show ?thesis unfolding j by simp
    next
      case False
      then have "sublist p (join sep ps)" using Cons by simp
      moreover have "sublist (join sep ps) ((q @ sep) @ join sep ps @ [])" by (rule sublist_appendI)
      ultimately show ?thesis unfolding j by (simp add: sublist_order.order.trans)
    qed
  qed
qed simp

context memory_backend begin

lemma delete_all:
  "valid s \<Longrightarrow> valid (fold (mo_delete ops) is s)
    \<and> text_of (fold (mo_delete ops) is s) = (\<lambda>j. if j \<in> set is then None else text_of s j)"
proof (induction "is" arbitrary: s)
  case (Cons i xs)
  have "valid (mo_delete ops i s)" and t: "text_of (mo_delete ops i s) = (text_of s)(i := None)"
    using delete_text [OF Cons.prems] by simp_all
  from Cons.IH [OF this(1)] show ?case unfolding t by (auto simp: fun_eq_iff)
qed simp

text \<open>A document of the listing is still there unchanged, or was deleted.\<close>

definition listed :: "'s \<Rightarrow> document \<Rightarrow> bool" where
  "listed s d \<longleftrightarrow> text_of s (dc_id d) = None \<or> text_of s (dc_id d) = Some (dc_content d)"

lemma merge_group_text:
  assumes v: "valid s" and g: "\<And>d. d \<in> set g \<Longrightarrow> listed s d"
    and mid: "mid \<noteq> []" "text_of s mid = None" "mid \<notin> dc_id ` set g"
    and r: "merge_group tf ops None now mid g s = (ok, s')"
  shows "valid s' \<and> keeps_text (text_of s) (text_of s') \<and> (\<forall>i. i \<noteq> mid \<longrightarrow> text_of s' i = text_of s i \<or> text_of s' i = None)"
proof (cases "length g < 2")
  case True
  then show ?thesis using r v by (simp add: merge_group_def)
next
  case False
  let ?m = "merged_document tf None now mid g"
  obtain ok1 s1 where st: "mo_store ops [?m] s = (ok1, s1)" by fastforce
  have m: "dc_id ?m = mid" "dc_content ?m = join semicolon (map dc_content g)"
    by (simp_all add: merged_document_def merged_content_def)
  show ?thesis
  proof (cases ok1)
    case False
    then have "s' = s1" using r st \<open>\<not> length g < 2\<close> by (simp add: merge_group_def)
    then show ?thesis using store_failed [OF v, of "[?m]" s1] st False by simp
  next
    case True
    then have s': "s' = fold (mo_delete ops) (map dc_id g) s1" using r st \<open>\<not> length g < 2\<close> by (simp add: merge_group_def)
    have s1: "valid s1" "text_of s1 = (text_of s)(mid \<mapsto> dc_content ?m)"
      using store_text [OF v, of "[?m]" s1] st True mid(1) m by simp_all
    have t': "text_of s' = (\<lambda>j. if j \<in> dc_id ` set g then None else if j = mid then Some (dc_content ?m) else text_of s j)"
      and v': "valid s'"
      using delete_all [OF s1(1), of "map dc_id g"] unfolding s' s1(2) by (auto simp: fun_eq_iff)
    have "\<exists>j c'. text_of s' j = Some c' \<and> sublist c c'" if c: "text_of s i = Some c" for i c
    proof (cases "i \<in> dc_id ` set g")
      case True
      then obtain d where d: "d \<in> set g" "i = dc_id d" by blast
      then have "c = dc_content d" using g [OF d(1)] c by (simp add: listed_def)
      then have "sublist c (dc_content ?m)" using d(1) unfolding m by (intro sublist_join) simp
      moreover have "text_of s' mid = Some (dc_content ?m)" using mid(3) by (simp add: t')
      ultimately show ?thesis by blast
    next
      case False
      moreover have "i \<noteq> mid" using c mid(2) by auto
      ultimately have "text_of s' i = Some c" using c by (simp add: t')
      then show ?thesis by blast
    qed
    then show ?thesis using v' unfolding keeps_text_def by (simp add: t')
  qed
qed

lemma merge_groups_text:
  assumes "valid s" and "\<And>d. d \<in> set (concat gs) \<Longrightarrow> listed s d"
    and "\<And>k. n \<le> k \<Longrightarrow> mid k \<noteq> [] \<and> text_of s (mid k) = None \<and> mid k \<notin> dc_id ` set (concat gs)" "inj mid"
    and "merge_groups tf ops None now mid n gs s = (ok, s')"
  shows "valid s' \<and> keeps_text (text_of s) (text_of s')"
  using assms
proof (induction gs arbitrary: s n)
  case (Cons g gs)
  show ?case
  proof (cases "length g < 2")
    case True
    show ?thesis
    proof (rule Cons.IH [OF Cons.prems(1) _ _ Cons.prems(4), of n])
      show "merge_groups tf ops None now mid n gs s = (ok, s')" using Cons.prems(5) True by simp
    qed (use Cons.prems(2,3) in \<open>auto\<close>)
  next
    case False
    obtain ok1 s1 where r: "merge_group tf ops None now (mid n) g s = (ok1, s1)" by fastforce
    have fresh: "mid n \<noteq> []" "text_of s (mid n) = None" "mid n \<notin> dc_id ` set (concat (g # gs))"
      using Cons.prems(3) [of n] by simp_all
    have lg: "\<And>d. d \<in> set g \<Longrightarrow> listed s d" using Cons.prems(2) by simp
    have ng: "mid n \<notin> dc_id ` set g" using fresh(3) by auto
    have s1: "valid s1" "keeps_text (text_of s) (text_of s1)"
      "\<And>i. i \<noteq> mid n \<Longrightarrow> text_of s1 i = text_of s i \<or> text_of s1 i = None"
      using merge_group_text [OF Cons.prems(1) lg fresh(1,2) ng r] by (simp_all only: simp_thms)
    show ?thesis
    proof (cases ok1)
      case False
      then show ?thesis using Cons.prems(5) r s1 \<open>\<not> length g < 2\<close> by simp
    next
      case True
      have "merge_groups tf ops None now mid (n + 1) gs s1 = (ok, s')"
        using Cons.prems(5) r True \<open>\<not> length g < 2\<close> by simp
      moreover have "listed s1 d" if "d \<in> set (concat gs)" for d
      proof -
        have "d \<in> set (concat (g # gs))" using that by simp
        then have "dc_id d \<in> dc_id ` set (concat (g # gs))" by (rule imageI)
        with fresh(3) have "dc_id d \<noteq> mid n" by metis
        then show ?thesis using s1(3) [of "dc_id d"] Cons.prems(2) [of d] that by (auto simp: listed_def)
      qed
      moreover have "mid k \<noteq> [] \<and> text_of s1 (mid k) = None \<and> mid k \<notin> dc_id ` set (concat gs)" if "n + 1 \<le> k" for k
      proof -
        have "mid k \<noteq> mid n" using that Cons.prems(4) by (auto dest: injD)
        then show ?thesis using s1(3) [of "mid k"] Cons.prems(3) [of k] that by auto
      qed
      ultimately show ?thesis using Cons.IH [OF s1(1) _ _ Cons.prems(4)] keeps_text_trans [OF s1(2)] by blast
    qed
  qed
qed simp

lemma compact_text:
  assumes v: "valid s" and order: "\<And>cs. mset (order cs) = mset cs"
    and mid: "\<And>k. mid k \<noteq> [] \<and> text_of s (mid k) = None" "inj mid"
    and mt: "mt_model mt = None"
    and r: "compact_memories tf order u ops mt now mid s = (ok, s')"
  shows "valid s' \<and> keeps_text (text_of s) (text_of s')"
proof (cases "mo_list ops s")
  case (Some ds)
  show ?thesis
  proof (cases "length ds < 2")
    case False
    have in_ds: "d \<in> set ds" if "d \<in> set (concat (group_by_similarity order u (mt_threshold mt) ds))" for d
      using arg_cong [OF grouping_partitions [of order u "mt_threshold mt" ds, OF order], of set_mset] that by simp
    have l: "text_of s (dc_id d) = Some (dc_content d)" if "d \<in> set ds" for d
      using list_text [OF v Some that] .
    have "merge_groups tf ops None now mid 0 (group_by_similarity order u (mt_threshold mt) ds) s = (ok, s')"
      using r Some False mt by (simp add: compact_memories_def)
    then show ?thesis
    proof (rule merge_groups_text [OF v _ _ mid(2), rotated -1])
      show "listed s d" if "d \<in> set (concat (group_by_similarity order u (mt_threshold mt) ds))" for d
        using l [OF in_ds [OF that]] by (simp add: listed_def)
      show "mid k \<noteq> [] \<and> text_of s (mid k) = None \<and> mid k \<notin> dc_id ` set (concat (group_by_similarity order u (mt_threshold mt) ds))" for k
        using mid(1) [of k] l [OF in_ds] by (auto simp del: set_concat)
    qed
  qed (use r v Some in \<open>simp add: compact_memories_def\<close>)
qed (use r v in \<open>simp add: compact_memories_def\<close>)

end

section \<open>The file store as a backend\<close>

definition fs_ops :: "unicode \<Rightarrow> time_format \<Rightarrow> (nat \<Rightarrow> string) \<Rightarrow> int \<Rightarrow> fstore memory_ops" where
  "fs_ops u tf uuid now =
     \<lparr>mo_retrieve = (\<lambda>q k s. Some (retrieve_memories u tf q k s)),
      mo_list = (\<lambda>s. Some (list_memories tf 0 0 s)),
      mo_store = (\<lambda>ds s. let (r, s') = store_docs tf uuid now ds s in (is_ok r, s')),
      mo_delete = (\<lambda>i s. snd (delete_memory i s)),
      mo_delete_by_filter = (\<lambda>flt s. let (n, r, s') = delete_by_filter flt s in (n, is_ok r, s')),
      mo_count = (\<lambda>s. Some (count_memories s))\<rparr>"

definition fs_text :: "fstore \<Rightarrow> string \<Rightarrow> string option" where
  "fs_text s i = map_option en_content (map_of (fs_entries s) i)"

lemma listed_text:
  assumes "synced_file s" "d \<in> set (list_memories tf off n s)"
  shows "fs_text s (dc_id d) = Some (dc_content d)"
proof -
  from assms(2) obtain i where i: "map_of (fs_entries s) i \<noteq> None" "d = to_document tf (the (map_of (fs_entries s) i))"
    by (auto simp: list_memories_def indexed_def Let_def)
  then obtain e where e: "map_of (fs_entries s) i = Some e" by auto
  then have "en_id e = i" using synced_consistent [OF assms(1)] by (simp add: consistent_index_def)
  with i e show ?thesis by (simp add: fs_text_def to_document_def)
qed

lemma store_one_text:
  assumes "dc_id d \<noteq> []"
  shows "fs_text (snd (store_one tf uuid now d s)) = (fs_text s)(dc_id d \<mapsto> dc_content d)"
proof -
  obtain e n where e: "stored_entry tf uuid now d (fs_fresh s) = (e, n)" by fastforce
  have "en_id e = dc_id d" "en_content e = dc_content d"
    using e assms by (auto simp: stored_entry_def entry_from_document_def Let_def split: if_splits)
  then show ?thesis by (auto simp: store_one_def e fs_text_def fun_eq_iff)
qed

lemma store_loop_text:
  "list_all (\<lambda>d. dc_id d \<noteq> []) ds \<Longrightarrow>
    fs_text (snd (store_loop tf uuid now ds s)) = fs_text s ++ map_of (rev (map (\<lambda>d. (dc_id d, dc_content d)) ds))"
proof (induction ds arbitrary: s)
  case (Cons d ds)
  then show ?case by (simp add: split_beta store_one_text fun_eq_iff map_add_def split: option.splits)
qed simp

lemma delete_memory_text: "synced_file s \<Longrightarrow> fs_text (snd (delete_memory i s)) = (fs_text s)(i := None)"
  using rewrite_synced [OF drop_entry_consistent [OF synced_consistent], of s i]
  by (auto simp: delete_memory_def fs_text_def fun_eq_iff drop_entry_def delete_conv' split: option.splits)

interpretation file_backend: memory_backend "fs_ops u tf uuid now" synced_file fs_text for u tf uuid now
proof
  fix s s' :: fstore and ds d i
  assume s: "synced_file s"
  have w: "fs_writable s" using s by (simp add: synced_file_def)
  show "mo_list (fs_ops u tf uuid now) s = Some ds \<Longrightarrow> d \<in> set ds \<Longrightarrow> fs_text s (dc_id d) = Some (dc_content d)"
    using listed_text [OF s] by (auto simp: fs_ops_def)
  show "list_all (\<lambda>d. dc_id d \<noteq> []) ds \<Longrightarrow> mo_store (fs_ops u tf uuid now) ds s = (True, s') \<Longrightarrow>
      synced_file s' \<and> fs_text s' = fs_text s ++ map_of (rev (map (\<lambda>d. (dc_id d, dc_content d)) ds))"
    using store_loop_synced [OF s, of tf uuid now ds] store_loop_text [of ds tf uuid now s] w
    by (auto simp: fs_ops_def store_docs_def split_beta)
  show "mo_store (fs_ops u tf uuid now) ds s = (False, s') \<Longrightarrow> synced_file s' \<and> fs_text s' = fs_text s"
    using w by (auto simp: fs_ops_def store_docs_def split_beta)
  show "synced_file (mo_delete (fs_ops u tf uuid now) i s) \<and> fs_text (mo_delete (fs_ops u tf uuid now) i s) = (fs_text s)(i := None)"
    using mem_step_synced [OF s, of tf uuid "MDelete i"] delete_memory_text [OF s] by (simp add: fs_ops_def)
qed

text \<open>C23: Without a model, compacting the file store loses no text: the content of every memory is still part of
  the content of some memory, provided the ids of merged memories are fresh.\<close>

theorem compaction_keeps_text:
  assumes "synced_file s" "\<And>cs. mset (order cs) = mset cs"
    and "\<And>k. mid k \<noteq> [] \<and> map_of (fs_entries s) (mid k) = None" "inj mid" "mt_model mt = None"
    and "compact_memories tf order u (fs_ops u tf uuid now) mt now mid s = (ok, s')"
    and "map_of (fs_entries s) i = Some e"
  shows "\<exists>j e'. map_of (fs_entries s') j = Some e' \<and> sublist (en_content e) (en_content e')"
proof -
  have "keeps_text (fs_text s) (fs_text s')"
    using file_backend.compact_text [OF assms(1,2) _ assms(4-6)] assms(3) by (simp add: fs_text_def)
  moreover have "fs_text s i = Some (en_content e)" using assms(7) by (simp add: fs_text_def)
  ultimately show ?thesis unfolding keeps_text_def fs_text_def by fastforce
qed

definition grouped_store :: fstore where
  "grouped_store = run_mem unary_time (\<lambda>n. ''u'') [MStore 5 grouped_docs] (empty_fstore True None [])"

definition demo_maintainer :: maintainer where "demo_maintainer = new_maintainer 0 0 None"

definition merged_ids :: "nat \<Rightarrow> string" where "merged_ids k = ''m'' @ replicate k CHR ''m''"

lemma grouped_synced: "synced_file grouped_store"
  unfolding grouped_store_def by (rule run_mem_synced [OF synced_new])

theorem compaction_keeps_text_witness:
  "\<exists>j e'. map_of (fs_entries (snd (compact_memories unary_time rev ascii_runes (fs_ops ascii_runes unary_time (\<lambda>n. ''u'') 7)
      demo_maintainer 7 merged_ids grouped_store))) j = Some e' \<and> sublist ''deploy key'' (en_content e')"
proof -
  have keys: "map fst (fs_entries grouped_store) = [''a'', ''b'', ''c'']" by code_simp
  have fresh: "merged_ids k \<noteq> [] \<and> map_of (fs_entries grouped_store) (merged_ids k) = None" for k
    using keys by (subst map_of_eq_None_iff) (simp add: merged_ids_def flip: set_map)
  have ids: "inj merged_ids" by (auto simp: inj_def merged_ids_def)
  have a: "map_option en_content (map_of (fs_entries grouped_store) ''a'') = Some ''deploy key''" by code_simp
  obtain e where e: "map_of (fs_entries grouped_store) ''a'' = Some e" "en_content e = ''deploy key''"
    using a by auto
  have m: "mt_model demo_maintainer = None" by (simp add: demo_maintainer_def new_maintainer_def)
  show ?thesis
    using compaction_keeps_text [where s = grouped_store and order = rev and mid = merged_ids and mt = demo_maintainer
        and tf = unary_time and u = ascii_runes and uuid = "\<lambda>n. ''u''" and now = 7 and i = "''a''" and e = e,
        OF grouped_synced _ fresh ids m prod.collapse [symmetric] e(1)]
    unfolding e(2) by simp
qed

section \<open>Where merging goes wrong\<close>

text \<open>Groups are formed by category alone. Two users' memories that use the same words are merged into one, which
  belongs to the first user and carries what the second one told.\<close>

definition user_doc :: "string \<Rightarrow> string \<Rightarrow> string \<Rightarrow> document" where
  "user_doc i user c = \<lparr>dc_id = i, dc_content = c, dc_meta = [''category'' \<mapsto> MStr ''fact'', ''user_id'' \<mapsto> MStr user]\<rparr>"

definition two_users :: fstore where
  "two_users = snd (compact_memories unary_time (\<lambda>cs. cs) ascii_runes (fs_ops ascii_runes unary_time (\<lambda>n. ''u'') 7) demo_maintainer 7 merged_ids
     (run_mem unary_time (\<lambda>n. ''u'') [MStore 5 [user_doc ''a'' ''alice'' ''my pin is 1234'', user_doc ''b'' ''bob'' ''1234 is my pin'']]
        (empty_fstore True None [])))"

theorem compaction_crosses_users:
  "map (\<lambda>d. (dc_content d, dc_meta d ''user_id'')) (list_memories unary_time 0 0 two_users)
    = [(''my pin is 1234; 1234 is my pin'', Some (MStr ''alice''))]"
  by code_simp

text \<open>The similarity counts repeated words of the second text, so it is neither symmetric nor bounded by 1 as the
  Jaccard similarity it is meant to be: a text of one repeated word merges into any text that has the word.\<close>

theorem similarity_not_jaccard:
  "text_similarity ascii_runes ''restart the pod'' ''pod pod pod pod'' = 4 / 3
    \<and> text_similarity ascii_runes ''pod pod pod pod'' ''restart the pod'' = 1 / 3"
  by code_simp

end
