(* ===== verification/MemoryAgent.thy ===== *)
theory MemoryAgent
  imports StrUtil Runner RunTrace MemoryMaintainer
begin

text \<open>
  The agent with a long-term memory, \<^verbatim>\<open>components/agent/memory/agent.go\<close>, and what it learns from
  a run, \<^verbatim>\<open>extractor.go\<close>; the probe of \<^verbatim>\<open>check.go\<close>.

  A run is the function of the finished event stream of the inner agent: the events sent on, and the
  store after learning, which with \<open>AsyncExtract\<close> happens later but with the same inputs. A copy of a
  message stream delivers what the stream delivers. What the code takes from elsewhere is the record
  \<open>agent_env\<close>: times, SHA-256, the embedded prompts, JSON decoding, \<open>schema.ConcatMessages\<close>. The model is
  a function from its two prompts to an answer, a timeout being no answer. The context is its session values.
\<close>

section \<open>Configuration\<close>

record agent_output = message_output +
  ao_tool_name :: string

record run_event =
  re_agent :: string
  re_err :: "string option"
  re_output :: "agent_output option"

type_synonym session_values = "string \<Rightarrow> gval option"
type_synonym chat_model = "string \<Rightarrow> string \<Rightarrow> string option"

record 's agent_config =
  ac_inner :: "(session_values \<Rightarrow> message list \<Rightarrow> run_event option list) option"
  ac_store :: "'s memory_ops option"
  ac_model :: "chat_model option"
  ac_user :: string
  ac_session :: string
  ac_auto_extract :: bool
  ac_interval :: int
  ac_max_age :: int
  ac_max_memories :: int
  ac_max_query_chars :: int
  ac_prefix :: string
  ac_trace_enabled :: bool
  ac_trace :: trace_config
  ac_terminal_tools :: "string \<Rightarrow> string option"
  ac_retrieve_top_k :: int
  ac_query_filter :: "(message \<Rightarrow> bool) option"
  ac_should_retrieve :: "(session_values \<Rightarrow> bool) option"
  ac_should_extract :: "(session_values \<Rightarrow> bool) option"

record 's agent = "'s agent_config" +
  ag_maintainer :: "maintainer option"

record extraction =
  xr_content :: string
  xr_category :: string
  xr_source :: string
  xr_confidence :: rat
  xr_scope :: string

record agent_env =
  ae_time :: time_format
  ae_sha256 :: "string \<Rightarrow> string"
  ae_extract_system :: string
  ae_extract_user :: "string \<Rightarrow> string \<Rightarrow> string"
  ae_trace_system :: string
  ae_trace_user :: "string \<Rightarrow> string \<Rightarrow> string"
  ae_summarize_system :: string
  ae_summarize_user :: "string \<Rightarrow> string \<Rightarrow> string"
  ae_dedup_system :: string
  ae_unmarshal :: "string \<Rightarrow> extraction list option"
  ae_fields :: "string \<Rightarrow> (string \<Rightarrow> field_value option) option"
  ae_concat :: "msg_ptr list \<Rightarrow> message option"

datatype agent_failure = InvalidAgentConfig | GenerateFailed | BadExtraction | ListFailed

definition valid_agent_config :: "('s, 'x) agent_config_scheme \<Rightarrow> bool" where
  "valid_agent_config c \<longleftrightarrow> ac_inner c \<noteq> None \<and> 0 \<le> ac_interval c \<and> 0 \<le> ac_max_age c \<and> 0 \<le> ac_max_memories c
     \<and> 0 \<le> ac_max_query_chars c \<and> ac_max_query_chars c \<le> 65536 \<and> 0 \<le> ac_retrieve_top_k c"

definition new_agent :: "agent_env \<Rightarrow> 's agent_config \<Rightarrow> agent_failure + 's agent" where
  "new_agent env c =
     (let c1 = c\<lparr>ac_trace := (ac_trace c)\<lparr>tr_max_step_chars := max_step (ac_trace c), tr_max_chars := max_total (ac_trace c)\<rparr>\<rparr>
      in if \<not> valid_agent_config c1 then Inl InvalidAgentConfig
      else
        let c2 = (if ac_max_memories c1 \<le> 0 then c1\<lparr>ac_max_memories := 5\<rparr> else c1);
            c3 = c2\<lparr>ac_auto_extract := ac_auto_extract c2 \<or> ac_store c2 \<noteq> None \<and> ac_model c2 \<noteq> None\<rparr>;
            mt = (if ac_store c3 \<noteq> None \<and> 0 < ac_interval c3
                  then Some (new_maintainer 0 (ac_max_age c3) (map_option (\<lambda>f. f (ae_dedup_system env)) (ac_model c3)))
                  else None)
        in Inr (agent_config.extend c3 \<lparr>ag_maintainer = mt\<rparr>))"

definition set_user_id :: "string \<Rightarrow> 's agent \<Rightarrow> 's agent" where
  "set_user_id u a = a\<lparr>ac_user := u\<rparr>"

definition set_session_id :: "string \<Rightarrow> 's agent \<Rightarrow> 's agent" where
  "set_session_id i a = a\<lparr>ac_session := i\<rparr>"

definition session_string :: "session_values \<Rightarrow> string \<Rightarrow> string \<Rightarrow> string" where
  "session_string ctx key d = (case ctx key of Some (GStr s) \<Rightarrow> if s \<noteq> [] then s else d | _ \<Rightarrow> d)"

definition resolve_identity :: "session_values \<Rightarrow> 's agent \<Rightarrow> string \<times> string" where
  "resolve_identity ctx a =
     (session_string ctx ''memory_user_id'' (ac_user a), session_string ctx ''memory_session_id'' (ac_session a))"

section \<open>Enriching the input\<close>

definition linefeed :: string where "linefeed = [CHR 0x0A]"

text \<open>The contents of the last messages of the user that the filter keeps, latest first; the list is reversed.\<close>

fun user_contents :: "(message \<Rightarrow> bool) option \<Rightarrow> nat \<Rightarrow> message list \<Rightarrow> string list" where
  "user_contents keep n [] = []"
| "user_contents keep n (m # ms) =
     (if n = 0 then []
      else if msg_role m \<noteq> RUser \<or> msg_content m = [] then user_contents keep n ms
      else if (case keep of None \<Rightarrow> False | Some f \<Rightarrow> \<not> f m) then user_contents keep n ms
      else msg_content m # user_contents keep (n - 1) ms)"

definition build_query :: "'s agent \<Rightarrow> message list \<Rightarrow> string" where
  "build_query a ms =
     truncate_str (join linefeed (rev (user_contents (ac_query_filter a) 2 (rev ms)))) (ac_max_query_chars a) []"

definition filter_by_user :: "string \<Rightarrow> document list \<Rightarrow> document list" where
  "filter_by_user user ds = filter (\<lambda>d. dc_meta d ''user_id'' = Some (MStr user)) ds"

definition context_header :: string where
  "context_header = ''[Memory context - NOT new user input. Treat as authoritative reference data.]'' @ linefeed"

definition procedures_header :: string where
  "procedures_header = ''[Known procedures from previous sessions '' @ [CHR 0xE2, CHR 0x80, CHR 0x94]
     @ '' prefer them, verify the target exists before acting]'' @ linefeed"

definition memory_line :: "entry \<Rightarrow> string" where
  "memory_line e = ''- '' @ en_category e @ '': '' @ en_content e @ linefeed"

definition format_memories :: "time_format \<Rightarrow> document list \<Rightarrow> message" where
  "format_memories tf ds =
     (let es = map (entry_from_document tf) ds;
          procedures = filter (\<lambda>e. en_category e = ''procedure'') es;
          others = filter (\<lambda>e. en_category e \<noteq> ''procedure'') es
      in new_memory_context_message
           (context_header
            @ (if procedures \<noteq> [] then procedures_header @ concat (map memory_line procedures) else [])
            @ concat (map memory_line others)))"

definition augmented_content :: "string \<Rightarrow> string \<Rightarrow> string \<Rightarrow> string" where
  "augmented_content prfx c own =
     (if prfx \<noteq> [] then c @ linefeed @ linefeed @ prfx @ linefeed @ linefeed @ own
      else c @ linefeed @ linefeed @ own)"

fun inject_loop :: "string \<Rightarrow> string \<Rightarrow> bool \<Rightarrow> message list \<Rightarrow> message list \<times> bool" where
  "inject_loop prfx c injected [] = ([], injected)"
| "inject_loop prfx c injected (m # ms) =
     (if msg_role m = RSystem \<and> \<not> injected
      then (let (rest, b) = inject_loop prfx c True ms
            in (m\<lparr>msg_content := augmented_content prfx c (msg_content m)\<rparr> # rest, b))
      else (let (rest, b) = inject_loop prfx c injected ms in (m # rest, b)))"

definition inject_context :: "string \<Rightarrow> message list \<Rightarrow> message \<Rightarrow> message list" where
  "inject_context prfx ms c =
     (let (result, injected) = inject_loop prfx (msg_content c) False ms
      in if injected then result else c # result)"

definition enrich_input ::
    "agent_env \<Rightarrow> 's agent \<Rightarrow> session_values \<Rightarrow> string \<Rightarrow> message list \<Rightarrow> 's \<Rightarrow> (message list \<times> string) option" where
  "enrich_input env a ctx user ms s =
     (let q = build_query a ms in
      case ac_store a of
        None \<Rightarrow> Some (ms, q)
      | Some ops \<Rightarrow>
          if q = [] then Some (ms, q)
          else if (case ac_should_retrieve a of None \<Rightarrow> False | Some f \<Rightarrow> \<not> f ctx) then Some (ms, q)
          else case mo_retrieve ops q (if 0 < ac_retrieve_top_k a then Some (ac_retrieve_top_k a) else None) s of
            None \<Rightarrow> None
          | Some found \<Rightarrow>
              let ds = (if user \<noteq> [] then filter_by_user user found else found);
                  ds1 = (if ac_max_memories a < int (length ds) then take (nat (ac_max_memories a)) ds else ds)
              in Some (if ds1 \<noteq> [] then inject_context (ac_prefix a) ms (format_memories (ae_time env) ds1) else ms, q))"

section \<open>Watching the run\<close>

definition concat_assistant_content :: "msg_ptr list \<Rightarrow> string" where
  "concat_assistant_content ps = concat (map (\<lambda>p. case p of None \<Rightarrow> [] | Some m \<Rightarrow> msg_content m) ps)"

fun stream_chunks :: "item list \<Rightarrow> string + msg_ptr list" where
  "stream_chunks [] = Inr []"
| "stream_chunks (Fail e # _) = Inl e"
| "stream_chunks (Chunk c # is) = (case stream_chunks is of Inl e \<Rightarrow> Inl e | Inr cs \<Rightarrow> Inr (c # cs))"

text \<open>The collected message; \<open>None\<close> where the code returns an error or nil, which its callers do not tell apart.\<close>

definition collect_stream :: "agent_env \<Rightarrow> item list \<Rightarrow> message option" where
  "collect_stream env is =
     (case stream_chunks is of Inl _ \<Rightarrow> None | Inr cs \<Rightarrow> if cs = [] then None else ae_concat env cs)"

definition call_steps :: "agent_env \<Rightarrow> (string \<Rightarrow> string option) \<Rightarrow> string \<Rightarrow> tool_call \<Rightarrow> trace_step list" where
  "call_steps env terminal agent tc =
     \<lparr>ts_kind = ToolCallStep, ts_agent = agent, ts_name = tc_name tc, ts_text = tc_args tc\<rparr>
     # (case terminal (tc_name tc) of
          None \<Rightarrow> []
        | Some field \<Rightarrow>
            (case terminal_arg_value (ae_fields env) (tc_args tc) field of
               None \<Rightarrow> []
             | Some v \<Rightarrow> [\<lparr>ts_kind = TerminalAnswer, ts_agent = agent, ts_name = tc_name tc, ts_text = v\<rparr>]))"

definition record_assistant_trace_steps ::
    "agent_env \<Rightarrow> msg_ptr \<Rightarrow> string \<Rightarrow> (string \<Rightarrow> string option) \<Rightarrow> trace_step list" where
  "record_assistant_trace_steps env p agent terminal =
     (case p of
        None \<Rightarrow> []
      | Some m \<Rightarrow>
          (if msg_content m \<noteq> []
           then [\<lparr>ts_kind = AssistantText, ts_agent = agent, ts_name = [], ts_text = msg_content m\<rparr>] else [])
          @ concat (map (call_steps env terminal agent) (msg_tool_calls m)))"

definition record_tool_result_step :: "string \<Rightarrow> string \<Rightarrow> string \<Rightarrow> trace_step" where
  "record_tool_result_step name content agent =
     \<lparr>ts_kind = ToolResult, ts_agent = agent, ts_name = name, ts_text = content\<rparr>"

definition tool_name :: "msg_ptr \<Rightarrow> agent_output option \<Rightarrow> string" where
  "tool_name p mo =
     (case mo of
        Some out \<Rightarrow> if ao_tool_name out \<noteq> [] then ao_tool_name out
                     else (case p of Some m \<Rightarrow> msg_tool_name m | None \<Rightarrow> [])
      | None \<Rightarrow> (case p of Some m \<Rightarrow> msg_tool_name m | None \<Rightarrow> []))"

text \<open>What one event adds to the trace and to the assistant's messages.\<close>

definition learned_from :: "agent_env \<Rightarrow> 's agent \<Rightarrow> string \<Rightarrow> agent_output \<Rightarrow> trace_step list \<times> msg_ptr list" where
  "learned_from env a agent mo =
     (case mo_role mo of
        RAssistant \<Rightarrow>
          let p = (if mo_streaming mo \<and> mo_stream mo \<noteq> None then collect_stream env (the (mo_stream mo)) else mo_message mo)
          in if p = None then ([], [])
          else if ac_trace_enabled a then (record_assistant_trace_steps env p agent (ac_terminal_tools a), [])
          else ([], [p])
      | RTool \<Rightarrow>
          if \<not> ac_trace_enabled a then ([], [])
          else
            let p = (if mo_streaming mo \<and> mo_stream mo \<noteq> None then collect_stream env (the (mo_stream mo)) else mo_message mo)
            in (case p of
                  None \<Rightarrow> ([], [])
                | Some m \<Rightarrow> ([record_tool_result_step (tool_name p (Some mo)) (msg_content m) agent], []))
      | _ \<Rightarrow> ([], []))"

fun monitor_loop :: "agent_env \<Rightarrow> 's agent \<Rightarrow> run_event option list \<Rightarrow> run_event list \<times> trace_step list \<times> msg_ptr list" where
  "monitor_loop env a [] = ([], [], [])"
| "monitor_loop env a (None # evs) = monitor_loop env a evs"
| "monitor_loop env a (Some e # evs) =
     (let (sent, trace, msgs) = monitor_loop env a evs in
      case re_output e of
        None \<Rightarrow> (e # sent, trace, msgs)
      | Some mo \<Rightarrow>
          if re_err e \<noteq> None then (e # sent, trace, msgs)
          else let (ts, ms) = learned_from env a (re_agent e) mo in (e # sent, ts @ trace, ms @ msgs))"

section \<open>Learning\<close>

definition parse_extraction_response ::
    "(string \<Rightarrow> extraction list option) \<Rightarrow> string \<Rightarrow> agent_failure + extraction list" where
  "parse_extraction_response unmarshal content =
     (let c = extract_json_block content in
      if c = [] then Inr []
      else case unmarshal c of
        None \<Rightarrow> Inl BadExtraction
      | Some rs \<Rightarrow> Inr (filter (\<lambda>r. 7 / 10 \<le> xr_confidence r \<and> xr_content r \<noteq> []) rs))"

definition truncate_dots :: "string \<Rightarrow> int \<Rightarrow> string" where
  "truncate_dots s n = truncate_str s n ''...''"

definition extract_memories ::
    "agent_env \<Rightarrow> chat_model option \<Rightarrow> string \<Rightarrow> string \<Rightarrow> agent_failure + extraction list" where
  "extract_memories env model user assistant =
     (case model of
        None \<Rightarrow> Inr []
      | Some generate \<Rightarrow>
          (case generate (ae_extract_system env)
                  (ae_extract_user env (truncate_dots user 4000) (truncate_dots assistant 4000)) of
             None \<Rightarrow> Inl GenerateFailed
           | Some answer \<Rightarrow> parse_extraction_response (ae_unmarshal env) answer))"

definition extract_trace ::
    "agent_env \<Rightarrow> chat_model option \<Rightarrow> string \<Rightarrow> string \<Rightarrow> agent_failure + extraction list" where
  "extract_trace env model user rendered =
     (case model of
        None \<Rightarrow> Inr []
      | Some generate \<Rightarrow>
          (case generate (ae_trace_system env) (ae_trace_user env (truncate_dots user 4000) rendered) of
             None \<Rightarrow> Inl GenerateFailed
           | Some answer \<Rightarrow> parse_extraction_response (ae_unmarshal env) answer))"

definition role_text :: "role \<Rightarrow> string" where
  "role_text r = (case r of RSystem \<Rightarrow> ''system'' | RUser \<Rightarrow> ''user'' | RAssistant \<Rightarrow> ''assistant''
     | RTool \<Rightarrow> ''tool'' | ROther s \<Rightarrow> s)"

definition summarize_session ::
    "agent_env \<Rightarrow> chat_model option \<Rightarrow> message list \<Rightarrow> string \<Rightarrow> agent_failure + string" where
  "summarize_session env model ms previous =
     (case model of
        None \<Rightarrow> Inr []
      | Some generate \<Rightarrow>
          (case generate (ae_summarize_system env)
                  (ae_summarize_user env previous
                     (concat (map (\<lambda>m. ''['' @ role_text (msg_role m) @ '']: '' @ truncate_dots (msg_content m) 2000 @ linefeed) ms))) of
             None \<Rightarrow> Inl GenerateFailed
           | Some answer \<Rightarrow> Inr answer))"

text \<open>\<open>strings.Fields\<close> on the runes with their bytes, and \<open>hex.EncodeToString\<close>.\<close>

fun space_fields :: "string \<Rightarrow> (nat \<times> string) list \<Rightarrow> string list" where
  "space_fields acc [] = (if acc = [] then [] else [acc])"
| "space_fields acc ((r, b) # xs) =
     (if is_space_rune r then (if acc = [] then space_fields [] xs else acc # space_fields [] xs)
      else space_fields (acc @ b) xs)"

definition hex_digits :: string where "hex_digits = ''0123456789abcdef''"

definition hex_encode :: "string \<Rightarrow> string" where
  "hex_encode s = concat (map (\<lambda>c. [hex_digits ! (byte c div 16), hex_digits ! (byte c mod 16)]) s)"

definition deterministic_memory_id :: "(string \<Rightarrow> string) \<Rightarrow> string \<Rightarrow> string \<Rightarrow> string" where
  "deterministic_memory_id sha category content =
     take 32 (hex_encode (sha (category @ [CHR 0x00] @ join '' '' (space_fields [] (segs content)))))"

definition build_entry_doc :: "agent_env \<Rightarrow> int \<Rightarrow> extraction \<Rightarrow> string \<Rightarrow> string \<Rightarrow> entry" where
  "build_entry_doc env now r user session =
     (let content = (if xr_scope r \<noteq> [] then xr_content r @ linefeed @ ''[scope: '' @ xr_scope r @ '']'' else xr_content r);
          m = [''confidence'' \<mapsto> MNum (xr_confidence r)]
      in \<lparr>en_id = deterministic_memory_id (ae_sha256 env) (xr_category r) content, en_content = content,
          en_category = xr_category r, en_source = xr_source r, en_session = session,
          en_created = now, en_updated = now,
          en_meta = (if xr_scope r \<noteq> [] then m(''scope'' \<mapsto> MStr (xr_scope r)) else m)\<rparr>)"

definition extraction_document :: "agent_env \<Rightarrow> int \<Rightarrow> string \<Rightarrow> string \<Rightarrow> extraction \<Rightarrow> document" where
  "extraction_document env now user session r =
     (let d = to_document (ae_time env) (build_entry_doc env now r user session)
      in if user \<noteq> [] then d\<lparr>dc_meta := (dc_meta d)(''user_id'' \<mapsto> MStr user)\<rparr> else d)"

definition store_extraction ::
    "agent_env \<Rightarrow> 's agent \<Rightarrow> int \<Rightarrow> extraction list \<Rightarrow> string \<Rightarrow> string \<Rightarrow> 's \<Rightarrow> 's" where
  "store_extraction env a now rs user session s =
     (case ac_store a of
        None \<Rightarrow> s
      | Some ops \<Rightarrow>
          let ds = map (extraction_document env now user session) rs
          in if ds \<noteq> [] then snd (mo_store ops ds s) else s)"

definition auto_learn ::
    "agent_env \<Rightarrow> 's agent \<Rightarrow> int \<Rightarrow> string \<Rightarrow> string \<Rightarrow> string \<Rightarrow> string \<Rightarrow> 's \<Rightarrow> 's" where
  "auto_learn env a now query assistant user session s =
     (if ac_store a = None then s
      else case extract_memories env (ac_model a) query assistant of
        Inl _ \<Rightarrow> s
      | Inr rs \<Rightarrow> store_extraction env a now rs user session s)"

definition auto_learn_trace ::
    "agent_env \<Rightarrow> 's agent \<Rightarrow> int \<Rightarrow> string \<Rightarrow> string \<Rightarrow> string \<Rightarrow> string \<Rightarrow> 's \<Rightarrow> 's" where
  "auto_learn_trace env a now query rendered user session s =
     (if ac_store a = None then s
      else case extract_trace env (ac_model a) query rendered of
        Inl _ \<Rightarrow> s
      | Inr rs \<Rightarrow> store_extraction env a now rs user session s)"

definition learn ::
    "agent_env \<Rightarrow> 's agent \<Rightarrow> int \<Rightarrow> trace_step list \<Rightarrow> string \<Rightarrow> string \<Rightarrow> string \<Rightarrow> string \<Rightarrow> 's \<Rightarrow> 's" where
  "learn env a now trace content query user session s =
     (if ac_trace_enabled a then
        (if trace = [] then s
         else let rendered = render_trace (ac_trace a) trace
           in if trim_space rendered = [] then s else auto_learn_trace env a now query rendered user session s)
      else if content = [] then s
      else auto_learn env a now query content user session s)"

definition monitor_run ::
    "agent_env \<Rightarrow> 's agent \<Rightarrow> session_values \<Rightarrow> int \<Rightarrow> run_event option list \<Rightarrow> string \<Rightarrow> string \<Rightarrow> string \<Rightarrow> 's
      \<Rightarrow> run_event list \<times> 's" where
  "monitor_run env a ctx now evs query user session s =
     (let (sent, trace, msgs) = monitor_loop env a evs in
      if \<not> ac_trace_enabled a \<and> msgs = [] then (sent, s)
      else if \<not> ac_auto_extract a then (sent, s)
      else if (case ac_should_extract a of None \<Rightarrow> False | Some f \<Rightarrow> \<not> f ctx) then (sent, s)
      else (sent, learn env a now trace (if ac_trace_enabled a then [] else concat_assistant_content msgs) query user session s))"

definition run_agent ::
    "agent_env \<Rightarrow> 's agent \<Rightarrow> session_values \<Rightarrow> int \<Rightarrow> message list \<Rightarrow> 's \<Rightarrow> run_event list \<times> 's" where
  "run_agent env a ctx now ms s =
     (let (user, session) = resolve_identity ctx a;
          (enriched, query) = (case enrich_input env a ctx user ms s of None \<Rightarrow> (ms, build_query a ms) | Some x \<Rightarrow> x)
      in monitor_run env a ctx now (the (ac_inner a) ctx enriched) query user session s)"

section \<open>The end of a session\<close>

fun compact_groups ::
    "agent_env \<Rightarrow> maintainer option \<Rightarrow> 's memory_ops \<Rightarrow> int \<Rightarrow> (nat \<Rightarrow> string) \<Rightarrow> nat \<Rightarrow> document list list \<Rightarrow> 's \<Rightarrow> 's" where
  "compact_groups env mt ops now mid n [] s = s"
| "compact_groups env mt ops now mid n (g # gs) s =
     (if length g < 2 then compact_groups env mt ops now mid n gs s
      else case mt of
        Some m \<Rightarrow> compact_groups env mt ops now mid (n + 1) gs
                    (snd (merge_group (ae_time env) ops (mt_model m) now (mid n) g s))
      | None \<Rightarrow> compact_groups env mt ops now mid n gs
                    (fold (mo_delete ops) (map dc_id (tl g)) (snd (mo_store ops (take 1 g) s))))"

definition compact_session_memories ::
    "agent_env \<Rightarrow> (string list \<Rightarrow> string list) \<Rightarrow> unicode \<Rightarrow> maintainer option \<Rightarrow> 's memory_ops \<Rightarrow> int \<Rightarrow> (nat \<Rightarrow> string)
      \<Rightarrow> document list \<Rightarrow> 's \<Rightarrow> 's" where
  "compact_session_memories env order u mt ops now mid ds s =
     compact_groups env mt ops now mid 0 (group_by_similarity order u (4 / 5) ds) s"

definition end_session ::
    "agent_env \<Rightarrow> (string list \<Rightarrow> string list) \<Rightarrow> unicode \<Rightarrow> 's agent \<Rightarrow> int \<Rightarrow> (nat \<Rightarrow> string) \<Rightarrow> 's
      \<Rightarrow> (agent_failure + unit) \<times> 's" where
  "end_session env order u a now mid s =
     (case ac_store a of
        None \<Rightarrow> (Inr (), s)
      | Some ops \<Rightarrow>
          (case mo_list ops s of
             None \<Rightarrow> (Inl ListFailed, s)
           | Some ds \<Rightarrow>
               let own = filter (\<lambda>d. en_session (entry_from_document (ae_time env) d) = ac_session a) ds
               in (Inr (), if 2 \<le> length own
                     then compact_session_memories env order u (ag_maintainer a) ops now mid own s else s)))"

section \<open>The probe\<close>

record check_result =
  cr_component :: string
  cr_status :: string
  cr_error :: string
  cr_message :: string

definition check_error :: "string \<Rightarrow> string \<Rightarrow> check_result" where
  "check_error component e = \<lparr>cr_component = component, cr_status = ''error'', cr_error = e, cr_message = []\<rparr>"

definition check_success :: "string \<Rightarrow> string \<Rightarrow> check_result" where
  "check_success component m = \<lparr>cr_component = component, cr_status = ''ok'', cr_error = [], cr_message = m\<rparr>"

text \<open>The count or its error text; the answer to the probe's message, possibly nil, or its error text.\<close>

definition check_memory ::
    "(string + nat) option \<Rightarrow> (string + msg_ptr) option \<Rightarrow> check_result list" where
  "check_memory store model =
     [case store of
        None \<Rightarrow> check_error ''memoryagent_store'' ''MemoryStore is nil''
      | Some (Inl e) \<Rightarrow> check_error ''memoryagent_store'' (''failed to count documents: '' @ e)
      | Some (Inr n) \<Rightarrow> check_success ''memoryagent_store'' (''store ready, '' @ dec_of_nat n @ '' documents''),
      case model of
        None \<Rightarrow> check_error ''memoryagent_model'' ''model is nil''
      | Some (Inl e) \<Rightarrow> check_error ''memoryagent_model'' (''failed to generate response: '' @ e)
      | Some (Inr None) \<Rightarrow> check_error ''memoryagent_model'' ''model returned nil response''
      | Some (Inr (Some _)) \<Rightarrow> check_success ''memoryagent_model'' ''model responded, connectivity ok'']"

definition results_ok :: "check_result list \<Rightarrow> bool" where
  "results_ok rs \<longleftrightarrow> \<not> list_ex (\<lambda>r. cr_status r = ''error'') rs"

end
