(* ===== verification/MemoryAgent_Props.thy ===== *)
theory MemoryAgent_Props
  imports MemoryAgent
begin

text \<open>
  What the memory agent promises: it adds to the input only memories of the user and touches one message,
  sends every event on, stores only what the model is sure of under the user's name, and goes on without
  memories when the store fails. The file store keeps users apart until two of them learn the same thing.
\<close>

section \<open>The input\<close>

lemma inject_loop_done: "inject_loop p c True ms = (ms, True)"
  by (induction ms) simp_all

text \<open>The context goes into the first system message, before its own text, or in a message of its own in
  front; every other message is passed on as it is.\<close>

theorem inject_context_touches_one:
  "inject_context p ms c =
     (case dropWhile (\<lambda>m. msg_role m \<noteq> RSystem) ms of
        [] \<Rightarrow> c # ms
      | m # later \<Rightarrow> takeWhile (\<lambda>m. msg_role m \<noteq> RSystem) ms
          @ m\<lparr>msg_content := augmented_content p (msg_content c) (msg_content m)\<rparr> # later)"
proof -
  have "inject_loop p (msg_content c) False ms =
     (case dropWhile (\<lambda>m. msg_role m \<noteq> RSystem) ms of
        [] \<Rightarrow> (ms, False)
      | m # later \<Rightarrow> (takeWhile (\<lambda>m. msg_role m \<noteq> RSystem) ms
          @ m\<lparr>msg_content := augmented_content p (msg_content c) (msg_content m)\<rparr> # later, True))"
  proof (induction ms)
    case (Cons m ms)
    then show ?case
      by (cases "msg_role m = RSystem"; cases "dropWhile (\<lambda>m. msg_role m \<noteq> RSystem) ms") (simp_all add: inject_loop_done del: dropWhile_eq_Nil_conv)
  qed simp
  then show ?thesis
    by (cases "dropWhile (\<lambda>m. msg_role m \<noteq> RSystem) ms") (simp_all add: inject_context_def del: dropWhile_eq_Nil_conv)
qed

lemma enrich_cases:
  assumes "enrich_input env a ctx user ms s = Some (ms', q)"
  shows "q = build_query a ms \<and> (ms' = ms \<or> (\<exists>ops k found ds. ac_store a = Some ops \<and> mo_retrieve ops q k s = Some found
     \<and> ds \<noteq> [] \<and> set ds \<subseteq> set (if user \<noteq> [] then filter_by_user user found else found)
     \<and> int (length ds) \<le> ac_max_memories a \<and> ms' = inject_context (ac_prefix a) ms (format_memories (ae_time env) ds)))"
proof (cases "ac_store a")
  case None
  then show ?thesis using assms by (auto simp: enrich_input_def)
next
  case (Some ops)
  let ?k = "if 0 < ac_retrieve_top_k a then Some (ac_retrieve_top_k a) else None"
  let ?ds = "\<lambda>found. if user \<noteq> [] then filter_by_user user found else found"
  let ?cut = "\<lambda>ds. if ac_max_memories a < int (length ds) then take (nat (ac_max_memories a)) ds else ds"
  have q: "q = build_query a ms" using assms Some
    by (auto simp: enrich_input_def Let_def split: if_splits option.splits)
  show ?thesis
  proof (cases "ms' = ms")
    case False
    then obtain found where f: "mo_retrieve ops q ?k s = Some found" "?cut (?ds found) \<noteq> []"
      "ms' = inject_context (ac_prefix a) ms (format_memories (ae_time env) (?cut (?ds found)))"
      using assms Some q unfolding enrich_input_def Let_def
      by (simp only: option.case split: if_splits option.splits) (auto split: if_splits)
    have "set (?cut (?ds found)) \<subseteq> set (?ds found)" by (auto dest: in_set_takeD)
    moreover have "int (length (?cut (?ds found))) \<le> ac_max_memories a" using f(2) by (auto split: if_splits)
    ultimately show ?thesis using q Some f by blast
  qed (use q in simp)
qed

text \<open>A scoped agent tells the inner agent, beside the input, only memories the store returned for the query
  that carry the user's id, at most as many as configured.\<close>

theorem enriched_input_scoped:
  assumes "user \<noteq> []" and "enrich_input env a ctx user ms s = Some (ms', q)" and "ms' \<noteq> ms"
  shows "\<exists>ops k found ds. ac_store a = Some ops \<and> mo_retrieve ops q k s = Some found
     \<and> (\<forall>d \<in> set ds. d \<in> set found \<and> dc_meta d ''user_id'' = Some (MStr user))
     \<and> int (length ds) \<le> ac_max_memories a \<and> ms' = inject_context (ac_prefix a) ms (format_memories (ae_time env) ds)"
proof -
  obtain ops k found ds where "ac_store a = Some ops" "mo_retrieve ops q k s = Some found"
    "set ds \<subseteq> set (filter_by_user user found)" "int (length ds) \<le> ac_max_memories a"
    "ms' = inject_context (ac_prefix a) ms (format_memories (ae_time env) ds)"
    using enrich_cases [OF assms(2)] assms(1,3) by auto
  moreover from this(3) have "\<forall>d \<in> set ds. d \<in> set found \<and> dc_meta d ''user_id'' = Some (MStr user)"
    by (auto simp: filter_by_user_def)
  ultimately show ?thesis by blast
qed

section \<open>The run\<close>

lemma monitor_loop_sent: "fst (monitor_loop env a evs) = map the (filter (\<lambda>e. e \<noteq> None) evs)"
  by (induction env a evs rule: monitor_loop.induct) (auto split: prod.splits option.splits)

lemma monitor_run_sent: "fst (monitor_run env a ctx now evs q user session s) = map the (filter (\<lambda>e. e \<noteq> None) evs)"
  using monitor_loop_sent [of env a evs] by (auto simp: monitor_run_def split: prod.splits)

lemma run_forwards_sent:
  "fst (run_agent env a ctx now ms s) =
     map the (filter (\<lambda>e. e \<noteq> None) (the (ac_inner a) ctx
       (case enrich_input env a ctx (fst (resolve_identity ctx a)) ms s of None \<Rightarrow> ms | Some (ms', q) \<Rightarrow> ms')))"
  by (simp add: run_agent_def monitor_run_sent split: prod.splits option.splits)

text \<open>The caller gets every event of the inner agent, in order, whatever is learned from them, and an
  enriched input or, when the store cannot be searched, the input itself is what the inner agent runs on.\<close>

theorem run_forwards_events:
  "fst (run_agent env a ctx now ms s) =
     map the (filter (\<lambda>e. e \<noteq> None) (the (ac_inner a) ctx
       (case enrich_input env a ctx (fst (resolve_identity ctx a)) ms s of None \<Rightarrow> ms | Some (ms', q) \<Rightarrow> ms')))"
  by (rule run_forwards_sent)

definition sure :: "extraction \<Rightarrow> bool" where
  "sure r \<longleftrightarrow> 7 / 10 \<le> xr_confidence r \<and> xr_content r \<noteq> []"

lemma parse_sure: "parse_extraction_response f c = Inr rs \<Longrightarrow> list_all sure rs"
  by (auto simp: parse_extraction_response_def sure_def list_all_iff Let_def split: if_splits option.splits)

lemma extracted_sure:
  "extract_memories env model q c = Inr rs \<Longrightarrow> list_all sure rs" "extract_trace env model q c = Inr rs \<Longrightarrow> list_all sure rs"
  by (auto simp: extract_memories_def extract_trace_def dest!: parse_sure split: option.splits)

lemma learn_cases:
  "learn env a now trace c q user session s = s \<or> (\<exists>rs. list_all sure rs
     \<and> learn env a now trace c q user session s = store_extraction env a now rs user session s)"
  by (auto simp: learn_def auto_learn_def auto_learn_trace_def Let_def dest: extracted_sure split: sum.splits)

lemma monitor_run_store:
  "snd (monitor_run env a ctx now evs q user session s) = s
    \<or> (\<exists>trace c. snd (monitor_run env a ctx now evs q user session s) = learn env a now trace c q user session s)"
  unfolding monitor_run_def by (cases "monitor_loop env a evs") (auto simp: Let_def split: if_split)

lemma run_agent_store:
  assumes "resolve_identity ctx a = (user, session)"
  shows "snd (run_agent env a ctx now ms s) = s \<or> (\<exists>rs. list_all sure rs
     \<and> snd (run_agent env a ctx now ms s) = store_extraction env a now rs user session s)"
proof -
  obtain evs q where r: "run_agent env a ctx now ms s = monitor_run env a ctx now evs q user session s"
    by (cases "case enrich_input env a ctx user ms s of None \<Rightarrow> (ms, build_query a ms) | Some x \<Rightarrow> x")
      (simp add: run_agent_def assms)
  show ?thesis
    using monitor_run_store [of env a ctx now evs q user session s] learn_cases unfolding r by metis
qed

text \<open>C33: What a run leaves in the store: nothing, or memories of non-empty content that the model was sure of,
  under the session and the user of the run.\<close>

theorem learned_memories_tagged:
  assumes "ac_store a = Some ops" and "resolve_identity ctx a = (user, session)" and "user \<noteq> []"
  shows "snd (run_agent env a ctx now ms s) = s \<or>
    (\<exists>ds. snd (run_agent env a ctx now ms s) = snd (mo_store ops ds s) \<and> ds \<noteq> []
      \<and> (\<forall>d \<in> set ds. \<exists>p. dc_meta d ''confidence'' = Some (MNum p) \<and> 7 / 10 \<le> p \<and> dc_content d \<noteq> []
          \<and> dc_meta d ''user_id'' = Some (MStr user) \<and> dc_meta d ''session_id'' = Some (MStr session)))"
proof -
  have tagged: "\<exists>p. dc_meta d ''confidence'' = Some (MNum p) \<and> 7 / 10 \<le> p \<and> dc_content d \<noteq> []
      \<and> dc_meta d ''user_id'' = Some (MStr user) \<and> dc_meta d ''session_id'' = Some (MStr session)"
    if "sure r" "d = extraction_document env now user session r" for d r
    using that assms(3)
    by (simp add: extraction_document_def build_entry_doc_def to_document_def sure_def Let_def)
  show ?thesis
    using run_agent_store [OF assms(2), of env now ms s]
  proof (elim disjE exE conjE)
    fix rs assume rs: "list_all sure rs"
      and r: "snd (run_agent env a ctx now ms s) = store_extraction env a now rs user session s"
    let ?ds = "map (extraction_document env now user session) rs"
    show ?thesis
    proof (cases "rs = []")
      case False
      have "\<forall>d \<in> set ?ds. \<exists>p. dc_meta d ''confidence'' = Some (MNum p) \<and> 7 / 10 \<le> p \<and> dc_content d \<noteq> []
          \<and> dc_meta d ''user_id'' = Some (MStr user) \<and> dc_meta d ''session_id'' = Some (MStr session)"
        using rs tagged by (auto simp only: set_map list_all_iff)
      then show ?thesis using False r assms(1) by (intro disjI2 exI [of _ ?ds]) (simp add: store_extraction_def Let_def)
    qed (use r assms(1) in \<open>simp add: store_extraction_def\<close>)
  qed simp
qed

text \<open>An agent whose store cannot be searched runs on the input as it came and answers all the same.\<close>

theorem retrieve_failure_ignored:
  assumes "ac_store a = Some ops" and "\<And>q k. mo_retrieve ops q k s = None"
  shows "fst (run_agent env a ctx now ms s) = map the (filter (\<lambda>e. e \<noteq> None) (the (ac_inner a) ctx ms))"
proof -
  have "(case enrich_input env a ctx user ms s of None \<Rightarrow> ms | Some (ms', q) \<Rightarrow> ms') = ms" for user
    using assms by (simp add: enrich_input_def Let_def)
  then show ?thesis unfolding run_forwards_sent by simp
qed

section \<open>Users of one file store\<close>

definition unowned :: "string \<Rightarrow> fstore \<Rightarrow> bool" where
  "unowned user s \<longleftrightarrow> (\<forall>e \<in> snd ` set (fs_entries s). en_meta e ''user_id'' \<noteq> Some (MStr user))"

lemma snd_set_update: "snd ` set (AList.update k v xs) \<subseteq> insert v (snd ` set xs)"
  by (induction xs) auto

lemma to_document_user: "dc_meta (to_document tf e) ''user_id'' = en_meta e ''user_id''"
  by (simp add: to_document_def map_add_def split: option.splits)

lemma store_one_unowned:
  assumes "unowned user s" and "dc_meta d ''user_id'' \<noteq> Some (MStr user)"
  shows "unowned user (snd (store_one tf uuid now d s))"
proof -
  obtain e n where e: "stored_entry tf uuid now d (fs_fresh s) = (e, n)" by fastforce
  then have "en_meta e ''user_id'' = dc_meta d ''user_id''"
    by (auto simp: stored_entry_def entry_from_document_def reserved_keys_def Let_def split: if_splits)
  moreover have "v = e \<or> v \<in> snd ` set (fs_entries s)" if "v \<in> snd ` set (AList.update (en_id e) e (fs_entries s))" for v
    using subsetD [OF snd_set_update that] by simp
  moreover have "fs_entries (snd (store_one tf uuid now d s)) = AList.update (en_id e) e (fs_entries s)"
    by (simp add: store_one_def index_entry_def e)
  ultimately show ?thesis using assms unfolding unowned_def by metis
qed

lemma store_loop_unowned:
  "unowned user s \<Longrightarrow> list_all (\<lambda>d. dc_meta d ''user_id'' \<noteq> Some (MStr user)) ds \<Longrightarrow>
    unowned user (snd (store_loop tf uuid now ds s))"
  by (induction ds arbitrary: s) (simp_all add: split_beta store_one_unowned)

lemma retrieved_unowned:
  assumes "unowned user s" and "d \<in> set (retrieve_memories u tf q k s)"
  shows "dc_meta d ''user_id'' \<noteq> Some (MStr user)"
proof -
  have own: "en_meta e ''user_id'' \<noteq> Some (MStr user)" if "map_of (fs_entries s) i = Some e" for i e
    using assms(1) map_of_SomeD [OF that] by (force simp: unowned_def)
  have "dc_meta d ''user_id'' \<noteq> Some (MStr user)" if "d \<in> to_document tf ` set (indexed s (fs_order s))"
    using that own by (auto simp: indexed_def to_document_user)
  moreover have "dc_meta d ''user_id'' \<noteq> Some (MStr user)" if "d \<in> scored_document tf ` set (scored_entries u ts s)" for ts
    using that own by (auto simp: scored_entries_def scored_document_def to_document_user Let_def split: option.splits)
  moreover have "d \<in> to_document tf ` set (indexed s (fs_order s)) \<or> (\<exists>ts. d \<in> scored_document tf ` set (scored_entries u ts s))"
    using assms(2) by (auto simp: retrieve_memories_def Let_def dest!: in_set_takeD split: if_splits) blast+
  ultimately show ?thesis by blast
qed

lemma run_agent_unowned:
  assumes "unowned user s" and "ac_store a = Some (fs_ops u tf uuid t)" and "fst (resolve_identity ctx a) \<noteq> user"
    and "user \<noteq> []"
  shows "unowned user (snd (run_agent env a ctx now ms s))"
proof -
  obtain w session where i: "resolve_identity ctx a = (w, session)" by fastforce
  have "dc_meta (extraction_document env now w session r) ''user_id'' \<noteq> Some (MStr user)" for r
    using assms(3) i by (simp add: extraction_document_def build_entry_doc_def to_document_def Let_def)
  then have "unowned user (store_extraction env a now rs w session s)" for rs
    using assms(1,2) store_loop_unowned [OF assms(1), of "map (extraction_document env now w session) rs" tf uuid t]
    by (auto simp: store_extraction_def fs_ops_def store_docs_def list_all_iff split_beta)
  then show ?thesis using run_agent_store [OF i, of env now ms s] assms(1) by metis
qed

text \<open>C32: After any runs of other users, on agents that share the file store, a user of whom the store holds nothing
  is still told nothing: no memory learned from one user reaches another.\<close>

theorem users_isolated:
  assumes "unowned user s" and "user \<noteq> []"
    and "\<And>a ctx now ms. (a, ctx, now, ms) \<in> set runs \<Longrightarrow>
      (\<exists>t. ac_store a = Some (fs_ops u tf uuid t)) \<and> fst (resolve_identity ctx a) \<noteq> user"
    and "ac_store b = Some (fs_ops u tf uuid t)"
    and "s' = fold (\<lambda>(a, ctx, now, ms) s. snd (run_agent env a ctx now ms s)) runs s"
  shows "enrich_input env b ctx user ms s' = Some (ms, build_query b ms)"
proof -
  have "unowned user s'" using assms(1,3) unfolding assms(5)
  proof (induction runs arbitrary: s)
    case (Cons r runs)
    obtain a c now ms1 where r: "r = (a, c, now, ms1)" by (cases r) auto
    have a: "(\<exists>t. ac_store a = Some (fs_ops u tf uuid t)) \<and> fst (resolve_identity c a) \<noteq> user"
      using Cons.prems(2) [of a c now ms1] by (simp add: r)
    have "unowned user (snd (run_agent env a c now ms1 s))"
      using a run_agent_unowned [OF Cons.prems(1) _ _ assms(2)] by blast
    then have "unowned user (fold (\<lambda>(a, ctx, now, ms) s. snd (run_agent env a ctx now ms s)) runs (snd (run_agent env a c now ms1 s)))"
    proof (rule Cons.IH)
      show "(\<exists>t. ac_store a = Some (fs_ops u tf uuid t)) \<and> fst (resolve_identity ctx a) \<noteq> user"
        if "(a, ctx, now, ms) \<in> set runs" for a ctx now ms
        using Cons.prems(2) [of a ctx now ms] that by simp
    qed
    then show ?case by (simp add: r)
  qed simp
  then have "filter_by_user user (retrieve_memories u tf q k s') = []" for q k
    using retrieved_unowned by (auto simp: filter_by_user_def filter_empty_conv)
  then show ?thesis using assms(2,4) by (simp add: enrich_input_def fs_ops_def Let_def)
qed


section \<open>Examples\<close>

definition demo_env :: agent_env where
  "demo_env = \<lparr>ae_time = unary_time, ae_sha256 = (\<lambda>s. s), ae_extract_system = ''extract'', ae_extract_user = (\<lambda>u a. u @ a),
     ae_trace_system = ''extract'', ae_trace_user = (\<lambda>u a. u @ a), ae_summarize_system = ''sum'', ae_summarize_user = (\<lambda>u a. u @ a),
     ae_dedup_system = ''merge'',
     ae_unmarshal = (\<lambda>_. Some [\<lparr>xr_content = ''use port 8443'', xr_category = ''fact'', xr_source = ''user'', xr_confidence = 9 / 10, xr_scope = []\<rparr>]),
     ae_fields = (\<lambda>_. None), ae_concat = (\<lambda>_. None)\<rparr>"

definition demo_inner :: "session_values \<Rightarrow> message list \<Rightarrow> run_event option list" where
  "demo_inner ctx ms = [Some \<lparr>re_agent = ''i'', re_err = None,
     re_output = Some \<lparr>mo_role = RAssistant, mo_streaming = False, mo_stream = None,
       mo_message = Some (plain_message RAssistant ''done''), ao_tool_name = []\<rparr>\<rparr>]"

definition demo_ops :: "int \<Rightarrow> fstore memory_ops" where
  "demo_ops t = fs_ops ascii_runes unary_time (\<lambda>n. ''u'') t"

definition memory_agent :: "'s memory_ops \<Rightarrow> string \<Rightarrow> 's agent" where
  "memory_agent ops user =
     \<lparr>ac_inner = Some demo_inner, ac_store = Some ops, ac_model = Some (\<lambda>_ _. Some ''[]''), ac_user = user, ac_session = ''s'',
      ac_auto_extract = True, ac_interval = 0, ac_max_age = 0, ac_max_memories = 5, ac_max_query_chars = 0, ac_prefix = [],
      ac_trace_enabled = False,
      ac_trace = \<lparr>tr_max_step_chars = 1500, tr_max_chars = 12000, tr_redact = (\<lambda>s. s), tr_filter = (\<lambda>_. True)\<rparr>,
      ac_terminal_tools = Map.empty, ac_retrieve_top_k = 0, ac_query_filter = None, ac_should_retrieve = None,
      ac_should_extract = None, ag_maintainer = None\<rparr>"

definition no_values :: session_values where "no_values = Map.empty"

definition question :: "message list" where "question = [plain_message RUser ''which port to use'']"

definition demo_run :: "string \<Rightarrow> fstore \<Rightarrow> fstore" where
  "demo_run user s = snd (run_agent demo_env (memory_agent (demo_ops 9) user) no_values 9 question s)"

definition no_memories :: fstore where "no_memories = empty_fstore True None []"

definition told :: "string \<Rightarrow> fstore \<Rightarrow> string list" where
  "told user s = (case enrich_input demo_env (memory_agent (demo_ops 9) user) no_values user question s of
     None \<Rightarrow> [] | Some (ms, q) \<Rightarrow> map msg_content ms)"

lemma demo_resolve: "resolve_identity no_values (memory_agent ops user) = (user, ''s'')"
  by (simp add: resolve_identity_def session_string_def no_values_def memory_agent_def)

lemma demo_enriched:
  "told ''al'' (demo_run ''al'' no_memories) = [context_header @ ''- fact: use port 8443'' @ linefeed, ''which port to use'']"
  by code_simp

text \<open>The id of a memory depends on its text and category alone. When a second user tells the same thing, the
  memory becomes the second user's, and the first one's agent forgets it.\<close>

theorem same_fact_changes_owner:
  "length (told ''al'' (demo_run ''al'' no_memories)) = 2
    \<and> told ''al'' (demo_run ''bo'' (demo_run ''al'' no_memories)) = [''which port to use'']"
  by code_simp

text \<open>A memory learned again in a session is listed twice; without a maintainer the end of the session takes the
  two for similar memories, stores the first again and deletes the other, which has the same id: the memory is lost.\<close>

theorem end_session_forgets:
  "map dc_content (list_memories unary_time 0 0 (demo_run ''al'' (demo_run ''al'' no_memories))) = [''use port 8443'', ''use port 8443'']
    \<and> map dc_content (list_memories unary_time 0 0 (snd (end_session demo_env (\<lambda>cs. cs) ascii_runes (memory_agent (demo_ops 9) ''al'') 9 merged_ids
          (demo_run ''al'' (demo_run ''al'' no_memories))))) = []"
  by code_simp


section \<open>Witnesses\<close>

lemma demo_env_enrich:
  "enrich_input demo_env (memory_agent (demo_ops 9) ''al'') no_values ''al'' question (demo_run ''al'' no_memories) \<noteq> None"
  by (simp add: enrich_input_def memory_agent_def demo_ops_def fs_ops_def Let_def)

theorem enriched_input_scoped_witness:
  "\<exists>(found :: document list) ds. (\<exists>d \<in> set found. dc_meta d ''user_id'' = Some (MStr ''al'')) \<and> length ds \<le> 5
    \<and> told ''al'' (demo_run ''al'' no_memories) = map msg_content (inject_context [] question (format_memories unary_time ds))"
proof -
  let ?a = "memory_agent (demo_ops 9) ''al''"
  obtain ms' q where e: "enrich_input demo_env ?a no_values ''al'' question (demo_run ''al'' no_memories) = Some (ms', q)"
    using demo_env_enrich by fast
  have t: "told ''al'' (demo_run ''al'' no_memories) = map msg_content ms'" by (simp add: told_def e)
  then have l: "length ms' = 2" using arg_cong [OF demo_enriched, of length] by simp
  then have "ms' \<noteq> question" by (auto simp: question_def)
  then obtain found ds where f: "\<forall>d \<in> set ds. d \<in> set found \<and> dc_meta d ''user_id'' = Some (MStr ''al'')"
    "int (length ds) \<le> ac_max_memories ?a" "ms' = inject_context (ac_prefix ?a) question (format_memories (ae_time demo_env) ds)"
    using enriched_input_scoped [OF _ e] by auto
  have "ds \<noteq> []"
  proof
    assume "ds = []"
    then have "map msg_content ms' = map msg_content (inject_context [] question (format_memories unary_time []))"
      using f(3) by (simp add: memory_agent_def demo_env_def)
    moreover have "map msg_content (inject_context [] question (format_memories unary_time [])) = [context_header, ''which port to use'']"
      by code_simp
    moreover have "context_header @ ''- fact: use port 8443'' @ linefeed \<noteq> context_header" by simp
    ultimately show False using t demo_enriched by simp
  qed
  then have "\<exists>d \<in> set found. dc_meta d ''user_id'' = Some (MStr ''al'')" using f(1) by (cases ds) auto
  moreover have "length ds \<le> 5" using f(2) by (simp add: memory_agent_def)
  moreover have "told ''al'' (demo_run ''al'' no_memories) = map msg_content (inject_context [] question (format_memories unary_time ds))"
    using t f(3) by (simp only: memory_agent_def agent_config.simps demo_env_def agent_env.simps)
  ultimately show ?thesis by blast
qed

theorem learned_memories_tagged_witness:
  "\<exists>ds. demo_run ''al'' no_memories = snd (mo_store (demo_ops 9) ds no_memories) \<and> ds \<noteq> []
    \<and> list_all (\<lambda>d. dc_meta d ''user_id'' = Some (MStr ''al'')) ds"
proof -
  have "fs_order (demo_run ''al'' no_memories) \<noteq> fs_order no_memories" by code_simp
  then have "demo_run ''al'' no_memories \<noteq> no_memories" by auto
  moreover have "ac_store (memory_agent (demo_ops 9) ''al'') = Some (demo_ops 9)" by (simp add: memory_agent_def)
  ultimately show ?thesis
    using learned_memories_tagged [of "memory_agent (demo_ops 9) ''al''" "demo_ops 9" no_values "''al''" "''s''" demo_env 9 question no_memories]
    by (auto simp: demo_run_def demo_resolve list_all_iff)
qed

definition broken_ops :: "fstore memory_ops" where
  "broken_ops = (demo_ops 9)\<lparr>mo_retrieve := (\<lambda>q k s. None)\<rparr>"

theorem retrieve_failure_ignored_witness:
  "length (fst (run_agent demo_env (memory_agent broken_ops ''al'') no_values 9 question no_memories)) = 1"
  by (subst retrieve_failure_ignored [of _ broken_ops])
    (simp_all add: memory_agent_def broken_ops_def demo_ops_def fs_ops_def demo_inner_def)

theorem users_isolated_witness:
  "enrich_input demo_env (memory_agent (demo_ops 9) ''bo'') no_values ''bo'' question (demo_run ''al'' no_memories) =
     Some (question, ''which port to use'')"
proof -
  let ?b = "memory_agent (demo_ops 9) ''bo''"
  have "enrich_input demo_env ?b no_values ''bo'' question (demo_run ''al'' no_memories) = Some (question, build_query ?b question)"
    by (rule users_isolated [where runs = "[(memory_agent (demo_ops 9) ''al'', no_values, 9, question)]" and s = no_memories
          and u = ascii_runes and tf = unary_time and uuid = "\<lambda>n. ''u''" and t = 9])
      (auto simp: unowned_def no_memories_def empty_fstore_def demo_run_def demo_resolve, auto simp: memory_agent_def demo_ops_def)
  moreover have "build_query ?b question = ''which port to use''" by code_simp
  ultimately show ?thesis by simp
qed

end
