(* ===== verification/Egress.thy ===== *)
theory Egress
  imports GoText "HOL-Library.Word"
begin

text \<open>
  The egress policy and the CONNECT handler of the proxy that enforces it, \<^verbatim>\<open>libs/toolkit/egress\<close>.

  An address is what \<open>net.IP\<close>'s methods make of it: the IPv4 address when it has one, mapped addresses
  included, or an IPv6 address. Parsing CIDR notation and the case folding of \<open>strings.EqualFold\<close> are
  parameters. The handler looks a name up and then dials it; the dial looks the name up again, so the
  address it reaches is a result of its own.
\<close>

unbundle bit_operations_syntax

section \<open>Addresses\<close>

datatype ip = IP4 "32 word" | IP6 "128 word"

datatype cidr = Net4 "32 word" nat | Net6 "128 word" nat

definition ip4 :: "nat \<Rightarrow> nat \<Rightarrow> nat \<Rightarrow> nat \<Rightarrow> 32 word" where
  "ip4 a b c d = word_of_nat (((a * 256 + b) * 256 + c) * 256 + d)"

definition net_contains :: "cidr \<Rightarrow> ip \<Rightarrow> bool" where
  "net_contains n a =
     (case (n, a) of
        (Net4 base len, IP4 w) \<Rightarrow> drop_bit (32 - len) w = drop_bit (32 - len) base
      | (Net6 base len, IP6 w) \<Rightarrow> drop_bit (128 - len) w = drop_bit (128 - len) base
      | _ \<Rightarrow> False)"

definition rfc1918_blocks :: "cidr list" where
  "rfc1918_blocks = [Net4 (ip4 10 0 0 0) 8, Net4 (ip4 172 16 0 0) 12, Net4 (ip4 192 168 0 0) 16]"

definition link_local_blocks :: "cidr list" where
  "link_local_blocks = [Net4 (ip4 169 254 0 0) 16]"

definition cloud_metadata_ip :: "32 word" where "cloud_metadata_ip = ip4 169 254 169 254"

definition is_rfc1918 :: "ip \<Rightarrow> bool" where
  "is_rfc1918 a \<longleftrightarrow> list_ex (\<lambda>n. net_contains n a) rfc1918_blocks"

definition is_link_local :: "ip \<Rightarrow> bool" where
  "is_link_local a \<longleftrightarrow> list_ex (\<lambda>n. net_contains n a) link_local_blocks"

text \<open>\<open>net.IP.IsLoopback\<close>: the first byte of an IPv4 address is 127, or the address is ::1.\<close>

definition is_loopback :: "ip \<Rightarrow> bool" where
  "is_loopback a = (case a of IP4 w \<Rightarrow> drop_bit 24 w = 127 | IP6 w \<Rightarrow> w = 1)"

section \<open>The policy\<close>

record policy_config =
  pc_allow_hosts :: "string list"
  pc_allow_cidrs :: "string list"
  pc_allow_local :: bool
  pc_default_deny :: bool

record egress_policy = policy_config +
  ep_parsed :: "cidr list"

datatype denial = DeniedRFC1918 | DeniedMetadata | DeniedLinkLocal | DeniedLoopback | NotAllowlisted

fun parse_cidrs :: "(string \<Rightarrow> cidr option) \<Rightarrow> string list \<Rightarrow> string + cidr list" where
  "parse_cidrs parse [] = Inr []"
| "parse_cidrs parse (c # cs) =
     (case parse c of
        None \<Rightarrow> Inl c
      | Some n \<Rightarrow> (case parse_cidrs parse cs of Inl e \<Rightarrow> Inl e | Inr ns \<Rightarrow> Inr (n # ns)))"

definition compile_policy :: "(string \<Rightarrow> cidr option) \<Rightarrow> policy_config \<Rightarrow> string + egress_policy" where
  "compile_policy parse p =
     (case parse_cidrs parse (pc_allow_cidrs p) of
        Inl e \<Rightarrow> Inl e
      | Inr ns \<Rightarrow> Inr (policy_config.extend p \<lparr>ep_parsed = ns\<rparr>))"

definition allows :: "(nat \<Rightarrow> nat) \<Rightarrow> egress_policy \<Rightarrow> string \<Rightarrow> ip \<Rightarrow> denial option" where
  "allows fold_rune p host a =
     (if \<not> pc_default_deny p then None
      else if pc_allow_local p \<and> (is_rfc1918 a \<or> is_link_local a \<or> is_loopback a) then None
      else if \<not> pc_allow_local p \<and> is_rfc1918 a then Some DeniedRFC1918
      else if \<not> pc_allow_local p \<and> is_link_local a
        then Some (if a = IP4 cloud_metadata_ip then DeniedMetadata else DeniedLinkLocal)
      else if \<not> pc_allow_local p \<and> is_loopback a then Some DeniedLoopback
      else if list_ex (equal_fold fold_rune host) (pc_allow_hosts p) then None
      else if list_ex (\<lambda>n. net_contains n a) (ep_parsed p) then None
      else Some NotAllowlisted)"

section \<open>The proxy\<close>

definition new_proxy :: "(string \<Rightarrow> cidr option) \<Rightarrow> policy_config option \<Rightarrow> string + egress_policy" where
  "new_proxy parse pol =
     compile_policy parse
       (case pol of
          None \<Rightarrow> \<lparr>pc_allow_hosts = [], pc_allow_cidrs = [], pc_allow_local = False, pc_default_deny = True\<rparr>
        | Some p \<Rightarrow> p)"

text \<open>The host part of \<open>net.SplitHostPort\<close>.\<close>

definition split_host :: "string \<Rightarrow> string option" where
  "split_host hp =
     (case last_index_byte CHR '':'' hp of
        None \<Rightarrow> None
      | Some i \<Rightarrow>
          (case hp of
             CHR ''['' # rest \<Rightarrow>
               (case index_byte CHR '']'' hp of
                  None \<Rightarrow> None
                | Some e \<Rightarrow>
                    if e + 1 = i \<and> CHR ''['' \<notin> set rest \<and> CHR '']'' \<notin> set (drop (e + 1) hp)
                    then Some (take (e - 1) rest) else None)
           | _ \<Rightarrow>
               if CHR '':'' \<in> set (take i hp) \<or> CHR ''['' \<in> set hp \<or> CHR '']'' \<in> set hp
               then None else Some (take i hp)))"

record connect_request =
  rq_method :: string
  rq_url_host :: string
  rq_host :: string

datatype connect_result = MethodNotAllowed | BadRequest | LookupFailed | Forbidden denial | DialFailed
  | HijackFailed | Connected ip

fun first_denial :: "(nat \<Rightarrow> nat) \<Rightarrow> egress_policy \<Rightarrow> string \<Rightarrow> ip list \<Rightarrow> denial option" where
  "first_denial fold_rune p host [] = None"
| "first_denial fold_rune p host (a # as) =
     (case allows fold_rune p host a of Some d \<Rightarrow> Some d | None \<Rightarrow> first_denial fold_rune p host as)"

definition handle_connect ::
    "(nat \<Rightarrow> nat) \<Rightarrow> (string \<Rightarrow> ip list option) \<Rightarrow> (string \<Rightarrow> ip option) \<Rightarrow> bool \<Rightarrow> egress_policy \<Rightarrow> connect_request \<Rightarrow> connect_result" where
  "handle_connect fold_rune lookup dial hijack p rq =
     (if rq_method rq \<noteq> ''CONNECT'' then MethodNotAllowed
      else
        let dest = (if rq_url_host rq = [] then rq_host rq else rq_url_host rq) in
        if dest = [] then BadRequest
        else
          let host = (case split_host dest of None \<Rightarrow> dest | Some h \<Rightarrow> h) in
          case lookup host of
            None \<Rightarrow> LookupFailed
          | Some ips \<Rightarrow>
              (case first_denial fold_rune p host ips of
                 Some d \<Rightarrow> Forbidden d
               | None \<Rightarrow>
                   (case dial dest of
                      None \<Rightarrow> DialFailed
                    | Some a \<Rightarrow> if hijack then Connected a else HijackFailed)))"

definition env_vars :: "string \<Rightarrow> (string \<times> string) list" where
  "env_vars addr =
     (let url = ''http://'' @ addr
      in [(''HTTP_PROXY'', url), (''HTTPS_PROXY'', url), (''http_proxy'', url), (''https_proxy'', url),
          (''NO_PROXY'', []), (''no_proxy'', [])])"

section \<open>What gets through\<close>

definition local_address :: "ip \<Rightarrow> bool" where
  "local_address a \<longleftrightarrow> is_rfc1918 a \<or> is_link_local a \<or> is_loopback a"

lemma first_denial_None: "first_denial f p host as = None \<longleftrightarrow> list_all (\<lambda>a. allows f p host a = None) as"
  by (induction as) (auto split: option.splits)

lemma allows_strict:
  assumes "pc_default_deny p" and "\<not> pc_allow_local p"
  shows "allows f p host a = None \<longleftrightarrow> \<not> local_address a
    \<and> (list_ex (equal_fold f host) (pc_allow_hosts p) \<or> list_ex (\<lambda>n. net_contains n a) (ep_parsed p))"
  using assms by (auto simp: allows_def local_address_def)


definition strict_policy :: egress_policy where
  "strict_policy = \<lparr>pc_allow_hosts = [''Example.org''], pc_allow_cidrs = [], pc_allow_local = False, pc_default_deny = True,
     ep_parsed = []\<rparr>"

definition ascii_fold :: "nat \<Rightarrow> nat" where
  "ascii_fold r = (if 65 \<le> r \<and> r \<le> 90 then r + 32 else r)"

definition demo_request :: connect_request where
  "demo_request = \<lparr>rq_method = ''CONNECT'', rq_url_host = ''example.org:443'', rq_host = []\<rparr>"

lemma demo_tunnel:
  "handle_connect ascii_fold (\<lambda>h. Some [IP4 (ip4 93 184 216 34)]) (\<lambda>d. Some (IP4 (ip4 93 184 216 34))) True strict_policy demo_request
    = Connected (IP4 (ip4 93 184 216 34))"
  by code_simp


text \<open>Nothing ties the dial to the address that was checked: a name that resolves to a public address for the
  check and to the metadata address for the dial opens a tunnel to the metadata service.\<close>

theorem rebinding_reaches_metadata:
  "handle_connect ascii_fold (\<lambda>h. Some [IP4 (ip4 93 184 216 34)]) (\<lambda>d. Some (IP4 cloud_metadata_ip)) True strict_policy demo_request
    = Connected (IP4 cloud_metadata_ip) \<and> local_address (IP4 cloud_metadata_ip)"
  by code_simp

text \<open>The local network is not forbidden by default: the zero policy allows everything, and a strict one lets an
  allowlisted name through to IPv6 unique local and link-local addresses and to 0.0.0.0, which dials this host.\<close>

theorem local_not_denied:
  "allows ascii_fold \<lparr>pc_allow_hosts = [], pc_allow_cidrs = [], pc_allow_local = False, pc_default_deny = False, ep_parsed = []\<rparr>
      ''db'' (IP4 (ip4 10 0 0 7)) = None
    \<and> list_all (\<lambda>a. allows ascii_fold strict_policy ''example.org'' a = None)
        [IP6 0xFD000000000000000000000000000001, IP6 0xFE800000000000000000000000000001, IP4 0]"
  by code_simp

end
