(* ===== verification/Blocklist.thy ===== *)
theory Blocklist
  imports GoRegex
begin

text \<open>
  The default block list of \<^verbatim>\<open>libs/toolkit/safety/blocklist.go\<close>: its patterns as they are written, and Go's
  package \<open>regexp\<close> as far as they use it: a parser of the syntax, a matcher with word boundaries and the start of the
  text, and what a match is. Everything is over bytes: the patterns are ASCII, and a dot stands between ASCII literals
  only, so that bytes and code points match alike.
\<close>

section \<open>The patterns\<close>

text \<open>A string literal cannot hold a backslash: \<open>!\<close> stands for it.\<close>

definition raw :: "string \<Rightarrow> string" where
  "raw = map (\<lambda>c. if c = CHR ''!'' then CHR 0x5C else c)"

definition default_command_blocklist :: "string list" where
  "default_command_blocklist = map raw
    [''!brm!b'', ''!brmdir!b'', ''!bkill!b'', ''!bkillall!b'', ''!bpkill!b'', ''!bshutdown!b'', ''!breboot!b'',
     ''!bhalt!b'', ''!bpoweroff!b'', ''!bdd!b'', ''!bmkfs!w*'', ''!bmkswap!b'', ''!bmount!b'', ''!bumount!b'',
     ''!bswapon!b'', ''!bswapoff!b'', ''!bchmod!s+.*(--recursive|-R)!s+/'', ''!bchown!s+.*(--recursive|-R)!s+/'',
     ''!bchroot!b'', ''!binsmod!b'', ''!bmodprobe!b'', ''!biptables!b'', ''!bsystemctl!s+stop!b'',
     ''!bsystemctl!s+disable!b'', ''!bsystemctl!s+mask!b'', ''>.*/dev/'', ''!b(?:/usr/bin/|/bin/)?(?:ba|da|z)?sh!b'',
     ''!b(?:/usr/bin/|/bin/)?(?:ba|da|z)?sh!s+-c!b'', ''!b(?:/usr/bin/|/bin/)?python(?:3)?!s+-c!b'',
     ''!b(?:/usr/bin/|/bin/)?python(?:3)?!s+-m!b'', ''!b(?:/usr/bin/|/bin/)?perl!s+-e!b'',
     ''!b(?:/usr/bin/|/bin/)?ruby!s+-e!b'', ''!b(?:/usr/bin/|/bin/)?node!s+-e!b'',
     ''!b(?:/usr/bin/|/bin/)?php!s+-r!b'', ''!b(?:/usr/bin/|/bin/)?env!s+'', ''!b(?:/usr/bin/|/bin/)?busybox!b'',
     ''!b(?:/usr/bin/|/bin/)?toybox!b'', ''!beval!b'', ''!bsource!b'', ''^!s*!.!s+'', ''!bg?awk!b'', ''!bnawk!b'',
     ''!btar!s+.*--to-command'', ''!bxargs!b'', ''!binstall!b'', ''!bcpio!b'', ''!bscreen!b'', ''!btmux!b'',
     ''!bscript!b'', ''!bexpect!b'', ''!btee!b'', ''!b(?:/usr/bin/|/bin/)?execlineb!b'', ''!bopenssl!s+enc!b'']"

section \<open>Regular expressions with boundaries\<close>

datatype cls = Lit char | AnyChar | SpaceChar | WordChar

datatype pat = PEmpty | PCls cls | PSeq pat pat | PAlt pat pat | PStar pat | PBoundary | PStart

fun in_cls :: "cls \<Rightarrow> char \<Rightarrow> bool" where
  "in_cls (Lit d) c \<longleftrightarrow> c = d"
| "in_cls AnyChar c \<longleftrightarrow> c \<noteq> CHR 0x0A"
| "in_cls SpaceChar c \<longleftrightarrow> c \<in> {CHR 0x09, CHR 0x0A, CHR 0x0C, CHR 0x0D, CHR '' ''}"
| "in_cls WordChar c \<longleftrightarrow> is_word_char c"

text \<open>Character classes in brackets, counted repetition and the end of the text are not in the fragment: the parser refuses them. It keeps a stack of open groups: the finished alternatives of each and the reversed sequence being read.\<close>

type_synonym frame = "pat list \<times> pat list"

definition close_frame :: "frame \<Rightarrow> pat" where
  "close_frame fr = (let s = foldl (\<lambda>acc p. if acc = PEmpty then p else PSeq p acc) PEmpty (snd fr) in foldl (\<lambda>acc p. PAlt p acc) s (fst fr))"

definition escaped :: "char \<Rightarrow> pat option" where
  "escaped c =
     (if c = CHR ''b'' then Some PBoundary else if c = CHR ''s'' then Some (PCls SpaceChar)
      else if c = CHR ''w'' then Some (PCls WordChar) else if c = CHR ''.'' then Some (PCls (Lit c)) else None)"

definition repeated :: "char \<Rightarrow> pat \<Rightarrow> pat" where
  "repeated c p = (if c = CHR ''*'' then PStar p else if c = CHR ''+'' then PSeq p (PStar p) else PAlt p PEmpty)"

definition push_atom :: "pat \<Rightarrow> frame list \<Rightarrow> frame list" where
  "push_atom p st = (case st of [] \<Rightarrow> [] | (alts, ps) # rest \<Rightarrow> (alts, p # ps) # rest)"

definition group_body :: "string \<Rightarrow> string" where
  "group_body s = (if prefix [CHR ''?'', CHR '':''] s then drop 2 s else s)"

lemma group_body_length [termination_simp]: "length (group_body s) \<le> length s"
  by (simp add: group_body_def)

function parse_pat :: "string \<Rightarrow> frame list \<Rightarrow> pat option" where
  "parse_pat s st =
     (case s of
        [] \<Rightarrow> (case st of [fr] \<Rightarrow> Some (close_frame fr) | _ \<Rightarrow> None)
      | c # r \<Rightarrow>
          if c = CHR ''('' then parse_pat (group_body r) (([], []) # st)
          else if c = CHR '')'' then (case st of fr # fr' # rest \<Rightarrow> parse_pat r (push_atom (close_frame fr) (fr' # rest)) | _ \<Rightarrow> None)
          else if c = CHR ''|''
            then (case st of (alts, ps) # rest \<Rightarrow> parse_pat r ((close_frame ([], ps) # alts, []) # rest) | [] \<Rightarrow> None)
          else if c \<in> {CHR ''*'', CHR ''+'', CHR ''?''}
            then (case st of (alts, p # ps) # rest \<Rightarrow> parse_pat r ((alts, repeated c p # ps) # rest) | _ \<Rightarrow> None)
          else if c = CHR 0x5C
            then (case r of [] \<Rightarrow> None | d # r1 \<Rightarrow> (case escaped d of None \<Rightarrow> None | Some p \<Rightarrow> parse_pat r1 (push_atom p st)))
          else if c \<in> {CHR ''['', CHR 0x7B, CHR ''$''} then None
          else if c = CHR ''.'' then parse_pat r (push_atom (PCls AnyChar) st)
          else if c = CHR ''^'' then parse_pat r (push_atom PStart st)
          else parse_pat r (push_atom (PCls (Lit c)) st))"
  by pat_completeness auto
termination
  by (relation "measure (\<lambda>(s, st). length s)") (auto simp: less_Suc_eq_le group_body_length)

definition compile_pat :: "string \<Rightarrow> pat option" where
  "compile_pat s = parse_pat s [([], [])]"

text \<open>A position is the byte before it, if any, and the text after it. \<open>ends\<close> lists where a match may end.\<close>

type_synonym position = "char option \<times> string"

definition at_boundary :: "position \<Rightarrow> bool" where
  "at_boundary p \<longleftrightarrow>
     (case fst p of None \<Rightarrow> False | Some c \<Rightarrow> is_word_char c) \<noteq> (case snd p of [] \<Rightarrow> False | c # _ \<Rightarrow> is_word_char c)"

fun star_ends :: "(position \<Rightarrow> position list) \<Rightarrow> string \<Rightarrow> position \<Rightarrow> position list" where
  "star_ends f [] p = [p]"
| "star_ends f (_ # fuel) p =
     p # concat (map (star_ends f fuel) (filter (\<lambda>q. length (snd q) < length (snd p)) (f p)))"

primrec ends :: "pat \<Rightarrow> position \<Rightarrow> position list" where
  "ends PEmpty p = [p]"
| "ends (PCls k) p = (case snd p of [] \<Rightarrow> [] | c # r \<Rightarrow> if in_cls k c then [(Some c, r)] else [])"
| "ends (PSeq a b) p = concat (map (ends b) (ends a p))"
| "ends (PAlt a b) p = ends a p @ ends b p"
| "ends (PStar a) p = star_ends (ends a) (snd p) p"
| "ends PBoundary p = (if at_boundary p then [p] else [])"
| "ends PStart p = (if fst p = None then [p] else [])"

fun search_from :: "pat \<Rightarrow> char option \<Rightarrow> string \<Rightarrow> bool" where
  "search_from r prev [] \<longleftrightarrow> ends r (prev, []) \<noteq> []"
| "search_from r prev (c # s) \<longleftrightarrow> ends r (prev, c # s) \<noteq> [] \<or> search_from r (Some c) s"

definition match_string :: "pat \<Rightarrow> string \<Rightarrow> bool" where
  "match_string r s \<longleftrightarrow> search_from r None s"

definition go_regexp :: "string \<Rightarrow> (string \<Rightarrow> bool) option" where
  "go_regexp s = map_option match_string (compile_pat s)"

section \<open>What a match is\<close>

inductive spans :: "pat \<Rightarrow> position \<Rightarrow> position \<Rightarrow> bool" where
  empty: "spans PEmpty p p"
| cls: "in_cls k c \<Longrightarrow> spans (PCls k) (prev, c # s) (Some c, s)"
| seq: "spans a p q \<Longrightarrow> spans b q r \<Longrightarrow> spans (PSeq a b) p r"
| alt1: "spans a p q \<Longrightarrow> spans (PAlt a b) p q"
| alt2: "spans b p q \<Longrightarrow> spans (PAlt a b) p q"
| star0: "spans (PStar a) p p"
| star1: "spans a p q \<Longrightarrow> spans (PStar a) q r \<Longrightarrow> spans (PStar a) p r"
| boundary: "at_boundary p \<Longrightarrow> spans PBoundary p p"
| start: "spans PStart (None, s) (None, s)"

inductive_cases spansE [elim!]:
  "spans PEmpty p q" "spans (PCls k) p q" "spans (PSeq a b) p q" "spans (PAlt a b) p q" "spans PBoundary p q" "spans PStart p q"


lemma spans_shrinks: "spans r p q \<Longrightarrow> q = p \<or> length (snd q) < length (snd p)"
  by (induction rule: spans.induct) auto

lemma star_ends_sound:
  assumes "\<And>p q. q \<in> set (f p) \<Longrightarrow> spans a p q"
  shows "q \<in> set (star_ends f fuel p) \<Longrightarrow> spans (PStar a) p q"
proof (induction fuel arbitrary: p)
  case (Cons x fuel)
  consider "q = p" | m where "m \<in> set (f p)" "q \<in> set (star_ends f fuel m)"
    using Cons.prems by auto
  then show ?case
  proof cases
    case 2
    from spans.star1 [OF assms [OF 2(1)] Cons.IH [OF 2(2)]] show ?thesis .
  qed (simp add: spans.star0)
qed (simp add: spans.star0)

lemma star_ends_refl [simp]: "p \<in> set (star_ends f fuel p)"
  by (cases fuel) auto

lemma star_ends_complete:
  assumes "\<And>p q. spans a p q \<Longrightarrow> q \<in> set (f p)"
  shows "spans (PStar a) p q \<Longrightarrow> length (snd p) \<le> length fuel \<Longrightarrow> q \<in> set (star_ends f fuel p)"
proof (induction "PStar a" p q arbitrary: fuel rule: spans.induct)
  case (star1 p q r)
  show ?case
  proof (cases "q = p")
    case True
    then show ?thesis using star1 by simp
  next
    case False
    then have q: "length (snd q) < length (snd p)" using spans_shrinks [OF star1(1)] by simp
    then obtain x fuel' where fuel: "fuel = x # fuel'" using star1 by (cases fuel) simp_all
    have "r \<in> set (star_ends f fuel' q)" by (rule star1.hyps(4)) (use star1.prems q fuel in simp_all)
    then show ?thesis using assms [OF star1.hyps(1)] q unfolding fuel
      by (simp del: split_paired_Ex) blast
  qed
qed simp

lemma spans_seq_iff: "spans (PSeq a b) p q \<longleftrightarrow> (\<exists>m. spans a p m \<and> spans b m q)"
  by (blast intro: spans.seq)

lemma spans_alt_iff: "spans (PAlt a b) p q \<longleftrightarrow> spans a p q \<or> spans b p q"
  by (blast intro: spans.alt1 spans.alt2)

lemma ends_iff: "q \<in> set (ends r p) \<longleftrightarrow> spans r p q"
proof (induction r arbitrary: p q)
  case (PStar a)
  note sound = star_ends_sound [of "ends a" a, OF iffD1 [OF PStar]]
  note complete = star_ends_complete [of a "ends a", OF iffD2 [OF PStar]]
  show ?case using sound [of q "snd p" p] complete [of p q "snd p"] by (auto simp del: split_paired_All)
next
  case (PSeq a b)
  have "q \<in> set (ends (PSeq a b) p) \<longleftrightarrow> (\<exists>m. m \<in> set (ends a p) \<and> q \<in> set (ends b m))"
    by (simp add: Bex_def del: split_paired_Ex)
  then show ?case by (simp only: PSeq spans_seq_iff)
next
  case (PAlt a b)
  then show ?case by (simp add: spans_alt_iff)
next
  case (PCls k)
  show ?case by (cases p; cases "snd p") (auto intro: spans.cls)
next
  case PStart
  show ?case by (cases p) (auto intro: spans.start)
qed (auto intro: spans.empty spans.boundary)

lemma ends_nonempty: "ends r p \<noteq> [] \<longleftrightarrow> (\<exists>q. spans r p q)"
  unfolding ends_iff [symmetric] by (cases "ends r p") auto

definition before :: "char option \<Rightarrow> string \<Rightarrow> char option" where
  "before prev pre = (if pre = [] then prev else Some (last pre))"

lemma search_from_iff: "search_from r prev s \<longleftrightarrow> (\<exists>pre post q. s = pre @ post \<and> spans r (before prev pre, post) q)"
proof (induction s arbitrary: prev)
  case Nil
  then show ?case by (simp add: before_def ends_nonempty)
next
  case (Cons c s)
  have "(\<exists>pre post q. c # s = pre @ post \<and> spans r (before prev pre, post) q) \<longleftrightarrow>
      (\<exists>q. spans r (prev, c # s) q) \<or> (\<exists>pre post q. s = pre @ post \<and> spans r (before (Some c) pre, post) q)"
  proof
    assume "\<exists>pre post q. c # s = pre @ post \<and> spans r (before prev pre, post) q"
    then obtain pre post q where m: "c # s = pre @ post" "spans r (before prev pre, post) q" by blast
    show "(\<exists>q. spans r (prev, c # s) q) \<or> (\<exists>pre post q. s = pre @ post \<and> spans r (before (Some c) pre, post) q)"
    proof (cases pre)
      case Nil
      with m have "spans r (prev, c # s) q" by (simp add: before_def)
      then show ?thesis by blast
    next
      case (Cons d pre')
      then have "s = pre' @ post" "before prev pre = before (Some c) pre'" using m(1) by (auto simp: before_def)
      with m(2) show ?thesis by metis
    qed
  next
    assume "(\<exists>q. spans r (prev, c # s) q) \<or> (\<exists>pre post q. s = pre @ post \<and> spans r (before (Some c) pre, post) q)"
    then show "\<exists>pre post q. c # s = pre @ post \<and> spans r (before prev pre, post) q"
    proof
      assume "\<exists>q. spans r (prev, c # s) q"
      moreover have "c # s = [] @ (c # s)" "before prev [] = prev" by (simp_all add: before_def)
      ultimately show ?thesis by metis
    next
      assume "\<exists>pre post q. s = pre @ post \<and> spans r (before (Some c) pre, post) q"
      then obtain pre post q where "s = pre @ post" "spans r (before (Some c) pre, post) q" by blast
      moreover have "before (Some c) pre = before prev (c # pre)" by (simp add: before_def)
      ultimately show ?thesis by (metis append_Cons)
    qed
  qed
  then show ?case using Cons.IH by (simp add: ends_nonempty)
qed

text \<open>\<open>MatchString\<close> finds a match anywhere in the text.\<close>

lemma match_string_iff: "match_string r s \<longleftrightarrow> (\<exists>pre post q. s = pre @ post \<and> spans r (before None pre, post) q)"
  by (simp add: match_string_def search_from_iff)

section \<open>Words\<close>

definition whole_word :: "string \<Rightarrow> string \<Rightarrow> bool" where
  "whole_word w s \<longleftrightarrow>
     (\<exists>pre post. s = pre @ w @ post \<and> (pre = [] \<or> \<not> is_word_char (last pre)) \<and> (post = [] \<or> \<not> is_word_char (hd post)))"

definition lits :: "string \<Rightarrow> pat" where
  "lits w = foldr (\<lambda>c p. PSeq (PCls (Lit c)) p) w PBoundary"

definition word_pat :: "string \<Rightarrow> pat" where
  "word_pat w = PSeq PBoundary (lits w)"

lemma spans_lits: "spans (lits w) (prev, s) q \<longleftrightarrow> (\<exists>t. s = w @ t \<and> q = (before prev w, t) \<and> at_boundary q)"
proof (induction w arbitrary: prev s)
  case Nil
  then show ?case by (auto simp: lits_def before_def intro: spans.intros)
next
  case (Cons c w)
  have "spans (lits (c # w)) (prev, s) q \<longleftrightarrow> (\<exists>s'. s = c # s' \<and> spans (lits w) (Some c, s') q)"
    by (force simp: lits_def intro: spans.seq spans.cls)
  then show ?case using Cons.IH by (auto simp: before_def)
qed

lemma word_pat_iff:
  assumes "w \<noteq> []" and "list_all is_word_char w"
  shows "match_string (word_pat w) s \<longleftrightarrow> whole_word w s"
proof -
  have w: "is_word_char (last w)" "is_word_char (hd w)"
    using assms by (auto simp: list_all_iff)
  have edge: "at_boundary (before None pre, w @ t) \<longleftrightarrow> pre = [] \<or> \<not> is_word_char (last pre)" for pre t
    using w assms(1) by (cases w) (auto simp: at_boundary_def before_def)
  have edge': "at_boundary (Some (last w), t) \<longleftrightarrow> t = [] \<or> \<not> is_word_char (hd t)" for t
    using w by (cases t) (auto simp: at_boundary_def)
  have "(\<exists>q. spans (word_pat w) (before None pre, post) q) \<longleftrightarrow>
      (\<exists>t. post = w @ t \<and> (pre = [] \<or> \<not> is_word_char (last pre)) \<and> (t = [] \<or> \<not> is_word_char (hd t)))" for pre post
  proof -
    have "(\<exists>q. spans (word_pat w) (before None pre, post) q) \<longleftrightarrow>
        at_boundary (before None pre, post) \<and> (\<exists>t. post = w @ t \<and> at_boundary (Some (last w), t))"
      using assms(1) by (auto simp: word_pat_def spans_lits before_def spans_seq_iff intro: spans.boundary split: if_splits)
    then show ?thesis using edge edge' by auto
  qed
  then show ?thesis by (auto simp: match_string_iff whole_word_def)
qed

text \<open>The commands the list names by a word.\<close>

definition blocked_words :: "string list" where
  "blocked_words =
    [''rm'', ''rmdir'', ''kill'', ''killall'', ''pkill'', ''shutdown'', ''reboot'', ''halt'', ''poweroff'', ''dd'',
     ''mkswap'', ''mount'', ''umount'', ''swapon'', ''swapoff'', ''chroot'', ''insmod'', ''modprobe'', ''iptables'',
     ''eval'', ''source'', ''nawk'', ''xargs'', ''install'', ''cpio'', ''screen'', ''tmux'', ''script'', ''expect'',
     ''tee'']"

lemma blocked_words_compiled:
  "list_all (\<lambda>w. w \<noteq> [] \<and> list_all is_word_char w \<and> list_ex (\<lambda>s. compile_pat s = Some (word_pat w)) default_command_blocklist) blocked_words"
  by code_simp

lemma default_blocklist_compiles: "list_all (\<lambda>s. compile_pat s \<noteq> None) default_command_blocklist"
  by code_simp


lemma default_regexps_compile: "list_all (\<lambda>s. \<exists>m. go_regexp s = Some m) default_command_blocklist"
  using default_blocklist_compiles by (simp add: list_all_iff go_regexp_def)

lemma blocked_word_matches:
  assumes "w \<in> set blocked_words"
  obtains s where "s \<in> set default_command_blocklist" "go_regexp s = Some (match_string (word_pat w))"
    "\<And>t. match_string (word_pat w) t \<longleftrightarrow> whole_word w t"
  using assms blocked_words_compiled word_pat_iff [of w] by (auto simp: list_all_iff list_ex_iff go_regexp_def)

text \<open>The pattern for a recursive change of mode wants the directory right after the option, so it does not see the
  usual form of the command, where the mode comes between.\<close>

theorem chmod_recursive_passes:
  "list_all (\<lambda>s. case go_regexp s of None \<Rightarrow> False | Some m \<Rightarrow> \<not> m ''chmod -R 777 /'') default_command_blocklist
   \<and> list_ex (\<lambda>s. case go_regexp s of None \<Rightarrow> False | Some m \<Rightarrow> m ''chmod 777 -R /'') default_command_blocklist"
  by code_simp

end
