(* ===== verification/Shell.thy ===== *)
theory Shell
  imports FileMemory Safety Egress Blocklist
begin

text \<open>
  The sandboxed shell: project profiles (\<^verbatim>\<open>libs/toolkit/profile\<close>), containers
  (\<^verbatim>\<open>libs/toolkit/dagger/container.go\<close>, \<^verbatim>\<open>cache.go\<close>), sessions and the tool
  (\<^verbatim>\<open>components/tool/shell\<close>).

  A Dagger container is lazy: it is its image, its mounts and the commands to run in it, in order. Running it
  is the engine, a parameter: whether a container completes within a time limit, and the output of the last
  command of one that did. The map from marker files to profiles is ranged over in any order. Regular
  expressions, durations, \<open>%q\<close> and SHA-256 are parameters.
\<close>

section \<open>Profiles\<close>

record profile =
  pf_name :: string
  pf_image :: string
  pf_prompt :: string
  pf_install :: "string list"
  pf_presets :: "string list"
  pf_env :: "(string \<times> string) list"

definition default_image_map :: "string \<Rightarrow> string option" where
  "default_image_map = map_of [(''golang'', ''golang:1.22''), (''node'', ''node:20''), (''python'', ''python:3.12''),
     (''java'', ''eclipse-temurin:21''), (''rust'', ''rust:1.82''), (''php'', ''php:8.3'')]"

definition marker_to_profile :: "(string \<times> string) list" where
  "marker_to_profile = [(''go.mod'', ''golang''), (''package.json'', ''node''), (''pyproject.toml'', ''python''),
     (''requirements.txt'', ''python''), (''setup.py'', ''python''), (''pom.xml'', ''java''), (''build.gradle'', ''java''),
     (''build.gradle.kts'', ''java''), (''Cargo.toml'', ''rust''), (''composer.json'', ''php'')]"

text \<open>The table of a resolver and the shared default table: a new resolver's table is the shared one, so overrides
  go into both.\<close>

definition with_image_overrides :: "(string \<times> string) list \<Rightarrow> (string \<Rightarrow> string option) \<Rightarrow> string \<Rightarrow> string option" where
  "with_image_overrides m shared = fold (\<lambda>(k, v) t. t(k \<mapsto> v)) m shared"

definition bt :: "string \<Rightarrow> string" where "bt s = ''`'' @ s @ ''`''"

definition build_system_prompt :: "string \<Rightarrow> string \<Rightarrow> string" where
  "build_system_prompt name marker =
     ''You are using a shell sandbox backed by a '' @ name @ '' development container ('' @ marker @ '' detected).''
     @ [newline, newline] @ ''The container has the '' @ name @ '' toolchain pre-installed. You can run ''
     @ (if name = ''golang'' then bt ''go build'' @ '', '' @ bt ''go test'' @ '', '' @ bt ''go mod tidy'' @ '', and other Go commands directly.''
        else if name = ''node'' then bt ''npm install'' @ '', '' @ bt ''npm test'' @ '', '' @ bt ''npm run build'' @ '', and other Node.js commands directly.''
        else if name = ''python'' then bt ''pip install'' @ '', '' @ bt ''python'' @ '', '' @ bt ''pytest'' @ '', and other Python commands directly.''
        else if name = ''java'' then bt ''mvn test'' @ '', '' @ bt ''mvn package'' @ '', '' @ bt ''gradle build'' @ '', and other Java commands directly.''
        else if name = ''rust'' then bt ''cargo build'' @ '', '' @ bt ''cargo test'' @ '', '' @ bt ''rustc'' @ '', and other Rust commands directly.''
        else if name = ''php'' then bt ''composer install'' @ '', '' @ bt ''php vendor/bin/phpunit'' @ '', and other PHP commands directly.''
        else [])
     @ '' You can also install additional system packages as root with apt-get.''"

definition apt_install :: "string list" where
  "apt_install = [''apt-get'', ''update'', ''&&'', ''apt-get'', ''install'', ''-y'']"

definition build_profile :: "string \<Rightarrow> string \<Rightarrow> string \<Rightarrow> profile" where
  "build_profile name img marker =
     (let p = \<lparr>pf_name = name, pf_image = img, pf_prompt = build_system_prompt name marker, pf_install = [],
               pf_presets = [], pf_env = []\<rparr>
      in if name = ''golang'' then p\<lparr>pf_presets := [''go'', ''gofmt'', ''dlv''], pf_install := apt_install\<rparr>
         else if name = ''node'' then p\<lparr>pf_presets := [''npm'', ''npx'', ''node''], pf_install := apt_install,
                                          pf_env := [(''NODE_ENV'', ''development'')]\<rparr>
         else if name = ''python'' then p\<lparr>pf_presets := [''python3'', ''pip'', ''pip3''], pf_install := apt_install\<rparr>
         else if name = ''java'' then p\<lparr>pf_presets := [''java'', ''javac'', ''mvn'', ''gradle''], pf_install := apt_install\<rparr>
         else if name = ''rust'' then p\<lparr>pf_presets := [''rustc'', ''cargo'', ''rustup''], pf_install := apt_install\<rparr>
         else if name = ''php'' then p\<lparr>pf_presets := [''php'', ''composer''], pf_install := apt_install\<rparr>
         else p)"

definition build_default_profile :: profile where
  "build_default_profile =
     \<lparr>pf_name = ''default'', pf_image = ''alpine:3.20'',
      pf_prompt = ''You are using a shell sandbox backed by Alpine Linux. You can install additional tools with '' @ bt ''apk add'' @ ''.'',
      pf_install = [''apk'', ''add''], pf_presets = [], pf_env = []\<rparr>"

fun detect_profiles ::
    "(string \<Rightarrow> bool) \<Rightarrow> (string \<Rightarrow> string option) \<Rightarrow> string \<Rightarrow> (string \<times> string) list \<Rightarrow> string list \<Rightarrow> profile list" where
  "detect_profiles stat images workdir [] seen = []"
| "detect_profiles stat images workdir ((marker, name) # ms) seen =
     (if stat (path_join workdir marker) \<and> name \<notin> set seen
      then
        let img = (case images name of Some i \<Rightarrow> i | None \<Rightarrow> (case default_image_map name of Some i \<Rightarrow> i | None \<Rightarrow> []))
        in build_profile name img marker # detect_profiles stat images workdir ms (name # seen)
      else detect_profiles stat images workdir ms seen)"

record host =
  ho_stat :: "string \<Rightarrow> bool"
  ho_order :: "(string \<times> string) list \<Rightarrow> (string \<times> string) list"
  ho_images :: "string \<Rightarrow> string option"

definition resolve_profiles :: "host \<Rightarrow> string \<Rightarrow> profile list option" where
  "resolve_profiles h workdir =
     (if workdir = [] then None
      else
        let ps = detect_profiles (ho_stat h) (ho_images h) workdir (ho_order h marker_to_profile) []
        in Some (if ps = [] then [build_default_profile] else ps))"

section \<open>Containers\<close>

record container_config =
  cc_workdir :: string
  cc_caches :: "(string \<times> string) list"
  cc_egress :: "policy_config option"
  cc_user :: string
  cc_registry :: "(string \<times> string \<times> string) list"

record container =
  co_image :: string
  co_registry :: "(string \<times> string \<times> string) list"
  co_caches :: "(string \<times> string) list"
  co_mount :: "string option"
  co_user :: "string option"
  co_execs :: "(string list \<times> string) list"

definition no_options :: container_config where
  "no_options = \<lparr>cc_workdir = [], cc_caches = [], cc_egress = None, cc_user = [], cc_registry = []\<rparr>"

definition with_workdir :: "string \<Rightarrow> container_config \<Rightarrow> container_config" where
  "with_workdir w c = c\<lparr>cc_workdir := w\<rparr>"

definition with_cache_volume :: "string \<Rightarrow> string \<Rightarrow> container_config \<Rightarrow> container_config" where
  "with_cache_volume path key c = c\<lparr>cc_caches := AList.update path key (cc_caches c)\<rparr>"

definition with_egress_policy :: "policy_config option \<Rightarrow> container_config \<Rightarrow> container_config" where
  "with_egress_policy p c = c\<lparr>cc_egress := p\<rparr>"

definition with_user :: "string \<Rightarrow> container_config \<Rightarrow> container_config" where
  "with_user u c = c\<lparr>cc_user := u\<rparr>"

definition with_registry_auth :: "(string \<times> string \<times> string) list \<Rightarrow> container_config \<Rightarrow> container_config" where
  "with_registry_auth a c = c\<lparr>cc_registry := a\<rparr>"

definition build_container :: "bool \<Rightarrow> string \<Rightarrow> (container_config \<Rightarrow> container_config) list \<Rightarrow> container option" where
  "build_container connected img opts =
     (if \<not> connected then None
      else
        let cc = fold (\<lambda>opt c. opt c) opts no_options
        in Some \<lparr>co_image = img, co_registry = cc_registry cc, co_caches = cc_caches cc,
                 co_mount = (if cc_workdir cc \<noteq> [] then Some (cc_workdir cc) else None),
                 co_user = (if cc_user cc \<noteq> [] then Some (cc_user cc) else None), co_execs = []\<rparr>)"

definition cache_key_for_profile :: "(string \<Rightarrow> string) \<Rightarrow> string \<Rightarrow> string \<Rightarrow> string" where
  "cache_key_for_profile sha_hex img name = take 48 (''shell-'' @ sha_hex (img @ [CHR 0x00] @ name))"

section \<open>The tool\<close>

record engine =
  en_connected :: bool
  en_sync :: "int \<Rightarrow> container \<Rightarrow> bool"
  en_stdout :: "container \<Rightarrow> string option"
  en_stderr :: "container \<Rightarrow> string option"
  en_exit :: "container \<Rightarrow> int option"
  en_sha_hex :: "string \<Rightarrow> string"
  en_regexp :: "string \<Rightarrow> (string \<Rightarrow> bool) option"
  en_duration :: "string \<Rightarrow> int option"
  en_quote :: "string \<Rightarrow> string"

record shell_config =
  sh_base_image :: string
  sh_profiles :: "string \<Rightarrow> string option"
  sh_workdir :: string
  sh_network :: "policy_config option"
  sh_cache_key :: string
  sh_registry :: "(string \<times> string \<times> string) list"
  sh_blocklist :: "string list"
  sh_timeout :: int

record shell_params =
  sp_command :: "string list"
  sp_stdin :: string
  sp_profile :: string
  sp_dry_run :: bool
  sp_filter :: string
  sp_timeout :: string

record raw_params =
  rp_command :: "string list"
  rp_profile :: string
  rp_stdin :: string
  rp_timeout :: int

datatype shell_error = SInvalid | SBlocked safety_error | SProfile | SFilter | SContainer | SSync | SOutput | SPattern

type_synonym sessions = "(string \<times> string) \<Rightarrow> container option"

record shell_tool =
  st_cfg :: shell_config
  st_blocklist :: "(string \<Rightarrow> bool) list"

definition default_exec_timeout :: int where "default_exec_timeout = 5 * 60 * 10 ^ 9"

fun compile_blocklist :: "(string \<Rightarrow> (string \<Rightarrow> bool) option) \<Rightarrow> string list \<Rightarrow> (string \<Rightarrow> bool) list option" where
  "compile_blocklist re [] = Some []"
| "compile_blocklist re (p # ps) =
     (case re p of None \<Rightarrow> None
      | Some m \<Rightarrow> (case compile_blocklist re ps of None \<Rightarrow> None | Some ms \<Rightarrow> Some (m # ms)))"

definition new_shell_tool :: "engine \<Rightarrow> shell_config \<Rightarrow> shell_error + shell_tool" where
  "new_shell_tool en cfg =
     (let cfg1 = (if sh_timeout cfg = 0 then cfg\<lparr>sh_timeout := default_exec_timeout\<rparr> else cfg) in
      if sh_workdir cfg1 = [] then Inl SInvalid
      else
        case compile_blocklist (en_regexp en) (if sh_blocklist cfg1 \<noteq> [] then sh_blocklist cfg1 else default_command_blocklist) of
          None \<Rightarrow> Inl SPattern
        | Some bl \<Rightarrow> if \<not> en_connected en then Inl SContainer else Inr \<lparr>st_cfg = cfg1, st_blocklist = bl\<rparr>)"

definition resolve_image :: "host \<Rightarrow> shell_config \<Rightarrow> string \<Rightarrow> string option" where
  "resolve_image h cfg name =
     (case sh_profiles cfg name of
        Some img \<Rightarrow> Some img
      | None \<Rightarrow>
          (case resolve_profiles h (sh_workdir cfg) of
             None \<Rightarrow> None
           | Some ps \<Rightarrow>
               (case find (\<lambda>p. pf_name p = name) ps of
                  Some p \<Rightarrow> Some (pf_image p)
                | None \<Rightarrow> Some (if sh_base_image cfg \<noteq> [] then sh_base_image cfg else ''alpine:3.20''))))"

definition resolve_profile :: "host \<Rightarrow> shell_config \<Rightarrow> string \<Rightarrow> (string \<times> string) option" where
  "resolve_profile h cfg name =
     (case (if name \<noteq> [] then Some name
            else case resolve_profiles h (sh_workdir cfg) of
              None \<Rightarrow> None
            | Some ps \<Rightarrow> Some (case ps of [] \<Rightarrow> ''default'' | p # _ \<Rightarrow> pf_name p)) of
        None \<Rightarrow> None
      | Some n \<Rightarrow> (case resolve_image h cfg n of None \<Rightarrow> None | Some img \<Rightarrow> Some (n, img)))"

definition get_timeout :: "engine \<Rightarrow> shell_config \<Rightarrow> string \<Rightarrow> int" where
  "get_timeout en cfg t =
     (let fallback = (if 0 < sh_timeout cfg then sh_timeout cfg else default_exec_timeout)
      in if t \<noteq> [] then (case en_duration en t of Some d \<Rightarrow> d | None \<Rightarrow> fallback) else fallback)"

definition shell_dry_run_preview :: "engine \<Rightarrow> shell_params \<Rightarrow> string" where
  "shell_dry_run_preview en p =
     [CHR 0x7B, CHR 0x22] @ ''dryRun'' @ [CHR 0x22] @ '': true, '' @ [CHR 0x22] @ ''command'' @ [CHR 0x22] @ '': ''
     @ ''['' @ join '' '' (sp_command p) @ ''], '' @ [CHR 0x22] @ ''profile'' @ [CHR 0x22] @ '': ''
     @ en_quote en (if sp_profile p = [] then ''(auto-detect)'' else sp_profile p) @ [CHR 0x7D]"

definition session_container :: "engine \<Rightarrow> shell_config \<Rightarrow> string \<times> string \<Rightarrow> container option" where
  "session_container en cfg key =
     (let cache = (if sh_cache_key cfg = [] then cache_key_for_profile (en_sha_hex en) (snd key) (fst key) else sh_cache_key cfg);
          opts = [with_workdir (sh_workdir cfg), with_cache_volume ''/var/cache/apt'' (cache @ ''-apt''),
                  with_cache_volume ''/var/lib/apt'' (cache @ ''-apt-lib'')]
            @ (case sh_network cfg of None \<Rightarrow> [] | Some p \<Rightarrow> [with_egress_policy (Some p)])
            @ (if sh_registry cfg \<noteq> [] then [with_registry_auth (sh_registry cfg)] else [])
      in build_container (en_connected en) (snd key) opts)"

definition get_or_create :: "engine \<Rightarrow> shell_config \<Rightarrow> string \<times> string \<Rightarrow> sessions \<Rightarrow> container option \<times> sessions" where
  "get_or_create en cfg key ss =
     (case ss key of
        Some c \<Rightarrow> (Some c, ss)
      | None \<Rightarrow>
          (case session_container en cfg key of None \<Rightarrow> (None, ss) | Some c \<Rightarrow> (Some c, ss(key \<mapsto> c))))"

text \<open>The session keeps the container with the new command, whether it completes or not.\<close>

definition session_exec ::
    "engine \<Rightarrow> int \<Rightarrow> string list \<Rightarrow> string \<Rightarrow> container \<Rightarrow> (shell_error + string \<times> string \<times> int) \<times> container" where
  "session_exec en limit command stdin c =
     (let c1 = c\<lparr>co_execs := co_execs c @ [(command, stdin)]\<rparr> in
      if \<not> en_sync en limit c1 then (Inl SSync, c1)
      else case en_stdout en c1 of
        None \<Rightarrow> (Inl SOutput, c1)
      | Some out \<Rightarrow>
          (case en_stderr en c1 of
             None \<Rightarrow> (Inl SOutput, c1)
           | Some err \<Rightarrow> (case en_exit en c1 of None \<Rightarrow> (Inl SOutput, c1) | Some code \<Rightarrow> (Inr (out, err, code), c1))))"

definition run_in_session ::
    "engine \<Rightarrow> shell_config \<Rightarrow> string \<times> string \<Rightarrow> int \<Rightarrow> string list \<Rightarrow> string \<Rightarrow> sessions
      \<Rightarrow> (shell_error + string \<times> string \<times> int) \<times> sessions" where
  "run_in_session en cfg key limit command stdin ss =
     (case get_or_create en cfg key ss of
        (None, ss1) \<Rightarrow> (Inl SContainer, ss1)
      | (Some c, ss1) \<Rightarrow> (let (r, c1) = session_exec en limit command stdin c in (r, ss1(key \<mapsto> c1))))"

text \<open>\<open>filter.Compile\<close>: no pattern is no filter.\<close>

definition filter_compile :: "engine \<Rightarrow> string \<Rightarrow> (string \<Rightarrow> bool) option option" where
  "filter_compile en pat = (if pat = [] then Some None else map_option Some (en_regexp en pat))"

text \<open>The lines a \<open>bufio.Scanner\<close> delivers before one that does not fit its buffer.\<close>

definition scan_text :: "nat \<Rightarrow> string \<Rightarrow> string list" where
  "scan_text limit data = map drop_cr (takeWhile (\<lambda>l. length l < limit) (scan_lines data))"

definition dec_of_int :: "int \<Rightarrow> string" where
  "dec_of_int n = (if n < 0 then ''-'' @ dec_of_nat (nat (- n)) else dec_of_nat (nat n))"

definition exit_line :: "int \<Rightarrow> string" where "exit_line code = ''[exit code: '' @ dec_of_int code @ '']''"

definition kept_lines :: "(string \<Rightarrow> bool) option \<Rightarrow> string \<Rightarrow> string list" where
  "kept_lines re out = filter (\<lambda>l. case re of None \<Rightarrow> True | Some m \<Rightarrow> m l) (scan_text max_scan_token out)"

definition invoke_output :: "(string \<Rightarrow> bool) option \<Rightarrow> string \<times> string \<times> int \<Rightarrow> string" where
  "invoke_output re r =
     (let (out, err, code) = r in
      join [newline] (kept_lines re out
        @ (if err \<noteq> [] then (if code \<noteq> 0 then [exit_line code] else []) @ [err]
           else if code \<noteq> 0 then [exit_line code] else [])))"

definition stream_output :: "(string \<Rightarrow> bool) option \<Rightarrow> string \<times> string \<times> int \<Rightarrow> string list" where
  "stream_output re r =
     (let (out, err, code) = r in
      kept_lines re out @ (if err \<noteq> [] then scan_text max_scan_token err else []) @ (if code \<noteq> 0 then [exit_line code] else []))"

text \<open>The steps \<open>Invoke\<close> and \<open>InvokeAsStream\<close> share, up to the rendering of the output.\<close>

definition shell_call ::
    "engine \<Rightarrow> host \<Rightarrow> shell_tool \<Rightarrow> (string \<Rightarrow> 'r) \<Rightarrow> ((string \<Rightarrow> bool) option \<Rightarrow> string \<times> string \<times> int \<Rightarrow> 'r)
      \<Rightarrow> shell_params \<Rightarrow> sessions \<Rightarrow> (shell_error + 'r) \<times> sessions" where
  "shell_call en h t preview render p ss =
     (if sp_command p = [] then (Inl SInvalid, ss)
      else case check_blocklist (st_blocklist t) (sp_command p) of
        Some e \<Rightarrow> (Inl (SBlocked e), ss)
      | None \<Rightarrow>
          if sp_dry_run p then (Inr (preview (shell_dry_run_preview en p)), ss)
          else case resolve_profile h (st_cfg t) (sp_profile p) of
            None \<Rightarrow> (Inl SProfile, ss)
          | Some key \<Rightarrow>
              (case filter_compile en (sp_filter p) of
                 None \<Rightarrow> (Inl SFilter, ss)
               | Some re \<Rightarrow>
                   (case run_in_session en (st_cfg t) key (get_timeout en (st_cfg t) (sp_timeout p)) (sp_command p) (sp_stdin p) ss of
                      (Inl e, ss1) \<Rightarrow> (Inl e, ss1)
                    | (Inr r, ss1) \<Rightarrow> (Inr (render re r), ss1))))"

definition shell_invoke :: "engine \<Rightarrow> host \<Rightarrow> shell_tool \<Rightarrow> shell_params \<Rightarrow> sessions \<Rightarrow> (shell_error + string) \<times> sessions" where
  "shell_invoke en h t = shell_call en h t (\<lambda>s. s) invoke_output"

definition shell_stream :: "engine \<Rightarrow> host \<Rightarrow> shell_tool \<Rightarrow> shell_params \<Rightarrow> sessions \<Rightarrow> (shell_error + string list) \<times> sessions" where
  "shell_stream en h t = shell_call en h t (\<lambda>s. [s]) stream_output"

definition raw_exec ::
    "engine \<Rightarrow> host \<Rightarrow> shell_tool \<Rightarrow> raw_params \<Rightarrow> sessions \<Rightarrow> (shell_error + string \<times> string \<times> int) \<times> sessions" where
  "raw_exec en h t p ss =
     (if rp_command p = [] then (Inl SInvalid, ss)
      else case check_blocklist (st_blocklist t) (rp_command p) of
        Some e \<Rightarrow> (Inl (SBlocked e), ss)
      | None \<Rightarrow>
          (case resolve_profile h (st_cfg t) (rp_profile p) of
             None \<Rightarrow> (Inl SProfile, ss)
           | Some key \<Rightarrow>
               run_in_session en (st_cfg t) key
                 (if 0 < rp_timeout p then rp_timeout p
                  else if 0 < sh_timeout (st_cfg t) then sh_timeout (st_cfg t) else default_exec_timeout)
                 (rp_command p) (rp_stdin p) ss))"

fun tools_for_profiles :: "engine \<Rightarrow> shell_config \<Rightarrow> profile list \<Rightarrow> shell_error + (string \<times> shell_tool) list" where
  "tools_for_profiles en cfg [] = Inr []"
| "tools_for_profiles en cfg (p # ps) =
     (case new_shell_tool en (cfg\<lparr>sh_base_image := pf_image p\<rparr>) of
        Inl e \<Rightarrow> Inl e
      | Inr t \<Rightarrow> (case tools_for_profiles en cfg ps of Inl e \<Rightarrow> Inl e | Inr ts \<Rightarrow> Inr ((pf_name p, t) # ts)))"

definition new_shell_tools_for_profiles ::
    "engine \<Rightarrow> host \<Rightarrow> shell_config \<Rightarrow> shell_error + (string \<times> shell_tool) list" where
  "new_shell_tools_for_profiles en h cfg =
     (case resolve_profiles h (sh_workdir cfg) of None \<Rightarrow> Inl SProfile | Some ps \<Rightarrow> tools_for_profiles en cfg ps)"

end
