(* ===== verification/Shell_Props.thy ===== *)
theory Shell_Props
  imports Shell
begin

text \<open>
  Facts about the sandboxed shell: the commands of every session have passed the block list, whichever way they
  came in. And where the shell departs from its configuration: network policy, base image, block list, long lines,
  commands that did not complete.
\<close>

section \<open>Every command is checked\<close>

lemma check_blocklist_None: "check_blocklist bl cmd = None \<longleftrightarrow> list_all (\<lambda>p. \<not> p (join '' '' cmd)) bl"
  using first_match_None [of 0 bl "join '' '' cmd"]
  by (cases "first_match 0 bl (join '' '' cmd)") (auto simp: check_blocklist_def list_all_iff)

definition checked_sessions :: "(string \<Rightarrow> bool) list \<Rightarrow> sessions \<Rightarrow> bool" where
  "checked_sessions bl ss \<longleftrightarrow>
     (\<forall>key c. ss key = Some c \<longrightarrow> list_all (\<lambda>(cmd, stdin). check_blocklist bl cmd = None) (co_execs c))"

lemma checked_empty [simp]: "checked_sessions bl Map.empty"
  by (simp add: checked_sessions_def)

lemma build_container_execs: "build_container b img opts = Some c \<Longrightarrow> co_execs c = []"
  by (auto simp: build_container_def Let_def split: if_splits)

lemma session_container_execs: "session_container en cfg key = Some c \<Longrightarrow> co_execs c = []"
  by (auto simp: session_container_def Let_def intro: build_container_execs)

lemma get_or_create_checked:
  assumes "checked_sessions bl ss" and "get_or_create en cfg key ss = (r, ss1)"
  shows "checked_sessions bl ss1 \<and> (\<forall>c. r = Some c \<longrightarrow> list_all (\<lambda>(cmd, stdin). check_blocklist bl cmd = None) (co_execs c))"
proof (cases "ss key")
  case None
  then show ?thesis using assms session_container_execs [of en cfg key]
    by (auto simp: get_or_create_def checked_sessions_def split: option.splits if_splits)
next
  case (Some c)
  then have "list_all (\<lambda>(cmd, stdin). check_blocklist bl cmd = None) (co_execs c)"
    using assms(1) unfolding checked_sessions_def by blast
  then show ?thesis using assms Some by (auto simp: get_or_create_def)
qed

lemma session_exec_execs: "co_execs (snd (session_exec en limit cmd stdin c)) = co_execs c @ [(cmd, stdin)]"
  by (simp add: session_exec_def Let_def split: option.splits)

lemma run_in_session_checked:
  assumes "checked_sessions bl ss" and "check_blocklist bl cmd = None"
  shows "checked_sessions bl (snd (run_in_session en cfg key limit cmd stdin ss))"
proof -
  obtain r ss1 where g: "get_or_create en cfg key ss = (r, ss1)" by fastforce
  note ok = get_or_create_checked [OF assms(1) g]
  show ?thesis
  proof (cases r)
    case (Some c)
    then have "list_all (\<lambda>(cmd, stdin). check_blocklist bl cmd = None) (co_execs (snd (session_exec en limit cmd stdin c)))"
      using ok assms(2) by (simp add: session_exec_execs)
    then show ?thesis using ok Some by (simp add: run_in_session_def g split_beta checked_sessions_def)
  qed (use ok g in \<open>simp add: run_in_session_def\<close>)
qed

lemma shell_call_checked:
  assumes "checked_sessions (st_blocklist t) ss"
  shows "checked_sessions (st_blocklist t) (snd (shell_call en h t preview render p ss))"
proof (cases "check_blocklist (st_blocklist t) (sp_command p)")
  case None
  have "checked_sessions (st_blocklist t) (snd (run_in_session en (st_cfg t) key limit (sp_command p) (sp_stdin p) ss))" for key limit
    by (rule run_in_session_checked [OF assms None])
  then have r: "checked_sessions (st_blocklist t) ss1"
    if "run_in_session en (st_cfg t) key limit (sp_command p) (sp_stdin p) ss = (r, ss1)" for key limit r ss1
    using that by (metis snd_conv)
  then show ?thesis using assms None
    by (auto simp: shell_call_def split: option.splits prod.splits sum.splits)
qed (use assms in \<open>simp add: shell_call_def\<close>)

lemma raw_exec_checked:
  assumes "checked_sessions (st_blocklist t) ss"
  shows "checked_sessions (st_blocklist t) (snd (raw_exec en h t p ss))"
proof (cases "check_blocklist (st_blocklist t) (rp_command p)")
  case None
  then show ?thesis using assms run_in_session_checked [OF assms None]
    by (simp add: raw_exec_def split: option.splits)
qed (use assms in \<open>simp add: raw_exec_def\<close>)

section \<open>Where the configuration is not followed\<close>

text \<open>The network policy reaches the options of the container and goes no further: sessions are the same with any
  policy and with none.\<close>

theorem network_policy_ignored:
  "get_or_create en (cfg\<lparr>sh_network := p\<rparr>) key ss = get_or_create en (cfg\<lparr>sh_network := None\<rparr>) key ss"
proof -
  have "session_container en (cfg\<lparr>sh_network := p\<rparr>) key = session_container en (cfg\<lparr>sh_network := None\<rparr>) key"
    by (cases p; cases "sh_registry cfg = []")
      (simp_all add: session_container_def build_container_def Let_def with_workdir_def with_cache_volume_def
        with_egress_policy_def with_registry_auth_def)
  then show ?thesis by (simp only: get_or_create_def)
qed

text \<open>A project without markers gets the profile of Alpine Linux, so the configured base image is never used for it.\<close>

theorem base_image_ignored:
  assumes "sh_workdir cfg \<noteq> []" and "\<And>path. \<not> ho_stat h path" and "sh_profiles cfg ''default'' = None"
  shows "resolve_profile h cfg [] = Some (''default'', ''alpine:3.20'')"
proof -
  have "detect_profiles (ho_stat h) (ho_images h) w ms seen = []" for w ms seen
    by (induction ms arbitrary: seen) (auto simp: assms(2))
  then have "resolve_profiles h (sh_workdir cfg) = Some [build_default_profile]"
    using assms(1) by (simp add: resolve_profiles_def Let_def)
  then show ?thesis using assms(3) by (simp add: resolve_profile_def resolve_image_def build_default_profile_def)
qed

text \<open>A command that does not complete stays in its session: as the container is run from its start, and one that
  does not complete does not complete with more commands either, every later command of the session fails.\<close>

theorem failed_command_blocks_session:
  assumes "run_in_session en cfg key limit cmd stdin ss = (Inl SSync, ss1)"
    and "\<And>c x. \<not> en_sync en limit c \<Longrightarrow> \<not> en_sync en limit (c\<lparr>co_execs := co_execs c @ [x]\<rparr>)"
  shows "fst (run_in_session en cfg key limit cmd' stdin' ss1) = Inl SSync"
proof -
  obtain c ss0 where c: "get_or_create en cfg key ss = (Some c, ss0)" "ss1 = ss0(key \<mapsto> snd (session_exec en limit cmd stdin c))"
    "fst (session_exec en limit cmd stdin c) = Inl SSync"
  proof (cases "get_or_create en cfg key ss")
    case (Pair r ss0)
    then show ?thesis
      using that assms(1) by (cases r) (auto simp: run_in_session_def split_beta)
  qed
  have "\<not> en_sync en limit (c\<lparr>co_execs := co_execs c @ [(cmd, stdin)]\<rparr>)"
    using c(3) by (auto simp: session_exec_def Let_def split: if_splits option.splits)
  then have "\<not> en_sync en limit (snd (session_exec en limit cmd stdin c))
      \<and> ss1 key = Some (snd (session_exec en limit cmd stdin c))"
    using c(2) by (auto simp: session_exec_def Let_def)
  then show ?thesis using assms(2)
    by (auto simp: run_in_session_def get_or_create_def session_exec_def Let_def split: prod.splits)
qed

lemma compile_blocklist_Some: "compile_blocklist re ps = Some ms \<Longrightarrow> p \<in> set ps \<Longrightarrow> re p = Some m \<Longrightarrow> m \<in> set ms"
  by (induction ps arbitrary: ms) (auto split: option.splits)

lemma compile_blocklist_map: "list_all (\<lambda>p. re p \<noteq> None) ps \<Longrightarrow> compile_blocklist re ps = Some (map (the \<circ> re) ps)"
  by (induction ps) auto

lemma new_shell_tool_blocklist:
  assumes "new_shell_tool en cfg = Inr t"
  shows "compile_blocklist (en_regexp en) (if sh_blocklist cfg \<noteq> [] then sh_blocklist cfg else default_command_blocklist)
    = Some (st_blocklist t)"
  using assms by (auto simp: new_shell_tool_def Let_def split: if_splits option.splits)

text \<open>Configured patterns, which are documented to extend the default ones, replace them: with any pattern of its own
  that leaves \<open>rm -rf .\<close> alone the tool lets it through, though the default patterns stop it.\<close>

theorem custom_blocklist_replaces:
  assumes "new_shell_tool en cfg = Inr t" and "en_regexp en = go_regexp" and "sh_blocklist cfg = [p]"
    and "go_regexp p = Some m" and "\<not> m ''rm -rf .''"
  shows "check_blocklist (st_blocklist t) [''rm'', ''-rf'', ''.''] = None
    \<and> check_blocklist (map (the \<circ> go_regexp) default_command_blocklist) [''rm'', ''-rf'', ''.''] \<noteq> None"
proof -
  have "st_blocklist t = [m]"
    using new_shell_tool_blocklist [OF assms(1)] assms(2-4) by simp
  moreover have "list_ex (\<lambda>s. the (go_regexp s) ''rm -rf .'') default_command_blocklist" by code_simp
  moreover have "join '' '' [''rm'', ''-rf'', ''.''] = ''rm -rf .''" by code_simp
  ultimately show ?thesis
    using assms(5) by (auto simp: check_blocklist_None list_all_iff list_ex_iff simp del: join.simps)
qed

text \<open>A line that does not fit the scanner's buffer of 64 KiB hides itself and everything after it; no error tells.\<close>

theorem long_line_hides_output:
  assumes "max_scan_token \<le> length l" and "newline \<notin> set l"
  shows "invoke_output re (l @ newline # rest, [], 0) = []"
proof -
  have "split_char newline (l @ newline # rest) = l # split_char newline rest"
    using assms(2) by (simp add: split_char_append_sep split_char_none)
  moreover have "l \<noteq> []" using assms(1) by (auto simp: max_scan_token_def)
  ultimately have "\<exists>ls. scan_lines (l @ newline # rest) = l # ls"
    by (auto simp: scan_lines_def Let_def split_char_not_Nil)
  then show ?thesis using assms(1) by (auto simp: invoke_output_def kept_lines_def scan_text_def)
qed

end
