(* ===== verification/Pipe.thy ===== *)
theory Pipe
  imports Shell_Props
begin

text \<open>
  Pipelines of shell commands and registered tools, \<^verbatim>\<open>components/tool/pipe\<close>.

  A registered tool is a function from the context, its arguments and the state \<open>'w\<close> of the world it works on
  to a result and a new state. A tool step's explicit arguments are a JSON value of type \<open>'j\<close>; encoding it,
  reading the gate's parameters and encoding the preview are parameters. Deadlines reach the steps as failures of
  the engine or of the tools.
\<close>

section \<open>Configuration\<close>

record shell_step =
  ss_command :: "string list"
  ss_profile :: string

record 'j tool_step =
  tp_name :: string
  tp_args :: "'j option"

record 'j pipe_step =
  ps_shell :: "shell_step option"
  ps_tool :: "'j tool_step option"

record 'j pipe_params =
  pp_steps :: "'j pipe_step list"
  pp_profile :: string
  pp_dry_run :: bool
  pp_timeout :: string

type_synonym 'w tool_fun = "ctx \<Rightarrow> string \<Rightarrow> 'w \<Rightarrow> (string + string) \<times> 'w"

datatype 'j preview = PreviewShell "string list" | PreviewTool string "'j option"

record ('j, 'w) pipe_config =
  pt_tools :: "(string \<times> 'w tool_fun) list"
  pt_write_names :: "string list"
  pt_authorizer :: "authorizer option"
  pt_allow_model :: bool
  pt_timeout :: int
  pt_max_output :: int
  pt_marshal :: "'j \<Rightarrow> string option"
  pt_gate :: "string \<Rightarrow> gate_params option"
  pt_encode_preview :: "'j preview list \<Rightarrow> string"

record ('j, 'w) pipe_tool = "('j, 'w) pipe_config" +
  pt_shell :: shell_tool

datatype step_error = EShell shell_error | EExit int string | EUnknownTool string "string list" | EMarshal
  | EGate safety_error | EToolFailed string

datatype pipe_error = PNilParams | PNoSteps | PNotOneOf nat | PInvalidStep nat | PStep nat step_error | PTooLong nat nat

definition new_pipe_tool ::
    "engine \<Rightarrow> shell_config option \<Rightarrow> ('j, 'w) pipe_config \<Rightarrow> shell_error + ('j, 'w) pipe_tool" where
  "new_pipe_tool en shell cfg =
     (let cfg1 = (if pt_timeout cfg = 0 then cfg\<lparr>pt_timeout := 5 * 60 * 10 ^ 9\<rparr> else cfg);
          cfg2 = (if pt_max_output cfg1 \<le> 0 then cfg1\<lparr>pt_max_output := 10 * 2 ^ 20\<rparr> else cfg1)
      in case shell of
           None \<Rightarrow> Inl SInvalid
         | Some sc \<Rightarrow> (case new_shell_tool en sc of
             Inl e \<Rightarrow> Inl e
           | Inr t \<Rightarrow> Inr (pipe_config.extend cfg2 \<lparr>pt_shell = t\<rparr>)))"

definition with_safety :: "authorizer option \<Rightarrow> bool \<Rightarrow> ('j, 'w) pipe_config \<Rightarrow> ('j, 'w) pipe_config" where
  "with_safety auth allow cfg =
     (let cfg1 = (if pt_authorizer cfg = None then cfg\<lparr>pt_authorizer := auth\<rparr> else cfg)
      in if \<not> pt_allow_model cfg1 then cfg1\<lparr>pt_allow_model := allow\<rparr> else cfg1)"

section \<open>Running\<close>

fun validate_steps :: "nat \<Rightarrow> 'j pipe_step list \<Rightarrow> pipe_error option" where
  "validate_steps i [] = None"
| "validate_steps i (st # sts) =
     (if (ps_shell st = None) = (ps_tool st = None) then Some (PNotOneOf i)
      else if (case ps_shell st of None \<Rightarrow> False | Some s \<Rightarrow> ss_command s = []) then Some (PInvalidStep i)
      else if (case ps_tool st of None \<Rightarrow> False | Some t \<Rightarrow> tp_name t = []) then Some (PInvalidStep i)
      else validate_steps (i + 1) sts)"

definition validate_params :: "'j pipe_params option \<Rightarrow> pipe_error option" where
  "validate_params p =
     (case p of None \<Rightarrow> Some PNilParams
      | Some ps \<Rightarrow> if pp_steps ps = [] then Some PNoSteps else validate_steps 0 (pp_steps ps))"

definition run_shell_step ::
    "engine \<Rightarrow> host \<Rightarrow> ('j, 'w) pipe_tool \<Rightarrow> string \<Rightarrow> shell_step \<Rightarrow> string \<Rightarrow> sessions \<Rightarrow> (step_error + string) \<times> sessions" where
  "run_shell_step en h pt prof st stdin ss =
     (case raw_exec en h (pt_shell pt)
             \<lparr>rp_command = ss_command st, rp_profile = (if ss_profile st = [] then prof else ss_profile st),
              rp_stdin = stdin, rp_timeout = pt_timeout pt\<rparr> ss of
        (Inl e, ss1) \<Rightarrow> (Inl (EShell e), ss1)
      | (Inr (out, err, code), ss1) \<Rightarrow>
          if code \<noteq> 0 then (Inl (EExit code (trim_space err)), ss1) else (Inr out, ss1))"

definition pipe_gate_error :: "ctx \<Rightarrow> ('j, 'w) pipe_tool \<Rightarrow> string \<Rightarrow> gate_params \<Rightarrow> string \<Rightarrow> safety_error option" where
  "pipe_gate_error c pt name gp args =
     (if pt_allow_model pt then (if gp_dry_run gp \<or> gp_confirmed gp then None else Some EGateRequired)
      else should_gate_with_authorization c name (new_write_tool_set (pt_write_names pt)) gp args (pt_authorizer pt))"

text \<open>The input of a tool step: its arguments, or what was piped to it.\<close>

definition step_args :: "('j, 'w) pipe_tool \<Rightarrow> 'j tool_step \<Rightarrow> string \<Rightarrow> string option" where
  "step_args pt st stdin =
     (case tp_args st of
        Some j \<Rightarrow> pt_marshal pt j
      | None \<Rightarrow> Some (if stdin = [] then [CHR 0x7B, CHR 0x7D] else stdin))"

definition call_tool :: "'w tool_fun \<Rightarrow> ctx \<Rightarrow> string \<Rightarrow> bool \<Rightarrow> 'w \<Rightarrow> (step_error + string \<times> bool) \<times> 'w" where
  "call_tool f c args dry w =
     (case f c args w of (Inl e, w1) \<Rightarrow> (Inl (EToolFailed e), w1) | (Inr out, w1) \<Rightarrow> (Inr (out, dry), w1))"

definition run_tool_step ::
    "ctx \<Rightarrow> ('j, 'w) pipe_tool \<Rightarrow> 'j tool_step \<Rightarrow> string \<Rightarrow> 'w \<Rightarrow> (step_error + string \<times> bool) \<times> 'w" where
  "run_tool_step c pt st stdin w =
     (let name = tp_name st in
      case map_of (pt_tools pt) name of
        None \<Rightarrow> (Inl (EUnknownTool name (sort (remdups (map fst (pt_tools pt))))), w)
      | Some f \<Rightarrow>
          (case step_args pt st stdin of
             None \<Rightarrow> (Inl EMarshal, w)
           | Some args \<Rightarrow>
               if name \<notin> new_write_tool_set (pt_write_names pt) then call_tool f c args False w
               else case extract_gate_params (pt_gate pt) args of
                 Inl e \<Rightarrow> (Inl (EGate e), w)
               | Inr gp \<Rightarrow>
                   (case pipe_gate_error c pt name gp args of
                      Some e \<Rightarrow> (Inl (EGate e), w)
                    | None \<Rightarrow>
                        if gp_dry_run gp then call_tool f c args True w
                        else call_tool f (with_execution_authorized c name) args False w)))"

definition run_step ::
    "engine \<Rightarrow> host \<Rightarrow> ctx \<Rightarrow> ('j, 'w) pipe_tool \<Rightarrow> string \<Rightarrow> 'j pipe_step \<Rightarrow> string \<Rightarrow> sessions \<times> 'w
      \<Rightarrow> (step_error + string \<times> bool) \<times> sessions \<times> 'w" where
  "run_step en h c pt prof st input x =
     (case ps_shell st of
        Some s \<Rightarrow>
          (case run_shell_step en h pt prof s input (fst x) of
             (Inl e, ss1) \<Rightarrow> (Inl e, ss1, snd x)
           | (Inr out, ss1) \<Rightarrow> (Inr (out, False), ss1, snd x))
      | None \<Rightarrow>
          (case ps_tool st of
             Some t \<Rightarrow> (case run_tool_step c pt t input (snd x) of (r, w1) \<Rightarrow> (r, fst x, w1))
           | None \<Rightarrow> (Inr (input, False), x)))"

fun run_steps ::
    "engine \<Rightarrow> host \<Rightarrow> ctx \<Rightarrow> ('j, 'w) pipe_tool \<Rightarrow> string \<Rightarrow> nat \<Rightarrow> 'j pipe_step list \<Rightarrow> string \<Rightarrow> bool \<Rightarrow> sessions \<times> 'w
      \<Rightarrow> (pipe_error + string \<times> bool) \<times> sessions \<times> 'w" where
  "run_steps en h c pt prof i [] input saw x = (Inr (input, saw), x)"
| "run_steps en h c pt prof i (st # sts) input saw x =
     (case run_step en h c pt prof st input x of
        (Inl e, x1) \<Rightarrow> (Inl (PStep i e), x1)
      | (Inr (out, dry), x1) \<Rightarrow>
          if pt_max_output pt < int (length out) then (Inl (PTooLong i (length out)), x1)
          else run_steps en h c pt prof (i + 1) sts out (saw \<or> dry) x1)"

definition write_step_dry_run_guidance :: string where
  "write_step_dry_run_guidance = [newline, newline] @
     ''DRY-RUN RESULT: this pipeline preview includes a write tool step that ran in dry-run mode. Show this preview to the user and ask for confirmation, then re-call the pipeline with confirmed=true in that write tool step''
     @ [CHR 0x27] @ ''s args.''"

definition run_pipeline ::
    "engine \<Rightarrow> host \<Rightarrow> ctx \<Rightarrow> ('j, 'w) pipe_tool \<Rightarrow> 'j pipe_params \<Rightarrow> sessions \<times> 'w \<Rightarrow> (pipe_error + string) \<times> sessions \<times> 'w" where
  "run_pipeline en h c pt p x =
     (case run_steps en h c pt (pp_profile p) 0 (pp_steps p) [] False x of
        (Inl e, x1) \<Rightarrow> (Inl e, x1)
      | (Inr (out, saw), x1) \<Rightarrow> (Inr (if saw then out @ write_step_dry_run_guidance else out), x1))"

definition dry_run_preview :: "('j, 'w) pipe_tool \<Rightarrow> 'j pipe_params \<Rightarrow> string" where
  "dry_run_preview pt p =
     [CHR 0x7B, CHR 0x22] @ ''dryRun'' @ [CHR 0x22] @ '': true, '' @ [CHR 0x22] @ ''steps'' @ [CHR 0x22] @ '': ''
     @ pt_encode_preview pt (concat (map (\<lambda>st.
         case ps_shell st of
           Some s \<Rightarrow> [PreviewShell (ss_command s)]
         | None \<Rightarrow> (case ps_tool st of Some t \<Rightarrow> [PreviewTool (tp_name t) (tp_args t)] | None \<Rightarrow> [])) (pp_steps p)))
     @ [CHR 0x7D]"

definition pipe_invoke ::
    "engine \<Rightarrow> host \<Rightarrow> ctx \<Rightarrow> ('j, 'w) pipe_tool \<Rightarrow> 'j pipe_params option \<Rightarrow> sessions \<times> 'w \<Rightarrow> (pipe_error + string) \<times> sessions \<times> 'w" where
  "pipe_invoke en h c pt params x =
     (case validate_params params of
        Some e \<Rightarrow> (Inl e, x)
      | None \<Rightarrow> if pp_dry_run (the params) then (Inr (dry_run_preview pt (the params)), x)
                else run_pipeline en h c pt (the params) x)"

definition result_chunks :: "('j, 'w) pipe_tool \<Rightarrow> string \<Rightarrow> string list" where
  "result_chunks pt r =
     (if r = [] then [[]] else scan_text (max max_scan_token (nat (pt_max_output pt + 1))) r)"

definition pipe_stream ::
    "engine \<Rightarrow> host \<Rightarrow> ctx \<Rightarrow> ('j, 'w) pipe_tool \<Rightarrow> 'j pipe_params option \<Rightarrow> sessions \<times> 'w \<Rightarrow> (pipe_error + string list) \<times> sessions \<times> 'w" where
  "pipe_stream en h c pt params x =
     (case validate_params params of
        Some e \<Rightarrow> (Inl e, x)
      | None \<Rightarrow>
          if pp_dry_run (the params) then (Inr [dry_run_preview pt (the params)], x)
          else case run_pipeline en h c pt (the params) x of
            (Inl e, x1) \<Rightarrow> (Inl e, x1)
          | (Inr r, x1) \<Rightarrow> (Inr (result_chunks pt r), x1))"

section \<open>Write steps are authorized\<close>

text \<open>Tools that keep a log of their calls: whatever they answer, the log tells what ran.\<close>

type_synonym call_log = "(string \<times> ctx \<times> string) list"

definition logging_tools :: "(string \<Rightarrow> ctx \<Rightarrow> string \<Rightarrow> call_log \<Rightarrow> string + string) \<Rightarrow> string list \<Rightarrow> (string \<times> call_log tool_fun) list" where
  "logging_tools f names = map (\<lambda>n. (n, \<lambda>c args log. (f n c args log, log @ [(n, c, args)]))) names"

lemma map_of_logging:
  "map_of (logging_tools f names) n = (if n \<in> set names then Some (\<lambda>c args log. (f n c args log, log @ [(n, c, args)])) else None)"
  by (induction names) (auto simp: logging_tools_def)

definition call_allowed :: "ctx \<Rightarrow> ('j, 'w) pipe_tool \<Rightarrow> string \<times> ctx \<times> string \<Rightarrow> bool" where
  "call_allowed c pt call =
     (case call of (n, c', args) \<Rightarrow>
        if n \<notin> set (pt_write_names pt) then c' = c
        else case pt_gate pt args of
          None \<Rightarrow> False
        | Some gp \<Rightarrow>
            gp_dry_run gp \<and> c' = c
            \<or> gp_confirmed gp \<and> c' = with_execution_authorized c n
              \<and> (pt_allow_model pt \<or> (case pt_authorizer pt of None \<Rightarrow> False | Some auth \<Rightarrow> auth c n args = None)))"

lemma gate_allowed:
  assumes "n \<in> set (pt_write_names pt)" and "pt_gate pt args = Some gp" and "pipe_gate_error c pt n gp args = None"
  shows "call_allowed c pt (n, if gp_dry_run gp then c else with_execution_authorized c n, args)"
  using assms by (auto simp: call_allowed_def pipe_gate_error_def should_gate_with_authorization_def new_write_tool_set_def
      split: if_splits option.splits)

lemma run_tool_step_cases:
  "(\<exists>e. run_tool_step c pt st stdin w = (Inl e, w))
    \<or> (\<exists>f c' args dry. map_of (pt_tools pt) (tp_name st) = Some f \<and> run_tool_step c pt st stdin w = call_tool f c' args dry w
        \<and> call_allowed c pt (tp_name st, c', args))"
proof (cases "map_of (pt_tools pt) (tp_name st)"; cases "step_args pt st stdin")
  fix f args assume f: "map_of (pt_tools pt) (tp_name st) = Some f" and args: "step_args pt st stdin = Some args"
  show ?thesis
  proof (cases "tp_name st \<in> set (pt_write_names pt)")
    case False
    then have "run_tool_step c pt st stdin w = call_tool f c args False w \<and> call_allowed c pt (tp_name st, c, args)"
      using f args by (simp add: run_tool_step_def Let_def new_write_tool_set_def call_allowed_def)
    with f show ?thesis by blast
  next
    case w: True
    show ?thesis
    proof (cases "\<exists>gp. pt_gate pt args = Some gp \<and> pipe_gate_error c pt (tp_name st) gp args = None")
      case True
      then obtain gp where gp: "pt_gate pt args = Some gp" "pipe_gate_error c pt (tp_name st) gp args = None" by blast
      have "run_tool_step c pt st stdin w
          = call_tool f (if gp_dry_run gp then c else with_execution_authorized c (tp_name st)) args (gp_dry_run gp) w"
        using f args w gp by (simp add: run_tool_step_def Let_def new_write_tool_set_def extract_gate_params_def)
      with f gate_allowed [OF w gp] show ?thesis by blast
    next
      case False
      then have "\<exists>e. run_tool_step c pt st stdin w = (Inl e, w)"
        using f args w by (auto simp: run_tool_step_def Let_def new_write_tool_set_def extract_gate_params_def split: option.splits)
      then show ?thesis by blast
    qed
  qed
qed (simp_all add: run_tool_step_def)

lemma run_tool_step_log:
  assumes "pt_tools pt = logging_tools f names"
  shows "\<exists>calls. snd (run_tool_step c pt st stdin w) = w @ calls \<and> list_all (call_allowed c pt) calls"
  using run_tool_step_cases [of c pt st stdin w]
proof (elim disjE exE conjE)
  fix e assume "run_tool_step c pt st stdin w = (Inl e, w)"
  then show ?thesis by (intro exI [of _ "[]"]) simp
next
  fix g c' args dry
  assume "map_of (pt_tools pt) (tp_name st) = Some g" "run_tool_step c pt st stdin w = call_tool g c' args dry w"
    "call_allowed c pt (tp_name st, c', args)"
  then show ?thesis
    by (intro exI [of _ "[(tp_name st, c', args)]"])
      (auto simp: assms map_of_logging call_tool_def split: if_splits sum.splits)
qed

lemma run_step_log:
  assumes "pt_tools pt = logging_tools f names"
  shows "\<exists>calls. snd (snd (run_step en h c pt prof st input x)) = snd x @ calls \<and> list_all (call_allowed c pt) calls"
proof -
  have [simp]: "\<exists>calls. snd x = snd x @ calls \<and> list_all (call_allowed c pt) calls"
    by (intro exI [of _ "[]"]) simp
  show ?thesis
  proof (cases "ps_shell st"; cases "ps_tool st")
    fix t assume "ps_shell st = None" "ps_tool st = Some t"
    then show ?thesis using run_tool_step_log [OF assms, of c t input "snd x"] by (simp add: run_step_def split_beta)
  qed (auto simp: run_step_def split: prod.splits sum.splits)
qed

lemma run_steps_log:
  assumes "pt_tools pt = logging_tools f names"
  shows "\<exists>calls. snd (snd (run_steps en h c pt prof i sts input saw x)) = snd x @ calls \<and> list_all (call_allowed c pt) calls"
proof (induction sts arbitrary: i input saw x)
  case (Cons st sts)
  obtain r x1 where r: "run_step en h c pt prof st input x = (r, x1)" by (cases "run_step en h c pt prof st input x")
  obtain calls where calls: "snd x1 = snd x @ calls" "list_all (call_allowed c pt) calls"
    using run_step_log [OF assms, of en h c prof st input x] r by auto
  show ?case
  proof (cases "\<exists>out dry. r = Inr (out, dry) \<and> int (length out) \<le> pt_max_output pt")
    case True
    then obtain out dry where o: "r = Inr (out, dry)" "int (length out) \<le> pt_max_output pt" by blast
    obtain more where "snd (snd (run_steps en h c pt prof (i + 1) sts out (saw \<or> dry) x1)) = snd x1 @ more"
      "list_all (call_allowed c pt) more" using Cons.IH by blast
    then show ?thesis using r o calls by (intro exI [of _ "calls @ more"]) simp
  next
    case False
    then have "snd (run_steps en h c pt prof i (st # sts) input saw x) = x1"
      using r by (auto split: sum.splits)
    then show ?thesis using calls by auto
  qed
qed simp

text \<open>C35: In a pipeline every tool is called in the context of the pipeline, a write tool only for a preview its own
  arguments ask for, or confirmed by them, approved by the host and with the grant for this tool in its context.
  Nothing a step outputs can make the next one run unapproved.\<close>

theorem pipeline_calls_allowed:
  assumes "pt_tools pt = logging_tools f names"
    and "pipe_invoke en h c pt params (ss, []) = (r, ss', log)"
  shows "list_all (call_allowed c pt) log"
proof -
  have "\<exists>calls. snd (snd (pipe_invoke en h c pt params (ss, []))) = [] @ calls \<and> list_all (call_allowed c pt) calls"
  proof (cases "validate_params params = None \<and> \<not> pp_dry_run (the params)")
    case True
    then show ?thesis using run_steps_log [OF assms(1), of en h c "pp_profile (the params)" 0 "pp_steps (the params)" "[]" False "(ss, [])"]
      by (auto simp: pipe_invoke_def run_pipeline_def split: prod.splits sum.splits)
  qed (auto simp: pipe_invoke_def split: option.splits)
  then show ?thesis using assms(2) by simp
qed


section \<open>Every command of every entry point is checked\<close>

lemma run_step_checked:
  assumes "checked_sessions (st_blocklist (pt_shell pt)) (fst x)"
  shows "checked_sessions (st_blocklist (pt_shell pt)) (fst (snd (run_step en h c pt prof st input x)))"
proof (cases "ps_shell st")
  case (Some s)
  have "checked_sessions (st_blocklist (pt_shell pt)) (snd (run_shell_step en h pt prof s input (fst x)))"
    using raw_exec_checked [OF assms, of en h]
    by (auto simp: run_shell_step_def split: prod.splits sum.splits) (metis snd_conv)+
  then show ?thesis using Some by (auto simp: run_step_def split: prod.splits sum.splits)
qed (use assms in \<open>auto simp: run_step_def split: option.splits prod.splits\<close>)

lemma run_steps_checked:
  "checked_sessions (st_blocklist (pt_shell pt)) (fst x) \<Longrightarrow>
    checked_sessions (st_blocklist (pt_shell pt)) (fst (snd (run_steps en h c pt prof i sts input saw x)))"
proof (induction sts arbitrary: i input saw x)
  case (Cons st sts)
  have "checked_sessions (st_blocklist (pt_shell pt)) (fst (snd (run_step en h c pt prof st input x)))"
    by (rule run_step_checked [OF Cons.prems])
  with Cons.IH show ?case by (auto split: prod.splits sum.splits)
qed simp

datatype 'j shell_op = OpInvoke shell_params | OpStream shell_params | OpRaw raw_params
  | OpPipe ctx "'j pipe_params option" | OpPipeStream ctx "'j pipe_params option"

fun run_shell_op :: "engine \<Rightarrow> host \<Rightarrow> ('j, 'w) pipe_tool \<Rightarrow> 'j shell_op \<Rightarrow> sessions \<times> 'w \<Rightarrow> sessions \<times> 'w" where
  "run_shell_op en h pt (OpInvoke p) x = (snd (shell_invoke en h (pt_shell pt) p (fst x)), snd x)"
| "run_shell_op en h pt (OpStream p) x = (snd (shell_stream en h (pt_shell pt) p (fst x)), snd x)"
| "run_shell_op en h pt (OpRaw p) x = (snd (raw_exec en h (pt_shell pt) p (fst x)), snd x)"
| "run_shell_op en h pt (OpPipe c p) x = snd (pipe_invoke en h c pt p x)"
| "run_shell_op en h pt (OpPipeStream c p) x = snd (pipe_stream en h c pt p x)"

lemma run_pipeline_checked:
  assumes "checked_sessions (st_blocklist (pt_shell pt)) (fst x)"
  shows "checked_sessions (st_blocklist (pt_shell pt)) (fst (snd (run_pipeline en h c pt p x)))"
  using run_steps_checked [OF assms, of en h c "pp_profile p" 0 "pp_steps p" "[]" False]
  by (auto simp: run_pipeline_def split: prod.splits sum.splits)

lemma run_shell_op_checked:
  assumes "checked_sessions (st_blocklist (pt_shell pt)) (fst x)"
  shows "checked_sessions (st_blocklist (pt_shell pt)) (fst (run_shell_op en h pt op x))"
proof (cases op)
  case (OpPipe c p)
  then show ?thesis using assms run_pipeline_checked [OF assms] by (simp add: pipe_invoke_def split: option.split)
next
  case (OpPipeStream c p)
  then show ?thesis using assms run_pipeline_checked [OF assms, of en h c "the p"]
    by (auto simp: pipe_stream_def split: option.split prod.splits sum.splits)
qed (use assms in \<open>simp_all add: shell_invoke_def shell_stream_def shell_call_checked raw_exec_checked\<close>)

text \<open>Whatever calls of the shell and of pipelines over it come in, in any order, no session's container ever holds a
  command line that a pattern of the block list matches.\<close>

lemma session_commands_checked:
  assumes "fst (fold (run_shell_op en h pt) ops (Map.empty, w)) key = Some c" and "(cmd, stdin) \<in> set (co_execs c)"
  shows "list_all (\<lambda>p. \<not> p (join '' '' cmd)) (st_blocklist (pt_shell pt))"
proof -
  have "checked_sessions (st_blocklist (pt_shell pt)) (fst (fold (run_shell_op en h pt) ops x))"
    if "checked_sessions (st_blocklist (pt_shell pt)) (fst x)" for x
    using that by (induction ops arbitrary: x) (simp_all add: run_shell_op_checked)
  from this [of "(Map.empty, w)"] assms(1)
  have "list_all (\<lambda>(cmd, stdin). check_blocklist (st_blocklist (pt_shell pt)) cmd = None) (co_execs c)"
    unfolding checked_sessions_def fst_conv using checked_empty by (simp only: checked_sessions_def fst_conv) blast
  then show ?thesis using assms(2) by (auto simp: list_all_iff check_blocklist_None)
qed

lemma new_pipe_tool_blocklist:
  assumes "new_pipe_tool en (Some sh) cfg = Inr pt"
  shows "compile_blocklist (en_regexp en) (if sh_blocklist sh \<noteq> [] then sh_blocklist sh else default_command_blocklist)
    = Some (st_blocklist (pt_shell pt))"
  using assms new_shell_tool_blocklist [of en sh]
  by (auto simp: new_pipe_tool_def Let_def pipe_config.extend_def split: sum.splits)

text \<open>With the default block list, no command with one of its words in it, such as \<open>rm\<close> or \<open>dd\<close>, ever gets into a
  sandbox, as the program or as a word of an argument, whatever way the calls take and whatever order they come in.\<close>

theorem blocked_words_never_run:
  assumes "new_pipe_tool en (Some sh) cfg = Inr pt" and "en_regexp en = go_regexp" and "sh_blocklist sh = []"
    and "fst (fold (run_shell_op en h pt) ops (Map.empty, w)) key = Some c" and "(cmd, stdin) \<in> set (co_execs c)"
    and "word \<in> set blocked_words"
  shows "\<not> whole_word word (join '' '' cmd)"
proof -
  obtain s where s: "s \<in> set default_command_blocklist" "go_regexp s = Some (match_string (word_pat word))"
    "\<And>t. match_string (word_pat word) t \<longleftrightarrow> whole_word word t"
    using blocked_word_matches [OF assms(6)] by blast
  have "match_string (word_pat word) \<in> set (st_blocklist (pt_shell pt))"
    using compile_blocklist_Some [OF new_pipe_tool_blocklist [OF assms(1)]] s assms(2,3) by auto
  then show ?thesis
    using session_commands_checked [OF assms(4,5)] s(3) by (auto simp: list_all_iff)
qed

section \<open>Pipelines compose\<close>

text \<open>A pipeline is its steps in order: running it is running a first part and, when that gives an output, the rest on
  that output; after a failing step nothing runs.\<close>

theorem run_steps_append:
  "run_steps en h c pt prof i (xs @ ys) input saw x =
     (case run_steps en h c pt prof i xs input saw x of
        (Inl e, x1) \<Rightarrow> (Inl e, x1)
      | (Inr (out, saw1), x1) \<Rightarrow> run_steps en h c pt prof (i + length xs) ys out saw1 x1)"
proof (induction xs arbitrary: i input saw x)
  case (Cons st xs)
  then show ?case by (cases "run_step en h c pt prof st input x") (auto split: sum.split prod.split)
qed simp

text \<open>The stream of a result gives its lines without their ends, so whoever joins the chunks, as a reader of a
  stream of strings does, gets the text of all lines run together.\<close>

lemma concat_split_char: "concat (split_char c s) = filter (\<lambda>x. x \<noteq> c) s"
proof (induction s)
  case (Cons x s)
  then show ?case using split_char_not_Nil [of c s] by (cases "split_char c s") auto
qed simp

theorem stream_joins_lines:
  assumes "CHR 0x0D \<notin> set r" and "length r < max_scan_token"
  shows "concat (result_chunks pt r) = filter (\<lambda>x. x \<noteq> newline) r"
proof -
  let ?ls = "scan_lines r"
  have "concat ?ls = concat (split_char newline r)"
  proof (cases "last (split_char newline r) = []")
    case True
    then have "split_char newline r = ?ls @ [[]]"
      using append_butlast_last_id [OF split_char_not_Nil, of newline r] by (simp add: scan_lines_def)
    then show ?thesis by simp
  qed (simp add: scan_lines_def)
  then have c: "concat ?ls = filter (\<lambda>x. x \<noteq> newline) r" by (simp add: concat_split_char)
  have small: "length l < max_scan_token \<and> CHR 0x0D \<notin> set l" if "l \<in> set ?ls" for l
  proof -
    have "length l \<le> length r"
      using length_concat_ge_mem [OF that] length_filter_le [of "\<lambda>x. x \<noteq> newline" r] unfolding c by (rule le_trans)
    moreover have "set l \<subseteq> set (concat ?ls)" using that by auto
    ultimately show ?thesis using assms c by auto
  qed
  have "takeWhile (\<lambda>l. length l < max max_scan_token k) ?ls = ?ls" for k
    unfolding takeWhile_eq_all_conv using small by fastforce
  moreover have "map drop_cr ?ls = ?ls"
    unfolding map_idI using small by (intro map_idI) (auto simp: drop_cr_def dest: last_in_set)
  ultimately have "scan_text (max max_scan_token k) r = ?ls" for k unfolding scan_text_def by (simp only:)
  then show ?thesis using c by (simp add: result_chunks_def)
qed


section \<open>Witnesses\<close>

definition demo_engine :: engine where
  "demo_engine = \<lparr>en_connected = True, en_sync = (\<lambda>_ _. True), en_stdout = (\<lambda>c. Some (snd (last (co_execs c)))),
     en_stderr = (\<lambda>_. Some []), en_exit = (\<lambda>_. Some 0), en_sha_hex = (\<lambda>s. s), en_regexp = (\<lambda>s. Some (\<lambda>l. sublist s l)),
     en_duration = (\<lambda>_. None), en_quote = (\<lambda>s. s)\<rparr>"

definition demo_host :: host where
  "demo_host = \<lparr>ho_stat = (\<lambda>p. p = ''/w/go.mod''), ho_order = (\<lambda>ms. ms), ho_images = default_image_map\<rparr>"

definition demo_shell_config :: shell_config where
  "demo_shell_config = \<lparr>sh_base_image = [], sh_profiles = Map.empty, sh_workdir = ''/w'', sh_network = None, sh_cache_key = ''k'',
     sh_registry = [], sh_blocklist = [''rm'', ''dd''], sh_timeout = 0\<rparr>"

definition demo_tools :: "(string \<times> call_log tool_fun) list" where
  "demo_tools = logging_tools (\<lambda>n c args log. Inr n) [''get'', ''del'']"

definition demo_pipe_config :: "(string, call_log) pipe_config" where
  "demo_pipe_config =
     \<lparr>pt_tools = demo_tools, pt_write_names = [''del''], pt_authorizer = Some (\<lambda>c n args. None), pt_allow_model = False,
      pt_timeout = 0, pt_max_output = 0, pt_marshal = (\<lambda>j. Some j),
      pt_gate = (\<lambda>s. Some \<lparr>gp_dry_run = False, gp_confirmed = (s = ''yes'')\<rparr>), pt_encode_preview = (\<lambda>_. [])\<rparr>"

definition demo_pipe :: "(string, call_log) pipe_tool" where
  "demo_pipe = projr (new_pipe_tool demo_engine (Some demo_shell_config) demo_pipe_config)"

definition demo_pipe_params :: "string pipe_params" where
  "demo_pipe_params =
     \<lparr>pp_steps = [\<lparr>ps_shell = Some \<lparr>ss_command = [''ls'', ''-l''], ss_profile = []\<rparr>, ps_tool = None\<rparr>,
                  \<lparr>ps_shell = None, ps_tool = Some \<lparr>tp_name = ''get'', tp_args = None\<rparr>\<rparr>,
                  \<lparr>ps_shell = None, ps_tool = Some \<lparr>tp_name = ''del'', tp_args = Some ''yes''\<rparr>\<rparr>],
      pp_profile = [], pp_dry_run = False, pp_timeout = []\<rparr>"

definition demo_pipe_run :: "(pipe_error + string) \<times> sessions \<times> call_log" where
  "demo_pipe_run = pipe_invoke demo_engine demo_host (Some []) demo_pipe (Some demo_pipe_params) (Map.empty, [])"

lemma demo_pipe_tools: "pt_tools demo_pipe = demo_tools"
  by (simp add: demo_pipe_def new_pipe_tool_def new_shell_tool_def demo_shell_config_def demo_engine_def demo_pipe_config_def
      pipe_config.extend_def Let_def)

theorem pipeline_calls_allowed_witness:
  "snd (snd demo_pipe_run) = [(''get'', Some [], [CHR 0x7B, CHR 0x7D]), (''del'', Some [''del''], ''yes'')]
    \<and> list_all (call_allowed (Some []) demo_pipe) (snd (snd demo_pipe_run))"
proof (rule conjI)
  show "snd (snd demo_pipe_run) = [(''get'', Some [], [CHR 0x7B, CHR 0x7D]), (''del'', Some [''del''], ''yes'')]"
    by code_simp
  show "list_all (call_allowed (Some []) demo_pipe) (snd (snd demo_pipe_run))"
    by (rule pipeline_calls_allowed [OF demo_pipe_tools [unfolded demo_tools_def],
          of demo_engine demo_host "Some []" "Some demo_pipe_params" Map.empty "fst demo_pipe_run" "fst (snd demo_pipe_run)"])
      (simp only: demo_pipe_run_def prod.collapse)
qed

definition default_engine :: engine where "default_engine = demo_engine\<lparr>en_regexp := go_regexp\<rparr>"

definition default_shell_config :: shell_config where "default_shell_config = demo_shell_config\<lparr>sh_blocklist := []\<rparr>"

definition default_pipe :: "(string, call_log) pipe_tool" where
  "default_pipe = projr (new_pipe_tool default_engine (Some default_shell_config) demo_pipe_config)"

definition default_sessions :: sessions where
  "default_sessions = fst (run_shell_op default_engine demo_host default_pipe (OpPipe (Some []) (Some demo_pipe_params)) (Map.empty, []))"

lemma default_pipe_new: "new_pipe_tool default_engine (Some default_shell_config) demo_pipe_config = Inr default_pipe"
  by (simp add: default_pipe_def new_pipe_tool_def new_shell_tool_def default_shell_config_def demo_shell_config_def
      default_engine_def demo_engine_def Let_def default_exec_timeout_def
      compile_blocklist_map [of go_regexp default_command_blocklist] default_regexps_compile)

theorem blocked_words_never_run_witness:
  "map_option co_execs (default_sessions (''golang'', ''golang:1.22'')) = Some [([''ls'', ''-l''], [])]
    \<and> \<not> whole_word ''rm'' (join '' '' [''ls'', ''-l''])"
proof -
  have e: "map_option co_execs (default_sessions (''golang'', ''golang:1.22'')) = Some [([''ls'', ''-l''], [])]"
    by code_simp
  then obtain c where c: "default_sessions (''golang'', ''golang:1.22'') = Some c" "co_execs c = [([''ls'', ''-l''], [])]"
    by auto
  have "fst (fold (run_shell_op default_engine demo_host default_pipe) [OpPipe (Some []) (Some demo_pipe_params)] (Map.empty, []))
      (''golang'', ''golang:1.22'') = Some c"
    using c(1) by (simp add: default_sessions_def)
  from blocked_words_never_run [OF default_pipe_new _ _ this, of "[''ls'', ''-l'']" "[]" "''rm''"] c e
  show ?thesis by (simp add: default_engine_def default_shell_config_def blocked_words_def)
qed

end
