(* ===== verification/DocSplit.thy ===== *)
theory DocSplit
  imports MemoryEntry
begin

text \<open>
  Document transformers: \<^verbatim>\<open>components/document/transformer/prune\<close> drops documents with little text,
  \<^verbatim>\<open>splitter/sizecap\<close> cuts long ones into chunks.

  A document pointer that the code compares with nil is an option. A configuration of 0 stands for an unset field.
\<close>

section \<open>Pruning\<close>

definition new_pruner :: "int \<Rightarrow> int" where
  "new_pruner min_length = (if min_length \<le> 0 then 1 else min_length)"

definition prune_documents :: "int \<Rightarrow> document option list \<Rightarrow> document option list" where
  "prune_documents min_length docs =
     (if docs = [] then docs
      else filter (\<lambda>d. case d of None \<Rightarrow> False | Some doc \<Rightarrow> min_length \<le> int (rune_count (trim_space (dc_content doc)))) docs)"

section \<open>Splitting\<close>

record splitter =
  sz_chunk :: nat
  sz_overlap :: nat

definition new_splitter :: "int \<Rightarrow> int \<Rightarrow> splitter" where
  "new_splitter chunk0 overlap0 =
     (let chunk = (if chunk0 \<le> 0 then 1000 else chunk0);
          overlap1 = (if overlap0 < 0 then 200 else overlap0);
          overlap = (if chunk \<le> overlap1 then 0 else overlap1)
      in \<lparr>sz_chunk = nat chunk, sz_overlap = nat overlap\<rparr>)"

definition split_paragraphs :: "string \<Rightarrow> string list" where
  "split_paragraphs content = split_str [CHR 0x0A, CHR 0x0A] content"

text \<open>The loop from 0 in steps of the chunk size, which is at least 1.\<close>

definition hard_split :: "splitter \<Rightarrow> string \<Rightarrow> string list" where
  "hard_split sp content =
     (let rs = runes content; n = sz_chunk sp
      in map (\<lambda>k. string_of_runes (take n (drop (k * n) rs))) [0..<(length rs + n - 1) div n])"

definition new_chunk :: "document \<Rightarrow> string \<Rightarrow> document" where
  "new_chunk source content = \<lparr>dc_id = dc_id source, dc_content = content, dc_meta = dc_meta source\<rparr>"

definition paragraph_chunks :: "splitter \<Rightarrow> document \<Rightarrow> string \<Rightarrow> document list" where
  "paragraph_chunks sp doc para =
     (if para = [] then []
      else if rune_count para \<le> sz_chunk sp then [new_chunk doc para]
      else map (new_chunk doc) (hard_split sp para))"

definition overlap_text :: "splitter \<Rightarrow> string \<Rightarrow> string" where
  "overlap_text sp prev = string_of_runes (drop (rune_count prev - sz_overlap sp) (runes prev))"

fun overlap_loop :: "splitter \<Rightarrow> string \<Rightarrow> document list \<Rightarrow> document list" where
  "overlap_loop sp prev [] = []"
| "overlap_loop sp prev (c # cs) =
     (let t = (if prev \<noteq> [] then overlap_text sp prev @ dc_content c else dc_content c)
      in c\<lparr>dc_content := t\<rparr> # overlap_loop sp t cs)"

definition merge_overlap :: "splitter \<Rightarrow> document list \<Rightarrow> document list" where
  "merge_overlap sp chunks = (if length chunks \<le> 1 then chunks else overlap_loop sp [] chunks)"

definition split_content :: "splitter \<Rightarrow> document \<Rightarrow> document list" where
  "split_content sp doc =
     (if rune_count (dc_content doc) \<le> sz_chunk sp then [doc]
      else
        let chunks = concat (map (paragraph_chunks sp doc) (split_paragraphs (dc_content doc)))
        in if chunks = [] then [doc]
           else if 0 < sz_overlap sp then merge_overlap sp chunks else chunks)"

definition split_documents :: "splitter \<Rightarrow> document list \<Rightarrow> document list" where
  "split_documents sp docs = (if docs = [] then docs else concat (map (split_content sp) docs))"

section \<open>Chunks cover the text\<close>

lemma valid_take_drop: "r \<in> set (take n (drop k (runes s))) \<Longrightarrow> valid_rune r"
  by (meson in_set_dropD in_set_takeD runes_valid)

lemma concat_slices: "concat (map (\<lambda>k. take n (drop (k * n) xs)) [0..<m]) = take (m * n) xs"
proof (induction m)
  case (Suc m)
  have "take (Suc m * n) xs = take (m * n) xs @ take n (drop (m * n) xs)"
    using take_add [of "m * n" n xs] by (simp add: add.commute)
  with Suc show ?case by simp
qed simp

lemma hard_split_covers:
  assumes "1 \<le> sz_chunk sp"
  shows "concat (map runes (hard_split sp s)) = runes s"
proof -
  let ?n = "sz_chunk sp" and ?rs = "runes s"
  let ?m = "(length ?rs + ?n - 1) div ?n"
  have "map runes (hard_split sp s) = map (\<lambda>k. take ?n (drop (k * ?n) ?rs)) [0..<?m]"
    by (simp add: hard_split_def Let_def comp_def runes_string_of_runes valid_take_drop)
  then have "concat (map runes (hard_split sp s)) = take (?m * ?n) ?rs" by (simp add: concat_slices)
  moreover have "length ?rs \<le> ?m * ?n"
  proof -
    have "?m * ?n + (length ?rs + ?n - 1) mod ?n = length ?rs + ?n - 1" by simp
    moreover have "(length ?rs + ?n - 1) mod ?n < ?n" using assms by simp
    ultimately show ?thesis using assms by linarith
  qed
  ultimately show ?thesis by simp
qed


lemma hard_split_size: "p \<in> set (hard_split sp s) \<Longrightarrow> rune_count p \<le> sz_chunk sp"
  by (auto simp: hard_split_def Let_def rune_count_def runes_string_of_runes valid_take_drop)

lemma paragraph_chunks_props:
  assumes "1 \<le> sz_chunk sp"
  shows "concat (map (runes \<circ> dc_content) (paragraph_chunks sp doc p)) = runes p
    \<and> (\<forall>c \<in> set (paragraph_chunks sp doc p). rune_count (dc_content c) \<le> sz_chunk sp \<and> dc_id c = dc_id doc \<and> dc_meta c = dc_meta doc)"
  using hard_split_covers [OF assms, of p] hard_split_size [of _ sp p]
  by (auto simp: paragraph_chunks_def new_chunk_def comp_def runes_def [of "[]"])

lemma overlap_text_size: "rune_count (overlap_text sp prev @ t) \<le> sz_overlap sp + rune_count t"
proof -
  have "runes (overlap_text sp prev @ t) = drop (rune_count prev - sz_overlap sp) (runes prev) @ runes t"
    unfolding overlap_text_def by (rule runes_string_of_runes_append) (meson in_set_dropD runes_valid)
  then show ?thesis by (simp add: rune_count_def)
qed

lemma overlap_loop_props:
  "list_all (\<lambda>c. rune_count (dc_content c) \<le> n) cs \<Longrightarrow>
    list_all (\<lambda>c. rune_count (dc_content c) \<le> sz_overlap sp + n) (overlap_loop sp prev cs)"
proof (induction cs arbitrary: prev)
  case (Cons c cs)
  have "rune_count (overlap_text sp prev @ dc_content c) \<le> sz_overlap sp + n"
    using overlap_text_size [of sp prev "dc_content c"] Cons.prems by simp
  with Cons show ?case by (auto simp: Let_def)
qed simp

text \<open>Every chunk of a document that is cut has at most the chunk size and the overlap in runes, and without overlap
  at most the chunk size; the exception is a text of separators alone, which is passed on.\<close>

theorem chunks_bounded:
  assumes "1 \<le> sz_chunk sp" and "split_content sp doc \<noteq> [doc]" and "c \<in> set (split_content sp doc)"
  shows "rune_count (dc_content c) \<le> sz_chunk sp + sz_overlap sp"
proof -
  let ?cs = "concat (map (paragraph_chunks sp doc) (split_paragraphs (dc_content doc)))"
  have "list_all (\<lambda>c. rune_count (dc_content c) \<le> sz_chunk sp) ?cs"
    unfolding list_all_iff using paragraph_chunks_props [OF assms(1)] by auto
  then have chunk: "list_all (\<lambda>c. rune_count (dc_content c) \<le> sz_chunk sp) ?cs" .
  then have small: "list_all (\<lambda>c. rune_count (dc_content c) \<le> sz_chunk sp + sz_overlap sp) ?cs"
    by (auto simp: list_all_iff intro: trans_le_add1)
  have merged: "list_all (\<lambda>c. rune_count (dc_content c) \<le> sz_overlap sp + sz_chunk sp) (overlap_loop sp [] ?cs)"
    by (rule overlap_loop_props [OF chunk])
  have "c \<in> set ?cs \<or> c \<in> set (overlap_loop sp [] ?cs)"
    using assms(2,3) by (auto simp: split_content_def merge_overlap_def Let_def split: if_splits)
  with small merged show ?thesis by (auto simp: list_all_iff add.commute)
qed

text \<open>Without overlap the chunks are the text, rune by rune, less the blank lines between paragraphs.\<close>

theorem chunks_cover:
  assumes "1 \<le> sz_chunk sp" and "sz_overlap sp = 0"
  shows "split_content sp doc = [doc]
    \<or> concat (map (runes \<circ> dc_content) (split_content sp doc)) = concat (map runes (split_paragraphs (dc_content doc)))"
proof -
  have "concat (map (runes \<circ> dc_content) (concat (map (paragraph_chunks sp doc) ps))) = concat (map runes ps)" for ps
    by (induction ps) (use paragraph_chunks_props [OF assms(1)] in \<open>simp_all add: comp_def\<close>)
  then show ?thesis using assms(2) by (auto simp: split_content_def Let_def)
qed

definition long_doc :: document where
  "long_doc = \<lparr>dc_id = ''d'', dc_content = ''abcdefgh'' @ [CHR 0x0A, CHR 0x0A] @ ''ij'', dc_meta = Map.empty\<rparr>"

theorem chunks_bounded_witness:
  "list_all (\<lambda>c. rune_count (dc_content c) \<le> 6) (split_content (new_splitter 4 2) long_doc)"
proof -
  have c: "map dc_content (split_content (new_splitter 4 2) long_doc) = [''abcd'', ''cdefgh'', ''ghij'']" by code_simp
  have "split_content (new_splitter 4 2) long_doc \<noteq> [long_doc]"
    using arg_cong [OF c, of length] by auto
  from chunks_bounded [OF _ this] show ?thesis by (auto simp: new_splitter_def list_all_iff)
qed

theorem chunks_cover_witness:
  "concat (map (runes \<circ> dc_content) (split_content (new_splitter 4 0) long_doc)) = runes ''abcdefghij''"
proof -
  have c: "map dc_content (split_content (new_splitter 4 0) long_doc) = [''abcd'', ''efgh'', ''ij'']" by code_simp
  have "split_content (new_splitter 4 0) long_doc \<noteq> [long_doc]"
    using arg_cong [OF c, of length] by auto
  moreover have "concat (map runes (split_paragraphs (dc_content long_doc))) = runes ''abcdefghij''" by code_simp
  ultimately show ?thesis using chunks_cover [of "new_splitter 4 0" long_doc] by (simp add: new_splitter_def)
qed

text \<open>With an overlap, chunks exceed the size that is documented as their maximum; and an overlap that is not set is
  none, not the documented default of 200. All chunks have the id of the document.\<close>

theorem chunk_exceeds_size:
  "(\<exists>c \<in> set (split_content (new_splitter 4 2) long_doc). sz_chunk (new_splitter 4 2) < rune_count (dc_content c))
    \<and> sz_overlap (new_splitter 0 0) = 0
    \<and> map dc_id (split_content (new_splitter 4 2) long_doc) = [''d'', ''d'', ''d'']"
  by code_simp

text \<open>Pruning keeps exactly the documents with enough text, in order, and is done after one pass.\<close>

theorem prune_twice: "prune_documents n (prune_documents n ds) = prune_documents n ds"
  by (simp add: prune_documents_def)

end
