(* ===== verification/ToolNorm.thy ===== *)
theory ToolNorm
  imports Prelude "HOL-Library.Multiset" "HOL-Library.List_Lexorder" "HOL-Library.Char_ord" "HOL-Library.Product_Lexorder"
begin

text \<open>
  Normal forms of tool definitions, \<^verbatim>\<open>components/model/cachestab\<close>: tools sorted by name, the keys of their
  JSON schemas sorted.

  A schema has the fields the code visits and the rest as one value; its ordered map of properties is the list of its
  entries, a Go map the list of its entries by key. Converting a tool's parameters to a schema and back is a
  pair of parameters. Strings are ordered by their bytes.
\<close>

section \<open>Definitions\<close>

datatype schema = Schema
  (sch_required: "string list")
  (sch_properties: "(string \<times> schema) list option")
  (sch_items: "schema option")
  (sch_contains: "schema option")
  (sch_not: "schema option")
  (sch_additional: "schema option")
  (sch_prefix_items: "schema list")
  (sch_all_of: "schema list")
  (sch_any_of: "schema list")
  (sch_one_of: "schema list")
  (sch_patterns: "(string \<times> schema) list")
  (sch_definitions: "(string \<times> schema) list")
  (sch_rest: string)

definition sort_properties :: "(string \<times> 'a) list \<Rightarrow> (string \<times> 'a) list" where
  "sort_properties ps = map (\<lambda>k. (k, the (map_of ps k))) (sort (map fst ps))"

primrec normalize_schema :: "schema \<Rightarrow> schema" where
  "normalize_schema (Schema req props items cont neg additional prefixed alls anys ones patterns defs rest) =
     Schema (if req \<noteq> [] then sort req else req)
       (map_option sort_properties (map_option (map (map_prod id normalize_schema)) props))
       (map_option normalize_schema items) (map_option normalize_schema cont) (map_option normalize_schema neg)
       (map_option normalize_schema additional) (map normalize_schema prefixed) (map normalize_schema alls)
       (map normalize_schema anys) (map normalize_schema ones) (map (map_prod id normalize_schema) patterns)
       (map (map_prod id normalize_schema) defs) rest"

record 'p tool_info =
  ti_name :: string
  ti_desc :: string
  ti_params :: "'p option"

record 'p params_ops =
  po_to_schema :: "'p \<Rightarrow> schema option option"
  po_of_schema :: "schema option \<Rightarrow> 'p"

definition normalize_tool :: "'p params_ops \<Rightarrow> 'p tool_info option \<Rightarrow> string + 'p tool_info option" where
  "normalize_tool ops t =
     (case t of
        None \<Rightarrow> Inr None
      | Some ti \<Rightarrow>
          (case ti_params ti of
             None \<Rightarrow> Inr (Some ti)
           | Some p \<Rightarrow>
               (case po_to_schema ops p of
                  None \<Rightarrow> Inl (ti_name ti)
                | Some sc \<Rightarrow> Inr (Some (ti\<lparr>ti_params := Some (po_of_schema ops (map_option normalize_schema sc))\<rparr>)))))"

fun normalize_each :: "'p params_ops \<Rightarrow> 'p tool_info option list \<Rightarrow> string + 'p tool_info option list" where
  "normalize_each ops [] = Inr []"
| "normalize_each ops (t # ts) =
     (case normalize_tool ops t of
        Inl e \<Rightarrow> Inl e
      | Inr t' \<Rightarrow> (case normalize_each ops ts of Inl e \<Rightarrow> Inl e | Inr ts' \<Rightarrow> Inr (t' # ts')))"

text \<open>The order of the sort: nil tools first, then by name.\<close>

definition tool_key :: "'p tool_info option \<Rightarrow> bool \<times> string" where
  "tool_key t = (case t of None \<Rightarrow> (False, []) | Some ti \<Rightarrow> (True, ti_name ti))"

definition normalize_tools :: "'p params_ops \<Rightarrow> 'p tool_info option list \<Rightarrow> string + 'p tool_info option list" where
  "normalize_tools ops ts =
     (case normalize_each ops ts of Inl e \<Rightarrow> Inl e | Inr ts' \<Rightarrow> Inr (sort_key tool_key ts'))"

text \<open>Binding tools: the base model gets the normalized ones.\<close>

definition with_tools :: "'p params_ops \<Rightarrow> ('p tool_info option list \<Rightarrow> string + 'm) \<Rightarrow> 'p tool_info option list \<Rightarrow> string + 'm" where
  "with_tools ops bind ts = (case normalize_tools ops ts of Inl e \<Rightarrow> Inl e | Inr ts' \<Rightarrow> bind ts')"

section \<open>Sorting properties\<close>

lemma sort_properties_sort: "distinct (map fst ps) \<Longrightarrow> sort_properties ps = sort_key fst ps"
proof -
  assume d: "distinct (map fst ps)"
  have "sort (map fst ps) = map fst (sort_key fst ps)"
    by (rule properties_for_sort) simp_all
  then have "sort_properties ps = map (\<lambda>x. (fst x, the (map_of ps (fst x)))) (sort_key fst ps)"
    by (simp add: sort_properties_def comp_def)
  also have "\<dots> = map (\<lambda>x. x) (sort_key fst ps)"
    using d by (intro map_cong refl) (auto simp: map_of_eq_Some_iff)
  finally show ?thesis by simp
qed

lemma sort_key_mset:
  assumes "mset xs = mset ys" and "inj_on f (set xs)"
  shows "sort_key f xs = sort_key f ys"
  using assms by (intro sort_key_inj_key_eq) (auto dest: mset_eq_setD)

lemma inj_on_fst: "distinct (map fst ps) \<Longrightarrow> inj_on fst (set ps)"
  by (simp add: distinct_map)

section \<open>Schemas that differ in order only\<close>

text \<open>The same schema up to the order of its required names and of its properties, at every depth.\<close>

definition reordered :: "(schema \<Rightarrow> schema \<Rightarrow> bool) \<Rightarrow> (string \<times> schema) list \<Rightarrow> (string \<times> schema) list \<Rightarrow> bool" where
  "reordered R ps qs \<longleftrightarrow> distinct (map fst ps) \<and> (\<exists>rs. mset rs = mset qs \<and> list_all2 (rel_prod (=) R) ps rs)"

lemma reordered_mono [mono]: "(\<And>x y. R x y \<longrightarrow> S x y) \<Longrightarrow> reordered R ps qs \<longrightarrow> reordered S ps qs"
proof
  assume RS: "\<And>x y. R x y \<longrightarrow> S x y" and r: "reordered R ps qs"
  then obtain rs where rs: "distinct (map fst ps)" "mset rs = mset qs" "list_all2 (rel_prod (=) R) ps rs"
    by (auto simp: reordered_def)
  have "list_all2 (rel_prod (=) S) ps rs"
    by (rule list_all2_mono [OF rs(3)]) (use RS in \<open>auto simp: rel_prod_sel\<close>)
  with rs show "reordered S ps qs" by (auto simp: reordered_def)
qed

inductive same_schema :: "schema \<Rightarrow> schema \<Rightarrow> bool" where
  "mset req = mset req' \<Longrightarrow> rel_option (reordered same_schema) props props' \<Longrightarrow> rel_option same_schema items items' \<Longrightarrow>
    rel_option same_schema cont cont' \<Longrightarrow> rel_option same_schema neg neg' \<Longrightarrow> rel_option same_schema additional additional' \<Longrightarrow>
    list_all2 same_schema prefixed prefixed' \<Longrightarrow> list_all2 same_schema alls alls' \<Longrightarrow> list_all2 same_schema anys anys' \<Longrightarrow>
    list_all2 same_schema ones ones' \<Longrightarrow> list_all2 (rel_prod (=) same_schema) patterns patterns' \<Longrightarrow>
    list_all2 (rel_prod (=) same_schema) defs defs' \<Longrightarrow>
    same_schema (Schema req props items cont neg additional prefixed alls anys ones patterns defs rest)
      (Schema req' props' items' cont' neg' additional' prefixed' alls' anys' ones' patterns' defs' rest)"

abbreviation norm_eq :: "schema \<Rightarrow> schema \<Rightarrow> bool" where
  "norm_eq s t \<equiv> same_schema s t \<and> normalize_schema s = normalize_schema t"

lemma norm_option: "rel_option norm_eq a b \<Longrightarrow> map_option normalize_schema a = map_option normalize_schema b"
  by (cases a; cases b) simp_all

lemma norm_list: "list_all2 norm_eq xs ys \<Longrightarrow> map normalize_schema xs = map normalize_schema ys"
  by (induction rule: list_all2_induct) simp_all

lemma norm_alist: "list_all2 (rel_prod (=) norm_eq) xs ys \<Longrightarrow>
    map (map_prod id normalize_schema) xs = map (map_prod id normalize_schema) ys"
  by (induction rule: list_all2_induct) (auto simp: rel_prod_sel map_prod_def split_beta)

lemma norm_reordered:
  assumes "reordered norm_eq ps qs"
  shows "sort_properties (map (map_prod id normalize_schema) ps) = sort_properties (map (map_prod id normalize_schema) qs)"
proof -
  let ?N = "map (map_prod id normalize_schema)"
  obtain rs where d: "distinct (map fst ps)" and rs: "mset rs = mset qs" "list_all2 (rel_prod (=) norm_eq) ps rs"
    using assms by (auto simp: reordered_def)
  have n: "?N ps = ?N rs" by (rule norm_alist [OF rs(2)])
  then have m: "mset (?N ps) = mset (?N qs)" using rs(1) by simp
  have dN: "distinct (map fst (?N ps))" using d by (simp add: comp_def)
  have "mset (map fst (?N ps)) = mset (map fst (?N qs))"
    using arg_cong [OF m, of "image_mset fst"] by (simp only: mset_map)
  then have "distinct (map fst (?N qs))" using dN mset_eq_imp_distinct_iff by blast
  then show ?thesis using sort_key_mset [OF m inj_on_fst [OF dN]] dN by (simp add: sort_properties_sort)
qed

lemma normalize_same: "same_schema s t \<Longrightarrow> normalize_schema s = normalize_schema t"
proof (induction rule: same_schema.induct)
  case (1 req req' props props' items items' cont cont' neg neg' additional additional' prefixed prefixed' alls alls'
      anys anys' ones ones' patterns patterns' defs defs' rest)
  have "map_option sort_properties (map_option (map (map_prod id normalize_schema)) props)
      = map_option sort_properties (map_option (map (map_prod id normalize_schema)) props')"
    using 1(2) norm_reordered by (cases props; cases props') simp_all
  moreover have "sort req = sort req'" using 1(1) by (metis mset_sort properties_for_sort sorted_sort)
  moreover have "req = [] \<longleftrightarrow> req' = []" using 1(1) by (metis mset_zero_iff)
  ultimately show ?case
    using 1(3-6) [THEN norm_option] 1(7-10) [THEN norm_list] 1(11,12) [THEN norm_alist] by simp
qed


section \<open>Normalization is canonical\<close>

lemma reordered_self: "list_all2 (rel_prod (=) same_schema) ps ps \<Longrightarrow> distinct (map fst ps) \<Longrightarrow> reordered same_schema ps ps"
  unfolding reordered_def by blast

text \<open>The same tool up to the order inside its schema.\<close>

definition same_tool :: "'p params_ops \<Rightarrow> 'p tool_info option \<Rightarrow> 'p tool_info option \<Rightarrow> bool" where
  "same_tool ops t u \<longleftrightarrow>
     (case (t, u) of
        (None, None) \<Rightarrow> True
      | (Some a, Some b) \<Rightarrow>
          ti_name a = ti_name b \<and> ti_desc a = ti_desc b
          \<and> rel_option (\<lambda>p q. rel_option (rel_option same_schema) (po_to_schema ops p) (po_to_schema ops q)) (ti_params a) (ti_params b)
      | _ \<Rightarrow> False)"

lemma normalize_same_tool:
  assumes "same_tool ops t u"
  shows "normalize_tool ops t = normalize_tool ops u"
proof (cases t; cases u)
  fix a b assume t: "t = Some a" and u: "u = Some b"
  have n: "ti_name a = ti_name b" "ti_desc a = ti_desc b" using assms by (simp_all add: t u same_tool_def)
  show ?thesis
  proof (cases "ti_params a")
    case None
    then show ?thesis using assms n by (simp add: t u same_tool_def normalize_tool_def)
  next
    case (Some p)
    then obtain q where q: "ti_params b = Some q" "rel_option (rel_option same_schema) (po_to_schema ops p) (po_to_schema ops q)"
      using assms by (auto simp: t u same_tool_def option_rel_Some1)
    show ?thesis
    proof (cases "po_to_schema ops p"; cases "po_to_schema ops q")
      fix sc sc' assume sc: "po_to_schema ops p = Some sc" "po_to_schema ops q = Some sc'"
      then have "map_option normalize_schema sc = map_option normalize_schema sc'"
        using q(2) normalize_same by (cases sc; cases sc') auto
      then show ?thesis using n Some q(1) sc by (simp add: t u normalize_tool_def)
    qed (use n Some q in \<open>simp_all add: t u normalize_tool_def\<close>)
  qed
qed (use assms in \<open>simp_all add: same_tool_def\<close>)

lemma normalize_each_iff:
  "normalize_each ops ts = Inr us \<longleftrightarrow> list_all (\<lambda>t. is_ok (normalize_tool ops t)) ts \<and> us = map (projr \<circ> normalize_tool ops) ts"
  by (induction ts arbitrary: us) (auto split: sum.splits, blast)

lemma normalize_tool_key: "normalize_tool ops t = Inr u \<Longrightarrow> tool_key u = tool_key t"
  by (auto simp: normalize_tool_def tool_key_def split: option.splits)

lemma normalize_tools_mset:
  assumes "mset ts = mset us" and "inj_on tool_key (set ts)" and "normalize_tools ops ts = Inr r"
  shows "normalize_tools ops us = Inr r"
proof -
  let ?f = "projr \<circ> normalize_tool ops"
  obtain ts' where ts': "normalize_each ops ts = Inr ts'" "r = sort_key tool_key ts'"
    using assms(3) by (auto simp: normalize_tools_def split: sum.splits)
  then have ok: "list_all (\<lambda>t. is_ok (normalize_tool ops t)) ts" and "ts' = map ?f ts"
    by (simp_all add: normalize_each_iff)
  have s: "set us = set ts" using assms(1) by (metis mset_eq_setD)
  have key: "tool_key (?f t) = tool_key t" if "t \<in> set ts" for t
    using ok that normalize_tool_key [of ops t] by (cases "normalize_tool ops t") (auto simp: list_all_iff)
  have "inj_on tool_key (set (map ?f ts))"
  proof (rule inj_onI)
    fix x y assume "x \<in> set (map ?f ts)" "y \<in> set (map ?f ts)" "tool_key x = tool_key y"
    then obtain t u where "t \<in> set ts" "u \<in> set ts" "x = ?f t" "y = ?f u" "tool_key (?f t) = tool_key (?f u)" by auto
    with key assms(2) show "x = y" by (metis inj_onD)
  qed
  then have "sort_key tool_key (map ?f ts) = sort_key tool_key (map ?f us)"
    using assms(1) by (intro sort_key_mset) simp_all
  moreover have "normalize_each ops us = Inr (map ?f us)"
    using ok s by (simp add: normalize_each_iff list_all_iff)
  ultimately show ?thesis using ts' \<open>ts' = map ?f ts\<close> by (simp add: normalize_tools_def)
qed

text \<open>C37: Normalization is canonical: two lists of the same tools, in any order and with their schemas written in any order
  at any depth, give the same definitions to the model, as long as the names identify the tools.\<close>

theorem normalize_tools_canonical:
  assumes "list_all2 (same_tool ops) ts ts'" and "mset ts' = mset us"
    and "\<And>t u. Some t \<in> set us \<Longrightarrow> Some u \<in> set us \<Longrightarrow> ti_name t = ti_name u \<Longrightarrow> t = u"
    and "normalize_tools ops ts = Inr r"
  shows "normalize_tools ops us = Inr r"
proof -
  have "normalize_each ops ts = normalize_each ops ts'" using assms(1)
    by (induction rule: list_all2_induct) (simp_all add: normalize_same_tool cong: sum.case_cong)
  then have "normalize_tools ops ts' = Inr r" using assms(4) by (simp add: normalize_tools_def)
  moreover have "inj_on tool_key (set ts')"
  proof (rule inj_onI)
    fix t u assume "t \<in> set ts'" "u \<in> set ts'" "tool_key t = tool_key u"
    then have m: "t \<in> set us" "u \<in> set us" and k: "tool_key t = tool_key u" using mset_eq_setD [OF assms(2)] by auto
    show "t = u"
    proof (cases "(t, u)" rule: prod.exhaust)
      case (Pair a b)
      then show ?thesis using m k assms(3) by (auto simp: tool_key_def split: option.splits)
    qed
  qed
  ultimately show ?thesis by (intro normalize_tools_mset [OF assms(2)])
qed

text \<open>Normalization changes no tool but for the order inside its schema: the names, in order, are the sorted names.\<close>

theorem normalize_tools_names:
  assumes "normalize_tools ops ts = Inr r"
  shows "map tool_key r = sort (map tool_key ts)"
proof -
  let ?f = "projr \<circ> normalize_tool ops"
  obtain ts' where ts': "normalize_each ops ts = Inr ts'" "r = sort_key tool_key ts'"
    using assms by (auto simp: normalize_tools_def split: sum.splits)
  then have ok: "list_all (\<lambda>t. is_ok (normalize_tool ops t)) ts" and m: "ts' = map ?f ts"
    by (simp_all add: normalize_each_iff)
  have "tool_key (?f t) = tool_key t" if "t \<in> set ts" for t
    using ok that normalize_tool_key [of ops t] by (cases "normalize_tool ops t") (auto simp: list_all_iff)
  then have "map tool_key ts' = map tool_key ts" unfolding m by simp
  then have "mset (map tool_key r) = mset (map tool_key ts)" unfolding ts'(2) by (metis mset_map mset_sort)
  then show ?thesis by (intro properties_for_sort [symmetric]) (simp_all add: ts'(2))
qed

section \<open>Examples\<close>

definition leaf :: "string list \<Rightarrow> (string \<times> schema) list option \<Rightarrow> schema" where
  "leaf req props = Schema req props None None None None [] [] [] [] [] [] []"

definition plain_ops :: "schema option params_ops" where
  "plain_ops = \<lparr>po_to_schema = (\<lambda>p. Some p), po_of_schema = (\<lambda>p. p)\<rparr>"

definition named_tool :: "string \<Rightarrow> schema \<Rightarrow> schema option tool_info option" where
  "named_tool n s = Some \<lparr>ti_name = n, ti_desc = [], ti_params = Some (Some s)\<rparr>"

definition ab_schema :: schema where
  "ab_schema = leaf [''a'', ''b''] (Some [(''a'', leaf [] None), (''b'', leaf [] None)])"

definition ba_schema :: schema where
  "ba_schema = leaf [''b'', ''a''] (Some [(''b'', leaf [] None), (''a'', leaf [] None)])"

lemma ab_same_ba: "same_schema ab_schema ba_schema"
proof -
  have l: "same_schema (leaf [] None) (leaf [] None)" unfolding leaf_def by (rule same_schema.intros) simp_all
  have "reordered same_schema [(''a'', leaf [] None), (''b'', leaf [] None)] [(''b'', leaf [] None), (''a'', leaf [] None)]"
    unfolding reordered_def
    by (intro conjI exI [of _ "[(''a'', leaf [] None), (''b'', leaf [] None)]"]) (simp_all add: l add_mset_commute)
  then show ?thesis unfolding ab_schema_def ba_schema_def leaf_def [of "[_, _]"]
    by (intro same_schema.intros) (simp_all add: add_mset_commute)
qed

theorem normalize_tools_canonical_witness:
  "\<exists>r. normalize_tools plain_ops [named_tool ''x'' ab_schema, None] = Inr r
    \<and> normalize_tools plain_ops [None, named_tool ''x'' ba_schema] = Inr r"
proof -
  obtain r where r: "normalize_tools plain_ops [named_tool ''x'' ab_schema, None] = Inr r"
    by (auto simp: normalize_tools_def normalize_tool_def named_tool_def plain_ops_def)
  have "list_all2 (same_tool plain_ops) [named_tool ''x'' ab_schema, None] [named_tool ''x'' ba_schema, None]"
    using ab_same_ba by (simp add: same_tool_def named_tool_def plain_ops_def)
  from normalize_tools_canonical [OF this _ _ r, of "[None, named_tool ''x'' ba_schema]"]
  have "normalize_tools plain_ops [None, named_tool ''x'' ba_schema] = Inr r"
    by (simp add: named_tool_def add_mset_commute)
  with r show ?thesis by blast
qed

theorem normalize_tools_names_witness:
  "\<exists>r. normalize_tools plain_ops [named_tool ''y'' ab_schema, named_tool ''x'' ab_schema] = Inr r
    \<and> map tool_key r = [(True, ''x''), (True, ''y'')]"
proof -
  obtain r where r: "normalize_tools plain_ops [named_tool ''y'' ab_schema, named_tool ''x'' ab_schema] = Inr r"
    by (auto simp: normalize_tools_def normalize_tool_def named_tool_def plain_ops_def)
  moreover have "sort (map tool_key [named_tool ''y'' ab_schema, named_tool ''x'' ab_schema]) = [(True, ''x''), (True, ''y'')]"
    by (simp add: tool_key_def named_tool_def)
  ultimately show ?thesis using normalize_tools_names [OF r] by auto
qed

end
