(* ===== verification/Selector.thy ===== *)
theory Selector
  imports GoText
begin

text \<open>
  JSON filters, \<^verbatim>\<open>libs/toolkit/filter\<close>: a selector object, a regular expression, or nothing.

  A decoded object is the list of its entries in the order Go happens to range over them, with distinct keys; a
  number is the text \<open>strconv.FormatFloat\<close> gives it. Decoding and encoding JSON, regular expressions, case folding and
  lower case are the record \<open>filter_env\<close>.
\<close>

section \<open>Selectors\<close>

datatype json = JNull | JBool bool | JNum string | JStr string | JArr "json list" | JObj "(string \<times> json) list"

record segment =
  sg_field :: string
  sg_array :: bool

record condition =
  cn_segments :: "segment list"
  cn_bare :: string
  cn_expected :: "string list"

record filter_env =
  fe_fold :: "nat \<Rightarrow> nat"
  fe_lower :: "nat \<Rightarrow> nat"
  fe_marshal :: "json \<Rightarrow> string option"
  fe_decode :: "string \<Rightarrow> (string \<times> json) list option"
  fe_regexp :: "string \<Rightarrow> (string \<Rightarrow> bool) option"

datatype filter_error = EmptySegment | ArrayIndex | BadRegexp | BadSelector

definition lower_text :: "filter_env \<Rightarrow> string \<Rightarrow> string" where
  "lower_text fe s = string_of_runes (map (fe_lower fe) (runes s))"

definition normalize_value :: "filter_env \<Rightarrow> json \<Rightarrow> string" where
  "normalize_value fe v =
     (case v of
        JNull \<Rightarrow> ''null''
      | JStr s \<Rightarrow> lower_text fe s
      | JBool b \<Rightarrow> if b then ''true'' else ''false''
      | JNum s \<Rightarrow> s
      | _ \<Rightarrow> (case fe_marshal fe v of None \<Rightarrow> [] | Some s \<Rightarrow> lower_text fe s))"

definition brackets :: string where "brackets = ''[]''"

definition parse_segment :: "string \<Rightarrow> filter_error + segment" where
  "parse_segment part =
     (if part = [] then Inl EmptySegment
      else if part = brackets then Inr \<lparr>sg_field = [], sg_array = True\<rparr>
      else if suffix brackets part then Inr \<lparr>sg_field = take (length part - 2) part, sg_array = True\<rparr>
      else if CHR ''['' \<in> set part \<or> CHR '']'' \<in> set part then Inl ArrayIndex
      else Inr \<lparr>sg_field = part, sg_array = False\<rparr>)"

fun parse_segments :: "string list \<Rightarrow> filter_error + segment list" where
  "parse_segments [] = Inr []"
| "parse_segments (p # ps) =
     (case parse_segment p of
        Inl e \<Rightarrow> Inl e
      | Inr s \<Rightarrow> (case parse_segments ps of Inl e \<Rightarrow> Inl e | Inr ss \<Rightarrow> Inr (s # ss)))"

definition parse_selector_path :: "string \<Rightarrow> filter_error + segment list \<times> string" where
  "parse_selector_path key =
     (if key = [] then Inl EmptySegment
      else if CHR ''.'' \<notin> set key \<and> CHR ''['' \<notin> set key then Inr ([], key)
      else case parse_segments (split_char CHR ''.'' key) of Inl e \<Rightarrow> Inl e | Inr ss \<Rightarrow> Inr (ss, []))"

definition expected_values :: "filter_env \<Rightarrow> json \<Rightarrow> string list" where
  "expected_values fe v = (case v of JArr vs \<Rightarrow> map (normalize_value fe) vs | _ \<Rightarrow> [normalize_value fe v])"

fun compile_selector :: "filter_env \<Rightarrow> (string \<times> json) list \<Rightarrow> filter_error + condition list" where
  "compile_selector fe [] = Inr []"
| "compile_selector fe ((k, v) # es) =
     (case parse_selector_path k of
        Inl e \<Rightarrow> Inl e
      | Inr (sgs, bare) \<Rightarrow>
          (case compile_selector fe es of
             Inl e \<Rightarrow> Inl e
           | Inr cs \<Rightarrow> Inr (\<lparr>cn_segments = sgs, cn_bare = bare, cn_expected = expected_values fe v\<rparr> # cs)))"

text \<open>The exact field, or else one whose name differs in case only.\<close>

definition lookup_field :: "filter_env \<Rightarrow> (string \<times> json) list \<Rightarrow> string \<Rightarrow> json option" where
  "lookup_field fe obj field =
     (case map_of obj field of
        Some v \<Rightarrow> Some v
      | None \<Rightarrow> map_option snd (find (\<lambda>(k, v). equal_fold (fe_fold fe) k field) obj))"

fun resolve_values :: "filter_env \<Rightarrow> segment list \<Rightarrow> json \<Rightarrow> json list" where
  "resolve_values fe [] cur = [cur]"
| "resolve_values fe (seg # sgs) cur =
     (if sg_array seg
      then case (if sg_field seg = [] then Some cur
                 else case cur of JObj obj \<Rightarrow> lookup_field fe obj (sg_field seg) | _ \<Rightarrow> None) of
          Some (JArr els) \<Rightarrow> concat (map (resolve_values fe sgs) els)
        | _ \<Rightarrow> []
      else case cur of
          JObj obj \<Rightarrow> (case lookup_field fe obj (sg_field seg) of None \<Rightarrow> [] | Some v \<Rightarrow> resolve_values fe sgs v)
        | _ \<Rightarrow> [])"

fun find_recursive :: "filter_env \<Rightarrow> string \<Rightarrow> json \<Rightarrow> json list" where
  "find_recursive fe key (JObj obj) =
     concat (map (\<lambda>(k, v). (if equal_fold (fe_fold fe) k key then [v] else []) @ find_recursive fe key v) obj)"
| "find_recursive fe key (JArr els) = concat (map (find_recursive fe key) els)"
| "find_recursive fe key JNull = []"
| "find_recursive fe key (JBool b) = []"
| "find_recursive fe key (JNum s) = []"
| "find_recursive fe key (JStr s) = []"

definition intersects :: "filter_env \<Rightarrow> json list \<Rightarrow> string list \<Rightarrow> bool" where
  "intersects fe actual expected \<longleftrightarrow>
     actual \<noteq> [] \<and> expected \<noteq> [] \<and> list_ex (\<lambda>e. e \<in> set (map (normalize_value fe) actual)) expected"

definition condition_holds :: "filter_env \<Rightarrow> (string \<times> json) list \<Rightarrow> condition \<Rightarrow> bool" where
  "condition_holds fe obj c \<longleftrightarrow>
     intersects fe (if cn_bare c \<noteq> [] then find_recursive fe (cn_bare c) (JObj obj) else resolve_values fe (cn_segments c) (JObj obj))
       (cn_expected c)"

definition match_object :: "filter_env \<Rightarrow> condition list \<Rightarrow> (string \<times> json) list \<Rightarrow> bool" where
  "match_object fe cs obj \<longleftrightarrow> list_all (condition_holds fe obj) cs"

section \<open>Matchers\<close>

datatype matcher = MatchAll | MatchRegexp "string \<Rightarrow> bool" | MatchSelector "condition list"

definition compile_regexp :: "filter_env \<Rightarrow> string \<Rightarrow> filter_error + (string \<Rightarrow> bool) option" where
  "compile_regexp fe pat =
     (if pat = [] then Inr None else case fe_regexp fe pat of None \<Rightarrow> Inl BadRegexp | Some m \<Rightarrow> Inr (Some m))"

definition match_regexp :: "string \<Rightarrow> (string \<Rightarrow> bool) option \<Rightarrow> bool" where
  "match_regexp data f = (case f of None \<Rightarrow> True | Some m \<Rightarrow> m data)"

definition compile_matcher :: "filter_env \<Rightarrow> string \<Rightarrow> filter_error + matcher" where
  "compile_matcher fe pat =
     (let p = trim_space pat in
      if p = [] then Inr MatchAll
      else if hd p = CHR 0x7B
        then (case fe_decode fe p of
            None \<Rightarrow> Inl BadSelector
          | Some m \<Rightarrow> (case compile_selector fe m of Inl e \<Rightarrow> Inl e | Inr cs \<Rightarrow> Inr (MatchSelector cs)))
      else case fe_regexp fe p of None \<Rightarrow> Inl BadRegexp | Some m \<Rightarrow> Inr (MatchRegexp m))"

fun matcher_json :: "filter_env \<Rightarrow> matcher \<Rightarrow> string \<Rightarrow> bool" where
  "matcher_json fe MatchAll data = True"
| "matcher_json fe (MatchRegexp m) data = m data"
| "matcher_json fe (MatchSelector cs) data = (case fe_decode fe data of None \<Rightarrow> False | Some obj \<Rightarrow> match_object fe cs obj)"

fun matcher_object :: "filter_env \<Rightarrow> matcher \<Rightarrow> (string \<times> json) list \<Rightarrow> bool" where
  "matcher_object fe MatchAll obj = True"
| "matcher_object fe (MatchRegexp m) obj = (case fe_marshal fe (JObj obj) of None \<Rightarrow> False | Some data \<Rightarrow> m data)"
| "matcher_object fe (MatchSelector cs) obj = match_object fe cs obj"

section \<open>What a selector means\<close>

text \<open>The values a path leads to, and the values of a field at any depth.\<close>

inductive leads_to :: "filter_env \<Rightarrow> json \<Rightarrow> segment list \<Rightarrow> json \<Rightarrow> bool" for fe where
  here: "leads_to fe v [] v"
| field: "lookup_field fe obj f = Some w \<Longrightarrow> leads_to fe w sgs v \<Longrightarrow>
    leads_to fe (JObj obj) (\<lparr>sg_field = f, sg_array = False\<rparr> # sgs) v"
| element: "w \<in> set els \<Longrightarrow> leads_to fe w sgs v \<Longrightarrow> leads_to fe (JArr els) (\<lparr>sg_field = [], sg_array = True\<rparr> # sgs) v"
| field_element: "f \<noteq> [] \<Longrightarrow> lookup_field fe obj f = Some (JArr els) \<Longrightarrow> w \<in> set els \<Longrightarrow> leads_to fe w sgs v \<Longrightarrow>
    leads_to fe (JObj obj) (\<lparr>sg_field = f, sg_array = True\<rparr> # sgs) v"

inductive holds_field :: "filter_env \<Rightarrow> string \<Rightarrow> json \<Rightarrow> json \<Rightarrow> bool" for fe key where
  own: "(k, v) \<in> set obj \<Longrightarrow> equal_fold (fe_fold fe) k key \<Longrightarrow> holds_field fe key (JObj obj) v"
| inner: "(k, w) \<in> set obj \<Longrightarrow> holds_field fe key w v \<Longrightarrow> holds_field fe key (JObj obj) v"
| item: "w \<in> set els \<Longrightarrow> holds_field fe key w v \<Longrightarrow> holds_field fe key (JArr els) v"

inductive_cases leads_to_NilE: "leads_to fe cur [] v"
inductive_cases leads_to_ConsE: "leads_to fe cur (seg # sgs) v"

lemma resolve_values_sound: "v \<in> set (resolve_values fe sgs cur) \<Longrightarrow> leads_to fe cur sgs v"
proof (induction sgs arbitrary: cur)
  case (Cons seg sgs)
  obtain f arr where seg: "seg = \<lparr>sg_field = f, sg_array = arr\<rparr>" by (cases seg) auto
  show ?case using Cons by (cases cur) (auto simp: seg intro: leads_to.intros split: if_splits option.splits json.splits dest!: sym [of "Some _"])
qed (simp add: leads_to.here)

lemma resolve_values_complete: "leads_to fe cur sgs v \<Longrightarrow> v \<in> set (resolve_values fe sgs cur)"
  by (induction rule: leads_to.induct) auto

lemma resolve_values_iff: "v \<in> set (resolve_values fe sgs cur) \<longleftrightarrow> leads_to fe cur sgs v"
  using resolve_values_sound resolve_values_complete by blast

lemma find_recursive_sound: "v \<in> set (find_recursive fe key cur) \<Longrightarrow> holds_field fe key cur v"
  by (induction fe key cur rule: find_recursive.induct) (force intro: holds_field.intros split: if_splits)+

lemma find_recursive_complete: "holds_field fe key cur v \<Longrightarrow> v \<in> set (find_recursive fe key cur)"
  by (induction rule: holds_field.induct) force+

lemma find_recursive_iff: "v \<in> set (find_recursive fe key cur) \<longleftrightarrow> holds_field fe key cur v"
  using find_recursive_sound find_recursive_complete by blast

definition selects :: "filter_env \<Rightarrow> (string \<times> json) list \<Rightarrow> condition \<Rightarrow> json \<Rightarrow> bool" where
  "selects fe obj c v \<longleftrightarrow>
     (if cn_bare c \<noteq> [] then holds_field fe (cn_bare c) (JObj obj) v else leads_to fe (JObj obj) (cn_segments c) v)"

lemma intersects_iff: "intersects fe actual expected \<longleftrightarrow> (\<exists>v \<in> set actual. normalize_value fe v \<in> set expected)"
  by (cases actual; cases expected) (auto simp: intersects_def list_ex_iff)

text \<open>C38: An object matches a selector exactly when every condition selects a value of it that has one of the expected
  texts: where a path leads, through fields in any case and any element of an array, or at any depth for a bare key.\<close>

theorem match_object_iff:
  "match_object fe cs obj \<longleftrightarrow> (\<forall>c \<in> set cs. \<exists>v. selects fe obj c v \<and> normalize_value fe v \<in> set (cn_expected c))"
proof -
  have "condition_holds fe obj c \<longleftrightarrow> (\<exists>v. selects fe obj c v \<and> normalize_value fe v \<in> set (cn_expected c))" for c
    by (cases "cn_bare c = []")
      (auto simp: condition_holds_def intersects_iff selects_def resolve_values_iff find_recursive_iff simp del: find_recursive.simps)
  then show ?thesis by (simp add: match_object_def list_all_iff)
qed

definition demo_env :: filter_env where
  "demo_env = \<lparr>fe_fold = id, fe_lower = id, fe_marshal = (\<lambda>v. None), fe_decode = (\<lambda>s. None), fe_regexp = (\<lambda>s. None)\<rparr>"

definition demo_pod :: "(string \<times> json) list" where
  "demo_pod = [(''spec'', JObj [(''containers'', JArr [JObj [(''port'', JNum ''80'')], JObj [(''port'', JNum ''443'')]])])]"

definition demo_condition :: "string \<Rightarrow> string \<Rightarrow> condition list" where
  "demo_condition key value =
     (case compile_selector demo_env [(key, JNum value)] of Inl e \<Rightarrow> [] | Inr cs \<Rightarrow> cs)"

theorem match_object_iff_witness:
  "\<exists>v. selects demo_env demo_pod (hd (demo_condition ''spec.containers[].port'' ''443'')) v \<and> normalize_value demo_env v = ''443''"
proof -
  have "match_object demo_env (demo_condition ''spec.containers[].port'' ''443'') demo_pod" by code_simp
  then have "\<forall>c \<in> set (demo_condition ''spec.containers[].port'' ''443'').
      \<exists>v. selects demo_env demo_pod c v \<and> normalize_value demo_env v \<in> set (cn_expected c)"
    by (rule iffD1 [OF match_object_iff])
  moreover have "map cn_expected (demo_condition ''spec.containers[].port'' ''443'') = [[''443'']]" by code_simp
  ultimately show ?thesis by (cases "demo_condition ''spec.containers[].port'' ''443''") auto
qed

end
