(* ===== verification/FileTree.thy ===== *)
theory FileTree
  imports FileUtil "HOL-Library.AList" "HOL-Library.List_Lexorder" "HOL-Library.Char_ord"
begin

text \<open>
  The file system under the work directory as a tree, the system calls the file tools make, and the parts of
  \<^verbatim>\<open>libs/toolkit/fileutil\<close> that change it: \<open>CopyFileContents\<close>, \<open>CopyDir\<close>, \<open>WalkDirFiles\<close>, \<open>TouchDir\<close>,
  \<open>SweepStaleDirs\<close>.

  A path is the list of its elements below the work directory. Which calls fail, how much of a failing write
  gets out, whether a rename crosses devices and what lies behind a symbolic link is the environment's choice, the
  record \<open>host_io\<close>. A change through a link leaves the tree: the world logs it as an escape.
\<close>

section \<open>Trees\<close>

datatype fsobj = Reg string | Sym string | Folder "(string \<times> fsobj) list"

datatype head = HFile string | HLink string | HDir

fun head_of :: "fsobj \<Rightarrow> head" where
  "head_of (Reg c) = HFile c"
| "head_of (Sym t) = HLink t"
| "head_of (Folder es) = HDir"

fun lookup :: "fsobj \<Rightarrow> string list \<Rightarrow> fsobj option" where
  "lookup x [] = Some x"
| "lookup (Folder es) (n # ns) = (case map_of es n of None \<Rightarrow> None | Some x \<Rightarrow> lookup x ns)"
| "lookup x (n # ns) = None"

definition look :: "fsobj \<Rightarrow> string list \<Rightarrow> head option" where
  "look d p = map_option head_of (lookup d p)"

text \<open>Put an object at a path, or take the one there away, where the directory it is in exists.\<close>

fun set_at :: "string list \<Rightarrow> fsobj option \<Rightarrow> fsobj \<Rightarrow> fsobj" where
  "set_at [] v x = (case v of None \<Rightarrow> x | Some y \<Rightarrow> y)"
| "set_at (n # ns) v (Folder es) =
     Folder (if ns = [] then (case v of None \<Rightarrow> AList.delete n es | Some y \<Rightarrow> AList.update n y es)
             else (case map_of es n of None \<Rightarrow> es | Some x \<Rightarrow> AList.update n (set_at ns v x) es))"
| "set_at (n # ns) v x = x"

lemma look_simps [simp]:
  "look x [] = Some (head_of x)"
  "look (Folder es) (n # ns) = (case map_of es n of None \<Rightarrow> None | Some x \<Rightarrow> look x ns)"
  "look (Reg c) (n # ns) = None"
  "look (Sym t) (n # ns) = None"
  by (simp_all add: look_def split: option.split)

lemma lookup_append: "lookup d (p @ q) = (case lookup d p of None \<Rightarrow> None | Some x \<Rightarrow> lookup x q)"
proof (induction p arbitrary: d)
  case (Cons n p)
  then show ?case by (cases d) (auto split: option.split)
qed simp

lemma look_append: "look d (p @ q) = (case lookup d p of None \<Rightarrow> None | Some x \<Rightarrow> look x q)"
  unfolding look_def lookup_append by (cases "lookup d p") simp_all

lemma look_None_append: "look d p = None \<Longrightarrow> look d (p @ q) = None"
  unfolding look_append by (simp add: look_def)

lemma head_of_HDir: "head_of x = HDir \<longleftrightarrow> (\<exists>es. x = Folder es)"
  by (cases x) auto

lemma map_of_AList_update: "map_of (AList.update n y es) m = (if m = n then Some y else map_of es m)"
  by (simp add: update_conv')

lemma map_of_AList_delete: "map_of (AList.delete n es) m = (if m = n then None else map_of es m)"
  by (simp add: delete_conv')

text \<open>What is in a directory makes it one.\<close>

lemma look_parent: "look d (p @ n # q) \<noteq> None \<Longrightarrow> look d p = Some HDir"
proof -
  assume "look d (p @ n # q) \<noteq> None"
  then obtain x where x: "lookup d p = Some x" "look x (n # q) \<noteq> None"
    by (auto simp: look_append split: option.splits)
  then show ?thesis by (cases x) (auto simp: look_def)
qed

lemma look_set_at_other: "p \<noteq> [] \<Longrightarrow> \<not> prefix p q \<Longrightarrow> look (set_at p v d) q = look d q"
proof (induction p v d arbitrary: q rule: set_at.induct)
  case (2 n ns v es)
  show ?case
  proof (cases q)
    case (Cons m ms)
    show ?thesis
    proof (cases "m = n")
      case True
      then have "ns \<noteq> []" "\<not> prefix ns ms" using 2 Cons by auto
      then show ?thesis using 2 True Cons by (auto simp: map_of_AList_update split: option.splits)
    qed (use Cons in \<open>auto simp: map_of_AList_update map_of_AList_delete split: option.splits\<close>)
  qed simp
qed auto

lemma look_set_at_below:
  "p \<noteq> [] \<Longrightarrow> look d (butlast p) = Some HDir \<Longrightarrow>
    look (set_at p v d) (p @ q) = (case v of None \<Rightarrow> None | Some y \<Rightarrow> look y q)"
proof (induction p v d arbitrary: q rule: set_at.induct)
  case (2 n ns v es)
  then show ?case by (auto simp: map_of_AList_update map_of_AList_delete split: option.splits if_splits)
qed (auto split: if_splits)

lemma look_set_at:
  assumes "p \<noteq> []" and "look d (butlast p) = Some HDir"
  shows "look (set_at p v d) q =
    (if prefix p q then (case v of None \<Rightarrow> None | Some y \<Rightarrow> look y (drop (length p) q)) else look d q)"
proof (cases "prefix p q")
  case True
  then obtain r where "q = p @ r" by (auto simp: prefix_def)
  then show ?thesis using look_set_at_below [OF assms, of v r] by (simp del: look_simps split: option.split)
qed (simp add: look_set_at_other [OF assms(1)])


lemma AList_update_same: "map_of es n = Some x \<Longrightarrow> AList.update n x es = es"
  by (induction es) auto

text \<open>Where there is no directory nothing changes.\<close>

lemma set_at_no_dir: "p \<noteq> [] \<Longrightarrow> look d (butlast p) \<noteq> Some HDir \<Longrightarrow> set_at p v d = d"
proof (induction p v d rule: set_at.induct)
  case (2 n ns v es)
  then show ?case by (auto simp: AList_update_same split: option.splits if_splits)
qed auto

section \<open>System calls\<close>

datatype errno = ENOENT | ENOTDIR | EISDIR | EEXIST | ENOTEMPTY | EXDEV | EIO

datatype io_op = IoLstat | IoMkdir | IoOpen | IoCreate | IoWrite | IoReadDir | IoRemove | IoRename | IoTouch

record host_io =
  io_fails :: "io_op \<Rightarrow> string list \<Rightarrow> bool"
  io_written :: "string list \<Rightarrow> nat"
  io_rest :: "fsobj \<Rightarrow> fsobj"
  io_xdev :: bool
  io_behind :: "string \<Rightarrow> string list \<Rightarrow> fsobj option"
  io_dir_size :: int
  io_now :: int

record world =
  w_disk :: fsobj
  w_mtime :: "string \<Rightarrow> int"
  w_escaped :: "(string \<times> string list) list"

text \<open>The first symbolic link a path leads through, with what is left of the path; the last element counts where the
  call follows links.\<close>

fun link_on :: "bool \<Rightarrow> fsobj \<Rightarrow> string list \<Rightarrow> (string \<times> string list) option" where
  "link_on follow (Sym t) [] = (if follow then Some (t, []) else None)"
| "link_on follow (Sym t) (n # ns) = Some (t, n # ns)"
| "link_on follow (Folder es) (n # ns) = (case map_of es n of None \<Rightarrow> None | Some x \<Rightarrow> link_on follow x ns)"
| "link_on follow x ns = None"

text \<open>Why nothing is at a path.\<close>

fun lookup_error :: "fsobj \<Rightarrow> string list \<Rightarrow> errno" where
  "lookup_error (Folder es) (n # ns) = (case map_of es n of None \<Rightarrow> ENOENT | Some x \<Rightarrow> lookup_error x ns)"
| "lookup_error (Reg c) (n # ns) = ENOTDIR"
| "lookup_error x ns = ENOENT"

definition escape :: "string \<times> string list \<Rightarrow> world \<Rightarrow> world" where
  "escape l w = w\<lparr>w_escaped := w_escaped w @ [l]\<rparr>"

text \<open>Adding or removing an entry of a directory of the work directory touches that directory.\<close>

definition put_obj :: "host_io \<Rightarrow> string list \<Rightarrow> fsobj option \<Rightarrow> world \<Rightarrow> world" where
  "put_obj io p v w =
     w\<lparr>w_disk := set_at p v (w_disk w),
       w_mtime := (if length p \<le> 2 \<and> (lookup (w_disk w) p = None) \<noteq> (v = None) \<or> length p = 1
                   then (w_mtime w)(hd p := io_now io) else w_mtime w)\<rparr>"

definition os_find :: "bool \<Rightarrow> host_io \<Rightarrow> string list \<Rightarrow> world \<Rightarrow> errno + fsobj" where
  "os_find follow io p w =
     (case link_on follow (w_disk w) p of
        Some (t, r) \<Rightarrow> (case io_behind io t r of None \<Rightarrow> Inl ENOENT | Some x \<Rightarrow> Inr x)
      | None \<Rightarrow> (case lookup (w_disk w) p of None \<Rightarrow> Inl (lookup_error (w_disk w) p) | Some x \<Rightarrow> Inr x))"

definition os_lstat :: "host_io \<Rightarrow> string list \<Rightarrow> world \<Rightarrow> errno + head" where
  "os_lstat io p w = (if io_fails io IoLstat p then Inl EIO else map_sum id head_of (os_find False io p w))"

definition os_stat :: "host_io \<Rightarrow> string list \<Rightarrow> world \<Rightarrow> errno + head" where
  "os_stat io p w = (if io_fails io IoLstat p then Inl EIO else map_sum id head_of (os_find True io p w))"

definition os_read_file :: "host_io \<Rightarrow> string list \<Rightarrow> world \<Rightarrow> errno + string" where
  "os_read_file io p w =
     (if io_fails io IoOpen p then Inl EIO
      else case os_find True io p w of Inl e \<Rightarrow> Inl e | Inr (Reg c) \<Rightarrow> Inr c | Inr (Sym t) \<Rightarrow> Inl ENOENT | Inr (Folder es) \<Rightarrow> Inl EISDIR)"

text \<open>The entries of a directory in the order of their names.\<close>

definition entries :: "(string \<times> fsobj) list \<Rightarrow> (string \<times> head) list" where
  "entries es = map (\<lambda>n. (n, head_of (the (map_of es n)))) (sort (remdups (map fst es)))"

definition os_read_dir :: "host_io \<Rightarrow> string list \<Rightarrow> world \<Rightarrow> errno + (string \<times> head) list" where
  "os_read_dir io p w =
     (if io_fails io IoReadDir p then Inl EIO
      else case os_find True io p w of Inl e \<Rightarrow> Inl e | Inr (Folder es) \<Rightarrow> Inr (entries es) | Inr (Reg c) \<Rightarrow> Inl ENOTDIR | Inr (Sym t) \<Rightarrow> Inl ENOENT)"

text \<open>Whether an entry can be made at a path: its directory has to exist.\<close>

definition dir_error :: "string list \<Rightarrow> world \<Rightarrow> errno option" where
  "dir_error p w =
     (case lookup (w_disk w) (butlast p) of
        None \<Rightarrow> Some (lookup_error (w_disk w) (butlast p))
      | Some (Folder es) \<Rightarrow> None
      | Some x \<Rightarrow> Some ENOTDIR)"

definition os_mkdir :: "host_io \<Rightarrow> string list \<Rightarrow> world \<Rightarrow> errno option \<times> world" where
  "os_mkdir io p w =
     (if io_fails io IoMkdir p then (Some EIO, w)
      else case link_on False (w_disk w) p of
        Some l \<Rightarrow> (None, escape l w)
      | None \<Rightarrow>
          if lookup (w_disk w) p \<noteq> None then (Some EEXIST, w)
          else case dir_error p w of Some e \<Rightarrow> (Some e, w) | None \<Rightarrow> (None, put_obj io p (Some (Folder [])) w))"

text \<open>\<open>os.MkdirAll\<close>, on the reversed path.\<close>

fun mkdir_all_rev :: "host_io \<Rightarrow> string list \<Rightarrow> world \<Rightarrow> errno option \<times> world" where
  "mkdir_all_rev io [] w = (None, w)"
| "mkdir_all_rev io (n # rp) w =
     (let p = rev (n # rp) in
      case os_stat io p w of
        Inr h \<Rightarrow> (if h = HDir then None else Some ENOTDIR, w)
      | Inl _ \<Rightarrow>
          (case mkdir_all_rev io rp w of
             (Some e, w1) \<Rightarrow> (Some e, w1)
           | (None, w1) \<Rightarrow>
               (case os_mkdir io p w1 of
                  (None, w2) \<Rightarrow> (None, w2)
                | (Some e, w2) \<Rightarrow> (if os_lstat io p w2 = Inr HDir then None else Some e, w2))))"

definition os_mkdir_all :: "host_io \<Rightarrow> string list \<Rightarrow> world \<Rightarrow> errno option \<times> world" where
  "os_mkdir_all io p w = mkdir_all_rev io (rev p) w"

text \<open>Opening a file for writing and writing to it. A write that fails leaves what got out.\<close>

definition os_write :: "host_io \<Rightarrow> bool \<Rightarrow> string list \<Rightarrow> string \<Rightarrow> world \<Rightarrow> errno option \<times> world" where
  "os_write io app p content w =
     (if io_fails io IoCreate p then (Some EIO, w)
      else case link_on True (w_disk w) p of
        Some l \<Rightarrow> (None, escape l w)
      | None \<Rightarrow>
          (case (case lookup (w_disk w) p of
                   Some (Reg old) \<Rightarrow> Inr (if app then old else [])
                 | Some x \<Rightarrow> Inl EISDIR
                 | None \<Rightarrow> (case dir_error p w of Some e \<Rightarrow> Inl e | None \<Rightarrow> Inr [])) of
             Inl e \<Rightarrow> (Some e, w)
           | Inr base \<Rightarrow>
               if io_fails io IoWrite p then (Some EIO, put_obj io p (Some (Reg (base @ take (io_written io p) content))) w)
               else (None, put_obj io p (Some (Reg (base @ content))) w)))"

definition os_remove :: "host_io \<Rightarrow> string list \<Rightarrow> world \<Rightarrow> errno option \<times> world" where
  "os_remove io p w =
     (if io_fails io IoRemove p then (Some EIO, w)
      else case link_on False (w_disk w) p of
        Some l \<Rightarrow> (None, escape l w)
      | None \<Rightarrow>
          (case lookup (w_disk w) p of
             None \<Rightarrow> (Some (lookup_error (w_disk w) p), w)
           | Some (Folder (e # es)) \<Rightarrow> (Some ENOTEMPTY, w)
           | Some x \<Rightarrow> (None, put_obj io p None w)))"

text \<open>\<open>os.RemoveAll\<close>: nothing there is no error; a failure leaves a part of the tree.\<close>

definition os_remove_all :: "host_io \<Rightarrow> string list \<Rightarrow> world \<Rightarrow> errno option \<times> world" where
  "os_remove_all io p w =
     (case link_on False (w_disk w) p of
        Some l \<Rightarrow> (None, escape l w)
      | None \<Rightarrow>
          (case lookup (w_disk w) p of
             None \<Rightarrow> (None, w)
           | Some x \<Rightarrow>
               if io_fails io IoRemove p then (Some EIO, put_obj io p (Some (io_rest io x)) w)
               else (None, put_obj io p None w)))"

text \<open>\<open>os.Rename\<close>, which in Go refuses any directory as the new name.\<close>

definition os_rename :: "host_io \<Rightarrow> string list \<Rightarrow> string list \<Rightarrow> world \<Rightarrow> errno option \<times> world" where
  "os_rename io src dst w =
     (if io_fails io IoRename src then (Some EIO, w)
      else case (link_on False (w_disk w) src, link_on False (w_disk w) dst) of
        (None, None) \<Rightarrow>
          (case lookup (w_disk w) src of
             None \<Rightarrow> (Some (lookup_error (w_disk w) src), w)
           | Some x \<Rightarrow>
               if look (w_disk w) dst = Some HDir then (Some EEXIST, w)
               else if io_xdev io then (Some EXDEV, w)
               else if look (w_disk w) dst \<noteq> None \<and> head_of x = HDir then (Some ENOTDIR, w)
               else case dir_error dst w of
                 Some e \<Rightarrow> (Some e, w)
               | None \<Rightarrow> (None, put_obj io dst (Some x) (put_obj io src None w)))
      | (Some l, _) \<Rightarrow> (None, escape l w)
      | (None, Some l) \<Rightarrow> (None, escape l w))"


section \<open>Walking a directory\<close>

datatype walk_error = WErr errno | WLimit int | WDeep

datatype visit = Go | Skip | Stop walk_error

fun each :: "('a \<Rightarrow> 's \<Rightarrow> 'e option \<times> 's) \<Rightarrow> 'a list \<Rightarrow> 's \<Rightarrow> 'e option \<times> 's" where
  "each f [] s = (None, s)"
| "each f (x # xs) s = (case f x s of (Some e, s1) \<Rightarrow> (Some e, s1) | (None, s1) \<Rightarrow> each f xs s1)"

text \<open>\<open>filepath.WalkDir\<close> below its root: the visitor sees an object first, then the entries of a directory as they are
  listed after that visit. The fuel bounds the depth.\<close>

primrec walk_dir ::
    "unit list \<Rightarrow> (string list \<Rightarrow> 's \<Rightarrow> errno + (string \<times> head) list) \<Rightarrow> (string list \<Rightarrow> head \<Rightarrow> 's \<Rightarrow> visit \<times> 's)
      \<Rightarrow> string list \<Rightarrow> head \<Rightarrow> 's \<Rightarrow> walk_error option \<times> 's" where
  "walk_dir [] rd fn rel h s =
     (case fn rel h s of
        (Stop e, s1) \<Rightarrow> (Some e, s1)
      | (Skip, s1) \<Rightarrow> (None, s1)
      | (Go, s1) \<Rightarrow> (if h = HDir then Some WDeep else None, s1))"
| "walk_dir (u # fuel) rd fn rel h s =
     (case fn rel h s of
        (Stop e, s1) \<Rightarrow> (Some e, s1)
      | (Skip, s1) \<Rightarrow> (None, s1)
      | (Go, s1) \<Rightarrow>
          if h \<noteq> HDir then (None, s1)
          else case rd rel s1 of
            Inl e \<Rightarrow> (Some (WErr e), s1)
          | Inr es \<Rightarrow> each (\<lambda>(n, k). walk_dir fuel rd fn (rel @ [n]) k) es s1)"

fun height :: "fsobj \<Rightarrow> nat" where
  "height (Folder es) = Suc (foldr max (map (\<lambda>(n, x). height x) es) 0)"
| "height x = 0"

definition dotgit_entry :: "bool \<Rightarrow> string list \<Rightarrow> head \<Rightarrow> bool" where
  "dotgit_entry skip p h \<longleftrightarrow> skip \<and> h = HDir \<and> p \<noteq> [] \<and> last p = dotgit"

definition visit_file :: "host_io \<Rightarrow> world \<Rightarrow> bool \<Rightarrow> string list \<Rightarrow> string list \<Rightarrow> head \<Rightarrow> string list list \<Rightarrow> visit \<times> string list list" where
  "visit_file io w skip root rel h files =
     (if rel = [] then (Go, files)
      else if dotgit_entry skip rel h then (Skip, files)
      else case os_lstat io (root @ rel) w of
        Inr (HFile c) \<Rightarrow> (Go, files @ [rel])
      | _ \<Rightarrow> (Go, files))"

definition walk_dir_files :: "host_io \<Rightarrow> string list \<Rightarrow> bool \<Rightarrow> world \<Rightarrow> walk_error option \<times> string list list" where
  "walk_dir_files io root skip w =
     (case os_lstat io root w of
        Inl e \<Rightarrow> (Some (WErr e), [])
      | Inr h \<Rightarrow>
          walk_dir (replicate (height (w_disk w)) ()) (\<lambda>rel s. os_read_dir io (root @ rel) w) (visit_file io w skip root) [] h [])"

section \<open>Copying\<close>

definition copy_file_contents :: "host_io \<Rightarrow> string list \<Rightarrow> string list \<Rightarrow> world \<Rightarrow> errno option \<times> world" where
  "copy_file_contents io src dst w =
     (case os_read_file io src w of Inl e \<Rightarrow> (Some e, w) | Inr c \<Rightarrow> os_write io False dst c w)"

text \<open>The visitor of \<open>CopyDir\<close>; its state is the world, the number of files and of bytes copied.\<close>

type_synonym copy_state = "world \<times> nat \<times> int"

definition copy_entry ::
    "host_io \<Rightarrow> bool \<Rightarrow> int \<Rightarrow> string list \<Rightarrow> string list \<Rightarrow> string list \<Rightarrow> head \<Rightarrow> copy_state \<Rightarrow> visit \<times> copy_state" where
  "copy_entry io skip limit src dst rel h s =
     (case s of (w, files, bytes) \<Rightarrow>
        case h of
          HDir \<Rightarrow>
            if dotgit_entry skip (src @ rel) h then (Skip, s)
            else (case os_mkdir_all io (dst @ rel) w of
                (Some e, w1) \<Rightarrow> (Stop (WErr e), w1, files, bytes)
              | (None, w1) \<Rightarrow> (Go, w1, files, bytes))
        | HLink t \<Rightarrow> (Go, s)
        | HFile c0 \<Rightarrow>
            (case os_lstat io (src @ rel) w of
               Inl e \<Rightarrow> (Stop (WErr e), s)
             | Inr k \<Rightarrow>
                 let size = (case k of HFile c \<Rightarrow> int (length c) | _ \<Rightarrow> 0) in
                 if 0 < limit \<and> limit < bytes + size then (Stop (WLimit (bytes + size)), s)
                 else case os_read_file io (src @ rel) w of
                   Inl e \<Rightarrow> (Stop (WErr e), s)
                 | Inr c \<Rightarrow>
                     (case os_write io False (dst @ rel) c w of
                        (Some e, w1) \<Rightarrow> (Stop (WErr e), w1, files, bytes)
                      | (None, w1) \<Rightarrow> (Go, w1, files + 1, bytes + int (length c)))))"

definition copy_dir :: "host_io \<Rightarrow> string list \<Rightarrow> string list \<Rightarrow> bool \<Rightarrow> int \<Rightarrow> world \<Rightarrow> (walk_error + nat \<times> int) \<times> world" where
  "copy_dir io src dst skip limit w =
     (case (case os_lstat io src w of
              Inl e \<Rightarrow> (Some (WErr e), w, 0, 0)
            | Inr h \<Rightarrow>
                walk_dir (replicate (height (w_disk w)) ()) (\<lambda>rel s. os_read_dir io (src @ rel) (fst s))
                  (copy_entry io skip limit src dst) [] h (w, 0, 0)) of
        (None, w1, files, bytes) \<Rightarrow> (Inr (files, bytes), w1)
      | (Some e, w1, files, bytes) \<Rightarrow>
          (Inl e, case os_lstat io dst w of Inl _ \<Rightarrow> snd (os_remove_all io dst w1) | Inr _ \<Rightarrow> w1))"

section \<open>Stale directories\<close>

definition touch_dir :: "host_io \<Rightarrow> string list \<Rightarrow> world \<Rightarrow> errno option \<times> world" where
  "touch_dir io p w =
     (case os_stat io p w of
        Inl e \<Rightarrow> (if e = ENOENT then None else Some e, w)
      | Inr h \<Rightarrow>
          if io_fails io IoTouch p then (Some EIO, w)
          else case link_on True (w_disk w) p of
            Some l \<Rightarrow> (None, escape l w)
          | None \<Rightarrow> (None, w\<lparr>w_mtime := (w_mtime w)(hd p := io_now io)\<rparr>))"

definition sweep_entry :: "host_io \<Rightarrow> int \<Rightarrow> string \<times> head \<Rightarrow> world \<Rightarrow> world" where
  "sweep_entry io ttl e w =
     (case e of (n, h) \<Rightarrow>
        if h \<noteq> HDir then w
        else case os_lstat io [n] w of
          Inl e \<Rightarrow> w
        | Inr k \<Rightarrow>
            if (case k of HLink t \<Rightarrow> True | _ \<Rightarrow> False) then w
            else if io_now io - ttl < w_mtime w n then w
            else snd (os_remove_all io [n] w))"

definition sweep_stale_dirs :: "host_io \<Rightarrow> int \<Rightarrow> world \<Rightarrow> world" where
  "sweep_stale_dirs io ttl w =
     (if ttl \<le> 0 then w
      else case os_read_dir io [] w of
        Inl e \<Rightarrow> w
      | Inr es \<Rightarrow> fold (sweep_entry io ttl) es w)"

end
