(* ===== verification/FileTools.thy ===== *)
theory FileTools
  imports FileTree Safety
begin

text \<open>
  The file tools, \<^verbatim>\<open>components/tool/file\<close>: reading, writing, deleting, copying and moving within the session's
  directory of the work directory, with their previews and the collection of stale sessions.

  The session id of the call and the digest it is hashed with are arguments, as is the library that renders
  diffs. A path the tools compute as a string is below the work directory or an ancestor of it; ancestors are
  directories. The JSON text of a result is its value.
\<close>

section \<open>Configuration and sessions\<close>

record file_config =
  fc_workdir :: string
  fc_max_read :: int
  fc_max_write :: int
  fc_ttl :: int
  fc_require_session :: bool
  fc_max_copy :: int

record file_env =
  fe_io :: host_io
  fe_sha_hex :: "string \<Rightarrow> string"
  fe_diff :: "string \<Rightarrow> string \<Rightarrow> string"

datatype file_error = FInvalid | FPath path_error | FNoSession | FRange | FIsDirectory | FNotFound | FOs errno | FBinary
  | FTooLarge | FGate safety_error | FSamePath | FInside | FTypeMismatch | FSymlink | FSessionRoot | FWalk walk_error

datatype preview_kind = WouldCopy | WouldMove

datatype file_output =
    ReadOut string string int bool int int
  | WriteOut string int bool
  | DeleteOut string bool
  | CopyOut string string bool nat int
  | MoveOut string string bool
  | WritePreview string string int int string
  | TransferPreview preview_kind string string bool int int bool
  | DeletePreview string bool "string list" bool

definition new_file_config :: "file_config \<Rightarrow> file_error + file_config" where
  "new_file_config c0 =
     (let c1 = (if fc_max_read c0 = 0 then c0\<lparr>fc_max_read := 2 ^ 20\<rparr> else c0);
          c2 = (if fc_max_write c1 = 0 then c1\<lparr>fc_max_write := 10 * 2 ^ 20\<rparr> else c1);
          c = (if fc_max_copy c2 = 0 then c2\<lparr>fc_max_copy := 50 * 2 ^ 20\<rparr> else c2)
      in if fc_workdir c = [] \<or> fc_max_read c < 1 \<or> fc_max_write c < 1 \<or> fc_max_copy c < 1
            \<or> (fc_ttl c \<noteq> 0 \<and> fc_ttl c < 60 * 10 ^ 9) then Inl FInvalid
         else case validate_root_dir (fc_workdir c) of Inl e \<Rightarrow> Inl (FPath e) | Inr u \<Rightarrow> Inr c)"

definition session_dir_name :: "(string \<Rightarrow> string) \<Rightarrow> string \<Rightarrow> string" where
  "session_dir_name sha_hex i = take 16 (sha_hex i)"

definition session_segment :: "file_env \<Rightarrow> string \<Rightarrow> string" where
  "session_segment fe session = (if session \<noteq> [] then session_dir_name (fe_sha_hex fe) session else ''session'')"

definition session_path :: "file_env \<Rightarrow> file_config \<Rightarrow> string \<Rightarrow> string" where
  "session_path fe cfg session = path_join (fc_workdir cfg) (session_segment fe session)"

definition session_dir :: "file_env \<Rightarrow> file_config \<Rightarrow> string \<Rightarrow> file_error + string" where
  "session_dir fe cfg session =
     (if session = [] \<and> fc_require_session cfg then Inl FNoSession else Inr (session_path fe cfg session))"

text \<open>The elements of an absolute path below the work directory.\<close>

definition below :: "file_config \<Rightarrow> string \<Rightarrow> string list" where
  "below cfg p = drop (length (elems (fc_workdir cfg))) (elems p)"

section \<open>Resolving paths\<close>

definition show_path :: "string list \<Rightarrow> string" where
  "show_path p = join [slash] p"

text \<open>\<open>ResolveSymlinkSafe\<close> on the tree.\<close>

fun resolve_parts :: "host_io \<Rightarrow> bool \<Rightarrow> string list \<Rightarrow> string list \<Rightarrow> world \<Rightarrow> (path_error + string list) \<times> world" where
  "resolve_parts io create cur [] w = (Inr cur, w)"
| "resolve_parts io create cur (n # ns) w =
     (let p = cur @ [n] in
      case os_lstat io p w of
        Inl e \<Rightarrow>
          if e \<noteq> ENOENT then (Inl (StatFailed (show_path p)), w)
          else if ns = [] then resolve_parts io create p ns w
          else if create then
            (case os_mkdir io p w of
               (None, w1) \<Rightarrow> resolve_parts io create p ns w1
             | (Some e1, w1) \<Rightarrow>
                 if e1 = EEXIST then resolve_parts io create p ns w1 else (Inl (MkdirFailed (show_path p)), w1))
          else (Inl (ComponentMissing (show_path p)), w)
      | Inr h \<Rightarrow>
          (case h of
             HLink t \<Rightarrow> (Inl (SymlinkComponent (show_path p)), w)
           | _ \<Rightarrow> if ns \<noteq> [] \<and> h \<noteq> HDir then (Inl (NotADirectory (show_path p)), w) else resolve_parts io create p ns w))"

definition resolve_in_tree :: "host_io \<Rightarrow> file_config \<Rightarrow> string \<Rightarrow> string \<Rightarrow> bool \<Rightarrow> world \<Rightarrow> (path_error + string list) \<times> world" where
  "resolve_in_tree io cfg root full create w =
     (case path_rel (clean root) (clean full) of
        Inl e \<Rightarrow> (Inl e, w)
      | Inr rel \<Rightarrow>
          if rel = [] then (Inr (below cfg root), w)
          else if hd rel = dotdot then (Inl (EscapesRoot full root), w)
          else resolve_parts io create (below cfg root) rel w)"

definition resolve_path :: "file_env \<Rightarrow> file_config \<Rightarrow> string \<Rightarrow> string \<Rightarrow> bool \<Rightarrow> world \<Rightarrow> (file_error + string list) \<times> world" where
  "resolve_path fe cfg session rel create w =
     (case session_dir fe cfg session of
        Inl e \<Rightarrow> (Inl e, w)
      | Inr root \<Rightarrow>
          (case (if create then os_mkdir_all (fe_io fe) (below cfg root) w else (None, w)) of
             (Some e, w1) \<Rightarrow> (Inl (FOs e), w1)
           | (None, w1) \<Rightarrow>
               (case validate_relative_path root rel of
                  Inl e \<Rightarrow> (Inl (FPath e), w1)
                | Inr full \<Rightarrow>
                    (case resolve_in_tree (fe_io fe) cfg root full create w1 of
                       (Inl e, w2) \<Rightarrow> (Inl (FPath e), w2)
                     | (Inr p, w2) \<Rightarrow> (Inr p, w2)))))"

record target_stat =
  ts_exists :: bool
  ts_is_dir :: bool
  ts_size :: int
  ts_head :: string

definition no_target :: target_stat where
  "no_target = \<lparr>ts_exists = False, ts_is_dir = False, ts_size = 0, ts_head = []\<rparr>"

definition lstat_at :: "host_io \<Rightarrow> file_config \<Rightarrow> string \<Rightarrow> world \<Rightarrow> errno + head" where
  "lstat_at io cfg path w =
     (if prefix (elems (fc_workdir cfg)) (elems path) then os_lstat io (below cfg path) w else Inr HDir)"

definition read_head :: "host_io \<Rightarrow> string list \<Rightarrow> int \<Rightarrow> world \<Rightarrow> errno + string" where
  "read_head io p max_read w = map_sum id (take (nat max_read)) (os_read_file io p w)"

fun stat_parts :: "host_io \<Rightarrow> file_config \<Rightarrow> int \<Rightarrow> string \<Rightarrow> string list \<Rightarrow> world \<Rightarrow> file_error + target_stat" where
  "stat_parts io cfg max_read cur [] w = Inr no_target"
| "stat_parts io cfg max_read cur (part # parts) w =
     (let next = path_join cur part in
      case lstat_at io cfg next w of
        Inl e \<Rightarrow> if e = ENOENT then Inr no_target else Inl (FOs e)
      | Inr (HLink t) \<Rightarrow> Inl FSymlink
      | Inr HDir \<Rightarrow>
          if parts \<noteq> [] then stat_parts io cfg max_read next parts w
          else Inr \<lparr>ts_exists = True, ts_is_dir = True, ts_size = io_dir_size io, ts_head = []\<rparr>
      | Inr (HFile c) \<Rightarrow>
          if parts \<noteq> [] then Inl (FPath (NotADirectory next))
          else
            let ts = \<lparr>ts_exists = True, ts_is_dir = False, ts_size = int (length c), ts_head = []\<rparr> in
            if 0 < max_read \<and> c \<noteq> [] then
              (case read_head io (below cfg next) max_read w of
                 Inl e \<Rightarrow> Inl (FOs e)
               | Inr b \<Rightarrow> Inr (ts\<lparr>ts_head := b\<rparr>))
            else Inr ts)"

text \<open>\<open>statReadOnly\<close> on a relative path, the way the tools call it.\<close>

definition stat_read_only :: "host_io \<Rightarrow> file_config \<Rightarrow> string \<Rightarrow> string \<Rightarrow> int \<Rightarrow> world \<Rightarrow> file_error + target_stat" where
  "stat_read_only io cfg root path max_read w =
     (let clean_root = clean root; rel = clean path in
      if rel = dot then
        (case lstat_at io cfg clean_root w of
           Inl e \<Rightarrow> if e = ENOENT then Inr no_target else Inl (FOs e)
         | Inr (HLink t) \<Rightarrow> Inl FSymlink
         | Inr HDir \<Rightarrow> Inr \<lparr>ts_exists = True, ts_is_dir = True, ts_size = io_dir_size io, ts_head = []\<rparr>
         | Inr (HFile c) \<Rightarrow> Inr \<lparr>ts_exists = True, ts_is_dir = False, ts_size = int (length c), ts_head = []\<rparr>)
      else stat_parts io cfg max_read clean_root (split_char slash rel) w)"

definition validate_transfer_paths ::
    "file_env \<Rightarrow> file_config \<Rightarrow> string \<Rightarrow> string \<Rightarrow> string \<Rightarrow> world \<Rightarrow> file_error + string list \<times> string list \<times> bool" where
  "validate_transfer_paths fe cfg session source destination w =
     (let io = fe_io fe in
      case session_dir fe cfg session of
        Inl e \<Rightarrow> Inl e
      | Inr root \<Rightarrow>
      (case fst (resolve_path fe cfg session source False w) of
        Inl e \<Rightarrow> Inl e
      | Inr src \<Rightarrow>
      (case validate_relative_path root destination of
        Inl e \<Rightarrow> Inl (FPath e)
      | Inr dst_path \<Rightarrow>
      (case stat_read_only io cfg root destination 0 w of
        Inl e \<Rightarrow> Inl e
      | Inr _ \<Rightarrow>
          let dst = below cfg dst_path in
          if dst = src then Inl FSamePath
          else if prefix src dst then Inl FInside
          else case os_lstat io src w of
            Inl e \<Rightarrow> Inl (if e = ENOENT then FNotFound else FOs e)
          | Inr sh \<Rightarrow>
              let is_dir = (sh = HDir) in
              (case os_lstat io dst w of
                 Inl e \<Rightarrow> Inr (src, dst, is_dir)
               | Inr (HLink t) \<Rightarrow> Inl FSymlink
               | Inr dh \<Rightarrow>
                   if dh = HDir \<and> \<not> is_dir \<or> dh \<noteq> HDir \<and> is_dir then Inl FTypeMismatch
                   else Inr (src, dst, is_dir))))))"

section \<open>Previews\<close>

definition rune_start :: "char \<Rightarrow> bool" where
  "rune_start c \<longleftrightarrow> \<not> (128 \<le> byte c \<and> byte c < 192)"

fun back_to_rune :: "string \<Rightarrow> nat \<Rightarrow> nat" where
  "back_to_rune s n = (if n = 0 \<or> rune_start (s ! n) then n else back_to_rune s (n - 1))"

declare back_to_rune.simps [simp del]

definition truncate_utf8 :: "string \<Rightarrow> int \<Rightarrow> string" where
  "truncate_utf8 s max_bytes =
     (if max_bytes \<le> 0 \<or> int (length s) \<le> max_bytes then s else take (back_to_rune s (nat max_bytes)) s)"

definition write_preview :: "file_env \<Rightarrow> file_config \<Rightarrow> string \<Rightarrow> string \<Rightarrow> string \<Rightarrow> bool \<Rightarrow> world \<Rightarrow> file_error + file_output" where
  "write_preview fe cfg root path content app w =
     (let max_read = fc_max_read cfg in
      case stat_read_only (fe_io fe) cfg root path max_read w of
        Inl e \<Rightarrow> Inl e
      | Inr ts \<Rightarrow>
          let old_size = (if ts_exists ts then ts_size ts else 0) in
          Inr (if app
               then WritePreview path ''append'' old_size (old_size + int (length content)) (truncate_utf8 content max_read)
               else WritePreview path (if ts_exists ts then ''overwrite'' else ''create'') old_size (int (length content))
                      (truncate_utf8 (fe_diff fe (ts_head ts) content) max_read)))"

definition file_sizes :: "host_io \<Rightarrow> string list \<Rightarrow> string list list \<Rightarrow> world \<Rightarrow> int" where
  "file_sizes io src files w =
     sum_list (map (\<lambda>rel. case os_stat io (src @ rel) w of
                            Inr (HFile c) \<Rightarrow> int (length c) | Inr HDir \<Rightarrow> io_dir_size io | _ \<Rightarrow> 0) files)"

definition transfer_preview ::
    "file_env \<Rightarrow> file_config \<Rightarrow> string \<Rightarrow> string \<Rightarrow> string \<Rightarrow> preview_kind \<Rightarrow> world \<Rightarrow> file_error + file_output" where
  "transfer_preview fe cfg root source destination kind w =
     (let io = fe_io fe in
      case validate_relative_path root source of
        Inl e \<Rightarrow> Inl (FPath e)
      | Inr src_path \<Rightarrow>
      (case validate_relative_path root destination of
        Inl e \<Rightarrow> Inl (FPath e)
      | Inr dst_path \<Rightarrow>
      (case stat_read_only io cfg root source 0 w of
        Inl e \<Rightarrow> Inl e
      | Inr ss \<Rightarrow>
          let src = below cfg src_path; dst = below cfg dst_path in
          if \<not> ts_exists ss then Inl FNotFound
          else if dst = src then Inl FSamePath
          else if prefix src dst then Inl FInside
          else case stat_read_only io cfg root destination 0 w of
            Inl e \<Rightarrow> Inl e
          | Inr ds \<Rightarrow>
              if ts_is_dir ss
              then (case walk_dir_files io src False w of
                  (Some e, files) \<Rightarrow> Inl (FWalk e)
                | (None, files) \<Rightarrow>
                    Inr (TransferPreview kind source destination True (int (length files)) (file_sizes io src files w) (ts_exists ds)))
              else Inr (TransferPreview kind source destination False 1 (ts_size ss) (ts_exists ds)))))"

definition max_preview_files :: nat where "max_preview_files = 100"

definition delete_preview :: "file_env \<Rightarrow> string \<Rightarrow> bool \<Rightarrow> string list \<Rightarrow> world \<Rightarrow> file_error + file_output" where
  "delete_preview fe path is_dir p w =
     (if is_dir
      then (case walk_dir_files (fe_io fe) p False w of
          (Some e, files) \<Rightarrow> Inl (FWalk e)
        | (None, files) \<Rightarrow>
            Inr (DeletePreview path True (map (\<lambda>f. path_join path (show_path f)) (take max_preview_files files))
                   (max_preview_files < length files)))
      else Inr (DeletePreview path False [] False))"


section \<open>The tools\<close>

text \<open>The session's directory in the tree.\<close>

definition session_root :: "file_env \<Rightarrow> string \<Rightarrow> string list" where
  "session_root fe session = [session_segment fe session]"

definition touch_session :: "file_env \<Rightarrow> file_config \<Rightarrow> string \<Rightarrow> world \<Rightarrow> file_error option \<times> world" where
  "touch_session fe cfg session w =
     (case session_dir fe cfg session of
        Inl e \<Rightarrow> (Some e, w)
      | Inr root \<Rightarrow> (case touch_dir (fe_io fe) (below cfg root) w of (Some e, w1) \<Rightarrow> (Some (FOs e), w1) | (None, w1) \<Rightarrow> (None, w1)))"

definition read_invoke :: "file_env \<Rightarrow> file_config \<Rightarrow> string \<Rightarrow> string \<Rightarrow> int \<Rightarrow> int \<Rightarrow> world \<Rightarrow> (file_error + file_output) \<times> world" where
  "read_invoke fe cfg session path start_line end_line w =
     (let io = fe_io fe in
      if path = [] then (Inl FInvalid, w)
      else if 0 < start_line \<and> 0 < end_line \<and> end_line < start_line then (Inl FRange, w)
      else case resolve_path fe cfg session path False w of
        (Inl e, w1) \<Rightarrow> (Inl e, w1)
      | (Inr p, w1) \<Rightarrow>
          if os_lstat io p w1 = Inr HDir then (Inl FIsDirectory, w1)
          else case os_read_file io p w1 of
            Inl e \<Rightarrow> (Inl (if e = ENOENT then FNotFound else FOs e), w1)
          | Inr content \<Rightarrow>
              let max_read = (if fc_max_read cfg = 0 then 2 ^ 20 else fc_max_read cfg);
                  data = take (nat max_read) content
              in if is_binary data then (Inl FBinary, w1)
                 else case touch_session fe cfg session w1 of
                   (Some e, w2) \<Rightarrow> (Inl e, w2)
                 | (None, w2) \<Rightarrow>
                     let truncated = (int (length data) = max_read \<and> max_read < int (length content)) in
                     if 0 < start_line \<or> 0 < end_line
                     then (case apply_line_range data start_line end_line of
                         (part, i, j) \<Rightarrow> (Inr (ReadOut path part (int (length part)) truncated i j), w2))
                     else (Inr (ReadOut path data (int (length data)) truncated 0 0), w2))"

definition write_invoke ::
    "file_env \<Rightarrow> file_config \<Rightarrow> ctx \<Rightarrow> string \<Rightarrow> string \<Rightarrow> string \<Rightarrow> bool \<Rightarrow> gate_params \<Rightarrow> world \<Rightarrow> (file_error + file_output) \<times> world" where
  "write_invoke fe cfg c session path content app gp w =
     (let io = fe_io fe in
      if path = [] \<or> content = [] then (Inl FInvalid, w)
      else if (if fc_max_write cfg = 0 then 10 * 2 ^ 20 else fc_max_write cfg) < int (length content) then (Inl FTooLarge, w)
      else case session_dir fe cfg session of
        Inl e \<Rightarrow> (Inl e, w)
      | Inr root \<Rightarrow>
      (case validate_relative_path root path of
        Inl e \<Rightarrow> (Inl (FPath e), w)
      | Inr _ \<Rightarrow>
          if gp_dry_run gp then (write_preview fe cfg root path content app w, w)
          else case stat_read_only io cfg root path 0 w of
            Inl e \<Rightarrow> (Inl e, w)
          | Inr ts \<Rightarrow>
              if ts_exists ts \<and> ts_is_dir ts then (Inl FIsDirectory, w)
              else case require_confirmation_ctx c ''file_write'' False (gp_confirmed gp) of
                Some e \<Rightarrow> (Inl (FGate e), w)
              | None \<Rightarrow>
                  (case resolve_path fe cfg session path True w of
                     (Inl e, w1) \<Rightarrow> (Inl e, w1)
                   | (Inr p, w1) \<Rightarrow>
                       (case os_lstat io p w1 of
                          Inr HDir \<Rightarrow> (Inl FIsDirectory, w1)
                        | Inr (HLink t) \<Rightarrow> (Inl FSymlink, w1)
                        | _ \<Rightarrow>
                            (case touch_session fe cfg session w1 of
                               (Some e, w2) \<Rightarrow> (Inl e, w2)
                             | (None, w2) \<Rightarrow>
                                 (case os_write io app p content w2 of
                                    (Some e, w3) \<Rightarrow> (Inl (FOs e), w3)
                                  | (None, w3) \<Rightarrow> (Inr (WriteOut path (int (length content)) app), w3)))))))"

definition delete_invoke ::
    "file_env \<Rightarrow> file_config \<Rightarrow> ctx \<Rightarrow> string \<Rightarrow> string \<Rightarrow> gate_params \<Rightarrow> world \<Rightarrow> (file_error + file_output) \<times> world" where
  "delete_invoke fe cfg c session path gp w =
     (let io = fe_io fe in
      if path = [] then (Inl FInvalid, w)
      else if clean path = dot then (Inl FSessionRoot, w)
      else case resolve_path fe cfg session path False w of
        (Inl e, w1) \<Rightarrow> (Inl e, w1)
      | (Inr p, w1) \<Rightarrow>
          (case os_lstat io p w1 of
             Inl e \<Rightarrow> (Inl (if e = ENOENT then FNotFound else FOs e), w1)
           | Inr h \<Rightarrow>
               if gp_dry_run gp then (delete_preview fe path (h = HDir) p w1, w1)
               else case require_confirmation_ctx c ''file_delete'' False (gp_confirmed gp) of
                 Some e \<Rightarrow> (Inl (FGate e), w1)
               | None \<Rightarrow>
                   (case touch_session fe cfg session w1 of
                      (Some e, w2) \<Rightarrow> (Inl e, w2)
                    | (None, w2) \<Rightarrow>
                        (case (if h = HDir then os_remove_all io p w2 else os_remove io p w2) of
                           (Some e, w3) \<Rightarrow> (Inl (FOs e), w3)
                         | (None, w3) \<Rightarrow> (Inr (DeleteOut path (h = HDir)), w3)))))"

text \<open>What copying and moving share, up to the change itself.\<close>

definition transfer_invoke ::
    "string \<Rightarrow> preview_kind \<Rightarrow> (string list \<Rightarrow> string list \<Rightarrow> bool \<Rightarrow> world \<Rightarrow> (file_error + file_output) \<times> world)
      \<Rightarrow> file_env \<Rightarrow> file_config \<Rightarrow> ctx \<Rightarrow> string \<Rightarrow> string \<Rightarrow> string \<Rightarrow> gate_params \<Rightarrow> world \<Rightarrow> (file_error + file_output) \<times> world" where
  "transfer_invoke tool kind act fe cfg c session source destination gp w =
     (if source = [] \<or> destination = [] then (Inl FInvalid, w)
      else if source = destination then (Inl FSamePath, w)
      else case session_dir fe cfg session of
        Inl e \<Rightarrow> (Inl e, w)
      | Inr root \<Rightarrow>
          if gp_dry_run gp then (transfer_preview fe cfg root source destination kind w, w)
          else case validate_transfer_paths fe cfg session source destination w of
            Inl e \<Rightarrow> (Inl e, w)
          | Inr (src, dst, is_dir) \<Rightarrow>
              (case require_confirmation_ctx c tool False (gp_confirmed gp) of
                 Some e \<Rightarrow> (Inl (FGate e), w)
               | None \<Rightarrow>
                   (case resolve_path fe cfg session destination True w of
                      (Inl e, w1) \<Rightarrow> (Inl e, w1)
                    | (Inr _, w1) \<Rightarrow>
                        (case touch_session fe cfg session w1 of
                           (Some e, w2) \<Rightarrow> (Inl e, w2)
                         | (None, w2) \<Rightarrow> act src dst is_dir w2))))"

definition copy_act ::
    "file_env \<Rightarrow> file_config \<Rightarrow> string \<Rightarrow> string \<Rightarrow> string list \<Rightarrow> string list \<Rightarrow> bool \<Rightarrow> world \<Rightarrow> (file_error + file_output) \<times> world" where
  "copy_act fe cfg source destination src dst is_dir w =
     (let io = fe_io fe in
      if is_dir
      then (case copy_dir io src dst False (fc_max_copy cfg) w of
          (Inl e, w1) \<Rightarrow> (Inl (FWalk e), w1)
        | (Inr (files, bytes), w1) \<Rightarrow> (Inr (CopyOut source destination True files bytes), w1))
      else (case copy_file_contents io src dst w of
          (Some e, w1) \<Rightarrow> (Inl (FOs e), snd (os_remove io dst w1))
        | (None, w1) \<Rightarrow> (Inr (CopyOut source destination False 0 0), w1)))"

definition copy_invoke ::
    "file_env \<Rightarrow> file_config \<Rightarrow> ctx \<Rightarrow> string \<Rightarrow> string \<Rightarrow> string \<Rightarrow> gate_params \<Rightarrow> world \<Rightarrow> (file_error + file_output) \<times> world" where
  "copy_invoke fe cfg c session source destination =
     transfer_invoke ''file_copy'' WouldCopy (copy_act fe cfg source destination) fe cfg c session source destination"

text \<open>A rename, or a copy and a removal where the rename crosses devices.\<close>

definition move_act ::
    "file_env \<Rightarrow> file_config \<Rightarrow> string \<Rightarrow> string \<Rightarrow> string list \<Rightarrow> string list \<Rightarrow> bool \<Rightarrow> world \<Rightarrow> (file_error + file_output) \<times> world" where
  "move_act fe cfg source destination src dst is_dir w =
     (let io = fe_io fe; moved = Inr (MoveOut source destination is_dir) in
      case os_rename io src dst w of
        (None, w1) \<Rightarrow> (moved, w1)
      | (Some e, w1) \<Rightarrow>
          if e \<noteq> EXDEV then (Inl (FOs e), w1)
          else if is_dir
          then (case copy_dir io src dst False (fc_max_copy cfg) w1 of
              (Inl e1, w2) \<Rightarrow> (Inl (FWalk e1), w2)
            | (Inr _, w2) \<Rightarrow> (case os_remove_all io src w2 of (Some e2, w3) \<Rightarrow> (Inl (FOs e2), w3) | (None, w3) \<Rightarrow> (moved, w3)))
          else (case copy_file_contents io src dst w1 of
              (Some e1, w2) \<Rightarrow> (Inl (FOs e1), snd (os_remove io dst w2))
            | (None, w2) \<Rightarrow> (case os_remove io src w2 of (Some e2, w3) \<Rightarrow> (Inl (FOs e2), w3) | (None, w3) \<Rightarrow> (moved, w3))))"

definition move_invoke ::
    "file_env \<Rightarrow> file_config \<Rightarrow> ctx \<Rightarrow> string \<Rightarrow> string \<Rightarrow> string \<Rightarrow> gate_params \<Rightarrow> world \<Rightarrow> (file_error + file_output) \<times> world" where
  "move_invoke fe cfg c session source destination =
     transfer_invoke ''file_move'' WouldMove (move_act fe cfg source destination) fe cfg c session source destination"

section \<open>Calls\<close>

datatype file_call =
    CallRead string int int
  | CallWrite string string bool gate_params
  | CallDelete string gate_params
  | CallCopy string string gate_params
  | CallMove string string gate_params

fun run_call :: "file_env \<Rightarrow> file_config \<Rightarrow> ctx \<Rightarrow> string \<Rightarrow> file_call \<Rightarrow> world \<Rightarrow> (file_error + file_output) \<times> world" where
  "run_call fe cfg c session (CallRead p i j) = read_invoke fe cfg session p i j"
| "run_call fe cfg c session (CallWrite p t a gp) = write_invoke fe cfg c session p t a gp"
| "run_call fe cfg c session (CallDelete p gp) = delete_invoke fe cfg c session p gp"
| "run_call fe cfg c session (CallCopy s d gp) = copy_invoke fe cfg c session s d gp"
| "run_call fe cfg c session (CallMove s d gp) = move_invoke fe cfg c session s d gp"

text \<open>The collection of stale sessions, one tick.\<close>

definition gc_tick :: "file_env \<Rightarrow> file_config \<Rightarrow> world \<Rightarrow> world" where
  "gc_tick fe cfg w = (if fc_ttl cfg = 0 then w else sweep_stale_dirs (fe_io fe) (fc_ttl cfg) w)"

end
