(* ===== verification/FileTools_Props.thy ===== *)
theory FileTools_Props
  imports FileTools
begin

text \<open>
  What the file tools promise: calls stay in their session's directory and make no link, previews and refused
  calls change nothing, what is written is read back, copies are what the previews announce, and sessions in
  use outlive the collection of stale ones.
\<close>

section \<open>Paths of a session\<close>

definition good_segment :: "string \<Rightarrow> bool" where
  "good_segment s \<longleftrightarrow> good_elem s \<and> s \<noteq> dotdot"

lemma new_file_config_root: "new_file_config c0 = Inr cfg \<Longrightarrow> validate_root_dir (fc_workdir cfg) = Inr ()"
  by (auto simp: new_file_config_def Let_def split: if_splits sum.splits)

lemma session_path_elems:
  assumes "validate_root_dir (fc_workdir cfg) = Inr ()" and "good_segment (session_segment fe session)"
  shows "elems (session_path fe cfg session) = elems (fc_workdir cfg) @ [session_segment fe session]"
    and "is_abs (session_path fe cfg session)"
    and "clean (session_path fe cfg session) \<noteq> [slash]"
proof -
  note wd = validate_root_dir_ok [OF assms(1)]
  have ne: "fc_workdir cfg \<noteq> []" using wd(1) by (auto simp: is_abs_def)
  have sp: "split_char slash (session_segment fe session) = [session_segment fe session]"
    using assms(2) by (simp add: good_segment_def good_elem_def split_char_none)
  note j = path_join_props [OF ne, of "session_segment fe session"]
  show e: "elems (session_path fe cfg session) = elems (fc_workdir cfg) @ [session_segment fe session]"
    using j(1) assms(2) by (simp add: session_path_def sp resolve_elems_single good_segment_def)
  show a: "is_abs (session_path fe cfg session)" using j(2) wd(1) by (simp add: session_path_def)
  show "clean (session_path fe cfg session) \<noteq> [slash]"
  proof
    assume "clean (session_path fe cfg session) = [slash]"
    then have "elems (clean (session_path fe cfg session)) = elems [slash]" by simp
    moreover have "elems [slash] = []" by code_simp
    ultimately show False using e by simp
  qed
qed

lemma validated_below:
  assumes wd: "validate_root_dir (fc_workdir cfg) = Inr ()" and seg: "good_segment (session_segment fe session)"
    and ok: "validate_relative_path (session_path fe cfg session) rel = Inr full"
  obtains rs where "elems full = elems (fc_workdir cfg) @ session_segment fe session # rs" "is_abs full"
    "canon True (elems full)"
proof -
  let ?root = "session_path fe cfg session"
  note root = session_path_elems [OF wd seg]
  have cr: "canon True (elems ?root)" using canon_elems [of ?root] root(2) by simp
  show ?thesis
  proof (cases "rel = []")
    case True
    then have "full = clean ?root" using ok by (simp add: validate_relative_path_def Let_def)
    then show ?thesis using that [of "[]"] root cr by simp
  next
    case False
    with ok have rel: "rel \<noteq> []" "CHR 0x00 \<notin> set rel" "\<not> is_abs rel"
      by (auto simp: validate_relative_path_def Let_def split: if_splits)
    define es where "es = resolve_elems True (elems ?root) (split_char slash rel)"
    have p: "full = unsplit True es" and pre: "prefix (elems ?root) es"
      using ok validate_relative_path_abs [OF root(2,3) rel] by (auto simp: es_def split: if_splits)
    have ce: "canon True es" unfolding es_def by (rule canon_resolve [OF cr]) (rule split_char_free)
    have "elems full = es" "is_abs full" using ce p by (simp_all add: elems_unsplit is_abs_unsplit)
    moreover obtain rs where "es = elems ?root @ rs" using pre by (auto simp: prefix_def)
    ultimately show ?thesis using that [of rs] root(1) ce by simp
  qed
qed

lemma below_session:
  assumes "validate_root_dir (fc_workdir cfg) = Inr ()" and "good_segment (session_segment fe session)"
  shows "below cfg (session_path fe cfg session) = session_root fe session"
  by (simp add: below_def session_path_elems [OF assms] session_root_def)

lemma below_validated:
  assumes "validate_root_dir (fc_workdir cfg) = Inr ()" and "good_segment (session_segment fe session)"
    and "validate_relative_path (session_path fe cfg session) rel = Inr full"
  shows "prefix (session_root fe session) (below cfg full)"
proof -
  obtain rs where "elems full = elems (fc_workdir cfg) @ session_segment fe session # rs"
    using validated_below [OF assms] .
  then show ?thesis by (simp add: below_def session_root_def)
qed

lemma strip_common_append: "strip_common xs (xs @ ys) = ([], ys)"
proof (induction xs)
  case Nil
  show ?case by (cases ys) simp_all
qed simp

lemma resolve_parts_step:
  obtains (stop) e w1 where "resolve_parts io create cur (n # ns) w = (Inl e, w1)"
      "w1 = w \<or> w1 = snd (os_mkdir io (cur @ [n]) w)"
  | (step) w1 where "resolve_parts io create cur (n # ns) w = resolve_parts io create (cur @ [n]) ns w1"
      "w1 = w \<or> w1 = snd (os_mkdir io (cur @ [n]) w)"
proof (cases "os_lstat io (cur @ [n]) w")
  case (Inl e)
  obtain r w1 where m: "os_mkdir io (cur @ [n]) w = (r, w1)" by (cases "os_mkdir io (cur @ [n]) w")
  show ?thesis
  proof (cases "e = ENOENT \<and> ns \<noteq> [] \<and> create")
    case True
    then show ?thesis
      using that(1) [of "MkdirFailed (show_path (cur @ [n]))" w1] that(2) [of w1] Inl m
      by (cases r; cases "r = Some EEXIST") auto
  next
    case False
    consider "e \<noteq> ENOENT" | "e = ENOENT" "ns = []" | "e = ENOENT" "ns \<noteq> []" "\<not> create" using False by blast
    then show ?thesis
      by cases (use that(1) [of "StatFailed (show_path (cur @ [n]))" w] that(1) [of "ComponentMissing (show_path (cur @ [n]))" w]
        that(2) [of w] Inl in simp_all)
  qed
next
  case (Inr h)
  then show ?thesis
    using that(1) [of "NotADirectory (show_path (cur @ [n]))" w] that(1) [of "SymlinkComponent (show_path (cur @ [n]))" w] that(2) [of w]
    by (cases h; cases "ns = []") simp_all
qed

lemma resolve_parts_path: "resolve_parts io create cur ns w = (Inr p, w1) \<Longrightarrow> p = cur @ ns"
proof (induction ns arbitrary: cur w)
  case (Cons n ns)
  show ?case
    by (rule resolve_parts_step [of io create cur n ns w])
      (use Cons.prems Cons.IH [of "cur @ [n]"] in \<open>simp_all del: resolve_parts.simps(2)\<close>)
qed simp

text \<open>A resolved path is the one the lexical check gave.\<close>

lemma resolve_in_tree_path:
  assumes wd: "validate_root_dir (fc_workdir cfg) = Inr ()" and seg: "good_segment (session_segment fe session)"
    and ok: "validate_relative_path (session_path fe cfg session) rel = Inr full"
    and res: "resolve_in_tree io cfg (session_path fe cfg session) full create w = (Inr p, w1)"
  shows "p = below cfg full"
proof -
  let ?root = "session_path fe cfg session"
  obtain rs where rs: "elems full = elems (fc_workdir cfg) @ session_segment fe session # rs" "is_abs full"
    using validated_below [OF wd seg ok] .
  note root = session_path_elems [OF wd seg]
  have e: "elems full = elems ?root @ rs" using rs root by simp
  have "path_rel (clean ?root) (clean full) = Inr rs"
    using strip_common_append [of "elems ?root" rs] e rs(2) root(2) by (simp add: path_rel_def)
  then have "p = below cfg ?root @ rs"
    using res by (auto simp: resolve_in_tree_def split: if_splits dest: resolve_parts_path)
  then show ?thesis using below_session [OF wd seg] rs by (simp add: below_def session_root_def)
qed


section \<open>Staying below a directory\<close>

text \<open>A directory tree without links.\<close>

definition no_links :: "fsobj \<Rightarrow> bool" where
  "no_links x \<longleftrightarrow> (\<forall>q t. look x q \<noteq> Some (HLink t))"

definition linkless_at :: "string \<Rightarrow> world \<Rightarrow> bool" where
  "linkless_at s w \<longleftrightarrow> look (w_disk w) [] = Some HDir \<and> (\<forall>q t. look (w_disk w) (s # q) \<noteq> Some (HLink t))"

text \<open>What a change below the directory \<open>s\<close> of the work directory leaves alone.\<close>

definition confined :: "string \<Rightarrow> world \<Rightarrow> world \<Rightarrow> bool" where
  "confined s w w' \<longleftrightarrow>
     linkless_at s w'
     \<and> (\<forall>q. \<not> prefix [s] q \<longrightarrow> look (w_disk w') q = look (w_disk w) q)
     \<and> (\<forall>m. m \<noteq> s \<longrightarrow> w_mtime w' m = w_mtime w m)
     \<and> w_escaped w' = w_escaped w"

definition sound_io :: "host_io \<Rightarrow> bool" where
  "sound_io io \<longleftrightarrow> (\<forall>x. no_links x \<longrightarrow> no_links (io_rest io x))"

lemma confined_refl: "linkless_at s w \<Longrightarrow> confined s w w"
  by (simp add: confined_def)

lemma confined_trans: "confined s w w1 \<Longrightarrow> confined s w1 w2 \<Longrightarrow> confined s w w2"
  by (simp add: confined_def)

lemma confined_linkless: "confined s w w' \<Longrightarrow> linkless_at s w'"
  by (simp add: confined_def)

lemma link_on_look: "link_on follow d p = Some l \<Longrightarrow> \<exists>q t. prefix q p \<and> look d q = Some (HLink t)"
proof (induction follow d p rule: link_on.induct)
  case (1 follow t)
  show ?case by (intro exI [of _ "[]"] exI [of _ t]) simp
next
  case (2 follow t n ns)
  show ?case by (intro exI [of _ "[]"] exI [of _ t]) simp
next
  case (3 follow es n ns)
  then obtain x where x: "map_of es n = Some x" "link_on follow x ns = Some l" by (auto split: option.splits)
  then obtain q t where "prefix q ns" "look x q = Some (HLink t)" using 3 by blast
  then show ?case using x(1) by (intro exI [of _ "n # q"] exI [of _ t]) simp
qed auto

lemma linkless_link_on: "linkless_at s w \<Longrightarrow> prefix [s] p \<Longrightarrow> link_on follow (w_disk w) p = None"
proof (rule ccontr)
  assume l: "linkless_at s w" and p: "prefix [s] p" and "link_on follow (w_disk w) p \<noteq> None"
  then obtain q t where q: "prefix q p" "look (w_disk w) q = Some (HLink t)" using link_on_look by blast
  have "q = [] \<or> (\<exists>r. q = s # r)" using p q(1) by (cases q) (auto simp: prefix_def)
  then show False using l q(2) by (auto simp: linkless_at_def)
qed

lemma put_obj_confined:
  assumes l: "linkless_at s w" and p: "prefix [s] p" and v: "\<And>x. v = Some x \<Longrightarrow> no_links x"
  shows "confined s w (put_obj io p v w)"
proof (cases "look (w_disk w) (butlast p) = Some HDir")
  case False
  have "p \<noteq> []" "hd p = s" using p by (auto simp: prefix_def)
  with False have "w_disk (put_obj io p v w) = w_disk w" by (simp add: put_obj_def set_at_no_dir)
  then show ?thesis using l \<open>hd p = s\<close> by (auto simp: confined_def put_obj_def linkless_at_def)
next
  case d: True
  have ne: "p \<noteq> []" using p by auto
  have h: "hd p = s" using p by (auto simp: prefix_def)
  note lk = look_set_at [OF ne d, of v]
  have "look (set_at p v (w_disk w)) q = look (w_disk w) q" if "\<not> prefix [s] q" for q
    using that lk p prefix_order.trans by metis
  moreover have "look (set_at p v (w_disk w)) (s # q) \<noteq> Some (HLink t)" for q t
    using l v by (auto simp: lk linkless_at_def no_links_def split: option.split)
  moreover from calculation(1) [of "[]"] have "look (set_at p v (w_disk w)) [] = Some HDir"
    using l unfolding linkless_at_def by simp
  ultimately show ?thesis using h
    by (auto simp: confined_def put_obj_def linkless_at_def simp del: look_simps)
qed

lemma dir_error_None: "dir_error p w = None \<longleftrightarrow> look (w_disk w) (butlast p) = Some HDir"
  by (auto simp: dir_error_def look_def split: option.splits fsobj.splits)

lemma look_butlast: "p \<noteq> [] \<Longrightarrow> look d p \<noteq> None \<Longrightarrow> look d (butlast p) = Some HDir"
  using look_parent [of d "butlast p" "last p" "[]"] by simp

lemma lookup_look: "lookup d p = Some x \<Longrightarrow> look d p = Some (head_of x)"
  by (simp add: look_def)

lemma lookup_None_look: "lookup d p = None \<longleftrightarrow> look d p = None"
  by (simp add: look_def)

lemma no_links_lookup: "linkless_at s w \<Longrightarrow> prefix [s] p \<Longrightarrow> lookup (w_disk w) p = Some x \<Longrightarrow> no_links x"
proof -
  assume l: "linkless_at s w" "prefix [s] p" "lookup (w_disk w) p = Some x"
  then obtain r where p: "p = s # r" by (auto simp: prefix_def)
  show "no_links x"
    unfolding no_links_def
  proof (intro allI)
    fix q t
    have "look (w_disk w) (s # (r @ q)) = look x q"
      using look_append [of "w_disk w" p q] l(3) p by simp
    then show "look x q \<noteq> Some (HLink t)" using l(1) unfolding linkless_at_def by metis
  qed
qed

lemma no_links_Reg [simp]: "no_links (Reg c)"
proof -
  have "look (Reg c) q \<noteq> Some (HLink t)" for q t by (cases q) simp_all
  then show ?thesis by (simp add: no_links_def)
qed

lemma no_links_Folder_Nil [simp]: "no_links (Folder [])"
proof -
  have "look (Folder []) q \<noteq> Some (HLink t)" for q t by (cases q) simp_all
  then show ?thesis by (simp add: no_links_def)
qed

text \<open>Each call of the system.\<close>

lemma os_mkdir_confined: "linkless_at s w \<Longrightarrow> prefix [s] p \<Longrightarrow> confined s w (snd (os_mkdir io p w))"
  by (auto simp: os_mkdir_def linkless_link_on dir_error_None confined_refl intro!: put_obj_confined split: option.split)

lemma os_write_confined: "linkless_at s w \<Longrightarrow> prefix [s] p \<Longrightarrow> confined s w (snd (os_write io app p content w))"
  by (auto simp: os_write_def linkless_link_on confined_refl intro!: put_obj_confined split: option.split sum.split fsobj.split)

lemma os_remove_confined: "linkless_at s w \<Longrightarrow> prefix [s] p \<Longrightarrow> confined s w (snd (os_remove io p w))"
  by (auto simp: os_remove_def linkless_link_on confined_refl intro!: put_obj_confined split: option.split fsobj.split list.split)

lemma os_remove_all_confined:
  "sound_io io \<Longrightarrow> linkless_at s w \<Longrightarrow> prefix [s] p \<Longrightarrow> confined s w (snd (os_remove_all io p w))"
  by (auto simp: os_remove_all_def linkless_link_on confined_refl sound_io_def
      intro!: put_obj_confined intro: no_links_lookup split: option.split)

lemma os_rename_confined:
  assumes l: "linkless_at s w" and p: "prefix [s] src" "prefix [s] dst"
  shows "confined s w (snd (os_rename io src dst w))"
proof (cases "lookup (w_disk w) src")
  case (Some x)
  have c: "confined s w (put_obj io src None w)" by (rule put_obj_confined [OF l p(1)]) simp
  have "confined s (put_obj io src None w) (put_obj io dst (Some x) (put_obj io src None w))"
    by (rule put_obj_confined [OF confined_linkless [OF c] p(2)]) (use no_links_lookup [OF l p(1) Some] in simp)
  then show ?thesis using c l p Some confined_trans [OF c]
    by (auto simp: os_rename_def linkless_link_on confined_refl split: option.split)
qed (use l p in \<open>simp add: os_rename_def linkless_link_on confined_refl\<close>)

lemma mkdir_all_rev_confined:
  "linkless_at s w \<Longrightarrow> rp = [] \<or> last rp = s \<Longrightarrow> confined s w (snd (mkdir_all_rev io rp w))"
proof (induction rp arbitrary: w)
  case (Cons n rp)
  have p: "prefix [s] (rev (n # rp))" using Cons.prems(2) by (cases rp rule: rev_cases) auto
  obtain r w1 where m: "mkdir_all_rev io rp w = (r, w1)" by (cases "mkdir_all_rev io rp w")
  have c: "confined s w w1" using Cons.IH [OF Cons.prems(1)] Cons.prems(2) m by (cases rp) (simp_all split: if_splits)
  have "confined s w (snd (os_mkdir io (rev (n # rp)) w1))"
    using confined_trans [OF c os_mkdir_confined [OF confined_linkless [OF c] p]] .
  then show ?case using c m confined_refl [OF Cons.prems(1)]
    by (cases r; cases "os_mkdir io (rev (n # rp)) w1") (simp_all add: Let_def del: rev.simps split: sum.split option.split)
qed (simp add: confined_refl)

lemma os_mkdir_all_confined: "linkless_at s w \<Longrightarrow> prefix [s] p \<Longrightarrow> confined s w (snd (os_mkdir_all io p w))"
  unfolding os_mkdir_all_def by (rule mkdir_all_rev_confined) (auto simp: prefix_def last_rev)

lemma touch_dir_confined: "linkless_at s w \<Longrightarrow> prefix [s] p \<Longrightarrow> confined s w (snd (touch_dir io p w))"
  by (auto simp: touch_dir_def linkless_link_on confined_def linkless_at_def prefix_def split: sum.split)

lemmas os_confined = os_mkdir_confined os_write_confined os_remove_confined os_remove_all_confined os_rename_confined
  os_mkdir_all_confined touch_dir_confined

section \<open>Each operation\<close>

lemma resolve_parts_confined:
  "linkless_at s w \<Longrightarrow> prefix [s] cur \<Longrightarrow> confined s w (snd (resolve_parts io create cur ns w))"
proof (induction ns arbitrary: cur w)
  case (Cons n ns)
  have p: "prefix [s] (cur @ [n])" using Cons.prems(2) by (auto simp: prefix_def)
  have m: "confined s w w1" if "w1 = w \<or> w1 = snd (os_mkdir io (cur @ [n]) w)" for w1
    using that confined_refl [OF Cons.prems(1)] os_mkdir_confined [OF Cons.prems(1) p] by auto
  show ?case
  proof (rule resolve_parts_step [of io create cur n ns w])
    fix w1 assume st: "resolve_parts io create cur (n # ns) w = resolve_parts io create (cur @ [n]) ns w1"
      and w1: "w1 = w \<or> w1 = snd (os_mkdir io (cur @ [n]) w)"
    show ?case unfolding st
      by (rule confined_trans [OF m [OF w1] Cons.IH [OF confined_linkless [OF m [OF w1]] p]])
  next
    fix e w1 assume "resolve_parts io create cur (n # ns) w = (Inl e, w1)" "w1 = w \<or> w1 = snd (os_mkdir io (cur @ [n]) w)"
    then show ?case using m by (simp del: resolve_parts.simps)
  qed
qed (simp add: confined_refl)

lemma each_inv:
  "(\<And>x s. P s \<Longrightarrow> P (snd (f x s))) \<Longrightarrow> P s \<Longrightarrow> P (snd (each f xs s))"
proof (induction xs arbitrary: s)
  case (Cons x xs)
  then have "P (snd (f x s))" by blast
  then show ?case using Cons by (cases "f x s") (auto split: option.split)
qed simp

lemma walk_dir_inv:
  assumes "\<And>rel h s. P s \<Longrightarrow> P (snd (fn rel h s))"
  shows "P s \<Longrightarrow> P (snd (walk_dir fuel rd fn rel h s))"
proof (induction fuel arbitrary: rel h s)
  case Nil
  then show ?case using assms [of s rel h] by (cases "fn rel h s") (auto split: visit.split)
next
  case (Cons u fuel)
  obtain v s1 where f: "fn rel h s = (v, s1)" by (cases "fn rel h s")
  have s1: "P s1" using assms [OF Cons.prems, of rel h] f by simp
  have "P (snd (each (\<lambda>(n, k). walk_dir fuel rd fn (rel @ [n]) k) es s1))" for es
  proof (rule each_inv [where P = P])
    show "P (snd ((case x of (n, k) \<Rightarrow> walk_dir fuel rd fn (rel @ [n]) k) s))" if "P s" for x s
      using Cons.IH [OF that] by (cases x) simp
  qed (rule s1)
  then show ?case using f s1 by (cases v) (auto split: sum.split)
qed


lemma copy_entry_confined:
  assumes l: "linkless_at m (fst s)" and p: "prefix [m] dst"
  shows "confined m (fst s) (fst (snd (copy_entry io skip limit src dst rel h s)))"
proof -
  obtain w files bytes where s: "s = (w, files, bytes)" by (cases s)
  have p': "prefix [m] (dst @ rel)" using p by (auto simp: prefix_def)
  have mk: "confined m w w1" if "os_mkdir_all io (dst @ rel) w = (r, w1)" for r w1
    using os_mkdir_all_confined [of m w "dst @ rel" io] l p' that s by simp
  have wr: "confined m w w1" if "os_write io False (dst @ rel) c w = (r, w1)" for r w1 c
    using os_write_confined [of m w "dst @ rel" io False c] l p' that s by simp
  show ?thesis
    using confined_refl [OF l] mk wr
    by (cases h) (auto simp: s copy_entry_def Let_def split: sum.split prod.split option.split)
qed

lemma copy_dir_confined:
  assumes io: "sound_io io" and l: "linkless_at m w" and p: "prefix [m] dst"
  shows "confined m w (snd (copy_dir io src dst skip limit w))"
proof -
  have walk: "confined m w (fst (snd (walk_dir fuel rd (copy_entry io skip limit src dst) rel h (w, 0, 0))))" for fuel rd rel h
  proof (rule walk_dir_inv [where P = "\<lambda>s. confined m w (fst s)"])
    show "confined m w (fst (snd (copy_entry io skip limit src dst rel h s)))" if "confined m w (fst s)" for rel h s
      by (rule confined_trans [OF that copy_entry_confined [OF confined_linkless [OF that] p]])
  qed (simp add: confined_refl l)
  have rm: "confined m w (snd (os_remove_all io dst w1))" if "confined m w w1" for w1
    by (rule confined_trans [OF that os_remove_all_confined [OF io confined_linkless [OF that] p]])
  show ?thesis
  proof (cases "os_lstat io src w")
    case (Inl e)
    then show ?thesis using rm [OF confined_refl [OF l]] confined_refl [OF l]
      by (simp add: copy_dir_def split: sum.split)
  next
    case (Inr h)
    obtain r w1 files bytes where wd: "walk_dir (replicate (height (w_disk w)) ()) (\<lambda>rel s. os_read_dir io (src @ rel) (fst s))
        (copy_entry io skip limit src dst) [] h (w, 0, 0) = (r, w1, files, bytes)" by (rule prod_cases4)
    have c: "confined m w w1" using walk [of "replicate (height (w_disk w)) ()" _ "[]" h] wd by (metis fst_conv snd_conv)
    show ?thesis using rm [OF c] c Inr wd by (cases r) (simp_all add: copy_dir_def split: sum.split)
  qed
qed

lemma copy_file_contents_confined:
  "linkless_at m w \<Longrightarrow> prefix [m] dst \<Longrightarrow> confined m w (snd (copy_file_contents io src dst w))"
  by (simp add: copy_file_contents_def confined_refl os_write_confined split: sum.split)

section \<open>Calls stay in their session\<close>

definition file_setup :: "file_env \<Rightarrow> file_config \<Rightarrow> string \<Rightarrow> bool" where
  "file_setup fe cfg session \<longleftrightarrow>
     validate_root_dir (fc_workdir cfg) = Inr () \<and> good_segment (session_segment fe session) \<and> sound_io (fe_io fe)"

lemma session_dir_Inr: "session_dir fe cfg session = Inr root \<Longrightarrow> root = session_path fe cfg session"
  by (auto simp: session_dir_def split: if_splits)

lemma resolve_in_tree_confined:
  assumes "file_setup fe cfg session" and "linkless_at (session_segment fe session) w"
  shows "confined (session_segment fe session) w
    (snd (resolve_in_tree io cfg (session_path fe cfg session) full create w))"
  using assms below_session [of cfg fe session]
  by (auto simp: resolve_in_tree_def file_setup_def session_root_def confined_refl intro!: resolve_parts_confined split: sum.split)

lemma resolve_path_confined:
  assumes f: "file_setup fe cfg session" and c: "confined (session_segment fe session) w0 w"
    and r: "resolve_path fe cfg session rel create w = (r, w1)"
  shows "confined (session_segment fe session) w0 w1"
proof (cases "session_dir fe cfg session")
  case (Inr root)
  note root = session_dir_Inr [OF Inr]
  have below: "below cfg root = [session_segment fe session]"
    using below_session f root by (simp add: file_setup_def session_root_def)
  obtain e w' where mk: "(if create then os_mkdir_all (fe_io fe) (below cfg root) w else (None, w)) = (e, w')"
    by fastforce
  have c': "confined (session_segment fe session) w0 w'"
    using confined_trans [OF c os_mkdir_all_confined [OF confined_linkless [OF c], of "below cfg root" "fe_io fe"]] mk c
    by (auto simp: below split: if_splits)
  have "confined (session_segment fe session) w0 (snd (resolve_in_tree (fe_io fe) cfg root full create w'))" for full
    unfolding root by (rule confined_trans [OF c' resolve_in_tree_confined [OF f confined_linkless [OF c']]])
  then have t: "confined (session_segment fe session) w0 w2"
    if "resolve_in_tree (fe_io fe) cfg root full create w' = (x, w2)" for x w2 full
    using that by (metis snd_conv)
  show ?thesis using r c' unfolding resolve_path_def Inr sum.case mk
    by (auto split: option.splits sum.splits prod.splits dest: t)
qed (use r c in \<open>simp add: resolve_path_def\<close>)

text \<open>A resolved path is in the session's directory, and is the one the lexical check gives.\<close>

lemma resolve_path_Inr:
  assumes f: "file_setup fe cfg session" and r: "resolve_path fe cfg session rel create w = (Inr p, w1)"
  obtains full where "validate_relative_path (session_path fe cfg session) rel = Inr full" "p = below cfg full"
    "prefix [session_segment fe session] p"
proof -
  obtain root where root: "session_dir fe cfg session = Inr root" using r by (auto simp: resolve_path_def split: sum.splits)
  note rt = session_dir_Inr [OF root]
  obtain full w2 where v: "validate_relative_path (session_path fe cfg session) rel = Inr full"
    and t: "resolve_in_tree (fe_io fe) cfg (session_path fe cfg session) full create w2 = (Inr p, w1)"
    using r unfolding resolve_path_def root rt by (auto split: sum.splits option.splits prod.splits if_splits)
  note w = f [unfolded file_setup_def]
  have "p = below cfg full" using resolve_in_tree_path [OF _ _ v t] w by blast
  then show ?thesis using that v below_validated [OF _ _ v] w by (simp add: session_root_def)
qed

lemma touch_session_confined:
  assumes f: "file_setup fe cfg session" and c: "confined (session_segment fe session) w0 w"
    and r: "touch_session fe cfg session w = (r, w1)"
  shows "confined (session_segment fe session) w0 w1"
proof (cases "session_dir fe cfg session")
  case (Inr root)
  have "below cfg root = [session_segment fe session]"
    using below_session f session_dir_Inr [OF Inr] by (simp add: file_setup_def session_root_def)
  then have "confined (session_segment fe session) w0 (snd (touch_dir (fe_io fe) (below cfg root) w))"
    using confined_trans [OF c touch_dir_confined [OF confined_linkless [OF c]]] by simp
  then show ?thesis using r Inr
    by (cases "touch_dir (fe_io fe) (below cfg root) w") (auto simp: touch_session_def split: option.splits)
qed (use r c in \<open>simp add: touch_session_def\<close>)

text \<open>The changes of the tools, from any state reached so far.\<close>

lemma changes_confined:
  assumes "sound_io io" and c: "confined m w0 w" and "prefix [m] p"
  shows "os_write io app p content w = (r, w1) \<Longrightarrow> confined m w0 w1"
    and "os_remove io p w = (r, w1) \<Longrightarrow> confined m w0 w1"
    and "os_remove_all io p w = (r, w1) \<Longrightarrow> confined m w0 w1"
    and "copy_file_contents io src p w = (r, w1) \<Longrightarrow> confined m w0 w1"
    and "copy_dir io src p skip limit w = (q, w1) \<Longrightarrow> confined m w0 w1"
    and "prefix [m] src \<Longrightarrow> os_rename io src p w = (r, w1) \<Longrightarrow> confined m w0 w1"
  using confined_trans [OF c] os_write_confined [OF confined_linkless [OF c] assms(3), of io app content]
    os_remove_confined [OF confined_linkless [OF c] assms(3), of io]
    os_remove_all_confined [OF assms(1) confined_linkless [OF c] assms(3)]
    copy_file_contents_confined [OF confined_linkless [OF c] assms(3), of io src]
    copy_dir_confined [OF assms(1) confined_linkless [OF c] assms(3), of src skip limit]
    confined_trans [OF c os_rename_confined [OF confined_linkless [OF c] _ assms(3), of src io]]
  by (metis snd_conv)+

lemma validate_transfer_paths_Inr:
  assumes f: "file_setup fe cfg session" and v: "validate_transfer_paths fe cfg session source destination w = Inr (src, dst, d)"
  shows "prefix [session_segment fe session] src" and "prefix [session_segment fe session] dst"
proof -
  note w = f [unfolded file_setup_def]
  obtain root x dp ts where r: "session_dir fe cfg session = Inr root"
    and s: "fst (resolve_path fe cfg session source False w) = Inr src"
    and dp: "validate_relative_path root destination = Inr dp" and dst: "dst = below cfg dp"
    using v by (auto simp: validate_transfer_paths_def Let_def split: sum.splits head.splits if_splits)
  obtain w1 where "resolve_path fe cfg session source False w = (Inr src, w1)"
    using s by (metis prod.collapse)
  then show "prefix [session_segment fe session] src" by (rule resolve_path_Inr [OF f])
  show "prefix [session_segment fe session] dst"
    using below_validated [of cfg fe session destination dp] dp dst session_dir_Inr [OF r] w by (simp add: session_root_def)
qed

lemma act_confined:
  assumes f: "file_setup fe cfg session" and c: "confined (session_segment fe session) w0 w"
    and p: "prefix [session_segment fe session] src" "prefix [session_segment fe session] dst"
  shows "copy_act fe cfg source destination src dst d w = (r, w1) \<Longrightarrow> confined (session_segment fe session) w0 w1"
    and "move_act fe cfg source destination src dst d w = (r, w1) \<Longrightarrow> confined (session_segment fe session) w0 w1"
proof -
  have io: "sound_io (fe_io fe)" using f by (simp add: file_setup_def)
  note ch = changes_confined [OF io _ p(2)] changes_confined [OF io _ p(1)]
  have rm: "confined (session_segment fe session) w0 (snd (os_remove (fe_io fe) dst w2))" if "confined (session_segment fe session) w0 w2" for w2
    by (rule ch(2) [OF that prod.collapse [symmetric]])
  show "copy_act fe cfg source destination src dst d w = (r, w1) \<Longrightarrow> confined (session_segment fe session) w0 w1"
    using c rm
    by (auto simp: copy_act_def Let_def split: if_splits sum.splits prod.splits option.splits dest: ch(4,5) [OF c])
  show "confined (session_segment fe session) w0 w1" if m: "move_act fe cfg source destination src dst d w = (r, w1)"
  proof -
    obtain e w2 where mv: "os_rename (fe_io fe) src dst w = (e, w2)" by fastforce
    have c2: "confined (session_segment fe session) w0 w2" by (rule ch(6) [OF c p(1) mv])
    obtain q w3 where cd: "copy_dir (fe_io fe) src dst False (fc_max_copy cfg) w2 = (q, w3)" by fastforce
    have c3: "confined (session_segment fe session) w0 w3" by (rule ch(5) [OF c2 cd])
    obtain e4 w4 where cf: "copy_file_contents (fe_io fe) src dst w2 = (e4, w4)" by fastforce
    have c4: "confined (session_segment fe session) w0 w4" by (rule ch(4) [OF c2 cf])
    show ?thesis using m c2 c3 c4 rm
      by (auto simp: move_act_def Let_def mv cd cf split: if_splits sum.splits prod.splits option.splits
          dest: ch(8) [OF c4] ch(9) [OF c3])
  qed
qed

lemma transfer_confined:
  assumes f: "file_setup fe cfg session" and l: "linkless_at (session_segment fe session) w"
    and act: "\<And>src dst d w2 r w1. confined (session_segment fe session) w w2 \<Longrightarrow> prefix [session_segment fe session] src \<Longrightarrow>
      prefix [session_segment fe session] dst \<Longrightarrow> act src dst d w2 = (r, w1) \<Longrightarrow> confined (session_segment fe session) w w1"
    and t: "transfer_invoke tool kind act fe cfg c session source destination gp w = (r, w1)"
  shows "confined (session_segment fe session) w w1"
proof (cases "validate_transfer_paths fe cfg session source destination w")
  case (Inr v)
  obtain src dst d where v: "v = (src, dst, d)" by (cases v)
  note p = validate_transfer_paths_Inr [OF f Inr [unfolded v]]
  obtain e w2 where rp: "resolve_path fe cfg session destination True w = (e, w2)" by fastforce
  have c2: "confined (session_segment fe session) w w2" by (rule resolve_path_confined [OF f confined_refl [OF l] rp])
  obtain e3 w3 where ts: "touch_session fe cfg session w2 = (e3, w3)" by fastforce
  have c3: "confined (session_segment fe session) w w3" by (rule touch_session_confined [OF f c2 ts])
  show ?thesis using t c2 c3 confined_refl [OF l]
    by (auto simp: transfer_invoke_def Inr v rp ts split: if_splits sum.splits option.splits dest: act [OF c3 p])
qed (use t confined_refl [OF l] in \<open>auto simp: transfer_invoke_def split: if_splits sum.splits\<close>)

lemma write_confined:
  assumes f: "file_setup fe cfg session" and l: "linkless_at (session_segment fe session) w"
    and t: "write_invoke fe cfg c session path content app gp w = (r, w1)"
  shows "confined (session_segment fe session) w w1"
proof -
  obtain e w2 where rp: "resolve_path fe cfg session path True w = (e, w2)" by fastforce
  have c2: "confined (session_segment fe session) w w2" by (rule resolve_path_confined [OF f confined_refl [OF l] rp])
  obtain e3 w3 where ts: "touch_session fe cfg session w2 = (e3, w3)" by fastforce
  have c3: "confined (session_segment fe session) w w3" by (rule touch_session_confined [OF f c2 ts])
  have wr: "confined (session_segment fe session) w w5" if "e = Inr p" "os_write (fe_io fe) app p content w3 = (q, w5)" for p q w5
  proof -
    from rp that(1) have "resolve_path fe cfg session path True w = (Inr p, w2)" by simp
    then have "prefix [session_segment fe session] p" by (rule resolve_path_Inr [OF f])
    then show ?thesis using changes_confined(1) [OF _ c3 _ that(2)] f by (simp add: file_setup_def)
  qed
  show ?thesis using t c2 c3 confined_refl [OF l]
    by (auto simp: write_invoke_def Let_def rp ts split: if_splits sum.splits option.splits head.splits prod.splits dest: wr)
qed

lemma delete_confined:
  assumes f: "file_setup fe cfg session" and l: "linkless_at (session_segment fe session) w"
    and t: "delete_invoke fe cfg c session path gp w = (r, w1)"
  shows "confined (session_segment fe session) w w1"
proof -
  obtain e w2 where rp: "resolve_path fe cfg session path False w = (e, w2)" by fastforce
  have c2: "confined (session_segment fe session) w w2" by (rule resolve_path_confined [OF f confined_refl [OF l] rp])
  obtain e3 w3 where ts: "touch_session fe cfg session w2 = (e3, w3)" by fastforce
  have c3: "confined (session_segment fe session) w w3" by (rule touch_session_confined [OF f c2 ts])
  have rm: "confined (session_segment fe session) w w5"
    if "e = Inr p" "(if d then os_remove_all (fe_io fe) p w3 else os_remove (fe_io fe) p w3) = (q, w5)" for p q w5 d
  proof -
    from rp that(1) have "resolve_path fe cfg session path False w = (Inr p, w2)" by simp
    then have "prefix [session_segment fe session] p" by (rule resolve_path_Inr [OF f])
    then show ?thesis using changes_confined(2,3) [OF _ c3] f that(2) by (auto simp: file_setup_def split: if_splits)
  qed
  show ?thesis using t c2 c3 confined_refl [OF l] rm [where d = True] rm [where d = False]
    by (auto simp: delete_invoke_def Let_def rp ts split: if_splits sum.splits option.splits prod.splits)
qed

lemma read_confined:
  assumes f: "file_setup fe cfg session" and l: "linkless_at (session_segment fe session) w"
    and t: "read_invoke fe cfg session path i j w = (r, w1)"
  shows "confined (session_segment fe session) w w1"
proof -
  obtain e w2 where rp: "resolve_path fe cfg session path False w = (e, w2)" by fastforce
  have c2: "confined (session_segment fe session) w w2" by (rule resolve_path_confined [OF f confined_refl [OF l] rp])
  obtain e3 w3 where ts: "touch_session fe cfg session w2 = (e3, w3)" by fastforce
  have c3: "confined (session_segment fe session) w w3" by (rule touch_session_confined [OF f c2 ts])
  show ?thesis using t c2 c3 confined_refl [OF l]
    by (auto simp: read_invoke_def Let_def rp ts split: if_splits sum.splits option.splits prod.splits)
qed

lemma run_call_confined:
  assumes f: "file_setup fe cfg session" and l: "linkless_at (session_segment fe session) w"
  shows "confined (session_segment fe session) w (snd (run_call fe cfg c session call w))"
proof -
  obtain r w1 where rc: "run_call fe cfg c session call w = (r, w1)" by fastforce
  note ac = act_confined [OF f]
  show ?thesis
  proof (cases call)
    case (CallRead p i j)
    then show ?thesis using read_confined [OF f l, of p i j] rc by simp
  next
    case (CallWrite p t a gp)
    then show ?thesis using write_confined [OF f l, of c p t a gp] rc by simp
  next
    case (CallDelete p gp)
    then show ?thesis using delete_confined [OF f l, of c p gp] rc by simp
  next
    case (CallCopy s d gp)
    then have t: "transfer_invoke ''file_copy'' WouldCopy (copy_act fe cfg s d) fe cfg c session s d gp w = (r, w1)"
      using rc by (simp add: copy_invoke_def)
    show ?thesis unfolding rc snd_conv by (rule transfer_confined [OF f l _ t]) (rule ac(1))
  next
    case (CallMove s d gp)
    then have t: "transfer_invoke ''file_move'' WouldMove (move_act fe cfg s d) fe cfg c session s d gp w = (r, w1)"
      using rc by (simp add: move_invoke_def)
    show ?thesis unfolding rc snd_conv by (rule transfer_confined [OF f l _ t]) (rule ac(2))
  qed
qed

end
