(* ===== verification/FileTools_Links.thy ===== *)
theory FileTools_Links
  imports FileTools_Props
begin

text \<open>
  The file tools where sessions hold symbolic links: the guards of the walk keep reads, writes, deletions and moves within
  one device inside the session's directory. Copies of directories, and moves that fall back to them, have no such guard.
\<close>

section \<open>Ways without links\<close>

definition clear :: "fsobj \<Rightarrow> string list \<Rightarrow> bool" where
  "clear d p \<longleftrightarrow> (\<forall>q t. prefix q p \<longrightarrow> look d q \<noteq> Some (HLink t))"

definition clear_way :: "fsobj \<Rightarrow> string list \<Rightarrow> bool" where
  "clear_way d p \<longleftrightarrow> (\<forall>q t. strict_prefix q p \<longrightarrow> look d q \<noteq> Some (HLink t))"

lemma clear_snoc: "clear d (p @ [n]) \<longleftrightarrow> clear d p \<and> (\<forall>t. look d (p @ [n]) \<noteq> Some (HLink t))"
  by (auto simp: clear_def)

lemma clear_way_snoc: "clear_way d (p @ [n]) \<longleftrightarrow> clear d p"
  by (auto simp: clear_def clear_way_def strict_prefix_def)

lemma clear_clear_way: "clear d p \<Longrightarrow> clear_way d p"
  by (auto simp: clear_def clear_way_def strict_prefix_def)

lemma clear_link_on: "clear d p \<Longrightarrow> link_on follow d p = None"
  using link_on_look [of follow d p] by (cases "link_on follow d p") (auto simp: clear_def)

lemma link_on_False_look: "link_on False d p = Some l \<Longrightarrow> \<exists>q t. strict_prefix q p \<and> look d q = Some (HLink t)"
proof (induction False d p rule: link_on.induct)
  case (2 t n ns)
  show ?case by (intro exI [of _ "[]"] exI [of _ t]) simp
next
  case (3 es n ns)
  then obtain x where x: "map_of es n = Some x" "link_on False x ns = Some l" by (auto split: option.splits)
  then obtain q t where "strict_prefix q ns" "look x q = Some (HLink t)" using 3 by blast
  then show ?case using x(1) by (intro exI [of _ "n # q"] exI [of _ t]) simp
qed auto

lemma clear_way_link_on: "clear_way d p \<Longrightarrow> link_on False d p = None"
  using link_on_False_look [of d p] by (cases "link_on False d p") (auto simp: clear_way_def)

section \<open>Staying inside a session with links\<close>

text \<open>The directory of a session is not a link itself.\<close>

definition safe_root :: "string \<Rightarrow> world \<Rightarrow> bool" where
  "safe_root s w \<longleftrightarrow> look (w_disk w) [] = Some HDir \<and> (\<forall>t. look (w_disk w) [s] \<noteq> Some (HLink t))"

definition inside :: "string \<Rightarrow> world \<Rightarrow> world \<Rightarrow> bool" where
  "inside s w w' \<longleftrightarrow>
     safe_root s w'
     \<and> (\<forall>q. \<not> prefix [s] q \<longrightarrow> look (w_disk w') q = look (w_disk w) q)
     \<and> (\<forall>m. m \<noteq> s \<longrightarrow> w_mtime w' m = w_mtime w m)
     \<and> w_escaped w' = w_escaped w"

text \<open>No link is made.\<close>

definition no_new_link :: "world \<Rightarrow> world \<Rightarrow> bool" where
  "no_new_link w w' \<longleftrightarrow> (\<forall>q t. look (w_disk w') q = Some (HLink t) \<longrightarrow> look (w_disk w) q = Some (HLink t))"

lemma inside_refl: "safe_root s w \<Longrightarrow> inside s w w"
  by (simp add: inside_def)

lemma inside_trans: "inside s w w1 \<Longrightarrow> inside s w1 w2 \<Longrightarrow> inside s w w2"
  by (simp add: inside_def)

lemma inside_safe: "inside s w w' \<Longrightarrow> safe_root s w'"
  by (simp add: inside_def)

lemma no_new_link_refl [simp]: "no_new_link w w"
  by (simp add: no_new_link_def)

lemma no_new_link_trans: "no_new_link w w1 \<Longrightarrow> no_new_link w1 w2 \<Longrightarrow> no_new_link w w2"
  by (simp add: no_new_link_def)

lemma clear_no_new_link: "clear (w_disk w) p \<Longrightarrow> no_new_link w w' \<Longrightarrow> clear (w_disk w') p"
  by (auto simp: clear_def no_new_link_def)

lemma safe_root_clear: "safe_root s w \<Longrightarrow> clear (w_disk w) [s]"
  by (auto simp: safe_root_def clear_def prefix_Cons)

lemma linkless_safe: "linkless_at s w \<Longrightarrow> safe_root s w"
  by (simp add: linkless_at_def safe_root_def)

lemma put_obj_inside:
  assumes l: "safe_root s w" and p: "prefix [s] p" and v: "\<And>t. p = [s] \<Longrightarrow> v \<noteq> Some (Sym t)"
  shows "inside s w (put_obj io p v w)"
proof (cases "look (w_disk w) (butlast p) = Some HDir")
  case False
  have "p \<noteq> []" "hd p = s" using p by (auto simp: prefix_def)
  with False have "w_disk (put_obj io p v w) = w_disk w" by (simp add: put_obj_def set_at_no_dir)
  then show ?thesis using l \<open>hd p = s\<close> by (auto simp: inside_def put_obj_def safe_root_def)
next
  case d: True
  have ne: "p \<noteq> []" using p by auto
  have h: "hd p = s" using p by (auto simp: prefix_def)
  note lk = look_set_at [OF ne d, of v]
  have "look (set_at p v (w_disk w)) q = look (w_disk w) q" if "\<not> prefix [s] q" for q
    using that lk p prefix_order.trans by metis
  moreover from this [of "[]"] have "look (set_at p v (w_disk w)) [] = Some HDir"
    using l unfolding safe_root_def by simp
  moreover have "look (set_at p v (w_disk w)) [s] \<noteq> Some (HLink t)" for t
  proof (cases "prefix p [s]")
    case True
    then have ps: "p = [s]" using p by (metis prefix_order.antisym)
    show ?thesis
    proof (cases v)
      case (Some y)
      then show ?thesis using v [OF ps] lk [of "[s]"] ps by (cases y) auto
    qed (use lk [of "[s]"] ps in simp)
  next
    case False
    then show ?thesis using l lk [of "[s]"] by (simp add: safe_root_def del: look_simps)
  qed
  ultimately show ?thesis using h
    by (auto simp: inside_def put_obj_def safe_root_def simp del: look_simps)
qed

lemma put_obj_no_new_link:
  assumes "p \<noteq> []" and "\<And>q x t. v = Some x \<Longrightarrow> look x q \<noteq> Some (HLink t)"
  shows "no_new_link w (put_obj io p v w)"
proof (cases "look (w_disk w) (butlast p) = Some HDir")
  case True
  then show ?thesis using assms by (auto simp: no_new_link_def put_obj_def look_set_at split: if_splits option.splits)
qed (use assms(1) in \<open>simp add: no_new_link_def put_obj_def set_at_no_dir\<close>)

lemma os_mkdir_inside:
  assumes l: "safe_root s w" and p: "prefix [s] p" and c: "clear_way (w_disk w) p"
  shows "inside s w (snd (os_mkdir io p w)) \<and> no_new_link w (snd (os_mkdir io p w))"
proof -
  have "look (Folder []) q \<noteq> Some (HLink t)" for q t by (cases q) simp_all
  then have "no_new_link w (put_obj io p (Some (Folder [])) w)" using p by (intro put_obj_no_new_link) auto
  moreover have "inside s w (put_obj io p (Some (Folder [])) w)" by (rule put_obj_inside [OF l p]) simp
  ultimately show ?thesis using clear_way_link_on [OF c] inside_refl [OF l] by (auto simp: os_mkdir_def split: option.split)
qed

lemma os_mkdir_all_inside:
  assumes l: "safe_root s w"
  shows "inside s w (snd (os_mkdir_all io [s] w)) \<and> no_new_link w (snd (os_mkdir_all io [s] w))"
proof -
  have "clear_way (w_disk w) [s]" using clear_clear_way [OF safe_root_clear [OF l]] .
  note m = os_mkdir_inside [OF l _ this, of io]
  then show ?thesis using inside_refl [OF l]
    by (auto simp: os_mkdir_all_def Let_def split: sum.split prod.splits option.split)
qed

lemma touch_dir_inside:
  "safe_root s w \<Longrightarrow> inside s w (snd (touch_dir io [s] w)) \<and> w_disk (snd (touch_dir io [s] w)) = w_disk w"
  using clear_link_on [OF safe_root_clear [of s w], of True]
  by (auto simp: touch_dir_def inside_def safe_root_def split: sum.split)

text \<open>The walk: what it resolves is clear of links.\<close>

lemma resolve_parts_inside:
  assumes "safe_root s w" and "prefix [s] cur" and "clear (w_disk w) cur" and "resolve_parts io create cur ns w = (r, w1)"
  shows "inside s w w1 \<and> no_new_link w w1 \<and> (\<forall>p. r = Inr p \<longrightarrow> clear (w_disk w1) p)"
  using assms
proof (induction ns arbitrary: cur w)
  case Nil
  then show ?case by (auto simp: inside_refl)
next
  case (Cons n ns)
  let ?p = "cur @ [n]"
  have pre: "prefix [s] ?p" using Cons.prems(2) by (auto simp: prefix_def)
  have way: "clear_way (w_disk w) ?p" using Cons.prems(3) by (simp add: clear_way_snoc)
  have st: "os_lstat io ?p w = (if io_fails io IoLstat ?p then Inl EIO
      else case lookup (w_disk w) ?p of None \<Rightarrow> Inl (lookup_error (w_disk w) ?p) | Some x \<Rightarrow> Inr (head_of x))"
    using clear_way_link_on [OF way] by (auto simp: os_lstat_def os_find_def split: option.split)
  obtain e wm where mk: "os_mkdir io ?p w = (e, wm)" by fastforce
  have m: "inside s w wm" "no_new_link w wm" using os_mkdir_inside [OF Cons.prems(1) pre way, of io] mk by simp_all
  have go: ?case if "resolve_parts io create ?p ns w' = (r, w1)" "inside s w w'" "no_new_link w w'" "clear (w_disk w') ?p" for w'
    using Cons.IH [OF inside_safe [OF that(2)] pre that(4,1)] inside_trans [OF that(2)] no_new_link_trans [OF that(3)] by blast
  have here: "clear (w_disk w) ?p" if "\<And>t. look (w_disk w) ?p \<noteq> Some (HLink t)" using that Cons.prems(3) by (simp add: clear_snoc)
  show ?case
  proof (cases "lookup (w_disk w) ?p")
    case None
    then have cl: "clear (w_disk w) ?p" using here by (simp add: lookup_None_look)
    note go' = go [OF _ inside_refl [OF Cons.prems(1)] no_new_link_refl cl] go [OF _ m clear_no_new_link [OF cl m(2)]]
    have "(\<exists>e. r = Inl e) \<and> (w1 = w \<or> w1 = wm) \<or> resolve_parts io create ?p ns w = (r, w1) \<or> resolve_parts io create ?p ns wm = (r, w1)"
      using Cons.prems(4) st None mk by (cases create) (auto simp: Let_def split: if_splits option.splits)
    then show ?thesis using go' m inside_refl [OF Cons.prems(1)] by auto
  next
    case (Some x)
    show ?thesis
    proof (cases "\<exists>t. head_of x = HLink t")
      case True
      then show ?thesis using Cons.prems(4) st Some inside_refl [OF Cons.prems(1)] by (auto split: if_splits)
    next
      case False
      then have cl: "clear (w_disk w) ?p" using here Some by (simp add: lookup_look)
      note go' = go [OF _ inside_refl [OF Cons.prems(1)] no_new_link_refl cl]
      have "(\<exists>e. r = Inl e) \<and> w1 = w \<or> resolve_parts io create ?p ns w = (r, w1)"
        using Cons.prems(4) st Some False by (auto simp: Let_def split: if_splits head.splits)
      then show ?thesis using go' inside_refl [OF Cons.prems(1)] by auto
    qed
  qed
qed

section \<open>Calls\<close>

lemma resolve_parts_read_only: "snd (resolve_parts io False cur ns w) = w"
proof (induction ns arbitrary: cur)
  case (Cons n ns)
  then show ?case by (auto simp: Let_def split: sum.split head.split)
qed simp

lemma resolve_path_read_only: "resolve_path fe cfg session rel False w = (r, w1) \<Longrightarrow> w1 = w"
proof -
  have t: "w2 = w3" if "resolve_in_tree io cfg root full False w3 = (x, w2)" for io root full x w2 w3
    using that resolve_parts_read_only
    by (auto simp: resolve_in_tree_def split: sum.splits if_splits) (metis snd_conv)
  show "resolve_path fe cfg session rel False w = (r, w1) \<Longrightarrow> w1 = w"
    by (auto simp: resolve_path_def split: sum.splits prod.splits dest: t)
qed

lemma resolve_path_inside:
  assumes f: "file_setup fe cfg session" and l: "safe_root (session_segment fe session) w"
    and r: "resolve_path fe cfg session rel create w = (r, w1)"
  shows "inside (session_segment fe session) w w1 \<and> no_new_link w w1 \<and> (\<forall>p. r = Inr p \<longrightarrow> clear (w_disk w1) p)"
proof (cases "session_dir fe cfg session")
  case (Inr root)
  let ?s = "session_segment fe session"
  have below: "below cfg root = [?s]"
    using below_session f session_dir_Inr [OF Inr] by (simp add: file_setup_def session_root_def)
  obtain e w' where mk: "(if create then os_mkdir_all (fe_io fe) (below cfg root) w else (None, w)) = (e, w')"
    by fastforce
  have i: "inside ?s w w'" "no_new_link w w'"
    using os_mkdir_all_inside [OF l, of "fe_io fe"] inside_refl [OF l] mk by (auto simp: below split: if_splits)
  have t: "inside ?s w w2 \<and> no_new_link w w2 \<and> (\<forall>p. x = Inr p \<longrightarrow> clear (w_disk w2) p)"
    if "resolve_in_tree (fe_io fe) cfg root full create w' = (x, w2)" for full x w2
  proof -
    note cl = safe_root_clear [OF inside_safe [OF i(1)]]
    have "inside ?s w' w2 \<and> no_new_link w' w2 \<and> (\<forall>p. x = Inr p \<longrightarrow> clear (w_disk w2) p)"
      using that resolve_parts_inside [OF inside_safe [OF i(1)] _ cl] cl inside_refl [OF inside_safe [OF i(1)]]
      by (auto simp: resolve_in_tree_def below split: sum.splits if_splits)
    then show ?thesis using inside_trans [OF i(1)] no_new_link_trans [OF i(2)] by blast
  qed
  show ?thesis using r i unfolding resolve_path_def Inr sum.case mk
    by (auto split: option.splits sum.splits prod.splits dest: t)
qed (use r l in \<open>auto simp: resolve_path_def inside_refl\<close>)

lemma touch_session_inside:
  assumes f: "file_setup fe cfg session" and l: "safe_root (session_segment fe session) w"
    and r: "touch_session fe cfg session w = (r, w1)"
  shows "inside (session_segment fe session) w w1 \<and> w_disk w1 = w_disk w"
proof (cases "session_dir fe cfg session")
  case (Inr root)
  have "below cfg root = [session_segment fe session]"
    using below_session f session_dir_Inr [OF Inr] by (simp add: file_setup_def session_root_def)
  then show ?thesis using r Inr touch_dir_inside [OF l, of "fe_io fe"]
    by (cases "touch_dir (fe_io fe) (below cfg root) w") (auto simp: touch_session_def split: option.splits)
qed (use r l in \<open>auto simp: touch_session_def inside_refl\<close>)

text \<open>A removal that fails half way leaves a directory where there was one.\<close>

definition keeps_dirs :: "host_io \<Rightarrow> bool" where
  "keeps_dirs io \<longleftrightarrow> (\<forall>es. head_of (io_rest io (Folder es)) = HDir)"

lemma changes_inside:
  assumes l: "safe_root s w" and p: "prefix [s] p" and c: "clear (w_disk w) p"
  shows "os_write io app p content w = (r, w1) \<Longrightarrow> inside s w w1"
    and "os_remove io p w = (r, w1) \<Longrightarrow> inside s w w1"
    and "keeps_dirs io \<Longrightarrow> look (w_disk w) p = Some HDir \<Longrightarrow> os_remove_all io p w = (r, w1) \<Longrightarrow> inside s w w1"
proof -
  note pi = put_obj_inside [OF l p]
  show "os_write io app p content w = (r, w1) \<Longrightarrow> inside s w w1"
    using clear_link_on [OF c] inside_refl [OF l] pi
    by (auto simp: os_write_def split: if_splits option.splits fsobj.splits)
  show "os_remove io p w = (r, w1) \<Longrightarrow> inside s w w1"
    using clear_link_on [OF c] inside_refl [OF l] pi
    by (auto simp: os_remove_def split: if_splits option.splits fsobj.splits list.splits)
  show "inside s w w1" if k: "keeps_dirs io" "look (w_disk w) p = Some HDir" "os_remove_all io p w = (r, w1)"
  proof -
    obtain es where es: "lookup (w_disk w) p = Some (Folder es)" using k(2) by (auto simp: look_def head_of_HDir)
    have "io_rest io (Folder es) \<noteq> Sym t" for t
    proof
      assume "io_rest io (Folder es) = Sym t"
      moreover have "head_of (io_rest io (Folder es)) = HDir" using k(1) by (simp add: keeps_dirs_def)
      ultimately show False by simp
    qed
    then show ?thesis using k(3) es clear_link_on [OF c] pi by (auto simp: os_remove_all_def split: if_splits)
  qed
qed

lemma rename_inside:
  assumes l: "safe_root s w" and p: "prefix [s] src" "prefix [s] dst" and c: "clear (w_disk w) src" "clear (w_disk w) dst"
    and r: "os_rename io src dst w = (r, w1)"
  shows "inside s w w1" and "\<not> io_xdev io \<Longrightarrow> r \<noteq> Some EXDEV"
proof -
  have "lookup_error d q \<noteq> EXDEV" for d q by (induction d q rule: lookup_error.induct) (auto split: option.split)
  moreover from this have "dir_error q w \<noteq> Some EXDEV" for q by (auto simp: dir_error_def split: option.splits fsobj.splits)
  ultimately show "\<not> io_xdev io \<Longrightarrow> r \<noteq> Some EXDEV"
    using r clear_link_on [OF c(1)] clear_link_on [OF c(2)] by (auto simp: os_rename_def split: if_splits option.splits)
  show "inside s w w1"
  proof (cases "lookup (w_disk w) src")
    case (Some x)
    have i: "inside s w (put_obj io src None w)" by (rule put_obj_inside [OF l p(1)]) simp
    have "\<forall>t. look (w_disk w) src \<noteq> Some (HLink t)" using c(1) by (auto simp: clear_def)
    then have "x \<noteq> Sym t" for t using lookup_look [OF Some] by auto
    then have "inside s (put_obj io src None w) (put_obj io dst (Some x) (put_obj io src None w))"
      by (intro put_obj_inside [OF inside_safe [OF i] p(2)]) simp
    then show ?thesis using i inside_trans [OF i] r Some inside_refl [OF l] clear_link_on [OF c(1)] clear_link_on [OF c(2)]
      by (auto simp: os_rename_def split: if_splits option.splits)
  qed (use r inside_refl [OF l] clear_link_on [OF c(1)] clear_link_on [OF c(2)] in
      \<open>auto simp: os_rename_def split: if_splits\<close>)
qed

text \<open>Calls the guards of the walk protect.\<close>

fun guarded :: "host_io \<Rightarrow> file_call \<Rightarrow> bool" where
  "guarded io (CallCopy s d gp) = False"
| "guarded io (CallMove s d gp) = (\<not> io_xdev io)"
| "guarded io call = True"

lemma write_inside:
  assumes f: "file_setup fe cfg session" and l: "safe_root (session_segment fe session) w"
    and t: "write_invoke fe cfg c session path content app gp w = (r, w1)"
  shows "inside (session_segment fe session) w w1"
proof -
  let ?s = "session_segment fe session"
  obtain e w2 where rp: "resolve_path fe cfg session path True w = (e, w2)" by fastforce
  note i2 = resolve_path_inside [OF f l rp]
  obtain e3 w3 where ts: "touch_session fe cfg session w2 = (e3, w3)" by fastforce
  note i3 = touch_session_inside [OF f inside_safe ts, of w]
  have c3: "inside ?s w w3" using inside_trans i2 i3 by blast
  have wr: "inside ?s w w5" if "e = Inr p" "os_write (fe_io fe) app p content w3 = (q, w5)" for p q w5
  proof -
    from rp that(1) have "resolve_path fe cfg session path True w = (Inr p, w2)" by simp
    then have p: "prefix [?s] p" by (rule resolve_path_Inr [OF f])
    have "clear (w_disk w3) p" using i2 i3 that(1) by simp
    then show ?thesis using inside_trans [OF c3 changes_inside(1) [OF inside_safe [OF c3] p _ that(2)]] by blast
  qed
  show ?thesis using t i2 c3 inside_refl [OF l]
    by (auto simp: write_invoke_def Let_def rp ts split: if_splits sum.splits option.splits head.splits prod.splits dest: wr)
qed

lemma lstat_clear: "clear (w_disk w) p \<Longrightarrow> os_lstat io p w = Inr h \<Longrightarrow> look (w_disk w) p = Some h"
  by (auto simp: os_lstat_def os_find_def clear_link_on look_def split: if_splits option.splits)

lemma delete_inside:
  assumes f: "file_setup fe cfg session" and k: "keeps_dirs (fe_io fe)" and l: "safe_root (session_segment fe session) w"
    and t: "delete_invoke fe cfg c session path gp w = (r, w1)"
  shows "inside (session_segment fe session) w w1"
proof -
  let ?s = "session_segment fe session"
  obtain e w2 where rp: "resolve_path fe cfg session path False w = (e, w2)" by fastforce
  note i2 = resolve_path_inside [OF f l rp]
  obtain e3 w3 where ts: "touch_session fe cfg session w2 = (e3, w3)" by fastforce
  note i3 = touch_session_inside [OF f inside_safe ts, of w]
  have c3: "inside ?s w w3" using inside_trans i2 i3 by blast
  have rm: "inside ?s w w5"
    if e: "e = Inr p" and h: "os_lstat (fe_io fe) p w2 = Inr h"
      and x: "(if h = HDir then os_remove_all (fe_io fe) p w3 else os_remove (fe_io fe) p w3) = (q, w5)" for p q w5 h
  proof -
    from rp e have "resolve_path fe cfg session path False w = (Inr p, w2)" by simp
    then have p: "prefix [?s] p" by (rule resolve_path_Inr [OF f])
    have cl: "clear (w_disk w3) p" using i2 i3 e by simp
    have "look (w_disk w3) p = Some h" using lstat_clear [OF _ h] i2 i3 e by simp
    then have "inside ?s w3 w5"
      using changes_inside(2) [OF inside_safe [OF c3] p cl] changes_inside(3) [OF inside_safe [OF c3] p cl k] x by (auto split: if_splits)
    then show ?thesis by (rule inside_trans [OF c3])
  qed
  have rm': "inside ?s w w5" if "e = Inr p" "os_lstat (fe_io fe) p w2 = Inr HDir" "os_remove_all (fe_io fe) p w3 = (q, w5)" for p q w5
    using rm [OF that(1,2)] that(3) by simp
  have rm'': "inside ?s w w5" if "e = Inr p" "os_lstat (fe_io fe) p w2 = Inr h" "h \<noteq> HDir" "os_remove (fe_io fe) p w3 = (q, w5)" for p q w5 h
    using rm [OF that(1,2)] that(3,4) by simp
  show ?thesis using t i2 c3 inside_refl [OF l]
    by (auto simp: delete_invoke_def Let_def rp ts split: if_splits sum.splits option.splits prod.splits dest: rm' rm'')
qed

lemma read_inside:
  assumes f: "file_setup fe cfg session" and l: "safe_root (session_segment fe session) w"
    and t: "read_invoke fe cfg session path i j w = (r, w1)"
  shows "inside (session_segment fe session) w w1"
proof -
  obtain e w2 where rp: "resolve_path fe cfg session path False w = (e, w2)" by fastforce
  note i2 = resolve_path_inside [OF f l rp]
  obtain e3 w3 where ts: "touch_session fe cfg session w2 = (e3, w3)" by fastforce
  note i3 = touch_session_inside [OF f inside_safe ts, of w]
  have c3: "inside (session_segment fe session) w w3" using inside_trans i2 i3 by blast
  show ?thesis using t i2 c3 inside_refl [OF l]
    by (auto simp: read_invoke_def Let_def rp ts split: if_splits sum.splits option.splits prod.splits)
qed

lemma move_inside:
  assumes f: "file_setup fe cfg session" and x: "\<not> io_xdev (fe_io fe)" and l: "safe_root (session_segment fe session) w"
    and t: "move_invoke fe cfg c session source destination gp w = (r, w1)"
  shows "inside (session_segment fe session) w w1"
proof (cases "validate_transfer_paths fe cfg session source destination w")
  case (Inr v)
  let ?s = "session_segment fe session"
  obtain src dst d where v: "v = (src, dst, d)" by (cases v)
  note p = validate_transfer_paths_Inr [OF f Inr [unfolded v]]
  obtain root dp where root: "session_dir fe cfg session = Inr root" and rs: "fst (resolve_path fe cfg session source False w) = Inr src"
    and dp: "validate_relative_path root destination = Inr dp" "dst = below cfg dp"
    using Inr [unfolded v] by (auto simp: validate_transfer_paths_def Let_def split: sum.splits head.splits if_splits)
  obtain ws where ws: "resolve_path fe cfg session source False w = (Inr src, ws)" using rs by (metis prod.collapse)
  obtain e w2 where rp: "resolve_path fe cfg session destination True w = (e, w2)" by fastforce
  note i2 = resolve_path_inside [OF f l rp]
  have s2: "clear (w_disk ws) src" "inside ?s w ws" using resolve_path_inside [OF f l ws] by auto
  obtain e3 w3 where ts: "touch_session fe cfg session w2 = (e3, w3)" by fastforce
  note i3 = touch_session_inside [OF f inside_safe ts, of w]
  have c3: "inside ?s w w3" using inside_trans i2 i3 by blast
  have mv: "inside ?s w w5" if e: "e = Inr q" and m: "move_act fe cfg source destination src dst d w3 = (z, w5)" for q z w5
  proof -
    have rpq: "resolve_path fe cfg session destination True w = (Inr q, w2)" using rp e by simp
    obtain full where "validate_relative_path (session_path fe cfg session) destination = Inr full" "q = below cfg full"
      using resolve_path_Inr [OF f rpq] by blast
    then have "q = dst" using dp session_dir_Inr [OF root] by simp
    then have cd: "clear (w_disk w3) dst" using i2 i3 e by simp
    have "ws = w" using resolve_path_read_only [OF ws] .
    then have cs: "clear (w_disk w3) src" using clear_no_new_link [OF s2(1), of w2] i2 i3 by simp
    obtain u w4 where rn: "os_rename (fe_io fe) src dst w3 = (u, w4)" by fastforce
    note ri = rename_inside [OF inside_safe [OF c3] p cs cd rn]
    have "w5 = w4" using m ri(2) [OF x] rn by (auto simp: move_act_def Let_def split: option.splits if_splits)
    then show ?thesis using inside_trans [OF c3 ri(1)] by simp
  qed
  show ?thesis using t i2 c3 inside_refl [OF l]
    by (auto simp: move_invoke_def transfer_invoke_def Inr v rp ts split: if_splits sum.splits option.splits dest: mv)
qed (use t inside_refl [OF l] in \<open>auto simp: move_invoke_def transfer_invoke_def split: if_splits sum.splits\<close>)

lemma run_call_inside:
  assumes f: "file_setup fe cfg session" and k: "keeps_dirs (fe_io fe)" and l: "safe_root (session_segment fe session) w"
    and g: "guarded (fe_io fe) call"
  shows "inside (session_segment fe session) w (snd (run_call fe cfg c session call w))"
proof -
  obtain r w1 where rc: "run_call fe cfg c session call w = (r, w1)" by fastforce
  show ?thesis
    using rc g read_inside [OF f l] write_inside [OF f l] delete_inside [OF f k l] move_inside [OF f _ l] by (cases call) auto
qed

end
