(* ===== verification/FileTools_Calls.thy ===== *)
theory FileTools_Calls
  imports FileTools_Links
begin

text \<open>
  The file tools over whole calls: sequences of calls of several sessions, calls that are refused or only previewed,
  reading after writing, and the collection of stale sessions.
\<close>

section \<open>Sequences of calls\<close>

definition run_calls :: "file_env \<Rightarrow> file_config \<Rightarrow> ctx \<Rightarrow> (string \<times> file_call) list \<Rightarrow> world \<Rightarrow> world" where
  "run_calls fe cfg c calls w = fold (\<lambda>(session, call) w1. snd (run_call fe cfg c session call w1)) calls w"

text \<open>A session may have links in its directory if it leaves copies alone, which follow them.\<close>

definition isolated_call :: "file_env \<Rightarrow> file_config \<Rightarrow> world \<Rightarrow> string \<Rightarrow> string \<times> file_call \<Rightarrow> bool" where
  "isolated_call fe cfg w m sc =
     (case sc of (s, call) \<Rightarrow> file_setup fe cfg s \<and> session_segment fe s \<noteq> m
        \<and> (linkless_at (session_segment fe s) w \<or> safe_root (session_segment fe s) w \<and> guarded (fe_io fe) call))"

lemma confined_inside: "confined s w w' \<Longrightarrow> inside s w w'"
  by (simp add: confined_def inside_def linkless_safe)

lemma isolated_call_inside:
  assumes "isolated_call fe cfg w m (s, call)" and "keeps_dirs (fe_io fe)"
  shows "inside (session_segment fe s) w (snd (run_call fe cfg c s call w))"
    and "linkless_at (session_segment fe s) w \<Longrightarrow> linkless_at (session_segment fe s) (snd (run_call fe cfg c s call w))"
  using assms run_call_confined [of fe cfg s w c call] run_call_inside [of fe cfg s w call c]
  by (auto simp: isolated_call_def confined_inside confined_linkless)

text \<open>Of other sessions nothing changes.\<close>

lemma inside_others:
  assumes i: "inside s w w'" and n: "m \<noteq> s"
  shows "look (w_disk w') (m # q) = look (w_disk w) (m # q)" and "linkless_at m w \<Longrightarrow> linkless_at m w'"
    and "safe_root m w \<Longrightarrow> safe_root m w'"
proof -
  have *: "look (w_disk w') (m # r) = look (w_disk w) (m # r)" for r using i n by (simp add: inside_def)
  then show "look (w_disk w') (m # q) = look (w_disk w) (m # q)" .
  have r: "look (w_disk w') [] = Some HDir" using i by (simp add: inside_def safe_root_def)
  show "linkless_at m w \<Longrightarrow> linkless_at m w'" using r * unfolding linkless_at_def by simp
  show "safe_root m w \<Longrightarrow> safe_root m w'" using r * unfolding safe_root_def by simp
qed

lemma isolated_call_kept:
  assumes sc: "isolated_call fe cfg w m (s, call)" and k: "keeps_dirs (fe_io fe)" and o: "isolated_call fe cfg w m sc"
  shows "isolated_call fe cfg (snd (run_call fe cfg c s call w)) m sc"
proof -
  obtain s' call' where e: "sc = (s', call')" by (cases sc)
  note i = isolated_call_inside [OF sc k, of c]
  show ?thesis
  proof (cases "session_segment fe s' = session_segment fe s")
    case True
    then show ?thesis using o i inside_safe [OF i(1)] by (auto simp: e isolated_call_def)
  next
    case False
    then show ?thesis using o inside_others(2,3) [OF i(1)] by (auto simp: e isolated_call_def)
  qed
qed

text \<open>C6: Sessions are isolated, links or not. Whatever the file tools are called with by other sessions, in whatever order
  and failing wherever they may, the files of a session stay as they are, its directory keeps its time, and no call touches
  anything outside the work directory. The directories of the calling sessions are not links themselves. They may hold links,
  to anywhere, as long as a session that holds some makes no copies and its moves stay on one device, for copies of
  directories follow links; a session without links may call anything, and gets none. A removal of a directory that fails
  half way leaves a directory.\<close>

theorem sessions_isolated:
  assumes "\<forall>sc \<in> set calls. isolated_call fe cfg w m sc" and "keeps_dirs (fe_io fe)"
  shows "(\<forall>q. look (w_disk (run_calls fe cfg c calls w)) (m # q) = look (w_disk w) (m # q))
    \<and> w_mtime (run_calls fe cfg c calls w) m = w_mtime w m
    \<and> w_escaped (run_calls fe cfg c calls w) = w_escaped w
    \<and> (\<forall>s. linkless_at s w \<longrightarrow> linkless_at s (run_calls fe cfg c calls w))"
  using assms
proof (induction calls arbitrary: w)
  case (Cons sc calls)
  obtain s call where sc: "sc = (s, call)" by (cases sc)
  let ?w = "snd (run_call fe cfg c s call w)"
  have here: "isolated_call fe cfg w m (s, call)" using Cons.prems(1) sc by simp
  note i = isolated_call_inside [OF here Cons.prems(2), of c]
  have n: "m \<noteq> session_segment fe s" using here by (auto simp: isolated_call_def)
  have rest: "\<forall>sc \<in> set calls. isolated_call fe cfg ?w m sc"
    using Cons.prems(1) isolated_call_kept [OF here Cons.prems(2)] by simp
  have run: "run_calls fe cfg c (sc # calls) w = run_calls fe cfg c calls ?w" by (simp add: run_calls_def sc)
  have less: "linkless_at s' ?w" if "linkless_at s' w" for s'
    using that i(2) inside_others(2) [OF i(1)] by (cases "s' = session_segment fe s") auto
  show ?case unfolding run
    using Cons.IH [OF rest Cons.prems(2)] inside_others(1) [OF i(1) n] i(1) n less by (auto simp: inside_def)
qed (simp add: run_calls_def)

text \<open>A work directory with two sessions.\<close>

definition demo_io :: host_io where
  "demo_io = \<lparr>io_fails = (\<lambda>op p. False), io_written = (\<lambda>p. 0), io_rest = (\<lambda>x. x), io_xdev = False,
     io_behind = (\<lambda>t p. None), io_dir_size = 4096, io_now = 500\<rparr>"

definition demo_fe :: file_env where
  "demo_fe = \<lparr>fe_io = demo_io, fe_sha_hex = (\<lambda>s. s), fe_diff = (\<lambda>a b. b)\<rparr>"

definition demo_cfg :: file_config where
  "demo_cfg = \<lparr>fc_workdir = ''/work'', fc_max_read = 1024, fc_max_write = 1024, fc_ttl = 60 * 10 ^ 9,
     fc_require_session = True, fc_max_copy = 1024\<rparr>"

definition demo_world :: world where
  "demo_world = \<lparr>w_disk = Folder [(''s1'', Folder [(''a'', Reg ''one'')]), (''s2'', Folder [(''d'', Folder [(''b'', Reg ''two'')])])],
     w_mtime = (\<lambda>n. 0), w_escaped = []\<rparr>"

lemma demo_setup:
  "file_setup demo_fe demo_cfg ''s1''" "file_setup demo_fe demo_cfg ''s2''"
  "session_segment demo_fe ''s1'' = ''s1''" "session_segment demo_fe ''s2'' = ''s2''"
proof -
  have "validate_root_dir ''/work'' = Inr ()" by code_simp
  moreover have "good_segment ''s1''" "good_segment ''s2''" by code_simp+
  ultimately show "file_setup demo_fe demo_cfg ''s1''" "file_setup demo_fe demo_cfg ''s2''"
    "session_segment demo_fe ''s1'' = ''s1''" "session_segment demo_fe ''s2'' = ''s2''"
    by (simp_all add: file_setup_def demo_fe_def demo_cfg_def demo_io_def session_segment_def session_dir_name_def sound_io_def)
qed

lemma demo_linkless:
  "linkless_at (session_segment demo_fe ''s1'') demo_world" "linkless_at (session_segment demo_fe ''s2'') demo_world"
proof -
  have "look (Folder [(''a'', Reg ''one'')]) q \<noteq> Some (HLink t)" for q t by (cases q; cases "tl q") auto
  moreover have "look (Folder [(''d'', Folder [(''b'', Reg ''two'')])]) q \<noteq> Some (HLink t)" for q t
    by (cases q; cases "tl q"; cases "tl (tl q)") auto
  ultimately show "linkless_at (session_segment demo_fe ''s1'') demo_world" "linkless_at (session_segment demo_fe ''s2'') demo_world"
    by (simp_all add: linkless_at_def demo_setup demo_world_def)
qed

text \<open>The session's root is refused by the path that names it, \<open>.\<close>, only.\<close>

lemma delete_reaches_root:
  "case delete_invoke demo_fe demo_cfg (Some [''file_delete'']) ''s1'' ''../s1'' \<lparr>gp_dry_run = False, gp_confirmed = True\<rparr> demo_world of
     (r, w) \<Rightarrow> r = Inr (DeleteOut ''../s1'' True) \<and> look (w_disk w) [''s1''] = None"
  by code_simp

text \<open>A session has a link to the first one and tries to write through it.\<close>

definition linked_world :: world where
  "linked_world = \<lparr>w_disk = Folder [(''s1'', Folder [(''a'', Reg ''one'')]), (''s2'', Folder [(''l'', Sym ''../s1'')])],
     w_mtime = (\<lambda>n. 0), w_escaped = []\<rparr>"

lemma sessions_isolated_witness:
  "look (w_disk (run_calls demo_fe demo_cfg (Some [''file_write''])
      [(''s2'', CallWrite ''l/a'' ''two'' False \<lparr>gp_dry_run = False, gp_confirmed = True\<rparr>)] linked_world)) [''s1'', ''a'']
     = Some (HFile ''one'')"
proof -
  have "isolated_call demo_fe demo_cfg linked_world ''s1'' (''s2'', CallWrite ''l/a'' ''two'' False \<lparr>gp_dry_run = False, gp_confirmed = True\<rparr>)"
    by (simp add: isolated_call_def demo_setup safe_root_def linked_world_def)
  moreover have "keeps_dirs (fe_io demo_fe)" by (simp add: keeps_dirs_def demo_fe_def demo_io_def)
  moreover have "look (w_disk linked_world) [''s1'', ''a''] = Some (HFile ''one'')" by code_simp
  ultimately show ?thesis
    using sessions_isolated [of "[(''s2'', CallWrite ''l/a'' ''two'' False \<lparr>gp_dry_run = False, gp_confirmed = True\<rparr>)]"
        demo_fe demo_cfg linked_world "''s1''" "Some [''file_write'']"] by simp
qed

section \<open>Refused and previewed calls\<close>

fun call_dry_run :: "file_call \<Rightarrow> bool" where
  "call_dry_run (CallRead p i j) = False"
| "call_dry_run (CallWrite p t a gp) = gp_dry_run gp"
| "call_dry_run (CallDelete p gp) = gp_dry_run gp"
| "call_dry_run (CallCopy s d gp) = gp_dry_run gp"
| "call_dry_run (CallMove s d gp) = gp_dry_run gp"

lemma touch_session_errors: "touch_session fe cfg session w = (Some e, w1) \<Longrightarrow> e \<noteq> FGate g"
  by (auto simp: touch_session_def session_dir_def split: if_splits option.splits sum.splits prod.splits)

lemma resolve_path_errors: "resolve_path fe cfg session rel create w = (Inl e, w1) \<Longrightarrow> e \<noteq> FGate g"
  by (auto simp: resolve_path_def session_dir_def split: if_splits option.splits sum.splits prod.splits)


lemma refused_write:
  "write_invoke fe cfg c session path content app gp w = (r, w1) \<Longrightarrow> gp_dry_run gp \<or> r = Inl (FGate e) \<Longrightarrow> w1 = w"
  by (auto simp: write_invoke_def Let_def split: if_splits sum.splits option.splits head.splits prod.splits
      dest: resolve_path_errors touch_session_errors)

lemma refused_delete:
  "delete_invoke fe cfg c session path gp w = (r, w1) \<Longrightarrow> gp_dry_run gp \<or> r = Inl (FGate e) \<Longrightarrow> w1 = w"
  by (auto simp: delete_invoke_def Let_def split: if_splits sum.splits option.splits prod.splits
      dest: resolve_path_errors touch_session_errors resolve_path_read_only)

lemma refused_transfer:
  assumes "\<And>src dst d w2 w1. act src dst d w2 \<noteq> (Inl (FGate e), w1)"
  shows "transfer_invoke tool kind act fe cfg c session source destination gp w = (r, w1)
    \<Longrightarrow> gp_dry_run gp \<or> r = Inl (FGate e) \<Longrightarrow> w1 = w"
  using assms by (auto simp: transfer_invoke_def Let_def split: if_splits sum.splits option.splits prod.splits
      dest: resolve_path_errors touch_session_errors)

lemma act_no_gate:
  "copy_act fe cfg source destination src dst d w \<noteq> (Inl (FGate e), w1)"
  "move_act fe cfg source destination src dst d w \<noteq> (Inl (FGate e), w1)"
  by (auto simp: copy_act_def move_act_def Let_def split: if_splits sum.splits option.splits prod.splits)

text \<open>C40: Dry runs and calls the confirmation gate refuses leave the disk, its times and everything outside as they
  are.\<close>

theorem refused_changes_nothing:
  assumes "run_call fe cfg c session call w = (r, w1)" and "call_dry_run call \<or> r = Inl (FGate e)"
  shows "w1 = w"
proof (cases call)
  case (CallRead p i j)
  then have "read_invoke fe cfg session p i j w = (Inl (FGate e), w1)" using assms by auto
  then show ?thesis
    by (auto simp: read_invoke_def Let_def split: if_splits sum.splits option.splits prod.splits
        dest: resolve_path_errors touch_session_errors)
next
  case (CallWrite p t a gp)
  then show ?thesis using assms refused_write [of fe cfg c session p t a gp w r w1 e] by simp
next
  case (CallDelete p gp)
  then show ?thesis using assms refused_delete [of fe cfg c session p gp w r w1 e] by simp
next
  case (CallCopy s d gp)
  show ?thesis
    by (rule refused_transfer [where r = r and e = e, OF act_no_gate(1)])
      (use CallCopy assms in \<open>simp_all add: copy_invoke_def\<close>)
next
  case (CallMove s d gp)
  show ?thesis
    by (rule refused_transfer [where r = r and e = e, OF act_no_gate(2)])
      (use CallMove assms in \<open>simp_all add: move_invoke_def\<close>)
qed


section \<open>Reading what was written\<close>

text \<open>Calls that look at things do not fail.\<close>

definition calm :: "host_io \<Rightarrow> bool" where
  "calm io \<longleftrightarrow> (\<forall>p. \<not> io_fails io IoLstat p \<and> \<not> io_fails io IoOpen p \<and> \<not> io_fails io IoReadDir p \<and> \<not> io_fails io IoTouch p)"

lemma os_find_linkless:
  "linkless_at s w \<Longrightarrow> prefix [s] p \<Longrightarrow> os_find follow io p w =
    (case lookup (w_disk w) p of None \<Rightarrow> Inl (lookup_error (w_disk w) p) | Some x \<Rightarrow> Inr x)"
  by (simp add: os_find_def linkless_link_on)

lemma look_HFile: "look d p = Some (HFile c) \<longleftrightarrow> lookup d p = Some (Reg c)"
proof
  assume "look d p = Some (HFile c)"
  then obtain x where "lookup d p = Some x" "head_of x = HFile c" by (auto simp: look_def)
  then show "lookup d p = Some (Reg c)" by (cases x) simp_all
qed (simp add: look_def)

lemma look_HDir_Folder: "look d p = Some HDir \<Longrightarrow> \<exists>es. lookup d p = Some (Folder es)"
  by (auto simp: look_def head_of_HDir)

text \<open>A file there is found, on the way to it only directories.\<close>

lemma os_lstat_way:
  assumes "linkless_at s w" and "calm io" and "lookup (w_disk w) (p @ q) = Some x" and "prefix [s] p"
  shows "os_lstat io p w = Inr (if q = [] then head_of x else HDir)" and "os_stat io p w = Inr (if q = [] then head_of x else HDir)"
proof -
  have "lookup (w_disk w) p = Some x" if "q = []" using assms(3) that by simp
  moreover have "\<exists>es. lookup (w_disk w) p = Some (Folder es)" if ne: "q \<noteq> []"
  proof (rule look_HDir_Folder)
    from ne obtain n ns where "q = n # ns" by (auto simp: neq_Nil_conv)
    then show "look (w_disk w) p = Some HDir" using look_parent [of "w_disk w" p n ns] assms(3) by (simp add: look_def)
  qed
  ultimately show "os_lstat io p w = Inr (if q = [] then head_of x else HDir)" "os_stat io p w = Inr (if q = [] then head_of x else HDir)"
    using assms(2) by (cases "q = []"; auto simp: os_lstat_def os_stat_def os_find_linkless [OF assms(1,4)] calm_def)+
qed

lemma resolve_parts_existing:
  "linkless_at s w \<Longrightarrow> calm io \<Longrightarrow> lookup (w_disk w) (cur @ ns) = Some (Reg c) \<Longrightarrow> prefix [s] cur
    \<Longrightarrow> resolve_parts io create cur ns w = (Inr (cur @ ns), w)"
proof (induction ns arbitrary: cur)
  case (Cons n ns)
  have p: "prefix [s] (cur @ [n])" using Cons.prems(4) by (auto simp: prefix_def)
  have "os_lstat io (cur @ [n]) w = Inr (if ns = [] then HFile c else HDir)"
    using os_lstat_way(1) [OF Cons.prems(1,2) _ p, of ns "Reg c"] Cons.prems(3) by simp
  then show ?case using Cons.IH [OF Cons.prems(1,2) _ p] Cons.prems(3) by (cases "ns = []") simp_all
qed simp

lemma resolve_path_existing:
  assumes f: "file_setup fe cfg session" and l: "linkless_at (session_segment fe session) w" and io: "calm (fe_io fe)"
    and v: "resolve_path fe cfg session rel create0 w0 = (Inr p, w1)" and x: "lookup (w_disk w) p = Some (Reg c)"
    and cr: "create \<Longrightarrow> resolve_path fe cfg session rel True w = (Inr p', w')"
  shows "resolve_path fe cfg session rel create w = (Inr p, w)"
proof -
  obtain root where root: "session_dir fe cfg session = Inr root" using v by (auto simp: resolve_path_def split: sum.splits)
  obtain full w2 where val: "validate_relative_path root rel = Inr full"
    and t: "resolve_in_tree (fe_io fe) cfg root full create0 w2 = (Inr p, w1)"
    using v unfolding resolve_path_def root by (auto split: sum.splits option.splits prod.splits if_splits)
  have b: "below cfg root = [session_segment fe session]"
    using below_session f session_dir_Inr [OF root] by (simp add: file_setup_def session_root_def)
  obtain r where r: "path_rel (clean root) (clean full) = Inr r" "r = [] \<or> hd r \<noteq> dotdot" "p = [session_segment fe session] @ r"
    using t b by (auto simp: resolve_in_tree_def split: sum.splits if_splits dest: resolve_parts_path)
  have s: "os_stat (fe_io fe) [session_segment fe session] w = Inr (if r = [] then HFile c else HDir)"
    using os_lstat_way(2) [OF l io, of "[session_segment fe session]" r "Reg c"] x r by simp
  have "r \<noteq> []" if create using cr [OF that] root s by (auto simp: resolve_path_def b os_mkdir_all_def)
  then have "os_mkdir_all (fe_io fe) [session_segment fe session] w = (None, w)" if create
    using s that by (simp add: os_mkdir_all_def)
  then show ?thesis
    using root val r resolve_parts_existing [OF l io, of "[session_segment fe session]" r c create] x
    by (auto simp: resolve_path_def resolve_in_tree_def b)
qed

text \<open>What a successful write leaves at its path.\<close>

lemma os_write_file:
  assumes l: "linkless_at s w" and p: "prefix [s] p" and wr: "os_write io app p content w = (None, w1)"
  shows "lookup (w_disk w1) p = Some (Reg ((case lookup (w_disk w) p of Some (Reg old) \<Rightarrow> if app then old else [] | _ \<Rightarrow> []) @ content))"
proof -
  obtain base where base: "(case lookup (w_disk w) p of Some (Reg old) \<Rightarrow> if app then old else [] | _ \<Rightarrow> []) = base"
    and w1: "w1 = put_obj io p (Some (Reg (base @ content))) w" and d: "look (w_disk w) (butlast p) = Some HDir"
  proof (cases "lookup (w_disk w) p")
    case None
    then show ?thesis using that wr
      by (auto simp: os_write_def linkless_link_on [OF l p] dir_error_None split: if_splits option.splits)
  next
    case (Some x)
    have "p \<noteq> []" using p by auto
    then have "look (w_disk w) (butlast p) = Some HDir" using look_butlast Some by (simp add: look_def)
    then show ?thesis using that wr Some
      by (cases x) (auto simp: os_write_def linkless_link_on [OF l p] split: if_splits)
  qed
  have "p \<noteq> []" using p by auto
  then have "look (w_disk w1) p = Some (HFile (base @ content))"
    using look_set_at [OF _ d, of "Some (Reg (base @ content))" p] by (simp add: w1 put_obj_def)
  then show ?thesis by (simp add: look_HFile base)
qed


lemma write_invoke_Inr:
  assumes "write_invoke fe cfg c session path content app gp w = (Inr (WriteOut path' n app'), w3)"
  obtains root p w1 w2 where "session_dir fe cfg session = Inr root" "resolve_path fe cfg session path True w = (Inr p, w1)"
    "touch_session fe cfg session w1 = (None, w2)" "os_write (fe_io fe) app p content w2 = (None, w3)" "path \<noteq> []"
  using assms by (auto simp: write_invoke_def write_preview_def Let_def split: if_splits sum.splits option.splits head.splits prod.splits)

lemma touch_session_disk: "touch_session fe cfg session w = (r, w1) \<Longrightarrow> w_disk w1 = w_disk w"
  by (auto simp: touch_session_def touch_dir_def escape_def split: sum.splits option.splits if_splits prod.splits)

lemma linkless_at_disk: "linkless_at s w \<Longrightarrow> w_disk w1 = w_disk w \<Longrightarrow> linkless_at s w1"
  by (simp add: linkless_at_def)

lemma read_existing:
  assumes f: "file_setup fe cfg session" and l: "linkless_at (session_segment fe session) w" and io: "calm (fe_io fe)"
    and rp: "resolve_path fe cfg session path False w = (Inr p, w)" and x: "lookup (w_disk w) p = Some (Reg c)"
    and ok: "path \<noteq> []" "0 < fc_max_read cfg"
  shows "fst (read_invoke fe cfg session path 0 0 w) =
    (if is_binary (take (nat (fc_max_read cfg)) c) then Inl FBinary
     else Inr (ReadOut path (take (nat (fc_max_read cfg)) c) (min (int (length c)) (fc_max_read cfg))
       (fc_max_read cfg < int (length c)) 0 0))"
proof -
  have p: "prefix [session_segment fe session] p" by (rule resolve_path_Inr [OF f rp])
  obtain root where root: "session_dir fe cfg session = Inr root" using rp by (auto simp: resolve_path_def split: sum.splits)
  have b: "below cfg root = [session_segment fe session]"
    using below_session f session_dir_Inr [OF root] by (simp add: file_setup_def session_root_def)
  have lst: "os_lstat (fe_io fe) p w = Inr (HFile c)" using os_lstat_way(1) [OF l io, of p "[]"] x p by simp
  have rd: "os_read_file (fe_io fe) p w = Inr c"
    using io x by (simp add: os_read_file_def os_find_linkless [OF l p] calm_def)
  obtain q where q: "p = [session_segment fe session] @ q" using p by (auto simp: prefix_def)
  have "link_on True (w_disk w) [session_segment fe session] = None" by (rule linkless_link_on [OF l]) simp
  then have "\<exists>w2. touch_session fe cfg session w = (None, w2)"
    using os_lstat_way(2) [OF l io, of "[session_segment fe session]" q "Reg c"] x q io
    by (auto simp: touch_session_def root touch_dir_def b calm_def split: option.splits)
  then obtain w2 where ts: "touch_session fe cfg session w = (None, w2)" by blast
  show ?thesis using ok by (auto simp: read_invoke_def rp lst rd Let_def ts)
qed

text \<open>A read that is not cut off returns the file.\<close>

lemma read_lookup:
  assumes f: "file_setup fe cfg session" and l: "linkless_at (session_segment fe session) w" and io: "calm (fe_io fe)"
    and mr: "0 < fc_max_read cfg" and r: "fst (read_invoke fe cfg session path 0 0 w) = Inr (ReadOut path old m False 0 0)"
  obtains p where "resolve_path fe cfg session path False w = (Inr p, w)" "lookup (w_disk w) p = Some (Reg old)"
proof -
  obtain r' w' where rp': "resolve_path fe cfg session path False w = (r', w')" by fastforce
  obtain p where "r' = Inr p" using r rp' by (auto simp: read_invoke_def Let_def split: if_splits sum.splits)
  then have rp: "resolve_path fe cfg session path False w = (Inr p, w)" using rp' resolve_path_read_only [OF rp'] by simp
  have p: "prefix [session_segment fe session] p" by (rule resolve_path_Inr [OF f rp])
  obtain d where rd: "os_read_file (fe_io fe) p w = Inr d"
    using r rp by (auto simp: read_invoke_def Let_def split: if_splits sum.splits)
  then have x: "lookup (w_disk w) p = Some (Reg d)"
    using os_find_linkless [OF l p, of True "fe_io fe"]
    by (auto simp: os_read_file_def split: if_splits sum.splits fsobj.splits option.splits)
  have "path \<noteq> []" using r by (auto simp: read_invoke_def)
  then have "d = old" using read_existing [OF f l io rp x _ mr] r by (auto split: if_splits)
  then show ?thesis using that rp x by simp
qed

text \<open>C39: What the write tool wrote, the read tool returns: the new content, after what the file held before when the
  call appends. The read covers the file when it is no longer than the read limit, and refuses binary content.\<close>

theorem write_then_read:
  assumes f: "file_setup fe cfg session" and l: "linkless_at (session_segment fe session) w" and io: "calm (fe_io fe)"
    and wr: "write_invoke fe cfg c session path content app gp w = (Inr (WriteOut path' n app'), w3)"
    and old: "if app then fst (read_invoke fe cfg session path 0 0 w) = Inr (ReadOut path old m False 0 0) else old = []"
    and len: "int (length (old @ content)) \<le> fc_max_read cfg"
  shows "fst (read_invoke fe cfg session path 0 0 w3) =
    (if is_binary (old @ content) then Inl FBinary
     else Inr (ReadOut path (old @ content) (int (length (old @ content))) False 0 0))"
proof -
  obtain root p w1 w2 where root: "session_dir fe cfg session = Inr root" and rp: "resolve_path fe cfg session path True w = (Inr p, w1)"
    and ts: "touch_session fe cfg session w1 = (None, w2)" and wo: "os_write (fe_io fe) app p content w2 = (None, w3)" and ne: "path \<noteq> []"
    by (rule write_invoke_Inr [OF wr])
  have p: "prefix [session_segment fe session] p" by (rule resolve_path_Inr [OF f rp])
  have c1: "confined (session_segment fe session) w w1" by (rule resolve_path_confined [OF f confined_refl [OF l] rp])
  have l2: "linkless_at (session_segment fe session) w2"
    by (rule linkless_at_disk [OF confined_linkless [OF c1] touch_session_disk [OF ts]])
  have l3: "linkless_at (session_segment fe session) w3"
    by (rule confined_linkless [OF write_confined [OF f l wr]])
  have len0: "content \<noteq> []" using wr by (auto simp: write_invoke_def)
  then have "0 < length (old @ content)" by simp
  with len have mr: "0 < fc_max_read cfg" by linarith
  have x2: "(case lookup (w_disk w2) p of Some (Reg old) \<Rightarrow> if app then old else [] | _ \<Rightarrow> []) = old"
  proof (cases app)
    case True
    then have r: "fst (read_invoke fe cfg session path 0 0 w) = Inr (ReadOut path old m False 0 0)" using old by simp
    obtain p' where rp': "resolve_path fe cfg session path False w = (Inr p', w)" and x: "lookup (w_disk w) p' = Some (Reg old)"
      by (rule read_lookup [OF f l io mr r])
    have "p = p'" "w1 = w"
      using resolve_path_existing [OF f l io rp' x, of True p w1] rp by simp_all
    then show ?thesis using x True touch_session_disk [OF ts] by simp
  qed (use old in \<open>simp split: option.split fsobj.split\<close>)
  note x3 = os_write_file [OF l2 p wo, unfolded x2]
  have "resolve_path fe cfg session path False w3 = (Inr p, w3)"
    by (rule resolve_path_existing [OF f l3 io rp x3]) simp
  then show ?thesis using read_existing [OF f l3 io _ x3 ne mr] len by (simp add: min_def)
qed


lemma demo_calm: "calm (fe_io demo_fe)"
  by (simp add: calm_def demo_fe_def demo_io_def)

definition append_call :: "world \<Rightarrow> (file_error + file_output) \<times> world" where
  "append_call w = write_invoke demo_fe demo_cfg (Some [''file_write'']) ''s1'' ''a'' ''two'' True \<lparr>gp_dry_run = False, gp_confirmed = True\<rparr> w"

lemma write_then_read_witness:
  "fst (read_invoke demo_fe demo_cfg ''s1'' ''a'' 0 0 (snd (append_call demo_world))) = Inr (ReadOut ''a'' ''onetwo'' 6 False 0 0)"
proof -
  have r: "fst (read_invoke demo_fe demo_cfg ''s1'' ''a'' 0 0 demo_world) = Inr (ReadOut ''a'' ''one'' 3 False 0 0)" by code_simp
  have "fst (append_call demo_world) = Inr (WriteOut ''a'' 3 True)" by code_simp
  then have w: "write_invoke demo_fe demo_cfg (Some [''file_write'']) ''s1'' ''a'' ''two'' True \<lparr>gp_dry_run = False, gp_confirmed = True\<rparr> demo_world
      = (Inr (WriteOut ''a'' 3 True), snd (append_call demo_world))"
    unfolding append_call_def by (metis prod.collapse)
  have b: "\<not> is_binary ''onetwo''" by code_simp
  show ?thesis
    using write_then_read [OF demo_setup(1) demo_linkless(1) demo_calm w, of "''one''" 3] r b
    by (simp add: demo_cfg_def)
qed

lemma refused_changes_nothing_witness:
  "snd (run_call demo_fe demo_cfg None ''s1'' (CallDelete ''a'' \<lparr>gp_dry_run = False, gp_confirmed = False\<rparr>) demo_world) = demo_world"
proof -
  let ?c = "CallDelete ''a'' \<lparr>gp_dry_run = False, gp_confirmed = False\<rparr>"
  have "fst (run_call demo_fe demo_cfg None ''s1'' ?c demo_world) = Inl (FGate ENotConfirmed)" by code_simp
  then have "run_call demo_fe demo_cfg None ''s1'' ?c demo_world
      = (Inl (FGate ENotConfirmed), snd (run_call demo_fe demo_cfg None ''s1'' ?c demo_world))"
    by (metis prod.collapse)
  then show ?thesis by (rule refused_changes_nothing) simp
qed


section \<open>Collecting stale sessions\<close>

text \<open>A directory of the work directory no call has touched for the time to live.\<close>

definition stale :: "host_io \<Rightarrow> int \<Rightarrow> world \<Rightarrow> string \<Rightarrow> bool" where
  "stale io ttl w m \<longleftrightarrow> 0 < ttl \<and> look (w_disk w) [m] = Some HDir \<and> w_mtime w m \<le> io_now io - ttl"

definition steady :: "host_io \<Rightarrow> bool" where
  "steady io \<longleftrightarrow> calm io \<and> (\<forall>p. \<not> io_fails io IoRemove p)"

lemma root_folder: "look (w_disk w) [] = Some HDir \<Longrightarrow> \<exists>es. w_disk w = Folder es"
  by (simp add: head_of_HDir)

lemma os_lstat_root:
  "look (w_disk w) [] = Some HDir \<Longrightarrow> \<not> io_fails io IoLstat [n] \<Longrightarrow> look (w_disk w) [n] = Some h \<Longrightarrow> os_lstat io [n] w = Inr h"
proof -
  assume r: "look (w_disk w) [] = Some HDir" and o: "\<not> io_fails io IoLstat [n]" "look (w_disk w) [n] = Some h"
  obtain es where "w_disk w = Folder es" using root_folder [OF r] by blast
  moreover have "link_on False x [] = None" for x by (cases x) simp_all
  ultimately show "os_lstat io [n] w = Inr h" using o
    by (auto simp: os_lstat_def os_find_def look_def split: option.splits)
qed

lemma remove_root_entry:
  assumes "look (w_disk w) [] = Some HDir"
  shows "look (w_disk (snd (os_remove_all io [n] w))) [] = Some HDir"
    and "w_escaped (snd (os_remove_all io [n] w)) = w_escaped w"
    and "m \<noteq> n \<Longrightarrow> look (w_disk (snd (os_remove_all io [n] w))) (m # q) = look (w_disk w) (m # q)"
    and "m \<noteq> n \<Longrightarrow> w_mtime (snd (os_remove_all io [n] w)) m = w_mtime w m"
    and "\<not> io_fails io IoRemove [n] \<Longrightarrow> look (w_disk (snd (os_remove_all io [n] w))) (n # q) = None"
proof -
  obtain es where es: "w_disk w = Folder es" using root_folder [OF assms] by blast
  have lk: "link_on False x [] = None" for x by (cases x) simp_all
  note d = look_set_at [of "[n]" "w_disk w", simplified assms, simplified]
  show "look (w_disk (snd (os_remove_all io [n] w))) [] = Some HDir"
    and "w_escaped (snd (os_remove_all io [n] w)) = w_escaped w"
    and "m \<noteq> n \<Longrightarrow> look (w_disk (snd (os_remove_all io [n] w))) (m # q) = look (w_disk w) (m # q)"
    and "m \<noteq> n \<Longrightarrow> w_mtime (snd (os_remove_all io [n] w)) m = w_mtime w m"
    and "\<not> io_fails io IoRemove [n] \<Longrightarrow> look (w_disk (snd (os_remove_all io [n] w))) (n # q) = None"
    by (auto simp: os_remove_all_def put_obj_def es lk map_of_AList_update map_of_AList_delete split: option.splits)
qed

text \<open>One entry of the listing: it goes when it is stale, whatever else stays.\<close>

lemma sweep_entry_cases:
  assumes r: "look (w_disk w) [] = Some HDir" and n: "look (w_disk w) [n] = Some h" and ttl: "0 < ttl"
  obtains (keep) "sweep_entry io ttl (n, h) w = w" "\<not> (steady io \<and> stale io ttl w n)"
  | (gone) "sweep_entry io ttl (n, h) w = snd (os_remove_all io [n] w)" "stale io ttl w n"
proof (cases "io_fails io IoLstat [n]")
  case True
  then have "sweep_entry io ttl (n, h) w = w" by (simp add: sweep_entry_def os_lstat_def)
  moreover have "\<not> (steady io \<and> stale io ttl w n)" using True by (auto simp: steady_def calm_def)
  ultimately show ?thesis by (rule keep)
next
  case False
  note st = os_lstat_root [OF r False n]
  show ?thesis
  proof (cases "h = HDir \<and> w_mtime w n \<le> io_now io - ttl")
    case True
    then show ?thesis using gone st n ttl by (simp add: sweep_entry_def stale_def)
  next
    case False
    then have "sweep_entry io ttl (n, h) w = w" using st by (auto simp: sweep_entry_def)
    then show ?thesis using keep False n by (auto simp: stale_def)
  qed
qed

lemma sweep_fold:
  assumes "look (w_disk w) [] = Some HDir" and "distinct (map fst es)" and "\<forall>(n, h) \<in> set es. look (w_disk w) [n] = Some h"
    and ttl: "0 < ttl"
  shows "look (w_disk (fold (sweep_entry io ttl) es w)) [] = Some HDir
    \<and> w_escaped (fold (sweep_entry io ttl) es w) = w_escaped w
    \<and> (m \<notin> fst ` set es \<or> \<not> stale io ttl w m \<longrightarrow> look (w_disk (fold (sweep_entry io ttl) es w)) (m # q) = look (w_disk w) (m # q))
    \<and> (steady io \<and> m \<in> fst ` set es \<and> stale io ttl w m \<longrightarrow> look (w_disk (fold (sweep_entry io ttl) es w)) (m # q) = None)"
  using assms(1-3)
proof (induction es arbitrary: w)
  case (Cons e es)
  obtain n h where e: "e = (n, h)" by (cases e)
  let ?w = "sweep_entry io ttl (n, h) w"
  have n: "look (w_disk w) [n] = Some h" "n \<notin> fst ` set es" using Cons.prems e by auto
  have rest: "look (w_disk w) [m] = Some h'" if "(m, h') \<in> set es" for m h' using Cons.prems that by auto
  show ?case
  proof (rule sweep_entry_cases [OF Cons.prems(1) n(1) ttl, of io])
    assume k: "sweep_entry io ttl (n, h) w = w" "\<not> (steady io \<and> stale io ttl w n)"
    show ?thesis using Cons.IH [OF Cons.prems(1)] Cons.prems(2,3) k by (auto simp: e)
  next
    assume g: "sweep_entry io ttl (n, h) w = snd (os_remove_all io [n] w)" "stale io ttl w n"
    note rm = remove_root_entry [OF Cons.prems(1), where io = io and n = n]
    have other: "look (w_disk ?w) (m # q) = look (w_disk w) (m # q)" "w_mtime ?w m = w_mtime w m" if "m \<noteq> n" for m q
      using rm(3,4) that g by simp_all
    have st: "stale io ttl ?w m = stale io ttl w m" if "m \<noteq> n" for m using other [OF that] by (simp only: stale_def)
    have "look (w_disk ?w) [n'] = Some h'" if "(n', h') \<in> set es" for n' h'
    proof -
      have "n' \<noteq> n" using n(2) that by force
      then show ?thesis using other(1) [of n' "[]"] rest [OF that] by simp
    qed
    then have ih: "look (w_disk (fold (sweep_entry io ttl) es ?w)) [] = Some HDir"
        "w_escaped (fold (sweep_entry io ttl) es ?w) = w_escaped w"
        "m \<notin> fst ` set es \<or> \<not> stale io ttl ?w m \<Longrightarrow> look (w_disk (fold (sweep_entry io ttl) es ?w)) (m # q) = look (w_disk ?w) (m # q)"
        "steady io \<Longrightarrow> m \<in> fst ` set es \<Longrightarrow> stale io ttl ?w m \<Longrightarrow> look (w_disk (fold (sweep_entry io ttl) es ?w)) (m # q) = None"
      using Cons.IH [of ?w] rm(1,2) g Cons.prems(2) e by auto
    show ?thesis
    proof (cases "m = n")
      case True
      have "look (w_disk ?w) (n # q) = None" if "steady io" using rm(5) that g by (simp add: steady_def)
      then show ?thesis using ih True g n(2) by (auto simp: e)
    qed (use ih other st e in auto)
  qed
qed simp

text \<open>The collection of stale sessions removes a directory of the work directory exactly when no call has touched it
  for the time to live: any other entry, a link to a directory included, stays as it is, and nothing outside the work
  directory is touched. A removal that fails may leave a part of a stale session.\<close>

theorem gc_removes_stale:
  assumes "look (w_disk w) [] = Some HDir"
  shows "(\<not> stale (fe_io fe) (fc_ttl cfg) w m \<longrightarrow> look (w_disk (gc_tick fe cfg w)) (m # q) = look (w_disk w) (m # q))
    \<and> (stale (fe_io fe) (fc_ttl cfg) w m \<and> steady (fe_io fe) \<longrightarrow> look (w_disk (gc_tick fe cfg w)) (m # q) = None)
    \<and> w_escaped (gc_tick fe cfg w) = w_escaped w"
proof (cases "0 < fc_ttl cfg")
  case ttl: True
  obtain es where es: "w_disk w = Folder es" using root_folder [OF assms] by blast
  show ?thesis
  proof (cases "io_fails (fe_io fe) IoReadDir []")
    case False
    have d: "distinct (map fst (entries es))" by (simp add: entries_def comp_def distinct_sort)
    have e: "\<forall>(n, h) \<in> set (entries es). look (w_disk w) [n] = Some h"
      by (auto simp: entries_def es look_def split: option.splits dest: weak_map_of_SomeI)
    have m: "m \<in> fst ` set (entries es)" if "look (w_disk w) [m] = Some HDir"
    proof -
      have "m \<in> set (map fst es)" using that by (force simp: es split: option.splits dest: map_of_SomeD)
      then show ?thesis by (force simp: entries_def)
    qed
    have "gc_tick fe cfg w = fold (sweep_entry (fe_io fe) (fc_ttl cfg)) (entries es) w"
      using ttl False by (simp add: gc_tick_def sweep_stale_dirs_def os_read_dir_def os_find_def es)
    then show ?thesis
      using sweep_fold [OF assms d e ttl, of "fe_io fe" m q] m by (simp add: stale_def)
  qed (use ttl in \<open>auto simp: gc_tick_def sweep_stale_dirs_def os_read_dir_def stale_def steady_def calm_def\<close>)
qed (simp add: gc_tick_def sweep_stale_dirs_def stale_def)


lemma gc_removes_stale_witness:
  "look (w_disk (gc_tick (demo_fe\<lparr>fe_io := demo_io\<lparr>io_now := 60 * 10 ^ 9\<rparr>\<rparr>) demo_cfg
      (demo_world\<lparr>w_mtime := (w_mtime demo_world)(''s2'' := 1)\<rparr>))) [''s1'', ''a''] = None
   \<and> look (w_disk (gc_tick (demo_fe\<lparr>fe_io := demo_io\<lparr>io_now := 60 * 10 ^ 9\<rparr>\<rparr>) demo_cfg
      (demo_world\<lparr>w_mtime := (w_mtime demo_world)(''s2'' := 1)\<rparr>))) [''s2'', ''d'', ''b''] = Some (HFile ''two'')"
proof -
  let ?w = "demo_world\<lparr>w_mtime := (w_mtime demo_world)(''s2'' := 1)\<rparr>"
  let ?fe = "demo_fe\<lparr>fe_io := demo_io\<lparr>io_now := 60 * 10 ^ 9\<rparr>\<rparr>"
  have r: "look (w_disk ?w) [] = Some HDir" by (simp add: demo_world_def)
  have s: "stale (fe_io ?fe) (fc_ttl demo_cfg) ?w ''s1''" "\<not> stale (fe_io ?fe) (fc_ttl demo_cfg) ?w ''s2''"
    by (simp_all add: stale_def demo_world_def demo_cfg_def demo_io_def)
  have io: "steady (fe_io ?fe)" by (simp add: steady_def calm_def demo_io_def)
  have "look (w_disk (gc_tick ?fe demo_cfg ?w)) [''s1'', ''a''] = None"
    using gc_removes_stale [OF r, of ?fe demo_cfg "''s1''" "[''a'']"] s(1) io by simp
  moreover have "look (w_disk (gc_tick ?fe demo_cfg ?w)) [''s2'', ''d'', ''b''] = Some (HFile ''two'')"
    using gc_removes_stale [OF r, of ?fe demo_cfg "''s2''" "[''d'', ''b'']"] s(2) by (simp add: demo_world_def)
  ultimately show ?thesis by blast
qed

end
