(* ===== verification/FileTools_Copy.thy ===== *)
theory FileTools_Copy
  imports FileTools_Calls
begin

text \<open>
  Copying a directory: what \<open>CopyDir\<close> makes of a tree without links, at a destination that is not there yet, within the
  byte limit and beyond it, and that the preview of a copy announces what the copy does.
\<close>

section \<open>The files of a tree\<close>

definition names :: "(string \<times> fsobj) list \<Rightarrow> string list" where
  "names es = sort (remdups (map fst es))"

lemma set_names [simp]: "set (names es) = fst ` set es"
  by (simp add: names_def)

lemma entries_names: "entries es = map (\<lambda>n. (n, head_of (the (map_of es n)))) (names es)"
  by (simp add: entries_def names_def)

lemma map_of_names: "n \<in> set (names es) \<Longrightarrow> \<exists>x. map_of es n = Some x \<and> (n, x) \<in> set es"
  using weak_map_of_SomeI [of n _ es] map_of_SomeD by fastforce

text \<open>Their paths, in the order a walk meets them.\<close>

function tree_files :: "fsobj \<Rightarrow> (string list \<times> string) list" where
  "tree_files (Reg c) = [([], c)]"
| "tree_files (Sym t) = []"
| "tree_files (Folder es) = concat (map (\<lambda>n. map (apfst ((#) n)) (tree_files (the (map_of es n)))) (names es))"
  by pat_completeness auto
termination
proof (relation "measure size")
  fix es :: "(string \<times> fsobj) list" and n
  assume "n \<in> set (names es)"
  then obtain x where x: "map_of es n = Some x" "(n, x) \<in> set es" using map_of_names by blast
  have "size x < size (Folder es)" using size_list_estimation' [OF x(2), of "size x" "size_prod (\<lambda>x. 0) size"] by simp
  then show "(the (map_of es n), Folder es) \<in> measure size" using x(1) by simp
qed simp

definition tree_bytes :: "fsobj \<Rightarrow> int" where
  "tree_bytes x = sum_list (map (\<lambda>(p, c). int (length c)) (tree_files x))"

definition tree_count :: "fsobj \<Rightarrow> nat" where
  "tree_count x = length (tree_files x)"

lemma sum_list_map_concat: "sum_list (map f (concat xss)) = sum_list (map (\<lambda>xs. sum_list (map f xs)) xss)"
  by (induction xss) simp_all

lemma tree_simps:
  "tree_bytes (Reg c) = int (length c)" "tree_count (Reg c) = 1"
  "tree_bytes (Folder es) = (\<Sum>n\<leftarrow>names es. tree_bytes (the (map_of es n)))"
  "tree_count (Folder es) = (\<Sum>n\<leftarrow>names es. tree_count (the (map_of es n)))"
  by (simp_all add: tree_bytes_def tree_count_def length_concat sum_list_map_concat comp_def case_prod_beta')

lemma tree_bytes_nonneg: "0 \<le> tree_bytes x"
  unfolding tree_bytes_def by (rule sum_list_nonneg) auto

lemma height_entry: "map_of es n = Some x \<Longrightarrow> height x < height (Folder es)"
proof -
  have "height y \<le> foldr max (map (\<lambda>(n, x). height x) es) 0" if "(m, y) \<in> set es" for m y
    using that by (induction es) (auto intro: le_max_iff_disj [THEN iffD2])
  then show "map_of es n = Some x \<Longrightarrow> height x < height (Folder es)" by (auto dest!: map_of_SomeD simp: le_imp_less_Suc)
qed

lemma height_lookup: "lookup d p = Some x \<Longrightarrow> height x \<le> height d"
proof (induction d p rule: lookup.induct)
  case (2 es n ns)
  then obtain y where "map_of es n = Some y" "height x \<le> height y" by (auto split: option.splits)
  then show ?case using height_entry by fastforce
qed auto

lemma lookup_set_at_parallel: "p \<parallel> q \<Longrightarrow> lookup (set_at p v d) q = lookup d q"
proof (induction p v d arbitrary: q rule: set_at.induct)
  case (2 n ns v es)
  then obtain m ms where q: "q = m # ms" by (cases q) auto
  show ?case
  proof (cases "m = n")
    case True
    then have "ns \<noteq> []" "ns \<parallel> ms" using 2 q by (auto simp: parallel_def)
    then show ?thesis using 2 True q by (auto simp: map_of_AList_update split: option.splits)
  qed (use q in \<open>auto simp: map_of_AList_update map_of_AList_delete split: option.splits\<close>)
qed auto


section \<open>Copying a tree\<close>

text \<open>Nothing fails.\<close>

definition quiet :: "host_io \<Rightarrow> bool" where
  "quiet io \<longleftrightarrow> (\<forall>op p. \<not> io_fails io op p)"

lemma quiet_calm: "quiet io \<Longrightarrow> calm io"
  by (simp add: quiet_def calm_def)

text \<open>The source is the tree \<open>x\<close>, and the copy does not touch it.\<close>

definition copying :: "string \<Rightarrow> string list \<Rightarrow> fsobj \<Rightarrow> string list \<Rightarrow> world \<Rightarrow> bool" where
  "copying s src x dst w \<longleftrightarrow>
     linkless_at s w \<and> lookup (w_disk w) src = Some x \<and> prefix [s] src \<and> prefix [s] dst \<and> src \<parallel> dst"

lemma copying_put:
  assumes c: "copying s src x dst w" and v: "\<And>y. v = Some y \<Longrightarrow> no_links y"
  shows "copying s src x dst (put_obj io (dst @ rel) v w)"
proof -
  have p: "prefix [s] (dst @ rel)" using c by (auto simp: copying_def prefix_def)
  have "(dst @ rel) \<parallel> src" using c parallel_append [of dst src rel "[]"] by (auto simp: copying_def parallel_def)
  then show ?thesis
    using c confined_linkless [OF put_obj_confined [OF _ p v]] lookup_set_at_parallel
    by (simp add: copying_def put_obj_def)
qed

lemma look_put:
  "look (w_disk w) (butlast p) = Some HDir \<Longrightarrow> p \<noteq> [] \<Longrightarrow> look (w_disk (put_obj io p (Some y) w)) q =
    (if prefix p q then look y (drop (length p) q) else look (w_disk w) q)"
  by (simp add: put_obj_def look_set_at del: look_simps)

lemma write_new:
  assumes "quiet io" and "linkless_at s w" and "prefix [s] p" and "look (w_disk w) p = None" and "look (w_disk w) (butlast p) = Some HDir"
  shows "os_write io False p c w = (None, put_obj io p (Some (Reg c)) w)"
  using assms by (simp add: os_write_def quiet_def linkless_link_on lookup_None_look [symmetric] dir_error_None [THEN iffD2])

lemma mkdir_new:
  assumes q: "quiet io" and l: "linkless_at s w" and p: "prefix [s] p" and n: "look (w_disk w) p = None"
    and d: "look (w_disk w) (butlast p) = Some HDir"
  shows "os_mkdir_all io p w = (None, put_obj io p (Some (Folder [])) w)"
proof -
  have ne: "p \<noteq> []" using p by auto
  then obtain m rp where rp: "rev p = m # rp" by (cases p rule: rev_cases) auto
  then have b: "rev rp = butlast p" and pe: "rev (m # rp) = p" by (metis butlast_snoc rev.simps(2) rev_rev_ident)+
  have mk: "os_mkdir io p w = (None, put_obj io p (Some (Folder [])) w)"
    using q n d by (simp add: os_mkdir_def quiet_def linkless_link_on [OF l p] lookup_None_look [symmetric] dir_error_None [THEN iffD2])
  have st: "os_stat io p w = Inl (lookup_error (w_disk w) p)"
    using q n by (simp add: os_stat_def quiet_def os_find_linkless [OF l p] lookup_None_look [symmetric])
  have par: "mkdir_all_rev io rp w = (None, w)"
  proof (cases rp)
    case (Cons a rp')
    then have "prefix [s] (butlast p)" using b p by (cases p) (auto simp: prefix_def)
    moreover obtain es where "lookup (w_disk w) (butlast p) = Some (Folder es)" using look_HDir_Folder [OF d] by blast
    ultimately have "os_stat io (butlast p) w = Inr HDir"
      using q by (simp add: os_stat_def quiet_def os_find_linkless [OF l])
    then show ?thesis using b Cons by simp
  qed simp
  show ?thesis unfolding os_mkdir_all_def rp using st mk par pe by (simp add: Let_def)
qed


definition over :: "int \<Rightarrow> int \<Rightarrow> bool" where
  "over limit b \<longleftrightarrow> 0 < limit \<and> limit < b"

lemma over_mono: "over limit b \<Longrightarrow> b \<le> b' \<Longrightarrow> over limit b'"
  by (simp add: over_def)

text \<open>What copying trees to places below the destination comes to.\<close>

definition copied :: "int \<Rightarrow> string \<Rightarrow> string list \<Rightarrow> fsobj \<Rightarrow> string list \<Rightarrow> (string list \<times> fsobj) list \<Rightarrow> copy_state
    \<Rightarrow> walk_error option \<times> copy_state \<Rightarrow> bool" where
  "copied limit s src x dst parts s0 res \<longleftrightarrow>
     (case (s0, res) of ((w, f, b), (r, w1, f1, b1)) \<Rightarrow>
        if over limit (b + (\<Sum>(p, y)\<leftarrow>parts. tree_bytes y)) then \<exists>k. r = Some (WLimit k) \<and> limit < k
        else r = None \<and> f1 = f + (\<Sum>(p, y)\<leftarrow>parts. tree_count y) \<and> b1 = b + (\<Sum>(p, y)\<leftarrow>parts. tree_bytes y)
          \<and> copying s src x dst w1
          \<and> (\<forall>(p, y) \<in> set parts. \<forall>q. look (w_disk w1) (dst @ p @ q) = look y q)
          \<and> (\<forall>q. (\<forall>(p, y) \<in> set parts. \<not> prefix (dst @ p) q) \<longrightarrow> look (w_disk w1) q = look (w_disk w) q))"

lemma copied_each:
  assumes "\<And>n w f b. n \<in> set ns \<Longrightarrow> copying s src x dst w \<Longrightarrow> look (w_disk w) (dst @ rel) = Some HDir \<Longrightarrow>
      look (w_disk w) (dst @ rel @ [n]) = None \<Longrightarrow> \<not> over limit b \<Longrightarrow>
      copied limit s src x dst [(rel @ [n], t n)] (w, f, b) (g (n, head_of (t n)) (w, f, b))"
    and "distinct ns" and "copying s src x dst w" and "look (w_disk w) (dst @ rel) = Some HDir"
    and "\<And>n. n \<in> set ns \<Longrightarrow> look (w_disk w) (dst @ rel @ [n]) = None" and "\<not> over limit b"
  shows "copied limit s src x dst (map (\<lambda>n. (rel @ [n], t n)) ns) (w, f, b) (each g (map (\<lambda>n. (n, head_of (t n))) ns) (w, f, b))"
  using assms
proof (induction ns arbitrary: w f b)
  case Nil
  then show ?case by (simp add: copied_def)
next
  case (Cons n ns)
  obtain r w1 f1 b1 where g: "g (n, head_of (t n)) (w, f, b) = (r, w1, f1, b1)" by (rule prod_cases4)
  have c: "copied limit s src x dst [(rel @ [n], t n)] (w, f, b) (r, w1, f1, b1)"
    unfolding g [symmetric] by (rule Cons.prems(1)) (use Cons.prems in auto)
  have nn: "0 \<le> (\<Sum>n\<leftarrow>ns. tree_bytes (t n))" by (rule sum_list_nonneg) (auto simp: tree_bytes_nonneg)
  show ?case
  proof (cases "over limit (b + tree_bytes (t n))")
    case True
    then have "over limit (b + (tree_bytes (t n) + (\<Sum>n\<leftarrow>ns. tree_bytes (t n))))" by (rule over_mono) (use nn in simp)
    then show ?thesis using c True by (auto simp: copied_def g comp_def)
  next
    case False
    then have r: "r = None" "f1 = f + tree_count (t n)" "b1 = b + tree_bytes (t n)" "copying s src x dst w1"
      and in1: "look (w_disk w1) (dst @ rel @ n # q) = look (t n) q"
      and out1: "\<not> prefix (dst @ rel @ [n]) q \<Longrightarrow> look (w_disk w1) q = look (w_disk w) q" for q
      using c by (simp_all add: copied_def)
    have rest: "copied limit s src x dst (map (\<lambda>n. (rel @ [n], t n)) ns) (w1, f1, b1) (each g (map (\<lambda>n. (n, head_of (t n))) ns) (w1, f1, b1))"
    proof (rule Cons.IH [OF Cons.prems(1)])
      show "look (w_disk w1) (dst @ rel) = Some HDir" using out1 [of "dst @ rel"] Cons.prems(4) by simp
      show "look (w_disk w1) (dst @ rel @ [m]) = None" if "m \<in> set ns" for m
        using out1 [of "dst @ rel @ [m]"] Cons.prems(2,5) that by auto
    qed (use Cons.prems(2) r False in simp_all)
    obtain r2 w2 f2 b2 where e: "each g (map (\<lambda>n. (n, head_of (t n))) ns) (w1, f1, b1) = (r2, w2, f2, b2)" by (rule prod_cases4)
    have "look (w_disk v) (dst @ rel @ n # q) = look (t n) q"
      if "\<forall>q. (\<exists>m\<in>set ns. prefix (dst @ rel @ [m]) q) \<or> look (w_disk v) q = look (w_disk w1) q" for v q
      using that [rule_format, of "dst @ rel @ n # q"] in1 [of q] Cons.prems(2) by auto
    then show ?thesis using rest r out1
      by (auto simp: copied_def g e comp_def add.assoc split: if_splits)
  qed
qed


lemma source_find:
  assumes "copying s src x dst w" and "quiet io" and "lookup x rel = Some y"
  shows "os_find follow io (src @ rel) w = Inr y"
proof -
  have "prefix [s] (src @ rel)" using assms(1) by (auto simp: copying_def prefix_def)
  then show ?thesis using assms os_find_linkless [of s w "src @ rel"] by (simp add: copying_def lookup_append)
qed

lemma copy_entry_file:
  assumes c: "copying s src x dst w" and io: "quiet io" and y: "lookup x rel = Some (Reg c)"
    and n: "look (w_disk w) (dst @ rel) = None" and d: "look (w_disk w) (butlast (dst @ rel)) = Some HDir"
  shows "copy_entry io skip limit src dst rel (HFile c0) (w, f, b) =
    (if over limit (b + int (length c)) then (Stop (WLimit (b + int (length c))), w, f, b)
     else (Go, put_obj io (dst @ rel) (Some (Reg c)) w, f + 1, b + int (length c)))"
proof -
  have p: "linkless_at s w" "prefix [s] (dst @ rel)" using c by (auto simp: copying_def prefix_def)
  show ?thesis
    using source_find [OF c io y] write_new [OF io p n d, of c] io
    by (simp add: copy_entry_def os_lstat_def os_read_file_def quiet_def Let_def over_def)
qed

lemma walk_file_copied:
  assumes c: "copying s src x dst w" and io: "quiet io" and y: "lookup x rel = Some (Reg c)"
    and n: "look (w_disk w) (dst @ rel) = None" and d: "look (w_disk w) (butlast (dst @ rel)) = Some HDir"
  shows "copied limit s src x dst [(rel, Reg c)] (w, f, b) (walk_dir fuel rd (copy_entry io skip limit src dst) rel (HFile c) (w, f, b))"
proof -
  have ne: "dst @ rel \<noteq> []" using c by (auto simp: copying_def)
  note ce = copy_entry_file [OF c io y n d, of skip limit c f b]
  show ?thesis
  proof (cases "over limit (b + int (length c))")
    case True
    then have "walk_dir fuel rd (copy_entry io skip limit src dst) rel (HFile c) (w, f, b) = (Some (WLimit (b + int (length c))), w, f, b)"
      using ce by (cases fuel) simp_all
    then show ?thesis using True by (simp add: copied_def tree_simps over_def)
  next
    case False
    then have "walk_dir fuel rd (copy_entry io skip limit src dst) rel (HFile c) (w, f, b)
        = (None, put_obj io (dst @ rel) (Some (Reg c)) w, f + 1, b + int (length c))"
      using ce by (cases fuel) simp_all
    then show ?thesis using False copying_put [OF c, of "Some (Reg c)" io rel] look_put [OF d ne]
      by (simp add: copied_def tree_simps del: look_simps)
  qed
qed

lemma no_links_Sym: "no_links x \<Longrightarrow> lookup x rel \<noteq> Some (Sym t)"
  using lookup_look [of x rel "Sym t"] by (auto simp: no_links_def)

text \<open>The copies of its entries, in a directory made for them, are the copy of a directory.\<close>

lemma copied_folder:
  assumes c: "copying s src x dst w" and d: "look (w_disk w) (butlast (dst @ rel)) = Some HDir"
    and e: "copied limit s src x dst (map (\<lambda>n. (rel @ [n], the (map_of es n))) (names es))
      (put_obj io (dst @ rel) (Some (Folder [])) w, f, b) res"
  shows "copied limit s src x dst [(rel, Folder es)] (w, f, b) res"
proof -
  have ne: "dst @ rel \<noteq> []" using c by (auto simp: copying_def)
  note put = look_put [OF d ne, of io "Folder []"]
  obtain r w1 f1 b1 where res: "res = (r, w1, f1, b1)" by (cases res)
  have inside: "look (w_disk w1) (dst @ rel @ q) = look (Folder es) q"
    if i: "\<And>n q. n \<in> set (names es) \<Longrightarrow> look (w_disk w1) (dst @ rel @ n # q) = look (the (map_of es n)) q"
      and o: "\<And>q. (\<And>n. n \<in> set (names es) \<Longrightarrow> \<not> prefix (dst @ rel @ [n]) q) \<Longrightarrow>
        look (w_disk w1) q = look (w_disk (put_obj io (dst @ rel) (Some (Folder [])) w)) q" for q
  proof (cases q)
    case Nil
    then show ?thesis using o [of "dst @ rel"] put by simp
  next
    case (Cons n qs)
    show ?thesis
    proof (cases "n \<in> set (names es)")
      case True
      then show ?thesis using i [OF True, of qs] map_of_names [OF True] Cons by auto
    next
      case False
      then have "map_of es n = None" by (auto simp: map_of_eq_None_iff)
      then show ?thesis using o [of "dst @ rel @ n # qs"] put False Cons by fastforce
    qed
  qed
  have out: "look (w_disk w1) q = look (w_disk w) q"
    if "\<And>q. (\<And>n. n \<in> set (names es) \<Longrightarrow> \<not> prefix (dst @ rel @ [n]) q) \<Longrightarrow>
        look (w_disk w1) q = look (w_disk (put_obj io (dst @ rel) (Some (Folder [])) w)) q"
      and "\<not> prefix (dst @ rel) q" for q
  proof -
    have "\<not> prefix (dst @ rel @ [n]) q" for n using that(2) by (auto simp: prefix_def)
    then show ?thesis using that(1) [of q] that(2) put by simp
  qed
  show ?thesis using e inside out
    by (simp add: copied_def res comp_def tree_simps del: look_simps set_names split: if_splits)
qed

lemma walk_copied:
  assumes io: "quiet io" and x: "no_links x"
  shows "lookup x rel = Some y \<Longrightarrow> height y \<le> length fuel \<Longrightarrow> copying s src x dst w \<Longrightarrow> look (w_disk w) (dst @ rel) = None \<Longrightarrow>
    look (w_disk w) (butlast (dst @ rel)) = Some HDir \<Longrightarrow> \<not> over limit b \<Longrightarrow>
    copied limit s src x dst [(rel, y)] (w, f, b)
      (walk_dir fuel (\<lambda>rel s. os_read_dir io (src @ rel) (fst s)) (copy_entry io False limit src dst) rel (head_of y) (w, f, b))"
proof (induction fuel arbitrary: rel y w f b)
  case Nil
  then obtain c where y: "y = Reg c" using no_links_Sym [OF x] by (cases y) auto
  show ?case unfolding y head_of.simps
    by (rule walk_file_copied [OF Nil.prems(3) io Nil.prems(1) [unfolded y] Nil.prems(4,5)])
next
  case (Cons u fuel)
  show ?case
  proof (cases y)
    case (Reg c)
    show ?thesis unfolding Reg head_of.simps
      by (rule walk_file_copied [OF Cons.prems(3) io Cons.prems(1) [unfolded Reg] Cons.prems(4,5)])
  next
    case (Sym t)
    then show ?thesis using no_links_Sym [OF x] Cons.prems(1) by simp
  next
    case (Folder es)
    let ?w = "put_obj io (dst @ rel) (Some (Folder [])) w"
    have p: "linkless_at s w" "prefix [s] (dst @ rel)" "dst @ rel \<noteq> []" using Cons.prems(3) by (auto simp: copying_def prefix_def)
    have ce: "copy_entry io False limit src dst rel HDir (w, f, b) = (Go, ?w, f, b)"
      using mkdir_new [OF io p(1,2) Cons.prems(4,5)] by (simp add: copy_entry_def dotgit_entry_def)
    have c: "copying s src x dst ?w" by (rule copying_put [OF Cons.prems(3)]) auto
    have rd: "os_read_dir io (src @ rel) ?w = Inr (entries es)"
      using source_find [OF c io Cons.prems(1) [unfolded Folder], of True] io by (simp add: os_read_dir_def quiet_def)
    note put = look_put [OF Cons.prems(5) p(3), of io "Folder []"]
    have each: "copied limit s src x dst (map (\<lambda>n. (rel @ [n], the (map_of es n))) (names es)) (?w, f, b)
      (each (\<lambda>(n, k). walk_dir fuel (\<lambda>rel s. os_read_dir io (src @ rel) (fst s)) (copy_entry io False limit src dst) (rel @ [n]) k)
        (map (\<lambda>n. (n, head_of (the (map_of es n)))) (names es)) (?w, f, b))"
    proof (rule copied_each [OF _ _ c])
      fix n w f b
      assume n: "n \<in> set (names es)" and c: "copying s src x dst w" and d: "look (w_disk w) (dst @ rel) = Some HDir"
        and a: "look (w_disk w) (dst @ rel @ [n]) = None" and o: "\<not> over limit b"
      obtain z where z: "map_of es n = Some z" using map_of_names [OF n] by blast
      have "copied limit s src x dst [(rel @ [n], z)] (w, f, b)
          (walk_dir fuel (\<lambda>rel s. os_read_dir io (src @ rel) (fst s)) (copy_entry io False limit src dst) (rel @ [n]) (head_of z) (w, f, b))"
      proof (rule Cons.IH [OF _ _ c _ _ o])
        show "lookup x (rel @ [n]) = Some z" using Cons.prems(1) z by (simp add: lookup_append Folder)
        show "height z \<le> length fuel" using height_entry [OF z] Cons.prems(2) by (simp add: Folder)
        show "look (w_disk w) (butlast (dst @ rel @ [n])) = Some HDir" using d by (simp add: butlast_append)
      qed (use a in simp)
      then show "copied limit s src x dst [(rel @ [n], the (map_of es n))] (w, f, b)
          ((\<lambda>(n, k). walk_dir fuel (\<lambda>rel s. os_read_dir io (src @ rel) (fst s)) (copy_entry io False limit src dst) (rel @ [n]) k)
            (n, head_of (the (map_of es n))) (w, f, b))" using z by simp
    qed (use put Cons.prems in \<open>simp_all add: names_def distinct_sort\<close>)
    show ?thesis
      using copied_folder [OF Cons.prems(3,5) each] by (simp add: Folder ce rd entries_names)
  qed
qed


section \<open>Whole copies\<close>

text \<open>A copy changes nothing outside its destination, however it ends.\<close>

definition beside :: "string \<Rightarrow> string list \<Rightarrow> world \<Rightarrow> world \<Rightarrow> bool" where
  "beside s dst w0 w \<longleftrightarrow> linkless_at s w \<and> prefix [s] dst \<and> look (w_disk w) (butlast dst) = Some HDir
     \<and> (\<forall>q. \<not> prefix dst q \<longrightarrow> look (w_disk w) q = look (w_disk w0) q)"

lemma beside_put:
  assumes b: "beside s dst w0 w" and v: "\<And>y. v = Some y \<Longrightarrow> no_links y"
  shows "beside s dst w0 (put_obj io (dst @ rel) v w)"
proof -
  have p: "dst @ rel \<noteq> []" "prefix [s] (dst @ rel)" using b by (auto simp: beside_def prefix_def)
  have o: "look (set_at (dst @ rel) v (w_disk w)) q = look (w_disk w) q" if "\<not> prefix dst q" for q
    by (rule look_set_at_other [OF p(1)]) (use that in \<open>auto simp: prefix_def\<close>)
  have nb: "\<not> prefix dst (butlast dst)" using p b by (cases dst rule: rev_cases) (auto simp: beside_def)
  have "look (w_disk w) (butlast dst) = Some HDir" using b by (simp add: beside_def)
  then have d: "look (set_at (dst @ rel) v (w_disk w)) (butlast dst) = Some HDir" by (simp only: o [OF nb])
  have "linkless_at s (put_obj io (dst @ rel) v w)"
    by (rule confined_linkless [OF put_obj_confined [OF _ p(2) v]]) (use b in \<open>simp_all add: beside_def\<close>)
  moreover have "w_disk (put_obj io (dst @ rel) v w) = set_at (dst @ rel) v (w_disk w)" by (simp add: put_obj_def)
  ultimately show ?thesis using b o d by (simp only: beside_def) simp
qed

lemma beside_mkdir:
  assumes b: "beside s dst w0 w"
  shows "beside s dst w0 (snd (os_mkdir io (dst @ rel) w))"
proof -
  have "linkless_at s w" "prefix [s] (dst @ rel)" using b by (auto simp: beside_def prefix_def)
  then show ?thesis using b beside_put [OF b, of "Some (Folder [])" io rel]
    by (auto simp: os_mkdir_def linkless_link_on split: option.split)
qed

lemma beside_write:
  assumes b: "beside s dst w0 w"
  shows "beside s dst w0 (snd (os_write io app (dst @ rel) c w))"
proof -
  have "linkless_at s w" "prefix [s] (dst @ rel)" using b by (auto simp: beside_def prefix_def)
  then show ?thesis using b beside_put [OF b, of "Some (Reg _)" io rel]
    by (auto simp: os_write_def linkless_link_on split: option.split sum.split)
qed

lemma beside_mkdir_all:
  assumes io: "calm io"
  shows "beside s dst w0 w \<Longrightarrow> rev rp = butlast dst \<or> prefix dst (rev rp) \<Longrightarrow> beside s dst w0 (snd (mkdir_all_rev io rp w))"
proof (induction rp arbitrary: w)
  case (Cons n rp)
  show ?case
  proof (cases "prefix dst (rev (n # rp))")
    case True
    then have "rev rp = butlast dst \<or> prefix dst (rev rp)" by (cases dst rule: rev_cases) auto
    then have r: "beside s dst w0 (snd (mkdir_all_rev io rp w))" by (rule Cons.IH [OF Cons.prems(1)])
    obtain e w1 where m: "mkdir_all_rev io rp w = (e, w1)" by fastforce
    obtain rel where rel: "rev (n # rp) = dst @ rel" using True by (auto simp: prefix_def)
    show ?thesis using Cons.prems(1) r m beside_mkdir [of s dst w0 w1 io rel] unfolding mkdir_all_rev.simps rel
      by (cases e; cases "os_mkdir io (dst @ rel) w1") (auto simp: Let_def split: sum.split option.split)
  next
    case False
    then have b: "rev (n # rp) = butlast dst" using Cons.prems(2) by simp
    have l: "linkless_at s w" and "prefix [s] dst" using Cons.prems(1) by (auto simp: beside_def)
    then have p: "prefix [s] (butlast dst)" using b by (cases dst; cases "tl dst = []") (auto simp: prefix_def)
    obtain es where "lookup (w_disk w) (butlast dst) = Some (Folder es)"
      using look_HDir_Folder [of "w_disk w" "butlast dst"] Cons.prems(1) by (auto simp: beside_def)
    then have "os_stat io (butlast dst) w = Inr HDir"
      using os_lstat_way(2) [OF l io, of "butlast dst" "[]"] p by simp
    then show ?thesis using Cons.prems(1) b by (simp add: Let_def)
  qed
qed simp

lemma beside_entry:
  assumes io: "calm io" and b: "beside s dst w0 (fst st)"
  shows "beside s dst w0 (fst (snd (copy_entry io skip limit src dst rel h st)))"
proof -
  obtain w f by0 where st: "st = (w, f, by0)" by (cases st)
  have mk: "beside s dst w0 w1" if "os_mkdir_all io (dst @ rel) w = (r, w1)" for r w1
    using beside_mkdir_all [OF io, of s dst w0 w "rev (dst @ rel)"] b st that by (simp add: os_mkdir_all_def)
  have wr: "beside s dst w0 w1" if "os_write io False (dst @ rel) c w = (r, w1)" for r w1 c
    using beside_write [of s dst w0 w io False rel c] b st that by simp
  show ?thesis using b mk wr
    by (cases h) (auto simp: st copy_entry_def Let_def split: sum.split prod.split option.split)
qed


lemma beside_walk:
  assumes io: "calm io" and b: "beside s dst w0 (fst st)"
  shows "beside s dst w0 (fst (snd (walk_dir fuel rd (copy_entry io skip limit src dst) rel h st)))"
  by (rule walk_dir_inv [where P = "\<lambda>st. beside s dst w0 (fst st)"]) (use beside_entry [OF io] b in auto)

lemma remove_new:
  assumes io: "quiet io" and b: "beside s dst w0 w" and n: "look (w_disk w0) dst = None"
  shows "look (w_disk (snd (os_remove_all io dst w))) q = look (w_disk w0) q"
proof -
  have l: "linkless_at s w" and p: "prefix [s] dst" and d: "look (w_disk w) (butlast dst) = Some HDir" using b by (auto simp: beside_def)
  have ne: "dst \<noteq> []" using p by auto
  have none: "look (w_disk w0) q = None" if "prefix dst q" using look_None_append [OF n] that by (auto simp: prefix_def)
  have other: "look (w_disk w) q = look (w_disk w0) q" if "\<not> prefix dst q" using b that by (simp add: beside_def)
  show ?thesis
  proof (cases "lookup (w_disk w) dst")
    case None
    then have "look (w_disk w) q = None" if "prefix dst q"
      using look_None_append [of "w_disk w" dst] that by (auto simp: prefix_def lookup_None_look)
    then show ?thesis using None none other
      by (cases "prefix dst q") (simp_all add: os_remove_all_def linkless_link_on [OF l p])
  next
    case (Some x)
    then have "w_disk (snd (os_remove_all io dst w)) = set_at dst None (w_disk w)"
      using io by (simp add: os_remove_all_def linkless_link_on [OF l p] quiet_def put_obj_def)
    then show ?thesis using look_set_at [OF ne d, of None q] none other by (simp split: if_splits)
  qed
qed

text \<open>C7: Copying a directory without links to a place that is free: the destination becomes the source and nothing
  else changes, with the number of files and bytes reported; a tree of more bytes than the limit is refused and
  nothing of it is left.\<close>

theorem copy_dir_exact:
  assumes io: "quiet io" and l: "linkless_at s w" and p: "prefix [s] src" "prefix [s] dst" and np: "\<not> prefix src dst"
    and x: "lookup (w_disk w) src = Some x" and n: "look (w_disk w) dst = None" and d: "look (w_disk w) (butlast dst) = Some HDir"
  shows "case copy_dir io src dst False limit w of
      (Inr (files, bytes), w1) \<Rightarrow> (limit \<le> 0 \<or> bytes \<le> limit) \<and> files = tree_count x \<and> bytes = tree_bytes x
        \<and> (\<forall>q. look (w_disk w1) q = (if prefix dst q then look (w_disk w) (src @ drop (length dst) q) else look (w_disk w) q))
    | (Inl e, w1) \<Rightarrow> 0 < limit \<and> limit < tree_bytes x \<and> (\<exists>k. e = WLimit k \<and> limit < k) \<and> (\<forall>q. look (w_disk w1) q = look (w_disk w) q)"
proof -
  have "\<not> prefix dst src" using n x look_None_append [OF n] by (auto simp: prefix_def look_def)
  then have c: "copying s src x dst w" using l p np x by (simp add: copying_def parallel_def)
  have lx: "no_links x" by (rule no_links_lookup [OF l p(1) x])
  have st: "os_lstat io src w = Inr (head_of x)" using os_lstat_way(1) [OF l quiet_calm [OF io], of src "[]" x] p x by simp
  have nd: "os_lstat io dst w = Inl (lookup_error (w_disk w) dst)"
    using io n by (simp add: os_lstat_def quiet_def os_find_linkless [OF l p(2)] lookup_None_look [symmetric])
  let ?walk = "walk_dir (replicate (height (w_disk w)) ()) (\<lambda>rel s. os_read_dir io (src @ rel) (fst s)) (copy_entry io False limit src dst) [] (head_of x) (w, 0, 0)"
  have "copied limit s src x dst [([], x)] (w, 0, 0) ?walk"
    by (rule walk_copied [OF io lx]) (use x n d c height_lookup in \<open>simp_all add: over_def\<close>)
  moreover obtain r w1 f b where walk: "?walk = (r, w1, f, b)" by (rule prod_cases4)
  ultimately have cp: "copied limit s src x dst [([], x)] (w, 0, 0) (r, w1, f, b)" by simp
  have "beside s dst w w" using l p d by (simp add: beside_def)
  then have "beside s dst w w1" using beside_walk [OF quiet_calm [OF io], of s dst w "(w, 0, 0)"] walk by (metis fst_conv snd_conv)
  note rm = remove_new [OF io this n]
  show ?thesis
  proof (cases "over limit (tree_bytes x)")
    case True
    then show ?thesis using cp rm by (auto simp: copy_dir_def st walk nd copied_def over_def)
  next
    case False
    have "look (w_disk w1) q = (if prefix dst q then look (w_disk w) (src @ drop (length dst) q) else look (w_disk w) q)" for q
    proof (cases "prefix dst q")
      case True
      then obtain zs where q: "q = dst @ zs" by (auto simp: prefix_def)
      have "look (w_disk w1) (dst @ zs) = look x zs" using cp False by (simp add: copied_def)
      then show ?thesis using x by (simp add: q look_append [of _ src])
    qed (use cp False in \<open>simp add: copied_def\<close>)
    then show ?thesis using cp False by (auto simp: copy_dir_def st walk copied_def over_def)
  qed
qed


section \<open>What a preview announces\<close>

lemma tree_files_look: "(p, c) \<in> set (tree_files x) \<longleftrightarrow> look x p = Some (HFile c)"
proof (induction x arbitrary: p rule: tree_files.induct)
  case (1 c')
  show ?case by (cases p) auto
next
  case (2 t)
  show ?case by (cases p) simp_all
next
  case (3 es)
  have n: "n \<in> set (names es) \<longleftrightarrow> map_of es n \<noteq> None" for n by (simp add: map_of_eq_None_iff)
  show ?case
  proof (cases p)
    case (Cons n q)
    have "(p, c) \<in> set (tree_files (Folder es)) \<longleftrightarrow> n \<in> set (names es) \<and> (q, c) \<in> set (tree_files (the (map_of es n)))"
      by (force simp: Cons apfst_def map_prod_def simp del: set_names)
    then show ?thesis using 3 [of n q] n [of n] by (cases "map_of es n") (auto simp: Cons simp del: set_names)
  qed (auto simp: apfst_def map_prod_def)
qed

lemma tree_files_distinct: "distinct (map fst (tree_files x))"
proof (induction x rule: tree_files.induct)
  case (3 es)
  have "distinct (concat (map (\<lambda>n. map ((#) n) (map fst (tree_files (the (map_of es n))))) ns))"
    if "distinct ns" "set ns \<subseteq> set (names es)" for ns
    using that 3 by (induction ns) (auto simp: distinct_map inj_on_def)
  from this [of "names es"] show ?case
    by (simp add: names_def distinct_sort map_concat comp_def)
qed simp_all

lemma each_append:
  "(\<And>n fs. n \<in> set ns \<Longrightarrow> g (n, k n) fs = (None, fs @ out n)) \<Longrightarrow>
    each g (map (\<lambda>n. (n, k n)) ns) fs = (None, fs @ concat (map out ns))"
  by (induction ns arbitrary: fs) simp_all

lemma walk_files:
  assumes io: "calm io" and l: "linkless_at s w" and p: "prefix [s] root" and x: "lookup (w_disk w) root = Some x"
  shows "lookup x rel = Some y \<Longrightarrow> height y \<le> length fuel \<Longrightarrow> rel \<noteq> [] \<or> head_of y = HDir \<Longrightarrow>
    walk_dir fuel (\<lambda>rel s. os_read_dir io (root @ rel) w) (visit_file io w False root) rel (head_of y) fs
      = (None, fs @ map (\<lambda>(q, c). rel @ q) (tree_files y))"
proof (induction fuel arbitrary: rel y fs)
  case Nil
  have "prefix [s] (root @ rel)" using p by (auto simp: prefix_def)
  moreover have "lookup (w_disk w) ((root @ rel) @ []) = Some y" using x Nil.prems(1) by (simp add: lookup_append)
  ultimately have "os_lstat io (root @ rel) w = Inr (head_of y)" using os_lstat_way(1) [OF l io, of "root @ rel" "[]"] by simp
  then show ?case using Nil.prems by (cases y) (simp_all add: visit_file_def dotgit_entry_def)
next
  case (Cons u fuel)
  have pr: "prefix [s] (root @ rel)" using p by (auto simp: prefix_def)
  have lk: "lookup (w_disk w) (root @ rel) = Some y" using x Cons.prems(1) by (simp add: lookup_append)
  then have lst: "os_lstat io (root @ rel) w = Inr (head_of y)" using os_lstat_way(1) [OF l io, of "root @ rel" "[]"] pr by simp
  show ?case
  proof (cases y)
    case (Folder es)
    have rd: "os_read_dir io (root @ rel) w = Inr (entries es)"
      using io lk by (simp add: os_read_dir_def calm_def os_find_linkless [OF l pr] Folder)
    have "each (\<lambda>(n, k). walk_dir fuel (\<lambda>rel s. os_read_dir io (root @ rel) w) (visit_file io w False root) (rel @ [n]) k)
        (map (\<lambda>n. (n, head_of (the (map_of es n)))) (names es)) fs
      = (None, fs @ concat (map (\<lambda>n. map (\<lambda>(q, c). (rel @ [n]) @ q) (tree_files (the (map_of es n)))) (names es)))"
    proof (rule each_append)
      fix n fs assume n: "n \<in> set (names es)"
      obtain z where z: "map_of es n = Some z" using map_of_names [OF n] by blast
      then show "(case (n, head_of (the (map_of es n))) of (n, k) \<Rightarrow>
          walk_dir fuel (\<lambda>rel s. os_read_dir io (root @ rel) w) (visit_file io w False root) (rel @ [n]) k) fs
        = (None, fs @ map (\<lambda>(q, c). (rel @ [n]) @ q) (tree_files (the (map_of es n))))"
        using Cons.IH [of "rel @ [n]" z fs] Cons.prems height_entry [OF z] by (simp add: Folder lookup_append)
    qed
    moreover have "map (\<lambda>(q, c). rel @ q) (tree_files (Folder es))
        = concat (map (\<lambda>n. map (\<lambda>(q, c). (rel @ [n]) @ q) (tree_files (the (map_of es n)))) (names es))"
      by (simp add: map_concat comp_def case_prod_beta')
    moreover have "visit_file io w False root rel HDir fs = (Go, fs)" using lst by (simp add: visit_file_def dotgit_entry_def Folder)
    ultimately show ?thesis using rd by (simp add: Folder entries_names del: tree_files.simps)
  qed (use Cons.prems lst in \<open>simp_all add: visit_file_def dotgit_entry_def\<close>)
qed


lemma sum_list_map_cong: "(\<And>x. x \<in> set xs \<Longrightarrow> f x = g x) \<Longrightarrow> sum_list (map f xs) = sum_list (map g xs)"
  by (metis map_cong)

lemma walk_dir_files_tree:
  assumes io: "calm io" and l: "linkless_at s w" and p: "prefix [s] root" and x: "lookup (w_disk w) root = Some (Folder es)"
  shows "walk_dir_files io root False w = (None, map fst (tree_files (Folder es)))"
    and "file_sizes io root (map fst (tree_files (Folder es))) w = tree_bytes (Folder es)"
proof -
  have "os_lstat io root w = Inr HDir" using os_lstat_way(1) [OF l io, of root "[]"] p x by simp
  then show "walk_dir_files io root False w = (None, map fst (tree_files (Folder es)))"
    using walk_files [OF io l p x, of "[]" "Folder es" "replicate (height (w_disk w)) ()" "[]"] height_lookup [OF x]
    by (simp add: walk_dir_files_def case_prod_beta' del: tree_files.simps height.simps walk_dir.simps)
  have "(case os_stat io (root @ q) w of Inr (HFile c) \<Rightarrow> int (length c) | Inr HDir \<Rightarrow> io_dir_size io | _ \<Rightarrow> 0) = int (length c)"
    if qc: "(q, c) \<in> set (tree_files (Folder es))" for q c
  proof -
    have "look (Folder es) q = Some (HFile c)" using qc tree_files_look by blast
    then have "lookup (Folder es) q = Some (Reg c)" by (simp add: look_HFile [symmetric] del: look_simps)
    then have lk: "lookup (w_disk w) ((root @ q) @ []) = Some (Reg c)" using x by (simp add: lookup_append)
    have "prefix [s] (root @ q)" using p by (auto simp: prefix_def)
    then show ?thesis using os_lstat_way(2) [OF l io lk] by simp
  qed
  then show "file_sizes io root (map fst (tree_files (Folder es))) w = tree_bytes (Folder es)"
    unfolding file_sizes_def tree_bytes_def map_map by (intro sum_list_map_cong) (auto simp del: tree_files.simps)
qed

text \<open>Preparing the directory of the destination.\<close>

lemma resolve_parts_prepares:
  assumes io: "calm io"
  shows "linkless_at s w \<Longrightarrow> prefix [s] cur \<Longrightarrow> look (w_disk w) cur = Some HDir \<Longrightarrow> ns \<noteq> [] \<Longrightarrow>
    resolve_parts io True cur ns w = (Inr p, w1) \<Longrightarrow>
    lookup (w_disk w) src = Some x \<Longrightarrow> \<not> prefix src (cur @ ns) \<Longrightarrow> look (w_disk w) (cur @ ns) = None \<Longrightarrow>
    look (w_disk w1) (butlast (cur @ ns)) = Some HDir \<and> look (w_disk w1) (cur @ ns) = None \<and> lookup (w_disk w1) src = Some x"
proof (induction ns arbitrary: cur w)
  case (Cons n ns)
  have pn: "prefix [s] (cur @ [n])" "cur @ [n] \<noteq> []" using Cons.prems(2) by (auto simp: prefix_def)
  have st: "os_lstat io (cur @ [n]) w = (case lookup (w_disk w) (cur @ [n]) of None \<Rightarrow> Inl (lookup_error (w_disk w) (cur @ [n])) | Some x \<Rightarrow> Inr (head_of x))"
    using io by (simp add: os_lstat_def calm_def os_find_linkless [OF Cons.prems(1) pn(1)] split: option.split)
  show ?case
  proof (cases "ns = []")
    case True
    then show ?thesis using Cons.prems st by (auto simp: butlast_append Let_def split: option.splits if_splits sum.splits head.splits)
  next
    case ne: False
    show ?thesis
    proof (cases "lookup (w_disk w) (cur @ [n])")
      case (Some y)
      then have "resolve_parts io True (cur @ [n]) ns w = (Inr p, w1)" and "head_of y = HDir"
        using Cons.prems(5) st ne by (auto simp: Let_def split: if_splits head.splits)
      then show ?thesis using Cons.IH [OF Cons.prems(1) pn(1) _ ne] Cons.prems(6-8) lookup_look [OF Some] by simp
    next
      case None
      have d: "look (w_disk w) (butlast (cur @ [n])) = Some HDir" using Cons.prems(3) by simp
      obtain r w2 where mk: "os_mkdir io (cur @ [n]) w = (r, w2)" by fastforce
      have r: "resolve_parts io True (cur @ [n]) ns w2 = (Inr p, w1)" and w2: "w2 = put_obj io (cur @ [n]) (Some (Folder [])) w"
        using Cons.prems(3,5) st ne mk None
        by (auto simp: Let_def os_mkdir_def linkless_link_on [OF Cons.prems(1) pn(1)] dir_error_None [THEN iffD2] split: if_splits)
      have "\<not> prefix (cur @ [n]) src"
      proof
        assume "prefix (cur @ [n]) src"
        then obtain zs where zs: "src = (cur @ [n]) @ zs" by (elim prefixE)
        have "lookup (w_disk w) src = None" by (simp only: zs lookup_append [of _ "cur @ [n]"] None option.case)
        then show False using Cons.prems(6) by simp
      qed
      moreover have "\<not> prefix src (cur @ [n])"
        using Cons.prems(7) prefix_order.trans [of src "cur @ [n]" "cur @ n # ns"] by auto
      ultimately have "lookup (w_disk w2) src = Some x"
        using Cons.prems(6) lookup_set_at_parallel [of "cur @ [n]" src] by (simp add: w2 put_obj_def parallel_def)
      moreover have "linkless_at s w2" using confined_linkless [OF os_mkdir_confined [OF Cons.prems(1) pn(1)], of io] mk by simp
      moreover have "look (w_disk w2) (cur @ [n]) = Some HDir" "look (w_disk w2) ((cur @ [n]) @ ns) = None"
        using look_put [OF d pn(2), of io "Folder []"] ne by (cases ns; simp add: w2)+
      ultimately show ?thesis using Cons.IH [of w2 "cur @ [n]"] pn(1) ne r Cons.prems(7) by simp
    qed
  qed
qed simp


lemma copy_preview_Inr:
  assumes "gp_dry_run gp" and "fst (copy_invoke fe cfg c session source destination gp w) = Inr (TransferPreview kind s d True n b ow)"
  obtains root sp files where "session_dir fe cfg session = Inr root" "validate_relative_path root source = Inr sp"
    "walk_dir_files (fe_io fe) (below cfg sp) False w = (None, files)" "n = int (length files)"
    "b = file_sizes (fe_io fe) (below cfg sp) files w"
  using assms by (auto simp: copy_invoke_def transfer_invoke_def transfer_preview_def Let_def split: if_splits sum.splits prod.splits option.splits)

lemma copy_run_Inr:
  assumes "copy_invoke fe cfg c session source destination gp w = (Inr (CopyOut s d True n b), w3)"
    and "validate_transfer_paths fe cfg session source destination w = Inr (src, dst, True)"
  obtains p w1 w2 where "resolve_path fe cfg session destination True w = (Inr p, w1)" "touch_session fe cfg session w1 = (None, w2)"
    "copy_dir (fe_io fe) src dst False (fc_max_copy cfg) w2 = (Inr (n, b), w3)"
  using assms by (auto simp: copy_invoke_def transfer_invoke_def transfer_preview_def copy_act_def Let_def split: if_splits sum.splits prod.splits option.splits)

lemma validated_source:
  assumes f: "file_setup fe cfg session" and v: "validate_transfer_paths fe cfg session source destination w = Inr (src, dst, True)"
    and l: "linkless_at (session_segment fe session) w"
  obtains root sp dp es where "session_dir fe cfg session = Inr root" "validate_relative_path root source = Inr sp" "src = below cfg sp"
    "validate_relative_path root destination = Inr dp" "dst = below cfg dp" "lookup (w_disk w) src = Some (Folder es)" "\<not> prefix src dst"
proof -
  obtain root ts dp where root: "session_dir fe cfg session = Inr root" and s: "fst (resolve_path fe cfg session source False w) = Inr src"
    and dp: "validate_relative_path root destination = Inr dp" "dst = below cfg dp" and np: "\<not> prefix src dst"
    and d: "os_lstat (fe_io fe) src w = Inr HDir"
    using v by (auto simp: validate_transfer_paths_def Let_def split: sum.splits head.splits if_splits)
  obtain w1 where rs: "resolve_path fe cfg session source False w = (Inr src, w1)" using s by (metis prod.collapse)
  obtain sp where sp: "validate_relative_path (session_path fe cfg session) source = Inr sp" "src = below cfg sp"
    and p: "prefix [session_segment fe session] src" by (rule resolve_path_Inr [OF f rs])
  obtain es where "lookup (w_disk w) src = Some (Folder es)"
    using d os_find_linkless [OF l p, of False "fe_io fe"]
    by (auto simp: os_lstat_def map_sum_def head_of_HDir split: if_splits sum.splits option.splits)
  then show ?thesis using that root sp dp np session_dir_Inr [OF root] by blast
qed

lemma resolve_path_prepares:
  assumes f: "file_setup fe cfg session" and l: "linkless_at (session_segment fe session) w" and io: "calm (fe_io fe)"
    and rp: "resolve_path fe cfg session rel True w = (Inr p, w1)" and x: "lookup (w_disk w) src = Some (Folder es)"
    and s: "prefix [session_segment fe session] src" and np: "\<not> prefix src p" and n: "look (w_disk w) p = None"
  shows "look (w_disk w1) (butlast p) = Some HDir \<and> look (w_disk w1) p = None \<and> lookup (w_disk w1) src = Some (Folder es)"
proof -
  obtain root where root: "session_dir fe cfg session = Inr root" using rp by (auto simp: resolve_path_def split: sum.splits)
  have b: "below cfg root = [session_segment fe session]"
    using below_session f session_dir_Inr [OF root] by (simp add: file_setup_def session_root_def)
  obtain r where r: "src = [session_segment fe session] @ r" using s by (auto simp: prefix_def)
  have hd: "look (w_disk w) [session_segment fe session] = Some HDir"
  proof (cases r)
    case Nil
    then show ?thesis using x r by (simp add: look_def)
  next
    case (Cons m ms)
    then show ?thesis using look_parent [of "w_disk w" "[session_segment fe session]" m ms] x r by (simp add: look_def)
  qed
  have "os_stat (fe_io fe) [session_segment fe session] w = Inr HDir"
    using os_lstat_way(2) [OF l io, of "[session_segment fe session]" r] x r by (cases r) auto
  then have "os_mkdir_all (fe_io fe) [session_segment fe session] w = (None, w)" by (simp add: os_mkdir_all_def)
  then obtain full where t: "resolve_in_tree (fe_io fe) cfg root full True w = (Inr p, w1)"
    using rp root by (auto simp: resolve_path_def b split: sum.splits prod.splits option.splits)
  then obtain ns where ns: "resolve_parts (fe_io fe) True [session_segment fe session] ns w = (Inr p, w1)" "ns \<noteq> []"
    using hd n by (auto simp: resolve_in_tree_def b split: sum.splits if_splits)
  then show ?thesis
    using resolve_parts_prepares [OF io l _ hd ns(2,1) x] np n resolve_parts_path [OF ns(1)] by simp
qed

text \<open>A copy does what its preview announces: when both succeed, on a destination that is free, the number of files
  and bytes are the same, and the destination is then the source as it was when previewed.\<close>

theorem copy_as_previewed:
  assumes f: "file_setup fe cfg session" and l: "linkless_at (session_segment fe session) w" and io: "quiet (fe_io fe)"
    and pre: "fst (copy_invoke fe cfg c session source destination (gp\<lparr>gp_dry_run := True\<rparr>) w) = Inr (TransferPreview kind s d True n b ow)"
    and v: "validate_transfer_paths fe cfg session source destination w = Inr (src, dst, True)" and free: "look (w_disk w) dst = None"
    and run: "copy_invoke fe cfg c session source destination gp w = (Inr (CopyOut s' d' True n' b'), w')"
  shows "int n' = n \<and> b' = b \<and> (\<forall>q. look (w_disk w') (dst @ q) = look (w_disk w) (src @ q) \<and> look (w_disk w') (src @ q) = look (w_disk w) (src @ q))"
proof -
  note p = validate_transfer_paths_Inr [OF f v]
  obtain root sp dp es where root: "session_dir fe cfg session = Inr root" and sp: "validate_relative_path root source = Inr sp" "src = below cfg sp"
    and dp: "validate_relative_path root destination = Inr dp" "dst = below cfg dp"
    and x: "lookup (w_disk w) src = Some (Folder es)" and np: "\<not> prefix src dst"
    by (rule validated_source [OF f v l])
  note walk = walk_dir_files_tree [OF quiet_calm [OF io] l p(1) x]
  obtain root1 sp1 files where "session_dir fe cfg session = Inr root1" "validate_relative_path root1 source = Inr sp1"
    "walk_dir_files (fe_io fe) (below cfg sp1) False w = (None, files)" "n = int (length files)" "b = file_sizes (fe_io fe) (below cfg sp1) files w"
    by (rule copy_preview_Inr [OF _ pre]) simp
  then have nb: "n = int (tree_count (Folder es))" "b = tree_bytes (Folder es)"
    using walk root sp by (auto simp: tree_count_def simp del: tree_files.simps)
  obtain q w1 w2 where rp: "resolve_path fe cfg session destination True w = (Inr q, w1)" and ts: "touch_session fe cfg session w1 = (None, w2)"
    and cd: "copy_dir (fe_io fe) src dst False (fc_max_copy cfg) w2 = (Inr (n', b'), w')" by (rule copy_run_Inr [OF run v])
  have q: "q = dst" by (rule resolve_path_Inr [OF f rp]) (use dp root session_dir_Inr [OF root] in simp)
  have l2: "linkless_at (session_segment fe session) w2"
    using confined_linkless [OF touch_session_confined [OF f resolve_path_confined [OF f confined_refl [OF l] rp] ts]] .
  have w1: "look (w_disk w1) (butlast dst) = Some HDir" "look (w_disk w1) dst = None" "lookup (w_disk w1) src = Some (Folder es)"
    using resolve_path_prepares [OF f l quiet_calm [OF io] rp x p(1)] np free q by auto
  note ex = copy_dir_exact [OF io l2 p np, of "Folder es" "fc_max_copy cfg", unfolded touch_session_disk [OF ts], OF w1(3,2,1), unfolded cd, simplified]
  have "look (w_disk w1) (src @ q) = look (w_disk w) (src @ q)" for q using x w1(3) by (simp add: look_append)
  moreover have "\<not> prefix dst (src @ q)" for q
  proof
    assume "prefix dst (src @ q)"
    then have "prefix dst src" using np by (auto simp: prefix_append)
    then show False using x look_None_append [OF free] by (auto simp: prefix_def look_def)
  qed
  ultimately show ?thesis using ex nb by simp
qed


text \<open>Copying the directory of the second session.\<close>

lemma demo_quiet: "quiet (fe_io demo_fe)"
  by (simp add: quiet_def demo_fe_def demo_io_def)

lemma copy_dir_exact_witness:
  "fst (copy_dir demo_io [''s2'', ''d''] [''s2'', ''e''] False 3 demo_world) = Inr (1, 3)
    \<and> (\<exists>k. fst (copy_dir demo_io [''s2'', ''d''] [''s2'', ''e''] False 2 demo_world) = Inl (WLimit k))"
proof -
  have x: "lookup (w_disk demo_world) [''s2'', ''d''] = Some (Folder [(''b'', Reg ''two'')])"
    and n: "look (w_disk demo_world) [''s2'', ''e''] = None" and d: "look (w_disk demo_world) (butlast [''s2'', ''e'']) = Some HDir"
    by (simp_all add: demo_world_def)
  have tree: "tree_count (Folder [(''b'', Reg ''two'')]) = 1" "tree_bytes (Folder [(''b'', Reg ''two'')]) = 3"
    by (simp_all add: tree_simps names_def)
  have io: "quiet demo_io" by (simp add: quiet_def demo_io_def)
  note ex = copy_dir_exact [OF io demo_linkless(2) [unfolded demo_setup], of "[''s2'', ''d'']" "[''s2'', ''e'']", OF _ _ _ x n d]
  have "fst (copy_dir demo_io [''s2'', ''d''] [''s2'', ''e''] False 3 demo_world) = Inr (1, 3)"
    using ex [of 3] tree by (auto split: prod.splits sum.splits)
  moreover have "\<exists>k. fst (copy_dir demo_io [''s2'', ''d''] [''s2'', ''e''] False 2 demo_world) = Inl (WLimit k)"
    using ex [of 2] tree by (auto split: prod.splits sum.splits)
  ultimately show ?thesis by blast
qed

definition copy_d_e :: "bool \<Rightarrow> (file_error + file_output) \<times> world" where
  "copy_d_e dry = copy_invoke demo_fe demo_cfg (Some [''file_copy'']) ''s2'' ''d'' ''e'' \<lparr>gp_dry_run = dry, gp_confirmed = True\<rparr> demo_world"

lemma copy_as_previewed_witness:
  "look (w_disk (snd (copy_d_e False))) [''s2'', ''e'', ''b''] = Some (HFile ''two'')"
proof -
  have pre: "fst (copy_invoke demo_fe demo_cfg (Some [''file_copy'']) ''s2'' ''d'' ''e''
      (\<lparr>gp_dry_run = False, gp_confirmed = True\<rparr>\<lparr>gp_dry_run := True\<rparr>) demo_world) = Inr (TransferPreview WouldCopy ''d'' ''e'' True 1 3 False)"
    by code_simp
  have v: "validate_transfer_paths demo_fe demo_cfg ''s2'' ''d'' ''e'' demo_world = Inr ([''s2'', ''d''], [''s2'', ''e''], True)" by code_simp
  have free: "look (w_disk demo_world) [''s2'', ''e''] = None" by (simp add: demo_world_def)
  have "fst (copy_d_e False) = Inr (CopyOut ''d'' ''e'' True 1 3)" by code_simp
  then have run: "copy_invoke demo_fe demo_cfg (Some [''file_copy'']) ''s2'' ''d'' ''e'' \<lparr>gp_dry_run = False, gp_confirmed = True\<rparr> demo_world
      = (Inr (CopyOut ''d'' ''e'' True 1 3), snd (copy_d_e False))"
    unfolding copy_d_e_def by (metis prod.collapse)
  have "look (w_disk demo_world) [''s2'', ''d'', ''b''] = Some (HFile ''two'')" by (simp add: demo_world_def)
  then show ?thesis
    using copy_as_previewed [OF demo_setup(2) demo_linkless(2) demo_quiet pre v free run]
    by (auto dest: spec [of _ "[''b'']"])
qed


section \<open>Where the guards end\<close>

definition confirmed :: gate_params where
  "confirmed = \<lparr>gp_dry_run = False, gp_confirmed = True\<rparr>"

text \<open>The session's own directory is refused only under the name \<open>.\<close>: by its own name from its parent it is deleted.\<close>

lemma delete_takes_session:
  "look (w_disk (snd (delete_invoke demo_fe demo_cfg (Some [''file_delete'']) ''s1'' ''../s1'' confirmed demo_world))) [''s1''] = None"
  "fst (delete_invoke demo_fe demo_cfg (Some [''file_delete'']) ''s1'' ''.'' confirmed demo_world) = Inl FSessionRoot"
  by code_simp+

text \<open>A link in an existing destination is followed by a copy.\<close>

lemma copy_follows_link:
  "w_escaped (snd (copy_invoke demo_fe demo_cfg (Some [''file_copy'']) ''s'' ''d'' ''e'' confirmed
     \<lparr>w_disk = Folder [(''s'', Folder [(''d'', Folder [(''b'', Reg ''new'')]), (''e'', Folder [(''b'', Sym ''/etc/passwd'')])])],
       w_mtime = (\<lambda>n. 0), w_escaped = []\<rparr>)) = [(''/etc/passwd'', [])]"
  by code_simp

text \<open>A copy of a directory to the directory it is in overwrites its own files.\<close>

lemma copy_into_parent:
  "look (w_disk (snd (copy_invoke demo_fe demo_cfg (Some [''file_copy'']) ''s'' ''a/b'' ''a'' confirmed
     \<lparr>w_disk = Folder [(''s'', Folder [(''a'', Folder [(''b'', Folder [(''b'', Folder [(''f'', Reg ''new'')]), (''f'', Reg ''old'')])])])],
       w_mtime = (\<lambda>n. 0), w_escaped = []\<rparr>))) [''s'', ''a'', ''b'', ''f''] = Some (HFile ''new'')"
  by code_simp

text \<open>A directory is not moved onto an empty one.\<close>

lemma move_onto_empty:
  "fst (move_invoke demo_fe demo_cfg (Some [''file_move'']) ''s'' ''a'' ''b'' confirmed
     \<lparr>w_disk = Folder [(''s'', Folder [(''a'', Folder [(''f'', Reg ''x'')]), (''b'', Folder [])])],
       w_mtime = (\<lambda>n. 0), w_escaped = []\<rparr>) = Inl (FOs EEXIST)"
  by code_simp

text \<open>The preview of a write onto a directory succeeds, the write is refused.\<close>

lemma preview_of_refused_write:
  "fst (write_invoke demo_fe demo_cfg (Some [''file_write'']) ''s2'' ''d'' ''new'' False \<lparr>gp_dry_run = True, gp_confirmed = False\<rparr> demo_world)
    = Inr (WritePreview ''d'' ''overwrite'' 4096 3 ''new'')"
  "fst (write_invoke demo_fe demo_cfg (Some [''file_write'']) ''s2'' ''d'' ''new'' False confirmed demo_world) = Inl FIsDirectory"
  by code_simp+

text \<open>A copy that cannot read its source removes the file that was at its destination.\<close>

lemma failed_copy_deletes_destination:
  "look (w_disk (snd (copy_invoke (demo_fe\<lparr>fe_io := demo_io\<lparr>io_fails := (\<lambda>op p. op = IoOpen)\<rparr>\<rparr>) demo_cfg (Some [''file_copy'']) ''s'' ''a'' ''b''
     confirmed \<lparr>w_disk = Folder [(''s'', Folder [(''a'', Reg ''new''), (''b'', Reg ''old'')])], w_mtime = (\<lambda>n. 0), w_escaped = []\<rparr>))) [''s'', ''b''] = None"
  by code_simp

end
