(* ===== verification/Activity.thy ===== *)
theory Activity
  imports Complex_Main Bus GoText
begin

text \<open>
  What an agent's run tells its observers: the payloads of \<^verbatim>\<open>callbacks/activity/event.go\<close>, the run context of
  \<^verbatim>\<open>context.go\<close>, the callback handler of \<^verbatim>\<open>handler.go\<close> and the attribution of
  \<^verbatim>\<open>components/middleware/agentattr\<close>.

  The handler's calls of \<open>Publish\<close> are kept in order in its record; \<open>deliver\<close> passes them on to a bus. What the
  framework hands over is what the conversions of its callback values give: a message or nothing. A stream is the
  list of what \<open>Recv\<close> returns before the end. Prices are rational numbers, so the rounding of
  \<^verbatim>\<open>float64\<close> is not modelled.
\<close>

section \<open>Events\<close>

record tokens =
  tk_input :: int
  tk_output :: int
  tk_reasoning :: int
  tk_cache_read :: int
  tk_cache_write :: int

definition no_tokens :: tokens where
  "no_tokens = \<lparr>tk_input = 0, tk_output = 0, tk_reasoning = 0, tk_cache_read = 0, tk_cache_write = 0\<rparr>"

record error_data =
  er_type :: string
  er_message :: string

record step_end =
  se_finish :: string
  se_cost :: rat
  se_tokens :: tokens
  se_estimated :: bool

record session_end =
  sn_duration :: int
  sn_cost :: rat
  sn_steps :: int
  sn_tools :: int

datatype payload =
    StepStarted string string
  | StepEnded step_end
  | StepFailed error_data
  | AgentSwitched string string string
  | ModelSwitched string
  | Prompted string
  | TextStarted
  | TextDelta string
  | TextEnded string
  | ReasoningStarted string
  | ReasoningDelta string string
  | ReasoningEnded string string
  | ToolInputStarted string string
  | ToolInputDelta string string
  | ToolInputEnded string string
  | ToolCalled string string string
  | ToolProgress string string
  | ToolSuccess string string
  | ToolFailed string error_data
  | Retried int error_data
  | CompactionStarted string
  | CompactionDelta string
  | CompactionEnded string
  | SessionEnded session_end
  | NoData

fun payload_type :: "payload \<Rightarrow> string" where
  "payload_type (StepStarted a m) = ''step.started''"
| "payload_type (StepEnded se) = ''step.ended''"
| "payload_type (StepFailed e) = ''step.failed''"
| "payload_type (AgentSwitched a m d) = ''agent.switched''"
| "payload_type (ModelSwitched m) = ''model.switched''"
| "payload_type (Prompted p) = ''prompted''"
| "payload_type TextStarted = ''text.started''"
| "payload_type (TextDelta d) = ''text.delta''"
| "payload_type (TextEnded t) = ''text.ended''"
| "payload_type (ReasoningStarted i) = ''reasoning.started''"
| "payload_type (ReasoningDelta i d) = ''reasoning.delta''"
| "payload_type (ReasoningEnded i t) = ''reasoning.ended''"
| "payload_type (ToolInputStarted i n) = ''tool.input.started''"
| "payload_type (ToolInputDelta i d) = ''tool.input.delta''"
| "payload_type (ToolInputEnded i t) = ''tool.input.ended''"
| "payload_type (ToolCalled i n a) = ''tool.called''"
| "payload_type (ToolProgress i c) = ''tool.progress''"
| "payload_type (ToolSuccess i c) = ''tool.success''"
| "payload_type (ToolFailed i e) = ''tool.failed''"
| "payload_type (Retried n e) = ''retried''"
| "payload_type (CompactionStarted r) = ''compaction.started''"
| "payload_type (CompactionDelta t) = ''compaction.delta''"
| "payload_type (CompactionEnded t) = ''compaction.ended''"
| "payload_type (SessionEnded s) = ''session.ended''"
| "payload_type NoData = []"

section \<open>The context of a run\<close>

record usage =
  us_prompt :: int
  us_cached :: int
  us_completion :: int
  us_total :: int
  us_reasoning :: int

record response_meta =
  rm_finish :: string
  rm_usage :: "usage option"

record chat_message =
  cm_content :: string
  cm_reasoning :: string
  cm_meta :: "response_meta option"

record agent_meta =
  am_name :: string
  am_model :: string
  am_description :: string

text \<open>The values the context carries: session, agent and its metadata, and what the handler leaves for the end of a call.\<close>

record run_ctx =
  cx_session :: "string option"
  cx_agent :: "string option"
  cx_meta :: "agent_meta option"
  cx_call :: "string option"
  cx_input :: "chat_message list option"

definition with_session :: "string \<Rightarrow> run_ctx \<Rightarrow> run_ctx" where
  "with_session i cx = cx\<lparr>cx_session := Some i\<rparr>"

definition session_from_context :: "run_ctx \<Rightarrow> string" where
  "session_from_context cx = (case cx_session cx of None \<Rightarrow> [] | Some i \<Rightarrow> i)"

definition with_agent :: "string \<Rightarrow> run_ctx \<Rightarrow> run_ctx" where
  "with_agent n cx = cx\<lparr>cx_agent := Some n\<rparr>"

definition agent_from_context :: "run_ctx \<Rightarrow> string" where
  "agent_from_context cx = (case cx_agent cx of None \<Rightarrow> [] | Some n \<Rightarrow> n)"

definition with_agent_meta :: "agent_meta \<Rightarrow> run_ctx \<Rightarrow> run_ctx" where
  "with_agent_meta m cx = (if am_name m = [] then cx else cx\<lparr>cx_meta := Some m, cx_agent := Some (am_name m)\<rparr>)"

section \<open>The handler\<close>

datatype component = CChatModel | CTool | COther

record run_info =
  ri_component :: component
  ri_type :: string
  ri_name :: string

datatype timing = OnStartTiming | OnEndTiming | OnErrorTiming | OnStartStreamTiming | OnEndStreamTiming

record handler =
  hd_pricer :: "(string \<Rightarrow> tokens \<Rightarrow> rat) option"
  hd_counter :: "(chat_message list \<Rightarrow> int) option"
  hd_ids :: nat
  hd_last :: "string \<Rightarrow> string option"
  hd_out :: "payload event list"

definition new_handler :: "(string \<Rightarrow> tokens \<Rightarrow> rat) option \<Rightarrow> (chat_message list \<Rightarrow> int) option \<Rightarrow> handler" where
  "new_handler pricer counter =
     \<lparr>hd_pricer = pricer, hd_counter = counter, hd_ids = 0, hd_last = Map.empty, hd_out = []\<rparr>"

definition underscore :: char where "underscore = CHR ''_''"

definition new_id :: "string \<Rightarrow> handler \<Rightarrow> string \<times> handler" where
  "new_id pre h = (let n = (hd_ids h + 1) mod 2 ^ 64 in (pre @ underscore # dec_of_nat n, h\<lparr>hd_ids := n\<rparr>))"

definition send :: "string \<Rightarrow> string \<Rightarrow> payload \<Rightarrow> handler \<Rightarrow> handler" where
  "send sid agent p h =
     h\<lparr>hd_out := hd_out h @ [\<lparr>be_id = [], be_session = sid, be_type = payload_type p, be_agent = agent, be_time = None, be_data = p\<rparr>]\<rparr>"

definition maybe_emit_agent_switched :: "run_ctx \<Rightarrow> string \<Rightarrow> string \<Rightarrow> handler \<Rightarrow> handler" where
  "maybe_emit_agent_switched cx sid agent h =
     (if agent = [] then h
      else if hd_last h sid = Some agent then h
      else send sid agent
             (case cx_meta cx of
                None \<Rightarrow> AgentSwitched agent [] []
              | Some m \<Rightarrow> AgentSwitched agent (am_model m) (am_description m))
             (h\<lparr>hd_last := (hd_last h)(sid \<mapsto> agent)\<rparr>))"

definition emit :: "run_ctx \<Rightarrow> payload \<Rightarrow> handler \<Rightarrow> handler" where
  "emit cx p h =
     (let sid = session_from_context cx; agent = agent_from_context cx
      in send sid agent p (maybe_emit_agent_switched cx sid agent h))"

definition needed :: "run_ctx \<Rightarrow> timing \<Rightarrow> payload bus \<Rightarrow> bool" where
  "needed cx tm b =
     (if tm = OnStartStreamTiming \<or> tm = OnEndStreamTiming then has_subscribers (session_from_context cx) b else True)"

definition component_of :: "run_info option \<Rightarrow> component" where
  "component_of info = (case info of None \<Rightarrow> COther | Some i \<Rightarrow> ri_component i)"

definition model_name :: "run_info option \<Rightarrow> string" where
  "model_name info = (case info of None \<Rightarrow> [] | Some i \<Rightarrow> if ri_type i \<noteq> [] then ri_type i else ri_name i)"

definition tool_name_of :: "run_info option \<Rightarrow> string" where
  "tool_name_of info = (case info of None \<Rightarrow> [] | Some i \<Rightarrow> if ri_name i \<noteq> [] then ri_name i else ri_type i)"

record model_output =
  mo_message :: "chat_message option"
  mo_usage :: "usage option"

definition conv_usage :: "usage \<Rightarrow> usage" where
  "conv_usage u = \<lparr>us_prompt = us_prompt u, us_cached = us_cached u, us_completion = us_completion u, us_total = us_total u,
     us_reasoning = us_reasoning u\<rparr>"

definition finish_reason :: "model_output \<Rightarrow> string" where
  "finish_reason mo =
     (case mo_message mo of None \<Rightarrow> []
      | Some m \<Rightarrow> (case cm_meta m of None \<Rightarrow> [] | Some r \<Rightarrow> rm_finish r))"

definition step_failed_data :: "string \<Rightarrow> payload" where
  "step_failed_data e = StepFailed \<lparr>er_type = ''unknown'', er_message = e\<rparr>"

definition step_ended :: "run_ctx \<Rightarrow> string \<Rightarrow> string \<Rightarrow> usage option \<Rightarrow> chat_message option \<Rightarrow> handler \<Rightarrow> step_end" where
  "step_ended cx model finish usage out h =
     (let (tk, est) = (case usage of
            Some u \<Rightarrow> (\<lparr>tk_input = us_prompt u, tk_output = us_completion u, tk_reasoning = us_reasoning u,
                        tk_cache_read = us_cached u, tk_cache_write = 0\<rparr>, False)
          | None \<Rightarrow>
              (case hd_counter h of
                 None \<Rightarrow> (no_tokens, False)
               | Some count \<Rightarrow>
                   (no_tokens\<lparr>tk_input := count (case cx_input cx of None \<Rightarrow> [] | Some ms \<Rightarrow> ms),
                              tk_output := (case out of None \<Rightarrow> 0 | Some m \<Rightarrow> count [m])\<rparr>, True)))
      in \<lparr>se_finish = finish, se_cost = (case hd_pricer h of None \<Rightarrow> 0 | Some price \<Rightarrow> price model tk),
          se_tokens = tk, se_estimated = est\<rparr>)"

section \<open>Its callbacks\<close>

datatype start_input = ModelInput "chat_message list" | ToolInput string | NoInput

definition on_start :: "run_ctx \<Rightarrow> run_info option \<Rightarrow> start_input \<Rightarrow> handler \<Rightarrow> run_ctx \<times> handler" where
  "on_start cx info inp h =
     (case component_of info of
        CChatModel \<Rightarrow>
          let h1 = emit cx (StepStarted (agent_from_context cx) (model_name info)) h;
              h2 = emit cx TextStarted h1
          in (case (hd_counter h2, inp) of
                (Some count, ModelInput (m # ms)) \<Rightarrow> (cx\<lparr>cx_input := Some (m # ms)\<rparr>, h2)
              | _ \<Rightarrow> (cx, h2))
      | CTool \<Rightarrow>
          let (i, h1) = new_id ''call'' h; n = tool_name_of info;
              h2 = emit cx (ToolInputStarted i n) h1;
              args = (case inp of ToolInput a \<Rightarrow> a | _ \<Rightarrow> []);
              h3 = (case inp of ToolInput a \<Rightarrow> emit cx (ToolInputEnded i a) h2 | _ \<Rightarrow> h2)
          in (cx\<lparr>cx_call := Some i\<rparr>, emit cx (ToolCalled i n args) h3)
      | COther \<Rightarrow> (cx, h))"

datatype end_output = ModelOutput model_output | ToolOutput string | NoOutput

definition on_end :: "run_ctx \<Rightarrow> run_info option \<Rightarrow> end_output \<Rightarrow> handler \<Rightarrow> handler" where
  "on_end cx info out h =
     (case component_of info of
        CChatModel \<Rightarrow>
          (case out of
             ModelOutput mo \<Rightarrow>
               let reasoning = (case mo_message mo of None \<Rightarrow> [] | Some m \<Rightarrow> cm_reasoning m);
                   h1 = (if reasoning = [] then h
                         else let (rid, h0) = new_id ''reasoning'' h
                              in emit cx (ReasoningEnded rid reasoning)
                                   (emit cx (ReasoningDelta rid reasoning) (emit cx (ReasoningStarted rid) h0)));
                   text = (case mo_message mo of None \<Rightarrow> [] | Some m \<Rightarrow> cm_content m);
                   h2 = emit cx (TextEnded text) h1
               in emit cx (StepEnded (step_ended cx (model_name info) (finish_reason mo) (mo_usage mo) (mo_message mo) h2)) h2
           | _ \<Rightarrow> h)
      | CTool \<Rightarrow>
          emit cx (ToolSuccess (case cx_call cx of None \<Rightarrow> [] | Some i \<Rightarrow> i) (case out of ToolOutput r \<Rightarrow> r | _ \<Rightarrow> [])) h
      | COther \<Rightarrow> h)"

definition on_error :: "run_ctx \<Rightarrow> run_info option \<Rightarrow> string \<Rightarrow> handler \<Rightarrow> handler" where
  "on_error cx info e h =
     (case component_of info of
        CChatModel \<Rightarrow> emit cx (step_failed_data e) h
      | CTool \<Rightarrow>
          emit cx (ToolFailed (case cx_call cx of None \<Rightarrow> [] | Some i \<Rightarrow> i) \<lparr>er_type = ''unknown'', er_message = e\<rparr>) h
      | COther \<Rightarrow> h)"

section \<open>Its streams\<close>

datatype 'a recv = Got 'a | Broken string

text \<open>The goroutine that reads a tool's arguments, each turn and its end. A chunk that is no tool input is nothing.\<close>

fun tool_input_loop :: "run_ctx \<Rightarrow> string \<Rightarrow> string \<Rightarrow> string option recv list \<Rightarrow> string \<Rightarrow> handler \<Rightarrow> handler" where
  "tool_input_loop cx i n [] buf h = emit cx (ToolCalled i n buf) (emit cx (ToolInputEnded i buf) h)"
| "tool_input_loop cx i n (Broken e # rs) buf h = emit cx (ToolCalled i n buf) (emit cx (ToolInputEnded i buf) h)"
| "tool_input_loop cx i n (Got c # rs) buf h =
     (case c of
        None \<Rightarrow> tool_input_loop cx i n rs buf h
      | Some a \<Rightarrow>
          if a = [] then tool_input_loop cx i n rs buf h
          else tool_input_loop cx i n rs (buf @ a) (emit cx (ToolInputDelta i a) h))"

definition on_start_with_stream_input :: "run_ctx \<Rightarrow> run_info option \<Rightarrow> string option recv list \<Rightarrow> handler \<Rightarrow> run_ctx \<times> handler" where
  "on_start_with_stream_input cx info rs h =
     (if component_of info \<noteq> CTool then (cx, h)
      else
        let (i, h1) = new_id ''call'' h; n = tool_name_of info;
            h2 = emit cx (ToolInputStarted i n) h1
        in (cx\<lparr>cx_call := Some i\<rparr>, tool_input_loop cx i n rs [] h2))"

record stream_state =
  sm_text :: string
  sm_reason :: string
  sm_usage :: "usage option"
  sm_finish :: string
  sm_rid :: "string option"

definition stream_start :: stream_state where
  "stream_start = \<lparr>sm_text = [], sm_reason = [], sm_usage = None, sm_finish = [], sm_rid = None\<rparr>"

text \<open>One turn of the loop over a model's output.\<close>

definition stream_usage :: "model_output \<Rightarrow> stream_state \<Rightarrow> stream_state" where
  "stream_usage mo st = (case mo_usage mo of None \<Rightarrow> st | Some u \<Rightarrow> st\<lparr>sm_usage := Some u\<rparr>)"

definition stream_meta :: "chat_message \<Rightarrow> stream_state \<Rightarrow> stream_state" where
  "stream_meta m st =
     (case cm_meta m of
        None \<Rightarrow> st
      | Some r \<Rightarrow>
          let st1 = (if rm_finish r \<noteq> [] then st\<lparr>sm_finish := rm_finish r\<rparr> else st)
          in (case (sm_usage st1, rm_usage r) of
                (None, Some u) \<Rightarrow> st1\<lparr>sm_usage := Some (conv_usage u)\<rparr>
              | _ \<Rightarrow> st1))"

definition stream_reasoning :: "run_ctx \<Rightarrow> string \<Rightarrow> stream_state \<Rightarrow> handler \<Rightarrow> stream_state \<times> handler" where
  "stream_reasoning cx rc st h =
     (if rc = [] then (st, h)
      else
        let (rid, st1, h1) = (case sm_rid st of
              Some rid \<Rightarrow> (rid, st, h)
            | None \<Rightarrow> let (rid, h0) = new_id ''reasoning'' h in (rid, st\<lparr>sm_rid := Some rid\<rparr>, emit cx (ReasoningStarted rid) h0))
        in (st1\<lparr>sm_reason := sm_reason st1 @ rc\<rparr>, emit cx (ReasoningDelta rid rc) h1))"

definition stream_text :: "run_ctx \<Rightarrow> string \<Rightarrow> stream_state \<Rightarrow> handler \<Rightarrow> stream_state \<times> handler" where
  "stream_text cx c st h = (if c = [] then (st, h) else (st\<lparr>sm_text := sm_text st @ c\<rparr>, emit cx (TextDelta c) h))"

definition stream_chunk :: "run_ctx \<Rightarrow> model_output option \<Rightarrow> stream_state \<Rightarrow> handler \<Rightarrow> stream_state \<times> handler" where
  "stream_chunk cx c st h =
     (case c of
        None \<Rightarrow> (st, h)
      | Some mo \<Rightarrow>
          let st1 = stream_usage mo st in
          case mo_message mo of
            None \<Rightarrow> (st1, h)
          | Some m \<Rightarrow>
              let (st2, h2) = stream_reasoning cx (cm_reasoning m) (stream_meta m st1) h
              in stream_text cx (cm_content m) st2 h2)"

definition close_blocks :: "run_ctx \<Rightarrow> stream_state \<Rightarrow> handler \<Rightarrow> handler" where
  "close_blocks cx st h =
     emit cx (TextEnded (sm_text st))
       (case sm_rid st of None \<Rightarrow> h | Some rid \<Rightarrow> emit cx (ReasoningEnded rid (sm_reason st)) h)"

fun model_stream_loop :: "run_ctx \<Rightarrow> run_info option \<Rightarrow> model_output option recv list \<Rightarrow> stream_state \<Rightarrow> handler \<Rightarrow> handler" where
  "model_stream_loop cx info [] st h =
     (let h1 = close_blocks cx st h;
          out = \<lparr>cm_content = sm_text st, cm_reasoning = sm_reason st, cm_meta = None\<rparr>
      in emit cx (StepEnded (step_ended cx (model_name info) (sm_finish st) (sm_usage st) (Some out) h1)) h1)"
| "model_stream_loop cx info (Broken e # rs) st h = emit cx (step_failed_data e) (close_blocks cx st h)"
| "model_stream_loop cx info (Got c # rs) st h =
     (let (st1, h1) = stream_chunk cx c st h in model_stream_loop cx info rs st1 h1)"

definition on_end_with_stream_output :: "run_ctx \<Rightarrow> run_info option \<Rightarrow> model_output option recv list \<Rightarrow> handler \<Rightarrow> handler" where
  "on_end_with_stream_output cx info rs h =
     (if component_of info \<noteq> CChatModel then h else model_stream_loop cx info rs stream_start h)"

text \<open>Passing what was published on to the bus, at the times of a clock.\<close>

definition deliver :: "(payload bus \<Rightarrow> int) \<Rightarrow> payload event list \<Rightarrow> payload bus \<Rightarrow> payload bus" where
  "deliver clock es b = fold (\<lambda>e b. publish (clock b) e b) es b"

section \<open>Attribution to agents\<close>

record attr_config =
  ac_agent_name :: string
  ac_model :: string
  ac_description :: string

definition new_attr :: "attr_config \<Rightarrow> agent_meta option" where
  "new_attr c =
     (if ac_agent_name c = [] \<or> 256 < rune_count (ac_model c) \<or> 256 < rune_count (ac_description c) then None
      else Some \<lparr>am_name = ac_agent_name c, am_model = ac_model c, am_description = ac_description c\<rparr>)"

definition before_agent :: "agent_meta \<Rightarrow> run_ctx \<Rightarrow> run_ctx" where
  "before_agent m cx = with_agent_meta m cx"

definition wrap_tool_call :: "agent_meta \<Rightarrow> (run_ctx \<Rightarrow> 'a) \<Rightarrow> run_ctx \<Rightarrow> 'a" where
  "wrap_tool_call m endpoint cx = endpoint (with_agent_meta m cx)"

end
