(* ===== verification/Pricing.thy ===== *)
theory Pricing
  imports Activity
begin

text \<open>
  The model catalog and its prices, \<^verbatim>\<open>libs/modelsdev\<close>: lookups, limits, the load with its retries, and what a
  step costs. The decoded catalog is the data; fetching and decoding are parameters. Prices are rational numbers.
\<close>

section \<open>The catalog\<close>

record limit =
  li_context :: int
  li_input :: int
  li_output :: int

record cost_rates =
  co_input :: rat
  co_output :: rat
  co_cache_read :: rat
  co_cache_write :: rat

record catalog_model =
  ca_id :: string
  ca_name :: string
  ca_limit :: limit
  ca_cost :: "cost_rates option"

record provider =
  pv_id :: string
  pv_name :: string
  pv_models :: "string \<Rightarrow> catalog_model option"

record catalog =
  ct_providers :: "string \<Rightarrow> provider option"
  ct_fresh :: bool
  ct_load_err :: "string option"

definition catalog_lookup :: "catalog option \<Rightarrow> string \<Rightarrow> string \<Rightarrow> catalog_model option" where
  "catalog_lookup c prov i =
     (case c of None \<Rightarrow> None
      | Some cat \<Rightarrow> (case ct_providers cat prov of None \<Rightarrow> None | Some p \<Rightarrow> pv_models p i))"

definition limits :: "catalog option \<Rightarrow> string \<Rightarrow> string \<Rightarrow> (int \<times> int) option" where
  "limits c prov i =
     (case catalog_lookup c prov i of
        None \<Rightarrow> None
      | Some m \<Rightarrow>
          let w = li_input (ca_limit m) in Some (if w \<le> 0 then li_context (ca_limit m) else w, li_output (ca_limit m)))"

record context_usage =
  cu_used :: int
  cu_window :: int

definition catalog_usage :: "catalog option \<Rightarrow> string \<Rightarrow> string \<Rightarrow> int \<Rightarrow> context_usage option" where
  "catalog_usage c prov i used =
     (case limits c prov i of None \<Rightarrow> None | Some (w, out) \<Rightarrow> Some \<lparr>cu_used = used, cu_window = w\<rparr>)"

definition remaining :: "context_usage \<Rightarrow> int" where
  "remaining u = (if cu_used u < cu_window u then cu_window u - cu_used u else 0)"

definition fraction :: "context_usage \<Rightarrow> rat" where
  "fraction u = (if cu_window u \<le> 0 then 0 else of_int (cu_used u) / of_int (cu_window u))"

definition near_limit :: "rat \<Rightarrow> context_usage \<Rightarrow> bool" where
  "near_limit threshold u \<longleftrightarrow> threshold \<le> fraction u"

section \<open>Loading\<close>

record load_options =
  lo_url :: string
  lo_timeout :: int
  lo_retries :: int

text \<open>The attempts, whose results \<open>fetch\<close> gives by number, within the time each has.\<close>

fun load_attempts :: "(nat \<Rightarrow> int \<Rightarrow> string \<Rightarrow> string + (string \<Rightarrow> provider option)) \<Rightarrow> int \<Rightarrow> string \<Rightarrow> nat \<Rightarrow> nat
    \<Rightarrow> string option \<Rightarrow> string option + (string \<Rightarrow> provider option)" where
  "load_attempts fetch per url i 0 last_err = Inl last_err"
| "load_attempts fetch per url i (Suc n) last_err =
     (case fetch i per url of Inr ps \<Rightarrow> Inr ps | Inl e \<Rightarrow> load_attempts fetch per url (i + 1) n (Some e))"

definition default_url :: string where "default_url = ''https://models.dev''"

definition default_timeout :: int where "default_timeout = 5 * 10 ^ 9"

definition load_catalog ::
    "(nat \<Rightarrow> int \<Rightarrow> string \<Rightarrow> string + (string \<Rightarrow> provider option)) \<Rightarrow> (string \<Rightarrow> provider option) option \<Rightarrow> load_options \<Rightarrow> catalog" where
  "load_catalog fetch embedded opts =
     (let url = (if lo_url opts = [] then default_url else lo_url opts);
          timeout = (if lo_timeout opts \<le> 0 then default_timeout else lo_timeout opts);
          retries = (if lo_retries opts < 0 then 0 else lo_retries opts);
          attempts = retries + 1
      in case load_attempts fetch (timeout div attempts) url 0 (nat attempts) None of
           Inr ps \<Rightarrow> \<lparr>ct_providers = ps, ct_fresh = True, ct_load_err = None\<rparr>
         | Inl e \<Rightarrow>
             (case embedded of
                None \<Rightarrow> \<lparr>ct_providers = Map.empty, ct_fresh = False, ct_load_err = e\<rparr>
              | Some ps \<Rightarrow> \<lparr>ct_providers = ps, ct_fresh = False, ct_load_err = e\<rparr>))"

section \<open>Prices\<close>

record cost_breakdown =
  cb_input :: rat
  cb_output :: rat
  cb_cache_read :: rat
  cb_cache_write :: rat
  cb_total :: rat
  cb_savings :: rat

definition no_breakdown :: cost_breakdown where
  "no_breakdown = \<lparr>cb_input = 0, cb_output = 0, cb_cache_read = 0, cb_cache_write = 0, cb_total = 0, cb_savings = 0\<rparr>"

definition cost_breakdown_of :: "cost_rates \<Rightarrow> tokens \<Rightarrow> cost_breakdown" where
  "cost_breakdown_of c t =
     (let i = of_int (tk_input t) / 10 ^ 6 * co_input c;
          o1 = of_int (tk_output t) / 10 ^ 6 * co_output c;
          cr = of_int (tk_cache_read t) / 10 ^ 6 * co_cache_read c;
          cw = of_int (tk_cache_write t) / 10 ^ 6 * co_cache_write c
      in \<lparr>cb_input = i, cb_output = o1, cb_cache_read = cr, cb_cache_write = cw, cb_total = i + o1 + cr + cw,
          cb_savings = of_int (tk_cache_read t) / 10 ^ 6 * max 0 (co_input c - co_cache_read c)\<rparr>)"

record catalog_pricer =
  cp_catalog :: "catalog option"
  cp_resolve :: "(string \<Rightarrow> (string \<times> string) option) option"

definition ollama_provider :: string where "ollama_provider = ''ollama''"

definition ollama_cloud_provider :: string where "ollama_cloud_provider = ''ollama-cloud''"

definition breakdown :: "catalog_pricer \<Rightarrow> string \<Rightarrow> tokens \<Rightarrow> cost_breakdown option" where
  "breakdown p gateway t =
     (case (cp_catalog p, cp_resolve p) of
        (Some cat, Some resolve) \<Rightarrow>
          (case resolve gateway of
             None \<Rightarrow> None
           | Some (prov, i) \<Rightarrow>
               (case catalog_lookup (Some cat) (if prov = ollama_provider then ollama_cloud_provider else prov) i of
                  None \<Rightarrow> None
                | Some m \<Rightarrow> (case ca_cost m of None \<Rightarrow> None | Some c \<Rightarrow> Some (cost_breakdown_of c t))))
      | _ \<Rightarrow> None)"

definition catalog_cost :: "catalog_pricer \<Rightarrow> string \<Rightarrow> tokens \<Rightarrow> rat" where
  "catalog_cost p gateway t = (case breakdown p gateway t of None \<Rightarrow> 0 | Some b \<Rightarrow> cb_total b)"

end
