(* ===== verification/CostSaver.thy ===== *)
theory CostSaver
  imports Activity StrUtil
begin

text \<open>
  The summary of a session from the events the bus kept and the estimate of what it saved,
  \<^verbatim>\<open>callbacks/activity/costsaver.go\<close>. Numbers are rational; the model's answer and its JSON decoding are parameters,
  and so is the text of the prompt.
\<close>

section \<open>Summaries\<close>

definition max_text_length :: nat where "max_text_length = 2000"

record session_summary =
  su_session :: string
  su_duration :: int
  su_cost :: rat
  su_tokens :: int
  su_steps :: int
  su_tools :: "string list"
  su_text :: string
  su_reasoning :: string
  su_finishes :: "string list"
  su_failures :: bool

definition add_text :: "string \<Rightarrow> string \<Rightarrow> string" where
  "add_text b text =
     (if max_text_length \<le> length b then b
      else if max_text_length < length b + length text then b @ take (max_text_length - length b) text @ ''...''
      else b @ text)"

text \<open>One event; the start is the time of the first event with a time.\<close>

fun summarize_data :: "payload \<Rightarrow> session_summary \<Rightarrow> session_summary" where
  "summarize_data (StepEnded se) s =
     s\<lparr>su_cost := su_cost s + se_cost se,
       su_tokens := su_tokens s + (tk_input (se_tokens se) + tk_output (se_tokens se) + tk_reasoning (se_tokens se)),
       su_steps := su_steps s + 1,
       su_finishes := (if se_finish se \<noteq> [] then su_finishes s @ [se_finish se] else su_finishes s)\<rparr>"
| "summarize_data (ToolCalled i n a) s = (if n \<in> set (su_tools s) then s else s\<lparr>su_tools := su_tools s @ [n]\<rparr>)"
| "summarize_data (TextEnded t) s = s\<lparr>su_text := add_text (su_text s) t\<rparr>"
| "summarize_data (ReasoningEnded i t) s = s\<lparr>su_reasoning := add_text (su_reasoning s) t\<rparr>"
| "summarize_data (StepFailed e) s = s\<lparr>su_failures := True\<rparr>"
| "summarize_data p s = s"

fun summarize_events :: "payload event list \<Rightarrow> int option \<Rightarrow> session_summary \<Rightarrow> session_summary" where
  "summarize_events [] start s = s"
| "summarize_events (e # es) start s =
     (let start1 = (case start of None \<Rightarrow> be_time e | Some t \<Rightarrow> Some t);
          s1 = s\<lparr>su_duration := (case (be_time e, start1) of (Some t, Some t0) \<Rightarrow> t - t0 | _ \<Rightarrow> 0)\<rparr>
      in summarize_events es start1 (summarize_data (be_data e) s1))"

definition empty_summary :: "string \<Rightarrow> session_summary" where
  "empty_summary sid = \<lparr>su_session = sid, su_duration = 0, su_cost = 0, su_tokens = 0, su_steps = 0, su_tools = [], su_text = [],
     su_reasoning = [], su_finishes = [], su_failures = False\<rparr>"

definition get_summary :: "payload bus \<Rightarrow> string \<Rightarrow> session_summary option" where
  "get_summary b sid = map_option (\<lambda>es. summarize_events es None (empty_summary sid)) (replay sid b)"

section \<open>Estimates\<close>

record analysis =
  an_ratio :: rat
  an_seconds :: rat
  an_money :: rat

record analyzer_config =
  az_hourly :: rat
  az_base :: int
  az_timeout :: int

record analyzer_env =
  ae_model :: "(string \<Rightarrow> int \<Rightarrow> string + string option) option"
  ae_prompt :: "analyzer_config \<Rightarrow> session_summary \<Rightarrow> string"
  ae_json :: "string \<Rightarrow> analysis option"

definition new_analyzer :: "analyzer_config \<Rightarrow> analyzer_config" where
  "new_analyzer c =
     (let c1 = (if az_hourly c = 0 then c\<lparr>az_hourly := 50\<rparr> else c);
          c2 = (if az_base c1 = 0 then c1\<lparr>az_base := 5 * 60 * 10 ^ 9\<rparr> else c1)
      in if az_timeout c2 = 0 then c2\<lparr>az_timeout := 30 * 10 ^ 9\<rparr> else c2)"

datatype analysis_error = NoModel | ModelFailed string | EmptyAnswer | BadJson | BadRatio | BadTime | BadMoney

definition validate_analysis :: "analysis \<Rightarrow> analysis_error option" where
  "validate_analysis a =
     (if an_ratio a < 0 \<or> 1 < an_ratio a then Some BadRatio
      else if an_seconds a < 0 then Some BadTime
      else if an_money a < 0 then Some BadMoney
      else None)"

definition llm_analyze :: "analyzer_env \<Rightarrow> analyzer_config \<Rightarrow> session_summary \<Rightarrow> analysis_error + analysis" where
  "llm_analyze ae c s =
     (case ae_model ae of
        None \<Rightarrow> Inl NoModel
      | Some generate \<Rightarrow>
          (case generate (ae_prompt ae c s) (az_timeout c) of
             Inl e \<Rightarrow> Inl (ModelFailed e)
           | Inr None \<Rightarrow> Inl EmptyAnswer
           | Inr (Some answer) \<Rightarrow>
               let extracted = extract_json_block answer; content = (if extracted \<noteq> [] then extracted else answer) in
               (case ae_json ae content of
                  None \<Rightarrow> Inl BadJson
                | Some a \<Rightarrow> (case validate_analysis a of Some e \<Rightarrow> Inl e | None \<Rightarrow> Inr a))))"

definition new_fallback :: "rat \<Rightarrow> int \<Rightarrow> rat \<times> int" where
  "new_fallback hourly base = (if hourly = 0 then 50 else hourly, if base = 0 then 5 * 60 * 10 ^ 9 else base)"

definition fallback_analyze :: "rat \<times> int \<Rightarrow> session_summary \<Rightarrow> analysis" where
  "fallback_analyze f s =
     (if su_tools s = [] then \<lparr>an_ratio = 0, an_seconds = 0, an_money = 0\<rparr>
      else
        let tokens = min 1 (of_int (su_tokens s) / 10000);
            tool = min 1 (of_nat (length (su_tools s)) * (2 / 10));
            extra = (if su_steps s - 1 < 0 then 0 else su_steps s - 1);
            step = min 1 (of_int extra * (1 / 10));
            ratio0 = min 1 (tokens + tool + step);
            ratio = (if su_failures s then ratio0 * (8 / 10) else ratio0);
            seconds = ratio * (of_int (snd f) / 10 ^ 9)
        in \<lparr>an_ratio = ratio, an_seconds = seconds, an_money = seconds * fst f / 3600\<rparr>)"

definition composite_analyze :: "analyzer_env \<Rightarrow> analyzer_config \<Rightarrow> session_summary \<Rightarrow> analysis" where
  "composite_analyze ae c s =
     (let fallback = new_fallback (az_hourly c) (az_base c) in
      case ae_model ae of
        None \<Rightarrow> fallback_analyze fallback s
      | Some _ \<Rightarrow> (case llm_analyze ae (new_analyzer c) s of Inl _ \<Rightarrow> fallback_analyze fallback s | Inr a \<Rightarrow> a))"

end
