(* ===== verification/CostTrack.thy ===== *)
theory CostTrack
  imports Pricing CostSaver
begin

text \<open>
  Cost tracking, \<^verbatim>\<open>libs/costtrack\<close>, and the metrics of \<^verbatim>\<open>callbacks/activity/metrics\<close>: the totals of
  each session, the watcher that keeps them from the events of its subscription, the recorders it feeds and the counters of
  the Prometheus recorder. Counters are functions from their labels. The models of a session are a list in the
  order in which Go may range over its map.
\<close>

section \<open>Totals\<close>

record usage_sum =
  ug_cost :: rat
  ug_savings :: rat
  ug_tokens :: tokens
  ug_steps :: nat

definition no_usage :: usage_sum where
  "no_usage = \<lparr>ug_cost = 0, ug_savings = 0, ug_tokens = no_tokens, ug_steps = 0\<rparr>"

record model_agg = usage_sum +
  ma_cache_input :: int

record session_totals =
  st_models :: "(string \<times> model_agg) list"
  st_totals :: usage_sum
  st_compactions :: nat
  st_estimated :: bool
  st_tool_called :: bool
  st_start :: int
  st_ended :: bool
  st_ended_data :: session_end

type_synonym snapshots = "string \<Rightarrow> session_totals option"

definition new_totals :: "int \<Rightarrow> session_totals" where
  "new_totals now =
     \<lparr>st_models = [], st_totals = no_usage, st_compactions = 0, st_estimated = False, st_tool_called = False,
      st_start = now, st_ended = False, st_ended_data = \<lparr>sn_duration = 0, sn_cost = 0, sn_steps = 0, sn_tools = 0\<rparr>\<rparr>"

definition totals_of :: "int \<Rightarrow> string \<Rightarrow> snapshots \<Rightarrow> session_totals" where
  "totals_of now sid ss = (case ss sid of None \<Rightarrow> new_totals now | Some s \<Rightarrow> s)"

definition mark_real_task :: "int \<Rightarrow> string \<Rightarrow> snapshots \<Rightarrow> snapshots" where
  "mark_real_task now sid ss = ss(sid \<mapsto> (totals_of now sid ss)\<lparr>st_tool_called := True\<rparr>)"

definition bump_compaction :: "int \<Rightarrow> string \<Rightarrow> snapshots \<Rightarrow> snapshots" where
  "bump_compaction now sid ss =
     (let s = totals_of now sid ss in ss(sid \<mapsto> s\<lparr>st_compactions := st_compactions s + 1\<rparr>))"

definition add_tokens :: "tokens \<Rightarrow> tokens \<Rightarrow> tokens" where
  "add_tokens a b =
     \<lparr>tk_input = tk_input a + tk_input b, tk_output = tk_output a + tk_output b, tk_reasoning = tk_reasoning a + tk_reasoning b,
      tk_cache_read = tk_cache_read a + tk_cache_read b, tk_cache_write = tk_cache_write a + tk_cache_write b\<rparr>"

definition add_usage :: "step_end \<Rightarrow> rat \<Rightarrow> usage_sum \<Rightarrow> usage_sum" where
  "add_usage se savings u =
     \<lparr>ug_cost = ug_cost u + se_cost se, ug_savings = ug_savings u + savings, ug_tokens = add_tokens (ug_tokens u) (se_tokens se),
      ug_steps = ug_steps u + 1\<rparr>"

definition agg_usage :: "model_agg \<Rightarrow> usage_sum" where
  "agg_usage m = \<lparr>ug_cost = ug_cost m, ug_savings = ug_savings m, ug_tokens = ug_tokens m, ug_steps = ug_steps m\<rparr>"

definition cached_input :: "step_end \<Rightarrow> int" where
  "cached_input se = tk_cache_read (se_tokens se) + tk_cache_write (se_tokens se)"

definition step_agg :: "step_end \<Rightarrow> rat \<Rightarrow> model_agg" where
  "step_agg se savings =
     \<lparr>ug_cost = se_cost se, ug_savings = savings, ug_tokens = se_tokens se, ug_steps = 1, ma_cache_input = cached_input se\<rparr>"

definition add_agg :: "step_end \<Rightarrow> rat \<Rightarrow> model_agg \<Rightarrow> model_agg" where
  "add_agg se savings m =
     \<lparr>ug_cost = ug_cost m + se_cost se, ug_savings = ug_savings m + savings, ug_tokens = add_tokens (ug_tokens m) (se_tokens se),
      ug_steps = ug_steps m + 1, ma_cache_input = ma_cache_input m + cached_input se\<rparr>"

definition record_step :: "int \<Rightarrow> string \<Rightarrow> string \<Rightarrow> step_end \<Rightarrow> cost_breakdown \<Rightarrow> snapshots \<Rightarrow> snapshots" where
  "record_step now sid model se b ss =
     (let s = totals_of now sid ss;
          ms = (case map_of (st_models s) model of
                  Some m \<Rightarrow> AList.update model (add_agg se (cb_savings b) m) (st_models s)
                | None \<Rightarrow> AList.update model (step_agg se (cb_savings b)) (st_models s))
      in ss(sid \<mapsto> s\<lparr>st_models := ms, st_totals := add_usage se (cb_savings b) (st_totals s),
                     st_estimated := (se_estimated se \<or> st_estimated s)\<rparr>))"

text \<open>\<open>Round\<close> to seconds, half away from zero; durations are not negative here.\<close>

definition round_seconds :: "int \<Rightarrow> int" where
  "round_seconds d = (d + 5 * 10 ^ 8) div 10 ^ 9 * 10 ^ 9"

definition build_session_ended :: "int \<Rightarrow> string \<Rightarrow> snapshots \<Rightarrow> session_end \<times> snapshots" where
  "build_session_ended now sid ss =
     (let s = totals_of now sid ss in
      (\<lparr>sn_duration = round_seconds (now - st_start s), sn_cost = ug_cost (st_totals s), sn_steps = int (ug_steps (st_totals s)), sn_tools = 0\<rparr>,
       ss(sid \<mapsto> s\<lparr>st_ended := True\<rparr>)))"

text \<open>The totals and whether the session called a tool.\<close>

definition finalize :: "int \<Rightarrow> string \<Rightarrow> session_end \<Rightarrow> snapshots \<Rightarrow> (usage_sum \<times> bool) \<times> snapshots" where
  "finalize now sid se ss =
     (let s = (totals_of now sid ss)\<lparr>st_ended := True, st_ended_data := se\<rparr>
      in ((st_totals s, st_tool_called s), ss(sid \<mapsto> s)))"

record model_usage =
  mu_provider :: string
  mu_model :: string
  mu_usage :: usage_sum
  mu_cache_rate :: rat

record snapshot =
  sp_session :: string
  sp_duration :: int
  sp_steps :: nat
  sp_models :: "model_usage list"
  sp_totals :: usage_sum
  sp_compactions :: nat
  sp_failures :: bool
  sp_estimated :: bool

definition model_usage_of :: "string \<times> model_agg \<Rightarrow> model_usage" where
  "model_usage_of km =
     (let m = snd km; total = tk_input (ug_tokens m) + ma_cache_input m in
      \<lparr>mu_provider = [], mu_model = fst km, mu_usage = agg_usage m,
       mu_cache_rate = (if 0 < total then of_int (tk_cache_read (ug_tokens m)) / of_int total else 0)\<rparr>)"

text \<open>The snapshot, which makes the session when there is none.\<close>

definition snapshot_of :: "int \<Rightarrow> string \<Rightarrow> snapshots \<Rightarrow> snapshot \<times> snapshots" where
  "snapshot_of now sid ss =
     (let s = totals_of now sid ss in
      (\<lparr>sp_session = sid, sp_duration = (if st_ended s then sn_duration (st_ended_data s) else now - st_start s),
        sp_steps = ug_steps (st_totals s), sp_models = sort_key (\<lambda>u. - ug_cost (mu_usage u)) (map model_usage_of (st_models s)), sp_totals = st_totals s,
        sp_compactions = st_compactions s, sp_failures = False, sp_estimated = st_estimated s\<rparr>, ss(sid \<mapsto> s)))"

definition all_snapshots :: "int \<Rightarrow> snapshots \<Rightarrow> string \<Rightarrow> snapshot option" where
  "all_snapshots now ss = (\<lambda>sid. map_option (\<lambda>_. fst (snapshot_of now sid ss)) (ss sid))"

section \<open>Recorders\<close>

datatype rec_call =
    ObserveStep string string step_end
  | ObserveBreakdown string string cost_breakdown
  | RecordTask string string rat bool
  | RecordCompaction string
  | RecordAnalysis string string analysis
  | RecordFallback string
  | SetRealtimeCost string string rat

text \<open>What each recorder of a list is called with; entries may be nil.\<close>

definition multi_recorder :: "'r option list \<Rightarrow> rec_call \<Rightarrow> ('r \<times> rec_call) list" where
  "multi_recorder rs call = concat (map (\<lambda>r. case r of None \<Rightarrow> [] | Some x \<Rightarrow> [(x, call)]) rs)"

record prometheus =
  pm_tokens :: "string \<times> string \<times> string \<Rightarrow> int"
  pm_cost :: "string \<times> string \<Rightarrow> rat"
  pm_by_component :: "string \<times> string \<times> string \<Rightarrow> rat"
  pm_savings :: "string \<times> string \<Rightarrow> rat"
  pm_tasks :: "string \<times> string \<times> bool \<Rightarrow> nat"
  pm_task_costs :: "rat list"
  pm_compactions :: "string \<Rightarrow> nat"
  pm_realtime :: "string \<times> string \<Rightarrow> rat option"
  pm_analysis :: "string \<times> string \<Rightarrow> analysis option"
  pm_runs :: "string \<Rightarrow> nat"
  pm_human :: "string \<Rightarrow> rat"
  pm_fallbacks :: "string \<Rightarrow> nat"

definition new_prometheus :: prometheus where
  "new_prometheus =
     \<lparr>pm_tokens = (\<lambda>_. 0), pm_cost = (\<lambda>_. 0), pm_by_component = (\<lambda>_. 0), pm_savings = (\<lambda>_. 0), pm_tasks = (\<lambda>_. 0),
      pm_task_costs = [], pm_compactions = (\<lambda>_. 0), pm_realtime = Map.empty, pm_analysis = Map.empty, pm_runs = (\<lambda>_. 0),
      pm_human = (\<lambda>_. 0), pm_fallbacks = (\<lambda>_. 0)\<rparr>"

definition add_at :: "'k \<Rightarrow> 'v :: plus \<Rightarrow> ('k \<Rightarrow> 'v) \<Rightarrow> 'k \<Rightarrow> 'v" where
  "add_at k v f = f(k := f k + v)"

definition observe_breakdown :: "string \<Rightarrow> string \<Rightarrow> cost_breakdown \<Rightarrow> prometheus \<Rightarrow> prometheus" where
  "observe_breakdown model agent b p =
     (let p1 = p\<lparr>pm_by_component :=
             add_at (model, agent, ''cache_write'') (cb_cache_write b)
               (add_at (model, agent, ''cache_read'') (cb_cache_read b)
                 (add_at (model, agent, ''output'') (cb_output b)
                   (add_at (model, agent, ''input'') (cb_input b) (pm_by_component p))))\<rparr>
      in if 0 < cb_savings b then p1\<lparr>pm_savings := add_at (model, agent) (cb_savings b) (pm_savings p1)\<rparr> else p1)"

text \<open>The collector of the handler's metrics may have a source of prices of its own; the Prometheus recorder's has none.\<close>

definition collector_observe ::
    "(string \<Rightarrow> tokens \<Rightarrow> cost_breakdown option) option \<Rightarrow> string \<Rightarrow> string \<Rightarrow> step_end \<Rightarrow> prometheus \<Rightarrow> prometheus" where
  "collector_observe bf model agent se p =
     (let t = se_tokens se;
          p1 = p\<lparr>pm_tokens :=
             add_at (model, agent, ''cache_read'') (tk_cache_read t)
               (add_at (model, agent, ''reasoning'') (tk_reasoning t)
                 (add_at (model, agent, ''output'') (tk_output t)
                   (add_at (model, agent, ''input'') (tk_input t) (pm_tokens p))))\<rparr>;
          p2 = (if se_cost se \<noteq> 0 then p1\<lparr>pm_cost := add_at (model, agent) (se_cost se) (pm_cost p1)\<rparr> else p1)
      in case bf of
           None \<Rightarrow> p2
         | Some f \<Rightarrow> (case f model t of None \<Rightarrow> p2 | Some b \<Rightarrow> observe_breakdown model agent b p2))"

fun prometheus_record :: "rec_call \<Rightarrow> prometheus \<Rightarrow> prometheus" where
  "prometheus_record (ObserveStep m a se) p = collector_observe None m a se p"
| "prometheus_record (ObserveBreakdown m a b) p = observe_breakdown m a b p"
| "prometheus_record (RecordTask s a c r) p =
     p\<lparr>pm_tasks := add_at (s, a, r) 1 (pm_tasks p), pm_task_costs := pm_task_costs p @ [c]\<rparr>"
| "prometheus_record (RecordCompaction a) p = p\<lparr>pm_compactions := add_at a 1 (pm_compactions p)\<rparr>"
| "prometheus_record (RecordAnalysis s a an) p =
     p\<lparr>pm_analysis := (pm_analysis p)((s, a) \<mapsto> an), pm_runs := add_at a 1 (pm_runs p), pm_human := add_at a (an_money an) (pm_human p)\<rparr>"
| "prometheus_record (RecordFallback r) p = p\<lparr>pm_fallbacks := add_at r 1 (pm_fallbacks p)\<rparr>"
| "prometheus_record (SetRealtimeCost s a c) p = p\<lparr>pm_realtime := (pm_realtime p)((s, a) \<mapsto> c)\<rparr>"

section \<open>The watcher\<close>

record track_config =
  tc_pricer :: catalog_pricer
  tc_terminal :: "string list"
  tc_savings :: analyzer_config
  tc_analyzer :: analyzer_env

definition terminal_types :: "string list \<Rightarrow> string list" where
  "terminal_types ts = (if ts = [] then [''answer.ended'', ''question''] else ts)"

text \<open>A new tracker: what is missing is refused; the checks of the other fields are a parameter.\<close>

record tracker_params =
  tp_bus :: bool
  tp_resolve :: "(string \<Rightarrow> (string \<times> string) option) option"
  tp_holder :: "catalog option option"
  tp_counter :: "(chat_message list \<Rightarrow> int) option"
  tp_terminal :: "string list"
  tp_savings :: analyzer_config

datatype tracker_error = NotValid string | NoBus | NoResolve | NoCatalog | NotRegistered string

definition new_tracker ::
    "(tracker_params \<Rightarrow> string option) \<Rightarrow> string option \<Rightarrow> (chat_message list \<Rightarrow> int) \<Rightarrow> analyzer_env \<Rightarrow> tracker_params
      \<Rightarrow> tracker_error + track_config \<times> handler" where
  "new_tracker valid register default_counter ae p0 =
     (let p1 = (case tp_counter p0 of None \<Rightarrow> p0\<lparr>tp_counter := Some default_counter\<rparr> | Some c \<Rightarrow> p0);
          p = p1\<lparr>tp_terminal := terminal_types (tp_terminal p1)\<rparr>
      in case valid p of
           Some e \<Rightarrow> Inl (NotValid e)
         | None \<Rightarrow>
             if \<not> tp_bus p then Inl NoBus
             else (case (tp_resolve p, tp_holder p) of
                 (None, _) \<Rightarrow> Inl NoResolve
               | (Some resolve, None) \<Rightarrow> Inl NoCatalog
               | (Some resolve, Some cat) \<Rightarrow>
                   let pricer = \<lparr>cp_catalog = cat, cp_resolve = Some resolve\<rparr> in
                   (case register of
                      Some e \<Rightarrow> Inl (NotRegistered e)
                    | None \<Rightarrow> Inr (\<lparr>tc_pricer = pricer, tc_terminal = tp_terminal p, tc_savings = tp_savings p, tc_analyzer = ae\<rparr>,
                        new_handler (Some (catalog_cost pricer)) (tp_counter p)))))"

text \<open>The shared totals, what was recorded and published, and the watcher's own view of its session.\<close>

record track =
  tr_totals :: snapshots
  tr_calls :: "rec_call list"
  tr_published :: "payload event list"
  tr_seen :: bool
  tr_models :: "string \<Rightarrow> string option"

definition new_track :: track where
  "new_track = \<lparr>tr_totals = Map.empty, tr_calls = [], tr_published = [], tr_seen = False, tr_models = Map.empty\<rparr>"

definition tell :: "rec_call \<Rightarrow> track \<Rightarrow> track" where
  "tell c t = t\<lparr>tr_calls := tr_calls t @ [c]\<rparr>"

definition is_terminal :: "track_config \<Rightarrow> string \<Rightarrow> bool" where
  "is_terminal cfg typ \<longleftrightarrow> typ \<in> set (tc_terminal cfg) \<or> typ = ''session.ended''"

definition handle_step_ended :: "track_config \<Rightarrow> int \<Rightarrow> string \<Rightarrow> string \<Rightarrow> string \<Rightarrow> step_end \<Rightarrow> track \<Rightarrow> track" where
  "handle_step_ended cfg now sid agent model se t =
     (let t1 = tell (ObserveStep model agent se) t;
          br = breakdown (tc_pricer cfg) model (se_tokens se);
          t2 = (case br of None \<Rightarrow> t1 | Some b \<Rightarrow> tell (ObserveBreakdown model agent b) t1);
          t3 = tell (SetRealtimeCost sid agent (se_cost se)) t2;
          b = (case br of None \<Rightarrow> no_breakdown | Some b \<Rightarrow> b)
      in t3\<lparr>tr_totals := record_step now sid model se b (tr_totals t3)\<rparr>)"

definition handle_session_ended :: "track_config \<Rightarrow> int \<Rightarrow> payload bus \<Rightarrow> string \<Rightarrow> string \<Rightarrow> session_end \<Rightarrow> track \<Rightarrow> track" where
  "handle_session_ended cfg now b sid agent se t =
     (let ((totals, is_real), ss) = finalize now sid se (tr_totals t);
          t1 = tell (RecordTask sid agent (ug_cost totals) is_real) (t\<lparr>tr_totals := ss\<rparr>);
          publish = (\<lambda>t. t\<lparr>tr_published := tr_published t @
            [\<lparr>be_id = [], be_session = sid, be_type = ''session.ended'', be_agent = agent, be_time = None, be_data = SessionEnded se\<rparr>]\<rparr>)
      in if is_real \<and> 0 < az_hourly (tc_savings cfg)
         then (case get_summary b sid of
             None \<Rightarrow> tell (RecordFallback ''summary_error'') t1
           | Some s \<Rightarrow> publish (tell (RecordAnalysis sid agent (composite_analyze (tc_analyzer cfg) (tc_savings cfg) s)) t1))
         else publish t1)"

text \<open>One event of the subscription.\<close>

definition watch_event :: "track_config \<Rightarrow> int \<Rightarrow> payload bus \<Rightarrow> string \<Rightarrow> payload event \<Rightarrow> track \<Rightarrow> track" where
  "watch_event cfg now b sid e t =
     (case be_data e of
        StepStarted a m \<Rightarrow> t\<lparr>tr_models := (tr_models t)(be_agent e \<mapsto> m)\<rparr>
      | StepEnded se \<Rightarrow>
          handle_step_ended cfg now sid (be_agent e) (case tr_models t (be_agent e) of None \<Rightarrow> [] | Some m \<Rightarrow> m) se t
      | SessionEnded se \<Rightarrow>
          if tr_seen t then t else handle_session_ended cfg now b sid (be_agent e) se (t\<lparr>tr_seen := True\<rparr>)
      | ToolCalled i n a \<Rightarrow> t\<lparr>tr_totals := mark_real_task now sid (tr_totals t)\<rparr>
      | CompactionEnded c \<Rightarrow> tell (RecordCompaction (be_agent e)) (t\<lparr>tr_totals := bump_compaction now sid (tr_totals t)\<rparr>)
      | _ \<Rightarrow>
          if is_terminal cfg (be_type e) \<and> \<not> tr_seen t
          then
            let t1 = t\<lparr>tr_seen := True\<rparr>;
                (se, ss) = build_session_ended now sid (tr_totals t1)
            in handle_session_ended cfg now b sid (be_agent e) se (t1\<lparr>tr_totals := ss\<rparr>)
          else t)"

text \<open>The watcher over what it receives, with the time and the bus at each event.\<close>

fun watch :: "track_config \<Rightarrow> string \<Rightarrow> (int \<times> payload bus \<times> payload event) list \<Rightarrow> track \<Rightarrow> track" where
  "watch cfg sid [] t = t"
| "watch cfg sid ((now, b, e) # es) t = watch cfg sid es (watch_event cfg now b sid e t)"

section \<open>The collector's own watcher\<close>

record collect_state =
  cl_prom :: prometheus
  cl_models :: "string \<Rightarrow> string option"
  cl_tool_called :: bool

definition collector_event ::
    "(string \<Rightarrow> tokens \<Rightarrow> cost_breakdown option) option \<Rightarrow> analyzer_env \<Rightarrow> analyzer_config option \<Rightarrow> payload bus \<Rightarrow> string \<Rightarrow> payload event \<Rightarrow> collect_state \<Rightarrow> collect_state" where
  "collector_event bf ae saver b sid e c =
     (case be_data e of
        StepStarted a m \<Rightarrow> c\<lparr>cl_models := (cl_models c)(be_agent e \<mapsto> m)\<rparr>
      | StepEnded se \<Rightarrow>
          c\<lparr>cl_prom := collector_observe bf (case cl_models c (be_agent e) of None \<Rightarrow> [] | Some m \<Rightarrow> m) (be_agent e) se (cl_prom c)\<rparr>
      | ToolCalled i n a \<Rightarrow> c\<lparr>cl_tool_called := True\<rparr>
      | SessionEnded se \<Rightarrow>
          (case saver of
             None \<Rightarrow> c
           | Some cfg \<Rightarrow>
               if \<not> cl_tool_called c then c
               else case get_summary b sid of
                 None \<Rightarrow> c
               | Some s \<Rightarrow>
                   let an = composite_analyze ae cfg s; p = cl_prom c
                   in c\<lparr>cl_prom := p\<lparr>pm_analysis := (pm_analysis p)((sid, be_agent e) \<mapsto> an), pm_runs := add_at (be_agent e) 1 (pm_runs p)\<rparr>\<rparr>)
      | _ \<Rightarrow> c)"

end
