(* ===== verification/Activity_Props.thy ===== *)
theory Activity_Props
  imports Activity
begin

text \<open>
  What observers can rely on: the events of a call of the model open and close as the consumers expect, with the
  texts their increments add up to, and every event is the one of the agent announced last.
\<close>

section \<open>A consumer of a step\<close>

text \<open>The consumer's view: whether a step is open, the text and the reasoning block collected so far.\<close>

record view =
  vw_step :: bool
  vw_text :: "string option"
  vw_reason :: "(string \<times> string) option"

definition idle :: view where
  "idle = \<lparr>vw_step = False, vw_text = None, vw_reason = None\<rparr>"

text \<open>What an event does to it; \<open>None\<close> is an event out of place. The text an end carries is what the increments
  gave or, where \<open>s\<close> does not ask for it, there were none.\<close>

fun follow :: "bool \<Rightarrow> payload \<Rightarrow> view \<Rightarrow> view option" where
  "follow s (StepStarted a m) v = (if v = idle then Some (v\<lparr>vw_step := True\<rparr>) else None)"
| "follow s TextStarted v = (if vw_step v \<and> vw_text v = None then Some (v\<lparr>vw_text := Some []\<rparr>) else None)"
| "follow s (TextDelta d) v = (case vw_text v of None \<Rightarrow> None | Some t \<Rightarrow> Some (v\<lparr>vw_text := Some (t @ d)\<rparr>))"
| "follow s (TextEnded t) v =
     (case vw_text v of None \<Rightarrow> None | Some t' \<Rightarrow> if t' = t \<or> \<not> s \<and> t' = [] then Some (v\<lparr>vw_text := None\<rparr>) else None)"
| "follow s (ReasoningStarted i) v = (if vw_step v \<and> vw_reason v = None then Some (v\<lparr>vw_reason := Some (i, [])\<rparr>) else None)"
| "follow s (ReasoningDelta i d) v =
     (case vw_reason v of None \<Rightarrow> None
      | Some (j, r) \<Rightarrow> if i = j then Some (v\<lparr>vw_reason := Some (j, r @ d)\<rparr>) else None)"
| "follow s (ReasoningEnded i t) v =
     (case vw_reason v of None \<Rightarrow> None
      | Some (j, r) \<Rightarrow> if i = j \<and> r = t then Some (v\<lparr>vw_reason := None\<rparr>) else None)"
| "follow s (StepEnded se) v = (if v = idle\<lparr>vw_step := True\<rparr> then Some idle else None)"
| "follow s (StepFailed e) v = (if v = idle\<lparr>vw_step := True\<rparr> then Some idle else None)"
| "follow s p v = Some v"

fun follow_all :: "bool \<Rightarrow> payload list \<Rightarrow> view \<Rightarrow> view option" where
  "follow_all s [] v = Some v"
| "follow_all s (p # ps) v = (case follow s p v of None \<Rightarrow> None | Some v1 \<Rightarrow> follow_all s ps v1)"

lemma follow_all_append: "follow_all s (ps @ qs) v = (case follow_all s ps v of None \<Rightarrow> None | Some v1 \<Rightarrow> follow_all s qs v1)"
  by (induction ps arbitrary: v) (auto split: option.split)

text \<open>What a handler publishes between two states, as a consumer sees it.\<close>

definition shows_view :: "bool \<Rightarrow> handler \<Rightarrow> view \<Rightarrow> handler \<Rightarrow> view \<Rightarrow> bool" where
  "shows_view s h v h' v' \<longleftrightarrow> (\<exists>es. hd_out h' = hd_out h @ es \<and> follow_all s (map be_data es) v = Some v')"

lemma shows_refl: "shows_view s h v h v"
  by (simp add: shows_view_def)

lemma shows_trans: "shows_view s h v h1 v1 \<Longrightarrow> shows_view s h1 v1 h2 v2 \<Longrightarrow> shows_view s h v h2 v2"
  by (auto simp: shows_view_def follow_all_append)

lemma shows_new_id: "new_id pre h = (i, h1) \<Longrightarrow> shows_view s h v h1 v"
  by (auto simp: shows_view_def new_id_def Let_def)

lemma shows_emit: "follow s p v = Some v' \<Longrightarrow> shows_view s h v (emit cx p h) v'"
  by (auto simp: shows_view_def emit_def Let_def maybe_emit_agent_switched_def send_def follow_all_append
      split: option.splits if_splits)

lemma shows_step: "shows_view s h v h1 v1 \<Longrightarrow> follow s p v1 = Some v2 \<Longrightarrow> shows_view s h v (emit cx p h1) v2"
  by (rule shows_trans [OF _ shows_emit])

text \<open>The view while a model's output is read.\<close>

definition reading :: "stream_state \<Rightarrow> view" where
  "reading st = \<lparr>vw_step = True, vw_text = Some (sm_text st), vw_reason = map_option (\<lambda>rid. (rid, sm_reason st)) (sm_rid st)\<rparr>"

lemma reading_usage [simp]:
  "reading (stream_usage mo st) = reading st" "reading (stream_meta m st) = reading st"
  by (auto simp: reading_def stream_usage_def stream_meta_def Let_def split: option.split)

text \<open>A reasoning text is there only when its block is open.\<close>

definition block_open :: "stream_state \<Rightarrow> bool" where
  "block_open st \<longleftrightarrow> sm_rid st = None \<longrightarrow> sm_reason st = []"

lemma block_open_usage [simp]:
  "block_open (stream_usage mo st) = block_open st" "block_open (stream_meta m st) = block_open st"
  by (auto simp: block_open_def stream_usage_def stream_meta_def Let_def split: option.split)

lemma stream_reasoning_shows:
  assumes b: "block_open st" and r: "stream_reasoning cx rc st h = (st1, h1)"
  shows "shows_view s h (reading st) h1 (reading st1) \<and> block_open st1"
proof (cases "rc = []")
  case False
  show ?thesis
  proof (cases "sm_rid st")
    case None
    obtain rid h0 where n: "new_id ''reasoning'' h = (rid, h0)" by fastforce
    have "shows_view s h (reading st) (emit cx (ReasoningStarted rid) h0) (reading (st\<lparr>sm_rid := Some rid\<rparr>))"
      by (rule shows_step [OF shows_new_id [OF n]]) (use None b in \<open>simp add: reading_def block_open_def\<close>)
    then have "shows_view s h (reading st) (emit cx (ReasoningDelta rid rc) (emit cx (ReasoningStarted rid) h0))
        (reading (st\<lparr>sm_rid := Some rid, sm_reason := sm_reason st @ rc\<rparr>))"
      by (rule shows_step) (simp add: reading_def)
    then show ?thesis using r False None n by (auto simp: stream_reasoning_def block_open_def)
  next
    case (Some rid)
    have "shows_view s h (reading st) (emit cx (ReasoningDelta rid rc) h) (reading (st\<lparr>sm_reason := sm_reason st @ rc\<rparr>))"
      by (rule shows_emit) (simp add: reading_def Some)
    then show ?thesis using r False Some by (auto simp: stream_reasoning_def block_open_def)
  qed
qed (use r b in \<open>simp add: stream_reasoning_def shows_refl\<close>)

lemma stream_chunk_shows:
  assumes b: "block_open st" and r: "stream_chunk cx c st h = (st1, h1)"
  shows "shows_view s h (reading st) h1 (reading st1) \<and> block_open st1"
proof -
  have "shows_view s h (reading st) h1 (reading st1) \<and> block_open st1"
    if "c = Some mo" "mo_message mo = Some m" for mo m
  proof -
    obtain st2 h2 where s: "stream_reasoning cx (cm_reasoning m) (stream_meta m (stream_usage mo st)) h = (st2, h2)" by fastforce
    have "shows_view s h (reading st) h2 (reading st2)" "block_open st2" using stream_reasoning_shows [OF _ s] b by auto
    moreover have "shows_view s h2 (reading st2) (emit cx (TextDelta (cm_content m)) h2) (reading (st2\<lparr>sm_text := sm_text st2 @ cm_content m\<rparr>))"
      by (rule shows_emit) (simp add: reading_def)
    ultimately show ?thesis using r that s shows_trans
      by (auto simp: stream_chunk_def stream_text_def Let_def block_open_def split: if_splits)
  qed
  then show ?thesis using r b shows_refl by (auto simp: stream_chunk_def Let_def split: option.splits)
qed

lemma close_blocks_shows: "shows_view s h (reading st) (close_blocks cx st h) (idle\<lparr>vw_step := True\<rparr>)"
proof (cases "sm_rid st")
  case None
  then show ?thesis by (auto simp: close_blocks_def reading_def idle_def intro: shows_emit)
next
  case (Some rid)
  have "shows_view s h (reading st) (emit cx (ReasoningEnded rid (sm_reason st)) h) (reading st\<lparr>vw_reason := None\<rparr>)"
    by (rule shows_emit) (simp add: reading_def Some)
  then show ?thesis using Some shows_step [of s h "reading st" _ _ "TextEnded (sm_text st)" "idle\<lparr>vw_step := True\<rparr>" cx]
    by (simp add: close_blocks_def reading_def idle_def)
qed

lemma model_stream_shows: "block_open st \<Longrightarrow> shows_view s h (reading st) (model_stream_loop cx info rs st h) idle"
proof (induction cx info rs st h rule: model_stream_loop.induct)
  case (1 cx info st h)
  show ?case by (auto simp: Let_def intro!: shows_step [OF close_blocks_shows])
next
  case (2 cx info e rs st h)
  show ?case by (auto simp: step_failed_data_def intro!: shows_step [OF close_blocks_shows])
next
  case (3 cx info c rs st h)
  obtain st1 h1 where s: "stream_chunk cx c st h = (st1, h1)" by fastforce
  show ?case using stream_chunk_shows [OF 3(2) s] 3(1) [OF s [symmetric] refl] s shows_trans by (simp add: Let_def) blast
qed

lemma on_start_shows:
  assumes "component_of info = CChatModel" and "on_start cx info inp h = (cx1, h1)"
  shows "shows_view s h idle h1 \<lparr>vw_step = True, vw_text = Some [], vw_reason = None\<rparr>"
proof -
  have "h1 = emit cx TextStarted (emit cx (StepStarted (agent_from_context cx) (model_name info)) h)"
    using assms by (auto simp: on_start_def Let_def split: option.splits start_input.splits list.splits)
  moreover have "shows_view s h idle (emit cx (StepStarted (agent_from_context cx) (model_name info)) h) (idle\<lparr>vw_step := True\<rparr>)"
    by (rule shows_emit) simp
  ultimately show ?thesis by (auto simp: idle_def intro: shows_step)
qed

lemma on_end_shows:
  assumes "component_of info = CChatModel"
  shows "shows_view False h \<lparr>vw_step = True, vw_text = Some [], vw_reason = None\<rparr> (on_end cx info (ModelOutput mo) h) idle"
proof -
  let ?v = "\<lparr>vw_step = True, vw_text = Some [], vw_reason = None\<rparr>"
  have fin: "shows_view False h ?v (emit cx (StepEnded (step_ended cx m f u o1 h2)) (emit cx (TextEnded t) h1)) idle"
    if h1: "shows_view False h ?v h1 ?v" for m f u o1 h2 t h1
  proof -
    have "shows_view False h ?v (emit cx (TextEnded t) h1) (idle\<lparr>vw_step := True\<rparr>)" by (rule shows_step [OF h1]) (simp add: idle_def)
    then show ?thesis by (rule shows_step) simp
  qed
  have reason: "shows_view False h ?v (emit cx (ReasoningEnded rid r) (emit cx (ReasoningDelta rid r) (emit cx (ReasoningStarted rid) h0))) ?v"
    if n: "new_id ''reasoning'' h = (rid, h0)" for rid r h0
  proof -
    have "shows_view False h ?v (emit cx (ReasoningStarted rid) h0) (?v\<lparr>vw_reason := Some (rid, [])\<rparr>)"
      by (rule shows_step [OF shows_new_id [OF n]]) simp
    then have "shows_view False h ?v (emit cx (ReasoningDelta rid r) (emit cx (ReasoningStarted rid) h0)) (?v\<lparr>vw_reason := Some (rid, r)\<rparr>)"
      by (rule shows_step) simp
    then show ?thesis by (rule shows_step) simp
  qed
  obtain rid h0 where n: "new_id ''reasoning'' h = (rid, h0)" by fastforce
  show ?thesis using assms fin [OF shows_refl] fin [OF reason [OF n]]
    by (simp add: on_end_def Let_def n split: option.split)
qed


text \<open>A call that fails without a stream leaves its text open.\<close>

definition demo_ctx :: run_ctx where
  "demo_ctx = \<lparr>cx_session = Some ''s'', cx_agent = Some ''a'', cx_meta = None, cx_call = None, cx_input = None\<rparr>"

definition demo_model :: "run_info option" where
  "demo_model = Some \<lparr>ri_component = CChatModel, ri_type = ''gpt'', ri_name = ''chat''\<rparr>"

lemma failed_call_leaves_text_open:
  "follow_all False (map be_data (hd_out (on_error demo_ctx demo_model ''timeout''
     (snd (on_start demo_ctx demo_model NoInput (new_handler None None)))))) idle = None"
  by code_simp


section \<open>Attribution\<close>

text \<open>The agents announced last, per session, and whether each event is of the agent announced last in its session.\<close>

fun announced :: "(string \<Rightarrow> string option) \<Rightarrow> payload event list \<Rightarrow> string \<Rightarrow> string option" where
  "announced cur [] = cur"
| "announced cur (e # es) =
     announced (case be_data e of AgentSwitched a m d \<Rightarrow> cur(be_session e \<mapsto> a) | _ \<Rightarrow> cur) es"

fun attributed :: "(string \<Rightarrow> string option) \<Rightarrow> payload event list \<Rightarrow> bool" where
  "attributed cur [] = True"
| "attributed cur (e # es) =
     (case be_data e of
        AgentSwitched a m d \<Rightarrow> a \<noteq> [] \<and> be_agent e = a \<and> cur (be_session e) \<noteq> Some a \<and> attributed (cur(be_session e \<mapsto> a)) es
      | _ \<Rightarrow> (be_agent e = [] \<or> cur (be_session e) = Some (be_agent e)) \<and> attributed cur es)"

lemma announced_append: "announced cur (es @ fs) = announced (announced cur es) fs"
  by (induction es arbitrary: cur) auto

lemma attributed_append: "attributed cur (es @ fs) \<longleftrightarrow> attributed cur es \<and> attributed (announced cur es) fs"
  by (induction es arbitrary: cur) (auto split: payload.split)

definition attr_inv :: "handler \<Rightarrow> bool" where
  "attr_inv h \<longleftrightarrow> attributed Map.empty (hd_out h) \<and> announced Map.empty (hd_out h) = hd_last h"

definition is_switch :: "payload \<Rightarrow> bool" where
  "is_switch p \<longleftrightarrow> (case p of AgentSwitched a m d \<Rightarrow> True | _ \<Rightarrow> False)"

lemma attr_new_id: "new_id pre h = (i, h1) \<Longrightarrow> attr_inv h \<Longrightarrow> attr_inv h1"
  by (auto simp: attr_inv_def new_id_def Let_def)

lemma plain_event:
  assumes "\<not> is_switch (be_data e)"
  shows "attributed cur [e] \<longleftrightarrow> be_agent e = [] \<or> cur (be_session e) = Some (be_agent e)" and "announced cur [e] = cur"
  using assms by (cases "be_data e"; simp add: is_switch_def)+

lemma attr_maybe_switch:
  assumes "attr_inv h"
  shows "attr_inv (maybe_emit_agent_switched cx sid agent h)"
    and "agent = [] \<or> hd_last (maybe_emit_agent_switched cx sid agent h) sid = Some agent"
  using assms by (cases "cx_meta cx"; simp add: maybe_emit_agent_switched_def send_def attr_inv_def attributed_append announced_append)+

lemma attr_send:
  assumes "attr_inv h" and "\<not> is_switch p" and "agent = [] \<or> hd_last h sid = Some agent"
  shows "attr_inv (send sid agent p h)"
  using assms by (simp add: attr_inv_def send_def attributed_append announced_append plain_event del: attributed.simps announced.simps)

lemma attr_emit: "attr_inv h \<Longrightarrow> \<not> is_switch p \<Longrightarrow> attr_inv (emit cx p h)"
  unfolding emit_def Let_def by (intro attr_send attr_maybe_switch)

lemma is_switch_simps [simp]:
  "\<not> is_switch (StepStarted a m)" "\<not> is_switch (StepEnded se)" "\<not> is_switch (step_failed_data e)" "\<not> is_switch TextStarted"
  "\<not> is_switch (TextDelta d)" "\<not> is_switch (TextEnded t)" "\<not> is_switch (ReasoningStarted i)" "\<not> is_switch (ReasoningDelta i d)"
  "\<not> is_switch (ReasoningEnded i t)" "\<not> is_switch (ToolInputStarted i n)" "\<not> is_switch (ToolInputDelta i d)"
  "\<not> is_switch (ToolInputEnded i t)" "\<not> is_switch (ToolCalled i n a)" "\<not> is_switch (ToolSuccess i c)" "\<not> is_switch (ToolFailed i ed)"
  by (simp_all add: is_switch_def step_failed_data_def)

lemma attr_tool_loop: "attr_inv h \<Longrightarrow> attr_inv (tool_input_loop cx i n rs buf h)"
  by (induction cx i n rs buf h rule: tool_input_loop.induct) (auto simp: attr_emit split: option.split)

lemma attr_chunk:
  assumes "attr_inv h" and "stream_chunk cx c st h = (st1, h1)"
  shows "attr_inv h1"
proof -
  have r: "attr_inv h2" if "stream_reasoning cx rc st h = (st2, h2)" for rc st st2 h2
    using that assms(1) by (auto simp: stream_reasoning_def split: if_splits option.splits prod.splits intro!: attr_emit dest: attr_new_id)
  have t: "attr_inv h3" if "attr_inv h2" "stream_text cx t st h2 = (st3, h3)" for t st st3 h2 h3
    using that by (auto simp: stream_text_def split: if_splits intro!: attr_emit)
  show ?thesis using assms by (auto simp: stream_chunk_def Let_def split: option.splits prod.splits dest!: r dest: t)
qed

lemma attr_model_loop: "attr_inv h \<Longrightarrow> attr_inv (model_stream_loop cx info rs st h)"
proof (induction cx info rs st h rule: model_stream_loop.induct)
  case (3 cx info c rs st h)
  then show ?case using attr_chunk [OF 3(2)] by (auto split: prod.split)
qed (auto simp: close_blocks_def Let_def intro!: attr_emit split: option.split)

text \<open>Any callbacks, of any runs, in any order.\<close>

datatype handler_op =
    OpStart run_ctx "run_info option" start_input
  | OpEnd run_ctx "run_info option" end_output
  | OpError run_ctx "run_info option" string
  | OpStartStream run_ctx "run_info option" "string option recv list"
  | OpEndStream run_ctx "run_info option" "model_output option recv list"

fun run_op :: "handler_op \<Rightarrow> handler \<Rightarrow> handler" where
  "run_op (OpStart cx info inp) h = snd (on_start cx info inp h)"
| "run_op (OpEnd cx info out) h = on_end cx info out h"
| "run_op (OpError cx info e) h = on_error cx info e h"
| "run_op (OpStartStream cx info rs) h = snd (on_start_with_stream_input cx info rs h)"
| "run_op (OpEndStream cx info rs) h = on_end_with_stream_output cx info rs h"

lemma attr_run_op: "attr_inv h \<Longrightarrow> attr_inv (run_op p h)"
proof (cases p)
  case (OpStart cx info inp)
  assume h: "attr_inv h"
  obtain i h1 where n: "new_id ''call'' h = (i, h1)" by fastforce
  show ?thesis using h attr_new_id [OF n h]
    by (cases "component_of info") (auto simp: OpStart on_start_def Let_def n intro!: attr_emit split: option.split start_input.split list.split)
next
  case (OpEnd cx info out)
  assume h: "attr_inv h"
  obtain i h1 where n: "new_id ''reasoning'' h = (i, h1)" by fastforce
  show ?thesis using h attr_new_id [OF n h]
    by (cases "component_of info") (auto simp: OpEnd on_end_def Let_def n intro!: attr_emit split: option.split end_output.split)
next
  case (OpError cx info e)
  assume "attr_inv h"
  then show ?thesis by (cases "component_of info") (auto simp: OpError on_error_def intro!: attr_emit)
next
  case (OpStartStream cx info rs)
  assume h: "attr_inv h"
  obtain i h1 where n: "new_id ''call'' h = (i, h1)" by fastforce
  show ?thesis using h attr_new_id [OF n h]
    by (auto simp: OpStartStream on_start_with_stream_input_def Let_def n intro!: attr_emit attr_tool_loop)
next
  case (OpEndStream cx info rs)
  assume "attr_inv h"
  then show ?thesis by (auto simp: OpEndStream on_end_with_stream_output_def intro!: attr_model_loop)
qed


end
