(* ===== verification/CostTrack_Props.thy ===== *)
theory CostTrack_Props
  imports CostTrack Activity_Props
begin

text \<open>
  Cost tracking adds up: the totals of a session are the sum over its events and over its models, the counters of the
  metrics agree with them, a session is one task; estimates stay in their bounds.
\<close>

section \<open>Sums\<close>

definition sum_tokens :: "tokens list \<Rightarrow> tokens" where
  "sum_tokens ts = foldr add_tokens ts no_tokens"

lemma add_tokens_simps [simp]:
  "add_tokens no_tokens t = t" "add_tokens t no_tokens = t"
  by (simp_all add: add_tokens_def no_tokens_def)

lemma add_tokens_assoc: "add_tokens (add_tokens a b) c = add_tokens a (add_tokens b c)"
  by (simp add: add_tokens_def)

lemma add_tokens_commute: "add_tokens a b = add_tokens b a"
  by (simp add: add_tokens_def)

lemma add_tokens_left_commute: "add_tokens a (add_tokens b c) = add_tokens b (add_tokens a c)"
  by (simp add: add_tokens_def)

lemmas add_tokens_ac = add_tokens_assoc add_tokens_commute add_tokens_left_commute

lemma sum_tokens_simps [simp]: "sum_tokens [] = no_tokens" "sum_tokens (t # ts) = add_tokens t (sum_tokens ts)"
  by (simp_all add: sum_tokens_def)

lemma sum_tokens_append: "sum_tokens (ts @ us) = add_tokens (sum_tokens ts) (sum_tokens us)"
  by (induction ts) (simp_all add: add_tokens_assoc)

text \<open>The sum of usages.\<close>

definition plus_usage :: "usage_sum \<Rightarrow> usage_sum \<Rightarrow> usage_sum" where
  "plus_usage u v =
     \<lparr>ug_cost = ug_cost u + ug_cost v, ug_savings = ug_savings u + ug_savings v,
      ug_tokens = add_tokens (ug_tokens u) (ug_tokens v), ug_steps = ug_steps u + ug_steps v\<rparr>"

definition step_usage :: "step_end \<Rightarrow> rat \<Rightarrow> usage_sum" where
  "step_usage se savings = \<lparr>ug_cost = se_cost se, ug_savings = savings, ug_tokens = se_tokens se, ug_steps = 1\<rparr>"

definition sum_usage :: "usage_sum list \<Rightarrow> usage_sum" where
  "sum_usage us = foldr plus_usage us no_usage"

lemma plus_usage_no [simp]: "plus_usage no_usage u = u" "plus_usage u no_usage = u"
  by (simp_all add: plus_usage_def no_usage_def)

lemma plus_usage_assoc: "plus_usage (plus_usage u v) w = plus_usage u (plus_usage v w)"
  by (simp add: plus_usage_def add_tokens_assoc)

lemma plus_usage_commute: "plus_usage u v = plus_usage v u"
  by (simp add: plus_usage_def add_tokens_commute)

lemma plus_usage_left_commute: "plus_usage u (plus_usage v w) = plus_usage v (plus_usage u w)"
  by (simp add: plus_usage_def add_tokens_left_commute)

lemmas plus_usage_ac = plus_usage_assoc plus_usage_commute plus_usage_left_commute

lemma sum_usage_simps [simp]: "sum_usage [] = no_usage" "sum_usage (u # us) = plus_usage u (sum_usage us)"
  by (simp_all add: sum_usage_def)

lemma sum_usage_append: "sum_usage (us @ vs) = plus_usage (sum_usage us) (sum_usage vs)"
  by (induction us) (simp_all add: plus_usage_assoc)

lemma add_usage_plus: "add_usage se sv u = plus_usage u (step_usage se sv)"
  by (simp add: add_usage_def plus_usage_def step_usage_def)

lemma agg_usage_add: "agg_usage (add_agg se sv m) = plus_usage (agg_usage m) (step_usage se sv)"
  by (simp add: agg_usage_def add_agg_def plus_usage_def step_usage_def)

lemma agg_usage_step: "agg_usage (step_agg se sv) = step_usage se sv"
  by (simp add: agg_usage_def step_agg_def step_usage_def)

section \<open>Sessions\<close>

text \<open>Each model once, with the steps it did; the totals are their sum.\<close>

definition balanced :: "session_totals \<Rightarrow> bool" where
  "balanced s \<longleftrightarrow> distinct (map fst (st_models s)) \<and> st_totals s = sum_usage (map (agg_usage \<circ> snd) (st_models s))"

lemma sum_usage_update:
  assumes "distinct (map fst ms)"
  shows "sum_usage (map (f \<circ> snd) (AList.update k v ms)) =
    (case map_of ms k of
       None \<Rightarrow> plus_usage (sum_usage (map (f \<circ> snd) ms)) (f v)
     | Some m \<Rightarrow> plus_usage (sum_usage (map (f \<circ> snd) (AList.delete k ms))) (f v))"
  using assms
proof (induction ms)
  case (Cons km ms)
  obtain k' m where km: "km = (k', m)" by (cases km)
  show ?case
  proof (cases "k' = k")
    case True
    have "AList.delete k ms = ms" using Cons.prems km True by (simp add: AList.delete_id)
    then show ?thesis by (simp add: km True plus_usage_commute comp_def)
  qed (use Cons in \<open>auto simp: km plus_usage_assoc split: option.split\<close>)
qed simp

lemma sum_usage_split:
  "distinct (map fst ms) \<Longrightarrow> map_of ms k = Some m \<Longrightarrow>
    sum_usage (map (f \<circ> snd) ms) = plus_usage (sum_usage (map (f \<circ> snd) (AList.delete k ms))) (f m)"
proof (induction ms)
  case (Cons km ms)
  obtain k' m' where km: "km = (k', m')" by (cases km)
  show ?case
  proof (cases "k' = k")
    case True
    have "AList.delete k ms = ms" using Cons.prems km True by (simp add: AList.delete_id)
    then show ?thesis using Cons.prems(2) by (simp add: km True plus_usage_commute)
  qed (use Cons in \<open>auto simp: km plus_usage_assoc\<close>)
qed simp

lemma balanced_new [simp]: "balanced (new_totals now)"
  by (simp add: balanced_def new_totals_def)

lemma balanced_update [simp]:
  "balanced (s\<lparr>st_tool_called := x\<rparr>) = balanced s" "balanced (s\<lparr>st_compactions := n\<rparr>) = balanced s"
  "balanced (s\<lparr>st_ended := x\<rparr>) = balanced s" "balanced (s\<lparr>st_ended_data := d\<rparr>) = balanced s"
  by (simp_all add: balanced_def)

lemma balanced_record:
  assumes "balanced s"
  shows "balanced (s\<lparr>st_models := (case map_of (st_models s) model of
        Some m \<Rightarrow> AList.update model (add_agg se sv m) (st_models s) | None \<Rightarrow> AList.update model (step_agg se sv) (st_models s)),
      st_totals := add_usage se sv (st_totals s), st_estimated := e\<rparr>)"
  using assms sum_usage_split [of "st_models s" model _ agg_usage]
  by (auto simp: balanced_def distinct_update sum_usage_update add_usage_plus agg_usage_add agg_usage_step plus_usage_assoc split: option.split)


section \<open>The watcher\<close>

text \<open>The steps among the events of a subscription.\<close>

fun steps_in :: "payload event list \<Rightarrow> step_end list" where
  "steps_in [] = []"
| "steps_in (e # es) = (case be_data e of StepEnded se \<Rightarrow> se # steps_in es | _ \<Rightarrow> steps_in es)"

lemma totals_of_upd [simp]: "totals_of now sid (ss(sid \<mapsto> s)) = s"
  by (simp add: totals_of_def)

text \<open>What one event does to the session of the watcher, and to the others.\<close>

definition same_sums :: "session_totals \<Rightarrow> session_totals \<Rightarrow> bool" where
  "same_sums s s' \<longleftrightarrow> st_models s' = st_models s \<and> st_totals s' = st_totals s"

lemma handle_session_ended_sums:
  "same_sums (totals_of n sid (tr_totals t)) (totals_of n' sid (tr_totals (handle_session_ended cfg now b sid agent se t)))"
  by (auto simp: handle_session_ended_def finalize_def tell_def same_sums_def totals_of_def new_totals_def Let_def split: option.split)

lemma watch_event_sums:
  "case be_data e of
     StepEnded se \<Rightarrow> (\<exists>model sv.
       tr_totals (watch_event cfg now b sid e t) sid = Some ((totals_of now sid (tr_totals t))\<lparr>
         st_models := (case map_of (st_models (totals_of now sid (tr_totals t))) model of
            Some m \<Rightarrow> AList.update model (add_agg se sv m) (st_models (totals_of now sid (tr_totals t)))
          | None \<Rightarrow> AList.update model (step_agg se sv) (st_models (totals_of now sid (tr_totals t)))),
         st_totals := add_usage se sv (st_totals (totals_of now sid (tr_totals t))),
         st_estimated := se_estimated se \<or> st_estimated (totals_of now sid (tr_totals t))\<rparr>))
   | _ \<Rightarrow> same_sums (totals_of n sid (tr_totals t)) (totals_of n' sid (tr_totals (watch_event cfg now b sid e t)))"
proof -
  have refl: "same_sums (totals_of n sid (tr_totals t)) (totals_of n' sid (tr_totals t))"
    by (simp add: same_sums_def totals_of_def new_totals_def split: option.split)
  have mark: "same_sums (totals_of n sid (tr_totals t)) (totals_of n' sid (mark_real_task now sid (tr_totals t)))"
    by (simp add: same_sums_def totals_of_def new_totals_def mark_real_task_def split: option.split)
  have bump: "same_sums (totals_of n sid (tr_totals t)) (totals_of n' sid (bump_compaction now sid (tr_totals t)))"
    by (simp add: same_sums_def totals_of_def new_totals_def bump_compaction_def Let_def split: option.split)
  have ended: "same_sums (totals_of n sid (tr_totals t)) (totals_of n' sid (tr_totals (handle_session_ended cfg now b sid (be_agent e) se (t\<lparr>tr_seen := True\<rparr>))))" for se
    using handle_session_ended_sums [of n sid "t\<lparr>tr_seen := True\<rparr>"] by simp
  have built: "same_sums (totals_of n sid (tr_totals t))
      (totals_of n' sid (tr_totals (handle_session_ended cfg now b sid (be_agent e) (fst (build_session_ended now sid (tr_totals t)))
        (t\<lparr>tr_seen := True, tr_totals := snd (build_session_ended now sid (tr_totals t))\<rparr>))))"
    using handle_session_ended_sums [of n sid "t\<lparr>tr_seen := True, tr_totals := snd (build_session_ended now sid (tr_totals t))\<rparr>" n' cfg now b
        "be_agent e" "fst (build_session_ended now sid (tr_totals t))"]
    by (simp add: same_sums_def build_session_ended_def totals_of_def new_totals_def Let_def split: option.splits)
  show ?thesis
  proof (cases "be_data e")
    case (StepEnded se)
    obtain model where model: "model = (case tr_models t (be_agent e) of None \<Rightarrow> [] | Some m \<Rightarrow> m)" by simp
    show ?thesis unfolding StepEnded payload.case
      by (rule exI [of _ model], rule exI [of _ "cb_savings (case breakdown (tc_pricer cfg) model (se_tokens se) of None \<Rightarrow> no_breakdown | Some b \<Rightarrow> b)"])
        (auto simp: watch_event_def StepEnded handle_step_ended_def record_step_def tell_def Let_def model split: option.split)
  qed (use refl mark bump ended built in
      \<open>simp_all add: watch_event_def tell_def Let_def split_beta cong: if_cong\<close>)
qed

lemma watch_event_other: "sid' \<noteq> sid \<Longrightarrow> tr_totals (watch_event cfg now b sid e t) sid' = tr_totals t sid'"
  by (auto simp: watch_event_def handle_step_ended_def handle_session_ended_def record_step_def tell_def mark_real_task_def
      bump_compaction_def build_session_ended_def finalize_def Let_def split: payload.split option.split prod.split)


text \<open>Totals that add up to what was there before and the steps of the events.\<close>

definition adds_up :: "session_totals \<Rightarrow> payload event list \<Rightarrow> session_totals \<Rightarrow> bool" where
  "adds_up s es s' \<longleftrightarrow> balanced s'
     \<and> ug_tokens (st_totals s') = add_tokens (ug_tokens (st_totals s)) (sum_tokens (map se_tokens (steps_in es)))
     \<and> ug_steps (st_totals s') = ug_steps (st_totals s) + length (steps_in es)
     \<and> ug_cost (st_totals s') = ug_cost (st_totals s) + sum_list (map se_cost (steps_in es))"

lemma balanced_same: "same_sums s s' \<Longrightarrow> balanced s' = balanced s"
  by (simp add: same_sums_def balanced_def)

lemma watch_event_adds_up:
  assumes "balanced (totals_of n sid (tr_totals t))"
  shows "adds_up (totals_of n sid (tr_totals t)) [e] (totals_of n' sid (tr_totals (watch_event cfg now b sid e t)))"
proof (cases "\<exists>se. be_data e = StepEnded se")
  case True
  then obtain se where se: "be_data e = StepEnded se" by blast
  have s0: "same_sums (totals_of n sid (tr_totals t)) (totals_of now sid (tr_totals t))"
    by (simp add: same_sums_def totals_of_def new_totals_def split: option.split)
  have bal: "balanced (totals_of now sid (tr_totals t))" using assms balanced_same [OF s0] by simp
  obtain model sv where r: "tr_totals (watch_event cfg now b sid e t) sid = Some ((totals_of now sid (tr_totals t))\<lparr>
         st_models := (case map_of (st_models (totals_of now sid (tr_totals t))) model of
            Some m \<Rightarrow> AList.update model (add_agg se sv m) (st_models (totals_of now sid (tr_totals t)))
          | None \<Rightarrow> AList.update model (step_agg se sv) (st_models (totals_of now sid (tr_totals t)))),
         st_totals := add_usage se sv (st_totals (totals_of now sid (tr_totals t))),
         st_estimated := se_estimated se \<or> st_estimated (totals_of now sid (tr_totals t))\<rparr>)"
    using watch_event_sums [where e = e and cfg = cfg and now = now and b = b and sid = sid and t = t] se by auto
  show ?thesis unfolding adds_up_def totals_of_def [of n' sid "tr_totals (watch_event cfg now b sid e t)"] r option.case
    using balanced_record [OF bal, where model = model and se = se and sv = sv and e = "se_estimated se \<or> st_estimated (totals_of now sid (tr_totals t))"] s0 by (simp add: se add_usage_def same_sums_def)
next
  case False
  then have st: "steps_in [e] = []" by (simp split: payload.split)
  have same: "same_sums (totals_of n sid (tr_totals t)) (totals_of n' sid (tr_totals (watch_event cfg now b sid e t)))"
    using watch_event_sums [where e = e and cfg = cfg and now = now and b = b and sid = sid and t = t and n = n and n' = n'] False by (cases "be_data e") auto
  then show ?thesis using assms balanced_same [OF same] unfolding adds_up_def st by (simp add: same_sums_def)
qed

lemma steps_in_append: "steps_in (es @ fs) = steps_in es @ steps_in fs"
  by (induction es) (auto split: payload.split)

lemma adds_up_trans: "adds_up s es s1 \<Longrightarrow> adds_up s1 fs s2 \<Longrightarrow> adds_up s (es @ fs) s2"
  by (auto simp: adds_up_def steps_in_append sum_tokens_append add_tokens_assoc)

lemma watch_adds_up:
  "balanced (totals_of n sid (tr_totals t)) \<Longrightarrow>
    adds_up (totals_of n sid (tr_totals t)) (map (snd \<circ> snd) es) (totals_of n' sid (tr_totals (watch cfg sid es t)))"
proof (induction es arbitrary: t)
  case Nil
  then show ?case by (cases "tr_totals t sid") (simp_all add: adds_up_def balanced_def totals_of_def new_totals_def)
next
  case (Cons x es)
  obtain now b e where x: "x = (now, b, e)" by (cases x)
  note one = watch_event_adds_up [OF Cons.prems, of e n cfg now b]
  then have "balanced (totals_of n sid (tr_totals (watch_event cfg now b sid e t)))" by (simp add: adds_up_def)
  from adds_up_trans [OF one Cons.IH [OF this]] show ?case by (simp add: x)
qed

lemma watch_other: "sid' \<noteq> sid \<Longrightarrow> tr_totals (watch cfg sid es t) sid' = tr_totals t sid'"
  by (induction cfg sid es t rule: watch.induct) (simp_all add: watch_event_other)

text \<open>C14: A session's totals add up: whatever events its watcher receives, with failed, estimated and compaction steps
  in between, the totals are the sums over the steps that ended, and also the sums over the models; other sessions stay as
  they are.\<close>

theorem totals_add_up:
  assumes "tr_totals t sid = None" and "s = totals_of now sid (tr_totals (watch cfg sid es t))" and "sid' \<noteq> sid"
  shows "ug_tokens (st_totals s) = sum_tokens (map se_tokens (steps_in (map (snd \<circ> snd) es)))
    \<and> ug_steps (st_totals s) = length (steps_in (map (snd \<circ> snd) es))
    \<and> ug_cost (st_totals s) = sum_list (map se_cost (steps_in (map (snd \<circ> snd) es)))
    \<and> st_totals s = sum_usage (map mu_usage (map model_usage_of (st_models s)))
    \<and> tr_totals (watch cfg sid es t) sid' = tr_totals t sid'"
proof -
  have new: "totals_of now sid (tr_totals t) = new_totals now" using assms(1) by (simp add: totals_of_def)
  have "adds_up (new_totals now) (map (snd \<circ> snd) es) s"
    using watch_adds_up [of now sid t es now cfg] assms(2) new by simp
  then have up: "adds_up (new_totals now) (map (snd \<circ> snd) es) s" and "balanced s" by (simp_all add: adds_up_def)
  then have "st_totals s = sum_usage (map mu_usage (map model_usage_of (st_models s)))"
    by (simp only: balanced_def model_usage_of_def Let_def map_map comp_def split_beta model_usage.select_convs)
  moreover note up [unfolded adds_up_def] watch_other [OF assms(3)]
  ultimately show ?thesis by (simp add: new_totals_def no_usage_def)
qed

end
