(* ===== verification/CostTrack_Metrics.thy ===== *)
theory CostTrack_Metrics
  imports CostTrack_Props
begin

text \<open>
  What the recorders are told about a session: that the counters of the metrics agree with the totals of the
  session, that a session is one task, and that an estimate stays within its bounds.
\<close>

section \<open>Counters\<close>

definition prom_of :: "track \<Rightarrow> prometheus" where
  "prom_of t = fold prometheus_record (tr_calls t) new_prometheus"

lemma prom_of_tell [simp]: "prom_of (tell c t) = prometheus_record c (prom_of t)"
  by (simp add: prom_of_def tell_def)

lemma prom_of_update [simp]:
  "prom_of (t\<lparr>tr_totals := ss\<rparr>) = prom_of t" "prom_of (t\<lparr>tr_published := es\<rparr>) = prom_of t"
  "prom_of (t\<lparr>tr_seen := x\<rparr>) = prom_of t" "prom_of (t\<lparr>tr_models := ms\<rparr>) = prom_of t"
  by (simp_all add: prom_of_def)

lemma tell_sel [simp]:
  "tr_totals (tell c t) = tr_totals t" "tr_published (tell c t) = tr_published t"
  "tr_seen (tell c t) = tr_seen t" "tr_models (tell c t) = tr_models t"
  "tr_calls (tell c t) = tr_calls t @ [c]"
  by (simp_all add: tell_def)

lemma add_at_apply: "add_at k v f x = (if x = k then f k + v else f x)"
  by (simp add: add_at_def)

lemma sum_add_at:
  assumes "finite A" and "a \<in> A"
  shows "(\<Sum>x\<in>A. add_at (m, a, k) v f (m', x, k')) = (\<Sum>x\<in>A. f (m', x, k')) + (if m' = m \<and> k' = k then v else (0 :: 'v :: ring_1))"
proof (cases "m' = m \<and> k' = k")
  case True
  have "(\<Sum>x\<in>A. add_at (m, a, k) v f (m', x, k')) = (\<Sum>x\<in>A. f (m, x, k) + (if x = a then v else 0))"
    using True by (intro sum.cong) (simp_all add: add_at_apply)
  then show ?thesis using True assms by (simp add: sum.distrib)
qed (auto simp: add_at_apply intro!: sum.cong)

lemma sum_add_at2:
  assumes "finite A" and "a \<in> A"
  shows "(\<Sum>x\<in>A. add_at (m, a) v f (m', x)) = (\<Sum>x\<in>A. f (m', x)) + (if m' = m then v else (0 :: 'v :: ring_1))"
proof (cases "m' = m")
  case True
  have "(\<Sum>x\<in>A. add_at (m, a) v f (m', x)) = (\<Sum>x\<in>A. f (m, x) + (if x = a then v else 0))"
    using True by (intro sum.cong) (simp_all add: add_at_apply)
  then show ?thesis using True assms by (simp add: sum.distrib)
qed (auto simp: add_at_apply intro!: sum.cong)

text \<open>The counters of one kind of token, by the name of the label, and what the session has for a model.\<close>

definition kind_of :: "string \<Rightarrow> tokens \<Rightarrow> int" where
  "kind_of k t =
     (if k = ''input'' then tk_input t else if k = ''output'' then tk_output t else if k = ''reasoning'' then tk_reasoning t
      else if k = ''cache_read'' then tk_cache_read t else 0)"

definition model_sum :: "session_totals \<Rightarrow> string \<Rightarrow> usage_sum" where
  "model_sum s m = (case map_of (st_models s) m of None \<Rightarrow> no_usage | Some a \<Rightarrow> agg_usage a)"

definition agrees :: "string set \<Rightarrow> prometheus \<Rightarrow> session_totals \<Rightarrow> bool" where
  "agrees A p s \<longleftrightarrow> (\<forall>m. (\<Sum>a\<in>A. pm_cost p (m, a)) = ug_cost (model_sum s m)
     \<and> (\<forall>k. (\<Sum>a\<in>A. pm_tokens p (m, a, k)) = kind_of k (ug_tokens (model_sum s m))))"

lemma kind_of_add: "kind_of k (add_tokens t u) = kind_of k t + kind_of k u"
  by (simp add: kind_of_def add_tokens_def)

lemma collector_cost:
  "pm_cost (collector_observe None model agent se p) = add_at (model, agent) (se_cost se) (pm_cost p)"
  by (auto simp: collector_observe_def Let_def add_at_def)

lemma collector_tokens:
  assumes "finite A" and "agent \<in> A"
  shows "(\<Sum>a\<in>A. pm_tokens (collector_observe None model agent se p) (m, a, k))
    = (\<Sum>a\<in>A. pm_tokens p (m, a, k)) + (if m = model then kind_of k (se_tokens se) else 0)"
  using assms by (simp add: collector_observe_def Let_def sum_add_at kind_of_def)

lemma model_sum_record:
  "model_sum (s\<lparr>st_models := (case map_of (st_models s) model of
        Some m \<Rightarrow> AList.update model (add_agg se sv m) (st_models s) | None \<Rightarrow> AList.update model (step_agg se sv) (st_models s)),
      st_totals := u, st_estimated := e\<rparr>) m =
    (if m = model then plus_usage (model_sum s m) (step_usage se sv) else model_sum s m)"
  by (auto simp: model_sum_def update_conv' agg_usage_add agg_usage_step split: option.split)

lemma agrees_observe:
  assumes "finite A" and "agent \<in> A" and "agrees A p s"
  shows "agrees A (collector_observe None model agent se p) (s\<lparr>st_models := (case map_of (st_models s) model of
        Some m \<Rightarrow> AList.update model (add_agg se sv m) (st_models s) | None \<Rightarrow> AList.update model (step_agg se sv) (st_models s)),
      st_totals := u, st_estimated := e\<rparr>)"
  using assms(3) unfolding agrees_def model_sum_record
  by (auto simp: collector_cost collector_tokens [OF assms(1,2)] sum_add_at2 [OF assms(1,2)] plus_usage_def step_usage_def kind_of_add)

text \<open>Calls that leave tokens and cost alone.\<close>

lemma agrees_cong: "pm_cost p' = pm_cost p \<Longrightarrow> pm_tokens p' = pm_tokens p \<Longrightarrow> st_models s' = st_models s \<Longrightarrow> agrees A p' s' = agrees A p s"
  by (simp add: agrees_def model_sum_def)

lemma observe_breakdown_other [simp]:
  "pm_cost (observe_breakdown m a b p) = pm_cost p" "pm_tokens (observe_breakdown m a b p) = pm_tokens p"
  by (simp_all add: observe_breakdown_def Let_def)

lemma handle_session_ended_prom:
  "pm_cost (prom_of (handle_session_ended cfg now b sid agent se t)) = pm_cost (prom_of t)"
  "pm_tokens (prom_of (handle_session_ended cfg now b sid agent se t)) = pm_tokens (prom_of t)"
  by (simp_all add: handle_session_ended_def finalize_def Let_def split: option.split)

lemma handle_step_prom:
  "pm_cost (prom_of (handle_step_ended cfg now sid agent model se t)) = pm_cost (collector_observe None model agent se (prom_of t))"
  "pm_tokens (prom_of (handle_step_ended cfg now sid agent model se t)) = pm_tokens (collector_observe None model agent se (prom_of t))"
  by (simp_all add: handle_step_ended_def Let_def split: option.split)

lemma handle_step_models:
  "\<exists>sv. st_models (totals_of n sid (tr_totals (handle_step_ended cfg now sid agent model se t))) =
    (case map_of (st_models (totals_of now sid (tr_totals t))) model of
       Some m \<Rightarrow> AList.update model (add_agg se sv m) (st_models (totals_of now sid (tr_totals t)))
     | None \<Rightarrow> AList.update model (step_agg se sv) (st_models (totals_of now sid (tr_totals t))))"
  by (rule exI [of _ "cb_savings (case breakdown (tc_pricer cfg) model (se_tokens se) of None \<Rightarrow> no_breakdown | Some b \<Rightarrow> b)"],
      cases "breakdown (tc_pricer cfg) model (se_tokens se)")
    (simp_all add: handle_step_ended_def record_step_def Let_def cong: option.case_cong)

lemma watch_event_agrees:
  assumes "finite A" and "be_agent e \<in> A" and "agrees A (prom_of t) (totals_of n sid (tr_totals t))"
  shows "agrees A (prom_of (watch_event cfg now b sid e t)) (totals_of n' sid (tr_totals (watch_event cfg now b sid e t)))"
proof -
  have s0: "same_sums (totals_of n sid (tr_totals t)) (totals_of now sid (tr_totals t))"
    by (simp add: same_sums_def totals_of_def new_totals_def split: option.split)
  have now: "agrees A (prom_of t) (totals_of now sid (tr_totals t))"
    using assms(3) s0 by (simp add: same_sums_def agrees_def model_sum_def)
  show ?thesis
  proof (cases "be_data e")
    case (StepEnded se)
    define model where "model = (case tr_models t (be_agent e) of None \<Rightarrow> [] | Some m \<Rightarrow> m)"
    have step: "watch_event cfg now b sid e t = handle_step_ended cfg now sid (be_agent e) model se t"
      by (simp add: watch_event_def StepEnded model_def)
    from handle_step_models obtain sv where models:
      "st_models (totals_of n' sid (tr_totals (handle_step_ended cfg now sid (be_agent e) model se t))) =
        (case map_of (st_models (totals_of now sid (tr_totals t))) model of
           Some m \<Rightarrow> AList.update model (add_agg se sv m) (st_models (totals_of now sid (tr_totals t)))
         | None \<Rightarrow> AList.update model (step_agg se sv) (st_models (totals_of now sid (tr_totals t))))" by blast
    show ?thesis unfolding step
      by (rule iffD2 [OF agrees_cong [OF handle_step_prom] agrees_observe [OF assms(1,2) now, where u = no_usage and e = False]])
        (simp add: models)
  qed (use assms(3) watch_event_sums [where e = e and cfg = cfg and now = now and b = b and sid = sid and t = t and n = n and n' = n'] in
      \<open>simp_all add: same_sums_def agrees_def model_sum_def watch_event_def handle_session_ended_prom split_beta Let_def cong: if_cong\<close>)
qed

lemma watch_agrees:
  assumes "finite A"
  shows "(\<And>e. e \<in> set es \<Longrightarrow> be_agent (snd (snd e)) \<in> A) \<Longrightarrow> agrees A (prom_of t) (totals_of n sid (tr_totals t)) \<Longrightarrow>
    agrees A (prom_of (watch cfg sid es t)) (totals_of n' sid (tr_totals (watch cfg sid es t)))"
proof (induction es arbitrary: t)
  case Nil
  then show ?case by (cases "tr_totals t sid") (simp_all add: agrees_def model_sum_def totals_of_def new_totals_def)
next
  case (Cons x es)
  obtain now b e where x: "x = (now, b, e)" by (cases x)
  have "agrees A (prom_of (watch_event cfg now b sid e t)) (totals_of n sid (tr_totals (watch_event cfg now b sid e t)))"
    using watch_event_agrees [OF assms _ Cons.prems(2), of e] Cons.prems(1) [of x] x by simp
  then show ?case using Cons.IH Cons.prems(1) by (simp add: x)
qed

text \<open>C15: The counters agree with the session: for every model, the tokens of each kind and the cost that the Prometheus
  recorder has summed over the agents are those of the model in the session's totals.\<close>

theorem metrics_agree:
  "(\<Sum>a \<in> (be_agent \<circ> snd \<circ> snd) ` set es. pm_cost (fold prometheus_record (tr_calls (watch cfg sid es new_track)) new_prometheus) (m, a))
     = ug_cost (model_sum (totals_of now sid (tr_totals (watch cfg sid es new_track))) m)
   \<and> (\<forall>k. (\<Sum>a \<in> (be_agent \<circ> snd \<circ> snd) ` set es.
          pm_tokens (fold prometheus_record (tr_calls (watch cfg sid es new_track)) new_prometheus) (m, a, k))
        = kind_of k (ug_tokens (model_sum (totals_of now sid (tr_totals (watch cfg sid es new_track))) m)))"
proof -
  have "agrees ((be_agent \<circ> snd \<circ> snd) ` set es) (prom_of new_track) (totals_of now sid (tr_totals new_track))"
    by (simp add: agrees_def prom_of_def new_track_def new_prometheus_def totals_of_def new_totals_def model_sum_def no_usage_def
        kind_of_def no_tokens_def)
  then have "agrees ((be_agent \<circ> snd \<circ> snd) ` set es) (prom_of (watch cfg sid es new_track))
      (totals_of now sid (tr_totals (watch cfg sid es new_track)))"
    by (intro watch_agrees) simp_all
  then show ?thesis by (simp add: agrees_def prom_of_def)
qed

section \<open>Tasks\<close>

fun is_task :: "rec_call \<Rightarrow> bool" where
  "is_task (RecordTask s a c r) = True"
| "is_task c = False"

definition tasks :: "track \<Rightarrow> rec_call list" where
  "tasks t = filter is_task (tr_calls t)"

definition ends_session :: "track_config \<Rightarrow> payload event \<Rightarrow> bool" where
  "ends_session cfg e \<longleftrightarrow> (case be_data e of StepStarted a m \<Rightarrow> False | StepEnded se \<Rightarrow> False | ToolCalled i n a \<Rightarrow> False
     | CompactionEnded c \<Rightarrow> False | SessionEnded se \<Rightarrow> True | _ \<Rightarrow> is_terminal cfg (be_type e))"

fun calls_tool :: "payload \<Rightarrow> bool" where
  "calls_tool (ToolCalled i n a) = True"
| "calls_tool p = False"

lemma tasks_tell [simp]: "tasks (tell c t) = tasks t @ (if is_task c then [c] else [])"
  by (simp add: tasks_def)

lemma tasks_update [simp]:
  "tasks (t\<lparr>tr_totals := ss\<rparr>) = tasks t" "tasks (t\<lparr>tr_published := es\<rparr>) = tasks t"
  "tasks (t\<lparr>tr_seen := x\<rparr>) = tasks t" "tasks (t\<lparr>tr_models := ms\<rparr>) = tasks t"
  by (simp_all add: tasks_def)

text \<open>A step, and an end.\<close>

lemma handle_step_quiet [simp]:
  "tasks (handle_step_ended cfg now sid agent model se t) = tasks t"
  "tr_seen (handle_step_ended cfg now sid agent model se t) = tr_seen t"
  "tr_published (handle_step_ended cfg now sid agent model se t) = tr_published t"
  by (simp_all add: handle_step_ended_def Let_def split: option.split)

lemma handle_step_session:
  "ug_cost (st_totals (totals_of n sid (tr_totals (handle_step_ended cfg now sid agent model se t)))) =
    ug_cost (st_totals (totals_of n sid (tr_totals t))) + se_cost se"
  "st_tool_called (totals_of n sid (tr_totals (handle_step_ended cfg now sid agent model se t))) =
    st_tool_called (totals_of n sid (tr_totals t))"
  by (cases "tr_totals t sid"; cases "breakdown (tc_pricer cfg) model (se_tokens se)";
      simp add: handle_step_ended_def record_step_def add_usage_def totals_of_def new_totals_def no_usage_def Let_def)+

lemma handle_session_ended_task:
  "tasks (handle_session_ended cfg now b sid agent se t) = tasks t @
     [RecordTask sid agent (ug_cost (st_totals (totals_of n sid (tr_totals t)))) (st_tool_called (totals_of n sid (tr_totals t)))]"
  "tr_seen (handle_session_ended cfg now b sid agent se t) = tr_seen t"
  by (cases "tr_totals t sid"; auto simp: handle_session_ended_def finalize_def totals_of_def new_totals_def Let_def split: option.split)+

lemma handle_session_ended_published:
  "tr_published (handle_session_ended cfg now b sid agent se t) = tr_published t \<or>
   (\<exists>e. tr_published (handle_session_ended cfg now b sid agent se t) = tr_published t @ [e] \<and> be_type e = ''session.ended'' \<and> be_session e = sid)"
  by (auto simp: handle_session_ended_def finalize_def Let_def split: option.split)

lemma watch_event_seen:
  "tr_seen t \<Longrightarrow> tr_seen (watch_event cfg now b sid e t) \<and> tasks (watch_event cfg now b sid e t) = tasks t
    \<and> tr_published (watch_event cfg now b sid e t) = tr_published t"
  by (cases "be_data e") (simp_all add: watch_event_def)

lemma watch_seen: "tr_seen t \<Longrightarrow> tasks (watch cfg sid es t) = tasks t \<and> tr_published (watch cfg sid es t) = tr_published t"
  by (induction cfg sid es t rule: watch.induct) (simp_all add: watch_event_seen)

lemma watch_event_ends:
  assumes "ends_session cfg e" and "\<not> tr_seen t"
  shows "tr_seen (watch_event cfg now b sid e t)"
    and "tasks (watch_event cfg now b sid e t) = tasks t @
     [RecordTask sid (be_agent e) (ug_cost (st_totals (totals_of n sid (tr_totals t)))) (st_tool_called (totals_of n sid (tr_totals t)))]"
    and "length (tr_published (watch_event cfg now b sid e t)) \<le> length (tr_published t) + 1"
proof -
  have built: "totals_of n sid (snd (build_session_ended now sid (tr_totals t))) = (totals_of now sid (tr_totals t))\<lparr>st_ended := True\<rparr>"
    by (simp add: build_session_ended_def Let_def)
  have now: "ug_cost (st_totals (totals_of now sid (tr_totals t))) = ug_cost (st_totals (totals_of n sid (tr_totals t)))"
    "st_tool_called (totals_of now sid (tr_totals t)) = st_tool_called (totals_of n sid (tr_totals t))"
    by (simp_all add: totals_of_def new_totals_def split: option.split)
  have pub: "length (tr_published (handle_session_ended cfg now b sid agent se t)) \<le> Suc (length (tr_published t))" for agent se t
    using handle_session_ended_published [of cfg now b sid agent se t] by auto
  note facts = handle_session_ended_task(1) [where n = n] handle_session_ended_task(2) built now watch_event_def ends_session_def split_beta Let_def
  show "tr_seen (watch_event cfg now b sid e t)" using assms by (cases "be_data e") (simp_all add: facts)
  show "tasks (watch_event cfg now b sid e t) = tasks t @
     [RecordTask sid (be_agent e) (ug_cost (st_totals (totals_of n sid (tr_totals t)))) (st_tool_called (totals_of n sid (tr_totals t)))]"
    using assms by (cases "be_data e") (simp_all add: facts)
  show "length (tr_published (watch_event cfg now b sid e t)) \<le> length (tr_published t) + 1"
    using assms pub [of "be_agent e" _ "t\<lparr>tr_seen := True, tr_totals := ss\<rparr>" for ss] pub [of "be_agent e" _ "t\<lparr>tr_seen := True\<rparr>"]
    by (cases "be_data e") (simp_all add: facts)
qed

lemma watch_event_goes_on:
  assumes "\<not> ends_session cfg e" and "\<not> tr_seen t"
  shows "\<not> tr_seen (watch_event cfg now b sid e t)" and "tasks (watch_event cfg now b sid e t) = tasks t"
    and "tr_published (watch_event cfg now b sid e t) = tr_published t"
    and "ug_cost (st_totals (totals_of n sid (tr_totals (watch_event cfg now b sid e t)))) =
      ug_cost (st_totals (totals_of n sid (tr_totals t))) + sum_list (map se_cost (steps_in [e]))"
    and "st_tool_called (totals_of n sid (tr_totals (watch_event cfg now b sid e t))) =
      (calls_tool (be_data e) \<or> st_tool_called (totals_of n sid (tr_totals t)))"
proof -
  have now: "ug_cost (st_totals (totals_of now sid (tr_totals t))) = ug_cost (st_totals (totals_of n sid (tr_totals t)))"
    "st_tool_called (totals_of now sid (tr_totals t)) = st_tool_called (totals_of n sid (tr_totals t))"
    by (simp_all add: totals_of_def new_totals_def split: option.split)
  note facts = watch_event_def ends_session_def handle_step_session now mark_real_task_def bump_compaction_def Let_def
  show "\<not> tr_seen (watch_event cfg now b sid e t)" using assms by (cases "be_data e") (simp_all add: facts)
  show "tasks (watch_event cfg now b sid e t) = tasks t" using assms by (cases "be_data e") (simp_all add: facts)
  show "tr_published (watch_event cfg now b sid e t) = tr_published t" using assms by (cases "be_data e") (simp_all add: facts)
  show "ug_cost (st_totals (totals_of n sid (tr_totals (watch_event cfg now b sid e t)))) =
      ug_cost (st_totals (totals_of n sid (tr_totals t))) + sum_list (map se_cost (steps_in [e]))"
    using assms by (cases "be_data e") (simp_all add: facts)
  show "st_tool_called (totals_of n sid (tr_totals (watch_event cfg now b sid e t))) =
      (calls_tool (be_data e) \<or> st_tool_called (totals_of n sid (tr_totals t)))"
    using assms by (cases "be_data e") (simp_all add: facts)
qed

text \<open>The task of a session: none before its end, then one with the cost and the tool calls up to there.\<close>

definition session_task :: "string \<Rightarrow> rat \<Rightarrow> bool \<Rightarrow> payload event list \<Rightarrow> payload event list \<Rightarrow> rec_call list" where
  "session_task sid c r before rest =
     (case rest of [] \<Rightarrow> []
      | e # es \<Rightarrow> [RecordTask sid (be_agent e) (c + sum_list (map se_cost (steps_in before))) (r \<or> list_ex (calls_tool \<circ> be_data) before)])"

lemma steps_cost_Cons:
  "sum_list (map se_cost (steps_in [e])) + sum_list (map se_cost (steps_in es)) = sum_list (map se_cost (steps_in (e # es)))"
  by (cases "be_data e") simp_all

lemma session_task_Cons:
  "session_task sid (c + sum_list (map se_cost (steps_in [e]))) (calls_tool (be_data e) \<or> r) before rest = session_task sid c r (e # before) rest"
  by (simp add: session_task_def add.assoc steps_cost_Cons disj_ac del: steps_in.simps split: list.split)

lemma watch_tasks:
  "\<not> tr_seen t \<Longrightarrow> tasks (watch cfg sid es t) = tasks t @
     session_task sid (ug_cost (st_totals (totals_of n sid (tr_totals t)))) (st_tool_called (totals_of n sid (tr_totals t)))
       (takeWhile (Not \<circ> ends_session cfg) (map (snd \<circ> snd) es)) (dropWhile (Not \<circ> ends_session cfg) (map (snd \<circ> snd) es))
   \<and> length (tr_published (watch cfg sid es t)) \<le> length (tr_published t) + 1"
proof (induction es arbitrary: t)
  case Nil
  then show ?case by (simp add: session_task_def)
next
  case (Cons x es)
  obtain now b e where x: "x = (now, b, e)" by (cases x)
  show ?case
  proof (cases "ends_session cfg e")
    case True
    show ?thesis
      using watch_event_ends [OF True Cons.prems, of now b sid] watch_seen [OF watch_event_ends(1) [OF True Cons.prems]] True
      by (simp add: x session_task_def watch_event_ends(2) [OF True Cons.prems, where n = n])
  next
    case False
    note on = watch_event_goes_on [OF False Cons.prems, where now = now and b = b and sid = sid]
    show ?thesis
      using Cons.IH [OF on(1)] False
      by (simp add: x on(2,3) on(4) [where n = n] on(5) [where n = n] session_task_Cons del: steps_in.simps)
  qed
qed

text \<open>C16: A watched session is one task: none is recorded before an event that ends it, then one, with the cost of the
  steps and whether a tool was called before that event; what comes later adds no task, and at most one end is published.\<close>

theorem session_is_one_task:
  "filter is_task (tr_calls (watch cfg sid es new_track)) =
     session_task sid 0 False (takeWhile (Not \<circ> ends_session cfg) (map (snd \<circ> snd) es))
       (dropWhile (Not \<circ> ends_session cfg) (map (snd \<circ> snd) es))
   \<and> length (tr_published (watch cfg sid es new_track)) \<le> 1"
  using watch_tasks [of new_track cfg sid es 0]
  by (simp add: tasks_def new_track_def totals_of_def new_totals_def no_usage_def)

section \<open>Estimates\<close>

definition within_bounds :: "analysis \<Rightarrow> bool" where
  "within_bounds a \<longleftrightarrow> 0 \<le> an_ratio a \<and> an_ratio a \<le> 1 \<and> 0 \<le> an_seconds a \<and> 0 \<le> an_money a"

lemma min_nonneg: "0 \<le> a \<Longrightarrow> 0 \<le> b \<Longrightarrow> 0 \<le> min a (b :: rat)"
  by simp

lemma within_bounds_scaled:
  "0 \<le> q \<Longrightarrow> q \<le> 1 \<Longrightarrow> 0 \<le> h \<Longrightarrow> 0 \<le> d \<Longrightarrow> within_bounds \<lparr>an_ratio = q, an_seconds = q * d, an_money = q * d * h / 3600\<rparr>"
  by (simp add: within_bounds_def)

lemma fallback_within:
  assumes "0 \<le> fst f" and "0 \<le> snd f" and "0 \<le> su_tokens s"
  shows "within_bounds (fallback_analyze f s)"
proof -
  obtain r :: rat where r: "r = min 1 (min 1 (of_int (su_tokens s) / 10000) + min 1 (of_nat (length (su_tools s)) * (2 / 10)) +
      min 1 (of_int (if su_steps s - 1 < 0 then 0 else su_steps s - 1) * (1 / 10)))" by blast
  have "0 \<le> r" unfolding r using assms(3) by (intro min_nonneg add_nonneg_nonneg) simp_all
  moreover have "r \<le> 1" unfolding r by (rule min.cobounded1)
  ultimately have bounds: "0 \<le> (if su_failures s then r * (8 / 10) else r)" "(if su_failures s then r * (8 / 10) else r) \<le> 1"
    by (auto split: if_split)
  show ?thesis
  proof (cases "su_tools s = []")
    case False
    then show ?thesis using assms(1,2)
      unfolding fallback_analyze_def Let_def r [symmetric] by (simp only: if_False) (rule within_bounds_scaled [OF bounds]; simp)
  qed (simp add: fallback_analyze_def within_bounds_def)
qed

lemma llm_within: "llm_analyze ae c s = Inr a \<Longrightarrow> within_bounds a"
  by (auto simp: llm_analyze_def validate_analysis_def within_bounds_def Let_def split: option.splits sum.splits if_splits)

text \<open>Whatever the model answers, an estimate of what a session saved has a ratio between zero and one, and neither time
  nor money below zero, when the configured rate and base and the counted tokens are not negative.\<close>

theorem estimate_bounded:
  assumes "0 \<le> az_hourly c" and "0 \<le> az_base c" and "0 \<le> su_tokens s"
  shows "within_bounds (composite_analyze ae c s)"
  using assms fallback_within [of "new_fallback (az_hourly c) (az_base c)" s]
  by (auto simp: composite_analyze_def new_fallback_def Let_def llm_within split: option.split sum.split)

lemma estimate_bounded_witness:
  "within_bounds (composite_analyze \<lparr>ae_model = Some (\<lambda>p n. Inr (Some ''sure'')), ae_prompt = \<lambda>c s. [], ae_json = \<lambda>t. None\<rparr>
     \<lparr>az_hourly = 0, az_base = 0, az_timeout = 0\<rparr> ((empty_summary ''s'')\<lparr>su_tools := [''kubectl''], su_tokens := 400, su_failures := True\<rparr>))"
  by (rule estimate_bounded) (simp_all add: empty_summary_def)

section \<open>What the code does besides\<close>

definition demo_track :: track_config where
  "demo_track = \<lparr>tc_pricer = \<lparr>cp_catalog = None, cp_resolve = None\<rparr>, tc_terminal = terminal_types [],
     tc_savings = \<lparr>az_hourly = 50, az_base = 0, az_timeout = 0\<rparr>,
     tc_analyzer = \<lparr>ae_model = None, ae_prompt = \<lambda>c s. [], ae_json = \<lambda>t. None\<rparr>\<rparr>"

definition demo_event :: "payload \<Rightarrow> int \<times> payload bus \<times> payload event" where
  "demo_event p = (0, new_bus 1 1 DropEvent 1,
     \<lparr>be_id = [], be_session = ''s'', be_type = payload_type p, be_agent = ''a'', be_time = None, be_data = p\<rparr>)"

definition demo_end :: session_end where
  "demo_end = \<lparr>sn_duration = 0, sn_cost = 0, sn_steps = 0, sn_tools = 0\<rparr>"

definition demo_step :: "rat \<Rightarrow> payload" where
  "demo_step c = StepEnded \<lparr>se_finish = ''stop'', se_cost = c, se_tokens = no_tokens, se_estimated = False\<rparr>"

lemmas demo_defs = demo_track_def demo_event_def demo_end_def demo_step_def terminal_types_def new_track_def watch_event_def
  handle_step_ended_def handle_session_ended_def record_step_def finalize_def build_session_ended_def tell_def mark_real_task_def
  totals_of_def new_totals_def breakdown_def collector_observe_def observe_breakdown_def add_usage_def no_usage_def
  new_prometheus_def

lemma totals_add_up_witness:
  "ug_cost (st_totals (totals_of 0 ''s'' (tr_totals (watch demo_track ''s'' [demo_event (demo_step 1), demo_event (demo_step 2)] new_track)))) = 3"
proof -
  have new: "tr_totals new_track ''s'' = None" and other: "''t'' \<noteq> ''s''" by (simp_all add: new_track_def)
  note up = totals_add_up [OF new refl other, of 0 demo_track "[demo_event (demo_step 1), demo_event (demo_step 2)]"]
  have "ug_cost (st_totals (totals_of 0 ''s'' (tr_totals (watch demo_track ''s'' [demo_event (demo_step 1), demo_event (demo_step 2)] new_track)))) =
      sum_list (map se_cost (steps_in (map (snd \<circ> snd) [demo_event (demo_step 1), demo_event (demo_step 2)])))"
    using up by blast
  then show ?thesis by (simp add: demo_event_def demo_step_def del: watch.simps)
qed

text \<open>The gauge of the running cost holds the last step's cost.\<close>

lemma realtime_cost_is_last_step:
  "pm_realtime (prom_of (watch demo_track ''s'' [demo_event (demo_step 1), demo_event (demo_step 2)] new_track)) (''s'', ''a'') = Some 2"
  by (simp add: demo_defs prom_of_def Let_def)

text \<open>A real end is published once more, by the watcher that received it.\<close>

lemma real_end_published_again:
  "map be_data (tr_published (watch demo_track ''s'' [demo_event (SessionEnded demo_end)] new_track)) = [SessionEnded demo_end]"
  by (simp add: demo_defs Let_def)

text \<open>A session the bus no longer knows has a task and no end.\<close>

lemma unknown_session_not_ended:
  "tr_published (watch demo_track ''s'' [demo_event (ToolCalled ''c'' ''t'' []), demo_event (SessionEnded demo_end)] new_track) = []"
  by (simp add: demo_defs Let_def get_summary_def replay_def new_bus_def)

text \<open>Cached tokens are among the input tokens and charged at both rates.\<close>

lemma cached_tokens_charged_twice:
  "cb_total (cost_breakdown_of \<lparr>co_input = 2, co_output = 8, co_cache_read = 1, co_cache_write = 0\<rparr>
     (se_tokens (step_ended demo_ctx ''gpt'' ''stop''
       (Some \<lparr>us_prompt = 1000000, us_cached = 1000000, us_completion = 0, us_total = 1000000, us_reasoning = 0\<rparr>) None (new_handler None None)))) = 3"
  by (simp add: cost_breakdown_of_def step_ended_def new_handler_def Let_def)

text \<open>No option is one attempt, and no second one.\<close>

lemma no_retry_by_default:
  "\<not> ct_fresh (load_catalog (\<lambda>i d u. if i = 0 then Inl ''timeout'' else Inr Map.empty) None \<lparr>lo_url = [], lo_timeout = 0, lo_retries = 0\<rparr>)"
  by (simp add: load_catalog_def default_url_def default_timeout_def Let_def)

end
