(* ===== verification/OsClient.thy ===== *)
theory OsClient
  imports MemoryEntry "HOL-Library.AList"
begin

text \<open>
  The OpenSearch server as the code sees it through its client library: requests and their answers, the queries the
  code builds, and, as named predicates, what the code relies on of a server. The server is a parameter: a record of
  functions on a state of its own, which may refuse any request. A reference server, which keeps lists of
  documents, shows that the predicates can hold.

  A body is what travels as JSON and is not looked into here; \<open>view\<close> is what the server reads in it.
\<close>

section \<open>Queries\<close>

text \<open>The queries of \<^verbatim>\<open>querydsl\<close> and of the literal bodies of the source.\<close>

datatype os_query =
    MatchAll
  | TermQ string meta
  | TermsQ string "meta list"
  | BoolFilter os_query
  | BoolMust "os_query list"
  | BoolShould "os_query list"
  | MatchQ string string string "string option"
  | MatchText string string
  | KnnQ string "rat list" int

record search_req =
  rq_query :: os_query
  rq_size :: "int option"
  rq_from :: "int option"
  rq_fields :: "string list option"
  rq_newest :: "string option"
  rq_pipeline :: "string option"
  rq_min_score :: "rat option"
  rq_scroll :: "string option"

definition search_for :: "os_query \<Rightarrow> search_req" where
  "search_for q = \<lparr>rq_query = q, rq_size = None, rq_from = None, rq_fields = None, rq_newest = None, rq_pipeline = None,
     rq_min_score = None, rq_scroll = None\<rparr>"

text \<open>Which documents a term-level query query_selects; relevance queries select by the server's scores.\<close>

fun query_selects :: "os_query \<Rightarrow> metadata \<Rightarrow> bool" where
  "query_selects MatchAll m = True"
| "query_selects (TermQ f v) m = (m f = Some v)"
| "query_selects (TermsQ f vs) m = (case m f of None \<Rightarrow> False | Some v \<Rightarrow> v \<in> set vs)"
| "query_selects (BoolFilter q) m = query_selects q m"
| "query_selects (BoolMust qs) m = list_all (\<lambda>q. query_selects q m) qs"
| "query_selects (BoolShould qs) m = list_ex (\<lambda>q. query_selects q m) qs"
| "query_selects q m = True"

section \<open>Requests and answers\<close>

record 'b hit =
  ht_id :: string
  ht_index :: string
  ht_score :: "rat option"
  ht_version :: int
  ht_source :: 'b

text \<open>\<open>Hits\<close> may be nil.\<close>

record 'b search_result =
  sr_scroll :: string
  sr_hits :: "'b hit list option"
  sr_total :: "int option"

definition found :: "'b search_result \<Rightarrow> 'b hit list" where
  "found r = (case sr_hits r of None \<Rightarrow> [] | Some hs \<Rightarrow> hs)"

text \<open>One item of a bulk request, and its part of the answer: the id and the error.\<close>

record 'b bulk_line =
  bl_index :: string
  bl_id :: string
  bl_source :: 'b

record bulk_item =
  bi_id :: string
  bi_error :: "(string \<times> string) option"

record bulk_response =
  br_errors :: bool
  br_items :: "bulk_item option list"

record delete_response =
  dr_deleted :: int
  dr_failures :: "string list"

text \<open>Field types of a mapping, and the mapping a server returns.\<close>

datatype field_type = FText | FKeyword | FDate | FObject | FKnn int | FOther string

datatype mapping_tree = MapNode "(string \<times> mapping_tree) list" | MapFloat rat | MapInt int | MapOther

text \<open>The last two are plain HTTP requests for a search pipeline, answered with a status.\<close>

record ('b, 's) os_client =
  os_exists :: "string \<Rightarrow> 's \<Rightarrow> (string + bool) \<times> 's"
  os_create_index :: "string \<Rightarrow> (string \<times> field_type) list \<Rightarrow> (string \<times> string) list \<Rightarrow> 's \<Rightarrow> (string + unit) \<times> 's"
  os_get_mapping :: "string \<Rightarrow> 's \<Rightarrow> (string + (string \<times> mapping_tree) list) \<times> 's"
  os_put_mapping :: "string \<Rightarrow> (string \<times> field_type) list \<Rightarrow> 's \<Rightarrow> (string + unit) \<times> 's"
  os_search :: "string \<Rightarrow> search_req \<Rightarrow> 's \<Rightarrow> (string + 'b search_result) \<times> 's"
  os_scroll :: "string \<Rightarrow> string \<Rightarrow> 's \<Rightarrow> (string + 'b search_result) \<times> 's"
  os_clear_scroll :: "string list \<Rightarrow> 's \<Rightarrow> 's"
  os_count :: "string \<Rightarrow> 's \<Rightarrow> (string + int) \<times> 's"
  os_bulk :: "string \<Rightarrow> 'b bulk_line list \<Rightarrow> 's \<Rightarrow> (string + bulk_response) \<times> 's"
  os_get :: "string \<Rightarrow> string \<Rightarrow> 's \<Rightarrow> (string + 'b option) \<times> 's"
  os_create :: "string \<Rightarrow> string \<Rightarrow> 'b \<Rightarrow> 's \<Rightarrow> (string + unit) \<times> 's"
  os_put :: "string \<Rightarrow> string \<Rightarrow> 'b \<Rightarrow> 's \<Rightarrow> (string + unit) \<times> 's"
  os_delete :: "string \<Rightarrow> string \<Rightarrow> 's \<Rightarrow> (string + unit) \<times> 's"
  os_delete_by_query :: "string \<Rightarrow> os_query \<Rightarrow> 's \<Rightarrow> (string + delete_response) \<times> 's"
  os_get_pipeline :: "string \<Rightarrow> 's \<Rightarrow> (string + nat) \<times> 's"
  os_put_pipeline :: "string \<Rightarrow> 's \<Rightarrow> (string + nat) \<times> 's"

section \<open>What is relied on\<close>

text \<open>The documents of an index, by id, in some order.\<close>

type_synonym 'b index_docs = "(string \<times> 'b) list"

text \<open>Pages of a scroll, up to the first empty one.\<close>

inductive scroll_pages :: "('b, 's) os_client \<Rightarrow> string \<Rightarrow> 'b search_result \<Rightarrow> 's \<Rightarrow> 'b hit list \<Rightarrow> 's \<Rightarrow> bool" for c keep where
  last_page: "found r = [] \<Longrightarrow> scroll_pages c keep r s [] s"
| next_page: "found r \<noteq> [] \<Longrightarrow> os_scroll c (sr_scroll r) keep s = (Inr r', s') \<Longrightarrow> scroll_pages c keep r' s' hs s2
    \<Longrightarrow> scroll_pages c keep r s (found r @ hs) s2"

text \<open>A search that keeps a scroll gives all the documents its query query_selects, page by page, and changes none; deleting by
  query takes exactly what the query query_selects, unless it reports failures.\<close>

definition scrolls :: "('b, 's) os_client \<Rightarrow> ('b \<Rightarrow> metadata) \<Rightarrow> ('s \<Rightarrow> string \<Rightarrow> 'b index_docs) \<Rightarrow> bool" where
  "scrolls c view docs \<longleftrightarrow> (\<forall>idx req s r s1 keep n.
     rq_scroll req = Some keep \<longrightarrow> rq_size req = Some n \<longrightarrow> 0 < n \<longrightarrow> rq_from req = None \<longrightarrow> os_search c idx req s = (Inr r, s1) \<longrightarrow>
     (\<exists>hs s2. scroll_pages c keep r s1 hs s2
        \<and> map (\<lambda>h. (ht_id h, ht_source h)) hs = filter (\<lambda>d. query_selects (rq_query req) (view (snd d))) (docs s idx)
        \<and> docs s2 = docs s))"

definition deletes :: "('b, 's) os_client \<Rightarrow> ('b \<Rightarrow> metadata) \<Rightarrow> ('s \<Rightarrow> string \<Rightarrow> 'b index_docs) \<Rightarrow> bool" where
  "deletes c view docs \<longleftrightarrow>
     (\<forall>idx q s r s'. os_delete_by_query c idx q s = (Inr r, s') \<longrightarrow> dr_failures r = [] \<longrightarrow>
        docs s' = (docs s)(idx := filter (\<lambda>d. \<not> query_selects q (view (snd d))) (docs s idx)))
   \<and> (\<forall>ids s. docs (os_clear_scroll c ids s) = docs s)"

lemma scrollsD:
  assumes "scrolls c view docs" and "rq_scroll req = Some keep" and "rq_size req = Some n" and "0 < n" and "rq_from req = None"
    and "os_search c idx req s = (Inr r, s1)"
  shows "\<exists>hs s2. scroll_pages c keep r s1 hs s2
    \<and> map (\<lambda>h. (ht_id h, ht_source h)) hs = filter (\<lambda>d. query_selects (rq_query req) (view (snd d))) (docs s idx) \<and> docs s2 = docs s"
  using assms unfolding scrolls_def by blast

section \<open>A reference server\<close>

text \<open>It never refuses; it scrolls in pages of a fixed size.\<close>

record 'b ref_server =
  rs_docs :: "string \<Rightarrow> 'b index_docs"
  rs_left :: "'b hit list"

definition hit_of :: "string \<Rightarrow> string \<times> 'b \<Rightarrow> 'b hit" where
  "hit_of idx d = \<lparr>ht_id = fst d, ht_index = idx, ht_score = None, ht_version = 1, ht_source = snd d\<rparr>"

definition ref_page :: "nat \<Rightarrow> 'b hit list \<Rightarrow> 'b search_result" where
  "ref_page n hs = \<lparr>sr_scroll = ''scroll'', sr_hits = Some (take n hs), sr_total = Some (int (length hs))\<rparr>"

definition ref_search :: "('b \<Rightarrow> metadata) \<Rightarrow> string \<Rightarrow> search_req \<Rightarrow> 'b ref_server \<Rightarrow> (string + 'b search_result) \<times> 'b ref_server" where
  "ref_search view idx req s =
     (let hs = map (hit_of idx) (filter (\<lambda>d. query_selects (rq_query req) (view (snd d))) (rs_docs s idx));
          rest = drop (nat (case rq_from req of None \<Rightarrow> 0 | Some n \<Rightarrow> n)) hs;
          n = nat (case rq_size req of None \<Rightarrow> 10 | Some n \<Rightarrow> n)
      in (Inr \<lparr>sr_scroll = ''scroll'', sr_hits = Some (take n rest), sr_total = Some (int (length hs))\<rparr>, s\<lparr>rs_left := drop n rest\<rparr>))"

definition ref_client :: "('b \<Rightarrow> metadata) \<Rightarrow> ('b, 'b ref_server) os_client" where
  "ref_client view =
     \<lparr>os_exists = \<lambda>idx s. (Inr True, s),
      os_create_index = \<lambda>idx p t s. (Inr (), s),
      os_get_mapping = \<lambda>idx s. (Inr [], s),
      os_put_mapping = \<lambda>idx p s. (Inr (), s),
      os_search = ref_search view,
      os_scroll = \<lambda>i keep s. (Inr (ref_page 2 (rs_left s)), s\<lparr>rs_left := drop 2 (rs_left s)\<rparr>),
      os_clear_scroll = \<lambda>ids s. s,
      os_count = \<lambda>idx s. (Inr (int (length (rs_docs s idx))), s),
      os_bulk = \<lambda>idx ls s. (Inr \<lparr>br_errors = False, br_items = map (\<lambda>l. Some \<lparr>bi_id = bl_id l, bi_error = None\<rparr>) ls\<rparr>,
        s\<lparr>rs_docs := fold (\<lambda>l ds. ds(bl_index l := AList.update (bl_id l) (bl_source l) (ds (bl_index l)))) ls (rs_docs s)\<rparr>),
      os_get = \<lambda>idx i s. (Inr (map_of (rs_docs s idx) i), s),
      os_create = \<lambda>idx i b s. (if map_of (rs_docs s idx) i = None
        then (Inr (), s\<lparr>rs_docs := (rs_docs s)(idx := AList.update i b (rs_docs s idx))\<rparr>) else (Inl ''conflict'', s)),
      os_put = \<lambda>idx i b s. (Inr (), s\<lparr>rs_docs := (rs_docs s)(idx := AList.update i b (rs_docs s idx))\<rparr>),
      os_delete = \<lambda>idx i s. (if map_of (rs_docs s idx) i = None then (Inl ''not found'', s)
        else (Inr (), s\<lparr>rs_docs := (rs_docs s)(idx := AList.delete i (rs_docs s idx))\<rparr>)),
      os_delete_by_query = \<lambda>idx q s.
        (Inr \<lparr>dr_deleted = int (length (filter (\<lambda>d. query_selects q (view (snd d))) (rs_docs s idx))), dr_failures = []\<rparr>,
         s\<lparr>rs_docs := (rs_docs s)(idx := filter (\<lambda>d. \<not> query_selects q (view (snd d))) (rs_docs s idx))\<rparr>),
      os_get_pipeline = \<lambda>n s. (Inr 404, s),
      os_put_pipeline = \<lambda>n s. (Inr 200, s)\<rparr>"

lemma ref_scroll_pages:
  "\<exists>s2. scroll_pages (ref_client view) keep (ref_page 2 hs) (s\<lparr>rs_left := drop 2 hs\<rparr>) hs s2 \<and> rs_docs s2 = rs_docs s"
proof (induction hs arbitrary: s rule: measure_induct_rule [of length])
  case (less hs)
  show ?case
  proof (cases "hs = []")
    case True
    then show ?thesis by (intro exI [of _ "s\<lparr>rs_left := []\<rparr>"]) (simp add: last_page ref_page_def found_def)
  next
    case False
    let ?s = "s\<lparr>rs_left := drop 2 hs\<rparr>"
    obtain s2 where s2: "scroll_pages (ref_client view) keep (ref_page 2 (drop 2 hs)) (?s\<lparr>rs_left := drop 2 (drop 2 hs)\<rparr>) (drop 2 hs) s2"
      "rs_docs s2 = rs_docs s"
      using less.IH [of "drop 2 hs" ?s] False by auto
    have "scroll_pages (ref_client view) keep (ref_page 2 hs) ?s (found (ref_page 2 hs) @ drop 2 hs) s2"
      by (rule next_page [OF _ _ s2(1)]) (use False in \<open>simp_all add: ref_page_def found_def ref_client_def\<close>)
    then show ?thesis using s2(2) by (auto simp: ref_page_def found_def)
  qed
qed

lemma ref_scrolls: "scrolls (ref_client view) (view :: 'b \<Rightarrow> metadata) rs_docs"
  unfolding scrolls_def
proof (intro allI impI)
  fix idx :: string and req :: search_req and s s1 :: "'b ref_server" and r :: "'b search_result" and keep :: string and n :: int
  assume a: "rq_scroll req = Some keep" "rq_size req = Some n" "0 < n" "rq_from req = None"
    "os_search (ref_client view) idx req s = (Inr r, s1)"
  let ?ds = "filter (\<lambda>d. query_selects (rq_query req) (view (snd d))) (rs_docs s idx)"
  let ?hs = "drop (nat (case rq_from req of None \<Rightarrow> 0 | Some m \<Rightarrow> m)) (map (hit_of idx) ?ds)"
  have r: "r = \<lparr>sr_scroll = ''scroll'', sr_hits = Some (take (nat n) ?hs), sr_total = Some (int (length ?ds))\<rparr>"
    and s1: "s1 = s\<lparr>rs_left := drop (nat n) ?hs\<rparr>" and "rs_docs s1 = rs_docs s"
    using a(2,5) by (auto simp: ref_client_def ref_search_def Let_def)
  have "\<exists>s2. scroll_pages (ref_client view) keep r s1 ?hs s2 \<and> rs_docs s2 = rs_docs s"
  proof (cases "?hs = []")
    case True
    then show ?thesis using r s1 by (intro exI [of _ s1]) (simp add: last_page found_def)
  next
    case False
    obtain s2 where s2: "scroll_pages (ref_client view) keep (ref_page 2 (rs_left s1)) (s1\<lparr>rs_left := drop 2 (rs_left s1)\<rparr>) (rs_left s1) s2"
      "rs_docs s2 = rs_docs s1" using ref_scroll_pages by blast
    have "scroll_pages (ref_client view) keep r s1 (found r @ rs_left s1) s2"
      by (rule next_page [OF _ _ s2(1)]) (use False a(3) in \<open>simp_all add: r found_def ref_client_def\<close>)
    moreover have "found r @ rs_left s1 = ?hs" by (simp add: r s1 found_def del: drop_drop)
    ultimately show ?thesis using s2(2) s1 by auto
  qed
  moreover have "map (\<lambda>h. (ht_id h, ht_source h)) ?hs = ?ds" using a(4) by (simp add: hit_of_def comp_def)
  ultimately show "\<exists>hs s2. scroll_pages (ref_client view) keep r s1 hs s2
      \<and> map (\<lambda>h. (ht_id h, ht_source h)) hs = ?ds \<and> rs_docs s2 = rs_docs s" by blast
qed

lemma ref_deletes: "deletes (ref_client view) view rs_docs"
  by (auto simp: deletes_def ref_client_def)

end
