(* ===== verification/OsMemory.thy ===== *)
theory OsMemory
  imports OsClient Session
begin

text \<open>
  The conversations of \<^verbatim>\<open>components/memory/opensearch/opensearch.go\<close>: one document per conversation, written
  whole at every append. As for the file backend the objects are shared with their callers, so they live in a heap
  and a handle is an index. The coding of documents as JSON is \<open>conv_codec\<close>; the time of a write is a parameter of the
  state.
\<close>

section \<open>State\<close>

record conv_doc =
  cd_user :: string
  cd_conv :: string
  cd_messages :: "message list option"
  cd_activities :: "string list option"
  cd_updated :: string

text \<open>\<open>dec_id\<close> reads the conversation id of a search hit.\<close>

record 'b conv_codec =
  cc_enc :: "conv_doc \<Rightarrow> 'b"
  cc_dec :: "'b \<Rightarrow> conv_doc option"
  cc_dec_id :: "'b \<Rightarrow> string option"

record os_conv =
  oz_user :: string
  oz_id :: string
  oz_messages :: "message list"
  oz_activities :: "string list"
  oz_updated :: string
  oz_max_size :: int
  oz_max_tokens :: int

record os_mem_config =
  mc_urls :: "string list"
  mc_index :: string
  mc_max_size :: int
  mc_max_tokens :: int

record 's os_memory =
  om_index :: string
  om_max_size :: int
  om_max_tokens :: int
  om_convs :: "string \<Rightarrow> (string \<Rightarrow> nat option) option"
  om_heap :: "os_conv list"
  om_server :: 's
  om_now :: string

definition document_id :: "string \<Rightarrow> string \<Rightarrow> string" where
  "document_id user cid = user @ '':'' @ cid"

definition to_doc :: "string \<Rightarrow> os_conv \<Rightarrow> conv_doc" where
  "to_doc now c = \<lparr>cd_user = oz_user c, cd_conv = oz_id c, cd_messages = Some (oz_messages c), cd_activities = Some (oz_activities c), cd_updated = now\<rparr>"

definition new_conversation :: "'s os_memory \<Rightarrow> string \<Rightarrow> string \<Rightarrow> message list \<Rightarrow> os_conv" where
  "new_conversation m user cid ms =
     \<lparr>oz_user = user, oz_id = cid, oz_messages = ms, oz_activities = [], oz_updated = [], oz_max_size = om_max_size m, oz_max_tokens = om_max_tokens m\<rparr>"

definition conv_properties :: "(string \<times> field_type) list" where
  "conv_properties = [(''userId'', FKeyword), (''conversationId'', FKeyword), (''messages'', FObject), (''activities'', FObject), (''updatedAt'', FDate)]"

definition create_conv_index :: "('b, 's) os_client \<Rightarrow> string \<Rightarrow> 's \<Rightarrow> (string + unit) \<times> 's" where
  "create_conv_index c idx s =
     os_create_index c idx conv_properties [(''number_of_shards'', ''1''), (''index.auto_expand_replicas'', ''0-2'')] s"

definition new_os_memory ::
    "string + ('b, 's) os_client \<Rightarrow> os_mem_config \<Rightarrow> string \<Rightarrow> 's \<Rightarrow> (string + 's os_memory) \<times> 's" where
  "new_os_memory connect cfg now s =
     (if mc_urls cfg = [] \<or> mc_max_size cfg < 0 \<or> mc_max_tokens cfg < 0 then (Inl ''invalid'', s)
      else
        let idx = (if mc_index cfg = [] then ''eino_memory'' else mc_index cfg);
            made = (\<lambda>s1. \<lparr>om_index = idx, om_max_size = mc_max_size cfg, om_max_tokens = mc_max_tokens cfg, om_convs = Map.empty, om_heap = [],
                        om_server = s1, om_now = now\<rparr>)
        in case connect of
          Inl e \<Rightarrow> (Inl e, s)
        | Inr c \<Rightarrow>
            (case os_exists c idx s of
               (Inl e, s1) \<Rightarrow> (Inl e, s1)
             | (Inr True, s1) \<Rightarrow> (Inr (made s1), s1)
             | (Inr False, s1) \<Rightarrow>
                 (case create_conv_index c idx s1 of
                    (Inl e, s2) \<Rightarrow> (Inl e, s2)
                  | (Inr _, s2) \<Rightarrow> (Inr (made s2), s2))))"

section \<open>Conversations\<close>

definition with_user_map :: "string \<Rightarrow> 's os_memory \<Rightarrow> 's os_memory" where
  "with_user_map user m = (case om_convs m user of Some _ \<Rightarrow> m | None \<Rightarrow> m\<lparr>om_convs := (om_convs m)(user \<mapsto> Map.empty)\<rparr>)"

definition add_conv :: "string \<Rightarrow> string \<Rightarrow> os_conv \<Rightarrow> 's os_memory \<Rightarrow> nat \<times> 's os_memory" where
  "add_conv user cid c m =
     (length (om_heap m), m\<lparr>om_heap := om_heap m @ [c], om_convs := (om_convs m)(user \<mapsto> (the (om_convs m user))(cid \<mapsto> length (om_heap m)))\<rparr>)"

text \<open>What a stored document makes of a conversation.\<close>

definition filled :: "conv_doc \<Rightarrow> os_conv \<Rightarrow> os_conv" where
  "filled d c =
     c\<lparr>oz_messages := (case cd_messages d of None \<Rightarrow> [] | Some ms \<Rightarrow> ms), oz_updated := cd_updated d,
       oz_activities := (case cd_activities d of None \<Rightarrow> oz_activities c | Some as \<Rightarrow> as)\<rparr>"

definition os_get_conversation ::
    "('b, 's) os_client \<Rightarrow> 'b conv_codec \<Rightarrow> 's os_memory \<Rightarrow> string \<Rightarrow> string \<Rightarrow> bool \<Rightarrow> (mem_error + nat) \<times> 's os_memory" where
  "os_get_conversation c cc m0 user cid create =
     (let m = with_user_map user m0 in
      case the (om_convs m user) cid of
        Some h \<Rightarrow> (Inr h, m)
      | None \<Rightarrow>
          (case os_get c (om_index m) (document_id user cid) (om_server m) of
             (Inl e, s1) \<Rightarrow> (Inl (BackendError e), m\<lparr>om_server := s1\<rparr>)
           | (Inr (Some b), s1) \<Rightarrow>
               (case cc_dec cc b of
                  None \<Rightarrow> (Inl UnmarshalError, m\<lparr>om_server := s1\<rparr>)
                | Some d \<Rightarrow>
                    (case add_conv user cid (filled d (new_conversation m user cid [])) (m\<lparr>om_server := s1\<rparr>) of (h, m1) \<Rightarrow> (Inr h, m1)))
           | (Inr None, s1) \<Rightarrow>
               if \<not> create then (Inl ConversationNotFound, m\<lparr>om_server := s1\<rparr>)
               else
                 let cv = new_conversation m user cid [] in
                 (case os_create c (om_index m) (document_id user cid) (cc_enc cc (to_doc (om_now m) cv)) s1 of
                    (Inl e, s2) \<Rightarrow> (Inl (BackendError e), m\<lparr>om_server := s2\<rparr>)
                  | (Inr _, s2) \<Rightarrow> (case add_conv user cid cv (m\<lparr>om_server := s2\<rparr>) of (h, m1) \<Rightarrow> (Inr h, m1)))))"

definition save_conv :: "('b, 's) os_client \<Rightarrow> 'b conv_codec \<Rightarrow> 's os_memory \<Rightarrow> nat \<Rightarrow> (mem_error + unit) \<times> 's os_memory" where
  "save_conv c cc m h =
     (let cv = om_heap m ! h in
      case os_put c (om_index m) (document_id (oz_user cv) (oz_id cv)) (cc_enc cc (to_doc (om_now m) cv)) (om_server m) of
        (Inl e, s1) \<Rightarrow> (Inl (BackendError e), m\<lparr>om_server := s1\<rparr>)
      | (Inr _, s1) \<Rightarrow> (Inr (), m\<lparr>om_server := s1\<rparr>))"

text \<open>Errors of the write are dropped.\<close>

definition os_append :: "('b, 's) os_client \<Rightarrow> 'b conv_codec \<Rightarrow> 's os_memory \<Rightarrow> nat \<Rightarrow> message \<Rightarrow> 's os_memory" where
  "os_append c cc m h msg =
     (let cv = om_heap m ! h in
      snd (save_conv c cc (m\<lparr>om_heap := (om_heap m)[h := cv\<lparr>oz_messages := oz_messages cv @ [msg]\<rparr>]\<rparr>) h))"

definition os_append_summary :: "('b, 's) os_client \<Rightarrow> 'b conv_codec \<Rightarrow> 's os_memory \<Rightarrow> nat \<Rightarrow> message \<Rightarrow> 's os_memory" where
  "os_append_summary c cc m h msg = os_append c cc m h (mark_summary msg)"

definition os_full :: "'s os_memory \<Rightarrow> nat \<Rightarrow> message list" where
  "os_full m h = oz_messages (om_heap m ! h)"

definition os_get_messages :: "'s os_memory \<Rightarrow> nat \<Rightarrow> message list" where
  "os_get_messages m h =
     (let cv = om_heap m ! h; n = int (length (oz_messages cv)) in
      if 0 < oz_max_size cv \<and> oz_max_size cv < n then drop (nat (n - oz_max_size cv)) (oz_messages cv) else oz_messages cv)"

definition os_last_summary_index :: "'s os_memory \<Rightarrow> nat \<Rightarrow> nat option" where
  "os_last_summary_index m h = last_summary_index (os_full m h)"

definition os_get_window :: "(message list \<Rightarrow> int) \<Rightarrow> 's os_memory \<Rightarrow> nat \<Rightarrow> int \<Rightarrow> message list" where
  "os_get_window count m h budget = select_window (os_full m h) count budget (oz_max_tokens (om_heap m ! h))"

definition os_count_tokens :: "(message list \<Rightarrow> int) \<Rightarrow> 's os_memory \<Rightarrow> nat \<Rightarrow> int" where
  "os_count_tokens count m h = count (os_get_window count m h 0)"

definition os_set_activities :: "('b, 's) os_client \<Rightarrow> 'b conv_codec \<Rightarrow> 's os_memory \<Rightarrow> nat \<Rightarrow> string list \<Rightarrow> 's os_memory" where
  "os_set_activities c cc m h raw =
     snd (save_conv c cc (m\<lparr>om_heap := (om_heap m)[h := (om_heap m ! h)\<lparr>oz_activities := raw\<rparr>]\<rparr>) h)"

definition os_load :: "('b, 's) os_client \<Rightarrow> 'b conv_codec \<Rightarrow> 's os_memory \<Rightarrow> nat \<Rightarrow> (mem_error + unit) \<times> 's os_memory" where
  "os_load c cc m h =
     (let cv = om_heap m ! h in
      case os_get c (om_index m) (document_id (oz_user cv) (oz_id cv)) (om_server m) of
        (Inl e, s1) \<Rightarrow> (Inl (BackendError e), m\<lparr>om_server := s1\<rparr>)
      | (Inr None, s1) \<Rightarrow> (Inl ConversationNotFound, m\<lparr>om_server := s1\<rparr>)
      | (Inr (Some b), s1) \<Rightarrow>
          (case cc_dec cc b of
             None \<Rightarrow> (Inl UnmarshalError, m\<lparr>om_server := s1\<rparr>)
           | Some d \<Rightarrow> (Inr (), m\<lparr>om_server := s1, om_heap := (om_heap m)[h := filled d cv]\<rparr>)))"

definition os_delete_conversation :: "('b, 's) os_client \<Rightarrow> 's os_memory \<Rightarrow> string \<Rightarrow> string \<Rightarrow> (mem_error + unit) \<times> 's os_memory" where
  "os_delete_conversation c m user cid =
     (case os_delete c (om_index m) (document_id user cid) (om_server m) of
        (Inl e, s1) \<Rightarrow> (Inl (BackendError e), m\<lparr>om_server := s1\<rparr>)
      | (Inr _, s1) \<Rightarrow>
          (Inr (), m\<lparr>om_server := s1,
             om_convs := (case om_convs m user of None \<Rightarrow> om_convs m | Some u \<Rightarrow> (om_convs m)(user \<mapsto> u(cid := None)))\<rparr>))"

section \<open>Listing\<close>

definition page_size :: int where "page_size = 10000"

definition ids_request :: "string \<Rightarrow> int \<Rightarrow> search_req" where
  "ids_request user from =
     (search_for (TermQ ''userId'' (MStr user)))\<lparr>rq_fields := Some [''conversationId''], rq_from := Some from, rq_size := Some page_size\<rparr>"

fun hit_ids :: "'b conv_codec \<Rightarrow> 'b hit list \<Rightarrow> string list option" where
  "hit_ids cc [] = Some []"
| "hit_ids cc (h # hs) =
     (case cc_dec_id cc (ht_source h) of None \<Rightarrow> None | Some i \<Rightarrow> map_option (\<lambda>is. i # is) (hit_ids cc hs))"

text \<open>The loop over pages, which need not end when the server's total grows; nil \<open>Hits\<close> is a panic, \<open>Some\<close> of an error here.\<close>

partial_function (option) list_pages ::
    "('b, 's) os_client \<Rightarrow> 'b conv_codec \<Rightarrow> string \<Rightarrow> string \<Rightarrow> int \<Rightarrow> string list \<Rightarrow> 's \<Rightarrow> ((mem_error + string list) \<times> 's) option" where
  "list_pages c cc idx user from acc s =
     (case os_search c idx (ids_request user from) s of (res, s1) \<Rightarrow>
        (case res of
           Inl e \<Rightarrow> Some (Inl (BackendError e), s1)
         | Inr r \<Rightarrow>
             (case hit_ids cc (found r) of
                None \<Rightarrow> Some (Inl UnmarshalError, s1)
              | Some ids \<Rightarrow>
                  if (case sr_total r of None \<Rightarrow> True | Some n \<Rightarrow> n \<le> from + int (length (found r)))
                  then Some (Inr (acc @ ids), s1)
                  else list_pages c cc idx user (from + page_size) (acc @ ids) s1)))"

definition os_list_conversations ::
    "('b, 's) os_client \<Rightarrow> 'b conv_codec \<Rightarrow> 's os_memory \<Rightarrow> string \<Rightarrow> ((mem_error + string list) \<times> 's os_memory) option" where
  "os_list_conversations c cc m user =
     map_option (\<lambda>(r, s1). (r, m\<lparr>om_server := s1\<rparr>)) (list_pages c cc (om_index m) user 0 [] (om_server m))"

definition os_mem_ops :: "('b, 's) os_client \<Rightarrow> 'b conv_codec \<Rightarrow> (message list \<Rightarrow> int) \<Rightarrow> ('s os_memory, nat) store_ops" where
  "os_mem_ops c cc count =
     \<lparr>op_get = os_get_conversation c cc, op_append = os_append c cc, op_append_summary = os_append_summary c cc,
      op_window = os_get_window count, op_delete = os_delete_conversation c\<rparr>"

section \<open>The contract of a store\<close>

definition om_wf :: "'s os_memory \<Rightarrow> bool" where
  "om_wf m \<longleftrightarrow> (\<forall>user u cid h. om_convs m user = Some u \<longrightarrow> u cid = Some h \<longrightarrow> h < length (om_heap m))"

definition om_valid :: "'s os_memory \<Rightarrow> nat \<Rightarrow> bool" where
  "om_valid m h \<longleftrightarrow> h < length (om_heap m)"

lemma with_user_map_props:
  "om_wf m \<Longrightarrow> om_wf (with_user_map user m)" "om_heap (with_user_map user m) = om_heap m" "om_server (with_user_map user m) = om_server m"
  "om_convs (with_user_map user m) user \<noteq> None" "om_index (with_user_map user m) = om_index m"
  by (auto simp: with_user_map_def om_wf_def split: option.split)

lemma om_wf_server [simp]: "om_wf (m\<lparr>om_server := s\<rparr>) = om_wf m"
  by (simp add: om_wf_def)

lemma add_conv_wf:
  assumes "om_wf m" and "om_convs m user \<noteq> None" and "add_conv user cid c m = (h, m')"
  shows "om_wf m' \<and> om_valid m' h"
  using assms by (auto simp: add_conv_def om_wf_def om_valid_def split: if_splits) (auto intro: less_SucI)

lemma save_conv_heap [simp]: "om_heap (snd (save_conv c cc m h)) = om_heap m" "om_convs (snd (save_conv c cc m h)) = om_convs m"
  by (auto simp: save_conv_def Let_def split: prod.split sum.split)

lemma os_get_conversation_wf:
  assumes "om_wf m" and "os_get_conversation c cc m user cid create = (r, m')"
  shows "om_wf m' \<and> (\<forall>h. r = Inr h \<longrightarrow> om_valid m' h)"
proof -
  let ?m = "with_user_map user m"
  have wf: "om_wf ?m" by (rule with_user_map_props(1) [OF assms(1)])
  obtain u where u: "om_convs ?m user = Some u" using with_user_map_props(4) by blast
  show ?thesis
  proof (cases "u cid")
    case (Some h)
    then show ?thesis using assms(2) wf u by (auto simp: os_get_conversation_def om_wf_def om_valid_def)
  next
    case None
    then show ?thesis
      using assms(2) wf u add_conv_wf [of "?m\<lparr>om_server := s\<rparr>" user cid cv for s cv]
      by (auto simp: os_get_conversation_def Let_def split: prod.splits sum.splits option.splits if_splits)
  qed
qed

lemma os_get_conversation_keeps:
  assumes "os_get_conversation c cc m user cid create = (r, m')"
  shows "\<exists>cs. om_heap m' = om_heap m @ cs"
  using assms
  by (auto simp: os_get_conversation_def add_conv_def with_user_map_props Let_def split: prod.splits sum.splits option.splits if_splits)

interpretation os_conversations: conversation_store "os_mem_ops c cc count" om_wf om_valid os_full for c cc count
proof (unfold_locales, goal_cases)
  case (1 s user cid create r s')
  then show ?case using os_get_conversation_wf by (simp add: os_mem_ops_def)
next
  case (2 s user cid create r s' h')
  then have "os_get_conversation c cc s user cid create = (r, s')" by (simp add: os_mem_ops_def)
  from os_get_conversation_keeps [OF this] 2 show ?case by (auto simp: om_valid_def os_full_def nth_append)
next
  case (9 s h ms m b)
  then show ?case by (simp add: os_mem_ops_def os_get_window_def select_window_at_summary)
qed (auto simp: os_mem_ops_def om_wf_def om_valid_def os_append_def os_append_summary_def os_full_def Let_def)

end
