(* ===== verification/OsIndexer.thy ===== *)
theory OsIndexer
  imports OsClient GoText
begin

text \<open>
  The OpenSearch indexer, \<^verbatim>\<open>components/indexer/opensearch\<close>: storing documents in batches with their vectors, and the
  reconciliation of an index with the sources that still exist. A document's vector and metadata keys are values
  of its metadata; marshalling and unmarshalling of bodies are the record \<open>json_codec\<close>.
\<close>

section \<open>Configuration\<close>

record 'b json_codec =
  jc_enc :: "metadata \<Rightarrow> 'b option"
  jc_dec :: "'b \<Rightarrow> metadata option"

record index_create =
  ic_properties :: "(string \<times> field_type) list"
  ic_settings :: "(string \<times> string) list"

type_synonym embedder = "string list \<Rightarrow> string + rat list list"

record indexer_config =
  ix_urls :: "string list"
  ix_index :: string
  ix_batch :: int
  ix_mapper :: "(document \<Rightarrow> string + metadata) option"
  ix_embedding :: "embedder option"
  ix_vector :: string
  ix_content :: string
  ix_create :: "index_create option"

datatype index_error = BadConfig string | NoClient string | ExistsFailed string | CreateFailed string | MappingFailed string
  | NilDocument | MapFailed string | MarshalFailed | EmbedFailed string | VectorCount nat nat
  | BulkFailed string | BulkItems "(nat \<times> string \<times> string \<times> string) list"

text \<open>\<open>DenseVector\<close>, where \<open>WithDenseVector\<close> puts it.\<close>

definition dense_key :: string where "dense_key = ''_dense_vector''"

definition dense_vector :: "document \<Rightarrow> rat list option" where
  "dense_vector d = (case dc_meta d dense_key of Some (MVec v) \<Rightarrow> Some v | _ \<Rightarrow> None)"

definition default_document_to_fields :: "string \<Rightarrow> document \<Rightarrow> string + metadata" where
  "default_document_to_fields content_field d =
     Inr ([content_field \<mapsto> MStr (dc_content d)] ++ (\<lambda>k. if prefix ''_'' k then None else dc_meta d k))"

definition ensure_index :: "('b, 's) os_client \<Rightarrow> string \<Rightarrow> index_create \<Rightarrow> 's \<Rightarrow> (index_error + unit) \<times> 's" where
  "ensure_index c idx ic s =
     (case os_exists c idx s of
        (Inl e, s1) \<Rightarrow> (Inl (ExistsFailed e), s1)
      | (Inr False, s1) \<Rightarrow>
          (case os_create_index c idx (ic_properties ic) (ic_settings ic) s1 of
             (Inl e, s2) \<Rightarrow> (Inl (CreateFailed e), s2)
           | (Inr _, s2) \<Rightarrow> (Inr (), s2))
      | (Inr True, s1) \<Rightarrow>
          if ic_properties ic = [] then (Inr (), s1)
          else (case os_put_mapping c idx (ic_properties ic) s1 of
             (Inl e, s2) \<Rightarrow> (Inl (MappingFailed e), s2)
           | (Inr _, s2) \<Rightarrow> (Inr (), s2)))"

definition ensure_mappings :: "('b, 's) os_client \<Rightarrow> string \<Rightarrow> (string \<times> field_type) list \<Rightarrow> 's \<Rightarrow> (index_error + unit) \<times> 's" where
  "ensure_mappings c idx props s =
     (case os_exists c idx s of
        (Inl e, s1) \<Rightarrow> (Inl (ExistsFailed e), s1)
      | (Inr False, s1) \<Rightarrow> (Inr (), s1)
      | (Inr True, s1) \<Rightarrow>
          (case os_put_mapping c idx props s1 of
             (Inl e, s2) \<Rightarrow> (Inl (MappingFailed e), s2)
           | (Inr _, s2) \<Rightarrow> (Inr (), s2)))"

definition with_defaults :: "indexer_config \<Rightarrow> indexer_config" where
  "with_defaults cfg =
     (let c1 = (if ix_batch cfg = 0 then cfg\<lparr>ix_batch := 100\<rparr> else cfg);
          c2 = (if ix_vector c1 = [] then c1\<lparr>ix_vector := ''vector''\<rparr> else c1)
      in if ix_content c2 = [] then c2\<lparr>ix_content := ''content''\<rparr> else c2)"

definition valid_indexer :: "indexer_config \<Rightarrow> bool" where
  "valid_indexer cfg \<longleftrightarrow> ix_urls cfg \<noteq> [] \<and> [] \<notin> set (ix_urls cfg) \<and> ix_index cfg \<noteq> [] \<and> (ix_batch cfg = 0 \<or> 1 \<le> ix_batch cfg)"

text \<open>The client comes from the connection, which may fail.\<close>

definition new_indexer ::
    "string + ('b, 's) os_client \<Rightarrow> indexer_config \<Rightarrow> 's \<Rightarrow> (index_error + ('b, 's) os_client \<times> indexer_config) \<times> 's" where
  "new_indexer connect cfg0 s =
     (let cfg = with_defaults cfg0 in
      if \<not> valid_indexer cfg then (Inl (BadConfig ''invalid''), s)
      else case connect of
          Inl e \<Rightarrow> (Inl (NoClient e), s)
        | Inr c \<Rightarrow>
            let ready = cfg\<lparr>ix_mapper := Some (case ix_mapper cfg of None \<Rightarrow> default_document_to_fields (ix_content cfg) | Some f \<Rightarrow> f)\<rparr>
            in (case ix_create cfg of
                  None \<Rightarrow> (Inr (c, ready), s)
                | Some ic \<Rightarrow> (case ensure_index c (ix_index cfg) ic s of
                    (Inl e, s1) \<Rightarrow> (Inl e, s1)
                  | (Inr _, s1) \<Rightarrow> (Inr (c, ready), s1))))"

section \<open>Storing\<close>

text \<open>The vectors of a batch: what documents carry, and for the others what the embedder returns in their order.\<close>

fun fill_vectors :: "rat list option list \<Rightarrow> rat list list \<Rightarrow> rat list option list" where
  "fill_vectors [] es = []"
| "fill_vectors (Some v # vs) es = Some v # fill_vectors vs es"
| "fill_vectors (None # vs) [] = None # fill_vectors vs []"
| "fill_vectors (None # vs) (e # es) = Some e # fill_vectors vs es"

definition embed_batch :: "embedder option \<Rightarrow> document list \<Rightarrow> index_error + rat list option list option" where
  "embed_batch emb batch =
     (let vectors = map dense_vector batch;
          pending = (case emb of None \<Rightarrow> [] | Some _ \<Rightarrow> map dc_content (filter (\<lambda>d. dense_vector d = None) batch))
      in if pending = [] then Inr (if list_ex (\<lambda>v. v \<noteq> None) vectors then Some vectors else None)
         else case emb of None \<Rightarrow> Inr None
         | Some f \<Rightarrow>
             (case f pending of
                Inl e \<Rightarrow> Inl (EmbedFailed e)
              | Inr es \<Rightarrow>
                  if length es \<noteq> length pending then Inl (VectorCount (length es) (length pending))
                  else Inr (Some (fill_vectors vectors es))))"

definition bulk_item_of :: "'b json_codec \<Rightarrow> indexer_config \<Rightarrow> string \<Rightarrow> document \<Rightarrow> rat list option \<Rightarrow> index_error + 'b bulk_line" where
  "bulk_item_of jc cfg idx d v =
     (case (case ix_mapper cfg of None \<Rightarrow> default_document_to_fields (ix_content cfg) d | Some f \<Rightarrow> f d) of
        Inl e \<Rightarrow> Inl (MapFailed e)
      | Inr m \<Rightarrow>
          (case jc_enc jc (case v of None \<Rightarrow> m | Some x \<Rightarrow> m(ix_vector cfg \<mapsto> MVec x)) of
             None \<Rightarrow> Inl MarshalFailed
           | Some b \<Rightarrow> Inr \<lparr>bl_index = idx, bl_id = dc_id d, bl_source = b\<rparr>))"

fun bulk_lines :: "'b json_codec \<Rightarrow> indexer_config \<Rightarrow> string \<Rightarrow> (document \<times> rat list option) list \<Rightarrow> index_error + 'b bulk_line list" where
  "bulk_lines jc cfg idx [] = Inr []"
| "bulk_lines jc cfg idx ((d, v) # dvs) =
     bind_res (bulk_item_of jc cfg idx d v) (\<lambda>l. bind_res (bulk_lines jc cfg idx dvs) (\<lambda>ls. Inr (l # ls)))"

text \<open>Ids the server made are filled in by position.\<close>

fun apply_bulk_results :: "string list \<Rightarrow> bulk_item option list \<Rightarrow> string list" where
  "apply_bulk_results [] items = []"
| "apply_bulk_results (i # ids) [] = i # ids"
| "apply_bulk_results (i # ids) (it # items) =
     (if i \<noteq> [] then i else case it of None \<Rightarrow> i | Some x \<Rightarrow> bi_id x) # apply_bulk_results ids items"

definition bulk_error :: "bulk_response \<Rightarrow> index_error" where
  "bulk_error r =
     BulkItems (concat (map (\<lambda>(pos, it). case it of
         None \<Rightarrow> [] | Some x \<Rightarrow> (case bi_error x of None \<Rightarrow> [] | Some (t, why) \<Rightarrow> [(pos, bi_id x, t, why)]))
       (enumerate 0 (br_items r))))"

text \<open>A batch; nil documents are refused before anything is sent.\<close>

definition store_batch ::
    "('b, 's) os_client \<Rightarrow> 'b json_codec \<Rightarrow> indexer_config \<Rightarrow> string \<Rightarrow> embedder option \<Rightarrow> document option list \<Rightarrow> 's
      \<Rightarrow> (index_error + string list) \<times> 's" where
  "store_batch c jc cfg idx emb batch s =
     (if None \<in> set batch then (Inl NilDocument, s)
      else
        let ds = map the batch; ids = map dc_id ds in
        case bind_res (embed_batch emb ds) (\<lambda>vs. bulk_lines jc cfg idx (zip ds (case vs of None \<Rightarrow> map (\<lambda>_. None) ds | Some vs \<Rightarrow> vs))) of
          Inl e \<Rightarrow> (Inl e, s)
        | Inr ls \<Rightarrow>
            if ls = [] then (Inr ids, s)
            else (case os_bulk c idx ls s of
                (Inl e, s1) \<Rightarrow> (Inl (BulkFailed e), s1)
              | (Inr r, s1) \<Rightarrow>
                  if br_errors r then (Inl (bulk_error r), s1) else (Inr (apply_bulk_results ids (br_items r)), s1)))"

text \<open>A size below 1, which the constructor refuses, stores nothing here.\<close>

function bulk_store ::
    "('b, 's) os_client \<Rightarrow> 'b json_codec \<Rightarrow> indexer_config \<Rightarrow> string \<Rightarrow> embedder option \<Rightarrow> document option list \<Rightarrow> 's
      \<Rightarrow> (index_error + string list) \<times> 's" where
  "bulk_store c jc cfg idx emb docs s =
     (if docs = [] \<or> ix_batch cfg < 1 then (Inr [], s)
      else let n = nat (ix_batch cfg) in
        case store_batch c jc cfg idx emb (take n docs) s of
          (Inl e, s1) \<Rightarrow> (Inl e, s1)
        | (Inr ids, s1) \<Rightarrow>
            (case bulk_store c jc cfg idx emb (drop n docs) s1 of
               (Inl e, s2) \<Rightarrow> (Inl e, s2)
             | (Inr later, s2) \<Rightarrow> (Inr (ids @ later), s2)))"
  by pat_completeness auto
termination by (relation "measure (\<lambda>(c, jc, cfg, idx, emb, docs, s). length docs)") auto

declare bulk_store.simps [simp del]

definition indexer_store ::
    "('b, 's) os_client \<Rightarrow> 'b json_codec \<Rightarrow> indexer_config \<Rightarrow> string option \<Rightarrow> embedder option \<Rightarrow> document option list \<Rightarrow> 's
      \<Rightarrow> (index_error + string list) \<times> 's" where
  "indexer_store c jc cfg index_opt emb_opt docs s =
     (let idx = (case index_opt of Some i \<Rightarrow> if i \<noteq> [] then i else ix_index cfg | None \<Rightarrow> ix_index cfg);
          emb = (case emb_opt of Some f \<Rightarrow> Some f | None \<Rightarrow> ix_embedding cfg)
      in bulk_store c jc cfg idx emb docs s)"

section \<open>Reconciling\<close>

record reconcile_options =
  ro_id :: string
  ro_hash :: string

definition new_options :: "(reconcile_options \<Rightarrow> reconcile_options) list \<Rightarrow> reconcile_options" where
  "new_options fs = fold (\<lambda>f o1. f o1) fs \<lparr>ro_id = ''source_id'', ro_hash = ''source_hash''\<rparr>"

definition with_source_id_field :: "string \<Rightarrow> reconcile_options \<Rightarrow> reconcile_options" where
  "with_source_id_field f o1 = o1\<lparr>ro_id := f\<rparr>"

definition with_source_hash_field :: "string \<Rightarrow> reconcile_options \<Rightarrow> reconcile_options" where
  "with_source_hash_field f o1 = o1\<lparr>ro_hash := f\<rparr>"

record reconcile_filter =
  rf_field :: string
  rf_value :: string

datatype reconcile_error = SearchFailed string | BadSource | NoHash | ScrollFailed string | DeleteFailed string | DeleteFailures "string list"

definition reconcile_query :: "reconcile_filter option \<Rightarrow> os_query" where
  "reconcile_query f =
     (case f of None \<Rightarrow> MatchAll
      | Some rf \<Rightarrow> if rf_field rf = [] then MatchAll else BoolFilter (TermQ (rf_field rf) (MStr (rf_value rf))))"

text \<open>\<open>src[field].(string)\<close>, empty for anything else.\<close>

definition field_string :: "string \<Rightarrow> metadata \<Rightarrow> string" where
  "field_string f m = (case m f of Some (MStr x) \<Rightarrow> x | _ \<Rightarrow> [])"

definition lookup_source_hash ::
    "('b, 's) os_client \<Rightarrow> 'b json_codec \<Rightarrow> reconcile_options \<Rightarrow> string \<Rightarrow> string \<Rightarrow> 's
      \<Rightarrow> (string \<times> bool \<times> reconcile_error option) \<times> 's" where
  "lookup_source_hash c jc o1 idx sid s =
     (case os_search c idx ((search_for (TermQ (ro_id o1) (MStr sid)))\<lparr>rq_size := Some 1, rq_fields := Some [ro_hash o1]\<rparr>) s of
        (Inl e, s1) \<Rightarrow> (([], False, Some (SearchFailed e)), s1)
      | (Inr r, s1) \<Rightarrow>
          (case found r of
             [] \<Rightarrow> (([], False, None), s1)
           | h # hs \<Rightarrow>
               (case jc_dec jc (ht_source h) of
                  None \<Rightarrow> (([], False, Some BadSource), s1)
                | Some src \<Rightarrow>
                    (case src (ro_hash o1) of
                       Some (MStr x) \<Rightarrow> ((x, True, None), s1)
                     | _ \<Rightarrow> (([], True, Some NoHash), s1)))))"

text \<open>The loop over the pages of a scroll, with what each page adds; its value is the last scroll id too, for the clean-up.
  It need not end: a server may go on giving pages.\<close>

partial_function (option) scroll_loop ::
    "('b, 's) os_client \<Rightarrow> string \<Rightarrow> ('b hit list \<Rightarrow> 'a \<Rightarrow> bool \<times> 'a) \<Rightarrow> 'b search_result \<Rightarrow> string \<Rightarrow> 'a \<Rightarrow> 's
      \<Rightarrow> (reconcile_error option \<times> 'a \<times> string \<times> 's) option" where
  "scroll_loop c keep page r sid acc s =
     (if found r = [] then Some (None, acc, sid, s)
      else if \<not> fst (page (found r) acc) then Some (Some BadSource, snd (page (found r) acc), sid, s)
      else case os_scroll c sid keep s of (res, s1) \<Rightarrow>
        (case res of
           Inl e \<Rightarrow> Some (Some (ScrollFailed e), snd (page (found r) acc), sid, s1)
         | Inr r1 \<Rightarrow> scroll_loop c keep page r1 (sr_scroll r1) (snd (page (found r) acc)) s1))"

definition keep_alive :: string where "keep_alive = ''2m''"

definition scroll_size :: int where "scroll_size = 1000"

definition delete_size :: nat where "delete_size = 500"

text \<open>One page of the hashes, and of the ids to delete; false at a body that does not decode.\<close>

fun hash_page :: "'b json_codec \<Rightarrow> reconcile_options \<Rightarrow> 'b hit list \<Rightarrow> (string \<Rightarrow> string option) \<Rightarrow> bool \<times> (string \<Rightarrow> string option)" where
  "hash_page jc o1 [] hs = (True, hs)"
| "hash_page jc o1 (h # rest) hs =
     (case jc_dec jc (ht_source h) of
        None \<Rightarrow> (False, hs)
      | Some src \<Rightarrow>
          let sid = field_string (ro_id o1) src in
          if sid = [] then hash_page jc o1 rest hs else hash_page jc o1 rest (hs(sid \<mapsto> field_string (ro_hash o1) src)))"

fun unseen_page :: "'b json_codec \<Rightarrow> reconcile_options \<Rightarrow> (string \<Rightarrow> bool) \<Rightarrow> 'b hit list \<Rightarrow> string list \<Rightarrow> bool \<times> string list" where
  "unseen_page jc o1 seen [] acc = (True, acc)"
| "unseen_page jc o1 seen (h # rest) acc =
     (case jc_dec jc (ht_source h) of
        None \<Rightarrow> (False, acc)
      | Some src \<Rightarrow>
          let sid = field_string (ro_id o1) src in
          if sid = [] \<or> seen sid then unseen_page jc o1 seen rest acc else unseen_page jc o1 seen rest (acc @ [sid]))"

text \<open>The deferred clean-up.\<close>

definition clear_scroll :: "('b, 's) os_client \<Rightarrow> string \<Rightarrow> 's \<Rightarrow> 's" where
  "clear_scroll c sid s = (if sid = [] then s else os_clear_scroll c [sid] s)"

definition scan_request :: "reconcile_options \<Rightarrow> reconcile_filter option \<Rightarrow> string list \<Rightarrow> search_req" where
  "scan_request o1 f flds =
     (search_for (reconcile_query f))\<lparr>rq_size := Some scroll_size, rq_fields := Some flds, rq_scroll := Some keep_alive\<rparr>"

definition bulk_lookup_source_hashes ::
    "('b, 's) os_client \<Rightarrow> 'b json_codec \<Rightarrow> reconcile_options \<Rightarrow> string \<Rightarrow> reconcile_filter option \<Rightarrow> 's
      \<Rightarrow> (reconcile_error option \<times> (string \<Rightarrow> string option) \<times> 's) option" where
  "bulk_lookup_source_hashes c jc o1 idx f s =
     (case os_search c idx (scan_request o1 f [ro_id o1, ro_hash o1]) s of
        (Inl e, s1) \<Rightarrow> Some (Some (SearchFailed e), Map.empty, s1)
      | (Inr r, s1) \<Rightarrow>
          map_option (\<lambda>(err, hs, sid, s2). (err, hs, clear_scroll c sid s2))
            (scroll_loop c keep_alive (hash_page jc o1) r (sr_scroll r) Map.empty s1))"

definition delete_by_source_ids ::
    "('b, 's) os_client \<Rightarrow> reconcile_options \<Rightarrow> string \<Rightarrow> string list \<Rightarrow> 's \<Rightarrow> reconcile_error option \<times> 's" where
  "delete_by_source_ids c o1 idx sids s =
     (if sids = [] then (None, s)
      else case os_delete_by_query c idx (TermsQ (ro_id o1) (map MStr sids)) s of
          (Inl e, s1) \<Rightarrow> (Some (DeleteFailed e), s1)
        | (Inr r, s1) \<Rightarrow> (if dr_failures r \<noteq> [] then Some (DeleteFailures (dr_failures r)) else None, s1))"

definition delete_by_source_id ::
    "('b, 's) os_client \<Rightarrow> reconcile_options \<Rightarrow> string \<Rightarrow> string \<Rightarrow> 's \<Rightarrow> reconcile_error option \<times> 's" where
  "delete_by_source_id c o1 idx sid s = delete_by_source_ids c o1 idx [sid] s"

function delete_batches ::
    "('b, 's) os_client \<Rightarrow> reconcile_options \<Rightarrow> string \<Rightarrow> string list \<Rightarrow> int \<Rightarrow> 's \<Rightarrow> int \<times> reconcile_error option \<times> 's" where
  "delete_batches c o1 idx sids n s =
     (if sids = [] then (n, None, s)
      else case delete_by_source_ids c o1 idx (take delete_size sids) s of
          (Some e, s1) \<Rightarrow> (n, Some e, s1)
        | (None, s1) \<Rightarrow> delete_batches c o1 idx (drop delete_size sids) (n + int (length (take delete_size sids))) s1)"
  by pat_completeness auto
termination by (relation "measure (\<lambda>(c, o1, idx, sids, n, s). length sids)") (auto simp: delete_size_def)

declare delete_batches.simps [simp del]

definition reconcile ::
    "('b, 's) os_client \<Rightarrow> 'b json_codec \<Rightarrow> reconcile_options \<Rightarrow> string \<Rightarrow> (string \<Rightarrow> bool) \<Rightarrow> reconcile_filter option \<Rightarrow> 's
      \<Rightarrow> (int \<times> reconcile_error option \<times> 's) option" where
  "reconcile c jc o1 idx seen f s =
     (case os_search c idx (scan_request o1 f [ro_id o1]) s of
        (Inl e, s1) \<Rightarrow> Some (0, Some (SearchFailed e), s1)
      | (Inr r, s1) \<Rightarrow>
          (case scroll_loop c keep_alive (unseen_page jc o1 seen) r (sr_scroll r) [] s1 of
             None \<Rightarrow> None
           | Some (Some e, sids, sid, s2) \<Rightarrow> Some (0, Some e, clear_scroll c sid s2)
           | Some (None, sids, sid, s2) \<Rightarrow>
               (case delete_batches c o1 idx sids 0 s2 of (n, e, s3) \<Rightarrow> Some (n, e, clear_scroll c sid s3))))"

end
