(* ===== verification/OsStore.thy ===== *)
theory OsStore
  imports OsIndexer
begin

text \<open>
  Searching an index, \<^verbatim>\<open>components/retriever/opensearch\<close>, and the store of memories over an index,
  \<^verbatim>\<open>components/agent/memory/opensearch/store.go\<close>.
\<close>

section \<open>The retriever\<close>

record retriever_config =
  rc_urls :: "string list"
  rc_index :: string
  rc_pipeline :: string
  rc_embedding :: "embedder option"
  rc_vector :: string
  rc_content :: string
  rc_hybrid :: bool
  rc_k :: int
  rc_operator :: string
  rc_should_match :: string
  rc_min_score :: "rat option"
  rc_ensure :: bool
  rc_parser :: "(metadata \<Rightarrow> string + document) option"

datatype retrieve_error = BadRetriever string | NoConnection string | EmbedQueryFailed string | NoQueryVector | QueryFailed string
  | BadHit | ParserFailed string

definition retriever_defaults :: "retriever_config \<Rightarrow> retriever_config" where
  "retriever_defaults cfg =
     (let c1 = (if rc_content cfg = [] then cfg\<lparr>rc_content := ''content''\<rparr> else cfg)
      in if rc_operator c1 = [] then c1\<lparr>rc_operator := ''or''\<rparr> else c1)"

definition valid_retriever :: "retriever_config \<Rightarrow> bool" where
  "valid_retriever cfg \<longleftrightarrow> rc_urls cfg \<noteq> [] \<and> rc_operator cfg \<in> {''or'', ''and''} \<and> rune_count (rc_should_match cfg) \<le> 128 \<and> rc_index cfg \<noteq> []"

definition search_pipeline_exists :: "('b, 's) os_client \<Rightarrow> string \<Rightarrow> 's \<Rightarrow> (string + bool) \<times> 's" where
  "search_pipeline_exists c name s =
     (case os_get_pipeline c name s of
        (Inl e, s1) \<Rightarrow> (Inl e, s1)
      | (Inr status, s1) \<Rightarrow> if status = 404 then (Inr False, s1) else if 399 < status then (Inl ''unexpected status'', s1) else (Inr True, s1))"

definition put_search_pipeline :: "('b, 's) os_client \<Rightarrow> string \<Rightarrow> 's \<Rightarrow> (string + unit) \<times> 's" where
  "put_search_pipeline c name s =
     (case os_put_pipeline c name s of
        (Inl e, s1) \<Rightarrow> (Inl e, s1)
      | (Inr status, s1) \<Rightarrow> if 399 < status then (Inl ''failed to create'', s1) else (Inr (), s1))"

text \<open>Whether it was created.\<close>

definition ensure_rrf_pipeline :: "('b, 's) os_client \<Rightarrow> string \<Rightarrow> 's \<Rightarrow> (string + bool) \<times> 's" where
  "ensure_rrf_pipeline c name s =
     (case search_pipeline_exists c name s of
        (Inl e, s1) \<Rightarrow> (Inl e, s1)
      | (Inr True, s1) \<Rightarrow> (Inr False, s1)
      | (Inr False, s1) \<Rightarrow>
          (case put_search_pipeline c name s1 of
             (Inl e, s2) \<Rightarrow> (Inl e, s2)
           | (Inr _, s2) \<Rightarrow> (Inr True, s2)))"

text \<open>The default parser keeps everything but the content as metadata.\<close>

definition default_result_parser :: "metadata \<Rightarrow> string + document" where
  "default_result_parser m =
     Inr \<lparr>dc_id = [], dc_content = field_string ''content'' m, dc_meta = m(''content'' := None)\<rparr>"

definition new_retriever ::
    "string + ('b, 's) os_client \<Rightarrow> retriever_config \<Rightarrow> 's \<Rightarrow> (retrieve_error + ('b, 's) os_client \<times> retriever_config) \<times> 's" where
  "new_retriever connect cfg0 s =
     (let cfg = retriever_defaults cfg0 in
      if \<not> valid_retriever cfg then (Inl (BadRetriever ''invalid''), s)
      else if rc_embedding cfg \<noteq> None \<and> rc_vector cfg = [] then (Inl (BadRetriever ''VectorField is required when Embedding is set''), s)
      else if (case rc_min_score cfg of None \<Rightarrow> False | Some x \<Rightarrow> x < 0) then (Inl (BadRetriever ''MinScore must be >= 0''), s)
      else case connect of
          Inl e \<Rightarrow> (Inl (NoConnection e), s)
        | Inr c \<Rightarrow>
            let ready = cfg\<lparr>rc_parser := Some (case rc_parser cfg of None \<Rightarrow> default_result_parser | Some f \<Rightarrow> f)\<rparr>;
                s1 = (if rc_ensure cfg \<and> rc_pipeline cfg \<noteq> [] then snd (ensure_rrf_pipeline c (rc_pipeline cfg) s) else s)
            in (Inr (c, ready), s1))"

text \<open>The body of a search; with an embedder the first vector is needed.\<close>

definition build_search_body :: "retriever_config \<Rightarrow> string \<Rightarrow> int \<Rightarrow> rat list list \<Rightarrow> search_req option" where
  "build_search_body cfg query topk vectors =
     map_option (\<lambda>q. (search_for q)\<lparr>rq_size := Some topk,
         rq_pipeline := (if rc_pipeline cfg \<noteq> [] then Some (rc_pipeline cfg) else None), rq_min_score := rc_min_score cfg\<rparr>)
       (case rc_embedding cfg of
          None \<Rightarrow> Some (MatchQ (rc_content cfg) query (rc_operator cfg) (if rc_should_match cfg \<noteq> [] then Some (rc_should_match cfg) else None))
        | Some _ \<Rightarrow>
            (case vectors of
               [] \<Rightarrow> None
             | v # vs \<Rightarrow>
                 let knn = KnnQ (rc_vector cfg) v (if rc_k cfg = 0 then topk else rc_k cfg) in
                 Some (if rc_hybrid cfg then BoolShould [knn, MatchText (rc_content cfg) query] else knn)))"

definition search_hit_to_map :: "'b json_codec \<Rightarrow> 'b hit \<Rightarrow> metadata option" where
  "search_hit_to_map jc h =
     (case jc_dec jc (ht_source h) of
        None \<Rightarrow> None
      | Some src \<Rightarrow>
          let m1 = src(''_id'' \<mapsto> MStr (ht_id h), ''_index'' \<mapsto> MStr (ht_index h));
              m2 = (case ht_score h of None \<Rightarrow> m1 | Some x \<Rightarrow> m1(''_score'' \<mapsto> MNum x))
          in Some (m2(''_version'' \<mapsto> MNum (of_int (ht_version h)))))"

fun parse_hits_with :: "'b json_codec \<Rightarrow> (metadata \<Rightarrow> string + document) \<Rightarrow> 'b hit list \<Rightarrow> retrieve_error + document list" where
  "parse_hits_with jc parser [] = Inr []"
| "parse_hits_with jc parser (h # hs) =
     (case search_hit_to_map jc h of
        None \<Rightarrow> Inl BadHit
      | Some m \<Rightarrow>
          (case parser m of
             Inl e \<Rightarrow> Inl (ParserFailed e)
           | Inr d \<Rightarrow> bind_res (parse_hits_with jc parser hs) (\<lambda>ds. Inr (d # ds))))"

definition parse_search_result :: "'b json_codec \<Rightarrow> retriever_config \<Rightarrow> 'b search_result \<Rightarrow> retrieve_error + document list" where
  "parse_search_result jc cfg r =
     parse_hits_with jc (case rc_parser cfg of None \<Rightarrow> default_result_parser | Some f \<Rightarrow> f) (found r)"

definition retrieve_documents ::
    "('b, 's) os_client \<Rightarrow> 'b json_codec \<Rightarrow> retriever_config \<Rightarrow> string option \<Rightarrow> int option \<Rightarrow> string \<Rightarrow> 's
      \<Rightarrow> (retrieve_error + document list) \<times> 's" where
  "retrieve_documents c jc cfg index_opt top_opt query s =
     (let idx = (case index_opt of None \<Rightarrow> rc_index cfg | Some i \<Rightarrow> i); topk = (case top_opt of None \<Rightarrow> 10 | Some k \<Rightarrow> k) in
      case (case rc_embedding cfg of None \<Rightarrow> Inr [] | Some f \<Rightarrow> f [query]) of
        Inl e \<Rightarrow> (Inl (EmbedQueryFailed e), s)
      | Inr vectors \<Rightarrow>
          (case build_search_body cfg query topk vectors of
             None \<Rightarrow> (Inl NoQueryVector, s)
           | Some req \<Rightarrow>
               (case os_search c idx req s of
                  (Inl e, s1) \<Rightarrow> (Inl (QueryFailed e), s1)
                | (Inr r, s1) \<Rightarrow> (parse_search_result jc cfg r, s1))))"

section \<open>The store of memories\<close>

record os_config =
  oc_urls :: "string list"
  oc_index :: string
  oc_embedding :: "embedder option"
  oc_vector :: string
  oc_content :: string
  oc_hybrid :: bool
  oc_k :: int
  oc_dimension :: int
  oc_batch :: int
  oc_pipeline :: string
  oc_operator :: string
  oc_should_match :: string
  oc_min_score :: "rat option"

record ('b, 's) os_store =
  ot_client :: "('b, 's) os_client"
  ot_codec :: "'b json_codec"
  ot_indexer :: indexer_config
  ot_retriever :: retriever_config
  ot_index :: string
  ot_content :: string

datatype os_store_error = BadStore string | StoreNoClient string | IndexCheckFailed string | IndexCreateFailed string
  | BadMapping string | StoreIndexError index_error | StoreRetrieveError retrieve_error | RequestFailed string | BadListHit

definition os_defaults :: "os_config \<Rightarrow> os_config" where
  "os_defaults cfg =
     (let c1 = (if oc_index cfg = [] then cfg\<lparr>oc_index := ''eino_agent_memory''\<rparr> else cfg);
          c2 = (if oc_vector c1 = [] then c1\<lparr>oc_vector := ''vector''\<rparr> else c1);
          c3 = (if oc_content c2 = [] then c2\<lparr>oc_content := ''content''\<rparr> else c2);
          c4 = (if oc_batch c3 = 0 then c3\<lparr>oc_batch := 100\<rparr> else c3)
      in if oc_dimension c4 = 0 then c4\<lparr>oc_dimension := 384\<rparr> else c4)"

definition valid_os_config :: "os_config \<Rightarrow> bool" where
  "valid_os_config cfg \<longleftrightarrow> oc_urls cfg \<noteq> [] \<and> 1 \<le> oc_dimension cfg \<and> 1 \<le> oc_batch cfg
     \<and> oc_operator cfg \<in> {[], ''or'', ''and''} \<and> rune_count (oc_should_match cfg) \<le> 128"

definition os_properties :: "os_config \<Rightarrow> (string \<times> field_type) list" where
  "os_properties cfg =
     [(oc_content cfg, FText), (''category'', FKeyword), (''source'', FKeyword), (''session_id'', FKeyword), (''user_id'', FKeyword),
      (''scope'', FText), (''created_at'', FDate), (''updated_at'', FDate)]
     @ (if oc_embedding cfg = None then [] else [(oc_vector cfg, FKnn (oc_dimension cfg))])"

definition create_os_index :: "('b, 's) os_client \<Rightarrow> os_config \<Rightarrow> 's \<Rightarrow> (os_store_error + unit) \<times> 's" where
  "create_os_index c cfg s =
     (case os_create_index c (oc_index cfg) (os_properties cfg) [(''number_of_shards'', ''1''), (''index.auto_expand_replicas'', ''0-2'')] s of
        (Inl e, s1) \<Rightarrow> (Inl (IndexCreateFailed e), s1)
      | (Inr _, s1) \<Rightarrow> (Inr (), s1))"

definition ensure_os_index :: "('b, 's) os_client \<Rightarrow> os_config \<Rightarrow> 's \<Rightarrow> (os_store_error + unit) \<times> 's" where
  "ensure_os_index c cfg s =
     (case os_exists c (oc_index cfg) s of
        (Inl e, s1) \<Rightarrow> (Inl (IndexCheckFailed e), s1)
      | (Inr True, s1) \<Rightarrow> (Inr (), s1)
      | (Inr False, s1) \<Rightarrow> create_os_index c cfg s1)"

definition node_at :: "string \<Rightarrow> (string \<times> mapping_tree) list \<Rightarrow> (string \<times> mapping_tree) list option" where
  "node_at k m = (case map_of m k of Some (MapNode n) \<Rightarrow> Some n | _ \<Rightarrow> None)"

text \<open>Go converts a \<open>float64\<close> to an integer towards zero.\<close>

definition trunc_rat :: "rat \<Rightarrow> int" where
  "trunc_rat x = (if x < 0 then - floor (- x) else floor x)"

definition check_dimension :: "os_config \<Rightarrow> (string \<times> mapping_tree) list \<Rightarrow> os_store_error + unit" where
  "check_dimension cfg mapping =
     (case map_of mapping (oc_index cfg) of
        None \<Rightarrow> Inl (BadMapping ''index not found'')
      | Some (MapNode im) \<Rightarrow>
          (case node_at ''mappings'' im of
             None \<Rightarrow> Inl (BadMapping ''no mappings'')
           | Some ms \<Rightarrow>
               (case node_at ''properties'' ms of
                  None \<Rightarrow> Inl (BadMapping ''no properties'')
                | Some ps \<Rightarrow>
                    (case node_at (oc_vector cfg) ps of
                       None \<Rightarrow> Inl (BadMapping ''no vector field'')
                     | Some vf \<Rightarrow>
                         (case map_of vf ''dimension'' of
                            None \<Rightarrow> Inl (BadMapping ''no dimension'')
                          | Some (MapFloat x) \<Rightarrow> if trunc_rat x = oc_dimension cfg then Inr () else Inl (BadMapping ''dimension mismatch'')
                          | Some (MapInt n) \<Rightarrow> if n = oc_dimension cfg then Inr () else Inl (BadMapping ''dimension mismatch'')
                          | Some _ \<Rightarrow> Inl (BadMapping ''dimension type'')))))
      | Some _ \<Rightarrow> Inl (BadMapping ''unexpected response''))"

definition validate_vector_dimension :: "('b, 's) os_client \<Rightarrow> os_config \<Rightarrow> 's \<Rightarrow> (os_store_error + unit) \<times> 's" where
  "validate_vector_dimension c cfg s =
     (case os_get_mapping c (oc_index cfg) s of
        (Inl e, s1) \<Rightarrow> (Inl (BadMapping e), s1)
      | (Inr m, s1) \<Rightarrow> (check_dimension cfg m, s1))"

definition os_indexer_config :: "os_config \<Rightarrow> indexer_config" where
  "os_indexer_config cfg =
     \<lparr>ix_urls = oc_urls cfg, ix_index = oc_index cfg, ix_batch = oc_batch cfg, ix_mapper = None, ix_embedding = oc_embedding cfg,
      ix_vector = oc_vector cfg, ix_content = oc_content cfg, ix_create = None\<rparr>"

definition os_retriever_config :: "os_config \<Rightarrow> retriever_config" where
  "os_retriever_config cfg =
     \<lparr>rc_urls = oc_urls cfg, rc_index = oc_index cfg, rc_pipeline = oc_pipeline cfg, rc_embedding = oc_embedding cfg, rc_vector = oc_vector cfg,
      rc_content = oc_content cfg, rc_hybrid = oc_hybrid cfg, rc_k = oc_k cfg, rc_operator = oc_operator cfg,
      rc_should_match = oc_should_match cfg, rc_min_score = oc_min_score cfg, rc_ensure = False, rc_parser = None\<rparr>"

definition new_os_store ::
    "string + ('b, 's) os_client \<Rightarrow> 'b json_codec \<Rightarrow> os_config \<Rightarrow> 's \<Rightarrow> (os_store_error + ('b, 's) os_store) \<times> 's" where
  "new_os_store connect jc cfg0 s =
     (let cfg = os_defaults cfg0 in
      if \<not> valid_os_config cfg then (Inl (BadStore ''invalid''), s)
      else if (case oc_min_score cfg of None \<Rightarrow> False | Some x \<Rightarrow> x < 0) then (Inl (BadStore ''MinScore must be >= 0''), s)
      else case connect of
          Inl e \<Rightarrow> (Inl (StoreNoClient e), s)
        | Inr c \<Rightarrow>
            (case ensure_os_index c cfg s of
               (Inl e, s1) \<Rightarrow> (Inl e, s1)
             | (Inr _, s1) \<Rightarrow>
                 (case (if oc_embedding cfg = None then (Inr (), s1) else validate_vector_dimension c cfg s1) of
                    (Inl e, s2) \<Rightarrow> (Inl e, s2)
                  | (Inr _, s2) \<Rightarrow>
                      (case new_indexer connect (os_indexer_config cfg) s2 of
                         (Inl e, s3) \<Rightarrow> (Inl (StoreIndexError e), s3)
                       | (Inr (ci, ic), s3) \<Rightarrow>
                           (case new_retriever connect (os_retriever_config cfg) s3 of
                              (Inl e, s4) \<Rightarrow> (Inl (StoreRetrieveError e), s4)
                            | (Inr (cr, rc), s4) \<Rightarrow>
                                (Inr \<lparr>ot_client = c, ot_codec = jc, ot_indexer = ic, ot_retriever = rc, ot_index = oc_index cfg,
                                      ot_content = oc_content cfg\<rparr>, s4))))))"

definition os_store_docs :: "('b, 's) os_store \<Rightarrow> document option list \<Rightarrow> 's \<Rightarrow> (index_error + string list) \<times> 's" where
  "os_store_docs st ds s = indexer_store (ot_client st) (ot_codec st) (ot_indexer st) None None ds s"

text \<open>The store's index comes first among the options, so an option of the caller wins.\<close>

definition os_retrieve :: "('b, 's) os_store \<Rightarrow> string option \<Rightarrow> int option \<Rightarrow> string \<Rightarrow> 's \<Rightarrow> (retrieve_error + document list) \<times> 's" where
  "os_retrieve st index_opt top_opt query s =
     retrieve_documents (ot_client st) (ot_codec st) (ot_retriever st)
       (case index_opt of None \<Rightarrow> Some (ot_index st) | Some i \<Rightarrow> Some i) top_opt query s"

definition os_delete_memory :: "('b, 's) os_store \<Rightarrow> string \<Rightarrow> 's \<Rightarrow> (os_store_error + unit) \<times> 's" where
  "os_delete_memory st i s =
     (case os_delete (ot_client st) (ot_index st) i s of
        (Inl e, s1) \<Rightarrow> (Inl (RequestFailed e), s1)
      | (Inr _, s1) \<Rightarrow> (Inr (), s1))"

text \<open>The filter's entries, in any order.\<close>

definition build_filter_query :: "(string \<times> meta) list \<Rightarrow> os_query" where
  "build_filter_query f = (if f = [] then MatchAll else BoolMust (map (\<lambda>(k, v). TermQ k v) f))"

definition os_delete_by_filter :: "('b, 's) os_store \<Rightarrow> (string \<times> meta) list \<Rightarrow> 's \<Rightarrow> (os_store_error + int) \<times> 's" where
  "os_delete_by_filter st f s =
     (case os_delete_by_query (ot_client st) (ot_index st) (build_filter_query f) s of
        (Inl e, s1) \<Rightarrow> (Inl (RequestFailed e), s1)
      | (Inr r, s1) \<Rightarrow> (Inr (dr_deleted r), s1))"

fun parse_hits :: "'b json_codec \<Rightarrow> string \<Rightarrow> 'b hit list \<Rightarrow> os_store_error + document list" where
  "parse_hits jc content_field [] = Inr []"
| "parse_hits jc content_field (h # hs) =
     (case jc_dec jc (ht_source h) of
        None \<Rightarrow> Inl BadListHit
      | Some src \<Rightarrow>
          bind_res (parse_hits jc content_field hs)
            (\<lambda>ds. Inr (\<lparr>dc_id = ht_id h, dc_content = field_string content_field src, dc_meta = src(content_field := None)\<rparr> # ds)))"

definition list_request :: "int \<Rightarrow> int \<Rightarrow> search_req" where
  "list_request offset limit_n =
     (search_for MatchAll)\<lparr>rq_from := Some (if offset < 0 then 0 else offset), rq_size := Some (if limit_n \<le> 0 then 100 else limit_n),
       rq_newest := Some ''created_at''\<rparr>"

definition os_list :: "('b, 's) os_store \<Rightarrow> int \<Rightarrow> int \<Rightarrow> 's \<Rightarrow> (os_store_error + document list) \<times> 's" where
  "os_list st offset limit_n s =
     (case os_search (ot_client st) (ot_index st) (list_request offset limit_n) s of
        (Inl e, s1) \<Rightarrow> (Inl (RequestFailed e), s1)
      | (Inr r, s1) \<Rightarrow> (parse_hits (ot_codec st) (ot_content st) (found r), s1))"

definition os_count_memories :: "('b, 's) os_store \<Rightarrow> 's \<Rightarrow> (os_store_error + int) \<times> 's" where
  "os_count_memories st s =
     (case os_count (ot_client st) (ot_index st) s of
        (Inl e, s1) \<Rightarrow> (Inl (RequestFailed e), s1)
      | (Inr n, s1) \<Rightarrow> (Inr n, s1))"

end
