(* ===== verification/Checkup.thy ===== *)
theory Checkup
  imports OsMemory OsStore
begin

text \<open>
  Health checks: the results of \<^verbatim>\<open>libs/toolkit/checkup\<close>, and the probes of the conversation stores, of sessions and of the
  memory store. A probe writes, reads, lists and deletes a conversation of a user of its own. The texts of results are the
  source's format strings with their arguments.
\<close>

section \<open>Results\<close>

datatype probe_status = StatusOK | StatusError | StatusLimited

datatype probe_arg = ANum int | AQuoted string | AErr string

record probe =
  pb_component :: string
  pb_status :: probe_status
  pb_text :: string
  pb_args :: "probe_arg list"

definition passed :: "string \<Rightarrow> string \<Rightarrow> probe_arg list \<Rightarrow> probe" where
  "passed cn txt args = \<lparr>pb_component = cn, pb_status = StatusOK, pb_text = txt, pb_args = args\<rparr>"

definition failed :: "string \<Rightarrow> string \<Rightarrow> probe_arg list \<Rightarrow> probe" where
  "failed cn txt args = \<lparr>pb_component = cn, pb_status = StatusError, pb_text = txt, pb_args = args\<rparr>"

definition limited :: "string \<Rightarrow> string \<Rightarrow> probe" where
  "limited cn txt = \<lparr>pb_component = cn, pb_status = StatusLimited, pb_text = txt, pb_args = []\<rparr>"

definition probes_ok :: "probe list \<Rightarrow> bool" where
  "probes_ok rs \<longleftrightarrow> \<not> list_ex (\<lambda>r. pb_status r = StatusError) rs"

definition merge_results :: "probe list list \<Rightarrow> probe list" where
  "merge_results all = fold (\<lambda>a out. out @ a) all []"

definition dependency_failed :: "string list \<Rightarrow> probe list" where
  "dependency_failed names = map (\<lambda>n. failed n ''dependency failed'' []) names"

definition check_user :: string where "check_user = ''__checkup''"
definition check_conv_id :: string where "check_conv_id = ''checkup_test''"

section \<open>Conversation stores\<close>

text \<open>The part of \<^verbatim>\<open>memory.Memory\<close> the probes use beside \<open>store_ops\<close>: the full messages and the listing, \<open>None\<close> when it does not
  end.\<close>

type_synonym 's lister = "'s \<Rightarrow> string \<Rightarrow> ((mem_error + string list) \<times> 's) option"

definition crud_probes ::
    "string \<Rightarrow> (mem_error \<Rightarrow> string) \<Rightarrow> ('s, 'h) store_ops \<Rightarrow> ('s \<Rightarrow> 'h \<Rightarrow> message list) \<Rightarrow> 's lister \<Rightarrow> 's \<Rightarrow> (probe list \<times> 's) option" where
  "crud_probes got show_err ops full lister s =
     (let finish = (\<lambda>rs s3.
        (case op_delete ops s3 check_user check_conv_id of
           (Inl e, s4) \<Rightarrow> (rs @ [failed ''delete_conversation'' ''failed to delete conversation'' [AErr (show_err e)]], s4)
         | (Inr _, s4) \<Rightarrow> (rs @ [passed ''delete_conversation'' ''test conversation deleted'' []], s4)))
      in case op_get ops s check_user check_conv_id True of
        (Inl e, s1) \<Rightarrow>
          Some (finish [failed ''get_conversation'' ''failed to get conversation'' [AErr (show_err e)],
                        failed ''append_message'' ''dependency failed'' [], failed ''list_conversations'' ''dependency failed'' []] s1)
      | (Inr h, s1) \<Rightarrow>
          let before = length (full s1 h);
              s2 = op_append ops s1 h (plain_message RAssistant ''checkup'');
              after = length (full s2 h);
              rs = [passed ''get_conversation'' got [],
                    if after \<le> before then failed ''append_message'' ''message count did not increase after append'' []
                    else passed ''append_message'' ''messages grew from %d to %d'' [ANum (int before), ANum (int after)]]
          in map_option (\<lambda>(l, s3). finish (rs @ [case l of
                Inl e \<Rightarrow> failed ''list_conversations'' ''failed to list conversations'' [AErr (show_err e)]
              | Inr ids \<Rightarrow> passed ''list_conversations'' ''%d conversations found'' [ANum (int (length ids))]]) s3) (lister s2 check_user))"

definition delete_ids :: "('s, 'h) store_ops \<Rightarrow> string list \<Rightarrow> 's \<Rightarrow> 's" where
  "delete_ids ops ids s = fold (\<lambda>i st. snd (op_delete ops st check_user i)) ids s"

definition clean_conversations :: "bool \<Rightarrow> ('s, 'h) store_ops \<Rightarrow> 's lister \<Rightarrow> 's \<Rightarrow> 's option" where
  "clean_conversations probe_too ops lister s =
     map_option (\<lambda>(l, s1). case l of
         Inl e \<Rightarrow> s1
       | Inr ids \<Rightarrow> delete_ids ops (if probe_too then ids @ [check_conv_id] else ids) s1) (lister s check_user)"

section \<open>The file store\<close>

definition open_file_memory :: "string \<Rightarrow> int \<Rightarrow> int \<Rightarrow> disk \<Rightarrow> string + file_memory" where
  "open_file_memory dir0 max_size max_tokens d =
     (let dir = (if dir0 = [] then ''/tmp/eino/memory'' else dir0) in
      if max_size < 0 \<or> max_tokens < 0 then Inl ''invalid''
      else if \<not> dir_exists d dir \<and> io_fails d dir then Inl ''failed to create memory directory''
      else Inr (new_file_memory dir0 max_size max_tokens d))"

definition fm_lister :: "file_memory lister" where
  "fm_lister s user = Some (list_conversations s user, s)"

definition file_check :: "codec \<Rightarrow> (mem_error \<Rightarrow> string) \<Rightarrow> string \<Rightarrow> int \<Rightarrow> int \<Rightarrow> disk \<Rightarrow> (probe list \<times> disk) option" where
  "file_check cd show_err dir max_size max_tokens d =
     (case open_file_memory dir max_size max_tokens d of
        Inl e \<Rightarrow> Some (failed ''connect'' ''failed to create FileMemory'' [AErr e]
            # dependency_failed [''get_conversation'', ''append_message'', ''list_conversations'', ''delete_conversation''], d)
      | Inr m \<Rightarrow>
          let ops = fm_ops cd default_token_counter in
          (case crud_probes ''conversation created'' show_err ops fm_full fm_lister m of
             None \<Rightarrow> None
           | Some (rs, m1) \<Rightarrow>
               map_option (\<lambda>m2. (passed ''connect'' ''directory accessible and writable'' [] # rs, fm_disk m2))
                 (clean_conversations False ops fm_lister m1)))"

section \<open>Sessions\<close>

definition session_check :: "(session_error \<Rightarrow> string) \<Rightarrow> ('s, 'h) store_ops \<Rightarrow> 's session option \<Rightarrow> (probe list \<times> 's session option) option" where
  "session_check show_err ops sm =
     (case sm of
        None \<Rightarrow> Some ([failed ''session'' ''SessionManager is nil'' []], None)
      | Some se \<Rightarrow>
          (case begin_turn ops se check_user check_conv_id (Some (plain_message RUser ''checkup probe'')) of
             None \<Rightarrow> None
           | Some (Inl e, se1) \<Rightarrow>
               Some ([failed ''session'' ''failed to begin turn''
                        [AErr (show_err e)]], Some se1)
           | Some (Inr t, se1) \<Rightarrow> Some ([passed ''session'' ''BeginTurn + Discard succeeded'' []], Some (fst (discard se1 t)))))"

section \<open>The OpenSearch conversation store\<close>

text \<open>The probes of the index and of the store use two clients of the same server.\<close>

definition os_memory_check ::
    "string + ('b, 's) os_client \<Rightarrow> string + ('b, 's) os_client \<Rightarrow> 'b conv_codec \<Rightarrow> (mem_error \<Rightarrow> string) \<Rightarrow> os_mem_config \<Rightarrow> string \<Rightarrow> 's
      \<Rightarrow> (probe list \<times> 's) option" where
  "os_memory_check conn1 conn2 cc show_err cfg0 now s =
     (let cfg = (if mc_index cfg0 = [] then cfg0\<lparr>mc_index := ''eino_memory''\<rparr> else cfg0);
          later = dependency_failed [''index_exists'', ''get_conversation'', ''append_message'', ''list_conversations'', ''delete_conversation'']
      in case conn1 of
          Inl e \<Rightarrow> Some (failed ''connect'' ''failed to create OpenSearch client'' [AErr e] # later, s)
        | Inr c1 \<Rightarrow>
            (case new_os_memory conn2 cfg now s of
               (Inl e, s1) \<Rightarrow> Some (failed ''connect'' ''failed to create OpenSearchMemory'' [AErr e] # later, s1)
             | (Inr m, s1) \<Rightarrow>
                 (case os_exists c1 (mc_index cfg) s1 of (ex, s2) \<Rightarrow>
                    let index = (case ex of
                          Inl e \<Rightarrow> failed ''index_exists'' ''failed to check index existence'' [AErr e]
                        | Inr False \<Rightarrow> failed ''index_exists'' ''index %q does not exist'' [AQuoted (mc_index cfg)]
                        | Inr True \<Rightarrow> passed ''index_exists'' ''index %q exists'' [AQuoted (mc_index cfg)]);
                        c = projr conn2; ops = os_mem_ops c cc default_token_counter; lister = os_list_conversations c cc
                    in case crud_probes ''conversation created and retrieved'' show_err ops os_full lister (m\<lparr>om_server := s2\<rparr>) of
                         None \<Rightarrow> None
                       | Some (rs, m1) \<Rightarrow>
                           map_option (\<lambda>m2. ([passed ''connect'' ''OpenSearch client created, index ensured'' [], index] @ rs, om_server m2))
                             (clean_conversations True ops lister m1))))"

section \<open>The store of memories\<close>

definition test_document :: "string \<Rightarrow> document" where
  "test_document now =
     \<lparr>dc_id = ''checkup_test'', dc_content = ''This is a connectivity test document for the agent memory store checkup.'',
      dc_meta = [''category'' \<mapsto> MStr ''test'', ''source'' \<mapsto> MStr ''checkup'', ''session_id'' \<mapsto> MStr ''checkup_session'',
        ''created_at'' \<mapsto> MStr now, ''updated_at'' \<mapsto> MStr now]\<rparr>"

definition checkup_filter :: "(string \<times> meta) list" where "checkup_filter = [(''source'', MStr ''checkup'')]"

text \<open>\<open>tell_*\<close> render errors. The clean-up deferred by a store that succeeded runs last.\<close>

definition store_check ::
    "string + ('b, 's) os_client \<Rightarrow> 'b json_codec \<Rightarrow> (os_store_error \<Rightarrow> string) \<Rightarrow> (index_error \<Rightarrow> string) \<Rightarrow> (retrieve_error \<Rightarrow> string)
      \<Rightarrow> os_config \<Rightarrow> bool \<Rightarrow> string \<Rightarrow> 's \<Rightarrow> probe list \<times> 's" where
  "store_check connect jc tell tell_ix tell_rt cfg embedder_given now s =
     (case new_os_store connect jc cfg s of
        (Inl e, s1) \<Rightarrow> (failed ''connect'' ''failed to create Store'' [AErr (tell e)]
            # dependency_failed [''count'', ''list'', ''store'', ''retrieve'', ''delete'', ''delete_by_filter''], s1)
      | (Inr st, s1) \<Rightarrow>
          let connect_ok = passed ''connect'' ''Store created, index ensured'' [];
              (n, s2) = os_count_memories st s1;
              counted = (case n of Inl e \<Rightarrow> failed ''count'' ''failed to count documents'' [AErr (tell e)]
                          | Inr k \<Rightarrow> passed ''count'' ''%d documents in store'' [ANum k]);
              (l, s3) = os_list st 0 1 s2;
              seen = (case l of Inl e \<Rightarrow> failed ''list'' ''failed to list documents'' [AErr (tell e)]
                        | Inr ds \<Rightarrow> passed ''list'' ''listed %d documents'' [ANum (int (length ds))]);
              (r, s4) = os_store_docs st [Some (test_document now)] s3;
              (kept, given) = (case r of
                  Inl e \<Rightarrow> (failed ''store'' ''failed to store document'' [AErr (tell_ix e)], None)
                | Inr [] \<Rightarrow> (failed ''store'' ''no document IDs returned from store'' [], None)
                | Inr (i # is) \<Rightarrow> (passed ''store'' ''document stored with id %q'' [AQuoted i], Some i));
              (q, s5) = os_retrieve st None None ''connectivity test'' s4;
              fetched = (case q of Inl e \<Rightarrow> failed ''retrieve'' ''failed to retrieve documents'' [AErr (tell_rt e)]
                | Inr ds \<Rightarrow> passed ''retrieve'' (if embedder_given then ''retrieved %d documents via kNN+BM25''
                    else ''retrieved %d documents via BM25 (kNN not configured)'') [ANum (int (length ds))]);
              doc_id = (case given of None \<Rightarrow> ''checkup_test'' | Some i \<Rightarrow> i);
              (deletes, s6) = (if doc_id \<noteq> ''checkup_test'' then
                  let (d, t1) = os_delete_memory st doc_id s5;
                      (f, t2) = os_delete_by_filter st checkup_filter t1
                  in ([case d of Inl e \<Rightarrow> failed ''delete'' ''failed to delete document'' [AErr (tell e)]
                         | Inr _ \<Rightarrow> passed ''delete'' ''document %q deleted'' [AQuoted doc_id],
                       case f of Inl e \<Rightarrow> failed ''delete_by_filter'' ''failed to delete by filter'' [AErr (tell e)]
                         | Inr k \<Rightarrow> passed ''delete_by_filter'' ''deleted %d documents by filter'' [ANum k]], t2)
                else ([limited ''delete'' ''store did not return an ID, cannot test delete'',
                       limited ''delete_by_filter'' ''store did not return an ID, cannot test delete_by_filter''], s5));
              s7 = (case given of None \<Rightarrow> s6 | Some _ \<Rightarrow> snd (os_delete_by_filter st checkup_filter s6))
          in ([connect_ok, counted, seen, kept, fetched] @ deletes, s7))"

end
