(* ===== verification/OsMemory_Props.thy ===== *)
theory OsMemory_Props
  imports OsMemory
begin

text \<open>
  What the conversations of an OpenSearch index promise: a process's cached conversations are the stored ones, turns
  persist whole, and the listing of a user's conversations is complete; and, as closed lemmas, where they do not.
\<close>

section \<open>What is relied on of the server\<close>

text \<open>A document read is the one last written under its index and id; a refused deletion deletes nothing.\<close>

definition keeps_documents :: "('b, 's) os_client \<Rightarrow> ('s \<Rightarrow> string \<Rightarrow> string \<Rightarrow> 'b option) \<Rightarrow> bool" where
  "keeps_documents c docs \<longleftrightarrow>
     (\<forall>idx i s r s'. os_get c idx i s = (r, s') \<longrightarrow> docs s' = docs s \<and> (\<forall>x. r = Inr x \<longrightarrow> x = docs s idx i))
   \<and> (\<forall>idx i b s s'. os_put c idx i b s = (Inr (), s') \<longrightarrow> docs s' = (docs s)(idx := (docs s idx)(i \<mapsto> b)))
   \<and> (\<forall>idx i b s r s'. os_create c idx i b s = (r, s') \<longrightarrow>
        (docs s' = docs s \<and> r \<noteq> Inr () \<or> r = Inr () \<and> docs s' = (docs s)(idx := (docs s idx)(i \<mapsto> b))))
   \<and> (\<forall>idx i s r s'. os_delete c idx i s = (r, s') \<longrightarrow>
        (docs s' = docs s \<and> r \<noteq> Inr () \<or> r = Inr () \<and> docs s' = (docs s)(idx := (docs s idx)(i := None))))"

text \<open>The server is reachable: it answers every read, and accepts every write.\<close>

definition answers :: "('b, 's) os_client \<Rightarrow> bool" where
  "answers c \<longleftrightarrow> (\<forall>idx i s. \<exists>x s'. os_get c idx i s = (Inr x, s')) \<and> (\<forall>idx i b s. \<exists>s'. os_put c idx i b s = (Inr (), s'))"

definition codes :: "'b conv_codec \<Rightarrow> bool" where
  "codes cc \<longleftrightarrow> (\<forall>d. cc_dec cc (cc_enc cc d) = Some d)"

lemma get_keeps:
  assumes "keeps_documents c docs" and "os_get c idx i s = (r, s')"
  shows "docs s' = docs s \<and> (\<forall>x. r = Inr x \<longrightarrow> x = docs s idx i)"
  using assms(1) [unfolded keeps_documents_def, THEN conjunct1, rule_format, OF assms(2)] by simp

lemma put_keeps:
  assumes "keeps_documents c docs" and "answers c" and "os_put c idx i b s = (r, s')"
  shows "r = Inr () \<and> docs s' = (docs s)(idx := (docs s idx)(i \<mapsto> b))"
proof -
  obtain s'' where "os_put c idx i b s = (Inr (), s'')" using assms(2) unfolding answers_def by blast
  then show ?thesis using assms(1,3) unfolding keeps_documents_def by simp
qed

lemma create_keeps:
  assumes "keeps_documents c docs" and "os_create c idx i b s = (r, s')"
  shows "docs s' = docs s \<and> r \<noteq> Inr () \<or> r = Inr () \<and> docs s' = (docs s)(idx := (docs s idx)(i \<mapsto> b))"
  using assms unfolding keeps_documents_def by blast

lemma delete_keeps:
  assumes "keeps_documents c docs" and "os_delete c idx i s = (r, s')"
  shows "docs s' = docs s \<and> r \<noteq> Inr () \<or> r = Inr () \<and> docs s' = (docs s)(idx := (docs s idx)(i := None))"
  using assms unfolding keeps_documents_def by blast

lemma ref_keeps_documents: "keeps_documents (ref_client view) (\<lambda>s idx. map_of (rs_docs s idx))"
  by (auto simp: keeps_documents_def ref_client_def update_conv' delete_conv' fun_eq_iff split: if_splits)

lemma ref_answers: "answers (ref_client view)"
  by (simp add: answers_def ref_client_def)

section \<open>Document ids\<close>

text \<open>User ids without a colon keep the ids of documents apart.\<close>

lemma document_id_inject:
  assumes "CHR '':'' \<notin> set u" and "CHR '':'' \<notin> set v" and "document_id u c = document_id v d"
  shows "u = v \<and> c = d"
proof -
  have "takeWhile (\<lambda>x. x \<noteq> CHR '':'') (document_id w e) = w" if "CHR '':'' \<notin> set w" for w e
    using that by (induction w) (auto simp: document_id_def)
  then have "u = v" using assms by metis
  then show ?thesis using assms(3) by (simp add: document_id_def)
qed

section \<open>The cache mirrors the index\<close>

definition live :: "'s os_memory \<Rightarrow> string \<Rightarrow> string \<Rightarrow> nat \<Rightarrow> bool" where
  "live m user cid h \<longleftrightarrow> (\<exists>u. om_convs m user = Some u \<and> u cid = Some h)"

text \<open>What a process does to its conversations, through handles that are not deleted.\<close>

inductive os_step :: "('b, 's) os_client \<Rightarrow> 'b conv_codec \<Rightarrow> 's os_memory \<Rightarrow> 's os_memory \<Rightarrow> bool" for c cc where
  step_get: "CHR '':'' \<notin> set user \<Longrightarrow> os_get_conversation c cc m user cid create = (r, m') \<Longrightarrow> os_step c cc m m'"
| step_append: "live m user cid h \<Longrightarrow> os_step c cc m (os_append c cc m h msg)"
| step_summary: "live m user cid h \<Longrightarrow> os_step c cc m (os_append_summary c cc m h msg)"
| step_activities: "live m user cid h \<Longrightarrow> os_step c cc m (os_set_activities c cc m h raw)"
| step_load: "live m user cid h \<Longrightarrow> os_load c cc m h = (r, m') \<Longrightarrow> os_step c cc m m'"
| step_delete: "CHR '':'' \<notin> set user \<Longrightarrow> os_delete_conversation c m user cid = (r, m') \<Longrightarrow> os_step c cc m m'"

definition shown_as :: "'b conv_codec \<Rightarrow> os_conv \<Rightarrow> 'b option \<Rightarrow> bool" where
  "shown_as cc cv b \<longleftrightarrow> (\<exists>x d. b = Some x \<and> cc_dec cc x = Some d \<and> (case cd_messages d of None \<Rightarrow> [] | Some ms \<Rightarrow> ms) = oz_messages cv)"

definition mirrors :: "'b conv_codec \<Rightarrow> ('s \<Rightarrow> string \<Rightarrow> string \<Rightarrow> 'b option) \<Rightarrow> 's os_memory \<Rightarrow> bool" where
  "mirrors cc docs m \<longleftrightarrow> (\<forall>user. om_convs m user \<noteq> None \<longrightarrow> CHR '':'' \<notin> set user)
     \<and> (\<forall>user cid h. live m user cid h \<longrightarrow> h < length (om_heap m) \<and> oz_user (om_heap m ! h) = user \<and> oz_id (om_heap m ! h) = cid
          \<and> shown_as cc (om_heap m ! h) (docs (om_server m) (om_index m) (document_id user cid)))"


lemma stored_filled: "cc_dec cc x = Some d \<Longrightarrow> shown_as cc (filled d cv) (Some x)"
  by (simp add: shown_as_def filled_def)

lemma stored_written: "codes cc \<Longrightarrow> shown_as cc cv (Some (cc_enc cc (to_doc now cv)))"
  by (simp add: shown_as_def codes_def to_doc_def)

lemma shown_as_messages: "oz_messages cv = oz_messages cv' \<Longrightarrow> shown_as cc cv b = shown_as cc cv' b"
  by (simp add: shown_as_def)

text \<open>A handle is written whole: its document, and no other live one's, changes.\<close>

lemma mirrors_write:
  assumes "mirrors cc docs m" and "live m user cid h" and "keeps_documents c docs" and "answers c" and "codes cc"
    and cv: "oz_user cv = user" "oz_id cv = cid"
  shows "mirrors cc docs (snd (save_conv c cc (m\<lparr>om_heap := (om_heap m)[h := cv]\<rparr>) h))"
proof -
  let ?m = "m\<lparr>om_heap := (om_heap m)[h := cv]\<rparr>"
  have h: "h < length (om_heap m)" "CHR '':'' \<notin> set user"
    using assms(1,2) unfolding mirrors_def live_def by blast+
  obtain r s' where p: "os_put c (om_index m) (document_id user cid) (cc_enc cc (to_doc (om_now m) cv)) (om_server m) = (r, s')" by fastforce
  with put_keeps [OF assms(3,4) p] have
    s': "docs s' = (docs (om_server m))(om_index m := (docs (om_server m) (om_index m))(document_id user cid \<mapsto> cc_enc cc (to_doc (om_now m) cv)))"
    and r: "r = Inr ()" by blast+
  have eq: "snd (save_conv c cc ?m h) = ?m\<lparr>om_server := s'\<rparr>"
    using h p r cv by (simp add: save_conv_def Let_def)
  have one: "k < length (om_heap m) \<and> oz_user ((om_heap m)[h := cv] ! k) = v \<and> oz_id ((om_heap m)[h := cv] ! k) = d
      \<and> shown_as cc ((om_heap m)[h := cv] ! k) (docs s' (om_index m) (document_id v d))" if "live m v d k" for v d k
  proof -
    have k: "k < length (om_heap m)" "CHR '':'' \<notin> set v" "oz_user (om_heap m ! k) = v" "oz_id (om_heap m ! k) = d"
      "shown_as cc (om_heap m ! k) (docs (om_server m) (om_index m) (document_id v d))"
      using assms(1) that unfolding mirrors_def live_def by blast+
    show ?thesis
    proof (cases "k = h")
      case True
      then have "v = user" "d = cid" using k(3,4) assms(1,2) unfolding mirrors_def by auto
      then show ?thesis using True h(1) cv stored_written [OF assms(5)] by (simp add: s')
    next
      case False
      then have "(v, d) \<noteq> (user, cid)" using that assms(2) by (auto simp: live_def)
      then have "document_id v d \<noteq> document_id user cid" using document_id_inject [OF k(2) h(2)] by blast
      then show ?thesis using False k by (simp add: s')
    qed
  qed
  then show ?thesis
    using assms(1) unfolding eq mirrors_def by (simp add: live_def)
qed

lemma mirrors_append:
  assumes "mirrors cc docs m" and "live m user cid h" and "keeps_documents c docs" and "answers c" and "codes cc"
  shows "mirrors cc docs (os_append c cc m h msg)"
proof -
  have "oz_user (om_heap m ! h) = user" "oz_id (om_heap m ! h) = cid" using assms(1,2) unfolding mirrors_def by blast+
  then show ?thesis unfolding os_append_def Let_def by (intro mirrors_write [OF assms]) simp_all
qed

lemma mirrors_activities:
  assumes "mirrors cc docs m" and "live m user cid h" and "keeps_documents c docs" and "answers c" and "codes cc"
  shows "mirrors cc docs (os_set_activities c cc m h raw)"
proof -
  have "oz_user (om_heap m ! h) = user" "oz_id (om_heap m ! h) = cid" using assms(1,2) unfolding mirrors_def by blast+
  then show ?thesis unfolding os_set_activities_def Let_def by (intro mirrors_write [OF assms]) simp_all
qed

lemma mirrors_with_user:
  assumes "mirrors cc docs m" and "CHR '':'' \<notin> set user"
  shows "mirrors cc docs (with_user_map user m)"
proof -
  have "live (with_user_map user m) v d k = live m v d k" for v d k
    by (auto simp: live_def with_user_map_def split: option.split)
  moreover have "CHR '':'' \<notin> set v" if "om_convs (with_user_map user m) v \<noteq> None" for v
    using that assms by (auto simp: with_user_map_def mirrors_def split: option.splits if_splits)
  ultimately show ?thesis using assms(1) by (auto simp: mirrors_def with_user_map_props)
qed

lemma mirrors_same_documents:
  assumes "mirrors cc docs m" and "docs s' = docs (om_server m)"
  shows "mirrors cc docs (m\<lparr>om_server := s'\<rparr>)"
  using assms by (simp add: mirrors_def live_def)

lemma live_add:
  assumes "add_conv user cid cv m = (h, m1)" and "om_convs m user \<noteq> None"
  shows "live m1 v d k \<longleftrightarrow> (if (v, d) = (user, cid) then k = h else live m v d k)"
  using assms by (auto simp: add_conv_def live_def split: if_splits)

text \<open>A conversation taken into the cache with the document it is stored as.\<close>

lemma mirrors_add:
  assumes "mirrors cc docs m" and "om_convs m user \<noteq> None" and "add_conv user cid cv m = (h, m1)"
    and "oz_user cv = user" "oz_id cv = cid" and "shown_as cc cv (docs (om_server m) (om_index m) (document_id user cid))"
  shows "mirrors cc docs m1"
proof -
  have m1: "om_heap m1 = om_heap m @ [cv]" "h = length (om_heap m)" "om_server m1 = om_server m" "om_index m1 = om_index m"
    and dom: "om_convs m1 v \<noteq> None \<longleftrightarrow> om_convs m v \<noteq> None" for v
    using assms(2,3) by (auto simp: add_conv_def split: if_splits)
  have "k < length (om_heap m1) \<and> oz_user (om_heap m1 ! k) = v \<and> oz_id (om_heap m1 ! k) = d
      \<and> shown_as cc (om_heap m1 ! k) (docs (om_server m1) (om_index m1) (document_id v d))" if l: "live m1 v d k" for v d k
  proof (cases "(v, d) = (user, cid)")
    case True
    then have "k = h" using l live_add [OF assms(3,2)] by simp
    then show ?thesis using True assms(4-6) by (simp add: m1)
  next
    case False
    then have "live m v d k" using l live_add [OF assms(3,2)] by (simp split: if_splits)
    then have "k < length (om_heap m) \<and> oz_user (om_heap m ! k) = v \<and> oz_id (om_heap m ! k) = d
        \<and> shown_as cc (om_heap m ! k) (docs (om_server m) (om_index m) (document_id v d))" using assms(1) unfolding mirrors_def by blast
    then show ?thesis by (simp add: m1 nth_append)
  qed
  then show ?thesis using assms(1) unfolding mirrors_def dom by blast
qed


lemma mirrors_get:
  assumes "mirrors cc docs m" and "CHR '':'' \<notin> set user" and "keeps_documents c docs" and "codes cc"
    and g: "os_get_conversation c cc m user cid create = (r, m')"
  shows "mirrors cc docs m'"
proof -
  let ?m = "with_user_map user m" and ?i = "document_id user cid"
  have w: "mirrors cc docs ?m" by (rule mirrors_with_user [OF assms(1,2)])
  obtain u where u: "om_convs ?m user = Some u" using with_user_map_props(4) by blast
  show ?thesis
  proof (cases "u cid")
    case (Some h)
    then show ?thesis using g w u by (simp add: os_get_conversation_def)
  next
    case None
    obtain r1 s1 where g1: "os_get c (om_index ?m) ?i (om_server ?m) = (r1, s1)" by fastforce
    then have k1: "docs s1 = docs (om_server ?m)" "\<And>x. r1 = Inr x \<Longrightarrow> x = docs (om_server ?m) (om_index ?m) ?i"
      using get_keeps [OF assms(3) g1] by blast+
    have m1: "mirrors cc docs (?m\<lparr>om_server := s1\<rparr>)" by (rule mirrors_same_documents [OF w k1(1)])
    have cached: "mirrors cc docs m1" if "add_conv user cid cv (?m\<lparr>om_server := s2\<rparr>) = (h, m1)" "mirrors cc docs (?m\<lparr>om_server := s2\<rparr>)"
      "oz_user cv = user" "oz_id cv = cid" "shown_as cc cv (docs s2 (om_index ?m) ?i)" for cv s2 h m1
      by (rule mirrors_add [OF that(2) _ that(1,3,4)]) (use u that(5) in simp_all)
    consider (failed) e where "r1 = Inl e" | (there) b where "r1 = Inr (Some b)" | (absent) "r1 = Inr None"
      by (metis option.exhaust sum.exhaust)
    then show ?thesis
    proof cases
      case failed
      then show ?thesis using g u None g1 m1 by (auto simp: os_get_conversation_def Let_def)
    next
      case there
      then have b: "docs s1 (om_index ?m) ?i = Some b" using k1 by simp
      show ?thesis
      proof (cases "cc_dec cc b")
        case None
        then show ?thesis using g u \<open>u cid = None\<close> g1 there m1 by (auto simp: os_get_conversation_def Let_def)
      next
        case (Some d)
        have "add_conv user cid (filled d (new_conversation ?m user cid [])) (?m\<lparr>om_server := s1\<rparr>) = (projr r, m')"
          using g u None g1 there Some by (auto simp: os_get_conversation_def Let_def split: prod.splits)
        moreover have "shown_as cc (filled d (new_conversation ?m user cid [])) (docs s1 (om_index ?m) ?i)" by (simp add: b stored_filled [OF Some])
        moreover have "oz_user (filled d (new_conversation ?m user cid [])) = user" "oz_id (filled d (new_conversation ?m user cid [])) = cid"
          by (simp_all add: filled_def new_conversation_def)
        ultimately show ?thesis using cached m1 by blast
      qed
    next
      case absent
      let ?cv = "new_conversation ?m user cid []"
      obtain r2 s2 where c2: "os_create c (om_index ?m) ?i (cc_enc cc (to_doc (om_now ?m) ?cv)) s1 = (r2, s2)" by fastforce
      from create_keeps [OF assms(3) c2] consider (refused) "docs s2 = docs s1" "r2 \<noteq> Inr ()"
        | (made) "r2 = Inr ()" "docs s2 = (docs s1)(om_index ?m := (docs s1 (om_index ?m))(?i \<mapsto> cc_enc cc (to_doc (om_now ?m) ?cv)))" by blast
      then show ?thesis
      proof cases
        case refused
        have "mirrors cc docs (?m\<lparr>om_server := s2\<rparr>)"
          by (rule mirrors_same_documents [OF w]) (simp add: refused(1) k1(1))
        then show ?thesis using g u None g1 absent m1 c2 refused(2)
          by (auto simp: os_get_conversation_def Let_def split: if_splits sum.splits prod.splits)
      next
        case made
        have "mirrors cc docs (?m\<lparr>om_server := s2\<rparr>)"
          unfolding mirrors_def
        proof (intro conjI allI impI)
          fix v d k assume l: "live (?m\<lparr>om_server := s2\<rparr>) v d k"
          have v: "k < length (om_heap ?m) \<and> oz_user (om_heap ?m ! k) = v \<and> oz_id (om_heap ?m ! k) = d
              \<and> shown_as cc (om_heap ?m ! k) (docs (om_server ?m) (om_index ?m) (document_id v d)) \<and> CHR '':'' \<notin> set v"
            using l w unfolding mirrors_def live_def by auto
          have "(v, d) \<noteq> (user, cid)" using l None u by (auto simp: live_def)
          then have "document_id v d \<noteq> ?i" using document_id_inject v assms(2) by blast
          then show "k < length (om_heap (?m\<lparr>om_server := s2\<rparr>))" "oz_user (om_heap (?m\<lparr>om_server := s2\<rparr>) ! k) = v"
            "oz_id (om_heap (?m\<lparr>om_server := s2\<rparr>) ! k) = d"
            "shown_as cc (om_heap (?m\<lparr>om_server := s2\<rparr>) ! k) (docs (om_server (?m\<lparr>om_server := s2\<rparr>)) (om_index (?m\<lparr>om_server := s2\<rparr>)) (document_id v d))"
            using v by (simp_all add: made(2) k1(1))
        qed (use w in \<open>auto simp: mirrors_def\<close>)
        moreover have "r = Inl ConversationNotFound \<and> m' = ?m\<lparr>om_server := s1\<rparr> \<or> add_conv user cid ?cv (?m\<lparr>om_server := s2\<rparr>) = (projr r, m')"
          using g u None g1 absent c2 made(1) by (auto simp: os_get_conversation_def Let_def split: prod.splits if_splits)
        ultimately show ?thesis using m1 cached [of ?cv s2 "projr r" m'] stored_written [OF assms(4)]
          by (auto simp: made(2) new_conversation_def)
      qed
    qed
  qed
qed

lemma mirrors_cached:
  assumes "mirrors cc docs m" and "live m user cid h" and cv: "oz_user cv = user" "oz_id cv = cid"
    and "shown_as cc cv (docs (om_server m) (om_index m) (document_id user cid))"
  shows "mirrors cc docs (m\<lparr>om_heap := (om_heap m)[h := cv]\<rparr>)"
proof -
  have h: "h < length (om_heap m)" using assms(1,2) unfolding mirrors_def by blast
  have "k < length (om_heap m) \<and> oz_user ((om_heap m)[h := cv] ! k) = v \<and> oz_id ((om_heap m)[h := cv] ! k) = d
      \<and> shown_as cc ((om_heap m)[h := cv] ! k) (docs (om_server m) (om_index m) (document_id v d))" if "live m v d k" for v d k
  proof (cases "k = h")
    case True
    then have "v = user" "d = cid" using that assms(1,2) unfolding mirrors_def by metis+
    then show ?thesis using True h assms(3-5) by simp
  next
    case False
    then show ?thesis using that assms(1) unfolding mirrors_def by simp
  qed
  then show ?thesis using assms(1) unfolding mirrors_def by (simp add: live_def)
qed

lemma mirrors_load:
  assumes "mirrors cc docs m" and "live m user cid h" and "keeps_documents c docs" and l: "os_load c cc m h = (r, m')"
  shows "mirrors cc docs m'"
proof -
  let ?i = "document_id user cid"
  have h: "h < length (om_heap m)" "oz_user (om_heap m ! h) = user" "oz_id (om_heap m ! h) = cid"
    using assms(1,2) unfolding mirrors_def by blast+
  obtain r1 s1 where g1: "os_get c (om_index m) ?i (om_server m) = (r1, s1)" by fastforce
  then have k1: "docs s1 = docs (om_server m)" "\<And>x. r1 = Inr x \<Longrightarrow> x = docs (om_server m) (om_index m) ?i"
    using get_keeps [OF assms(3) g1] by blast+
  have m1: "mirrors cc docs (m\<lparr>om_server := s1\<rparr>)" by (rule mirrors_same_documents [OF assms(1) k1(1)])
  show ?thesis
  proof (cases "\<exists>b d. r1 = Inr (Some b) \<and> cc_dec cc b = Some d")
    case True
    then obtain b d where b: "r1 = Inr (Some b)" "cc_dec cc b = Some d" by blast
    have m': "m' = m\<lparr>om_server := s1, om_heap := (om_heap m)[h := filled d (om_heap m ! h)]\<rparr>"
      using l g1 b h by (simp add: os_load_def Let_def)
    have "shown_as cc (filled d (om_heap m ! h)) (docs s1 (om_index m) ?i)" using stored_filled [OF b(2)] k1(1) k1(2) [OF b(1), symmetric] by simp
    then have "mirrors cc docs ((m\<lparr>om_server := s1\<rparr>)\<lparr>om_heap := (om_heap (m\<lparr>om_server := s1\<rparr>))[h := filled d (om_heap m ! h)]\<rparr>)"
      by (intro mirrors_cached [OF m1, of user cid]) (use assms(2) h in \<open>simp_all add: live_def filled_def\<close>)
    then show ?thesis by (simp add: m')
  next
    case False
    then have "m' = m\<lparr>om_server := s1\<rparr>" using l g1 h by (auto simp: os_load_def Let_def split: sum.splits option.splits)
    then show ?thesis using m1 by simp
  qed
qed

lemma mirrors_delete:
  assumes "mirrors cc docs m" and "CHR '':'' \<notin> set user" and "keeps_documents c docs"
    and d: "os_delete_conversation c m user cid = (r, m')"
  shows "mirrors cc docs m'"
proof -
  let ?i = "document_id user cid"
  obtain r1 s1 where d1: "os_delete c (om_index m) ?i (om_server m) = (r1, s1)" by fastforce
  from delete_keeps [OF assms(3) d1] consider (refused) "docs s1 = docs (om_server m)" "r1 \<noteq> Inr ()"
    | (gone) "r1 = Inr ()" "docs s1 = (docs (om_server m))(om_index m := (docs (om_server m) (om_index m))(?i := None))" by blast
  then show ?thesis
  proof cases
    case refused
    then have "m' = m\<lparr>om_server := s1\<rparr>" using d d1 by (auto simp: os_delete_conversation_def split: sum.splits)
    then show ?thesis using mirrors_same_documents [OF assms(1) refused(1)] by simp
  next
    case gone
    have m': "m' = m\<lparr>om_server := s1, om_convs := (case om_convs m user of None \<Rightarrow> om_convs m | Some u \<Rightarrow> (om_convs m)(user \<mapsto> u(cid := None)))\<rparr>"
      using d d1 gone(1) by (simp add: os_delete_conversation_def)
    show ?thesis
      unfolding mirrors_def
    proof (intro conjI allI impI)
      fix v e k assume l: "live m' v e k"
      have lm: "live m v e k" and ne: "(v, e) \<noteq> (user, cid)"
        using l by (auto simp: m' live_def split: option.splits if_splits)
      have v: "k < length (om_heap m) \<and> oz_user (om_heap m ! k) = v \<and> oz_id (om_heap m ! k) = e
          \<and> shown_as cc (om_heap m ! k) (docs (om_server m) (om_index m) (document_id v e)) \<and> CHR '':'' \<notin> set v"
        using lm assms(1) unfolding mirrors_def live_def by auto
      then have "document_id v e \<noteq> ?i" using document_id_inject ne assms(2) by blast
      then show "k < length (om_heap m')" "oz_user (om_heap m' ! k) = v" "oz_id (om_heap m' ! k) = e"
        "shown_as cc (om_heap m' ! k) (docs (om_server m') (om_index m') (document_id v e))"
        using v by (simp_all add: m' gone(2))
    qed (use assms(1) in \<open>auto simp: m' mirrors_def split: option.splits if_splits\<close>)
  qed
qed

lemma mirrors_step:
  assumes "keeps_documents c docs" and "answers c" and "codes cc" and "os_step c cc m m'" and "mirrors cc docs m"
  shows "mirrors cc docs m'"
  using assms(4)
proof cases
  case (step_get user cid create r)
  then show ?thesis using mirrors_get [OF assms(5) _ assms(1,3)] by blast
next
  case (step_append user cid h msg)
  then show ?thesis using mirrors_append [OF assms(5) _ assms(1,2,3)] by blast
next
  case (step_summary user cid h msg)
  then show ?thesis using mirrors_append [OF assms(5) _ assms(1,2,3)] by (simp add: os_append_summary_def)
next
  case (step_activities user cid h raw)
  then show ?thesis using mirrors_activities [OF assms(5) _ assms(1,2,3)] by blast
next
  case (step_load user cid h r)
  then show ?thesis using mirrors_load [OF assms(5) _ assms(1)] by blast
next
  case (step_delete user cid r)
  then show ?thesis using mirrors_delete [OF assms(5) _ assms(1)] by blast
qed

text \<open>A process starts with an empty cache.\<close>

definition fresh :: "'s os_memory \<Rightarrow> bool" where
  "fresh m \<longleftrightarrow> om_convs m = Map.empty"

lemma new_os_memory_fresh:
  assumes "new_os_memory connect cfg now s = (Inr m, s')"
  shows "fresh m \<and> om_server m = s'"
  using assms by (auto simp: new_os_memory_def fresh_def Let_def split: if_splits sum.splits prod.splits bool.splits)

lemma fresh_mirrors: "fresh m \<Longrightarrow> mirrors cc docs m"
  by (simp add: fresh_def mirrors_def live_def)

lemma mirrors_run:
  assumes "keeps_documents c docs" and "answers c" and "codes cc" and "(os_step c cc)\<^sup>*\<^sup>* m m'" and "mirrors cc docs m"
  shows "mirrors cc docs m'"
  using assms(4,5) by (induction rule: rtranclp_induct) (use mirrors_step [OF assms(1-3)] in blast)+

lemma mirrored_reopened:
  assumes "keeps_documents c docs" and "answers c" and "mirrors cc docs m" and "live m user cid h"
    and n: "fresh n" "om_index n = om_index m" "om_server n = om_server m"
  shows "\<exists>h' n'. os_get_conversation c cc n user cid create = (Inr h', n') \<and> os_full n' h' = os_full m h"
proof -
  have "shown_as cc (om_heap m ! h) (docs (om_server m) (om_index m) (document_id user cid))"
    using assms(3,4) unfolding mirrors_def by blast
  then obtain b d where b: "docs (om_server m) (om_index m) (document_id user cid) = Some b" "cc_dec cc b = Some d"
    "(case cd_messages d of None \<Rightarrow> [] | Some ms \<Rightarrow> ms) = oz_messages (om_heap m ! h)" unfolding shown_as_def by blast
  obtain x s1 where g: "os_get c (om_index m) (document_id user cid) (om_server m) = (Inr x, s1)"
    using assms(2) unfolding answers_def by blast
  then have "x = Some b" using get_keeps [OF assms(1) g] b(1) by simp
  then show ?thesis using g b(2,3) n
    by (simp add: os_get_conversation_def with_user_map_def fresh_def add_conv_def filled_def new_conversation_def os_full_def nth_append Let_def)
qed

text \<open>C5: Another process sees what this one wrote. Whatever a process does to the conversations of an OpenSearch memory,
  opening or creating them, appending messages and summaries, replacing activities, reloading, deleting, in any order, on
  a reachable server that keeps documents and for user ids without a colon, a memory opened afterwards on the same index
  reads every conversation still live in the first process with exactly its messages, in their order.\<close>

theorem os_messages_survive:
  assumes "keeps_documents c docs" and "answers c" and "codes cc" and "fresh start" and "(os_step c cc)\<^sup>*\<^sup>* start m" and "live m user cid h"
    and "fresh n" and "om_index n = om_index m" and "om_server n = om_server m"
  shows "\<exists>h' n'. os_get_conversation c cc n user cid create = (Inr h', n') \<and> os_full n' h' = os_full m h"
  by (rule mirrored_reopened [OF assms(1,2) mirrors_run [OF assms(1-3,5) fresh_mirrors [OF assms(4)]] assms(6-9)])

definition demo_codec :: "conv_doc conv_codec" where
  "demo_codec = \<lparr>cc_enc = id, cc_dec = Some, cc_dec_id = \<lambda>d. Some (cd_conv d)\<rparr>"

definition demo_view :: "conv_doc \<Rightarrow> metadata" where
  "demo_view d = [''userId'' \<mapsto> MStr (cd_user d), ''conversationId'' \<mapsto> MStr (cd_conv d)]"

abbreviation "demo_os \<equiv> ref_client demo_view"

definition demo_opened :: "conv_doc ref_server \<Rightarrow> conv_doc ref_server os_memory" where
  "demo_opened s = \<lparr>om_index = ''i'', om_max_size = 0, om_max_tokens = 0, om_convs = Map.empty, om_heap = [], om_server = s, om_now = ''t''\<rparr>"

definition demo_begun :: "string \<Rightarrow> string \<Rightarrow> conv_doc ref_server os_memory" where
  "demo_begun user cid = snd (os_get_conversation demo_os demo_codec (demo_opened \<lparr>rs_docs = \<lambda>_. [], rs_left = []\<rparr>) user cid True)"

lemmas demo_os_defs = demo_begun_def demo_opened_def demo_codec_def ref_client_def os_get_conversation_def with_user_map_def add_conv_def
  document_id_def new_conversation_def to_doc_def os_append_def save_conv_def os_full_def filled_def os_delete_conversation_def

theorem os_messages_survive_witness:
  "let m = os_append demo_os demo_codec (demo_begun ''u'' ''c'') 0 (plain_message RUser ''q'') in
    \<exists>h' n'. os_get_conversation demo_os demo_codec (demo_opened (om_server m)) ''u'' ''c'' False = (Inr h', n')
      \<and> os_full n' h' = [plain_message RUser ''q'']"
proof -
  let ?got = "demo_begun ''u'' ''c''"
  let ?fin = "os_append demo_os demo_codec ?got 0 (plain_message RUser ''q'')"
  let ?zero = "demo_opened \<lparr>rs_docs = \<lambda>_. [], rs_left = []\<rparr>"
  have l1: "live ?got ''u'' ''c'' 0" by (simp add: live_def demo_os_defs Let_def)
  have "os_step demo_os demo_codec ?zero ?got"
    by (rule step_get [of "''u''" _ _ _ "''c''" True "fst (os_get_conversation demo_os demo_codec ?zero ''u'' ''c'' True)"]) (simp_all add: demo_begun_def)
  note s1 = this
  have s2: "os_step demo_os demo_codec ?got ?fin" by (rule step_append [OF l1])
  have "(os_step demo_os demo_codec)\<^sup>*\<^sup>* ?zero ?got" by (rule r_into_rtranclp [of "os_step demo_os demo_codec", OF s1])
  from rtranclp.rtrancl_into_rtrancl [of "os_step demo_os demo_codec", OF this s2] have "(os_step demo_os demo_codec)\<^sup>*\<^sup>* ?zero ?fin" .
  moreover have "live ?fin ''u'' ''c'' 0" by (simp add: live_def demo_os_defs Let_def)
  moreover have "os_full ?fin 0 = [plain_message RUser ''q'']" "om_index ?fin = ''i''" by (simp_all add: demo_os_defs Let_def)
  moreover have "codes demo_codec" "fresh ?zero" "fresh (demo_opened (om_server ?fin))" by (simp_all add: codes_def demo_codec_def fresh_def demo_opened_def)
  ultimately show ?thesis
    using os_messages_survive [OF ref_keeps_documents ref_answers, of demo_codec ?zero demo_view ?fin "''u''" "''c''" 0 "demo_opened (om_server ?fin)" False]
    by (simp add: demo_opened_def Let_def)
qed

section \<open>Listing\<close>

text \<open>A page holds the selected documents from its offset on; their number is exact up to a cap, without one when
  \<open>cap\<close> is None.\<close>

definition pages :: "('b, 's) os_client \<Rightarrow> ('b \<Rightarrow> metadata) \<Rightarrow> ('s \<Rightarrow> string \<Rightarrow> 'b index_docs) \<Rightarrow> int option \<Rightarrow> bool" where
  "pages c view docs cap \<longleftrightarrow> (\<forall>idx req s n k. rq_scroll req = None \<longrightarrow> rq_newest req = None \<longrightarrow> rq_from req = Some k \<longrightarrow> rq_size req = Some n \<longrightarrow>
     (let ds = filter (\<lambda>d. query_selects (rq_query req) (view (snd d))) (docs s idx) in
      \<exists>r s1. os_search c idx req s = (Inr r, s1) \<and> docs s1 = docs s
        \<and> map ht_source (found r) = map snd (take (nat n) (drop (nat k) ds))
        \<and> sr_total r = Some (case cap of None \<Rightarrow> int (length ds) | Some t \<Rightarrow> min t (int (length ds)))))"

lemma ref_pages: "pages (ref_client view) view rs_docs None"
  by (auto simp: pages_def ref_client_def ref_search_def found_def Let_def take_map drop_map hit_of_def)

definition docs_of_user :: "('b \<Rightarrow> metadata) \<Rightarrow> string \<Rightarrow> 'b index_docs \<Rightarrow> 'b index_docs" where
  "docs_of_user view user ds = filter (\<lambda>d. view (snd d) ''userId'' = Some (MStr user)) ds"

lemma ids_request_page:
  assumes "pages c view docs cap" and "0 \<le> k"
  shows "\<exists>r s1. os_search c idx (ids_request user k) s = (Inr r, s1) \<and> docs s1 = docs s
    \<and> map ht_source (found r) = map snd (take 10000 (drop (nat k) (docs_of_user view user (docs s idx))))
    \<and> sr_total r = Some (case cap of None \<Rightarrow> int (length (docs_of_user view user (docs s idx)))
        | Some t \<Rightarrow> min t (int (length (docs_of_user view user (docs s idx)))))"
proof -
  let ?q = "ids_request user k"
  have q: "rq_scroll ?q = None" "rq_newest ?q = None" "rq_from ?q = Some k" "rq_size ?q = Some 10000" "rq_query ?q = TermQ ''userId'' (MStr user)"
    by (simp_all add: ids_request_def search_for_def page_size_def)
  from assms(1) [unfolded pages_def, rule_format, OF q(1-4), of s idx] show ?thesis
    unfolding docs_of_user_def q(5) Let_def query_selects.simps by simp
qed

lemma hit_ids_map:
  "list_all (\<lambda>b. cc_dec_id cc b \<noteq> None) (map ht_source hs) \<Longrightarrow> hit_ids cc hs = Some (map (\<lambda>b. the (cc_dec_id cc b)) (map ht_source hs))"
  by (induction hs) auto

lemma list_all_page: "list_all P ds \<Longrightarrow> list_all P (take n (drop k (filter Q ds)))"
  by (auto simp: list_all_iff dest!: in_set_takeD in_set_dropD)

lemma list_pages_from:
  assumes "pages c view docs None" and "list_all (\<lambda>d. cc_dec_id cc (snd d) \<noteq> None) (docs s idx)" and "0 \<le> k"
  shows "\<exists>s'. docs s' = docs s \<and> list_pages c cc idx user k acc s
    = Some (Inr (acc @ map (\<lambda>d. the (cc_dec_id cc (snd d))) (drop (nat k) (docs_of_user view user (docs s idx)))), s')"
  using assms(2,3)
proof (induction "length (docs_of_user view user (docs s idx)) - nat k" arbitrary: k acc s rule: less_induct)
  case less
  let ?ds = "docs_of_user view user (docs s idx)"
  obtain r s1 where r: "os_search c idx (ids_request user k) s = (Inr r, s1)" "docs s1 = docs s"
    "map ht_source (found r) = map snd (take 10000 (drop (nat k) ?ds))" "sr_total r = Some (int (length ?ds))"
    using ids_request_page [OF assms(1) less.prems(2)] by fastforce
  have "list_all (\<lambda>d. cc_dec_id cc (snd d) \<noteq> None) (take 10000 (drop (nat k) ?ds))"
    unfolding docs_of_user_def by (rule list_all_page [OF less.prems(1)])
  then have ids: "hit_ids cc (found r) = Some (map (\<lambda>d. the (cc_dec_id cc (snd d))) (take 10000 (drop (nat k) ?ds)))"
    by (subst hit_ids_map) (simp_all add: r(3) list_all_iff comp_def)
  have len: "length (found r) = min 10000 (length ?ds - nat k)"
    using arg_cong [OF r(3), of length] by simp
  show ?case
  proof (cases "int (length ?ds) \<le> k + int (length (found r))")
    case True
    then have "take 10000 (drop (nat k) ?ds) = drop (nat k) ?ds" using less.prems(2) len by simp
    then have "list_pages c cc idx user k acc s = Some (Inr (acc @ map (\<lambda>d. the (cc_dec_id cc (snd d))) (drop (nat k) ?ds)), s1)"
      using r(1,4) ids True by (subst list_pages.simps) simp
    then show ?thesis using r(2) by blast
  next
    case False
    then have lt: "length ?ds - nat (k + page_size) < length ?ds - nat k" using less.prems(2) by (simp add: page_size_def len)
    have split: "take 10000 (drop (nat k) ?ds) @ drop (nat (k + page_size)) ?ds = drop (nat k) ?ds"
      using less.prems(2) append_take_drop_id [of 10000 "drop (nat k) ?ds"] by (simp add: page_size_def nat_add_distrib add.commute)
    have prems: "length (docs_of_user view user (docs s1 idx)) - nat (k + page_size) < length ?ds - nat k"
      "list_all (\<lambda>d. cc_dec_id cc (snd d) \<noteq> None) (docs s1 idx)" "0 \<le> k + page_size"
      using lt less.prems by (simp_all add: r(2) page_size_def)
    obtain s' where "docs s' = docs s1" "list_pages c cc idx user (k + page_size) (acc @ map (\<lambda>d. the (cc_dec_id cc (snd d))) (take 10000 (drop (nat k) ?ds))) s1
        = Some (Inr ((acc @ map (\<lambda>d. the (cc_dec_id cc (snd d))) (take 10000 (drop (nat k) ?ds))) @ map (\<lambda>d. the (cc_dec_id cc (snd d))) (drop (nat (k + page_size)) ?ds)), s')"
      using less.hyps [OF prems] unfolding r(2) by blast
    moreover have "list_pages c cc idx user k acc s
        = list_pages c cc idx user (k + page_size) (acc @ map (\<lambda>d. the (cc_dec_id cc (snd d))) (take 10000 (drop (nat k) ?ds))) s1"
      using r(1,4) ids False by (subst list_pages.simps) simp
    ultimately have "docs s' = docs s" "list_pages c cc idx user k acc s
        = Some (Inr ((acc @ map (\<lambda>d. the (cc_dec_id cc (snd d))) (take 10000 (drop (nat k) ?ds))) @ map (\<lambda>d. the (cc_dec_id cc (snd d))) (drop (nat (k + page_size)) ?ds)), s')"
      using r(2) by simp_all
    moreover have "(acc @ map f (take 10000 (drop (nat k) ?ds))) @ map f (drop (nat (k + page_size)) ?ds) = acc @ map f (drop (nat k) ?ds)" for f
      using arg_cong [OF split, of "map f"] by simp
    ultimately show ?thesis by metis
  qed
qed



text \<open>A server that counts hits only to the page size, as OpenSearch does unless asked otherwise, gets one page asked.\<close>

lemma list_first_page_only:
  assumes "pages c view docs (Some 10000)" and "list_all (\<lambda>d. cc_dec_id cc (snd d) \<noteq> None) (docs (om_server m) (om_index m))"
    and "10000 < length (docs_of_user view user (docs (om_server m) (om_index m)))"
  shows "\<exists>s'. os_list_conversations c cc m user
    = Some (Inr (map (\<lambda>d. the (cc_dec_id cc (snd d))) (take 10000 (docs_of_user view user (docs (om_server m) (om_index m))))), m\<lparr>om_server := s'\<rparr>)"
proof -
  let ?ds = "docs_of_user view user (docs (om_server m) (om_index m))"
  obtain r s1 where r: "os_search c (om_index m) (ids_request user 0) (om_server m) = (Inr r, s1)"
    "map ht_source (found r) = map snd (take 10000 (drop (nat 0) ?ds))" "sr_total r = Some (min 10000 (int (length ?ds)))"
    using ids_request_page [OF assms(1) order_refl] by fastforce
  have "list_all (\<lambda>d. cc_dec_id cc (snd d) \<noteq> None) (take 10000 (drop (nat 0) ?ds))"
    unfolding docs_of_user_def by (rule list_all_page [OF assms(2)])
  then have ids: "hit_ids cc (found r) = Some (map (\<lambda>d. the (cc_dec_id cc (snd d))) (take 10000 ?ds))"
    by (subst hit_ids_map) (simp_all add: r(2) list_all_iff comp_def)
  have "length (found r) = 10000" using arg_cong [OF r(2), of length] assms(3) by simp
  then show ?thesis using r(1,3) ids assms(3) by (intro exI [of _ s1]) (simp add: os_list_conversations_def list_pages.simps)
qed

section \<open>Turns\<close>

text \<open>A turn persists its user message with the answer or not at all, on this backend too.\<close>

lemma os_turn_all_or_nothing:
  assumes "om_wf (se_store se)" and "begin_turn (os_mem_ops c cc count) se user cid (Some u) = Some (Inr t, se1)"
    and "turn_run (os_mem_ops c cc count) cfg os (se1, t) = (se2, t2)"
  shows "\<exists>ext. os_full (se_store se2) (tn_conv t) = os_full (se_store se1) (tn_conv t) @ ext
    \<and> filter not_summary ext = filter not_summary (persisted_by (Some u) os)"
  using os_conversations.turn_persists [OF assms(1,2), of cfg os] assms(3) by auto

section \<open>Where the conversations diverge\<close>

text \<open>A colon in an id: user \<open>a\<close> opens the conversation of user \<open>a:b\<close>.\<close>

lemma colon_reads_another_user:
  "let m = os_append demo_os demo_codec (demo_begun ''a:b'' ''c'') 0 (plain_message RUser ''secret'');
       (r, n) = os_get_conversation demo_os demo_codec (demo_opened (om_server m)) ''a'' ''b:c'' False
   in r = Inr 0 \<and> os_full n 0 = [plain_message RUser ''secret'']"
  by (simp add: demo_os_defs Let_def)

text \<open>Two processes hold the conversation; the second append writes the second's copy over the first's message.\<close>

lemma concurrent_append_lost:
  "let p = demo_begun ''u'' ''c'';
       q = snd (os_get_conversation demo_os demo_codec (demo_opened (om_server p)) ''u'' ''c'' True);
       p1 = os_append demo_os demo_codec p 0 (plain_message RUser ''first'');
       q1 = os_append demo_os demo_codec (q\<lparr>om_server := om_server p1\<rparr>) 0 (plain_message RUser ''second'');
       n = snd (os_get_conversation demo_os demo_codec (demo_opened (om_server q1)) ''u'' ''c'' True)
   in os_full n 0 = [plain_message RUser ''second'']"
  by (simp add: demo_os_defs Let_def)

text \<open>An append through a handle that outlives its conversation's deletion writes the conversation back.\<close>

lemma append_after_delete_restores:
  "let m = os_append demo_os demo_codec (demo_begun ''u'' ''c'') 0 (plain_message RUser ''old'');
       m1 = snd (os_delete_conversation demo_os m ''u'' ''c'');
       m2 = os_append demo_os demo_codec m1 0 (plain_message RUser ''late'');
       n = snd (os_get_conversation demo_os demo_codec m2 ''u'' ''c'' True)
   in map_of (rs_docs (om_server m1) ''i'') ''u:c'' = None \<and> os_full n 1 = [plain_message RUser ''old'', plain_message RUser ''late'']"
  by (simp add: demo_os_defs Let_def)

text \<open>The time of the last update is the one read at opening; writes never change it.\<close>

lemma updated_at_stale: "h < length (om_heap m) \<Longrightarrow> oz_updated (om_heap (os_append c cc m h msg) ! h) = oz_updated (om_heap m ! h)"
  by (simp add: os_append_def Let_def)

end
