(* ===== verification/OsIndexer_Props.thy ===== *)
theory OsIndexer_Props
  imports OsIndexer
begin

text \<open>
  Reconciling makes an index hold nothing of a source that is gone, and storing keeps documents, ids and vectors
  together.
\<close>

section \<open>Scans\<close>

text \<open>Scanning pages one after the other is scanning all the hits, when every body decodes.\<close>

lemma scroll_loop_pages:
  assumes "scroll_pages c keep r s hs s2"
    and "\<And>xs ys acc. \<lbrakk>set xs \<subseteq> set hs; set ys \<subseteq> set hs\<rbrakk> \<Longrightarrow> page (xs @ ys) acc = page ys (snd (page xs acc))"
    and "\<And>xs acc. set xs \<subseteq> set hs \<Longrightarrow> fst (page xs acc)" and "\<And>acc. snd (page [] acc) = acc"
  shows "\<exists>sid. scroll_loop c keep page r (sr_scroll r) acc s = Some (None, snd (page hs acc), sid, s2)"
  using assms
proof (induction arbitrary: acc rule: scroll_pages.induct)
  case (last_page r s)
  then show ?case by (subst scroll_loop.simps) simp
next
  case (next_page r s r' s' hs s2)
  have split: "page (xs @ ys) acc = page ys (snd (page xs acc))" if "set xs \<subseteq> set (found r @ hs)" "set ys \<subseteq> set (found r @ hs)" for xs ys acc
    using next_page.prems(1) that by blast
  have ok: "fst (page xs acc)" if "set xs \<subseteq> set (found r @ hs)" for xs acc using next_page.prems(2) that by blast
  have step: "scroll_loop c keep page r (sr_scroll r) acc s = scroll_loop c keep page r' (sr_scroll r') (snd (page (found r) acc)) s'"
    using next_page.hyps(1,2) ok [of "found r" acc] by (subst scroll_loop.simps) simp
  have "\<exists>sid. scroll_loop c keep page r' (sr_scroll r') (snd (page (found r) acc)) s' = Some (None, snd (page hs (snd (page (found r) acc))), sid, s2)"
  proof (rule next_page.IH)
    fix xs ys a assume "set xs \<subseteq> set hs" "set ys \<subseteq> set hs"
    then show "page (xs @ ys) a = page ys (snd (page xs a))" by (intro split) auto
  next
    fix xs a assume "set xs \<subseteq> set hs"
    then show "fst (page xs a)" by (intro ok) auto
  qed (rule next_page.prems(3))
  then show ?case using step split [of "found r" hs acc] by auto
qed

text \<open>The source ids among hits, in their order.\<close>

definition source_id :: "'b json_codec \<Rightarrow> reconcile_options \<Rightarrow> 'b \<Rightarrow> string" where
  "source_id jc o1 b = (case jc_dec jc b of None \<Rightarrow> [] | Some src \<Rightarrow> field_string (ro_id o1) src)"

definition unseen :: "'b json_codec \<Rightarrow> reconcile_options \<Rightarrow> (string \<Rightarrow> bool) \<Rightarrow> 'b list \<Rightarrow> string list" where
  "unseen jc o1 seen bs = filter (\<lambda>i. i \<noteq> [] \<and> \<not> seen i) (map (source_id jc o1) bs)"

definition decodes :: "'b json_codec \<Rightarrow> 'b hit list \<Rightarrow> bool" where
  "decodes jc hs \<longleftrightarrow> list_all (\<lambda>h. jc_dec jc (ht_source h) \<noteq> None) hs"

lemma unseen_page_eq: "decodes jc hs \<Longrightarrow> unseen_page jc o1 seen hs acc = (True, acc @ unseen jc o1 seen (map ht_source hs))"
  by (induction hs arbitrary: acc) (auto simp: decodes_def unseen_def source_id_def Let_def)

lemma decodes_subset: "decodes jc hs \<Longrightarrow> set xs \<subseteq> set hs \<Longrightarrow> decodes jc xs"
  by (auto simp: decodes_def list_all_iff)

lemma scan_unseen:
  assumes "scroll_pages c keep r s hs s2" and "decodes jc hs"
  shows "\<exists>sid. scroll_loop c keep (unseen_page jc o1 seen) r (sr_scroll r) acc s =
    Some (None, acc @ unseen jc o1 seen (map ht_source hs), sid, s2)"
proof -
  have eq: "unseen_page jc o1 seen xs a = (True, a @ unseen jc o1 seen (map ht_source xs))" if "set xs \<subseteq> set hs" for xs a
    using unseen_page_eq [OF decodes_subset [OF assms(2) that]] .
  have "\<exists>sid. scroll_loop c keep (unseen_page jc o1 seen) r (sr_scroll r) acc s = Some (None, snd (unseen_page jc o1 seen hs acc), sid, s2)"
  proof (rule scroll_loop_pages [OF assms(1)])
    fix xs ys a assume "set xs \<subseteq> set hs" "set ys \<subseteq> set hs"
    then show "unseen_page jc o1 seen (xs @ ys) a = unseen_page jc o1 seen ys (snd (unseen_page jc o1 seen xs a))"
      using eq [of "xs @ ys"] by (simp add: eq) (simp add: unseen_def)
  qed (simp_all add: eq)
  then show ?thesis by (simp add: eq)
qed

section \<open>Deletions\<close>

lemma delete_by_source_ids_done:
  assumes "deletes c view docs" and "delete_by_source_ids c o1 idx sids s = (None, s')"
  shows "docs s' = (docs s)(idx := filter (\<lambda>d. \<not> query_selects (TermsQ (ro_id o1) (map MStr sids)) (view (snd d))) (docs s idx))"
proof (cases "sids = []")
  case True
  then show ?thesis using assms(2) by (auto simp: delete_by_source_ids_def fun_eq_iff split: option.split)
next
  case False
  then obtain r where "os_delete_by_query c idx (TermsQ (ro_id o1) (map MStr sids)) s = (Inr r, s')" "dr_failures r = []"
    using assms(2) by (auto simp: delete_by_source_ids_def split: prod.splits sum.splits if_splits)
  then show ?thesis using assms(1) unfolding deletes_def by blast
qed

lemma query_selects_terms_append:
  "query_selects (TermsQ f (vs @ ws)) m = (query_selects (TermsQ f vs) m \<or> query_selects (TermsQ f ws) m)"
  by (simp split: option.split)

lemma delete_batches_Nil [simp]: "delete_batches c o1 idx [] n s = (n, None, s)"
  by (simp add: delete_batches.simps)

lemma delete_batches_done:
  assumes "deletes c view docs" and "delete_batches c o1 idx sids n s = (n', None, s')"
  shows "docs s' = (docs s)(idx := filter (\<lambda>d. \<not> query_selects (TermsQ (ro_id o1) (map MStr sids)) (view (snd d))) (docs s idx))
    \<and> n' = n + int (length sids)"
  using assms
proof (induction c o1 idx sids n s rule: delete_batches.induct)
  case (1 c o1 idx sids n s)
  show ?case
  proof (cases "sids = []")
    case True
    then show ?thesis using "1.prems" by (auto simp: fun_eq_iff split: option.split)
  next
    case False
    let ?a = "take delete_size sids" and ?b = "drop delete_size sids"
    obtain s1 where d: "delete_by_source_ids c o1 idx ?a s = (None, s1)"
      and rest: "delete_batches c o1 idx ?b (n + int (length ?a)) s1 = (n', None, s')"
      using "1.prems"(2) False by (subst (asm) delete_batches.simps) (auto split: prod.splits option.splits)
    have all: "query_selects (TermsQ (ro_id o1) (map MStr sids)) m =
        (query_selects (TermsQ (ro_id o1) (map MStr ?a)) m \<or> query_selects (TermsQ (ro_id o1) (map MStr ?b)) m)" for m
      by (metis append_take_drop_id map_append query_selects_terms_append)
    have "length ?a + length ?b = length sids" by simp
    then have "int (length ?a) + int (length ?b) = int (length sids)" by (metis of_nat_add)
    moreover note "1.IH" [OF False d [symmetric] refl "1.prems"(1) rest] delete_by_source_ids_done [OF "1.prems"(1) d]
    ultimately show ?thesis by (auto simp: all conj_commute fun_eq_iff simp del: query_selects.simps)
  qed
qed

section \<open>Reconciliation\<close>

text \<open>What is gone: the sources of the documents in scope that were not seen.\<close>

definition gone :: "'b json_codec \<Rightarrow> reconcile_options \<Rightarrow> ('b \<Rightarrow> metadata) \<Rightarrow> (string \<Rightarrow> bool) \<Rightarrow> reconcile_filter option \<Rightarrow> 'b index_docs \<Rightarrow> string list" where
  "gone jc o1 view seen f ds = unseen jc o1 seen (map snd (filter (\<lambda>d. query_selects (reconcile_query f) (view (snd d))) ds))"

lemma query_selects_source:
  assumes "jc_dec jc b = Some (view b)" and "[] \<notin> set ids"
  shows "query_selects (TermsQ (ro_id o1) (map MStr ids)) (view b) = (source_id jc o1 b \<in> set ids)"
  using assms by (auto simp: source_id_def field_string_def split: option.split meta.split)

lemma unseen_nonempty: "[] \<notin> set (unseen jc o1 seen bs)"
  by (simp add: unseen_def)


text \<open>An index with two documents of one source, one in each of two partitions.\<close>

definition demo_meta_json :: "metadata json_codec" where
  "demo_meta_json = \<lparr>jc_enc = Some, jc_dec = Some\<rparr>"

definition demo_part :: "string \<Rightarrow> string \<Rightarrow> metadata" where
  "demo_part sid p = [''source_id'' \<mapsto> MStr sid, ''part'' \<mapsto> MStr p]"

definition demo_index :: "metadata ref_server" where
  "demo_index = \<lparr>rs_docs = (\<lambda>_. [(''1'', demo_part ''a'' ''p''), (''2'', demo_part ''a'' ''q''), (''3'', demo_part ''b'' ''p''), (''4'', demo_part ''b'' ''p'')]),
     rs_left = []\<rparr>"

lemmas demo_reconcile_defs = reconcile_def ref_client_def ref_search_def scan_request_def search_for_def reconcile_query_def
  demo_index_def demo_part_def demo_meta_json_def new_options_def found_def ref_page_def scroll_size_def hit_of_def field_string_def
  delete_by_source_ids_def delete_size_def clear_scroll_def


text \<open>The filter narrows what is looked at, and not what is deleted; and each document of a source is counted.\<close>

lemma reconcile_deletes_outside_filter:
  "map fst (rs_docs (snd (snd (the (reconcile (ref_client id) demo_meta_json (new_options []) ''docs'' (\<lambda>i. i = ''b'')
     (Some \<lparr>rf_field = ''part'', rf_value = ''p''\<rparr>) demo_index)))) ''docs'') = [''3'', ''4'']"
  by (simp add: demo_reconcile_defs scroll_loop.simps delete_batches.simps Let_def)

section \<open>Storing\<close>

text \<open>What is relied on of a bulk request: without errors, each line is stored, later ones over earlier ones.\<close>

definition bulks :: "('b, 's) os_client \<Rightarrow> ('s \<Rightarrow> string \<Rightarrow> 'b index_docs) \<Rightarrow> bool" where
  "bulks c docs \<longleftrightarrow> (\<forall>idx ls s r s'. list_all (\<lambda>l. bl_index l = idx \<and> bl_id l \<noteq> []) ls \<longrightarrow>
     os_bulk c idx ls s = (Inr r, s') \<longrightarrow> \<not> br_errors r \<longrightarrow>
     map_of (docs s' idx) = map_of (docs s idx) ++ map_of (rev (map (\<lambda>l. (bl_id l, bl_source l)) ls)))"

text \<open>What is written for a document, when the embedder works text by text.\<close>

definition vector_of :: "(string \<Rightarrow> rat list) option \<Rightarrow> document \<Rightarrow> rat list option" where
  "vector_of g d = (case dense_vector d of Some v \<Rightarrow> Some v | None \<Rightarrow> map_option (\<lambda>f. f (dc_content d)) g)"

definition body_of :: "'b json_codec \<Rightarrow> indexer_config \<Rightarrow> string \<Rightarrow> (string \<Rightarrow> rat list) option \<Rightarrow> document \<Rightarrow> index_error + 'b bulk_line" where
  "body_of jc cfg idx g d = bulk_item_of jc cfg idx d (vector_of g d)"

definition text_embedder :: "(string \<Rightarrow> rat list) option \<Rightarrow> embedder option" where
  "text_embedder g = map_option (\<lambda>f xs. Inr (map f xs)) g"

lemma fill_vectors_map:
  "fill_vectors (map dense_vector ds) (map (f \<circ> dc_content) (filter (\<lambda>d. dense_vector d = None) ds)) = map (vector_of (Some f)) ds"
  by (induction ds) (auto simp: vector_of_def)

lemma embed_batch_vectors:
  "\<exists>vs. embed_batch (text_embedder g) ds = Inr vs \<and> (case vs of None \<Rightarrow> map (\<lambda>_. None) ds | Some vs \<Rightarrow> vs) = map (vector_of g) ds"
proof (cases g)
  case None
  then show ?thesis
    by (auto simp: embed_batch_def text_embedder_def vector_of_def list_ex_iff Let_def split: option.split)
next
  case (Some f)
  show ?thesis
  proof (cases "filter (\<lambda>d. dense_vector d = None) ds = []")
    case True
    then have "map (vector_of g) ds = map dense_vector ds" by (auto simp: vector_of_def filter_empty_conv)
    then show ?thesis using True by (cases ds) (auto simp: embed_batch_def text_embedder_def Some Let_def filter_empty_conv)
  next
    case False
    then show ?thesis using fill_vectors_map [of ds f] by (simp add: embed_batch_def text_embedder_def Some Let_def comp_def)
  qed
qed

lemma bulk_lines_zip: "bulk_lines jc cfg idx (zip ds (map (vector_of g) ds)) = Inr ls \<Longrightarrow> map (body_of jc cfg idx g) ds = map Inr ls"
  by (induction ds arbitrary: ls) (auto simp: body_of_def bind_res_Inr_iff)

lemma body_of_line: "body_of jc cfg idx g d = Inr l \<Longrightarrow> bl_index l = idx \<and> bl_id l = dc_id d"
  by (auto simp: body_of_def bulk_item_of_def split: sum.splits option.splits)

lemma apply_bulk_given: "[] \<notin> set ids \<Longrightarrow> apply_bulk_results ids items = ids"
  by (induction ids items rule: apply_bulk_results.induct) auto

text \<open>The bodies of documents that could all be written.\<close>

definition source_of :: "'b json_codec \<Rightarrow> indexer_config \<Rightarrow> string \<Rightarrow> (string \<Rightarrow> rat list) option \<Rightarrow> document \<Rightarrow> 'b" where
  "source_of jc cfg idx g d = (case body_of jc cfg idx g d of Inr l \<Rightarrow> bl_source l | Inl e \<Rightarrow> undefined)"

definition stored_as :: "'b json_codec \<Rightarrow> indexer_config \<Rightarrow> string \<Rightarrow> (string \<Rightarrow> rat list) option \<Rightarrow> document list \<Rightarrow> (string \<times> 'b) list" where
  "stored_as jc cfg idx g ds = map (\<lambda>d. (dc_id d, source_of jc cfg idx g d)) ds"

lemma store_batch_stored:
  assumes "bulks c docs" and "store_batch c jc cfg idx (text_embedder g) (map Some ds) s = (Inr ids, s')" and "list_all (\<lambda>d. dc_id d \<noteq> []) ds"
    and "ds \<noteq> []"
  shows "ids = map dc_id ds \<and> map_of (docs s' idx) = map_of (docs s idx) ++ map_of (rev (stored_as jc cfg idx g ds))
    \<and> (\<forall>d \<in> set ds. \<exists>l. body_of jc cfg idx g d = Inr l)"
proof -
  have some: "None \<notin> set (map Some ds)" by auto
  obtain vs where vs: "embed_batch (text_embedder g) ds = Inr vs"
    "(case vs of None \<Rightarrow> map (\<lambda>_. None) ds | Some vs \<Rightarrow> vs) = map (vector_of g) ds" using embed_batch_vectors by blast
  obtain ls where ls: "bulk_lines jc cfg idx (zip ds (map (vector_of g) ds)) = Inr ls"
    using assms(2) some vs by (cases "bulk_lines jc cfg idx (zip ds (map (vector_of g) ds))") (auto simp: store_batch_def Let_def comp_def)
  note lines = bulk_lines_zip [OF ls]
  have "ls \<noteq> []" using lines assms(4) by (cases ls) auto
  then obtain r where bulk: "os_bulk c idx ls s = (Inr r, s')" "\<not> br_errors r" "ids = apply_bulk_results (map dc_id ds) (br_items r)"
    using assms(2) some vs ls by (auto simp: store_batch_def Let_def comp_def split: prod.splits sum.splits if_splits)
  have each: "i < length ds \<Longrightarrow> body_of jc cfg idx g (ds ! i) = Inr (ls ! i)" for i
    using lines by (metis length_map nth_map)
  have len: "length ls = length ds" using lines by (metis length_map)
  have all: "list_all (\<lambda>l. bl_index l = idx \<and> bl_id l \<noteq> []) ls"
    using each body_of_line assms(3) len by (fastforce simp: list_all_length)
  have "map (\<lambda>l. (bl_id l, bl_source l)) ls = stored_as jc cfg idx g ds"
    by (rule nth_equalityI) (use len each body_of_line in \<open>fastforce simp: stored_as_def source_of_def\<close>)+
  moreover have "\<forall>d \<in> set ds. \<exists>l. body_of jc cfg idx g d = Inr l" using each by (auto simp: in_set_conv_nth)
  moreover have "[] \<notin> set (map dc_id ds)" using assms(3) by (auto simp: list_all_iff)
  ultimately show ?thesis
    using assms(1) bulk all apply_bulk_given [of "map dc_id ds"] unfolding bulks_def by simp
qed

lemma bulk_store_stored:
  assumes "bulks c docs" and "1 \<le> ix_batch cfg" and "list_all (\<lambda>d. dc_id d \<noteq> []) ds"
    and "bulk_store c jc cfg idx (text_embedder g) (map Some ds) s = (Inr ids, s')"
  shows "ids = map dc_id ds \<and> map_of (docs s' idx) = map_of (docs s idx) ++ map_of (rev (stored_as jc cfg idx g ds))
    \<and> (\<forall>d \<in> set ds. \<exists>l. body_of jc cfg idx g d = Inr l)"
  using assms(3,4)
proof (induction ds arbitrary: s ids rule: measure_induct_rule [of length])
  case (less ds)
  show ?case
  proof (cases "ds = []")
    case True
    then show ?thesis using less.prems(2) by (simp add: bulk_store.simps stored_as_def)
  next
    case False
    let ?n = "nat (ix_batch cfg)"
    obtain ids1 s1 ids2 where one: "store_batch c jc cfg idx (text_embedder g) (map Some (take ?n ds)) s = (Inr ids1, s1)"
      and rest: "bulk_store c jc cfg idx (text_embedder g) (map Some (drop ?n ds)) s1 = (Inr ids2, s')" and ids: "ids = ids1 @ ids2"
      using less.prems(2) False assms(2)
      by (subst (asm) bulk_store.simps) (auto simp: Let_def take_map drop_map split: prod.splits sum.splits if_splits)
    have split: "ds = take ?n ds @ drop ?n ds" by simp
    then have idsok: "list_all (\<lambda>d. dc_id d \<noteq> []) (take ?n ds)" "list_all (\<lambda>d. dc_id d \<noteq> []) (drop ?n ds)"
      using less.prems(1) by (metis list_all_append)+
    have shorter: "length (drop ?n ds) < length ds" using False assms(2) by (cases ds) auto
    have "take ?n ds \<noteq> []" using False assms(2) by simp
    from store_batch_stored [OF assms(1) one idsok(1) this] less.IH [OF shorter idsok(2) rest]
    have "ids = map dc_id (take ?n ds @ drop ?n ds)"
      and "map_of (docs s' idx) = map_of (docs s idx) ++ map_of (rev (stored_as jc cfg idx g (take ?n ds @ drop ?n ds)))"
      and "\<forall>d \<in> set (take ?n ds @ drop ?n ds). \<exists>l. body_of jc cfg idx g d = Inr l"
      by (simp_all add: ids stored_as_def ball_Un del: append_take_drop_id)
    then show ?thesis by simp
  qed
qed


lemma ref_bulks: "bulks (ref_client view) rs_docs"
proof -
  have "map_of (fold (\<lambda>l ds. ds(bl_index l := AList.update (bl_id l) (bl_source l) (ds (bl_index l)))) ls f idx) =
      map_of (f idx) ++ map_of (rev (map (\<lambda>l. (bl_id l, bl_source l)) ls))"
    if "list_all (\<lambda>l. bl_index l = idx \<and> bl_id l \<noteq> []) ls" for ls :: "'a bulk_line list" and f idx
    using that by (induction ls arbitrary: f) (simp_all add: update_conv' map_add_upd_left)
  then show ?thesis by (auto simp: bulks_def ref_client_def)
qed


end
