(* ===== verification/OsStore_Props.thy ===== *)
theory OsStore_Props
  imports OsStore OsIndexer_Props "HOL-Library.Multiset"
begin

text \<open>
  Memories stored in an index come back when it is listed; and where the default field mapping and the default parser
  lose what was stored.
\<close>

section \<open>Stored and listed\<close>

text \<open>A newest-first search gives, in some order, the documents its query query_selects, as many as asked for.\<close>

definition lists :: "('b, 's) os_client \<Rightarrow> ('b \<Rightarrow> metadata) \<Rightarrow> ('s \<Rightarrow> string \<Rightarrow> 'b index_docs) \<Rightarrow> bool" where
  "lists c view docs \<longleftrightarrow> (\<forall>idx req s r s1 n. rq_scroll req = None \<longrightarrow> rq_from req = Some 0 \<longrightarrow> rq_size req = Some n \<longrightarrow>
     int (length (filter (\<lambda>d. query_selects (rq_query req) (view (snd d))) (docs s idx))) \<le> n \<longrightarrow> os_search c idx req s = (Inr r, s1) \<longrightarrow>
     mset (map (\<lambda>h. (ht_id h, ht_source h)) (found r)) = mset (filter (\<lambda>d. query_selects (rq_query req) (view (snd d))) (docs s idx)))"

lemma ref_lists: "lists (ref_client view) view rs_docs"
  by (auto simp: lists_def ref_client_def ref_search_def found_def hit_of_def comp_def multiset.map_comp Let_def)

definition keeps_fields :: "'b json_codec \<Rightarrow> bool" where
  "keeps_fields jc \<longleftrightarrow> (\<forall>m b. jc_enc jc m = Some b \<longrightarrow> jc_dec jc b = Some m)"

text \<open>The keys that survive: not the content field, none of the keys with an underscore in front.\<close>

definition storable :: "string \<Rightarrow> document \<Rightarrow> bool" where
  "storable content_field d \<longleftrightarrow> dc_id d \<noteq> [] \<and> dc_meta d content_field = None \<and> (\<forall>k. prefix ''_'' k \<longrightarrow> dc_meta d k = None)"

text \<open>A document as it is listed: with its vector among the metadata.\<close>

definition as_listed :: "string \<Rightarrow> (string \<Rightarrow> rat list) option \<Rightarrow> document \<Rightarrow> document" where
  "as_listed vector_field g d = (case g of None \<Rightarrow> d | Some f \<Rightarrow> d\<lparr>dc_meta := (dc_meta d)(vector_field \<mapsto> MVec (f (dc_content d)))\<rparr>)"

lemma storable_no_vector:
  assumes "storable cf d"
  shows "dense_vector d = None"
proof -
  have "dc_meta d dense_key = None" using assms by (simp add: storable_def dense_key_def)
  then show ?thesis by (simp add: dense_vector_def)
qed

lemma parse_hit_of_stored:
  assumes "keeps_fields jc" and "storable cf d" and "ix_mapper cfg = Some (default_document_to_fields cf)" and "ix_vector cfg \<noteq> cf"
    and "body_of jc cfg idx g d = Inr l" and "ht_id h = dc_id d" and "ht_source h = bl_source l"
  shows "parse_hits jc cf [h] = Inr [as_listed (ix_vector cfg) g d]"
proof -
  have meta: "(\<lambda>k. if prefix ''_'' k then None else dc_meta d k) = dc_meta d"
    using assms(2) by (auto simp: storable_def)
  let ?m = "[cf \<mapsto> MStr (dc_content d)] ++ dc_meta d"
  let ?f = "case g of None \<Rightarrow> ?m | Some f \<Rightarrow> ?m(ix_vector cfg \<mapsto> MVec (f (dc_content d)))"
  have "jc_enc jc ?f = Some (bl_source l)"
    using assms(3,5) meta storable_no_vector [OF assms(2)]
    by (cases g) (auto simp: body_of_def bulk_item_of_def vector_of_def default_document_to_fields_def split: option.splits)
  then have "jc_dec jc (ht_source h) = Some ?f" using assms(1,7) by (simp add: keeps_fields_def)
  moreover have "field_string cf ?f = dc_content d"
    using assms(2,4) by (cases g) (auto simp: field_string_def storable_def map_add_def)
  moreover have "?f(cf := None) = dc_meta (as_listed (ix_vector cfg) g d)"
    using assms(2,4) by (cases g) (auto simp: as_listed_def storable_def map_add_def fun_eq_iff split: option.split)
  ultimately show ?thesis
    using assms(6) by (cases g) (simp_all add: bind_res_def as_listed_def)
qed


lemma parse_hits_each:
  assumes "parse_hits jc cf hs = Inr out" and "h \<in> set hs" and "parse_hits jc cf [h] = Inr [d]"
  shows "d \<in> set out"
  using assms by (induction hs arbitrary: out) (auto simp: bind_res_Inr_iff split: option.splits)

text \<open>What the constructors make of a configuration.\<close>

lemma new_indexer_made:
  assumes "new_indexer connect cfg s = (Inr (c, ic), s')"
  shows "connect = Inr c \<and> ic = (with_defaults cfg)\<lparr>ix_mapper :=
    Some (case ix_mapper (with_defaults cfg) of None \<Rightarrow> default_document_to_fields (ix_content (with_defaults cfg)) | Some f \<Rightarrow> f)\<rparr>"
  using assms by (auto simp: new_indexer_def Let_def split: if_splits option.splits prod.splits sum.splits)

lemma new_os_store_indexer:
  assumes "new_os_store (Inr c) jc cfg s = (Inr st, s')"
  shows "valid_os_config (os_defaults cfg) \<and> ot_client st = c \<and> ot_codec st = jc \<and> ot_index st = oc_index (os_defaults cfg) \<and> ot_content st = oc_content (os_defaults cfg)
    \<and> (\<exists>s2 ci s3. new_indexer (Inr c) (os_indexer_config (os_defaults cfg)) s2 = (Inr (ci, ot_indexer st), s3))"
proof -
  let ?d = "os_defaults cfg"
  have v: "valid_os_config ?d" using assms by (auto simp: new_os_store_def Let_def split: if_splits)
  obtain e1 s1 where en: "ensure_os_index c ?d s = (Inr e1, s1)"
    using assms v by (cases "ensure_os_index c ?d s"; cases "fst (ensure_os_index c ?d s)") (auto simp: new_os_store_def Let_def split: if_splits)
  obtain e2 s2 where va: "(if oc_embedding ?d = None then (Inr (), s1) else validate_vector_dimension c ?d s1) = (Inr e2, s2)"
    using assms v en
    by (cases "if oc_embedding ?d = None then (Inr (), s1) else validate_vector_dimension c ?d s1";
        cases "fst (if oc_embedding ?d = None then (Inr (), s1) else validate_vector_dimension c ?d s1)") (auto simp: new_os_store_def Let_def split: if_splits)
  obtain ci ic s3 where ix: "new_indexer (Inr c) (os_indexer_config ?d) s2 = (Inr (ci, ic), s3)"
    using assms v en va
    by (cases "new_indexer (Inr c) (os_indexer_config ?d) s2"; cases "fst (new_indexer (Inr c) (os_indexer_config ?d) s2)")
      (auto simp: new_os_store_def Let_def split: if_splits)
  obtain cr rc s4 where "new_retriever (Inr c) (os_retriever_config ?d) s3 = (Inr (cr, rc), s4)"
    using assms v en va ix
    by (cases "new_retriever (Inr c) (os_retriever_config ?d) s3"; cases "fst (new_retriever (Inr c) (os_retriever_config ?d) s3)")
      (auto simp: new_os_store_def Let_def split: if_splits)
  then have "st = \<lparr>ot_client = c, ot_codec = jc, ot_indexer = ic, ot_retriever = rc, ot_index = oc_index ?d, ot_content = oc_content ?d\<rparr>"
    using assms v en va ix by (auto simp: new_os_store_def Let_def split: if_splits)
  then show ?thesis using v ix by auto
qed

lemma new_os_store_made:
  assumes "new_os_store (Inr c) jc cfg s = (Inr st, s')"
  shows "ot_client st = c \<and> ot_codec st = jc \<and> ot_index st = ix_index (ot_indexer st)
    \<and> ix_mapper (ot_indexer st) = Some (default_document_to_fields (ot_content st)) \<and> 1 \<le> ix_batch (ot_indexer st)
    \<and> ix_embedding (ot_indexer st) = oc_embedding cfg \<and> ix_vector (ot_indexer st) = oc_vector (os_defaults cfg) \<and> ot_content st = oc_content (os_defaults cfg)"
proof -
  let ?d = "os_defaults cfg"
  have "oc_batch ?d \<noteq> 0" "oc_vector ?d \<noteq> []" "oc_content ?d \<noteq> []" "oc_embedding ?d = oc_embedding cfg"
    by (simp_all add: os_defaults_def Let_def)
  then have w: "with_defaults (os_indexer_config ?d) = os_indexer_config ?d" "ix_embedding (os_indexer_config ?d) = oc_embedding cfg"
    by (simp_all add: with_defaults_def os_indexer_config_def)
  from new_os_store_indexer [OF assms] obtain s2 ci s3 where
    st: "new_indexer (Inr c) (os_indexer_config ?d) s2 = (Inr (ci, ot_indexer st), s3)" "valid_os_config ?d" "ot_client st = c" "ot_codec st = jc"
      "ot_index st = oc_index ?d" "ot_content st = oc_content ?d" by blast
  have "ot_indexer st = (os_indexer_config ?d)\<lparr>ix_mapper := Some (default_document_to_fields (oc_content ?d))\<rparr>"
    using new_indexer_made [OF st(1)] unfolding w(1) by (simp add: os_indexer_config_def)
  then show ?thesis using st(2-6) w(2) by (simp add: os_indexer_config_def valid_os_config_def)
qed



definition demo_os_config :: os_config where
  "demo_os_config = \<lparr>oc_urls = [''u''], oc_index = [], oc_embedding = None, oc_vector = [], oc_content = [], oc_hybrid = False, oc_k = 0,
     oc_dimension = 0, oc_batch = 0, oc_pipeline = [], oc_operator = [], oc_should_match = [], oc_min_score = None\<rparr>"

definition demo_memory_doc :: document where
  "demo_memory_doc = \<lparr>dc_id = ''m'', dc_content = ''likes tea'', dc_meta = [''category'' \<mapsto> MStr ''fact'']\<rparr>"

definition demo_server :: "metadata ref_server" where
  "demo_server = \<lparr>rs_docs = \<lambda>_. [], rs_left = []\<rparr>"

lemmas demo_store_defs = demo_os_config_def os_defaults_def new_os_store_def valid_os_config_def ensure_os_index_def ref_client_def
  new_indexer_def os_indexer_config_def with_defaults_def valid_indexer_def new_retriever_def retriever_defaults_def os_retriever_config_def
  valid_retriever_def os_store_docs_def indexer_store_def store_batch_def embed_batch_def demo_memory_doc_def dense_vector_def dense_key_def
  bulk_item_of_def default_document_to_fields_def demo_meta_json_def demo_server_def

definition demo_os_store :: "(metadata, metadata ref_server) os_store" where
  "demo_os_store = (case new_os_store (Inr (ref_client id)) demo_meta_json demo_os_config demo_server of
     (Inr st, s) \<Rightarrow> st | (Inl e, s) \<Rightarrow> undefined)"

lemma demo_store_eq:
  "new_os_store (Inr (ref_client id)) demo_meta_json demo_os_config demo_server = (Inr demo_os_store, demo_server)"
  by (simp add: demo_os_store_def demo_store_defs Let_def rune_count_def runes_def)

lemma demo_stored:
  "os_store_docs demo_os_store [Some demo_memory_doc] demo_server
     = (Inr [''m''], demo_server\<lparr>rs_docs := (\<lambda>_. [])(''eino_agent_memory'' := [(''m'', [''content'' \<mapsto> MStr ''likes tea'', ''category'' \<mapsto> MStr ''fact''])])\<rparr>)"
  by (simp add: demo_os_store_def demo_store_defs bulk_store.simps Let_def rune_count_def runes_def fun_eq_iff map_add_def)


text \<open>Two more of what is lost: metadata under the content field replaces the content, and the default parser reads the content
  under \<open>content\<close> whatever field is configured, and gives no document an id.\<close>

lemma content_overridden:
  "dc_meta d ''content'' = Some v \<Longrightarrow> default_document_to_fields ''content'' d = Inr m \<Longrightarrow> m ''content'' = Some v"
  by (auto simp: default_document_to_fields_def map_add_def)

lemma parsed_without_ids: "parse_hits_with jc default_result_parser hs = Inr ds \<Longrightarrow> d \<in> set ds \<Longrightarrow> dc_id d = []"
  by (induction hs arbitrary: ds) (auto simp: default_result_parser_def bind_res_Inr_iff split: option.splits)

lemma content_field_not_read:
  "fst (retrieve_documents (ref_client id) demo_meta_json ((os_retriever_config (os_defaults demo_os_config))\<lparr>rc_content := ''text''\<rparr>) None None ''tea''
     \<lparr>rs_docs = \<lambda>_. [(''m'', [''text'' \<mapsto> MStr ''likes tea''])], rs_left = []\<rparr>)
   = Inr [\<lparr>dc_id = [], dc_content = [], dc_meta = [''text'' \<mapsto> MStr ''likes tea'', ''_id'' \<mapsto> MStr ''m'', ''_index'' \<mapsto> MStr ''eino_agent_memory'', ''_version'' \<mapsto> MNum 1]\<rparr>]"
  by (simp add: retrieve_documents_def demo_store_defs build_search_body_def search_for_def ref_search_def parse_search_result_def found_def
      hit_of_def search_hit_to_map_def default_result_parser_def field_string_def fun_eq_iff Let_def)

end
