(* ===== verification/Checkup_Props.thy ===== *)
theory Checkup_Props
  imports Checkup OsMemory_Props OsStore_Props
begin

text \<open>What the health checks leave alone, and what their probes cannot see.\<close>

section \<open>A check keeps to its user\<close>

text \<open>Looking at an index, creating it and searching it change no document.\<close>

definition looks_only :: "('b, 's) os_client \<Rightarrow> ('s \<Rightarrow> string \<Rightarrow> string \<Rightarrow> 'b option) \<Rightarrow> bool" where
  "looks_only c docs \<longleftrightarrow> (\<forall>idx s. docs (snd (os_exists c idx s)) = docs s)
     \<and> (\<forall>idx p t s. docs (snd (os_create_index c idx p t s)) = docs s) \<and> (\<forall>idx req s. docs (snd (os_search c idx req s)) = docs s)"

lemma ref_looks_only: "looks_only (ref_client view) (\<lambda>s idx. map_of (rs_docs s idx))"
  by (auto simp: looks_only_def ref_client_def ref_search_def Let_def)

definition spared :: "('s \<Rightarrow> string \<Rightarrow> string \<Rightarrow> 'b option) \<Rightarrow> 's \<Rightarrow> 's \<Rightarrow> bool" where
  "spared docs s s' \<longleftrightarrow> (\<forall>idx i. \<not> prefix (check_user @ '':'') i \<longrightarrow> docs s' idx i = docs s idx i)"

lemma spared_same: "docs s' = docs s \<Longrightarrow> spared docs s s'"
  by (simp add: spared_def)

lemma spared_trans: "spared docs s s' \<Longrightarrow> spared docs s' s'' \<Longrightarrow> spared docs s s''"
  by (simp add: spared_def)

lemma spared_one:
  "docs s' = docs s \<and> P \<or> Q \<and> docs s' = (docs s)(idx := (docs s idx)(document_id check_user cid := x)) \<Longrightarrow> spared docs s s'"
  by (auto simp: spared_def document_id_def)

text \<open>The handle the probes work on belongs to the check's user.\<close>

lemma get_probe_conversation:
  assumes "fresh m" and "keeps_documents c docs" and "os_get_conversation c cc m check_user cid create = (r, m')"
  shows "spared docs (om_server m) (om_server m') \<and> om_index m' = om_index m
    \<and> (\<forall>h. r = Inr h \<longrightarrow> h < length (om_heap m') \<and> oz_user (om_heap m' ! h) = check_user)"
proof -
  let ?m = "with_user_map check_user m"
  have w: "om_server ?m = om_server m" "om_index ?m = om_index m" "the (om_convs ?m check_user) = Map.empty"
    using assms(1) by (simp_all add: with_user_map_def fresh_def)
  obtain r1 s1 where g1: "os_get c (om_index m) (document_id check_user cid) (om_server m) = (r1, s1)" by fastforce
  have k1: "docs s1 = docs (om_server m)" using get_keeps [OF assms(2) g1] by blast
  obtain r2 s2 where c2: "os_create c (om_index m) (document_id check_user cid)
      (cc_enc cc (to_doc (om_now ?m) (new_conversation ?m check_user cid []))) s1 = (r2, s2)" by fastforce
  have k2: "spared docs s1 s2" by (rule spared_one [OF create_keeps [OF assms(2) c2]])
  have sp1: "spared docs (om_server m) s1" by (rule spared_same [OF k1])
  note sp = sp1 spared_trans [OF sp1 k2]
  show ?thesis
    using assms(3) g1 c2 sp
    by (auto simp: os_get_conversation_def w add_conv_def nth_append filled_def new_conversation_def Let_def
        split: sum.splits option.splits if_splits)
qed

lemma save_spares:
  assumes "keeps_documents c docs" and "answers c" and "oz_user (om_heap m ! h) = check_user"
  shows "spared docs (om_server m) (om_server (snd (save_conv c cc m h))) \<and> om_index (snd (save_conv c cc m h)) = om_index m"
proof -
  let ?cv = "om_heap m ! h"
  obtain r s' where p: "os_put c (om_index m) (document_id check_user (oz_id ?cv)) (cc_enc cc (to_doc (om_now m) ?cv)) (om_server m) = (r, s')" by fastforce
  have "spared docs (om_server m) s'"
    by (rule spared_one [where P = False, OF disjI2]) (rule put_keeps [OF assms(1,2) p])
  then show ?thesis using p assms(3) by (auto simp: save_conv_def Let_def split: sum.split)
qed

lemma append_spares:
  assumes "keeps_documents c docs" and "answers c" and "h < length (om_heap m)" and "oz_user (om_heap m ! h) = check_user"
  shows "spared docs (om_server m) (om_server (os_append c cc m h msg)) \<and> om_index (os_append c cc m h msg) = om_index m"
  using save_spares [OF assms(1,2), of "m\<lparr>om_heap := (om_heap m)[h := (om_heap m ! h)\<lparr>oz_messages := oz_messages (om_heap m ! h) @ [msg]\<rparr>]\<rparr>" h cc] assms(3,4)
  by (simp add: os_append_def Let_def)

lemma delete_spares:
  assumes "keeps_documents c docs"
  shows "spared docs (om_server m) (om_server (snd (os_delete_conversation c m check_user cid)))
    \<and> om_index (snd (os_delete_conversation c m check_user cid)) = om_index m"
proof -
  obtain r s' where d: "os_delete c (om_index m) (document_id check_user cid) (om_server m) = (r, s')" by fastforce
  have "spared docs (om_server m) s'" by (rule spared_one [OF delete_keeps [OF assms d]])
  then show ?thesis using d by (auto simp: os_delete_conversation_def split: sum.split)
qed

lemma list_pages_spares:
  assumes "looks_only c docs" and "list_pages c cc idx user k acc s = Some (r, s')"
  shows "docs s' = docs s"
proof -
  have "c = c \<longrightarrow> docs (snd (r, s')) = docs s"
  proof (rule list_pages.raw_induct [where P = "\<lambda>c' cc idx user k acc s res. c' = c \<longrightarrow> docs (snd res) = docs s", OF _ assms(2)], rule impI)
    fix lp c' cc idx user k acc s res
    assume ih: "\<And>c' cc idx user k acc s res. lp c' cc idx user k acc s = Some res \<Longrightarrow> c' = c \<longrightarrow> docs (snd res) = docs s"
      and run: "(case os_search c' idx (ids_request user k) s of (res, s1) \<Rightarrow>
        (case res of
           Inl e \<Rightarrow> Some (Inl (BackendError e), s1)
         | Inr r \<Rightarrow>
             (case hit_ids cc (found r) of
                None \<Rightarrow> Some (Inl UnmarshalError, s1)
              | Some ids \<Rightarrow>
                  if (case sr_total r of None \<Rightarrow> True | Some n \<Rightarrow> n \<le> k + int (length (found r)))
                  then Some (Inr (acc @ ids), s1)
                  else lp c' cc idx user (k + page_size) (acc @ ids) s1))) = Some res"
      and c': "c' = c"
    obtain x s1 where x: "os_search c idx (ids_request user k) s = (x, s1)" by fastforce
    have "docs s1 = docs s" using assms(1) x unfolding looks_only_def by (metis snd_conv)
    then show "docs (snd res) = docs s"
      using run ih c' x by (auto split: sum.splits option.splits if_splits)
  qed
  then show ?thesis by simp
qed


lemma list_spares:
  assumes "looks_only c docs" and "os_list_conversations c cc m user = Some (r, m')"
  shows "docs (om_server m') = docs (om_server m) \<and> om_index m' = om_index m \<and> om_heap m' = om_heap m"
  using assms(2) list_pages_spares [OF assms(1)] by (auto simp: os_list_conversations_def)

lemma delete_ids_spares:
  assumes "keeps_documents c docs"
  shows "spared docs (om_server m) (om_server (delete_ids (os_mem_ops c cc tk) ids m))"
proof (induction ids arbitrary: m)
  case Nil
  then show ?case by (simp add: delete_ids_def spared_same)
next
  case (Cons i ids)
  let ?m1 = "snd (os_delete_conversation c m check_user i)"
  have "delete_ids (os_mem_ops c cc tk) (i # ids) m = delete_ids (os_mem_ops c cc tk) ids ?m1"
    by (simp add: delete_ids_def os_mem_ops_def)
  then show ?case using spared_trans [OF conjunct1 [OF delete_spares [OF assms]] Cons.IH [of ?m1]] by simp
qed

lemma clean_spares:
  assumes "keeps_documents c docs" and "looks_only c docs"
    and "clean_conversations probe_too (os_mem_ops c cc tk) (os_list_conversations c cc) m = Some m'"
  shows "spared docs (om_server m) (om_server m')"
proof -
  obtain l m1 where l: "os_list_conversations c cc m check_user = Some (l, m1)" using assms(3) by (auto simp: clean_conversations_def)
  have s1: "spared docs (om_server m) (om_server m1)" by (rule spared_same) (use list_spares [OF assms(2) l] in blast)
  show ?thesis
  proof (cases l)
    case (Inl e)
    then show ?thesis using assms(3) l s1 by (simp add: clean_conversations_def)
  next
    case (Inr ids)
    then have "m' = delete_ids (os_mem_ops c cc tk) (if probe_too then ids @ [check_conv_id] else ids) m1"
      using assms(3) l by (simp add: clean_conversations_def)
    then show ?thesis using spared_trans [OF s1 delete_ids_spares [OF assms(1)]] by simp
  qed
qed

lemma probes_spare:
  assumes "keeps_documents c docs" and "answers c" and "looks_only c docs" and "fresh m"
    and run: "crud_probes got show_err (os_mem_ops c cc tk) os_full (os_list_conversations c cc) m = Some (rs, m')"
  shows "spared docs (om_server m) (om_server m')"
proof -
  obtain r m1 where g: "os_get_conversation c cc m check_user check_conv_id True = (r, m1)" by fastforce
  note g1 = get_probe_conversation [OF assms(4,1) g]
  show ?thesis
  proof (cases r)
    case (Inl e)
    then have "om_server m' = om_server (snd (os_delete_conversation c m1 check_user check_conv_id))"
      using run g by (auto simp: crud_probes_def os_mem_ops_def Let_def split: prod.splits sum.splits)
    then show ?thesis using spared_trans [OF conjunct1 [OF g1] conjunct1 [OF delete_spares [OF assms(1)]]] by simp
  next
    case (Inr h)
    let ?m2 = "os_append c cc m1 h (plain_message RAssistant ''checkup'')"
    obtain l m3 where l: "os_list_conversations c cc ?m2 check_user = Some (l, m3)"
      using run g Inr by (auto simp: crud_probes_def os_mem_ops_def Let_def)
    then have "om_server m' = om_server (snd (os_delete_conversation c m3 check_user check_conv_id))"
      using run g Inr by (auto simp: crud_probes_def os_mem_ops_def Let_def split: prod.splits sum.splits)
    moreover have "spared docs (om_server m1) (om_server ?m2)" using append_spares [OF assms(1,2)] g1 Inr by blast
    moreover have "spared docs (om_server ?m2) (om_server m3)" by (rule spared_same) (use list_spares [OF assms(3) l] in blast)
    ultimately show ?thesis
      using spared_trans [OF spared_trans [OF spared_trans [OF conjunct1 [OF g1]]] conjunct1 [OF delete_spares [OF assms(1)]]] by simp
  qed
qed




section \<open>What the probes do not see\<close>

text \<open>The append probe counts the cached messages, so it passes when nothing can be written.\<close>

lemma append_probe_blind: "h < length (om_heap m) \<Longrightarrow> length (os_full m h) < length (os_full (os_append c cc m h msg) h)"
  by (simp add: os_append_def os_full_def Let_def)

text \<open>The memory check's document has an id, which a successful store returns; so its two delete probes never run.\<close>

lemma test_document_keeps_id:
  assumes "1 \<le> ix_batch (ot_indexer st)" and "os_store_docs st [Some (test_document now)] s = (Inr ids, s')"
  shows "ids = [''checkup_test'']"
proof -
  have "bulk_store (ot_client st) (ot_codec st) (ot_indexer st) (ix_index (ot_indexer st)) (ix_embedding (ot_indexer st)) [Some (test_document now)] s = (Inr ids, s')"
    using assms(2) by (simp add: os_store_docs_def indexer_store_def)
  moreover have "nat (ix_batch (ot_indexer st)) = Suc (nat (ix_batch (ot_indexer st) - 1))" using assms(1) by simp
  ultimately obtain ids1 s1 where "store_batch (ot_client st) (ot_codec st) (ot_indexer st) (ix_index (ot_indexer st)) (ix_embedding (ot_indexer st))
      [Some (test_document now)] s = (Inr ids1, s1)" "ids = ids1"
    using assms(1) by (auto simp: bulk_store.simps Let_def split: prod.splits sum.splits)
  moreover have "apply_bulk_results [''checkup_test''] items = [''checkup_test'']" for items
    using apply_bulk_given [of "[''checkup_test'']" items] by simp
  ultimately show ?thesis
    by (auto simp: store_batch_def test_document_def Let_def split: prod.splits sum.splits if_splits)
qed

lemma check_never_deletes:
  assumes "new_os_store (Inr c) jc cfg s = (Inr st, s1)" and "store_check (Inr c) jc tell tell_ix tell_rt cfg e now s = (rs, s')"
  shows "\<exists>pre. rs = pre @ [limited ''delete'' ''store did not return an ID, cannot test delete'',
    limited ''delete_by_filter'' ''store did not return an ID, cannot test delete_by_filter'']"
proof -
  have b: "1 \<le> ix_batch (ot_indexer st)" using new_os_store_made [OF assms(1)] by blast
  obtain r s4 where r: "os_store_docs st [Some (test_document now)] (snd (os_list st 0 1 (snd (os_count_memories st s1)))) = (r, s4)" by fastforce
  have "r = Inr ids \<Longrightarrow> ids = [''checkup_test'']" for ids using test_document_keeps_id [OF b] r by simp
  then show ?thesis
    using assms r by (cases r) (auto simp: store_check_def Let_def case_prod_beta split: prod.splits sum.splits list.splits)
qed

text \<open>The check of sessions leaves its conversation in the store.\<close>

lemma session_check_leaves_conversation:
  "let ops = fm_ops content_codec default_token_counter
   in map_option (\<lambda>(rs, se). (rs, map_option (\<lambda>x. map fst (d_files (fm_disk (se_store x)))) se))
        (session_check (\<lambda>_. ''e'') ops (Some demo_session))
      = Some ([passed ''session'' ''BeginTurn + Discard succeeded'' []], Some [''/m/__checkup/checkup_test.jsonl''])"
  by code_simp

end
