(* ===== verification/Spec2Isabelle.thy ===== *)
theory Spec2Isabelle
  imports StrUtil FileWalk Window Session_Lock Runner ShellOut JsonCrush ContextOpt_Props
    SafetyMiddleware Bus_Props MemoryAgent_Props Pipe DocSplit ToolNorm Selector
    FileTools_Copy CostTrack_Metrics Checkup_Props
begin

text \<open>
  Verification development of eino-ext, a Go library of extensions to the Eino LLM framework.

  \<^bold>\<open>The program.\<close> An agent built with the library keeps its conversations in a store
  (\<^verbatim>\<open>components/memory\<close>), works on them one locked turn at a time, shortens them to fit the
  model's context (\<^verbatim>\<open>components/middleware/contextopt\<close>, with the compressors of
  \<^verbatim>\<open>libs/contentcomp\<close>), passes every tool call through a safety layer
  (\<^verbatim>\<open>components/middleware/safety\<close>, \<^verbatim>\<open>libs/toolkit/safety\<close>) and tells its
  observers what it does over an activity bus (\<^verbatim>\<open>callbacks/activity\<close>). It remembers what it
  learned across conversations (\<^verbatim>\<open>components/agent/memory\<close>). The file tools
  (\<^verbatim>\<open>components/tool/file\<close>) work in a directory per session and guard their paths with
  \<^verbatim>\<open>libs/toolkit/fileutil\<close>; commands run in sandboxes (\<^verbatim>\<open>components/tool/shell\<close>), alone or as
  steps of a pipeline with other tools (\<^verbatim>\<open>components/tool/pipe\<close>). The callbacks of the framework feed the bus
  (\<^verbatim>\<open>callbacks/activity/handler.go\<close>); a tracker follows each session on it, prices its steps and counts what it
  cost (\<^verbatim>\<open>libs/costtrack\<close>, \<^verbatim>\<open>libs/modelsdev\<close>). Conversations, memories and documents can live in an
  OpenSearch index instead of files (\<^verbatim>\<open>components/memory/opensearch\<close>, \<^verbatim>\<open>components/agent/memory/opensearch\<close>,
  \<^verbatim>\<open>components/indexer/opensearch\<close>, \<^verbatim>\<open>components/retriever/opensearch\<close>).

  \<^bold>\<open>Theories.\<close>
    \<^item> \<open>Prelude\<close>, \<open>GoText\<close>: results, byte strings as Go has them (UTF-8 runes, \<open>strings\<close>, \<open>strconv\<close>), shared lemmas.
    \<^item> \<open>GoRegex\<close>: regular expressions by derivatives, for the expressions of the source.
    \<^item> \<open>StrUtil\<close>: \<^verbatim>\<open>libs/toolkit/strutil\<close>.
    \<^item> \<open>FileUtil\<close>, \<open>FileWalk\<close>: the guards of \<^verbatim>\<open>libs/toolkit/fileutil\<close>, lexical and over a
      file system of named nodes.
    \<^item> \<open>Messages\<close>, \<open>Window\<close>: \<^verbatim>\<open>markers.go\<close>, \<^verbatim>\<open>conversation.go\<close>, \<^verbatim>\<open>libs/counter\<close>. The
      locale \<open>token_counter\<close> states what the window's search relies on; the default counter interprets it.
    \<^item> \<open>FileMemory\<close>: \<^verbatim>\<open>components/memory/file/file.go\<close>. Handles are indices into a heap, as
      conversations are shared pointers; the disk is a list of named files.
    \<^item> \<open>Session\<close>, \<open>Session_Lock\<close>: \<^verbatim>\<open>components/memory/session/session.go\<close>. The locale
      \<open>conversation_store\<close> is the contract of a store, \<open>file_store\<close> its interpretation on the file memory; the
      lock is a step relation of threads.
    \<^item> \<open>Runner\<close>: \<^verbatim>\<open>components/memory/runner\<close>, the bridge from agent events to a turn.
    \<^item> \<open>ContentStore\<close>, \<open>ShellOut\<close>, \<open>JsonCrush\<close>: \<^verbatim>\<open>libs/contentcomp\<close>. The locale \<open>content_store\<close>
      is interpreted on the memory store for every digest.
    \<^item> \<open>ContextOpt\<close>, \<open>ContextOpt_Props\<close>: \<^verbatim>\<open>components/middleware/contextopt\<close>.
    \<^item> \<open>Safety\<close>, \<open>SafetyMiddleware\<close>: \<^verbatim>\<open>libs/toolkit/safety\<close>, \<^verbatim>\<open>libs/toolkit/confirm\<close>,
      \<^verbatim>\<open>components/middleware/safety\<close>.
    \<^item> \<open>Bus\<close>, \<open>Bus_Props\<close>: \<^verbatim>\<open>callbacks/activity/bus.go\<close>.
    \<^item> \<open>MemoryEntry\<close>, \<open>MemoryFile\<close>, \<open>MemoryFile_Props\<close>: \<^verbatim>\<open>components/agent/memory\<close>'s entries and their
      JSONL store. \<open>MemoryMaintainer\<close>: \<^verbatim>\<open>maintainer.go\<close>; the locale \<open>memory_backend\<close> is interpreted on the
      file store. \<open>RunTrace\<close>: \<^verbatim>\<open>trace.go\<close>. \<open>MemoryAgent\<close>, \<open>MemoryAgent_Props\<close>: \<^verbatim>\<open>agent.go\<close>,
      \<^verbatim>\<open>extractor.go\<close>, \<^verbatim>\<open>check.go\<close>.
    \<^item> \<open>Egress\<close>: \<^verbatim>\<open>libs/toolkit/egress\<close>, addresses as words. \<open>Blocklist\<close>: the default patterns of
      \<^verbatim>\<open>libs/toolkit/safety/blocklist.go\<close> with a parser and a matcher for them.
    \<^item> \<open>Shell\<close>, \<open>Shell_Props\<close>: profiles, containers, sessions and the shell tool. \<open>Pipe\<close>: pipelines over it; the
      commands in a container are those the block list let through, and write tools run as the gate allows.
    \<^item> \<open>DocSplit\<close>: \<^verbatim>\<open>components/document/transformer\<close>. \<open>ToolNorm\<close>: \<^verbatim>\<open>components/model/cachestab\<close>, one
      normal form for tools that differ in order. \<open>Selector\<close>: \<^verbatim>\<open>libs/toolkit/filter\<close>, with what a selector means.

    \<^item> \<open>FileTree\<close>: the work directory as a tree, the system calls on it with failures chosen by the environment, and
      what \<^verbatim>\<open>fileutil\<close> copies, walks, touches and sweeps. \<open>FileTools\<close>: \<^verbatim>\<open>components/tool/file\<close>.
      \<open>FileTools_Props\<close>, \<open>FileTools_Calls\<close>: no call leaves its session's directory or makes a link; refused calls,
      reading after writing, stale sessions. \<open>FileTools_Copy\<close>: copies of directories, exactly, and their previews.
    \<^item> \<open>Activity\<close>, \<open>Activity_Props\<close>: the payloads, the run context and the callback handler of \<^verbatim>\<open>callbacks/activity\<close>,
      and \<^verbatim>\<open>components/middleware/agentattr\<close>; a consumer that follows started and ended blocks never meets an open
      one. \<open>Pricing\<close>: \<^verbatim>\<open>libs/modelsdev\<close>. \<open>CostSaver\<close>: \<^verbatim>\<open>costsaver.go\<close>. \<open>CostTrack\<close>: \<^verbatim>\<open>libs/costtrack\<close> and the
      collector of \<^verbatim>\<open>callbacks/activity/metrics\<close>; \<open>CostTrack_Props\<close>, \<open>CostTrack_Metrics\<close>: totals add up, counters
      agree with them, a session is one task.
    \<^item> \<open>OsClient\<close>: an OpenSearch server as the client library shows it, a parameter, with a reference server that meets what
      is relied on. \<open>OsIndexer\<close>, \<open>OsIndexer_Props\<close>: \<^verbatim>\<open>components/indexer/opensearch\<close>, stored and reconciled exactly.
      \<open>OsStore\<close>, \<open>OsStore_Props\<close>: \<^verbatim>\<open>components/retriever/opensearch\<close> and \<^verbatim>\<open>components/agent/memory/opensearch\<close>,
      memories stored and listed. \<open>OsMemory\<close>, \<open>OsMemory_Props\<close>: \<^verbatim>\<open>components/memory/opensearch\<close>, a second
      interpretation of \<open>conversation_store\<close>; a process's cache mirrors the index. \<open>Checkup\<close>, \<open>Checkup_Props\<close>: the health
      checks of the stores and of sessions, which keep to the documents of their own user.

  \<^bold>\<open>Conventions.\<close> A Go \<open>int\<close> that the code never lets come near its bounds is an \<open>int\<close> or \<open>nat\<close>;
  the event counter wraps at \<open>2 ^ 64\<close>. Strings are byte lists. Errors are the left side of a sum or
  an option. A Go map that is only looked up is a function; one that is ranged over is a list in any
  order, so a theorem holds for every order Go may choose. Prices and ratios are rational: rounding of \<open>float64\<close> is not modelled. Loops are structural recursions or have a
  measure; the star of a pattern has the length of the text as fuel, which is enough as every round consumes; the walk of a directory has the height of
  the tree, which the theorems on copies show to be enough. JSON encoding, digests, CEL programs, models and token counters are
  parameters, with what is asked of them as named hypotheses.

  \<^bold>\<open>Not modelled.\<close> Clients of remote services (Kubernetes, GitHub, Grafana, S3, web
  search, the copilot models), the container engine, the OpenSearch server behind its client, HTTP transports, exporters and logging: input and output
  around third-party packages. Within the modelled parts: background tickers, the default redactor of run traces,
  and the copying of bytes by the egress proxy. System calls of the file tools are atomic, and no other process
  changes the work directory between them.
\<close>

end
